(* ===== verification/GoPrelude.thy ===== *)
theory GoPrelude
  imports Main "HOL-Library.Word" "HOL-Library.Code_Target_Numeral"
begin

text \<open>
  What every component of the development shares: the named collections the
  component proofs rewrite with, and small facts on lists, options and sums
  that the library does not carry in the form needed here.

  Go values: an \<open>int\<close> that is an index or a count is \<open>nat\<close> here (the model
  never subtracts below zero on such a value, or writes the test out); a Go
  \<open>string\<close> is a byte string, so it is an Isabelle \<open>string\<close>, whose characters are
  bytes; a \<open>rune\<close> is \<open>nat\<close>; an error result is the left side of a sum.
\<close>

named_theorems inv_intros \<open>an operation keeps its component's invariant\<close>
named_theorems frame_simps \<open>fields an operation leaves as they are\<close>

type_synonym rune = nat

abbreviation ord :: "char \<Rightarrow> rune" where
  "ord c \<equiv> of_char c"

lemma take_Suc_snoc: "i < length xs \<Longrightarrow> take (Suc i) xs = take i xs @ [xs ! i]"
  by (rule take_Suc_conv_app_nth)

lemma sorted_wrt_less_nth_mono:
  fixes xs :: "nat list"
  assumes "sorted_wrt (<) xs" and "i \<le> j" and "j < length xs"
  shows "xs ! i \<le> xs ! j"
proof (cases "i = j")
  case False
  with assms have "xs ! i < xs ! j"
    by (auto simp: sorted_wrt_iff_nth_less)
  then show ?thesis by simp
qed simp

end
