(* ===== verification/GoStrings.thy ===== *)
theory GoStrings
  imports GoPrelude
begin

text \<open>
  The parts of Go's language and standard library the modelled code uses:
  UTF-8 (\<open>range\<close> over a string, \<open>[]rune(s)\<close>, \<open>strings.Builder.WriteRune\<close>),
  the character classes of package \<open>unicode\<close>, and functions of package
  \<open>strings\<close> and \<open>strconv\<close>. The classes are exact on Latin-1, where Go decides
  them without its tables; past Latin-1 the letter, digit and printable tables
  are a parameter, so every result holds for any Unicode version.
\<close>

section \<open>UTF-8\<close>

definition RuneError :: rune where
  "RuneError = 0xFFFD"

definition MaxRune :: rune where
  "MaxRune = 0x10FFFF"

text \<open>\<open>utf8.ValidRune\<close>: a scalar value, so no surrogate half.\<close>

definition ValidRune :: "rune \<Rightarrow> bool" where
  "ValidRune r \<longleftrightarrow> r < 0xD800 \<or> (0xDFFF < r \<and> r \<le> MaxRune)"

definition byte :: "nat \<Rightarrow> char" where
  "byte n = char_of n"

lemma ord_byte [simp]: "n < 256 \<Longrightarrow> ord (byte n) = n"
  by (simp add: byte_def)

text \<open>\<open>utf8.AppendRune\<close>, which \<open>WriteRune\<close> and \<open>string(rs)\<close> use.\<close>

definition encode_rune :: "rune \<Rightarrow> string" where
  "encode_rune r =
    (if r < 0x80 then [byte r]
     else if r < 0x800 then [byte (0xC0 + r div 64), byte (0x80 + r mod 64)]
     else if \<not> ValidRune r then [byte 0xEF, byte 0xBF, byte 0xBD]
     else if r < 0x10000 then
       [byte (0xE0 + r div 4096), byte (0x80 + r div 64 mod 64), byte (0x80 + r mod 64)]
     else
       [byte (0xF0 + r div 262144), byte (0x80 + r div 4096 mod 64),
        byte (0x80 + r div 64 mod 64), byte (0x80 + r mod 64)])"

definition encode_runes :: "rune list \<Rightarrow> string" where
  "encode_runes rs = concat (map encode_rune rs)"

definition in_range :: "nat \<Rightarrow> nat \<Rightarrow> char \<Rightarrow> bool" where
  "in_range lo hi c \<longleftrightarrow> lo \<le> ord c \<and> ord c \<le> hi"

definition cont :: "char \<Rightarrow> bool" where
  "cont = in_range 0x80 0xBF"

text \<open>\<open>utf8.DecodeRuneInString\<close>: the rune and its width; an ill-formed
  sequence is \<open>RuneError\<close> of width 1.\<close>

definition decode2 :: "nat \<Rightarrow> string \<Rightarrow> (rune \<times> nat)" where
  "decode2 b0 cs = (case cs of
     c1 # _ \<Rightarrow> if cont c1 then ((b0 - 0xC0) * 64 + (ord c1 - 0x80), 2) else (RuneError, 1)
   | _ \<Rightarrow> (RuneError, 1))"

definition decode3 :: "nat \<Rightarrow> string \<Rightarrow> (rune \<times> nat)" where
  "decode3 b0 cs = (case cs of
     c1 # c2 # _ \<Rightarrow>
       if in_range (if b0 = 0xE0 then 0xA0 else 0x80) (if b0 = 0xED then 0x9F else 0xBF) c1 \<and> cont c2
       then ((b0 - 0xE0) * 4096 + (ord c1 - 0x80) * 64 + (ord c2 - 0x80), 3)
       else (RuneError, 1)
   | _ \<Rightarrow> (RuneError, 1))"

definition decode4 :: "nat \<Rightarrow> string \<Rightarrow> (rune \<times> nat)" where
  "decode4 b0 cs = (case cs of
     c1 # c2 # c3 # _ \<Rightarrow>
       if in_range (if b0 = 0xF0 then 0x90 else 0x80) (if b0 = 0xF4 then 0x8F else 0xBF) c1
          \<and> cont c2 \<and> cont c3
       then ((b0 - 0xF0) * 262144 + (ord c1 - 0x80) * 4096 + (ord c2 - 0x80) * 64
             + (ord c3 - 0x80), 4)
       else (RuneError, 1)
   | _ \<Rightarrow> (RuneError, 1))"

fun decode_rune :: "string \<Rightarrow> rune \<times> nat" where
  "decode_rune [] = (RuneError, 0)"
| "decode_rune (c # cs) =
    (let b0 = ord c in
     if b0 < 0x80 then (b0, 1)
     else if 0xC2 \<le> b0 \<and> b0 \<le> 0xDF then decode2 b0 cs
     else if 0xE0 \<le> b0 \<and> b0 \<le> 0xEF then decode3 b0 cs
     else if 0xF0 \<le> b0 \<and> b0 \<le> 0xF4 then decode4 b0 cs
     else (RuneError, 1))"

lemma decode_width_pos: "s \<noteq> [] \<Longrightarrow> 0 < snd (decode_rune s)"
  by (cases s) (auto simp: Let_def decode2_def decode3_def decode4_def split: list.splits)

lemma decode_width_le: "snd (decode_rune s) \<le> length s"
  by (cases s) (auto simp: Let_def decode2_def decode3_def decode4_def split: list.splits)

text \<open>\<open>for i, r := range s\<close>: the byte offset and the rune of every step.\<close>

function rune_range :: "nat \<Rightarrow> string \<Rightarrow> (nat \<times> rune) list" where
  "rune_range i s =
    (if s = [] then []
     else let (r, w) = decode_rune s in (i, r) # rune_range (i + w) (drop w s))"
  by pat_completeness auto
termination
proof (relation "measure (\<lambda>(i, s). length s)", goal_cases)
  case (2 i s p r w)
  then have "0 < w" using decode_width_pos [of s] by (metis snd_conv)
  with 2 show ?case by simp
qed simp

declare rune_range.simps [simp del]

definition runes_of :: "string \<Rightarrow> rune list" where
  "runes_of s = map snd (rune_range 0 s)"

definition rune_offsets :: "string \<Rightarrow> nat list" where
  "rune_offsets s = map fst (rune_range 0 s)"

lemma length_rune_offsets [simp]: "length (rune_offsets s) = length (runes_of s)"
  by (simp add: rune_offsets_def runes_of_def)

lemma rune_range_offsets:
  "sorted_wrt (<) (map fst (rune_range i s) @ [i + length s])
   \<and> (\<forall>p \<in> set (rune_range i s). i \<le> fst p \<and> fst p < i + length s)"
proof (induction i s rule: rune_range.induct)
  case (1 i s)
  show ?case
  proof (cases "s = []")
    case True
    then show ?thesis by (simp add: rune_range.simps [of i "[]"])
  next
    case False
    obtain r w where rw: "decode_rune s = (r, w)" by fastforce
    from False rw have w: "0 < w" "w \<le> length s"
      using decode_width_pos [of s] decode_width_le [of s] by auto
    have IH: "sorted_wrt (<) (map fst (rune_range (i + w) (drop w s)) @ [i + w + length (drop w s)])
      \<and> (\<forall>p \<in> set (rune_range (i + w) (drop w s)).
            i + w \<le> fst p \<and> fst p < i + w + length (drop w s))"
      using 1 [OF False refl rw [symmetric]] .
    have eq: "i + w + length (drop w s) = i + length s" using w by simp
    show ?thesis
      using IH w rw False unfolding eq rune_range.simps [of i s]
      by (auto simp: False)
  qed
qed

lemma encode_rune_nonempty [simp]: "encode_rune r \<noteq> []"
  by (simp add: encode_rune_def)

lemma split_base64:
  fixes r :: nat
  shows "r = r div 4096 * 4096 + r div 64 mod 64 * 64 + r mod 64"
proof -
  have "r div 4096 = r div 64 div 64" using div_mult2_eq [of r 64 64] by simp
  then have "r div 64 = r div 4096 * 64 + r div 64 mod 64" by presburger
  moreover have "r = r div 64 * 64 + r mod 64" by simp
  ultimately show ?thesis by linarith
qed

text \<open>Decoding undoes encoding, whatever follows: the codec the scanner's
  byte offsets rest on.\<close>

lemma decode_encode_rune:
  assumes "ValidRune r"
  shows "decode_rune (encode_rune r @ s) = (r, length (encode_rune r))"
proof -
  consider "r < 0x80" | "0x80 \<le> r" "r < 0x800" | "0x800 \<le> r" "r < 0x10000"
    | "0x10000 \<le> r" "r \<le> MaxRune"
    using assms by (fastforce simp: ValidRune_def MaxRune_def)
  then show ?thesis
  proof cases
    case 1
    then show ?thesis by (simp add: encode_rune_def)
  next
    case 2
    define a where "a = r div 64"
    define b where "b = r mod 64"
    have r: "r = a * 64 + b" and b: "b < 64" by (simp_all add: a_def b_def)
    then have a: "2 \<le> a" "a < 32" using 2 by linarith+
    have "encode_rune r = [byte (0xC0 + a), byte (0x80 + b)]"
      using 2 by (simp add: encode_rune_def a_def b_def)
    then show ?thesis using r a b
      by (simp add: Let_def decode2_def cont_def in_range_def)
  next
    case 3
    define a where "a = r div 4096"
    define b where "b = r div 64 mod 64"
    define c where "c = r mod 64"
    have r: "r = a * 4096 + b * 64 + c" and bc: "b < 64" "c < 64"
      using split_base64 [of r] by (simp_all add: a_def b_def c_def)
    have a: "a < 16" using 3 r by linarith
    have ab: "a = 0 \<Longrightarrow> 32 \<le> b" using 3 r bc by linarith
    have ad: "a = 13 \<Longrightarrow> b \<le> 31" using assms 3 r bc by (auto simp: ValidRune_def)
    have "encode_rune r = [byte (0xE0 + a), byte (0x80 + b), byte (0x80 + c)]"
      using 3 assms by (simp add: encode_rune_def a_def b_def c_def)
    then show ?thesis using r bc a ab ad
      by (simp add: Let_def decode3_def cont_def in_range_def)
  next
    case 4
    define a where "a = r div 262144"
    define b where "b = r div 4096 mod 64"
    define c where "c = r div 64 mod 64"
    define d where "d = r mod 64"
    have "r div 262144 = r div 4096 div 64" using div_mult2_eq [of r 4096 64] by simp
    then have "r div 4096 = a * 64 + b" unfolding a_def b_def by presburger
    then have r: "r = a * 262144 + b * 4096 + c * 64 + d" and bcd: "b < 64" "c < 64" "d < 64"
      using split_base64 [of r] by (simp_all add: b_def c_def d_def)
    have a: "a < 5" using 4 r by (simp add: MaxRune_def)
    have ab: "a = 0 \<Longrightarrow> 16 \<le> b" using 4 r bcd by linarith
    have ad: "a = 4 \<Longrightarrow> b \<le> 15" using 4 r bcd by (simp add: MaxRune_def)
    have "encode_rune r = [byte (0xF0 + a), byte (0x80 + b), byte (0x80 + c), byte (0x80 + d)]"
      using 4 assms by (simp add: encode_rune_def a_def b_def c_def d_def)
    then show ?thesis using r bcd a ab ad
      by (simp add: Let_def decode4_def cont_def in_range_def)
  qed
qed

lemma rune_range_encode:
  assumes "ValidRune r"
  shows "rune_range i (encode_rune r @ s)
       = (i, r) # rune_range (i + length (encode_rune r)) s"
  using decode_encode_rune [OF assms, of s] by (subst rune_range.simps) simp

lemma rune_range_Nil [simp]: "rune_range i [] = []"
  by (simp add: rune_range.simps)

lemma rune_range_encode_runes:
  assumes "\<forall>r \<in> set rs. ValidRune r"
  shows "rune_range i (encode_runes rs)
       = zip (map (\<lambda>k. i + length (encode_runes (take k rs))) [0..<length rs]) rs"
  using assms
proof (induction rs arbitrary: i)
  case Nil
  then show ?case by (simp add: encode_runes_def)
next
  case (Cons r rs)
  have "rune_range i (encode_runes (r # rs))
      = (i, r) # rune_range (i + length (encode_rune r)) (encode_runes rs)"
    using Cons.prems rune_range_encode [of r i "encode_runes rs"]
    by (simp add: encode_runes_def)
  also have "\<dots> = (i, r) # zip (map (\<lambda>k. i + length (encode_rune r)
                + length (encode_runes (take k rs))) [0..<length rs]) rs"
    using Cons by simp
  also have "\<dots> = zip (map (\<lambda>k. i + length (encode_runes (take k (r # rs))))
                [0..<length (r # rs)]) (r # rs)"
    by (simp add: upt_conv_Cons map_Suc_upt [symmetric] encode_runes_def comp_def
        add.assoc del: upt_Suc)
  finally show ?case .
qed

lemma runes_of_encode_runes [simp]:
  "\<forall>r \<in> set rs. ValidRune r \<Longrightarrow> runes_of (encode_runes rs) = rs"
  by (simp add: runes_of_def rune_range_encode_runes)

lemma rune_offsets_encode_runes:
  "\<forall>r \<in> set rs. ValidRune r \<Longrightarrow> k < length rs \<Longrightarrow>
   rune_offsets (encode_runes rs) ! k = length (encode_runes (take k rs))"
  by (simp add: rune_offsets_def rune_range_encode_runes)

lemma encode_runes_append [simp]:
  "encode_runes (xs @ ys) = encode_runes xs @ encode_runes ys"
  by (simp add: encode_runes_def)

lemma encode_runes_Nil [simp]: "encode_runes [] = []"
  by (simp add: encode_runes_def)

section \<open>Character classes of package unicode\<close>

text \<open>The tables past Latin-1: \<open>unicode.Letter\<close>, \<open>unicode.Nd\<close> and
  \<open>strconv\<close>'s printable runes.\<close>

record unicode_tables =
  letterTable :: "rune \<Rightarrow> bool"
  digitTable :: "rune \<Rightarrow> bool"
  printTable :: "rune \<Rightarrow> bool"

definition IsLetter :: "unicode_tables \<Rightarrow> rune \<Rightarrow> bool" where
  "IsLetter U r =
    (if r \<le> 0xFF then
       (0x41 \<le> r \<and> r \<le> 0x5A) \<or> (0x61 \<le> r \<and> r \<le> 0x7A) \<or> r = 0xAA \<or> r = 0xB5 \<or> r = 0xBA
       \<or> (0xC0 \<le> r \<and> r \<noteq> 0xD7 \<and> r \<noteq> 0xF7)
     else letterTable U r)"

definition IsDigit :: "unicode_tables \<Rightarrow> rune \<Rightarrow> bool" where
  "IsDigit U r = (if r \<le> 0xFF then 0x30 \<le> r \<and> r \<le> 0x39 else digitTable U r)"

definition IsSpace :: "rune \<Rightarrow> bool" where
  "IsSpace r =
    (if r \<le> 0xFF then (9 \<le> r \<and> r \<le> 13) \<or> r = 0x20 \<or> r = 0x85 \<or> r = 0xA0
     else r = 0x1680 \<or> (0x2000 \<le> r \<and> r \<le> 0x200A) \<or> r = 0x2028 \<or> r = 0x2029
          \<or> r = 0x202F \<or> r = 0x205F \<or> r = 0x3000)"

text \<open>\<open>strconv.IsPrint\<close>.\<close>

definition IsPrint :: "unicode_tables \<Rightarrow> rune \<Rightarrow> bool" where
  "IsPrint U r =
    (if r \<le> 0xFF then (0x20 \<le> r \<and> r < 0x7F) \<or> (0xA1 \<le> r \<and> r \<noteq> 0xAD)
     else printTable U r)"

text \<open>Latin-1 tables only: the instance the witnesses evaluate.\<close>

definition latin1_tables :: unicode_tables where
  "latin1_tables = \<lparr>letterTable = (\<lambda>_. False), digitTable = (\<lambda>_. False),
     printTable = (\<lambda>_. False)\<rparr>"

lemma letter_not_digit_latin1: "r \<le> 0xFF \<Longrightarrow> IsLetter U r \<Longrightarrow> \<not> IsDigit U r"
  by (auto simp: IsLetter_def IsDigit_def)

section \<open>Packages strings and strconv\<close>

definition HasPrefix :: "string \<Rightarrow> string \<Rightarrow> bool" where
  "HasPrefix s p \<longleftrightarrow> take (length p) s = p"

definition HasSuffix :: "string \<Rightarrow> string \<Rightarrow> bool" where
  "HasSuffix s p \<longleftrightarrow> length p \<le> length s \<and> drop (length s - length p) s = p"

definition TrimPrefix :: "string \<Rightarrow> string \<Rightarrow> string" where
  "TrimPrefix s p = (if HasPrefix s p then drop (length p) s else s)"

definition TrimSuffix :: "string \<Rightarrow> string \<Rightarrow> string" where
  "TrimSuffix s p = (if HasSuffix s p then take (length s - length p) s else s)"

text \<open>\<open>strings.IndexAny\<close> and \<open>strings.IndexByte\<close> over ASCII sets: the index of the
  first byte in the set, \<open>None\<close> for Go's -1.\<close>

fun index_of :: "(char \<Rightarrow> bool) \<Rightarrow> string \<Rightarrow> nat option" where
  "index_of P [] = None"
| "index_of P (c # cs) = (if P c then Some 0 else map_option Suc (index_of P cs))"

fun ReplaceAll :: "string \<Rightarrow> string \<Rightarrow> string \<Rightarrow> string" where
  "ReplaceAll [] old new = []"
| "ReplaceAll (c # cs) old new =
    (if old \<noteq> [] \<and> HasPrefix (c # cs) old
     then new @ ReplaceAll (drop (length old - 1) cs) old new
     else c # ReplaceAll cs old new)"

text \<open>\<open>strings.Split\<close> on a one-byte separator, \<open>strings.Join\<close>.\<close>

fun Split :: "string \<Rightarrow> char \<Rightarrow> string list" where
  "Split [] sep = [[]]"
| "Split (c # cs) sep =
    (if c = sep then [] # Split cs sep
     else case Split cs sep of [] \<Rightarrow> [[c]] | w # ws \<Rightarrow> (c # w) # ws)"

fun Join :: "string list \<Rightarrow> string \<Rightarrow> string" where
  "Join [] sep = []"
| "Join [s] sep = s"
| "Join (s # ss) sep = s @ sep @ Join ss sep"

text \<open>\<open>utf8.DecodeLastRuneInString\<close>: look back over at most three continuation
  bytes for a start byte, and accept the rune only if it ends the string.\<close>

definition decode_last_rune :: "string \<Rightarrow> rune \<times> nat" where
  "decode_last_rune s =
    (if s = [] then (RuneError, 0)
     else let n = length s; c = last s in
       if ord c < 0x80 then (ord c, 1)
       else
         let back = filter (\<lambda>k. k \<le> n \<and> \<not> cont (s ! (n - k))) [2, 3, 4];
             k = (case back of k # _ \<Rightarrow> k | [] \<Rightarrow> min n 5);
             (r, w) = decode_rune (drop (n - k) s)
         in if w = k then (r, w) else (RuneError, 1))"

lemma decode_last_width: "s \<noteq> [] \<Longrightarrow> 0 < snd (decode_last_rune s)"
  using decode_width_pos
  by (auto simp: decode_last_rune_def Let_def split: prod.splits list.splits)

function TrimLeftFunc :: "(rune \<Rightarrow> bool) \<Rightarrow> string \<Rightarrow> string" where
  "TrimLeftFunc P s =
    (if s = [] then []
     else let (r, w) = decode_rune s in if P r then TrimLeftFunc P (drop w s) else s)"
  by pat_completeness auto
termination
proof (relation "measure (\<lambda>(P, s). length s)", goal_cases)
  case (2 P s p r w)
  then have "0 < w" using decode_width_pos [of s] by (metis snd_conv)
  with 2 show ?case by simp
qed simp

function TrimRightFunc :: "(rune \<Rightarrow> bool) \<Rightarrow> string \<Rightarrow> string" where
  "TrimRightFunc P s =
    (if s = [] then []
     else let (r, w) = decode_last_rune s in
       if P r then TrimRightFunc P (take (length s - w) s) else s)"
  by pat_completeness auto
termination
proof (relation "measure (\<lambda>(P, s). length s)", goal_cases)
  case (2 P s p r w)
  then have "0 < w" using decode_last_width [of s] by (metis snd_conv)
  with 2 show ?case by (cases s) auto
qed simp

declare TrimLeftFunc.simps [simp del] TrimRightFunc.simps [simp del]

definition TrimSpace :: "string \<Rightarrow> string" where
  "TrimSpace s = TrimRightFunc IsSpace (TrimLeftFunc IsSpace s)"

text \<open>\<open>strings.ToLower\<close> on ASCII strings (the code only compares its result with an
  ASCII word, which no string with other characters equals).\<close>

definition lower_byte :: "char \<Rightarrow> char" where
  "lower_byte c = (if 0x41 \<le> ord c \<and> ord c \<le> 0x5A then byte (ord c + 32) else c)"

text \<open>\<open>strconv.Itoa\<close>.\<close>

fun itoa_nat :: "nat \<Rightarrow> string" where
  "itoa_nat n = (if n < 10 then [byte (48 + n)] else itoa_nat (n div 10) @ [byte (48 + n mod 10)])"

declare itoa_nat.simps [simp del]

definition itoa :: "int \<Rightarrow> string" where
  "itoa i = (if i < 0 then ''-'' @ itoa_nat (nat (- i)) else itoa_nat (nat i))"

section \<open>Quoting and fmt.Sprintf\<close>

definition hex_digit :: "nat \<Rightarrow> char" where
  "hex_digit n = (if n < 10 then byte (48 + n) else byte (87 + n))"

fun hex_fixed :: "nat \<Rightarrow> nat \<Rightarrow> string" where
  "hex_fixed 0 n = []"
| "hex_fixed (Suc k) n = hex_fixed k (n div 16) @ [hex_digit (n mod 16)]"

text \<open>\<open>strconv.appendEscapedRune\<close>, \<open>strconv.QuoteRune\<close>, \<open>strconv.Quote\<close>.\<close>

definition escape_rune :: "unicode_tables \<Rightarrow> char \<Rightarrow> rune \<Rightarrow> string" where
  "escape_rune U quote r =
    (if r = ord quote \<or> r = ord (CHR 0x5C) then [CHR 0x5C, byte r]
     else if IsPrint U r then encode_rune r
     else if r = 7 then [CHR 0x5C, CHR ''a'']
     else if r = 8 then [CHR 0x5C, CHR ''b'']
     else if r = 12 then [CHR 0x5C, CHR ''f'']
     else if r = 10 then [CHR 0x5C, CHR ''n'']
     else if r = 13 then [CHR 0x5C, CHR ''r'']
     else if r = 9 then [CHR 0x5C, CHR ''t'']
     else if r = 11 then [CHR 0x5C, CHR ''v'']
     else if r < 0x20 \<or> r = 0x7F then [CHR 0x5C, CHR ''x''] @ hex_fixed 2 r
     else if \<not> ValidRune r then [CHR 0x5C, CHR ''u''] @ hex_fixed 4 RuneError
     else if r < 0x10000 then [CHR 0x5C, CHR ''u''] @ hex_fixed 4 r
     else [CHR 0x5C, CHR ''U''] @ hex_fixed 8 r)"

definition QuoteRune :: "unicode_tables \<Rightarrow> rune \<Rightarrow> string" where
  "QuoteRune U r =
    [CHR 0x27] @ escape_rune U (CHR 0x27) (if ValidRune r then r else RuneError) @ [CHR 0x27]"

function quote_body :: "unicode_tables \<Rightarrow> string \<Rightarrow> string" where
  "quote_body U s =
    (if s = [] then []
     else let (r, w) = decode_rune s in
       (if w = 1 \<and> r = RuneError then [CHR 0x5C, CHR ''x''] @ hex_fixed 2 (ord (hd s))
        else escape_rune U (CHR 0x22) r) @ quote_body U (drop w s))"
  by pat_completeness auto
termination
proof (relation "measure (\<lambda>(U, s). length s)", goal_cases)
  case (2 U s p r w)
  then have "0 < w" using decode_width_pos [of s] by (metis snd_conv)
  with 2 show ?case by simp
qed simp

declare quote_body.simps [simp del]

definition Quote :: "unicode_tables \<Rightarrow> string \<Rightarrow> string" where
  "Quote U s = [CHR 0x22] @ quote_body U s @ [CHR 0x22]"

text \<open>\<open>fmt.Sprintf\<close> with the verbs the message table uses: \<open>%s\<close>, \<open>%q\<close>, \<open>%d\<close> and \<open>%%\<close>.\<close>

datatype fmt_arg = ArgStr string | ArgRune rune | ArgInt int

fun show_arg :: "unicode_tables \<Rightarrow> char \<Rightarrow> fmt_arg \<Rightarrow> string" where
  "show_arg U v (ArgStr s) = (if v = CHR ''q'' then Quote U s else s)"
| "show_arg U v (ArgRune r) = (if v = CHR ''q'' then QuoteRune U r else itoa (int r))"
| "show_arg U v (ArgInt i) = itoa i"

fun Sprintf :: "unicode_tables \<Rightarrow> string \<Rightarrow> fmt_arg list \<Rightarrow> string" where
  "Sprintf U [] args = []"
| "Sprintf U [c] args = [c]"
| "Sprintf U (c # v # fmt) args =
    (if c = CHR ''%'' then
       (if v = CHR ''%'' then CHR ''%'' # Sprintf U fmt args
        else case args of
          [] \<Rightarrow> ''%!'' @ [v] @ ''(MISSING)'' @ Sprintf U fmt []
        | a # as \<Rightarrow> show_arg U v a @ Sprintf U fmt as)
     else c # Sprintf U (v # fmt) args)"

end
