(* ===== verification/Diag.thy ===== *)
theory Diag
  imports GoStrings
begin

text \<open>
  Package \<open>diag\<close>: the diagnostics every phase reports. A \<open>Message\<close> is an entry of
  the table in \<open>diag/messages.go\<close>; a \<open>Diagnostic\<close> is one reported condition; a
  \<open>List\<close> keeps a file's diagnostics in report order, one per position. An error
  that carries diagnostics is a \<open>goerror\<close>. JSON rendering is not modelled.
\<close>

section \<open>Data\<close>

datatype Severity = Error | Warning

definition Severity_String :: "Severity \<Rightarrow> string" where
  "Severity_String s = (if s = Warning then ''warning'' else ''error'')"

type_synonym ErrorKind = string
type_synonym Phase = string

abbreviation (input) SyntaxError :: ErrorKind where "SyntaxError \<equiv> ''SyntaxError''"
abbreviation (input) Unsupported :: ErrorKind where "Unsupported \<equiv> ''''"
abbreviation (input) PhaseParse :: Phase where "PhaseParse \<equiv> ''parse''"

record Message =
  m_Code :: nat
  m_Severity :: Severity
  m_Kind :: ErrorKind
  m_Phase :: Phase
  m_Text :: string

record Pos =
  p_Line :: nat
  p_Col :: nat

record Span =
  s_File :: string
  s_Pos :: Pos
  s_Start :: int
  s_End :: int

record Related =
  r_Span :: Span
  r_Text :: string

record Diagnostic =
  d_Message :: Message
  d_Text :: string
  d_Span :: Span
  d_Related :: "Related list"
  d_Hint :: string
  d_Payload :: "string \<rightharpoonup> string"

definition New_diag :: "unicode_tables \<Rightarrow> Message \<Rightarrow> Span \<Rightarrow> fmt_arg list \<Rightarrow> Diagnostic" where
  "New_diag U m sp args =
    \<lparr>d_Message = m, d_Text = Sprintf U (m_Text m) args, d_Span = sp, d_Related = [],
     d_Hint = '''', d_Payload = Map.empty\<rparr>"

definition Diagnostic_Code :: "Diagnostic \<Rightarrow> nat" where
  "Diagnostic_Code d = m_Code (d_Message d)"

definition Diagnostic_Error :: "Diagnostic \<Rightarrow> string" where
  "Diagnostic_Error d =
    (let p = s_Pos (d_Span d) in
     if p_Line p = 0 then d_Text d
     else itoa (int (p_Line p)) @ '':'' @ itoa (int (p_Col p)) @ '': '' @ d_Text d)"

definition Located :: "Diagnostic \<Rightarrow> string" where
  "Located d =
    (if s_File (d_Span d) = '''' then Diagnostic_Error d
     else s_File (d_Span d) @ '': '' @ Diagnostic_Error d)"

section \<open>The scanner's entries of the message table\<close>

definition syntax_msg :: "nat \<Rightarrow> string \<Rightarrow> Message" where
  "syntax_msg code text =
    \<lparr>m_Code = code, m_Severity = Error, m_Kind = SyntaxError, m_Phase = PhaseParse, m_Text = text\<rparr>"

definition UnexpectedCharacter :: Message where
  "UnexpectedCharacter = syntax_msg 1127 ''unexpected character %q''"

definition NumericSeparatorPlacement :: Message where
  "NumericSeparatorPlacement =
    syntax_msg 6188 (''numeric separator '' @ [CHR 0x27] @ ''_'' @ [CHR 0x27] @ '' must be between two digits'')"

definition IdentAfterNumeric :: Message where
  "IdentAfterNumeric =
    syntax_msg 1351 ''an identifier or keyword cannot immediately follow a numeric literal''"

definition NumericSeparatorLegacy :: Message where
  "NumericSeparatorLegacy =
    syntax_msg 6188 (''a numeric separator '' @ [CHR 0x27] @ ''_'' @ [CHR 0x27] @
      '' is not allowed in a legacy octal or non-octal-decimal literal'')"

definition BigIntDecimalPoint :: Message where
  "BigIntDecimalPoint = syntax_msg 1353 ''a BigInt literal cannot contain a decimal point''"

definition BigIntExponent :: Message where
  "BigIntExponent = syntax_msg 1352 ''a BigInt literal cannot contain an exponent''"

definition RegexFlags_msg :: Message where
  "RegexFlags_msg = syntax_msg 1499 ''invalid regular expression flags''"

definition BigIntLegacyOctal :: Message where
  "BigIntLegacyOctal =
    syntax_msg 1121 ''a BigInt literal cannot use a legacy-octal / non-octal-decimal form''"

definition UnterminatedString :: Message where
  "UnterminatedString = syntax_msg 1002 ''unterminated string literal''"

definition InvalidHexEscape :: Message where
  "InvalidHexEscape = syntax_msg 1125 ''invalid hexadecimal escape sequence''"

definition InvalidUnicodeEscape :: Message where
  "InvalidUnicodeEscape = syntax_msg 1125 ''invalid Unicode escape sequence''"

definition CodePointOutOfRange :: Message where
  "CodePointOutOfRange = syntax_msg 1198 ''Unicode code point out of range''"

definition UnterminatedRegExp :: Message where
  "UnterminatedRegExp = syntax_msg 1161 ''unterminated regular expression literal''"

definition UnterminatedTemplate :: Message where
  "UnterminatedTemplate = syntax_msg 1160 ''unterminated template literal''"

section \<open>A file's list of diagnostics\<close>

text \<open>\<open>List.Add\<close>: the new list and whether \<open>d\<close> was added.\<close>

definition Add :: "Diagnostic list \<Rightarrow> Diagnostic \<Rightarrow> Diagnostic list \<times> bool" where
  "Add items d =
    (if items \<noteq> [] \<and> s_Pos (d_Span (last items)) = s_Pos (d_Span d)
        \<and> s_File (d_Span (last items)) = s_File (d_Span d)
     then (items, False)
     else (items @ [d], True))"

definition Add_all :: "Diagnostic list \<Rightarrow> Diagnostic list \<Rightarrow> Diagnostic list" where
  "Add_all items ds = foldl (\<lambda>is d. fst (Add is d)) items ds"

section \<open>Errors that carry diagnostics\<close>

text \<open>A Go error: an \<open>Errors\<close>, a \<open>*Diagnostic\<close>, another error, or one wrapping
  another through \<open>fmt.Errorf("\<dots>: %w")\<close>.\<close>

datatype goerror =
    Errors "Diagnostic list"
  | OneDiag Diagnostic
  | OtherError string
  | Wrapped string goerror

fun Errors_Error :: "Diagnostic list \<Rightarrow> string" where
  "Errors_Error ds = Join (map Located ds) [CHR 0x0A]"

fun Error_text :: "goerror \<Rightarrow> string" where
  "Error_text (Errors ds) = Errors_Error ds"
| "Error_text (OneDiag d) = Diagnostic_Error d"
| "Error_text (OtherError s) = s"
| "Error_text (Wrapped s e) = s @ '': '' @ Error_text e"

definition List_Err :: "Diagnostic list \<Rightarrow> goerror option" where
  "List_Err items = (if items = [] then None else Some (Errors items))"

text \<open>\<open>errors.As\<close> for the two carriers, then \<open>As\<close>; \<open>None\<close> is Go's nil.\<close>

fun as_Errors :: "goerror \<Rightarrow> Diagnostic list option" where
  "as_Errors (Errors ds) = Some ds"
| "as_Errors (Wrapped s e) = as_Errors e"
| "as_Errors _ = None"

fun as_Diagnostic :: "goerror \<Rightarrow> Diagnostic option" where
  "as_Diagnostic (OneDiag d) = Some d"
| "as_Diagnostic (Wrapped s e) = as_Diagnostic e"
| "as_Diagnostic _ = None"

definition As :: "goerror \<Rightarrow> Diagnostic list option" where
  "As err = (case as_Errors err of
     Some es \<Rightarrow> Some es
   | None \<Rightarrow> (case as_Diagnostic err of Some d \<Rightarrow> Some [d] | None \<Rightarrow> None))"

definition set_file :: "string \<Rightarrow> Diagnostic \<Rightarrow> Diagnostic" where
  "set_file file d = d\<lparr>d_Span := (d_Span d)\<lparr>s_File := file\<rparr>\<rparr>"

definition InFile :: "goerror \<Rightarrow> string \<Rightarrow> goerror" where
  "InFile err file = (case As err of
     None \<Rightarrow> Wrapped file err
   | Some ds \<Rightarrow> Errors (map (set_file file) ds))"

section \<open>Byte offsets of line and column positions\<close>

text \<open>The line starts \<open>Offsets\<close> collects: 0 and the byte after each line feed.\<close>

fun line_starts_from :: "nat \<Rightarrow> string \<Rightarrow> nat list" where
  "line_starts_from i [] = []"
| "line_starts_from i (c # cs) =
    (if c = CHR 0x0A then (i + 1) # line_starts_from (i + 1) cs else line_starts_from (i + 1) cs)"

definition line_starts :: "string \<Rightarrow> nat list" where
  "line_starts src = 0 # line_starts_from 0 src"

text \<open>The loop of the returned closure: step over \<open>n\<close> characters.\<close>

fun skip_runes :: "string \<Rightarrow> nat \<Rightarrow> nat \<Rightarrow> nat" where
  "skip_runes src 0 off = off"
| "skip_runes src (Suc n) off =
    (if off < length src then skip_runes src n (off + snd (decode_rune (drop off src))) else off)"

definition Offsets :: "string \<Rightarrow> int \<Rightarrow> int \<Rightarrow> int" where
  "Offsets src line col =
    (if line < 1 \<or> line > int (length (line_starts src)) \<or> col < 1 then -1
     else int (skip_runes src (nat (col - 1)) (line_starts src ! nat (line - 1))))"

end
