(* ===== verification/Token.thy ===== *)
theory Token
  imports Diag
begin

text \<open>
  \<open>lexer/token.go\<close>: token types, their names, the keyword table, and tokens.
  \<open>TokenType\<close> is Go's \<open>type TokenType int\<close> with the constants of its \<open>iota\<close> block.
\<close>

section \<open>Token types\<close>

datatype TokenType = TokenType int

fun token_int :: "TokenType \<Rightarrow> int" where
  "token_int (TokenType i) = i"

abbreviation NUMBER :: TokenType where "NUMBER \<equiv> TokenType 0"
abbreviation BIGINT :: TokenType where "BIGINT \<equiv> TokenType 1"
abbreviation STRING :: TokenType where "STRING \<equiv> TokenType 2"
abbreviation IDENT :: TokenType where "IDENT \<equiv> TokenType 3"
abbreviation PRIVATE_NAME :: TokenType where "PRIVATE_NAME \<equiv> TokenType 4"
abbreviation LET :: TokenType where "LET \<equiv> TokenType 5"
abbreviation CONSTK :: TokenType where "CONSTK \<equiv> TokenType 6"
abbreviation VAR :: TokenType where "VAR \<equiv> TokenType 7"
abbreviation FUNCTION :: TokenType where "FUNCTION \<equiv> TokenType 8"
abbreviation RETURN :: TokenType where "RETURN \<equiv> TokenType 9"
abbreviation FOR :: TokenType where "FOR \<equiv> TokenType 10"
abbreviation WHILE :: TokenType where "WHILE \<equiv> TokenType 11"
abbreviation IF :: TokenType where "IF \<equiv> TokenType 12"
abbreviation ELSE :: TokenType where "ELSE \<equiv> TokenType 13"
abbreviation TRUE :: TokenType where "TRUE \<equiv> TokenType 14"
abbreviation FALSE :: TokenType where "FALSE \<equiv> TokenType 15"
abbreviation NULL :: TokenType where "NULL \<equiv> TokenType 16"
abbreviation UNDEFINED :: TokenType where "UNDEFINED \<equiv> TokenType 17"
abbreviation NEW :: TokenType where "NEW \<equiv> TokenType 18"
abbreviation TYPEOF :: TokenType where "TYPEOF \<equiv> TokenType 19"
abbreviation VOID :: TokenType where "VOID \<equiv> TokenType 20"
abbreviation SWITCH :: TokenType where "SWITCH \<equiv> TokenType 21"
abbreviation CASE :: TokenType where "CASE \<equiv> TokenType 22"
abbreviation DEFAULT :: TokenType where "DEFAULT \<equiv> TokenType 23"
abbreviation BREAK :: TokenType where "BREAK \<equiv> TokenType 24"
abbreviation CONTINUE :: TokenType where "CONTINUE \<equiv> TokenType 25"
abbreviation THROW :: TokenType where "THROW \<equiv> TokenType 26"
abbreviation TRY :: TokenType where "TRY \<equiv> TokenType 27"
abbreviation CATCH :: TokenType where "CATCH \<equiv> TokenType 28"
abbreviation FINALLY :: TokenType where "FINALLY \<equiv> TokenType 29"
abbreviation DO :: TokenType where "DO \<equiv> TokenType 30"
abbreviation AWAIT :: TokenType where "AWAIT \<equiv> TokenType 31"
abbreviation YIELD :: TokenType where "YIELD \<equiv> TokenType 32"
abbreviation IMPORT :: TokenType where "IMPORT \<equiv> TokenType 33"
abbreviation EXPORT :: TokenType where "EXPORT \<equiv> TokenType 34"
abbreviation ELLIPSIS :: TokenType where "ELLIPSIS \<equiv> TokenType 35"
abbreviation CLASS :: TokenType where "CLASS \<equiv> TokenType 36"
abbreviation THIS :: TokenType where "THIS \<equiv> TokenType 37"
abbreviation INSTANCEOF :: TokenType where "INSTANCEOF \<equiv> TokenType 38"
abbreviation EXTENDS :: TokenType where "EXTENDS \<equiv> TokenType 39"
abbreviation SUPER :: TokenType where "SUPER \<equiv> TokenType 40"
abbreviation STATIC :: TokenType where "STATIC \<equiv> TokenType 41"
abbreviation PRIVATE :: TokenType where "PRIVATE \<equiv> TokenType 42"
abbreviation PROTECTED :: TokenType where "PROTECTED \<equiv> TokenType 43"
abbreviation PUBLIC :: TokenType where "PUBLIC \<equiv> TokenType 44"
abbreviation IMPLEMENTS :: TokenType where "IMPLEMENTS \<equiv> TokenType 45"
abbreviation PLUS :: TokenType where "PLUS \<equiv> TokenType 46"
abbreviation MINUS :: TokenType where "MINUS \<equiv> TokenType 47"
abbreviation STAR :: TokenType where "STAR \<equiv> TokenType 48"
abbreviation POW :: TokenType where "POW \<equiv> TokenType 49"
abbreviation SLASH :: TokenType where "SLASH \<equiv> TokenType 50"
abbreviation PERCENT :: TokenType where "PERCENT \<equiv> TokenType 51"
abbreviation ASSIGN :: TokenType where "ASSIGN \<equiv> TokenType 52"
abbreviation EQ :: TokenType where "EQ \<equiv> TokenType 53"
abbreviation NEQ :: TokenType where "NEQ \<equiv> TokenType 54"
abbreviation STRICT_EQ :: TokenType where "STRICT_EQ \<equiv> TokenType 55"
abbreviation STRICT_NEQ :: TokenType where "STRICT_NEQ \<equiv> TokenType 56"
abbreviation LT :: TokenType where "LT \<equiv> TokenType 57"
abbreviation GT :: TokenType where "GT \<equiv> TokenType 58"
abbreviation LTE :: TokenType where "LTE \<equiv> TokenType 59"
abbreviation GTE :: TokenType where "GTE \<equiv> TokenType 60"
abbreviation AND :: TokenType where "AND \<equiv> TokenType 61"
abbreviation OR :: TokenType where "OR \<equiv> TokenType 62"
abbreviation NOT :: TokenType where "NOT \<equiv> TokenType 63"
abbreviation INC :: TokenType where "INC \<equiv> TokenType 64"
abbreviation DEC :: TokenType where "DEC \<equiv> TokenType 65"
abbreviation PLUS_ASSIGN :: TokenType where "PLUS_ASSIGN \<equiv> TokenType 66"
abbreviation MINUS_ASSIGN :: TokenType where "MINUS_ASSIGN \<equiv> TokenType 67"
abbreviation STAR_ASSIGN :: TokenType where "STAR_ASSIGN \<equiv> TokenType 68"
abbreviation POW_ASSIGN :: TokenType where "POW_ASSIGN \<equiv> TokenType 69"
abbreviation SLASH_ASSIGN :: TokenType where "SLASH_ASSIGN \<equiv> TokenType 70"
abbreviation PERCENT_ASSIGN :: TokenType where "PERCENT_ASSIGN \<equiv> TokenType 71"
abbreviation BITAND :: TokenType where "BITAND \<equiv> TokenType 72"
abbreviation BITOR :: TokenType where "BITOR \<equiv> TokenType 73"
abbreviation BITXOR :: TokenType where "BITXOR \<equiv> TokenType 74"
abbreviation BITNOT :: TokenType where "BITNOT \<equiv> TokenType 75"
abbreviation LSHIFT :: TokenType where "LSHIFT \<equiv> TokenType 76"
abbreviation RSHIFT :: TokenType where "RSHIFT \<equiv> TokenType 77"
abbreviation URSHIFT :: TokenType where "URSHIFT \<equiv> TokenType 78"
abbreviation AND_ASSIGN :: TokenType where "AND_ASSIGN \<equiv> TokenType 79"
abbreviation OR_ASSIGN :: TokenType where "OR_ASSIGN \<equiv> TokenType 80"
abbreviation XOR_ASSIGN :: TokenType where "XOR_ASSIGN \<equiv> TokenType 81"
abbreviation LSHIFT_ASSIGN :: TokenType where "LSHIFT_ASSIGN \<equiv> TokenType 82"
abbreviation RSHIFT_ASSIGN :: TokenType where "RSHIFT_ASSIGN \<equiv> TokenType 83"
abbreviation URSHIFT_ASSIGN :: TokenType where "URSHIFT_ASSIGN \<equiv> TokenType 84"
abbreviation LOGICAL_AND_ASSIGN :: TokenType where "LOGICAL_AND_ASSIGN \<equiv> TokenType 85"
abbreviation LOGICAL_OR_ASSIGN :: TokenType where "LOGICAL_OR_ASSIGN \<equiv> TokenType 86"
abbreviation NULLISH_ASSIGN :: TokenType where "NULLISH_ASSIGN \<equiv> TokenType 87"
abbreviation LPAREN :: TokenType where "LPAREN \<equiv> TokenType 88"
abbreviation RPAREN :: TokenType where "RPAREN \<equiv> TokenType 89"
abbreviation LBRACE :: TokenType where "LBRACE \<equiv> TokenType 90"
abbreviation RBRACE :: TokenType where "RBRACE \<equiv> TokenType 91"
abbreviation LBRACKET :: TokenType where "LBRACKET \<equiv> TokenType 92"
abbreviation RBRACKET :: TokenType where "RBRACKET \<equiv> TokenType 93"
abbreviation SEMICOLON :: TokenType where "SEMICOLON \<equiv> TokenType 94"
abbreviation COLON :: TokenType where "COLON \<equiv> TokenType 95"
abbreviation COMMA :: TokenType where "COMMA \<equiv> TokenType 96"
abbreviation DOT :: TokenType where "DOT \<equiv> TokenType 97"
abbreviation QUESTION :: TokenType where "QUESTION \<equiv> TokenType 98"
abbreviation NULLISH :: TokenType where "NULLISH \<equiv> TokenType 99"
abbreviation OPTIONAL_DOT :: TokenType where "OPTIONAL_DOT \<equiv> TokenType 100"
abbreviation ARROW :: TokenType where "ARROW \<equiv> TokenType 101"
abbreviation AT :: TokenType where "AT \<equiv> TokenType 102"
abbreviation TEMPLATE_NO_SUB :: TokenType where "TEMPLATE_NO_SUB \<equiv> TokenType 103"
abbreviation TEMPLATE_HEAD :: TokenType where "TEMPLATE_HEAD \<equiv> TokenType 104"
abbreviation TEMPLATE_MIDDLE :: TokenType where "TEMPLATE_MIDDLE \<equiv> TokenType 105"
abbreviation TEMPLATE_TAIL :: TokenType where "TEMPLATE_TAIL \<equiv> TokenType 106"
abbreviation REGEX :: TokenType where "REGEX \<equiv> TokenType 107"
abbreviation ILLEGAL :: TokenType where "ILLEGAL \<equiv> TokenType 108"
abbreviation EOF :: TokenType where "EOF \<equiv> TokenType 109"

definition tokenNames :: "(TokenType \<times> string) list" where
  "tokenNames = [
     (NUMBER, ''NUMBER''), (BIGINT, ''BIGINT''), (STRING, ''STRING''), (IDENT, ''IDENT''),
     (PRIVATE_NAME, ''PRIVATE_NAME''), (LET, ''let''), (CONSTK, ''const''), (VAR, ''var''),
     (FUNCTION, ''function''), (RETURN, ''return''), (FOR, ''for''), (WHILE, ''while''),
     (IF, ''if''), (ELSE, ''else''), (TRUE, ''true''), (FALSE, ''false''), (NULL, ''null''),
     (UNDEFINED, ''undefined''), (NEW, ''new''), (TYPEOF, ''typeof''), (VOID, ''void''),
     (SWITCH, ''switch''), (CASE, ''case''), (DEFAULT, ''default''), (BREAK, ''break''),
     (CONTINUE, ''continue''), (THROW, ''throw''), (TRY, ''try''), (CATCH, ''catch''),
     (FINALLY, ''finally''), (DO, ''do''), (AWAIT, ''await''), (YIELD, ''yield''),
     (IMPORT, ''import''), (EXPORT, ''export''), (ELLIPSIS, ''...''), (CLASS, ''class''),
     (THIS, ''this''), (INSTANCEOF, ''instanceof''), (EXTENDS, ''extends''),
     (SUPER, ''super''), (STATIC, ''static''), (PRIVATE, ''private''),
     (PROTECTED, ''protected''), (PUBLIC, ''public''), (IMPLEMENTS, ''implements''),
     (PLUS, ''+''), (MINUS, ''-''), (STAR, ''*''), (POW, ''**''), (SLASH, ''/''),
     (PERCENT, ''%''), (ASSIGN, ''=''), (EQ, ''==''), (NEQ, ''!=''), (STRICT_EQ, ''===''),
     (STRICT_NEQ, ''!==''), (LT, ''<''), (GT, ''>''), (LTE, ''<=''), (GTE, ''>=''),
     (AND, ''&&''), (OR, ''||''), (NOT, ''!''), (INC, ''++''), (DEC, ''--''),
     (PLUS_ASSIGN, ''+=''), (MINUS_ASSIGN, ''-=''), (STAR_ASSIGN, ''*=''),
     (POW_ASSIGN, ''**=''), (SLASH_ASSIGN, ''/=''), (PERCENT_ASSIGN, ''%=''), (BITAND, ''&''),
     (BITOR, ''|''), (BITXOR, ''^''), (BITNOT, ''~''), (LSHIFT, ''<<''), (RSHIFT, ''>>''),
     (URSHIFT, ''>>>''), (AND_ASSIGN, ''&=''), (OR_ASSIGN, ''|=''), (XOR_ASSIGN, ''^=''),
     (LSHIFT_ASSIGN, ''<<=''), (RSHIFT_ASSIGN, ''>>=''), (URSHIFT_ASSIGN, ''>>>=''),
     (LOGICAL_AND_ASSIGN, ''&&=''), (LOGICAL_OR_ASSIGN, ''||=''), (NULLISH_ASSIGN, ''??=''),
     (LPAREN, ''(''), (RPAREN, '')''), (LBRACE, ''{''), (RBRACE, ''}''), (LBRACKET, ''[''),
     (RBRACKET, '']''), (SEMICOLON, '';''), (COLON, '':''), (COMMA, '',''), (DOT, ''.''),
     (QUESTION, ''?''), (NULLISH, ''??''), (OPTIONAL_DOT, ''?.''), (ARROW, ''=>''),
     (AT, ''@''), (TEMPLATE_NO_SUB, ''TEMPLATE_NO_SUB''), (TEMPLATE_HEAD, ''TEMPLATE_HEAD''),
     (TEMPLATE_MIDDLE, ''TEMPLATE_MIDDLE''), (TEMPLATE_TAIL, ''TEMPLATE_TAIL''),
     (REGEX, ''REGEX''), (ILLEGAL, ''ILLEGAL''), (EOF, ''EOF'')]"

definition TokenType_String :: "TokenType \<Rightarrow> string" where
  "TokenType_String t = (case map_of tokenNames t of
     Some name \<Rightarrow> name
   | None \<Rightarrow> ''TOKEN('' @ itoa (token_int t) @ '')'')"

definition keyword_table :: "(string \<times> TokenType) list" where
  "keyword_table = [
     (''let'', LET), (''const'', CONSTK), (''var'', VAR), (''function'', FUNCTION),
     (''return'', RETURN), (''for'', FOR), (''while'', WHILE), (''if'', IF), (''else'', ELSE),
     (''true'', TRUE), (''false'', FALSE), (''null'', NULL), (''undefined'', UNDEFINED),
     (''new'', NEW), (''typeof'', TYPEOF), (''void'', VOID), (''switch'', SWITCH),
     (''case'', CASE), (''default'', DEFAULT), (''break'', BREAK), (''continue'', CONTINUE),
     (''throw'', THROW), (''try'', TRY), (''catch'', CATCH), (''finally'', FINALLY),
     (''do'', DO), (''await'', AWAIT), (''yield'', YIELD), (''import'', IMPORT),
     (''export'', EXPORT), (''class'', CLASS), (''this'', THIS), (''instanceof'', INSTANCEOF),
     (''extends'', EXTENDS), (''super'', SUPER), (''static'', STATIC), (''private'', PRIVATE),
     (''protected'', PROTECTED), (''public'', PUBLIC), (''implements'', IMPLEMENTS)]"

definition LookupIdent :: "string \<Rightarrow> TokenType" where
  "LookupIdent s = (case map_of keyword_table s of Some t \<Rightarrow> t | None \<Rightarrow> IDENT)"

definition IsKeyword :: "TokenType \<Rightarrow> bool" where
  "IsKeyword t \<longleftrightarrow> t \<in> set (map snd keyword_table)"

section \<open>Tokens\<close>

type_synonym TokenFlags = "8 word"

definition PrecedingLineBreak :: TokenFlags where
  "PrecedingLineBreak = 1"

record Token =
  t_Type :: TokenType
  t_Literal :: string
  t_RegexFlags :: string
  t_Raw :: string
  t_Line :: nat
  t_Col :: nat
  t_Pos :: nat
  t_End :: nat
  t_Flags :: TokenFlags
  t_Doc :: string
  t_Err :: "Diagnostic option"

definition HasPrecedingLineBreak :: "Token \<Rightarrow> bool" where
  "HasPrecedingLineBreak t \<longleftrightarrow> Bit_Operations.and (t_Flags t) PrecedingLineBreak \<noteq> 0"

definition set_PrecedingLineBreak :: "Token \<Rightarrow> Token" where
  "set_PrecedingLineBreak t = t\<lparr>t_Flags := Bit_Operations.or (t_Flags t) PrecedingLineBreak\<rparr>"

lemma HasPrecedingLineBreak_set [simp]: "HasPrecedingLineBreak (set_PrecedingLineBreak t)"
  unfolding HasPrecedingLineBreak_def
proof
  assume "Bit_Operations.and (t_Flags (set_PrecedingLineBreak t)) PrecedingLineBreak = 0"
  then have "\<not> bit (Bit_Operations.and (t_Flags (set_PrecedingLineBreak t)) PrecedingLineBreak) 0"
    by simp
  then show False
    by (simp add: set_PrecedingLineBreak_def PrecedingLineBreak_def bit_and_iff bit_or_iff)
qed

lemma HasPrecedingLineBreak_0 [simp]: "t_Flags t = 0 \<Longrightarrow> \<not> HasPrecedingLineBreak t"
  by (simp add: HasPrecedingLineBreak_def)

lemma set_PrecedingLineBreak_fields [simp]:
  "t_Type (set_PrecedingLineBreak t) = t_Type t"
  "t_Literal (set_PrecedingLineBreak t) = t_Literal t"
  "t_Pos (set_PrecedingLineBreak t) = t_Pos t" "t_End (set_PrecedingLineBreak t) = t_End t"
  "t_Line (set_PrecedingLineBreak t) = t_Line t" "t_Col (set_PrecedingLineBreak t) = t_Col t"
  "t_Doc (set_PrecedingLineBreak t) = t_Doc t" "t_Err (set_PrecedingLineBreak t) = t_Err t"
  by (simp_all add: set_PrecedingLineBreak_def)

definition Token_String :: "unicode_tables \<Rightarrow> Token \<Rightarrow> string" where
  "Token_String U t =
    ''Token{'' @ TokenType_String (t_Type t) @ '' '' @ Quote U (t_Literal t) @ '' ''
    @ itoa (int (t_Line t)) @ '':'' @ itoa (int (t_Col t)) @ ''}''"

section \<open>The keyword table\<close>

lemma distinct_keyword_spellings: "distinct (map fst keyword_table)"
  by (simp add: keyword_table_def)

lemma distinct_keyword_types: "distinct (map snd keyword_table)"
  by (simp add: keyword_table_def)

lemma LookupIdent_keyword: "(s, t) \<in> set keyword_table \<Longrightarrow> LookupIdent s = t"
  using map_of_is_SomeI [OF distinct_keyword_spellings] by (simp add: LookupIdent_def)

lemma LookupIdent_cases: "LookupIdent s = IDENT \<or> (s, LookupIdent s) \<in> set keyword_table"
  by (auto simp: LookupIdent_def split: option.splits dest: map_of_SomeD)

lemma IDENT_not_keyword: "\<not> IsKeyword IDENT"
  by (simp add: IsKeyword_def keyword_table_def)

lemma keyword_names_all: "list_all (\<lambda>(s, t). TokenType_String t = s) keyword_table"
  by code_simp

lemma keyword_names: "(s, t) \<in> set keyword_table \<Longrightarrow> TokenType_String t = s"
  using keyword_names_all by (auto simp: list_all_iff)

end
