(* ===== verification/LexerState.thy ===== *)
theory LexerState
  imports Token
begin

text \<open>
  The scanner's state and its primitives (\<open>lexer/lexer.go\<close>): construction, saving
  and restoring a state, \<open>peek\<close>, \<open>advance\<close>, building tokens and errors. The
  relation \<open>adv\<close> says what every scanning step keeps, and the locale \<open>scan_step\<close>
  is the contract the token scanners are built from.
\<close>

section \<open>The state\<close>

datatype ScanMode = ScanDefault | ScanGlueGreater | ScanRegex | ScanNoRegex

record lexer =
  l_src :: "rune list"
  l_offs :: "nat list"
  l_pos :: nat
  l_line :: nat
  l_col :: nat
  l_templateStack :: "nat list"
  l_mode :: ScanMode
  l_sawNL :: bool
  l_startPos :: nat
  l_startNL :: bool
  l_pendingDoc :: string
  l_Docs :: "nat \<rightharpoonup> string"
  l_lastSig :: TokenType

definition New :: "string \<Rightarrow> lexer" where
  "New src = \<lparr>l_src = runes_of src, l_offs = rune_offsets src @ [length src], l_pos = 0,
     l_line = 1, l_col = 1, l_templateStack = [], l_mode = ScanDefault, l_sawNL = False,
     l_startPos = 0, l_startNL = False, l_pendingDoc = '''', l_Docs = Map.empty,
     l_lastSig = SEMICOLON\<rparr>"

text \<open>\<open>State\<close>: what \<open>Mark\<close> saves and \<open>Rewind\<close> restores.\<close>

record State =
  st_pos :: nat
  st_line :: nat
  st_col :: nat
  st_templateStack :: "nat list"
  st_lastSig :: TokenType
  st_sawNL :: bool
  st_pendingDoc :: string

definition Mark :: "lexer \<Rightarrow> State" where
  "Mark l = \<lparr>st_pos = l_pos l, st_line = l_line l, st_col = l_col l,
     st_templateStack = l_templateStack l, st_lastSig = l_lastSig l, st_sawNL = l_sawNL l,
     st_pendingDoc = l_pendingDoc l\<rparr>"

definition Rewind :: "State \<Rightarrow> lexer \<Rightarrow> lexer" where
  "Rewind st l = l\<lparr>l_pos := st_pos st, l_line := st_line st, l_col := st_col st,
     l_templateStack := st_templateStack st, l_lastSig := st_lastSig st, l_sawNL := st_sawNL st,
     l_pendingDoc := st_pendingDoc st\<rparr>"

section \<open>Primitives\<close>

definition isLineTerminator :: "rune \<Rightarrow> bool" where
  "isLineTerminator ch \<longleftrightarrow> ch = 0x0A \<or> ch = 0x0D \<or> ch = 0x2028 \<or> ch = 0x2029"

definition peek :: "lexer \<Rightarrow> rune" where
  "peek l = (if l_pos l \<ge> length (l_src l) then 0 else l_src l ! l_pos l)"

definition peekAt :: "nat \<Rightarrow> lexer \<Rightarrow> rune" where
  "peekAt n l = (let i = l_pos l + n in if i \<ge> length (l_src l) then 0 else l_src l ! i)"

definition advance :: "lexer \<Rightarrow> rune \<times> lexer" where
  "advance l =
    (if l_pos l \<ge> length (l_src l) then (0, l)
     else let ch = l_src l ! l_pos l;
              l = l\<lparr>l_pos := l_pos l + 1\<rparr>;
              l = (if isLineTerminator ch then l\<lparr>l_sawNL := True\<rparr> else l);
              l = (if ch = 0x0A then l\<lparr>l_line := l_line l + 1, l_col := 1\<rparr>
                   else l\<lparr>l_col := l_col l + 1\<rparr>)
          in (ch, l))"

abbreviation skip :: "lexer \<Rightarrow> lexer" where
  "skip l \<equiv> snd (advance l)"

text \<open>A loop's guard: more input.\<close>

abbreviation more :: "lexer \<Rightarrow> bool" where
  "more l \<equiv> l_pos l < length (l_src l)"

definition errAt :: "unicode_tables \<Rightarrow> nat \<Rightarrow> nat \<Rightarrow> Message \<Rightarrow> fmt_arg list \<Rightarrow> lexer \<Rightarrow> Diagnostic" where
  "errAt U line col m args l =
    New_diag U m \<lparr>s_File = '''', s_Pos = \<lparr>p_Line = line, p_Col = col\<rparr>,
      s_Start = int (l_offs l ! l_startPos l), s_End = int (l_offs l ! l_pos l)\<rparr> args"

definition tok :: "TokenType \<Rightarrow> string \<Rightarrow> nat \<Rightarrow> nat \<Rightarrow> lexer \<Rightarrow> Token \<times> lexer" where
  "tok typ lit line col l =
    (let t = \<lparr>t_Type = typ, t_Literal = lit, t_RegexFlags = '''', t_Raw = '''', t_Line = line,
              t_Col = col, t_Pos = l_offs l ! l_startPos l, t_End = l_offs l ! l_pos l,
              t_Flags = 0, t_Doc = l_pendingDoc l, t_Err = None\<rparr>;
         t = (if l_startNL l then set_PrecedingLineBreak t else t)
     in (t, l\<lparr>l_pendingDoc := ''''\<rparr>))"

lemma tok_fields:
  assumes "tok typ lit line col l = (t, l')"
  shows "t_Type t = typ" "t_Literal t = lit" "t_Line t = line" "t_Col t = col"
    "t_Pos t = l_offs l ! l_startPos l" "t_End t = l_offs l ! l_pos l"
    "t_Doc t = l_pendingDoc l" "t_Err t = None" "HasPrecedingLineBreak t = l_startNL l"
    "l' = l\<lparr>l_pendingDoc := ''''\<rparr>"
  using assms by (auto simp: tok_def Let_def split: if_splits)

text \<open>A scanner's result: the diagnostic or the token, and the state left behind.\<close>

type_synonym scanned = "(Diagnostic + Token) \<times> lexer"

definition give :: "TokenType \<Rightarrow> string \<Rightarrow> nat \<Rightarrow> nat \<Rightarrow> lexer \<Rightarrow> scanned" where
  "give typ lit line col l = (case tok typ lit line col l of (t, l') \<Rightarrow> (Inr t, l'))"

definition fail :: "unicode_tables \<Rightarrow> nat \<Rightarrow> nat \<Rightarrow> Message \<Rightarrow> fmt_arg list \<Rightarrow> lexer
    \<Rightarrow> (Diagnostic + 'a) \<times> lexer" where
  "fail U line col m args l = (Inl (errAt U line col m args l), l)"

section \<open>Positions\<close>

text \<open>The position a text ends at: one line more per line feed, and a column that counts
  the characters since the last one.\<close>

fun step_linecol :: "nat \<times> nat \<Rightarrow> rune \<Rightarrow> nat \<times> nat" where
  "step_linecol (ln, cl) ch = (if ch = 0x0A then (ln + 1, 1) else (ln, cl + 1))"

definition linecol :: "rune list \<Rightarrow> nat \<times> nat" where
  "linecol rs = foldl step_linecol (1, 1) rs"

lemma linecol_Nil [simp]: "linecol [] = (1, 1)"
  by (simp add: linecol_def)

lemma linecol_snoc [simp]: "linecol (rs @ [ch]) = step_linecol (linecol rs) ch"
  by (simp add: linecol_def)

definition linecol_ok :: "lexer \<Rightarrow> bool" where
  "linecol_ok l \<longleftrightarrow> linecol (take (l_pos l) (l_src l)) = (l_line l, l_col l)"

section \<open>What a scanning step keeps\<close>

definition nl_in :: "rune list \<Rightarrow> nat \<Rightarrow> nat \<Rightarrow> bool" where
  "nl_in rs a b \<longleftrightarrow> (\<exists>i < length rs. a \<le> i \<and> i < b \<and> isLineTerminator (rs ! i))"

lemma nl_in_empty [simp]: "\<not> nl_in rs a a"
  by (auto simp: nl_in_def)

lemma nl_in_join: "a \<le> b \<Longrightarrow> b \<le> c \<Longrightarrow> nl_in rs a c \<longleftrightarrow> nl_in rs a b \<or> nl_in rs b c"
  by (auto simp: nl_in_def) (meson le_trans less_le_trans not_le)+

lemma nl_in_Suc: "i < length rs \<Longrightarrow> nl_in rs i (Suc i) \<longleftrightarrow> isLineTerminator (rs ! i)"
  by (auto simp: nl_in_def le_less_Suc_eq)

definition adv :: "lexer \<Rightarrow> lexer \<Rightarrow> bool" where
  "adv l l' \<longleftrightarrow>
     l_src l' = l_src l \<and> l_offs l' = l_offs l \<and> l_mode l' = l_mode l
   \<and> l_lastSig l' = l_lastSig l \<and> l_startPos l' = l_startPos l \<and> l_startNL l' = l_startNL l
   \<and> l_pos l \<le> l_pos l' \<and> (l_pos l \<le> length (l_src l) \<longrightarrow> l_pos l' \<le> length (l_src l))
   \<and> (linecol_ok l \<longrightarrow> linecol_ok l')
   \<and> (l_sawNL l' \<longleftrightarrow> l_sawNL l \<or> nl_in (l_src l) (l_pos l) (l_pos l'))"

lemma adv_refl [simp, intro]: "adv l l"
  by (auto simp: adv_def)

lemma adv_trans [trans]: "adv a b \<Longrightarrow> adv b c \<Longrightarrow> adv a c"
  unfolding adv_def using nl_in_join [of "l_pos a" "l_pos b" "l_pos c" "l_src a"] by auto

lemma advD:
  assumes "adv l l'"
  shows "l_src l' = l_src l" "l_offs l' = l_offs l" "l_mode l' = l_mode l"
    "l_lastSig l' = l_lastSig l" "l_startPos l' = l_startPos l" "l_startNL l' = l_startNL l"
    "l_pos l \<le> l_pos l'"
  using assms by (simp_all add: adv_def)

definition remaining :: "lexer \<Rightarrow> nat" where
  "remaining l = length (l_src l) - l_pos l"

lemma adv_remaining: "adv l l' \<Longrightarrow> remaining l' \<le> remaining l"
  by (auto simp: adv_def remaining_def)

lemma adv_advance: "adv l (skip l)"
proof (cases "more l")
  case True
  have "take (Suc (l_pos l)) (l_src l) = take (l_pos l) (l_src l) @ [l_src l ! l_pos l]"
    by (rule take_Suc_snoc) (use True in simp)
  then show ?thesis using True
    by (auto simp: adv_def advance_def Let_def linecol_ok_def nl_in_Suc)
qed (auto simp: advance_def)

lemma advance_more:
  "more l \<Longrightarrow> l_pos (skip l) = Suc (l_pos l)"
  "more l \<Longrightarrow> fst (advance l) = peek l"
  by (auto simp: advance_def peek_def Let_def)

lemma advance_src [simp]:
  "l_src (skip l) = l_src l" "l_offs (skip l) = l_offs l" "l_mode (skip l) = l_mode l"
  "l_templateStack (skip l) = l_templateStack l" "l_startPos (skip l) = l_startPos l"
  "l_startNL (skip l) = l_startNL l" "l_pendingDoc (skip l) = l_pendingDoc l"
  "l_Docs (skip l) = l_Docs l" "l_lastSig (skip l) = l_lastSig l"
  by (simp_all add: advance_def Let_def)

lemma remaining_advance: "more l \<Longrightarrow> remaining (skip l) < remaining l"
  by (simp add: remaining_def advance_more)

lemma remaining_advance_eq: "advance l = (c, l') \<Longrightarrow> more l \<Longrightarrow> remaining l' < remaining l"
  using remaining_advance [of l] by simp

lemmas remaining_steps = remaining_advance remaining_advance_eq remaining_advance_eq [OF sym]

lemma remaining_two:
  "(r, l1) = advance l \<Longrightarrow> more l \<Longrightarrow> (r', l2) = advance l1 \<Longrightarrow> more l1 \<Longrightarrow> remaining l2 < remaining l"
  using remaining_advance_eq [of l r l1] remaining_advance_eq [of l1 r' l2] by simp

text \<open>Sequencing: the state of the second step is one the first has advanced to.\<close>

lemma adv_bind:
  assumes "adv k l" and "adv l (snd (f l))" and "\<And>x l'. adv k l' \<Longrightarrow> adv k (snd (g x l'))"
  shows "adv k (snd (case f l of (x, l') \<Rightarrow> g x l'))"
  using assms adv_trans [of k l "snd (f l)"] by (cases "f l") auto

lemma adv_update [simp]:
  "adv l (l'\<lparr>l_pendingDoc := d\<rparr>) = adv l l'"
  "adv l (l'\<lparr>l_Docs := ds\<rparr>) = adv l l'"
  "adv l (l'\<lparr>l_templateStack := ts\<rparr>) = adv l l'"
  by (simp_all add: adv_def linecol_ok_def)

text \<open>The contract of a scanner: it only moves forward, over the same text, and
  keeps the position. The lemmas are what its callers use.\<close>

locale scan_step =
  fixes step :: "lexer \<Rightarrow> 'a \<times> lexer"
  assumes step_adv: "adv l (snd (step l))"
begin

lemma step_adv_intro [inv_intros]: "adv l (snd (step l))"
  by (rule step_adv)

lemma after_adv [inv_intros]: "adv k l \<Longrightarrow> adv k (snd (step l))"
  by (rule adv_trans [OF _ step_adv])

lemma adv_result: "step l = (x, l') \<Longrightarrow> adv l l'"
  using step_adv [of l] by simp

lemma remaining_le: "step l = (x, l') \<Longrightarrow> remaining l' \<le> remaining l"
  by (rule adv_remaining) (rule adv_result)

lemma then_adv: "adv k l \<Longrightarrow> step l = (x, l') \<Longrightarrow> adv k l'"
  by (rule adv_trans [OF _ adv_result])

end

interpretation advance: scan_step advance
  by unfold_locales (rule adv_advance)

interpretation tok: scan_step "tok typ lit line col"
  by unfold_locales (simp add: tok_def Let_def)

interpretation give: scan_step "give typ lit line col"
  by unfold_locales (simp add: give_def tok_def Let_def)

interpretation fail: scan_step "fail U line col m args"
  by unfold_locales (simp add: fail_def)

end
