(* ===== verification/LexerScan.thy ===== *)
theory LexerScan
  imports LexerState
begin

text \<open>
  The scanners of single tokens (\<open>lexer/lexer.go\<close>): digits and numbers, escapes,
  strings, regular expressions, names, templates and punctuators. Every loop runs
  over the remaining input, and every scanner is shown to be a \<open>scan_step\<close>.
\<close>

section \<open>Runs of characters\<close>

text \<open>\<open>for l.pos < len(l.src) && P(l.peek()) { buf.WriteRune(l.advance()) }\<close>\<close>

function scanWhile :: "(rune \<Rightarrow> bool) \<Rightarrow> string \<Rightarrow> lexer \<Rightarrow> string \<times> lexer" where
  "scanWhile P buf l =
    (if more l \<and> P (peek l)
     then (case advance l of (c, l') \<Rightarrow> scanWhile P (buf @ encode_rune c) l')
     else (buf, l))"
  by pat_completeness auto
termination
  by (relation "measure (\<lambda>(P, buf, l). remaining l)") (auto dest: remaining_steps)

declare scanWhile.simps [simp del]

lemma scanWhile_adv: "adv l (snd (scanWhile P buf l))"
proof (induction P buf l rule: scanWhile.induct)
  case (1 P buf l)
  then show ?case
    by (subst scanWhile.simps) (auto split: prod.splits intro: adv_trans [OF advance.adv_result])
qed

interpretation scanWhile: scan_step "scanWhile P buf"
  by unfold_locales (rule scanWhile_adv)

text \<open>\<open>readDigitRun\<close>: digits, with single separators between two of them.\<close>

function readDigitRun :: "unicode_tables \<Rightarrow> (rune \<Rightarrow> bool) \<Rightarrow> nat \<Rightarrow> nat \<Rightarrow> bool \<Rightarrow> string \<Rightarrow> lexer
    \<Rightarrow> (Diagnostic + string) \<times> lexer" where
  "readDigitRun U isDigit line col lastWasDigit buf l =
    (if more l then
       let c = peek l in
       if isDigit c then
         (case advance l of (r, l') \<Rightarrow> readDigitRun U isDigit line col True (buf @ encode_rune r) l')
       else if c = ord (CHR ''_'') then
         (if \<not> lastWasDigit \<or> \<not> isDigit (peekAt 1 l)
          then fail U line col NumericSeparatorPlacement [] l
          else readDigitRun U isDigit line col False buf (skip l))
       else (Inr buf, l)
     else (Inr buf, l))"
  by pat_completeness auto
termination
  by (relation "measure (\<lambda>(U, d, line, col, w, buf, l). remaining l)")
    (auto dest: remaining_steps)

declare readDigitRun.simps [simp del]

lemma readDigitRun_adv: "adv l (snd (readDigitRun U isDigit line col w buf l))"
proof (induction U isDigit line col w buf l rule: readDigitRun.induct)
  case (1 U isDigit line col w buf l)
  then show ?case
    by (subst readDigitRun.simps)
      (auto simp: Let_def fail_def split: prod.splits
        intro: adv_trans [OF advance.adv_result] adv_trans [OF adv_advance])
qed

interpretation readDigitRun: scan_step "readDigitRun U isDigit line col w buf"
  by unfold_locales (rule readDigitRun_adv)

section \<open>Numbers\<close>

definition isHexDigit :: "rune \<Rightarrow> bool" where
  "isHexDigit c \<longleftrightarrow> (ord (CHR ''0'') \<le> c \<and> c \<le> ord (CHR ''9''))
    \<or> (ord (CHR ''a'') \<le> c \<and> c \<le> ord (CHR ''f'')) \<or> (ord (CHR ''A'') \<le> c \<and> c \<le> ord (CHR ''F''))"

definition isBinDigit :: "rune \<Rightarrow> bool" where
  "isBinDigit c \<longleftrightarrow> c = ord (CHR ''0'') \<or> c = ord (CHR ''1'')"

definition isOctDigit :: "rune \<Rightarrow> bool" where
  "isOctDigit c \<longleftrightarrow> ord (CHR ''0'') \<le> c \<and> c \<le> ord (CHR ''7'')"

text \<open>A prefixed literal (the body of each case of the prefix switch): the two prefix
  characters, a digit run, and the BigInt suffix.\<close>

definition readPrefixed :: "unicode_tables \<Rightarrow> (rune \<Rightarrow> bool) \<Rightarrow> nat \<Rightarrow> nat \<Rightarrow> lexer \<Rightarrow> scanned" where
  "readPrefixed U isDigit line col l =
    (case advance l of (c0, l) \<Rightarrow>
     case advance l of (c1, l) \<Rightarrow>
     case readDigitRun U isDigit line col False (encode_rune c0 @ encode_rune c1) l of
       (Inl e, l) \<Rightarrow> (Inl e, l)
     | (Inr buf, l) \<Rightarrow>
         if peek l = ord (CHR ''n'') then give BIGINT buf line col (skip l)
         else give NUMBER buf line col l)"

text \<open>The loop over a decimal literal's digits, point and separators: whether it has a
  point, and the text.\<close>

function decimalDigits :: "unicode_tables \<Rightarrow> bool \<Rightarrow> nat \<Rightarrow> nat \<Rightarrow> bool \<Rightarrow> bool \<Rightarrow> string \<Rightarrow> lexer
    \<Rightarrow> (Diagnostic + (bool \<times> string)) \<times> lexer" where
  "decimalDigits U legacyLeadingZero line col hasDot lastWasDigit buf l =
    (if more l then
       let c = peek l in
       if IsDigit U c then
         (case advance l of (r, l') \<Rightarrow>
            decimalDigits U legacyLeadingZero line col hasDot True (buf @ encode_rune r) l')
       else if c = ord (CHR ''.'') \<and> \<not> hasDot \<and> IsDigit U (peekAt 1 l) then
         (case advance l of (r, l') \<Rightarrow>
            decimalDigits U legacyLeadingZero line col True False (buf @ encode_rune r) l')
       else if c = ord (CHR ''.'') \<and> \<not> hasDot \<and> \<not> legacyLeadingZero \<and> lastWasDigit then
         (Inr (True, buf), skip l)
       else if c = ord (CHR ''_'') then
         (if legacyLeadingZero then fail U line col NumericSeparatorLegacy [] l
          else if \<not> lastWasDigit \<or> \<not> IsDigit U (peekAt 1 l)
          then fail U line col NumericSeparatorPlacement [] l
          else decimalDigits U legacyLeadingZero line col hasDot False buf (skip l))
       else (Inr (hasDot, buf), l)
     else (Inr (hasDot, buf), l))"
  by pat_completeness auto
termination
  by (relation "measure (\<lambda>(U, z, line, col, d, w, buf, l). remaining l)")
    (auto dest: remaining_steps)

declare decimalDigits.simps [simp del]

lemma decimalDigits_adv: "adv l (snd (decimalDigits U z line col d w buf l))"
proof (induction U z line col d w buf l rule: decimalDigits.induct)
  case (1 U z line col d w buf l)
  then show ?case
    by (subst decimalDigits.simps)
      (auto simp: Let_def fail_def split: prod.splits
        intro: adv_trans [OF advance.adv_result] adv_trans [OF adv_advance])
qed

interpretation decimalDigits: scan_step "decimalDigits U z line col d w buf"
  by unfold_locales (rule decimalDigits_adv)

text \<open>The optional exponent: whether there is one, and the text with it.\<close>

definition readExponent :: "unicode_tables \<Rightarrow> nat \<Rightarrow> nat \<Rightarrow> string \<Rightarrow> lexer
    \<Rightarrow> (Diagnostic + (bool \<times> string)) \<times> lexer" where
  "readExponent U line col buf l =
    (let c = peek l; n1 = peekAt 1 l in
     if (c = ord (CHR ''e'') \<or> c = ord (CHR ''E''))
        \<and> (IsDigit U n1 \<or> ((n1 = ord (CHR ''+'') \<or> n1 = ord (CHR ''-'')) \<and> IsDigit U (peekAt 2 l)))
     then
       (case advance l of (e, l) \<Rightarrow>
        case (if peek l = ord (CHR ''+'') \<or> peek l = ord (CHR ''-'')
              then case advance l of (s, l) \<Rightarrow> (buf @ encode_rune e @ encode_rune s, l)
              else (buf @ encode_rune e, l)) of (buf, l) \<Rightarrow>
        case readDigitRun U (IsDigit U) line col False buf l of
          (Inl d, l) \<Rightarrow> (Inl d, l)
        | (Inr buf, l) \<Rightarrow> (Inr (True, buf), l))
     else (Inr (False, buf), l))"

definition readDecimal :: "unicode_tables \<Rightarrow> nat \<Rightarrow> nat \<Rightarrow> lexer \<Rightarrow> scanned" where
  "readDecimal U line col l =
    (let nextC = peekAt 1 l;
         legacyLeadingZero = (peek l = ord (CHR ''0'')
           \<and> ((ord (CHR ''0'') \<le> nextC \<and> nextC \<le> ord (CHR ''9'')) \<or> nextC = ord (CHR ''_'')))
     in case decimalDigits U legacyLeadingZero line col False False '''' l of
          (Inl e, l) \<Rightarrow> (Inl e, l)
        | (Inr (hasDot, buf), l) \<Rightarrow>
          (case readExponent U line col buf l of
             (Inl e, l) \<Rightarrow> (Inl e, l)
           | (Inr (hasExp, buf), l) \<Rightarrow>
             if peek l = ord (CHR ''n'') then
               (if hasDot then fail U line col BigIntDecimalPoint [] l
                else if hasExp then fail U line col BigIntExponent [] l
                else if legacyLeadingZero then fail U line col BigIntLegacyOctal [] l
                else give BIGINT buf line col (skip l))
             else give NUMBER buf line col l))"

definition readNumberBody :: "unicode_tables \<Rightarrow> nat \<Rightarrow> nat \<Rightarrow> lexer \<Rightarrow> scanned" where
  "readNumberBody U line col l =
    (let n1 = peekAt 1 l in
     if peek l = ord (CHR ''0'') \<and> (n1 = ord (CHR ''x'') \<or> n1 = ord (CHR ''X''))
     then readPrefixed U isHexDigit line col l
     else if peek l = ord (CHR ''0'') \<and> (n1 = ord (CHR ''b'') \<or> n1 = ord (CHR ''B''))
     then readPrefixed U isBinDigit line col l
     else if peek l = ord (CHR ''0'') \<and> (n1 = ord (CHR ''o'') \<or> n1 = ord (CHR ''O''))
     then readPrefixed U isOctDigit line col l
     else readDecimal U line col l)"

definition readNumber :: "unicode_tables \<Rightarrow> nat \<Rightarrow> nat \<Rightarrow> lexer \<Rightarrow> scanned" where
  "readNumber U line col l =
    (case readNumberBody U line col l of
       (Inl e, l) \<Rightarrow> (Inl e, l)
     | (Inr t, l) \<Rightarrow>
         let c = peek l in
         if IsLetter U c \<or> c = ord (CHR ''_'') \<or> c = ord (CHR ''$'') \<or> c = ord (CHR 0x5C)
         then fail U line col IdentAfterNumeric [] l
         else (Inr t, l))"


lemma readPrefixed_adv: "adv l (snd (readPrefixed U isDigit line col l))"
  unfolding readPrefixed_def
  by (intro adv_bind) (auto split: sum.split intro!: inv_intros)

interpretation readPrefixed: scan_step "readPrefixed U isDigit line col"
  by unfold_locales (rule readPrefixed_adv)

lemma readExponent_adv: "adv l (snd (readExponent U line col buf l))"
  unfolding readExponent_def Let_def
  by (auto split: sum.split intro!: adv_bind inv_intros)

interpretation readExponent: scan_step "readExponent U line col buf"
  by unfold_locales (rule readExponent_adv)

lemma readDecimal_adv: "adv l (snd (readDecimal U line col l))"
  unfolding readDecimal_def Let_def
  by (auto split: sum.split intro!: adv_bind inv_intros)

interpretation readDecimal: scan_step "readDecimal U line col"
  by unfold_locales (rule readDecimal_adv)

lemma readNumberBody_adv: "adv l (snd (readNumberBody U line col l))"
  by (simp add: readNumberBody_def Let_def inv_intros)

interpretation readNumberBody: scan_step "readNumberBody U line col"
  by unfold_locales (rule readNumberBody_adv)

lemma readNumber_adv: "adv l (snd (readNumber U line col l))"
  unfolding readNumber_def Let_def
  by (auto split: sum.split intro!: adv_bind inv_intros)

interpretation readNumber: scan_step "readNumber U line col"
  by unfold_locales (rule readNumber_adv)

end
