(* ===== verification/LexerText.thy ===== *)
theory LexerText
  imports LexerScan
begin

text \<open>
  The scanners of literals and names (\<open>lexer/lexer.go\<close>): escape sequences, string
  literals, regular expressions, identifiers, private names and template segments.
\<close>

section \<open>Escape sequences\<close>

definition hexDigitVal :: "rune \<Rightarrow> nat option" where
  "hexDigitVal c =
    (if ord (CHR ''0'') \<le> c \<and> c \<le> ord (CHR ''9'') then Some (c - ord (CHR ''0''))
     else if ord (CHR ''a'') \<le> c \<and> c \<le> ord (CHR ''f'') then Some (c - ord (CHR ''a'') + 10)
     else if ord (CHR ''A'') \<le> c \<and> c \<le> ord (CHR ''F'') then Some (c - ord (CHR ''A'') + 10)
     else None)"

text \<open>The loop of \<open>readHexEscape\<close>: \<open>n\<close> more digits after the value \<open>val\<close>.\<close>

fun hexDigits :: "nat \<Rightarrow> nat \<Rightarrow> lexer \<Rightarrow> nat option \<times> lexer" where
  "hexDigits 0 val l = (Some val, l)"
| "hexDigits (Suc n) val l =
    (case hexDigitVal (peek l) of
       None \<Rightarrow> (None, l)
     | Some d \<Rightarrow> hexDigits n (val * 16 + d) (skip l))"

definition readHexEscape :: "nat \<Rightarrow> lexer \<Rightarrow> nat option \<times> lexer" where
  "readHexEscape n l = hexDigits n 0 l"

text \<open>The loop of a legacy octal escape: at most \<open>n\<close> more octal digits.\<close>

fun octalDigits :: "nat \<Rightarrow> nat \<Rightarrow> lexer \<Rightarrow> nat \<times> lexer" where
  "octalDigits 0 val l = (val, l)"
| "octalDigits (Suc n) val l =
    (if peek l < ord (CHR ''0'') \<or> peek l > ord (CHR ''7'') then (val, l)
     else case advance l of (c, l) \<Rightarrow> octalDigits n (val * 8 + (c - ord (CHR ''0''))) l)"

text \<open>The loop over a \<open>\u{\<dots>}\<close> escape's digits: the value and their number.\<close>

function codePoint :: "unicode_tables \<Rightarrow> nat \<Rightarrow> nat \<Rightarrow> nat \<Rightarrow> nat \<Rightarrow> lexer
    \<Rightarrow> (Diagnostic + (nat \<times> nat)) \<times> lexer" where
  "codePoint U line col val n l =
    (if peek l \<noteq> ord (CHR ''}'') \<and> more l then
       (case hexDigitVal (peek l) of
          None \<Rightarrow> fail U line col InvalidUnicodeEscape [] l
        | Some d \<Rightarrow>
            let l' = skip l; val' = val * 16 + d in
            if val' > 0x10FFFF then fail U line col CodePointOutOfRange [] l'
            else codePoint U line col val' (n + 1) l')
     else (Inr (val, n), l))"
  by pat_completeness auto
termination
  by (relation "measure (\<lambda>(U, line, col, v, n, l). remaining l)") (auto dest: remaining_steps)

declare codePoint.simps [simp del]

definition bracedEscape :: "unicode_tables \<Rightarrow> string \<Rightarrow> nat \<Rightarrow> nat \<Rightarrow> lexer
    \<Rightarrow> (Diagnostic + string) \<times> lexer" where
  "bracedEscape U buf line col l =
    (case codePoint U line col 0 0 (skip l) of
       (Inl e, l) \<Rightarrow> (Inl e, l)
     | (Inr (val, n), l) \<Rightarrow>
         if n = 0 \<or> peek l \<noteq> ord (CHR ''}'') then fail U line col InvalidUnicodeEscape [] l
         else (Inr (buf @ encode_rune val), skip l))"

definition fixedEscape :: "unicode_tables \<Rightarrow> nat \<Rightarrow> Message \<Rightarrow> string \<Rightarrow> nat \<Rightarrow> nat \<Rightarrow> lexer
    \<Rightarrow> (Diagnostic + string) \<times> lexer" where
  "fixedEscape U n m buf line col l =
    (case readHexEscape n l of
       (None, l) \<Rightarrow> fail U line col m [] l
     | (Some v, l) \<Rightarrow> (Inr (buf @ encode_rune v), l))"

definition octalEscape :: "rune \<Rightarrow> string \<Rightarrow> lexer \<Rightarrow> (Diagnostic + string) \<times> lexer" where
  "octalEscape esc buf l =
    (let more = (if esc > ord (CHR ''3'') then 1 else 2) in
     case octalDigits more (esc - ord (CHR ''0'')) l of
       (val, l) \<Rightarrow> (Inr (buf @ encode_rune val), l))"

definition scanStringEscape :: "unicode_tables \<Rightarrow> string \<Rightarrow> nat \<Rightarrow> nat \<Rightarrow> lexer
    \<Rightarrow> (Diagnostic + string) \<times> lexer" where
  "scanStringEscape U buf line col l =
    (case advance l of (esc, l) \<Rightarrow>
     if esc = ord (CHR ''n'') then (Inr (buf @ [CHR 0x0A]), l)
     else if esc = ord (CHR ''t'') then (Inr (buf @ [CHR 0x09]), l)
     else if esc = ord (CHR ''r'') then (Inr (buf @ [CHR 0x0D]), l)
     else if esc = ord (CHR ''b'') then (Inr (buf @ [CHR 0x08]), l)
     else if esc = ord (CHR ''f'') then (Inr (buf @ [CHR 0x0C]), l)
     else if esc = ord (CHR ''v'') then (Inr (buf @ [CHR 0x0B]), l)
     else if esc = ord (CHR 0x5C) \<or> esc = ord (CHR 0x22) \<or> esc = ord (CHR 0x27) \<or> esc = ord (CHR 0x60)
     then (Inr (buf @ encode_rune esc), l)
     else if ord (CHR ''0'') \<le> esc \<and> esc \<le> ord (CHR ''7'') then octalEscape esc buf l
     else if esc = ord (CHR ''x'') then fixedEscape U 2 InvalidHexEscape buf line col l
     else if esc = ord (CHR ''u'') then
       (if peek l = ord (CHR ''{'') then bracedEscape U buf line col l
        else fixedEscape U 4 InvalidUnicodeEscape buf line col l)
     else if esc = 0x0A \<or> esc = 0x2028 \<or> esc = 0x2029 then (Inr buf, l)
     else if esc = 0x0D then (Inr buf, if peek l = 0x0A then skip l else l)
     else if esc = 0 then fail U line col UnterminatedString [] l
     else (Inr (buf @ encode_rune esc), l))"

lemma hexDigits_adv: "adv l (snd (hexDigits n val l))"
  by (induction n val l rule: hexDigits.induct)
    (auto split: option.split intro: adv_trans [OF adv_advance])

interpretation readHexEscape: scan_step "readHexEscape n"
  by unfold_locales (simp add: readHexEscape_def hexDigits_adv)

lemma octalDigits_adv: "adv l (snd (octalDigits n val l))"
  by (induction n val l rule: octalDigits.induct)
    (auto split: prod.split intro: adv_trans [OF advance.adv_result])

interpretation octalDigits: scan_step "octalDigits n val"
  by unfold_locales (rule octalDigits_adv)

lemma codePoint_adv: "adv l (snd (codePoint U line col val n l))"
proof (induction U line col val n l rule: codePoint.induct)
  case (1 U line col val n l)
  then show ?case
    by (subst codePoint.simps)
      (auto simp: Let_def split: option.split intro!: inv_intros intro: adv_trans [OF adv_advance])
qed

interpretation codePoint: scan_step "codePoint U line col val n"
  by unfold_locales (rule codePoint_adv)

lemma bracedEscape_adv: "adv l (snd (bracedEscape U buf line col l))"
  unfolding bracedEscape_def
  by (rule adv_bind [of l "skip l"]) (auto split: sum.split intro!: inv_intros)

interpretation bracedEscape: scan_step "bracedEscape U buf line col"
  by unfold_locales (rule bracedEscape_adv)

lemma fixedEscape_adv: "adv l (snd (fixedEscape U n m buf line col l))"
  unfolding fixedEscape_def
  by (rule adv_bind) (auto split: option.split intro!: inv_intros)

interpretation fixedEscape: scan_step "fixedEscape U n m buf line col"
  by unfold_locales (rule fixedEscape_adv)

lemma octalEscape_adv: "adv l (snd (octalEscape esc buf l))"
  unfolding octalEscape_def Let_def
  by (rule adv_bind) (auto simp del: octalDigits.simps intro!: inv_intros)

interpretation octalEscape: scan_step "octalEscape esc buf"
  by unfold_locales (rule octalEscape_adv)

lemma scanStringEscape_adv: "adv l (snd (scanStringEscape U buf line col l))"
  unfolding scanStringEscape_def
  by (rule adv_bind) (auto intro!: inv_intros)

interpretation scanStringEscape: scan_step "scanStringEscape U buf line col"
  by unfold_locales (rule scanStringEscape_adv)

section \<open>String literals\<close>

function readStringBody :: "unicode_tables \<Rightarrow> rune \<Rightarrow> nat \<Rightarrow> nat \<Rightarrow> string \<Rightarrow> lexer \<Rightarrow> scanned" where
  "readStringBody U quote line col buf l =
    (if more l then
       let c = peek l in
       if c = quote then give STRING buf line col (skip l)
       else if c = ord (CHR 0x5C) then
         (case scanStringEscape U buf line col (skip l) of
            (Inl e, l') \<Rightarrow> (Inl e, l')
          | (Inr buf', l') \<Rightarrow> readStringBody U quote line col buf' l')
       else if (c = 0x0A \<or> c = 0x0D) \<and> quote \<noteq> ord (CHR 0x60)
       then fail U line col UnterminatedString [] l
       else (case advance l of (r, l') \<Rightarrow> readStringBody U quote line col (buf @ encode_rune r) l')
     else fail U line col UnterminatedString [] l)"
  by pat_completeness auto
termination
proof (relation "measure (\<lambda>(U, q, line, col, buf, l). remaining l)", goal_cases)
  case (2 U quote line col buf l c r l' x2)
  then have "remaining l' \<le> remaining (skip l)"
    by (metis scanStringEscape.remaining_le)
  with 2 remaining_advance [of l] show ?case by simp
qed (auto dest: remaining_steps)

declare readStringBody.simps [simp del]

lemma readStringBody_adv: "adv l (snd (readStringBody U quote line col buf l))"
proof (induction U quote line col buf l rule: readStringBody.induct)
  case (1 U quote line col buf l)
  have esc: "scanStringEscape U buf line col (skip l) = (x, l') \<Longrightarrow> adv l l'" for x l'
    using scanStringEscape.adv_result adv_trans [OF adv_advance] by blast
  show ?case
    using 1
    by (subst readStringBody.simps)
      (auto simp: Let_def split: prod.split sum.split
        intro!: inv_intros intro: adv_trans [OF esc] adv_trans [OF advance.adv_result])
qed

interpretation readStringBody: scan_step "readStringBody U quote line col buf"
  by unfold_locales (rule readStringBody_adv)

definition readString :: "unicode_tables \<Rightarrow> nat \<Rightarrow> nat \<Rightarrow> lexer \<Rightarrow> scanned" where
  "readString U line col l =
    (case advance l of (quote, l) \<Rightarrow> readStringBody U quote line col '''' l)"

lemma readString_adv: "adv l (snd (readString U line col l))"
  unfolding readString_def by (rule adv_bind) (auto intro!: inv_intros)

interpretation readString: scan_step "readString U line col"
  by unfold_locales (rule readString_adv)

section \<open>Regular expressions\<close>

definition regexIllegalAfter :: "TokenType set" where
  "regexIllegalAfter = {IDENT, NUMBER, BIGINT, STRING, PRIVATE_NAME,
     TEMPLATE_NO_SUB, TEMPLATE_TAIL,
     TRUE, FALSE, NULL, UNDEFINED,
     THIS, SUPER,
     RPAREN, RBRACKET, RBRACE,
     INC, DEC}"

definition regexAllowed :: "lexer \<Rightarrow> bool" where
  "regexAllowed l \<longleftrightarrow> l_lastSig l \<notin> regexIllegalAfter"

text \<open>The loop of \<open>validRegexFlags\<close>, with the letters seen so far.\<close>

fun flagsValid :: "rune list \<Rightarrow> rune list \<Rightarrow> bool" where
  "flagsValid seen [] = True"
| "flagsValid seen (c # cs) =
    (if c \<notin> set (runes_of ''dgimsuvy'') \<or> c \<in> set seen then False else flagsValid (c # seen) cs)"

definition validRegexFlags :: "string \<Rightarrow> bool" where
  "validRegexFlags fs = flagsValid [] (runes_of fs)"

function regexBody :: "unicode_tables \<Rightarrow> nat \<Rightarrow> nat \<Rightarrow> bool \<Rightarrow> string \<Rightarrow> lexer
    \<Rightarrow> (Diagnostic + string) \<times> lexer" where
  "regexBody U line col inClass pattern l =
    (if \<not> more l \<or> peek l = 0x0A then fail U line col UnterminatedRegExp [] l
     else
       let c = peek l in
       if c = ord (CHR 0x5C) then
         (case advance l of (r, l1) \<Rightarrow>
          if \<not> more l1 \<or> peek l1 = 0x0A then fail U line col UnterminatedRegExp [] l1
          else case advance l1 of (r2, l2) \<Rightarrow>
            regexBody U line col inClass (pattern @ encode_rune r @ encode_rune r2) l2)
       else if c = ord (CHR ''['') then
         (case advance l of (r, l') \<Rightarrow> regexBody U line col True (pattern @ encode_rune r) l')
       else if c = ord (CHR '']'') then
         (case advance l of (r, l') \<Rightarrow> regexBody U line col False (pattern @ encode_rune r) l')
       else if c = ord (CHR ''/'') \<and> \<not> inClass then (Inr pattern, skip l)
       else (case advance l of (r, l') \<Rightarrow> regexBody U line col inClass (pattern @ encode_rune r) l'))"
  by pat_completeness auto
termination
  by (relation "measure (\<lambda>(U, line, col, b, p, l). remaining l)")
    (auto dest: remaining_steps remaining_two)

declare regexBody.simps [simp del]

lemma regexBody_adv: "adv l (snd (regexBody U line col b p l))"
proof (induction U line col b p l rule: regexBody.induct)
  case (1 U line col b p l)
  have two: "advance l = (r, l1) \<Longrightarrow> advance l1 = (r2, l2) \<Longrightarrow> adv l l2" for r l1 r2 l2
    using advance.adv_result adv_trans by blast
  show ?case
    using 1
    by (subst regexBody.simps)
      (auto simp: Let_def split: prod.split
        intro!: inv_intros intro: adv_trans [OF two] adv_trans [OF advance.adv_result])
qed

interpretation regexBody: scan_step "regexBody U line col b p"
  by unfold_locales (rule regexBody_adv)

definition readRegex :: "unicode_tables \<Rightarrow> nat \<Rightarrow> nat \<Rightarrow> lexer \<Rightarrow> scanned" where
  "readRegex U line col l =
    (case regexBody U line col False '''' (skip l) of
       (Inl e, l) \<Rightarrow> (Inl e, l)
     | (Inr pattern, l) \<Rightarrow>
         (case scanWhile (IsLetter U) '''' l of (fs, l) \<Rightarrow>
          if ord (CHR ''u'') \<in> set (runes_of fs) \<and> ord (CHR ''v'') \<in> set (runes_of fs)
             \<or> \<not> validRegexFlags fs
          then fail U line col RegexFlags_msg [] l
          else case tok REGEX pattern line col l of
            (t, l) \<Rightarrow> (Inr (t\<lparr>t_RegexFlags := fs\<rparr>), l)))"

lemma readRegex_adv: "adv l (snd (readRegex U line col l))"
  unfolding readRegex_def
  by (rule adv_bind [of l "skip l"]) (auto split: sum.split intro!: adv_bind inv_intros)

interpretation readRegex: scan_step "readRegex U line col"
  by unfold_locales (rule readRegex_adv)

section \<open>Names\<close>

definition identPart :: "unicode_tables \<Rightarrow> rune \<Rightarrow> bool" where
  "identPart U c \<longleftrightarrow> IsLetter U c \<or> IsDigit U c \<or> c = ord (CHR ''_'') \<or> c = ord (CHR ''$'')"

definition readIdent :: "unicode_tables \<Rightarrow> nat \<Rightarrow> nat \<Rightarrow> lexer \<Rightarrow> scanned" where
  "readIdent U line col l =
    (case scanWhile (identPart U) '''' l of (lit, l) \<Rightarrow> give (LookupIdent lit) lit line col l)"

definition readPrivateName :: "unicode_tables \<Rightarrow> nat \<Rightarrow> nat \<Rightarrow> lexer \<Rightarrow> scanned" where
  "readPrivateName U line col l =
    (case advance l of (h, l) \<Rightarrow>
     case scanWhile (identPart U) (encode_rune h) l of (lit, l) \<Rightarrow> give PRIVATE_NAME lit line col l)"

lemma readIdent_adv: "adv l (snd (readIdent U line col l))"
  unfolding readIdent_def by (auto intro!: adv_bind inv_intros)

interpretation readIdent: scan_step "readIdent U line col"
  by unfold_locales (rule readIdent_adv)

lemma readPrivateName_adv: "adv l (snd (readPrivateName U line col l))"
  unfolding readPrivateName_def by (auto intro!: adv_bind inv_intros)

interpretation readPrivateName: scan_step "readPrivateName U line col"
  by unfold_locales (rule readPrivateName_adv)

section \<open>Templates\<close>

definition normalizeLineTerminators :: "string \<Rightarrow> string" where
  "normalizeLineTerminators s =
    (if CHR 0x0D \<notin> set s then s
     else ReplaceAll (ReplaceAll s [CHR 0x0D, CHR 0x0A] [CHR 0x0A]) [CHR 0x0D] [CHR 0x0A])"

text \<open>The raw text from \<open>rawStart\<close> to the current position.\<close>

definition rawText :: "nat \<Rightarrow> lexer \<Rightarrow> string" where
  "rawText rawStart l =
    normalizeLineTerminators (encode_runes (drop rawStart (take (l_pos l) (l_src l))))"

function templateBody :: "unicode_tables \<Rightarrow> nat \<Rightarrow> string \<Rightarrow> lexer
    \<Rightarrow> (Diagnostic + (string \<times> string \<times> bool)) \<times> lexer" where
  "templateBody U rawStart buf l =
    (if more l then
       let c = peek l in
       if c = ord (CHR 0x60) then (Inr (buf, rawText rawStart l, True), skip l)
       else if c = ord (CHR ''$'') \<and> peekAt 1 l = ord (CHR ''{'')
       then (Inr (buf, rawText rawStart l, False), skip (skip l))
       else if c = ord (CHR 0x5C) then
         (case scanStringEscape U buf (l_line (skip l)) (l_col (skip l)) (skip l) of
            (Inl e, l') \<Rightarrow> (Inl e, l')
          | (Inr buf', l') \<Rightarrow> templateBody U rawStart buf' l')
       else if c = 0x0D then
         templateBody U rawStart (buf @ [CHR 0x0A])
           (if more (skip l) \<and> peek (skip l) = 0x0A then skip (skip l) else skip l)
       else (case advance l of (r, l') \<Rightarrow> templateBody U rawStart (buf @ encode_rune r) l')
     else fail U 0 0 UnterminatedTemplate [] l)"
  by pat_completeness auto
termination
proof (relation "measure (\<lambda>(U, i, buf, l). remaining l)", goal_cases)
  case (2 U i buf l c r l' x2)
  then have "remaining l' \<le> remaining (skip l)"
    by (metis scanStringEscape.remaining_le)
  with 2 remaining_advance [of l] show ?case by simp
next
  case (3 U i buf l c)
  have "remaining (skip (skip l)) \<le> remaining (skip l)"
    by (rule adv_remaining) (rule adv_advance)
  with 3 remaining_advance [of l] show ?case by simp
qed (auto dest: remaining_steps)

declare templateBody.simps [simp del]

lemma templateBody_adv: "adv l (snd (templateBody U i buf l))"
proof (induction U i buf l rule: templateBody.induct)
  case (1 U i buf l)
  have esc: "scanStringEscape U buf line col (skip l) = (x, l') \<Longrightarrow> adv l l'" for x l' line col
    using scanStringEscape.adv_result adv_trans [OF adv_advance] by blast
  have skip2: "adv l (skip (skip l))"
    using adv_advance adv_trans by blast
  show ?case
    using 1
    by (subst templateBody.simps)
      (auto simp: Let_def skip2 split: prod.split sum.split intro!: inv_intros
        intro: adv_trans [OF esc] adv_trans [OF skip2] adv_trans [OF adv_advance]
          adv_trans [OF advance.adv_result])
qed

definition readTemplateSegment :: "unicode_tables \<Rightarrow> lexer
    \<Rightarrow> (Diagnostic + (string \<times> string \<times> bool)) \<times> lexer" where
  "readTemplateSegment U l = templateBody U (l_pos l) '''' l"

interpretation readTemplateSegment: scan_step "readTemplateSegment U"
  by unfold_locales (simp add: readTemplateSegment_def templateBody_adv)

text \<open>\<open>readTemplateHead\<close> and \<open>readTemplatePart\<close> end in the same way, with their own
  token types.\<close>

definition templateToken :: "unicode_tables \<Rightarrow> TokenType \<Rightarrow> TokenType \<Rightarrow> nat \<Rightarrow> nat \<Rightarrow> lexer \<Rightarrow> scanned" where
  "templateToken U closed open line col l =
    (case readTemplateSegment U l of
       (Inl e, l) \<Rightarrow> (Inl e, l)
     | (Inr (seg, raw, atEnd), l) \<Rightarrow>
         if atEnd then
           (case tok closed seg line col l of (t, l) \<Rightarrow> (Inr (t\<lparr>t_Raw := raw\<rparr>), l))
         else
           (case tok open seg line col (l\<lparr>l_templateStack := l_templateStack l @ [0]\<rparr>) of
              (t, l) \<Rightarrow> (Inr (t\<lparr>t_Raw := raw\<rparr>), l)))"

definition readTemplateHead :: "unicode_tables \<Rightarrow> nat \<Rightarrow> nat \<Rightarrow> lexer \<Rightarrow> scanned" where
  "readTemplateHead U line col l = templateToken U TEMPLATE_NO_SUB TEMPLATE_HEAD line col (skip l)"

definition readTemplatePart :: "unicode_tables \<Rightarrow> nat \<Rightarrow> nat \<Rightarrow> lexer \<Rightarrow> scanned" where
  "readTemplatePart U line col l = templateToken U TEMPLATE_TAIL TEMPLATE_MIDDLE line col l"

lemma templateToken_adv: "adv l (snd (templateToken U closed open line col l))"
  unfolding templateToken_def
  by (rule adv_bind) (auto split: sum.split intro!: adv_bind inv_intros)

interpretation readTemplateHead: scan_step "readTemplateHead U line col"
  by unfold_locales
    (simp add: readTemplateHead_def adv_trans [OF adv_advance templateToken_adv])

interpretation readTemplatePart: scan_step "readTemplatePart U line col"
  by unfold_locales (simp add: readTemplatePart_def templateToken_adv)

end
