(* ===== verification/Lexer.thy ===== *)
theory Lexer
  imports LexerText
begin

text \<open>
  The scanner itself (\<open>lexer/lexer.go\<close>): punctuators, whitespace and comments,
  \<open>nextToken\<close>, \<open>NextToken\<close>, \<open>Scan\<close> and \<open>Offset\<close>. A punctuator's scanner starts
  after its first character, as each case of \<open>nextToken\<close>'s switch does.
\<close>

section \<open>Punctuators\<close>

definition scanPlus :: "nat \<Rightarrow> nat \<Rightarrow> lexer \<Rightarrow> scanned" where
  "scanPlus line col l =
    (if peek l = ord (CHR ''+'') then give INC ''++'' line col (skip l)
     else if peek l = ord (CHR ''='') then give PLUS_ASSIGN ''+='' line col (skip l)
     else give PLUS ''+'' line col l)"

definition scanMinus :: "nat \<Rightarrow> nat \<Rightarrow> lexer \<Rightarrow> scanned" where
  "scanMinus line col l =
    (if peek l = ord (CHR ''-'') then give DEC ''--'' line col (skip l)
     else if peek l = ord (CHR ''='') then give MINUS_ASSIGN ''-='' line col (skip l)
     else give MINUS ''-'' line col l)"

definition scanStar :: "nat \<Rightarrow> nat \<Rightarrow> lexer \<Rightarrow> scanned" where
  "scanStar line col l =
    (if peek l = ord (CHR ''*'') then
       let l = skip l in
       if peek l = ord (CHR ''='') then give POW_ASSIGN ''**='' line col (skip l)
       else give POW ''**'' line col l
     else if peek l = ord (CHR ''='') then give STAR_ASSIGN ''*='' line col (skip l)
     else give STAR ''*'' line col l)"

definition scanSlash :: "nat \<Rightarrow> nat \<Rightarrow> lexer \<Rightarrow> scanned" where
  "scanSlash line col l =
    (if peek l = ord (CHR ''='') then give SLASH_ASSIGN ''/='' line col (skip l)
     else give SLASH ''/'' line col l)"

definition scanPercent :: "nat \<Rightarrow> nat \<Rightarrow> lexer \<Rightarrow> scanned" where
  "scanPercent line col l =
    (if peek l = ord (CHR ''='') then give PERCENT_ASSIGN ''%='' line col (skip l)
     else give PERCENT ''%'' line col l)"

definition scanEquals :: "nat \<Rightarrow> nat \<Rightarrow> lexer \<Rightarrow> scanned" where
  "scanEquals line col l =
    (if peek l = ord (CHR ''='') then
       let l = skip l in
       if peek l = ord (CHR ''='') then give STRICT_EQ ''==='' line col (skip l)
       else give EQ ''=='' line col l
     else if peek l = ord (CHR ''>'') then give ARROW ''=>'' line col (skip l)
     else give ASSIGN ''='' line col l)"

definition scanBang :: "nat \<Rightarrow> nat \<Rightarrow> lexer \<Rightarrow> scanned" where
  "scanBang line col l =
    (if peek l = ord (CHR ''='') then
       let l = skip l in
       if peek l = ord (CHR ''='') then give STRICT_NEQ ''!=='' line col (skip l)
       else give NEQ ''!='' line col l
     else give NOT ''!'' line col l)"

definition scanLess :: "nat \<Rightarrow> nat \<Rightarrow> lexer \<Rightarrow> scanned" where
  "scanLess line col l =
    (if peek l = ord (CHR ''<'') then
       let l = skip l in
       if peek l = ord (CHR ''='') then give LSHIFT_ASSIGN ''<<='' line col (skip l)
       else give LSHIFT ''<<'' line col l
     else if peek l = ord (CHR ''='') then give LTE ''<='' line col (skip l)
     else give LT ''<'' line col l)"

definition scanGreater :: "nat \<Rightarrow> nat \<Rightarrow> lexer \<Rightarrow> scanned" where
  "scanGreater line col l =
    (if l_mode l \<noteq> ScanGlueGreater then give GT ''>'' line col l
     else if peek l = ord (CHR ''>'') then
       let l = skip l in
       if peek l = ord (CHR ''>'') then
         let l = skip l in
         if peek l = ord (CHR ''='') then give URSHIFT_ASSIGN ''>>>='' line col (skip l)
         else give URSHIFT ''>>>'' line col l
       else if peek l = ord (CHR ''='') then give RSHIFT_ASSIGN ''>>='' line col (skip l)
       else give RSHIFT ''>>'' line col l
     else if peek l = ord (CHR ''='') then give GTE ''>='' line col (skip l)
     else give GT ''>'' line col l)"

definition scanAmpersand :: "nat \<Rightarrow> nat \<Rightarrow> lexer \<Rightarrow> scanned" where
  "scanAmpersand line col l =
    (if peek l = ord (CHR ''&'') then
       let l = skip l in
       if peek l = ord (CHR ''='') then give LOGICAL_AND_ASSIGN ''&&='' line col (skip l)
       else give AND ''&&'' line col l
     else if peek l = ord (CHR ''='') then give AND_ASSIGN ''&='' line col (skip l)
     else give BITAND ''&'' line col l)"

definition scanBar :: "nat \<Rightarrow> nat \<Rightarrow> lexer \<Rightarrow> scanned" where
  "scanBar line col l =
    (if peek l = ord (CHR ''|'') then
       let l = skip l in
       if peek l = ord (CHR ''='') then give LOGICAL_OR_ASSIGN ''||='' line col (skip l)
       else give OR ''||'' line col l
     else if peek l = ord (CHR ''='') then give OR_ASSIGN ''|='' line col (skip l)
     else give BITOR ''|'' line col l)"

definition scanCaret :: "nat \<Rightarrow> nat \<Rightarrow> lexer \<Rightarrow> scanned" where
  "scanCaret line col l =
    (if peek l = ord (CHR ''='') then give XOR_ASSIGN ''^='' line col (skip l)
     else give BITXOR ''^'' line col l)"

text \<open>Braces count in the innermost template expression; the one that closes it at depth
  zero continues the template.\<close>

definition scanLBrace :: "nat \<Rightarrow> nat \<Rightarrow> lexer \<Rightarrow> scanned" where
  "scanLBrace line col l =
    (let ts = l_templateStack l in
     give LBRACE ''{'' line col
       (if ts \<noteq> [] then l\<lparr>l_templateStack := butlast ts @ [last ts + 1]\<rparr> else l))"

definition scanRBrace :: "unicode_tables \<Rightarrow> nat \<Rightarrow> nat \<Rightarrow> lexer \<Rightarrow> scanned" where
  "scanRBrace U line col l =
    (let ts = l_templateStack l in
     if ts \<noteq> [] then
       (if last ts = 0 then readTemplatePart U line col (l\<lparr>l_templateStack := butlast ts\<rparr>)
        else give RBRACE ''}'' line col (l\<lparr>l_templateStack := butlast ts @ [last ts - 1]\<rparr>))
     else give RBRACE ''}'' line col l)"

definition scanDot :: "nat \<Rightarrow> nat \<Rightarrow> lexer \<Rightarrow> scanned" where
  "scanDot line col l =
    (if peek l = ord (CHR ''.'') \<and> peekAt 1 l = ord (CHR ''.'')
     then give ELLIPSIS ''...'' line col (skip (skip l))
     else give DOT ''.'' line col l)"

definition scanQuestion :: "nat \<Rightarrow> nat \<Rightarrow> lexer \<Rightarrow> scanned" where
  "scanQuestion line col l =
    (if peek l = ord (CHR ''?'') then
       let l = skip l in
       if peek l = ord (CHR ''='') then give NULLISH_ASSIGN ''??='' line col (skip l)
       else give NULLISH ''??'' line col l
     else if peek l = ord (CHR ''.'') then give OPTIONAL_DOT ''?.'' line col (skip l)
     else give QUESTION ''?'' line col l)"

text \<open>The characters that are a token on their own, whatever follows.\<close>

definition singleTokens :: "(rune \<times> TokenType \<times> string) list" where
  "singleTokens = [
    (ord (CHR ''~''), BITNOT, ''~''), (ord (CHR ''(''), LPAREN, ''(''), (ord (CHR '')''), RPAREN, '')''),
    (ord (CHR ''[''), LBRACKET, ''[''), (ord (CHR '']''), RBRACKET, '']''),
    (ord (CHR '';''), SEMICOLON, '';''), (ord (CHR '':''), COLON, '':''),
    (ord (CHR '',''), COMMA, '',''), (ord (CHR ''@''), AT, ''@'')]"

definition scanPunct :: "unicode_tables \<Rightarrow> rune \<Rightarrow> nat \<Rightarrow> nat \<Rightarrow> lexer \<Rightarrow> scanned" where
  "scanPunct U ch line col l =
    (if ch = ord (CHR ''+'') then scanPlus line col l
     else if ch = ord (CHR ''-'') then scanMinus line col l
     else if ch = ord (CHR ''*'') then scanStar line col l
     else if ch = ord (CHR ''/'') then scanSlash line col l
     else if ch = ord (CHR ''%'') then scanPercent line col l
     else if ch = ord (CHR ''='') then scanEquals line col l
     else if ch = ord (CHR ''!'') then scanBang line col l
     else if ch = ord (CHR ''<'') then scanLess line col l
     else if ch = ord (CHR ''>'') then scanGreater line col l
     else if ch = ord (CHR ''&'') then scanAmpersand line col l
     else if ch = ord (CHR ''|'') then scanBar line col l
     else if ch = ord (CHR ''^'') then scanCaret line col l
     else if ch = ord (CHR ''{'') then scanLBrace line col l
     else if ch = ord (CHR ''}'') then scanRBrace U line col l
     else if ch = ord (CHR ''.'') then scanDot line col l
     else if ch = ord (CHR ''?'') then scanQuestion line col l
     else case map_of singleTokens ch of
       Some (typ, lit) \<Rightarrow> give typ lit line col l
     | None \<Rightarrow> fail U line col UnexpectedCharacter [ArgRune ch] l)"

lemma scanPunct_adv: "adv l (snd (scanPunct U ch line col l))"
proof -
  have skip2: "adv l (skip (skip l))" and skip3: "adv l (skip (skip (skip l)))"
    and skip4: "adv l (skip (skip (skip (skip l))))"
    by (intro inv_intros adv_refl)+
  show ?thesis
    unfolding scanPunct_def scanPlus_def scanMinus_def scanStar_def scanSlash_def scanPercent_def
      scanEquals_def scanBang_def scanLess_def scanGreater_def scanAmpersand_def scanBar_def
      scanCaret_def scanLBrace_def scanRBrace_def scanDot_def scanQuestion_def Let_def
    by (simp add: give.after_adv fail.after_adv readTemplatePart.after_adv adv_advance
        skip2 skip3 skip4 split: option.split)
qed

interpretation scanPunct: scan_step "scanPunct U ch line col"
  by unfold_locales (rule scanPunct_adv)

section \<open>Whitespace and comments\<close>

function skipWhitespace :: "lexer \<Rightarrow> lexer" where
  "skipWhitespace l =
    (if more l \<and> (IsSpace (peek l) \<or> peek l = 0xFEFF) then skipWhitespace (skip l) else l)"
  by pat_completeness auto
termination
  by (relation "measure remaining") (auto dest: remaining_steps)

function skipLineComment :: "lexer \<Rightarrow> lexer" where
  "skipLineComment l = (if more l \<and> peek l \<noteq> 0x0A then skipLineComment (skip l) else l)"
  by pat_completeness auto
termination
  by (relation "measure remaining") (auto dest: remaining_steps)

text \<open>A block comment's text, up to and past its end or to the end of the input.\<close>

function blockComment :: "string \<Rightarrow> lexer \<Rightarrow> string \<times> lexer" where
  "blockComment buf l =
    (if more l then
       if peek l = ord (CHR ''*'') \<and> peekAt 1 l = ord (CHR ''/'') then (buf, skip (skip l))
       else (case advance l of (c, l') \<Rightarrow> blockComment (buf @ encode_rune c) l')
     else (buf, l))"
  by pat_completeness auto
termination
  by (relation "measure (\<lambda>(buf, l). remaining l)") (auto dest: remaining_steps)

declare skipWhitespace.simps [simp del] skipLineComment.simps [simp del] blockComment.simps [simp del]

definition skipBlockComment :: "lexer \<Rightarrow> lexer" where
  "skipBlockComment l =
    (let l = skip (skip l);
         isJSDoc = (peek l = ord (CHR ''*''))
     in case blockComment '''' (if isJSDoc then skip l else l) of (buf, l) \<Rightarrow>
        if isJSDoc then
          let doc = TrimSpace buf in
          l\<lparr>l_pendingDoc := doc, l_Docs := (l_Docs l)(l_offs l ! l_startPos l \<mapsto> doc)\<rparr>
        else l)"

lemma skipWhitespace_adv: "adv l (skipWhitespace l)"
proof (induction l rule: skipWhitespace.induct)
  case (1 l)
  then show ?case
    by (subst skipWhitespace.simps) (auto intro: adv_trans [OF adv_advance])
qed

lemma skipLineComment_adv: "adv l (skipLineComment l)"
proof (induction l rule: skipLineComment.induct)
  case (1 l)
  then show ?case
    by (subst skipLineComment.simps) (auto intro: adv_trans [OF adv_advance])
qed

lemma blockComment_adv: "adv l (snd (blockComment buf l))"
proof (induction buf l rule: blockComment.induct)
  case (1 buf l)
  then show ?case
    by (subst blockComment.simps)
      (auto split: prod.split intro!: inv_intros intro: adv_trans [OF advance.adv_result])
qed

interpretation blockComment: scan_step "blockComment buf"
  by unfold_locales (rule blockComment_adv)

lemma skipBlockComment_adv: "adv (skip (skip l)) (skipBlockComment l)"
proof -
  have "adv (skip (skip l)) (skip (skip (skip l)))" by (rule adv_advance)
  then show ?thesis
    unfolding skipBlockComment_def Let_def
    by (auto split: prod.split dest!: blockComment.adv_result intro: adv_trans)
qed

section \<open>One token\<close>

definition scanToken :: "unicode_tables \<Rightarrow> nat \<Rightarrow> nat \<Rightarrow> lexer \<Rightarrow> scanned" where
  "scanToken U line col l =
    (let ch = peek l; n1 = peekAt 1 l in
     if ch = ord (CHR ''/'') \<and> (l_mode l = ScanRegex \<or> (l_mode l = ScanDefault \<and> regexAllowed l))
     then readRegex U line col l
     else if IsDigit U ch \<or> (ch = ord (CHR ''.'') \<and> IsDigit U n1) then readNumber U line col l
     else if ch = ord (CHR 0x60) then readTemplateHead U line col l
     else if ch = ord (CHR 0x22) \<or> ch = ord (CHR 0x27) then readString U line col l
     else if IsLetter U ch \<or> ch = ord (CHR ''_'') \<or> ch = ord (CHR ''$'') then readIdent U line col l
     else if ch = ord (CHR ''#'') \<and> (IsLetter U n1 \<or> n1 = ord (CHR ''_'') \<or> n1 = ord (CHR ''$''))
     then readPrivateName U line col l
     else scanPunct U ch line col (skip l))"

definition startToken :: "lexer \<Rightarrow> lexer" where
  "startToken l = (let l = skipWhitespace l in l\<lparr>l_startPos := l_pos l, l_startNL := l_sawNL l\<rparr>)"

lemma startToken_remaining: "remaining (startToken l) \<le> remaining l"
  using adv_remaining [OF skipWhitespace_adv, of l]
  by (simp add: startToken_def Let_def remaining_def)

lemma skipLineComment_remaining:
  assumes "peek l = ord (CHR ''/'')"
  shows "remaining (skipLineComment l) < remaining l"
proof -
  have more: "more l" using assms by (auto simp: peek_def split: if_splits)
  then have "skipLineComment l = skipLineComment (skip l)"
    using assms by (subst skipLineComment.simps) simp
  then show ?thesis
    using adv_remaining [OF skipLineComment_adv, of "skip l"] remaining_advance [OF more] by simp
qed

lemma skipBlockComment_remaining:
  assumes "peek l = ord (CHR ''/'')"
  shows "remaining (skipBlockComment l) < remaining l"
proof -
  have more: "more l" using assms by (auto simp: peek_def split: if_splits)
  have "remaining (skipBlockComment l) \<le> remaining (skip l)"
    by (rule adv_remaining) (rule adv_trans [OF adv_advance skipBlockComment_adv])
  then show ?thesis using remaining_advance [OF more] by simp
qed

function nextToken :: "unicode_tables \<Rightarrow> lexer \<Rightarrow> scanned" where
  "nextToken U l =
    (let l = startToken l in
     if \<not> more l then give EOF '''' (l_line l) (l_col l) l
     else if peek l = ord (CHR ''/'') \<and> peekAt 1 l = ord (CHR ''/'') then nextToken U (skipLineComment l)
     else if peek l = ord (CHR ''/'') \<and> peekAt 1 l = ord (CHR ''*'') then nextToken U (skipBlockComment l)
     else scanToken U (l_line l) (l_col l) l)"
  by pat_completeness auto
termination
proof (relation "measure (\<lambda>(U, l). remaining l)", goal_cases)
  case (2 U l l')
  then show ?case
    using skipLineComment_remaining [of l'] startToken_remaining [of l] by simp
next
  case (3 U l l')
  then show ?case
    using skipBlockComment_remaining [of l'] startToken_remaining [of l] by simp
qed simp

declare nextToken.simps [simp del]

text \<open>The same equation without a binding for the state, for evaluation.\<close>

definition nextTokenFrom :: "unicode_tables \<Rightarrow> lexer \<Rightarrow> scanned" where
  "nextTokenFrom U l =
    (if \<not> more l then give EOF '''' (l_line l) (l_col l) l
     else if peek l = ord (CHR ''/'') \<and> peekAt 1 l = ord (CHR ''/'') then nextToken U (skipLineComment l)
     else if peek l = ord (CHR ''/'') \<and> peekAt 1 l = ord (CHR ''*'') then nextToken U (skipBlockComment l)
     else scanToken U (l_line l) (l_col l) l)"

lemma nextToken_code [code]: "nextToken U l = nextTokenFrom U (startToken l)"
  by (subst nextToken.simps) (simp add: nextTokenFrom_def Let_def)

definition NextToken :: "unicode_tables \<Rightarrow> lexer \<Rightarrow> scanned" where
  "NextToken U l =
    (case nextToken U (l\<lparr>l_sawNL := False\<rparr>) of
       (Inl e, l) \<Rightarrow> (Inl e, l)
     | (Inr t, l) \<Rightarrow> (Inr t, l\<lparr>l_lastSig := t_Type t\<rparr>))"

definition Scan :: "unicode_tables \<Rightarrow> ScanMode \<Rightarrow> lexer \<Rightarrow> Token \<times> lexer" where
  "Scan U mode l =
    (case NextToken U (l\<lparr>l_mode := mode\<rparr>) of
       (Inr t, l) \<Rightarrow> (t, l\<lparr>l_mode := ScanDefault\<rparr>)
     | (Inl err, l) \<Rightarrow>
         (\<lparr>t_Type = ILLEGAL, t_Literal = Diagnostic_Error err, t_RegexFlags = '''', t_Raw = '''',
           t_Line = l_line l, t_Col = l_col l, t_Pos = l_offs l ! l_startPos l,
           t_End = l_offs l ! l_pos l, t_Flags = 0, t_Doc = '''', t_Err = Some err\<rparr>,
          l\<lparr>l_mode := ScanDefault\<rparr>))"

section \<open>The byte offset of a line and column\<close>

text \<open>The loop of \<open>Offset\<close>: the index of the first character of line \<open>line\<close>, or the end.\<close>

fun lineIndex :: "int \<Rightarrow> int \<Rightarrow> nat \<Rightarrow> rune list \<Rightarrow> nat" where
  "lineIndex line ln i [] = i"
| "lineIndex line ln i (c # cs) =
    (if ln < line then lineIndex line (if c = 0x0A then ln + 1 else ln) (i + 1) cs else i)"

definition Offset :: "int \<Rightarrow> int \<Rightarrow> lexer \<Rightarrow> nat" where
  "Offset line col l =
    (if line < 1 \<or> col < 1 then 0
     else let i = lineIndex line 1 0 (l_src l) + nat (col - 1);
              i = (if i > length (l_src l) then length (l_src l) else i)
          in l_offs l ! i)"

end
