(* ===== verification/LexerFacts.thy ===== *)
theory LexerFacts
  imports Lexer
begin

text \<open>
  What every scanner's result is: a diagnostic or a token that spans from the
  token's start to where the scanner stopped, a token that is neither \<open>EOF\<close> nor
  \<open>ILLEGAL\<close> and carries the preceding line break; and that a scanner called on a
  first character consumes it.
\<close>

section \<open>Spans of results\<close>

definition diag_span :: "Diagnostic \<Rightarrow> lexer \<Rightarrow> bool" where
  "diag_span e l \<longleftrightarrow> s_Start (d_Span e) = int (l_offs l ! l_startPos l)
     \<and> s_End (d_Span e) = int (l_offs l ! l_pos l)"

definition good_tok :: "nat \<Rightarrow> nat \<Rightarrow> Token \<Rightarrow> lexer \<Rightarrow> bool" where
  "good_tok line col t l \<longleftrightarrow> t_Line t = line \<and> t_Col t = col \<and> t_Pos t = l_offs l ! l_startPos l \<and> t_End t = l_offs l ! l_pos l
     \<and> t_Type t \<notin> {EOF, ILLEGAL} \<and> t_Err t = None \<and> HasPrecedingLineBreak t = l_startNL l"

definition spans :: "('a \<Rightarrow> lexer \<Rightarrow> bool) \<Rightarrow> (Diagnostic + 'a) \<times> lexer \<Rightarrow> bool" where
  "spans Q r \<longleftrightarrow> (case r of (Inl e, l) \<Rightarrow> diag_span e l | (Inr x, l) \<Rightarrow> Q x l)"

abbreviation anything :: "'a \<Rightarrow> lexer \<Rightarrow> bool" where
  "anything \<equiv> \<lambda>_ _. True"

lemma spans_Inr [simp]: "spans Q (Inr x, l) = Q x l"
  by (simp add: spans_def)

lemma spans_bind:
  assumes "spans anything r" and "\<And>x l'. r = (Inr x, l') \<Longrightarrow> spans Q (g x l')"
  shows "spans Q (case r of (Inl e, l') \<Rightarrow> (Inl e, l') | (Inr x, l') \<Rightarrow> g x l')"
  using assms by (cases r) (auto simp: spans_def split: sum.splits)

lemma spans_step:
  "(\<And>c l'. f l = (c, l') \<Longrightarrow> spans Q (g c l')) \<Longrightarrow> spans Q (case f l of (c, l') \<Rightarrow> g c l')"
  by (cases "f l") simp

lemma fail_spans [simp]: "spans Q (fail U line col m args l)"
  by (simp add: spans_def fail_def errAt_def New_diag_def diag_span_def)

lemma tok_good:
  "typ \<notin> {EOF, ILLEGAL} \<Longrightarrow> tok typ lit line col l = (t, l') \<Longrightarrow> good_tok line col t l'"
  using tok_fields [of "typ" lit line col l t l'] by (simp add: good_tok_def)

lemma good_tok_update [simp]:
  "good_tok line col (t\<lparr>t_RegexFlags := fs\<rparr>) l = good_tok line col t l"
  "good_tok line col (t\<lparr>t_Raw := raw\<rparr>) l = good_tok line col t l"
  by (simp_all add: good_tok_def HasPrecedingLineBreak_def)

lemma give_spans [simp]:
  "typ \<noteq> EOF \<Longrightarrow> typ \<noteq> ILLEGAL \<Longrightarrow> spans (good_tok line col) (give typ lit line col l)"
  by (auto simp: give_def intro!: tok_good split: prod.split)

lemma LookupIdent_not_special [simp]: "LookupIdent s \<noteq> EOF" "LookupIdent s \<noteq> ILLEGAL"
  using LookupIdent_cases [of s] by (auto simp: keyword_table_def)

lemma readDigitRun_spans [simp]: "spans anything (readDigitRun U isDigit line col w buf l)"
proof (induction U isDigit line col w buf l rule: readDigitRun.induct)
  case (1 U isDigit line col w buf l)
  then show ?case
    by (subst readDigitRun.simps) (simp add: Let_def split: prod.split)
qed

lemma decimalDigits_spans [simp]: "spans anything (decimalDigits U z line col d w buf l)"
proof (induction U z line col d w buf l rule: decimalDigits.induct)
  case (1 U z line col d w buf l)
  then show ?case
    by (subst decimalDigits.simps) (auto simp: Let_def split: prod.split)
qed

lemma readPrefixed_spans [simp]: "spans (good_tok line col) (readPrefixed U isDigit line col l)"
  unfolding readPrefixed_def
  by (rule spans_step, rule spans_step, rule spans_bind) simp_all

lemma readExponent_spans [simp]: "spans anything (readExponent U line col buf l)"
proof -
  have run: "spans anything (case readDigitRun U (IsDigit U) line col False buf' l' of
      (Inl d, l) \<Rightarrow> (Inl d, l) | (Inr buf, l) \<Rightarrow> (Inr (True, buf), l))" for buf' l'
    by (rule spans_bind) simp_all
  show ?thesis
    unfolding readExponent_def Let_def by (auto split: prod.split simp: run)
qed

lemma readDecimal_spans [simp]: "spans (good_tok line col) (readDecimal U line col l)"
proof -
  have exp: "spans (good_tok line col) (case readExponent U line col buf l' of
      (Inl e, l) \<Rightarrow> (Inl e, l) | (Inr x, l) \<Rightarrow> g x l)"
    if "\<And>x l. spans (good_tok line col) (g x l)" for buf l' g
    by (rule spans_bind) (simp_all add: that)
  show ?thesis
    unfolding readDecimal_def Let_def
    by (rule spans_bind, simp) (subst prod.split, intro allI impI, rule exp, simp split: prod.split)
qed

lemma readNumber_spans [simp]: "spans (good_tok line col) (readNumber U line col l)"
proof -
  have body: "spans (good_tok line col) (readNumberBody U line col l)"
    by (simp add: readNumberBody_def Let_def)
  then show ?thesis
    unfolding readNumber_def Let_def
    by (auto simp: spans_def diag_span_def fail_def errAt_def New_diag_def split: prod.splits sum.splits)
qed

lemma codePoint_spans [simp]: "spans anything (codePoint U line col val n l)"
proof (induction U line col val n l rule: codePoint.induct)
  case (1 U line col val n l)
  then show ?case
    by (subst codePoint.simps) (simp add: Let_def split: option.split)
qed

lemma bracedEscape_spans [simp]: "spans anything (bracedEscape U buf line col l)"
  unfolding bracedEscape_def by (rule spans_bind) (auto split: prod.split)

lemma fixedEscape_spans [simp]: "spans anything (fixedEscape U n m buf line col l)"
  unfolding fixedEscape_def by (rule spans_step) (simp split: option.split)

lemma octalEscape_spans [simp]: "spans anything (octalEscape esc buf l)"
  unfolding octalEscape_def Let_def by (rule spans_step) simp

lemma scanStringEscape_spans [simp]: "spans anything (scanStringEscape U buf line col l)"
  unfolding scanStringEscape_def by (rule spans_step) simp

lemma readStringBody_spans [simp]: "spans (good_tok line col) (readStringBody U quote line col buf l)"
proof (induction U quote line col buf l rule: readStringBody.induct)
  case (1 U quote line col buf l)
  have "spans (good_tok line col) (case scanStringEscape U buf line col (skip l) of
      (Inl e, l') \<Rightarrow> (Inl e, l') | (Inr buf', l') \<Rightarrow> readStringBody U quote line col buf' l')"
    if "more l" "peek l \<noteq> quote" "peek l = ord (CHR 0x5C)"
    by (rule spans_bind) (use 1(1) [OF that(1) refl that(2,3)] in auto)
  moreover have "spans (good_tok line col) (case advance l of
      (r, l') \<Rightarrow> readStringBody U quote line col (buf @ encode_rune r) l')"
    if "more l" "peek l \<noteq> quote" "peek l \<noteq> ord (CHR 0x5C)"
      "\<not> ((peek l = 0x0A \<or> peek l = 0x0D) \<and> quote \<noteq> ord (CHR 0x60))"
    by (rule spans_step) (use 1(2) [OF that(1) refl that(2,3,4)] in auto)
  ultimately show ?case
    by (subst readStringBody.simps) (simp add: Let_def)
qed

lemma readString_spans [simp]: "spans (good_tok line col) (readString U line col l)"
  unfolding readString_def by (rule spans_step) simp

lemma regexBody_spans [simp]: "spans anything (regexBody U line col b p l)"
proof (induction U line col b p l rule: regexBody.induct)
  case (1 U line col b p l)
  then show ?case
    by (subst regexBody.simps) (simp add: Let_def split: prod.split)
qed

lemma readRegex_spans [simp]: "spans (good_tok line col) (readRegex U line col l)"
  unfolding readRegex_def
  by (rule spans_bind, simp) (auto split: prod.split intro!: tok_good)

lemma readIdent_spans [simp]: "spans (good_tok line col) (readIdent U line col l)"
  unfolding readIdent_def by (rule spans_step) simp

lemma readPrivateName_spans [simp]: "spans (good_tok line col) (readPrivateName U line col l)"
  unfolding readPrivateName_def by (rule spans_step, rule spans_step) simp

lemma templateBody_spans [simp]: "spans anything (templateBody U i buf l)"
proof (induction U i buf l rule: templateBody.induct)
  case (1 U i buf l)
  have "spans anything (case scanStringEscape U buf (l_line (skip l)) (l_col (skip l)) (skip l) of
      (Inl e, l') \<Rightarrow> (Inl e, l') | (Inr buf', l') \<Rightarrow> templateBody U i buf' l')"
    if "more l" "peek l \<noteq> ord (CHR 0x60)" "\<not> (peek l = ord (CHR ''$'') \<and> peekAt 1 l = ord (CHR ''{''))"
      "peek l = ord (CHR 0x5C)"
    by (rule spans_bind) (use 1(1) [OF that(1) refl that(2,3,4)] in auto)
  with 1 show ?case
    by (subst templateBody.simps) (simp add: Let_def split: prod.split)
qed

lemma templateToken_spans [simp]:
  "closed \<notin> {EOF, ILLEGAL} \<Longrightarrow> open \<notin> {EOF, ILLEGAL} \<Longrightarrow>
   spans (good_tok line col) (templateToken U closed open line col l)"
  unfolding templateToken_def readTemplateSegment_def
  by (rule spans_bind, simp) (auto split: prod.split dest: tok_good [rotated])

lemma scanPunct_spans [simp]: "spans (good_tok line col) (scanPunct U ch line col l)"
proof -
  have single: "map_of singleTokens ch = Some (typ, lit) \<Longrightarrow> typ \<noteq> EOF \<and> typ \<noteq> ILLEGAL" for "typ" lit
    by (auto simp: singleTokens_def split: if_splits)
  show ?thesis
    unfolding scanPunct_def scanPlus_def scanMinus_def scanStar_def scanSlash_def scanPercent_def
      scanEquals_def scanBang_def scanLess_def scanGreater_def scanAmpersand_def scanBar_def
      scanCaret_def scanLBrace_def scanRBrace_def scanDot_def scanQuestion_def Let_def
      readTemplatePart_def
    by (simp add: single split: option.split)
qed

lemma scanToken_spans [simp]: "spans (good_tok line col) (scanToken U line col l)"
  by (simp add: scanToken_def Let_def readTemplateHead_def)

section \<open>Progress\<close>

lemma pos_after_skip: "more l \<Longrightarrow> adv (skip l) l' \<Longrightarrow> l_pos l < l_pos l'"
  using advD(7) [of "skip l" l'] advance_more(1) [of l] by simp

text \<open>A scanner that consumes the first character.\<close>

lemma scanWhile_progress:
  assumes "more l" and "P (peek l)"
  shows "l_pos l < l_pos (snd (scanWhile P buf l))"
proof -
  have "scanWhile P buf l = scanWhile P (buf @ encode_rune (fst (advance l))) (skip l)"
    using assms by (subst scanWhile.simps) (simp add: case_prod_beta)
  then show ?thesis
    using pos_after_skip [OF assms(1) scanWhile_adv] by simp
qed

lemma decimalDigits_progress:
  assumes "more l" and "IsDigit U (peek l) \<or> (peek l = ord (CHR ''.'') \<and> IsDigit U (peekAt 1 l))"
  shows "l_pos l < l_pos (snd (decimalDigits U z line col False w buf l))"
proof -
  have "adv (skip l) (snd (decimalDigits U z line col d w' buf' (skip l)))" for d w' buf'
    by (rule decimalDigits_adv)
  note pos_after_skip [OF assms(1) this]
  then show ?thesis
    using assms by (subst decimalDigits.simps) (auto simp: Let_def case_prod_beta)
qed

lemma readPrefixed_progress:
  "more l \<Longrightarrow> l_pos l < l_pos (snd (readPrefixed U isDigit line col l))"
  by (rule pos_after_skip, assumption)
    (auto simp: readPrefixed_def case_prod_beta split: sum.split intro!: inv_intros)


lemma readDecimal_progress:
  assumes "more l" and "IsDigit U (peek l) \<or> (peek l = ord (CHR ''.'') \<and> IsDigit U (peekAt 1 l))"
  shows "l_pos l < l_pos (snd (readDecimal U line col l))"
proof -
  define z where "z = (peek l = ord (CHR ''0'')
    \<and> ((ord (CHR ''0'') \<le> peekAt 1 l \<and> peekAt 1 l \<le> ord (CHR ''9'')) \<or> peekAt 1 l = ord (CHR ''_'')))"
  obtain r l1 where d: "decimalDigits U z line col False False '''' l = (r, l1)" by fastforce
  have "l_pos l < l_pos l1"
    using decimalDigits_progress [OF assms, of z line col False "''''"] d by simp
  moreover have "adv l1 (snd (readDecimal U line col l))"
    using d unfolding readDecimal_def Let_def z_def [symmetric]
    by (auto split: sum.split intro!: adv_bind inv_intros)
  ultimately show ?thesis
    using advD(7) by fastforce
qed

lemma readNumber_progress:
  assumes "more l" and "IsDigit U (peek l) \<or> (peek l = ord (CHR ''.'') \<and> IsDigit U (peekAt 1 l))"
  shows "l_pos l < l_pos (snd (readNumber U line col l))"
proof -
  have "l_pos l < l_pos (snd (readNumberBody U line col l))"
    using readDecimal_progress [OF assms] readPrefixed_progress [OF assms(1)]
    by (simp add: readNumberBody_def Let_def)
  moreover have "l_pos (snd (readNumber U line col l)) = l_pos (snd (readNumberBody U line col l))"
    by (simp add: readNumber_def Let_def fail_def split: prod.split sum.split)
  ultimately show ?thesis by simp
qed

lemma scanToken_progress:
  assumes "more l"
  shows "l_pos l < l_pos (snd (scanToken U line col l))"
proof -
  have id: "l_pos l < l_pos (snd (readIdent U line col l))"
    if "IsLetter U (peek l) \<or> peek l = ord (CHR ''_'') \<or> peek l = ord (CHR ''$'')"
    using scanWhile_progress [OF assms, of "identPart U" "''''"] that
    by (auto simp: readIdent_def identPart_def give_def tok_def Let_def case_prod_beta)
  have rest: "l_pos l < l_pos (snd (readRegex U line col l))"
    "l_pos l < l_pos (snd (readTemplateHead U line col l))"
    "l_pos l < l_pos (snd (readString U line col l))"
    "l_pos l < l_pos (snd (readPrivateName U line col l))"
    "l_pos l < l_pos (snd (scanPunct U (peek l) line col (skip l)))"
    by (rule pos_after_skip [OF assms];
        auto simp: readRegex_def readTemplateHead_def readString_def readPrivateName_def case_prod_beta
          templateToken_adv scanPunct_adv readStringBody_adv
          split: sum.split intro!: inv_intros)+
  show ?thesis
    using id rest readNumber_progress [OF assms]
    by (simp add: scanToken_def Let_def)
qed

section \<open>The result of nextToken\<close>

text \<open>\<open>adv\<close> across the point where a token starts.\<close>

definition moves :: "lexer \<Rightarrow> lexer \<Rightarrow> bool" where
  "moves l l' \<longleftrightarrow> adv (l\<lparr>l_startPos := l_startPos l', l_startNL := l_startNL l'\<rparr>) l'"

lemma moves_def2:
  "moves l l' \<longleftrightarrow> l_src l' = l_src l \<and> l_offs l' = l_offs l \<and> l_mode l' = l_mode l
   \<and> l_lastSig l' = l_lastSig l
   \<and> l_pos l \<le> l_pos l' \<and> (l_pos l \<le> length (l_src l) \<longrightarrow> l_pos l' \<le> length (l_src l))
   \<and> (linecol_ok l \<longrightarrow> linecol_ok l')
   \<and> (l_sawNL l' \<longleftrightarrow> l_sawNL l \<or> nl_in (l_src l) (l_pos l) (l_pos l'))"
  by (auto simp: moves_def adv_def linecol_ok_def)

lemma adv_moves: "adv l l' \<Longrightarrow> moves l l'"
  by (simp add: moves_def2 adv_def)

lemma moves_trans [trans]: "moves a b \<Longrightarrow> moves b c \<Longrightarrow> moves a c"
  unfolding moves_def2 using nl_in_join [of "l_pos a" "l_pos b" "l_pos c" "l_src a"] by auto

lemma linecol_ok_update [simp]:
  "linecol_ok (l\<lparr>l_startPos := i\<rparr>) = linecol_ok l" "linecol_ok (l\<lparr>l_startNL := b\<rparr>) = linecol_ok l"
  "linecol_ok (l\<lparr>l_pendingDoc := d\<rparr>) = linecol_ok l" "linecol_ok (l\<lparr>l_sawNL := b\<rparr>) = linecol_ok l"
  "linecol_ok (l\<lparr>l_mode := m\<rparr>) = linecol_ok l" "linecol_ok (l\<lparr>l_lastSig := k\<rparr>) = linecol_ok l"
  by (simp_all add: linecol_ok_def)

lemma startToken_moves: "moves l (startToken l)"
  using adv_moves [OF skipWhitespace_adv, of l]
  by (simp add: startToken_def Let_def moves_def2)

text \<open>What \<open>nextToken\<close> returns from \<open>l\<close>: the state moved on, the token starts where the
  skipped text ends, an \<open>EOF\<close> exactly at the end of the input, and any other result
  has consumed a character.\<close>

definition token_result :: "nat \<Rightarrow> nat \<Rightarrow> Token \<Rightarrow> lexer \<Rightarrow> bool" where
  "token_result line col t l \<longleftrightarrow> t_Line t = line \<and> t_Col t = col \<and> t_Pos t = l_offs l ! l_startPos l \<and> t_End t = l_offs l ! l_pos l
     \<and> t_Type t \<noteq> ILLEGAL \<and> t_Err t = None \<and> HasPrecedingLineBreak t = l_startNL l
     \<and> (t_Type t = EOF \<longleftrightarrow> l_startPos l \<ge> length (l_src l))"

definition scan_result :: "lexer \<Rightarrow> scanned \<Rightarrow> bool" where
  "scan_result l r \<longleftrightarrow> (let l' = snd r in
     moves l l'
   \<and> (\<exists>line col. spans (token_result line col) r
        \<and> (linecol_ok l \<longrightarrow> linecol (take (l_startPos l') (l_src l')) = (line, col)))
   \<and> l_pos l \<le> l_startPos l' \<and> l_startPos l' \<le> l_pos l'
   \<and> (l_startPos l' < length (l_src l') \<longrightarrow> l_startPos l' < l_pos l')
   \<and> (l_startPos l' \<ge> length (l_src l') \<longrightarrow> isl (fst r) = False)
   \<and> (l_startNL l' \<longleftrightarrow> l_sawNL l \<or> nl_in (l_src l) (l_pos l) (l_startPos l')))"

lemma scan_result_after:
  assumes m: "moves l m" and r: "scan_result m r"
  shows "scan_result l r"
proof -
  have lc: "linecol_ok l \<Longrightarrow> linecol_ok m" and src: "l_src m = l_src l" and pos: "l_pos l \<le> l_pos m"
    and nl: "l_sawNL m = (l_sawNL l \<or> nl_in (l_src l) (l_pos l) (l_pos m))"
    using m by (simp_all add: moves_def2)
  have start: "l_pos m \<le> l_startPos (snd r)"
    using r by (simp add: scan_result_def Let_def)
  have "moves l (snd r)"
    using moves_trans [OF m, of "snd r"] r by (simp add: scan_result_def Let_def)
  then show ?thesis
    using r lc pos nl nl_in_join [OF pos start, of "l_src l"]
    unfolding scan_result_def Let_def src by (elim conjE exE) auto
qed

lemma good_token_result:
  "spans (good_tok line col) r \<Longrightarrow> l_startPos (snd r) < length (l_src (snd r)) \<Longrightarrow> spans (token_result line col) r"
  by (auto simp: spans_def good_tok_def token_result_def split: sum.splits)

lemma startToken_start [simp]:
  "l_startPos (startToken l) = l_pos (startToken l)"
  "l_startNL (startToken l) = l_sawNL (startToken l)"
  by (simp_all add: startToken_def Let_def)

lemma startToken_linecol:
  "linecol_ok l \<Longrightarrow> m = startToken l \<Longrightarrow>
   linecol (take (l_pos m) (l_src m)) = (l_line m, l_col m)"
  using startToken_moves [of l] by (auto simp: moves_def2 linecol_ok_def)

lemma scanToken_result:
  assumes m: "m = startToken l" and "more m"
  shows "scan_result l (scanToken U (l_line m) (l_col m) m)"
proof -
  define line col where "line = l_line m" and "col = l_col m"
  let ?r = "scanToken U line col m"
  have adv: "adv m (snd ?r)"
    by (simp add: scanToken_def Let_def)
      (intro conjI impI; auto intro!: inv_intros scanPunct_adv [THEN adv_trans [OF adv_advance]])
  have "spans (token_result line col) ?r"
    by (rule good_token_result) (use adv assms in \<open>auto simp: adv_def\<close>)
  moreover have "moves l (snd ?r)"
    using startToken_moves [of l] adv_moves [OF adv] m moves_trans by blast
  ultimately show ?thesis
    using assms adv startToken_moves [of l] scanToken_progress [OF assms(2), of U line col]
      startToken_linecol [of l m] line_def col_def
    by (auto simp: scan_result_def Let_def moves_def2 adv_def)
qed

lemma eof_result:
  assumes m: "m = startToken l" and "\<not> more m"
  shows "scan_result l (give EOF '''' (l_line m) (l_col m) m)"
proof -
  obtain t l' where t: "tok EOF '''' (l_line m) (l_col m) m = (t, l')" by fastforce
  have "token_result (l_line m) (l_col m) t l'"
    using tok_fields [OF t] assms by (simp add: token_result_def not_less)
  moreover have "moves l l'"
    using startToken_moves [of l] tok_fields(10) [OF t] m by (simp add: moves_def2)
  ultimately show ?thesis
    using assms(2) tok_fields(10) [OF t] startToken_moves [of l] startToken_linecol [of l m] t m
    by (simp add: scan_result_def give_def Let_def spans_def) (auto simp: moves_def2)
qed

lemma nextToken_result: "scan_result l (nextToken U l)"
proof (induction U l rule: nextToken.induct)
  case (1 U l)
  define m where "m = startToken l"
  have lm: "moves l m" by (simp add: m_def startToken_moves)
  have line: "scan_result l (nextToken U (skipLineComment m))"
    if "more m" "peek m = ord (CHR ''/'') \<and> peekAt 1 m = ord (CHR ''/'')"
    using 1(1) [OF m_def] that moves_trans [OF lm adv_moves [OF skipLineComment_adv]]
    by (auto intro: scan_result_after)
  have block: "scan_result l (nextToken U (skipBlockComment m))"
    if "more m" "\<not> (peek m = ord (CHR ''/'') \<and> peekAt 1 m = ord (CHR ''/''))"
      "peek m = ord (CHR ''/'') \<and> peekAt 1 m = ord (CHR ''*'')"
  proof -
    have "adv m (skipBlockComment m)"
      by (rule adv_trans [OF _ skipBlockComment_adv]) (intro inv_intros adv_refl)
    then show ?thesis
      using 1(2) [OF m_def] that moves_trans [OF lm adv_moves]
      by (auto intro: scan_result_after)
  qed
  show ?case
    using line block scanToken_result [OF m_def] eof_result [OF m_def]
    by (subst nextToken.simps) (simp add: Let_def m_def [symmetric])
qed

end
