(* ===== verification/LexerPos.thy ===== *)
theory LexerPos
  imports LexerFacts
begin

text \<open>
  Byte offsets of lines and columns: \<open>Offset\<close> of \<open>lexer/lexer.go\<close> and the offsets
  \<open>diag.Offsets\<close> computes both invert the line and column a scanner counts.
\<close>

section \<open>The scanner's Offset\<close>

lemma lineIndex_reached: "lineIndex n n i rs = i"
  by (cases rs) auto

lemma lineIndex_linecol:
  assumes "foldl step_linecol (ln0, c0) (take k rs) = (ln, cl)" and "k \<le> length rs"
  shows "ln0 \<le> ln \<and> (ln0 = ln \<longrightarrow> cl = c0 + k)
    \<and> (ln0 < ln \<longrightarrow> lineIndex (int ln) (int ln0) i rs + cl = i + k + 1)"
  using assms
proof (induction rs arbitrary: k ln0 c0 i)
  case (Cons c cs)
  show ?case
  proof (cases k)
    case (Suc k')
    have IH: "foldl step_linecol (a, b) (take k' cs) = (ln, cl) \<Longrightarrow> a \<le> ln
        \<and> (a = ln \<longrightarrow> cl = b + k')
        \<and> (a < ln \<longrightarrow> lineIndex (int ln) (int a) (i + 1) cs + cl = i + 1 + k' + 1)" for a b
      using Cons.IH [of a b k' "i + 1"] Cons.prems Suc by simp
    show ?thesis
    proof (cases "c = 0x0A")
      case True
      then show ?thesis
        using IH [of "ln0 + 1" 1] Cons.prems Suc lineIndex_reached [of "int ln" "i + 1" cs]
        by (cases "ln0 + 1 = ln") (auto simp: add.commute)
    next
      case False
      then show ?thesis
        using IH [of ln0 "c0 + 1"] Cons.prems Suc by auto
    qed
  qed (use Cons.prems in auto)
qed auto

lemma Offset_linecol:
  assumes "linecol (take k (l_src l)) = (ln, cl)" and "k \<le> length (l_src l)"
  shows "Offset (int ln) (int cl) l = l_offs l ! k"
proof -
  note f = lineIndex_linecol [OF assms(1) [unfolded linecol_def] assms(2), of 0]
  have pos: "1 \<le> ln" using f by simp
  have col: "1 \<le> cl"
    using assms(1) by (cases "take k (l_src l)" rule: rev_cases)
      (auto elim: step_linecol.elims split: if_splits)
  have "lineIndex (int ln) 1 0 (l_src l) + (cl - 1) = k"
    using f col lineIndex_reached [of 1 0 "l_src l"] by (cases "ln = 1") auto
  then show ?thesis using pos col assms(2)
    by (simp add: Offset_def Let_def nat_diff_distrib)
qed

section \<open>The offsets of diag\<close>

text \<open>A line feed is a byte of its own: no other character's bytes contain one, well-formed
  or not.\<close>

lemma ord_newline: "ord c = 10 \<longleftrightarrow> c = CHR 0x0A"
proof
  assume "ord c = 10"
  then have "char_of (ord c) = (char_of (10::nat) :: char)" by simp
  moreover have "char_of (10::nat) = CHR 0x0A" by code_simp
  ultimately show "c = CHR 0x0A" by simp
qed simp

lemma decode_rune_newline:
  assumes "s \<noteq> []" and "decode_rune s = (r, w)"
  shows "filter (\<lambda>c. c = CHR 0x0A) (take w s) = (if r = 0x0A then [CHR 0x0A] else [])
    \<and> (r = 0x0A \<longrightarrow> w = 1 \<and> hd s = CHR 0x0A)"
  using assms
  by (cases s) (auto simp: Let_def decode2_def decode3_def decode4_def cont_def in_range_def
      RuneError_def ord_newline split: list.splits if_splits)

lemma line_starts_nth:
  assumes "p < length s" and "s ! p = CHR 0x0A"
  shows "length (filter (\<lambda>c. c = CHR 0x0A) (take p s)) < length (line_starts_from i s)
    \<and> line_starts_from i s ! length (filter (\<lambda>c. c = CHR 0x0A) (take p s)) = i + p + 1"
  using assms
proof (induction s arbitrary: p i)
  case (Cons c cs)
  then show ?case by (cases p) auto
qed simp

lemma skip_runes_Suc:
  "skip_runes s (Suc n) off = (let p = skip_runes s n off in
     if p < length s then p + snd (decode_rune (drop p s)) else p)"
proof (induction n arbitrary: off)
  case (Suc n)
  show ?case
  proof (cases "off < length s")
    case True
    then show ?thesis
      using Suc [of "off + snd (decode_rune (drop off s))"] by (simp add: Let_def)
  next
    case False
    then have "skip_runes s m off = off" for m by (cases m) auto
    with False show ?thesis by (simp add: Let_def)
  qed
qed (simp add: Let_def)

text \<open>Consecutive characters: the next one starts where the previous one's bytes end.\<close>

lemma rune_range_nth:
  assumes "k < length (rune_range i s)"
  shows "\<exists>w. i \<le> map fst (rune_range i s) ! k \<and> map fst (rune_range i s) ! k < i + length s
    \<and> decode_rune (drop (map fst (rune_range i s) ! k - i) s) = (map snd (rune_range i s) ! k, w)
    \<and> (map fst (rune_range i s) @ [i + length s]) ! Suc k = map fst (rune_range i s) ! k + w"
  using assms
proof (induction i s arbitrary: k rule: rune_range.induct)
  case (1 i s)
  show ?case
  proof (cases "s = []")
    case True
    then show ?thesis using 1(2) by simp
  next
    case False
    obtain r w where rw: "decode_rune s = (r, w)" by fastforce
    have w: "0 < w" "w \<le> length s"
      using False rw decode_width_pos [of s] decode_width_le [of s] by auto
    have rr: "rune_range i s = (i, r) # rune_range (i + w) (drop w s)"
      using False rw by (subst rune_range.simps) simp
    have len: "i + w + length (drop w s) = i + length s" using w by simp
    show ?thesis
    proof (cases k)
      case 0
      have "(map fst (rune_range (i + w) (drop w s)) @ [i + length s]) ! 0 = i + w"
        using w by (subst rune_range.simps) (auto simp: case_prod_beta Let_def)
      then show ?thesis using 0 rw False by (simp add: rr)
    next
      case (Suc j)
      then have j: "j < length (rune_range (i + w) (drop w s))" using 1(2) by (simp add: rr)
      obtain v where v: "i + w \<le> map fst (rune_range (i + w) (drop w s)) ! j"
          "map fst (rune_range (i + w) (drop w s)) ! j < i + length s"
          "decode_rune (drop (map fst (rune_range (i + w) (drop w s)) ! j - (i + w)) (drop w s))
            = (map snd (rune_range (i + w) (drop w s)) ! j, v)"
          "(map fst (rune_range (i + w) (drop w s)) @ [i + length s]) ! Suc j
            = map fst (rune_range (i + w) (drop w s)) ! j + v"
        using 1(1) [OF False refl rw [symmetric] j] unfolding len by blast
      have "map fst (rune_range (i + w) (drop w s)) ! j - (i + w) + w
          = map fst (rune_range (i + w) (drop w s)) ! j - i"
        using v(1) by simp
      then show ?thesis using v Suc by (intro exI [of _ v]) (simp add: rr)
    qed
  qed
qed

lemma offs_nth:
  assumes "k < length (runes_of src)"
  obtains w where "rune_offsets src ! k < length src"
    "decode_rune (drop (rune_offsets src ! k) src) = (runes_of src ! k, w)"
    "(rune_offsets src @ [length src]) ! Suc k = rune_offsets src ! k + w"
  using rune_range_nth [of k 0 src] assms by (auto simp: rune_offsets_def runes_of_def)

definition newlines :: "string \<Rightarrow> nat" where
  "newlines s = length (filter (\<lambda>c. c = CHR 0x0A) s)"

lemma Offsets_linecol:
  assumes "k \<le> length (runes_of src)" and "linecol (take k (runes_of src)) = (ln, cl)"
  shows "Offsets src (int ln) (int cl) = int ((rune_offsets src @ [length src]) ! k)"
proof -
  have "1 \<le> ln \<and> 1 \<le> cl \<and> ln - 1 < length (line_starts src)
      \<and> newlines (take ((rune_offsets src @ [length src]) ! k) src) = ln - 1
      \<and> skip_runes src (cl - 1) (line_starts src ! (ln - 1)) = (rune_offsets src @ [length src]) ! k"
    using assms
  proof (induction k arbitrary: ln cl)
    case 0
    have "(rune_offsets src @ [length src]) ! 0 = 0"
      by (subst rune_offsets_def, subst rune_range.simps) (auto simp: case_prod_beta Let_def)
    with 0 show ?case by (auto simp: newlines_def line_starts_def)
  next
    case (Suc k)
    then have k: "k < length (runes_of src)" by simp
    obtain w where w: "rune_offsets src ! k < length src"
        "decode_rune (drop (rune_offsets src ! k) src) = (runes_of src ! k, w)"
        "(rune_offsets src @ [length src]) ! Suc k = rune_offsets src ! k + w"
      using offs_nth [OF k] by blast
    obtain ln0 cl0 where lc: "linecol (take k (runes_of src)) = (ln0, cl0)" by fastforce
    define p where "p = rune_offsets src ! k"
    have pk: "(rune_offsets src @ [length src]) ! k = p"
      using k by (simp add: p_def nth_append)
    note IH = Suc.IH [OF less_imp_le [OF k] lc, unfolded pk]
    have nl: "filter (\<lambda>c. c = CHR 0x0A) (take w (drop p src))
          = (if runes_of src ! k = 0x0A then [CHR 0x0A] else [])"
        "runes_of src ! k = 0x0A \<Longrightarrow> w = 1 \<and> hd (drop p src) = CHR 0x0A"
      using decode_rune_newline [OF _ w(2)] w(1) by (simp_all add: p_def)
    have cnt: "newlines (take (p + w) src)
        = newlines (take p src) + (if runes_of src ! k = 0x0A then 1 else 0)"
      using nl(1) by (simp add: newlines_def take_add)
    have step: "(ln, cl) = step_linecol (ln0, cl0) (runes_of src ! k)"
      using Suc.prems lc take_Suc_snoc [OF k] by simp
    show ?case
    proof (cases "runes_of src ! k = 0x0A")
      case True
      have "src ! p = CHR 0x0A"
        using nl(2) [OF True] w(1) by (simp add: p_def hd_drop_conv_nth)
      then have "newlines (take p src) < length (line_starts_from 0 src)"
          "line_starts_from 0 src ! newlines (take p src) = p + 1"
        using line_starts_nth [of p src 0] w(1) by (simp_all add: newlines_def p_def)
      then show ?thesis
        using IH True step cnt w(3) nl(2) [OF True]
        by (auto simp: line_starts_def p_def [symmetric])
    next
      case False
      then have "ln = ln0" "cl = Suc cl0" using step by simp_all
      moreover have "skip_runes src cl0 (line_starts src ! (ln0 - 1)) = p + w"
        using skip_runes_Suc [of src "cl0 - 1" "line_starts src ! (ln0 - 1)"] IH w(1,2)
        by (simp add: Let_def p_def)
      ultimately show ?thesis using IH False cnt w(3) by (simp add: p_def)
    qed
  qed
  then have "int ln \<le> int (length (line_starts src))" "1 \<le> ln" "1 \<le> cl"
      "skip_runes src (cl - 1) (line_starts src ! (ln - 1)) = (rune_offsets src @ [length src]) ! k"
    by linarith+
  then show ?thesis
    by (simp add: Offsets_def nat_diff_distrib)
qed

end
