(* ===== verification/LexerRest.thy ===== *)
theory LexerRest
  imports LexerFacts "HOL-Library.Sublist"
begin

text \<open>
  The text a scanner still has to read, and what the scanners of runs of characters,
  names, strings and escapes do as functions of it.
\<close>

section \<open>The remaining text\<close>

definition rest :: "lexer \<Rightarrow> rune list" where
  "rest l = drop (l_pos l) (l_src l)"

lemma rest_more: "more l \<longleftrightarrow> rest l \<noteq> []"
  by (auto simp: rest_def)

lemma rest_peekAt: "peekAt n l = (if n < length (rest l) then rest l ! n else 0)"
  by (auto simp: peekAt_def rest_def Let_def)

lemma rest_peek: "peek l = (case rest l of [] \<Rightarrow> 0 | c # _ \<Rightarrow> c)"
  by (auto simp: peek_def rest_def hd_drop_conv_nth [symmetric] split: list.split)

lemma rest_skip: "rest (skip l) = tl (rest l)"
  by (cases "more l") (auto simp: rest_def advance_def Let_def drop_Suc tl_drop)

lemma rest_Cons:
  assumes "rest l = c # cs"
  shows "more l" "peek l = c" "rest (skip l) = cs" "fst (advance l) = c"
    "l_pos (skip l) = Suc (l_pos l)"
proof -
  show m: "more l" using assms by (simp add: rest_more)
  show "peek l = c" using assms by (simp add: rest_peek)
  then show "fst (advance l) = c" using advance_more(2) [OF m] by simp
  show "rest (skip l) = cs" using assms by (simp add: rest_skip)
  show "l_pos (skip l) = Suc (l_pos l)" by (rule advance_more(1) [OF m])
qed

lemma rest_Nil: "rest l = [] \<Longrightarrow> skip l = l"
  by (auto simp: rest_def advance_def)

section \<open>Runs and names\<close>

lemma scanWhile_run:
  "\<exists>l'. scanWhile P buf l = (buf @ encode_runes (takeWhile P (rest l)), l')
    \<and> l_pos l' = l_pos l + length (takeWhile P (rest l)) \<and> rest l' = dropWhile P (rest l)"
proof (induction P buf l rule: scanWhile.induct)
  case (1 P buf l)
  show ?case
  proof (cases "rest l")
    case Nil
    then show ?thesis by (subst scanWhile.simps) (simp add: rest_more)
  next
    case (Cons c cs)
    note r = rest_Cons [OF Cons]
    show ?thesis
    proof (cases "P c")
      case True
      then have "scanWhile P buf l = scanWhile P (buf @ encode_rune c) (skip l)"
        by (subst scanWhile.simps) (use r in \<open>simp add: case_prod_beta\<close>)
      moreover obtain l' where
        "scanWhile P (buf @ encode_rune c) (skip l)
          = ((buf @ encode_rune c) @ encode_runes (takeWhile P cs), l')"
        "l_pos l' = l_pos (skip l) + length (takeWhile P cs)" "rest l' = dropWhile P cs"
        using 1 [of c "skip l"] r True by (cases "advance l") auto
      ultimately show ?thesis using r True Cons by (simp add: encode_runes_def)
    next
      case False
      then show ?thesis by (subst scanWhile.simps) (use r Cons in simp)
    qed
  qed
qed

lemma LookupIdent_IDENT: "LookupIdent s = IDENT \<longleftrightarrow> s \<notin> fst ` set keyword_table"
proof
  assume l: "LookupIdent s = IDENT"
  have "IDENT \<notin> snd ` set keyword_table" by (auto simp: keyword_table_def)
  moreover have "(s, t) \<in> set keyword_table \<Longrightarrow> t = IDENT" for t
    using LookupIdent_keyword [of s t] l by simp
  ultimately show "s \<notin> fst ` set keyword_table" by (force simp: image_iff)
next
  assume "s \<notin> fst ` set keyword_table"
  then show "LookupIdent s = IDENT" using LookupIdent_cases [of s] by (force simp: image_iff)
qed

section \<open>Escapes\<close>

definition hex_val :: "nat \<Rightarrow> rune list \<Rightarrow> nat option" where
  "hex_val v ds = foldl (\<lambda>a d. case (a, hexDigitVal d) of
     (Some v, Some x) \<Rightarrow> Some (v * 16 + x) | _ \<Rightarrow> None) (Some v) ds"

lemma hexDigitVal_bound: "hexDigitVal c = Some d \<Longrightarrow> d < 16"
  by (auto simp: hexDigitVal_def split: if_splits)

lemma hexDigits_bound:
  "fst (hexDigits n v l) = Some w \<Longrightarrow> w < (v + 1) * 16 ^ n"
proof (induction n arbitrary: v l)
  case (Suc n)
  then obtain d where d: "hexDigitVal (peek l) = Some d"
      "fst (hexDigits n (v * 16 + d) (skip l)) = Some w"
    by (auto split: option.splits)
  have "w < (v * 16 + d + 1) * 16 ^ n" by (rule Suc.IH [OF d(2)])
  also have "\<dots> \<le> ((v + 1) * 16) * 16 ^ n"
    using hexDigitVal_bound [OF d(1)] by (intro mult_right_mono) auto
  finally show ?case by (simp add: algebra_simps)
qed simp

lemma codePoint_bound:
  "v \<le> 0x10FFFF \<Longrightarrow> fst (codePoint U line col v n l) = Inr (w, k) \<Longrightarrow> w \<le> 0x10FFFF"
proof (induction U line col v n l rule: codePoint.induct)
  case (1 U line col v n l)
  show ?case
    using 1(3) 1(1,2)
    by (subst (asm) codePoint.simps) (auto simp: Let_def fail_def split: if_splits option.splits)
qed

section \<open>String literals\<close>

text \<open>A way to write the character \<open>c\<close> in a literal with the quote \<open>q\<close>: the quote and the
  backslash escaped, the line terminators by their letters, the rest as they are.\<close>

definition escape_char :: "rune \<Rightarrow> rune \<Rightarrow> rune list" where
  "escape_char q c =
    (if c = q \<or> c = 0x5C then [0x5C, c]
     else if c = 0x0A then [0x5C, ord (CHR ''n'')]
     else if c = 0x0D then [0x5C, ord (CHR ''r'')]
     else [c])"

lemma readStringBody_quote:
  assumes "rest l = q # cs"
  shows "readStringBody U q line col buf l = give STRING buf line col (skip l)"
  using rest_Cons [OF assms] by (subst readStringBody.simps) simp

lemma encode_rune_newline: "encode_rune 0x0A = [CHR 0x0A]" "encode_rune 0x0D = [CHR 0x0D]"
  by code_simp+

text \<open>The escapes of one character: what stands for \<open>c\<close> after the backslash.\<close>

lemma scanStringEscape_self:
  assumes "rest l = c # cs" and "c \<in> {0x22, 0x27, 0x5C}"
  shows "scanStringEscape U buf line col l = (Inr (buf @ encode_rune c), skip l)"
  using rest_Cons(4) [OF assms(1)] assms(2)
  by (elim insertE emptyE; simp add: scanStringEscape_def case_prod_beta)

lemma scanStringEscape_letter:
  assumes "rest l = x # cs" and "x = ord (CHR ''n'') \<and> c = 0x0A \<or> x = ord (CHR ''r'') \<and> c = 0x0D"
  shows "scanStringEscape U buf line col l = (Inr (buf @ encode_rune c), skip l)"
  using rest_Cons(4) [OF assms(1)] assms(2)
  by (elim disjE conjE; simp add: scanStringEscape_def case_prod_beta encode_rune_newline)

lemma readStringBody_escape_char:
  assumes q: "q \<in> {0x22, 0x27}" and r: "rest l = escape_char q c @ cs"
  shows "\<exists>l'. readStringBody U q line col buf l = readStringBody U q line col (buf @ encode_rune c) l'
    \<and> rest l' = cs \<and> l_pos l' = l_pos l + length (escape_char q c)"
proof -
  have two: ?thesis
    if e: "escape_char q c = [0x5C, x]"
      and x: "x \<in> {0x22, 0x27, 0x5C} \<and> c = x \<or> x = ord (CHR ''n'') \<and> c = 0x0A \<or> x = ord (CHR ''r'') \<and> c = 0x0D" for x
  proof -
    have r': "rest l = 0x5C # x # cs" using r e by simp
    note s1 = rest_Cons [OF r'] and s2 = rest_Cons [OF rest_Cons(3) [OF r']]
    have "scanStringEscape U buf line col (skip l) = (Inr (buf @ encode_rune c), skip (skip l))"
      using x scanStringEscape_self [OF rest_Cons(3) [OF r']]
        scanStringEscape_letter [OF rest_Cons(3) [OF r']] by blast
    then have "readStringBody U q line col buf l
        = readStringBody U q line col (buf @ encode_rune c) (skip (skip l))"
      using s1 q by (subst readStringBody.simps) auto
    then show ?thesis using s1 s2 e by auto
  qed
  show ?thesis
  proof (cases "escape_char q c = [c]")
    case True
    then have c: "c \<noteq> q" "c \<noteq> 0x5C" "c \<noteq> 0x0A" "c \<noteq> 0x0D"
      by (auto simp: escape_char_def split: if_splits)
    have r': "rest l = c # cs" using r True by simp
    note s = rest_Cons [OF r']
    have "readStringBody U q line col buf l = readStringBody U q line col (buf @ encode_rune c) (skip l)"
      using s c by (subst readStringBody.simps) (simp add: case_prod_beta)
    then show ?thesis using s True by auto
  next
    case False
    then show ?thesis
      using two q by (auto simp: escape_char_def split: if_splits)
  qed
qed

lemma readStringBody_roundtrip:
  assumes "q \<in> {0x22, 0x27}" and "rest l = concat (map (escape_char q) cs) @ q # after"
  shows "\<exists>l'. readStringBody U q line col buf l = give STRING (buf @ encode_runes cs) line col l'
    \<and> rest l' = after \<and> l_pos l' = l_pos l + length (concat (map (escape_char q) cs)) + 1"
  using assms(2)
proof (induction cs arbitrary: buf l)
  case Nil
  then show ?case
    using readStringBody_quote [of l q after U line col buf] rest_Cons [of l q after] by auto
next
  case (Cons c cs)
  then have "rest l = escape_char q c @ (concat (map (escape_char q) cs) @ q # after)" by simp
  then obtain l' where l': "readStringBody U q line col buf l
        = readStringBody U q line col (buf @ encode_rune c) l'"
      "rest l' = concat (map (escape_char q) cs) @ q # after"
      "l_pos l' = l_pos l + length (escape_char q c)"
    using readStringBody_escape_char [OF assms(1)] by blast
  then show ?case
    using Cons.IH [OF l'(2), of "buf @ encode_rune c"] by (auto simp: encode_runes_def)
qed

text \<open>A \<open>\u{\<dots>}\<close> escape: the digits are read up to the closing brace, and a value past the
  last code point is an error as soon as it is exceeded.\<close>

fun hex_value :: "nat \<Rightarrow> rune list \<Rightarrow> nat" where
  "hex_value v [] = v"
| "hex_value v (d # ds) = hex_value (v * 16 + the (hexDigitVal d)) ds"

lemma hex_value_ge: "v \<le> hex_value v ds"
  by (induction v ds rule: hex_value.induct) (auto intro: order_trans [rotated])

lemma hexDigitVal_brace [simp]: "hexDigitVal 0x7D = None"
  by code_simp

lemma codePoint_digits:
  assumes "rest l = ds @ 0x7D # cs" and "list_all (\<lambda>d. hexDigitVal d \<noteq> None) ds"
    and "hex_value v ds \<le> 0x10FFFF"
  shows "\<exists>l'. codePoint U line col v n l = (Inr (hex_value v ds, n + length ds), l')
    \<and> rest l' = 0x7D # cs \<and> l_pos l' = l_pos l + length ds"
  using assms
proof (induction ds arbitrary: v n l)
  case Nil
  then show ?case
    using rest_Cons(2) [of l "0x7D" cs] by (subst codePoint.simps) simp
next
  case (Cons d ds)
  obtain x where x: "hexDigitVal d = Some x" using Cons.prems(2) by auto
  then have d: "d \<noteq> 0x7D" by auto
  have r: "rest l = d # ds @ 0x7D # cs" using Cons.prems(1) by simp
  have le: "v * 16 + x \<le> 0x10FFFF"
    using Cons.prems(3) x hex_value_ge [of "v * 16 + x" ds] by simp
  have "codePoint U line col v n l = codePoint U line col (v * 16 + x) (n + 1) (skip l)"
    using rest_Cons [OF r] x d le by (subst codePoint.simps) (simp add: Let_def)
  then show ?case
    using Cons.IH [OF rest_Cons(3) [OF r], of "v * 16 + x" "n + 1"] Cons.prems x
      rest_Cons(5) [OF r] by auto
qed

lemma codePoint_overflow:
  assumes "rest l = ds @ cs" and "list_all (\<lambda>d. hexDigitVal d \<noteq> None) ds"
    and "v \<le> 0x10FFFF" and "hex_value v ds > 0x10FFFF"
  shows "\<exists>l'. codePoint U line col v n l = fail U line col CodePointOutOfRange [] l'"
  using assms
proof (induction ds arbitrary: v n l)
  case (Cons d ds)
  obtain x where x: "hexDigitVal d = Some x" using Cons.prems(2) by auto
  then have d: "d \<noteq> 0x7D" by auto
  have r: "rest l = d # ds @ cs" using Cons.prems(1) by simp
  show ?case
  proof (cases "v * 16 + x > 0x10FFFF")
    case True
    then show ?thesis
      using rest_Cons [OF r] x d by (subst codePoint.simps) (auto simp: Let_def)
  next
    case False
    have "codePoint U line col v n l = codePoint U line col (v * 16 + x) (n + 1) (skip l)"
      using rest_Cons [OF r] x d False by (subst codePoint.simps) (simp add: Let_def)
    then show ?thesis
      using Cons.IH [OF rest_Cons(3) [OF r], of "v * 16 + x" "n + 1"] Cons.prems x False by auto
  qed
qed simp

section \<open>Regular expression flags\<close>

lemma flagsValid_iff:
  "flagsValid seen cs \<longleftrightarrow>
     set cs \<subseteq> set (runes_of ''dgimsuvy'') \<and> distinct cs \<and> set cs \<inter> set seen = {}"
  by (induction seen cs rule: flagsValid.induct) auto

section \<open>Digit runs\<close>

text \<open>Every separator stands between two digits; \<open>w\<close> says a digit came before.\<close>

fun separated :: "(rune \<Rightarrow> bool) \<Rightarrow> bool \<Rightarrow> rune list \<Rightarrow> bool" where
  "separated D w [] = True"
| "separated D w (c # cs) =
    (if c = 0x5F then w \<and> (case cs of [] \<Rightarrow> False | d # _ \<Rightarrow> D d) \<and> separated D False cs
     else D c \<and> separated D True cs)"

lemma separated_nth:
  assumes "separated D w s" and "i < length s" and "s ! i = 0x5F" and "\<not> D 0x5F"
  shows "(if i = 0 then w else D (s ! (i - 1))) \<and> i + 1 < length s \<and> D (s ! (i + 1))"
  using assms(1-3)
proof (induction D w s arbitrary: i rule: separated.induct)
  case (2 D w c cs)
  show ?case
  proof (cases i)
    case 0
    then show ?thesis using 2(3,5) by (auto split: list.splits)
  next
    case (Suc j)
    then have j: "j < length cs" "cs ! j = 0x5F" using 2(4,5) by auto
    have ih: "(if j = 0 then D c else D (cs ! (j - 1))) \<and> j + 1 < length cs \<and> D (cs ! (j + 1))"
      using 2(1) [OF _ _ j] 2(2) [OF _ _ j] 2(3) by (auto split: if_splits)
    then show ?thesis using Suc by (cases j) auto
  qed
qed simp

lemma separated_digits: "separated D w s \<Longrightarrow> c \<in> set s \<Longrightarrow> c = 0x5F \<or> D c"
  by (induction D w s rule: separated.induct) (auto split: if_splits)

lemma readDigitRun_ok:
  assumes "readDigitRun U D line col w buf l = (Inr buf', l')" and "\<not> D 0x5F" and "\<not> D 0"
  shows "\<exists>s. rest l = s @ rest l' \<and> l_pos l' = l_pos l + length s \<and> separated D w s
    \<and> buf' = buf @ encode_runes (filter (\<lambda>c. c \<noteq> 0x5F) s)
    \<and> (case rest l' of [] \<Rightarrow> True | c # _ \<Rightarrow> \<not> D c \<and> c \<noteq> 0x5F)"
  using assms
proof (induction U D line col w buf l rule: readDigitRun.induct)
  case (1 U D line col w buf l)
  show ?case
  proof (cases "rest l")
    case Nil
    then have "buf' = buf" "l' = l"
      using 1(3) by (subst (asm) readDigitRun.simps, simp add: rest_more)+
    then show ?thesis using Nil by (intro exI [of _ "[]"]) simp
  next
    case (Cons c cs)
    note r = rest_Cons [OF Cons]
    have adv: "(c, skip l) = advance l" using r(4) by (cases "advance l") simp
    consider (digit) "D c" "c \<noteq> 0x5F" | (sep) "\<not> D c" "c = 0x5F" | (other) "\<not> D c" "c \<noteq> 0x5F"
      using 1(4) by auto
    then show ?thesis
    proof cases
      case digit
      then have "readDigitRun U D line col True (buf @ encode_rune c) (skip l) = (Inr buf', l')"
        using 1(3) r by (subst (asm) readDigitRun.simps) (simp add: case_prod_beta)
      then obtain s where "cs = s @ rest l'" "l_pos l' = l_pos (skip l) + length s" "separated D True s"
          "buf' = (buf @ encode_rune c) @ encode_runes (filter (\<lambda>c. c \<noteq> 0x5F) s)"
          "case rest l' of [] \<Rightarrow> True | c # _ \<Rightarrow> \<not> D c \<and> c \<noteq> 0x5F"
        using 1(1) [OF r(1) r(2) [symmetric] digit(1) adv _ 1(4,5)] r(3) by auto
      then show ?thesis using r digit Cons
        by (intro exI [of _ "c # s"]) (simp add: encode_runes_def)
    next
      case sep
      then have w: "w" "D (peekAt 1 l)" and
          "readDigitRun U D line col False buf (skip l) = (Inr buf', l')"
        using 1(3) r
        by (subst (asm) readDigitRun.simps, simp add: fail_def split: if_splits)+
      then obtain s where s: "cs = s @ rest l'" "l_pos l' = l_pos (skip l) + length s"
          "separated D False s" "buf' = buf @ encode_runes (filter (\<lambda>c. c \<noteq> 0x5F) s)"
          "case rest l' of [] \<Rightarrow> True | c # _ \<Rightarrow> \<not> D c \<and> c \<noteq> 0x5F"
        using 1(2) [of c] r sep 1(4,5) by auto
      have n1: "cs \<noteq> [] \<and> peekAt 1 l = hd cs \<or> peekAt 1 l = 0"
        using Cons by (auto simp: rest_peekAt hd_conv_nth)
      show ?thesis
      proof (cases s)
        case Nil
        then show ?thesis using n1 w s Cons sep 1(5) by (auto simp: rest_peekAt split: list.splits)
      next
        case (Cons d ds)
        then show ?thesis using n1 w s r sep \<open>rest l = c # cs\<close>
          by (intro exI [of _ "c # s"]) (auto simp: rest_peekAt)
      qed
    next
      case other
      then have "buf' = buf" "l' = l"
        using 1(3) r by (subst (asm) readDigitRun.simps, simp)+
      then show ?thesis using Cons other by (intro exI [of _ "[]"]) simp
    qed
  qed
qed

end
