(* ===== verification/LexerPunct.thy ===== *)
theory LexerPunct
  imports LexerRest
begin

text \<open>
  The punctuator scanners against a table: the switch of \<open>nextToken\<close> with its nested
  lookaheads takes the longest punctuator of the language's table that the text starts with.
\<close>

text \<open>The punctuators by their first character, the longest first.\<close>

definition punct_groups :: "(rune \<times> (string \<times> TokenType) list) list" where
  "punct_groups = [
    (43, [(''++'', INC), (''+='', PLUS_ASSIGN), (''+'', PLUS)]),
    (45, [(''--'', DEC), (''-='', MINUS_ASSIGN), (''-'', MINUS)]),
    (42, [(''**='', POW_ASSIGN), (''*='', STAR_ASSIGN), (''**'', POW), (''*'', STAR)]),
    (47, [(''/='', SLASH_ASSIGN), (''/'', SLASH)]),
    (37, [(''%='', PERCENT_ASSIGN), (''%'', PERCENT)]),
    (61, [(''==='', STRICT_EQ), (''=='', EQ), (''=>'', ARROW), (''='', ASSIGN)]),
    (33, [(''!=='', STRICT_NEQ), (''!='', NEQ), (''!'', NOT)]),
    (60, [(''<<='', LSHIFT_ASSIGN), (''<='', LTE), (''<<'', LSHIFT), (''<'', LT)]),
    (62, [(''>>>='', URSHIFT_ASSIGN), (''>>='', RSHIFT_ASSIGN), (''>>>'', URSHIFT), (''>='', GTE),
      (''>>'', RSHIFT), (''>'', GT)]),
    (38, [(''&&='', LOGICAL_AND_ASSIGN), (''&='', AND_ASSIGN), (''&&'', AND), (''&'', BITAND)]),
    (124, [(''||='', LOGICAL_OR_ASSIGN), (''|='', OR_ASSIGN), (''||'', OR), (''|'', BITOR)]),
    (94, [(''^='', XOR_ASSIGN), (''^'', BITXOR)]),
    (123, [(''{'', LBRACE)]),
    (125, [(''}'', RBRACE)]),
    (46, [(''...'', ELLIPSIS), (''.'', DOT)]),
    (63, [(''??='', NULLISH_ASSIGN), (''??'', NULLISH), (''?.'', OPTIONAL_DOT), (''?'', QUESTION)]),
    (126, [(''~'', BITNOT)]),
    (40, [(''('', LPAREN)]),
    (41, [('')'', RPAREN)]),
    (91, [(''['', LBRACKET)]),
    (93, [('']'', RBRACKET)]),
    (59, [('';'', SEMICOLON)]),
    (58, [('':'', COLON)]),
    (44, [('','', COMMA)]),
    (64, [(''@'', AT)])]"

text \<open>Outside the gluing mode a \<open>>\<close> is a token on its own, whatever follows (the closing
  brackets of nested type arguments).\<close>

definition punct_at :: "ScanMode \<Rightarrow> rune \<Rightarrow> (string \<times> TokenType) list" where
  "punct_at mode c =
    (if c = ord (CHR ''>'') \<and> mode \<noteq> ScanGlueGreater then [(''>'', GT)]
     else case map_of punct_groups c of None \<Rightarrow> [] | Some g \<Rightarrow> g)"

definition munch :: "(string \<times> TokenType) list \<Rightarrow> rune list \<Rightarrow> (string \<times> TokenType) option" where
  "munch tbl rs = List.find (\<lambda>p. prefix (map ord (fst p)) rs) tbl"

lemma munch_simps [simp]:
  "munch [] rs = None"
  "munch (p # ps) rs = (if prefix (map ord (fst p)) rs then Some p else munch ps rs)"
  by (simp_all add: munch_def)

lemma munch_longest:
  assumes "sorted_wrt (\<lambda>a b. length (fst b) \<le> length (fst a)) tbl" and "munch tbl rs = Some (s, k)"
  shows "(s, k) \<in> set tbl \<and> prefix (map ord s) rs
    \<and> (\<forall>p \<in> set tbl. prefix (map ord (fst p)) rs \<longrightarrow> length (fst p) \<le> length s)"
  using assms by (induction tbl) (auto split: if_splits)

definition scanPunct_spec :: "unicode_tables \<Rightarrow> nat \<Rightarrow> nat \<Rightarrow> lexer \<Rightarrow> scanned" where
  "scanPunct_spec U line col l =
    (case munch (punct_at (l_mode l) (peek l)) (rest l) of
       None \<Rightarrow> fail U line col UnexpectedCharacter [ArgRune (peek l)] (skip l)
     | Some (s, k) \<Rightarrow> give k s line col ((skip ^^ length s) l))"

lemma rest_after:
  "rest l = c # r \<Longrightarrow> peek (skip l) = (case r of [] \<Rightarrow> 0 | d # _ \<Rightarrow> d)"
  "rest l = c # r \<Longrightarrow> peekAt (Suc 0) (skip l) = (case r of [] \<Rightarrow> 0 | [d] \<Rightarrow> 0 | d # e # _ \<Rightarrow> e)"
  "rest l = c # r \<Longrightarrow> peek (skip (skip l)) = (case r of [] \<Rightarrow> 0 | [d] \<Rightarrow> 0 | d # e # _ \<Rightarrow> e)"
  "rest l = c # r \<Longrightarrow> peek (skip (skip (skip l)))
    = (case r of [] \<Rightarrow> 0 | [d] \<Rightarrow> 0 | [d, e] \<Rightarrow> 0 | d # e # f # _ \<Rightarrow> f)"
  by (simp_all add: rest_peek rest_peekAt rest_skip split: list.split)

lemma punct_keys: "map_of punct_groups c \<noteq> None \<longleftrightarrow> c \<in> set
    [43, 45, 42, 47, 37, 61, 33, 60, 62, 38, 124, 94, 123, 125, 46, 63, 126, 40, 41, 91, 93, 59, 58, 44, 64]"
  by (simp add: punct_groups_def)

lemma single_keys: "map_of singleTokens c \<noteq> None \<longleftrightarrow> c \<in> set [126, 40, 41, 91, 93, 59, 58, 44, 64]"
  by (simp add: singleTokens_def)

lemma scanPunct_other:
  assumes "map_of punct_groups c = None"
  shows "scanPunct U c line col l = fail U line col UnexpectedCharacter [ArgRune c] l"
  using assms single_keys [of c] punct_keys [of c] by (simp add: scanPunct_def split: option.split)

lemma prefix_Cons_iff: "prefix (x # xs) ys \<longleftrightarrow> (case ys of [] \<Rightarrow> False | y # zs \<Rightarrow> x = y \<and> prefix xs zs)"
  by (auto split: list.split)

lemma scanPunct_munch:
  assumes r: "rest l = c # r" and ts: "l_templateStack l = []"
  shows "scanPunct U c line col (skip l) = scanPunct_spec U line col l"
proof (cases "map_of punct_groups c")
  case None
  then have "punct_at (l_mode l) c = []" using punct_keys [of c] by (auto simp: punct_at_def)
  then show ?thesis using scanPunct_other [OF None] rest_Cons [OF r]
    by (simp add: scanPunct_spec_def)
next
  case (Some g)
  have p: "peek l = c" using rest_Cons [OF r] by simp
  note a = rest_after [OF r]
  note defs = scanPunct_def scanPunct_spec_def r p punct_at_def punct_groups_def a prefix_Cons_iff
    ts Let_def singleTokens_def scanPlus_def scanMinus_def scanStar_def scanSlash_def
    scanPercent_def scanEquals_def scanBang_def scanLess_def scanGreater_def scanAmpersand_def
    scanBar_def scanCaret_def scanLBrace_def scanRBrace_def scanDot_def scanQuestion_def
  have "c \<in> set [43, 45, 42, 47, 37, 61, 33, 60, 62, 38, 124, 94, 123, 125, 46, 63]
      \<or> c \<in> set [126, 40, 41, 91, 93, 59, 58, 44, 64]"
    using Some punct_keys [of c] by auto
  then show ?thesis
    unfolding list.set by (elim disjE insertE emptyE; simp add: defs split: list.split)
qed

lemma rest_skips: "rest ((skip ^^ n) l) = drop n (rest l)"
  by (induction n) (simp_all add: rest_skip drop_Suc tl_drop)

lemma pos_skips: "n \<le> length (rest l) \<Longrightarrow> l_pos ((skip ^^ n) l) = l_pos l + n"
proof (induction n)
  case (Suc n)
  have "rest ((skip ^^ n) l) \<noteq> []" using Suc.prems by (simp add: rest_skips)
  then have "more ((skip ^^ n) l)" using rest_more [of "(skip ^^ n) l"] by blast
  then have "l_pos (skip ((skip ^^ n) l)) = Suc (l_pos ((skip ^^ n) l))" by (rule advance_more)
  then show ?case using Suc by simp
qed simp

lemma punct_at_longest_first:
  "sorted_wrt (\<lambda>a b. length (fst b) \<le> length (fst a)) (punct_at mode c)"
proof -
  have "list_all (\<lambda>g. sorted_wrt (\<lambda>a b. length (fst b) \<le> length (fst a)) (snd g)) punct_groups"
    by (simp add: punct_groups_def)
  then show ?thesis
    by (auto simp: punct_at_def list_all_iff split: option.split dest!: map_of_SomeD)
qed

lemma give_token:
  assumes "give k s line col l = (r, l')"
  shows "\<exists>t. r = Inr t \<and> t_Type t = k \<and> t_Literal t = s \<and> l' = l\<lparr>l_pendingDoc := ''''\<rparr>"
proof -
  obtain t l1 where t: "tok k s line col l = (t, l1)" by fastforce
  show ?thesis using assms t tok_fields(1,2,10) [OF t] by (auto simp: give_def)
qed

end
