(* ===== verification/LexerScanFacts.thy ===== *)
theory LexerScanFacts
  imports LexerFacts
begin

text \<open>
  What one call of \<open>Scan\<close> does to the scanner's state, from what \<open>nextToken\<close>
  returns; the states a client can reach with \<open>New\<close>, \<open>Scan\<close>, \<open>Mark\<close> and
  \<open>Rewind\<close>; the invariant they keep; and scanning a whole source.
\<close>

section \<open>One Scan\<close>

definition scan_from :: "lexer \<Rightarrow> ScanMode \<Rightarrow> lexer" where
  "scan_from l mode = l\<lparr>l_mode := mode, l_sawNL := False\<rparr>"

lemma scan_from_simps [simp]:
  "l_src (scan_from l mode) = l_src l" "l_offs (scan_from l mode) = l_offs l"
  "l_pos (scan_from l mode) = l_pos l" "l_lastSig (scan_from l mode) = l_lastSig l"
  "l_sawNL (scan_from l mode) = False" "linecol_ok (scan_from l mode) = linecol_ok l"
  by (simp_all add: scan_from_def linecol_ok_def)

text \<open>\<open>Scan\<close> in terms of \<open>nextToken\<close>: a token is remembered as the last significant one;
  an error becomes an \<open>ILLEGAL\<close> token over the span it was found at.\<close>

lemma Scan_cases:
  obtains (token) t l1 where "nextToken U (scan_from l mode) = (Inr t, l1)"
      "Scan U mode l = (t, l1\<lparr>l_lastSig := t_Type t, l_mode := ScanDefault\<rparr>)"
  | (illegal) e l1 t where "nextToken U (scan_from l mode) = (Inl e, l1)"
      "Scan U mode l = (t, l1\<lparr>l_mode := ScanDefault\<rparr>)" "t_Type t = ILLEGAL" "t_Err t = Some e"
      "t_Pos t = l_offs l1 ! l_startPos l1" "t_End t = l_offs l1 ! l_pos l1"
proof (cases "nextToken U (scan_from l mode)")
  case (Pair r l1)
  then show ?thesis
    by (cases r) (auto simp: Scan_def NextToken_def scan_from_def
        intro: illegal [of _ l1] token [of _ l1])
qed

definition scan_post :: "lexer \<Rightarrow> Token \<Rightarrow> lexer \<Rightarrow> bool" where
  "scan_post l t l' \<longleftrightarrow>
     l_src l' = l_src l \<and> l_offs l' = l_offs l \<and> l_mode l' = ScanDefault
   \<and> l_pos l \<le> l_startPos l' \<and> l_startPos l' \<le> l_pos l'
   \<and> (l_pos l \<le> length (l_src l) \<longrightarrow> l_pos l' \<le> length (l_src l))
   \<and> (linecol_ok l \<longrightarrow> linecol_ok l')
   \<and> t_Pos t = l_offs l ! l_startPos l' \<and> t_End t = l_offs l ! l_pos l'
   \<and> (t_Type t = EOF \<longleftrightarrow> l_startPos l' \<ge> length (l_src l))
   \<and> (t_Type t \<noteq> EOF \<longrightarrow> l_startPos l' < l_pos l')
   \<and> (t_Type t = ILLEGAL \<longleftrightarrow> t_Err t \<noteq> None)
   \<and> l_lastSig l' = (if t_Err t = None then t_Type t else l_lastSig l)
   \<and> (t_Err t = None \<longrightarrow> HasPrecedingLineBreak t = nl_in (l_src l) (l_pos l) (l_startPos l'))
   \<and> l_sawNL l' = nl_in (l_src l) (l_pos l) (l_pos l')
   \<and> (t_Err t = None \<longrightarrow> linecol_ok l \<longrightarrow>
        linecol (take (l_startPos l') (l_src l)) = (t_Line t, t_Col t))"

lemma Scan_post: "scan_post l (fst (Scan U mode l)) (snd (Scan U mode l))"
proof -
  have r: "scan_result (scan_from l mode) (nextToken U (scan_from l mode))"
    by (rule nextToken_result)
  show ?thesis
  proof (cases rule: Scan_cases [of U l mode])
    case (token t l1)
    then show ?thesis using r
      by (auto simp: scan_post_def scan_result_def Let_def moves_def2 token_result_def)
  next
    case (illegal e l1 t)
    then show ?thesis using r
      by (auto simp: scan_post_def scan_result_def Let_def moves_def2)
  qed
qed

lemma Scan_postE: "Scan U mode l = (t, l') \<Longrightarrow> scan_post l t l'"
  using Scan_post [of l U mode] by simp

section \<open>Reachable states\<close>

text \<open>What a client can do with a scanner over \<open>src\<close>: scan in any mode, and rewind to a mark
  taken at any state it has reached.\<close>

inductive reach :: "unicode_tables \<Rightarrow> string \<Rightarrow> lexer \<Rightarrow> bool" for U src where
  reach_New: "reach U src (New src)"
| reach_Scan: "reach U src l \<Longrightarrow> reach U src (snd (Scan U mode l))"
| reach_Rewind: "reach U src l0 \<Longrightarrow> reach U src l \<Longrightarrow> reach U src (Rewind (Mark l0) l)"

definition lexer_inv :: "string \<Rightarrow> lexer \<Rightarrow> bool" where
  "lexer_inv src l \<longleftrightarrow>
     l_src l = runes_of src \<and> l_offs l = rune_offsets src @ [length src]
   \<and> l_pos l \<le> length (runes_of src) \<and> l_startPos l \<le> length (runes_of src)
   \<and> l_mode l = ScanDefault \<and> linecol (take (l_pos l) (runes_of src)) = (l_line l, l_col l)"

lemma lexer_inv_linecol: "lexer_inv src l \<Longrightarrow> linecol_ok l"
  by (simp add: lexer_inv_def linecol_ok_def)

lemma lexer_inv_New: "lexer_inv src (New src)"
  by (simp add: lexer_inv_def New_def)

lemma lexer_inv_Scan: "lexer_inv src l \<Longrightarrow> lexer_inv src (snd (Scan U mode l))"
  using Scan_post [of l U mode] by (auto simp: lexer_inv_def scan_post_def linecol_ok_def)

lemma lexer_inv_Rewind: "lexer_inv src l0 \<Longrightarrow> lexer_inv src l \<Longrightarrow> lexer_inv src (Rewind (Mark l0) l)"
  by (simp add: lexer_inv_def Rewind_def Mark_def)

lemma reach_inv: "reach U src l \<Longrightarrow> lexer_inv src l"
  by (induction rule: reach.induct)
    (auto intro: lexer_inv_New lexer_inv_Scan lexer_inv_Rewind)

text \<open>The byte offsets of a reachable state increase strictly and end at the source's length.\<close>

lemma offs_sorted: "sorted_wrt (<) (rune_offsets src @ [length src])"
  using rune_range_offsets [of 0 src] by (simp add: rune_offsets_def)

lemma offs_mono:
  "i \<le> j \<Longrightarrow> j \<le> length (runes_of src) \<Longrightarrow>
   (rune_offsets src @ [length src]) ! i \<le> (rune_offsets src @ [length src]) ! j"
  using sorted_wrt_nth_less [OF offs_sorted, of i j src] by (cases "i = j") auto

lemma offs_strict:
  "i < j \<Longrightarrow> j \<le> length (runes_of src) \<Longrightarrow>
   (rune_offsets src @ [length src]) ! i < (rune_offsets src @ [length src]) ! j"
  using sorted_wrt_nth_less [OF offs_sorted, of i j src] by auto

lemma offs_last: "(rune_offsets src @ [length src]) ! length (runes_of src) = length src"
  by (metis length_rune_offsets nth_append_length)

section \<open>Scanning a source to its end\<close>

text \<open>The tokens a loop over \<open>Scan\<close> reads, at most \<open>n\<close> of them, up to the first \<open>EOF\<close>.\<close>

fun scan_all :: "unicode_tables \<Rightarrow> nat \<Rightarrow> lexer \<Rightarrow> Token list" where
  "scan_all U 0 l = []"
| "scan_all U (Suc n) l =
    (case Scan U ScanDefault l of (t, l') \<Rightarrow>
       if t_Type t = EOF then [t] else t # scan_all U n l')"

lemma Scan_remaining:
  assumes "Scan U mode l = (t, l')" and "t_Type t \<noteq> EOF" and "l_pos l \<le> length (l_src l)"
  shows "remaining l' < remaining l"
  using Scan_postE [OF assms(1)] assms(2,3) by (auto simp: scan_post_def remaining_def)

lemma scan_all_ends:
  assumes "l_pos l \<le> length (l_src l)" and "remaining l < n"
  shows "\<exists>ts t. scan_all U n l = ts @ [t] \<and> t_Type t = EOF
    \<and> (\<forall>x \<in> set ts. t_Type x \<noteq> EOF) \<and> length ts \<le> remaining l"
  using assms
proof (induction n arbitrary: l)
  case (Suc n)
  obtain t l' where s: "Scan U ScanDefault l = (t, l')" by fastforce
  note p = Scan_postE [OF s]
  show ?case
  proof (cases "t_Type t = EOF")
    case True
    then show ?thesis by (auto simp: s)
  next
    case False
    have r: "remaining l' < remaining l" by (rule Scan_remaining [OF s False Suc.prems(1)])
    then obtain ts u where "scan_all U n l' = ts @ [u]" "t_Type u = EOF"
        "\<forall>x \<in> set ts. t_Type x \<noteq> EOF" "length ts \<le> remaining l'"
      using Suc.IH [of l'] Suc.prems p by (auto simp: scan_post_def)
    then show ?thesis using r False by (intro exI [of _ "t # ts"] exI [of _ u]) (auto simp: s)
  qed
qed simp

lemma scan_all_spans:
  assumes "lexer_inv src l"
  shows "sorted_wrt (\<lambda>a b. t_End a \<le> t_Pos b) (scan_all U n l)
    \<and> (\<forall>t \<in> set (scan_all U n l). (rune_offsets src @ [length src]) ! l_pos l \<le> t_Pos t
        \<and> t_Pos t \<le> t_End t \<and> t_End t \<le> length src \<and> (t_Type t \<noteq> EOF \<longrightarrow> t_Pos t < t_End t))"
  using assms
proof (induction n arbitrary: l)
  case (Suc n)
  obtain t l' where s: "Scan U ScanDefault l = (t, l')" by fastforce
  note p = Scan_postE [OF s, unfolded scan_post_def]
  have inv': "lexer_inv src l'"
    using lexer_inv_Scan [OF Suc.prems, of U ScanDefault] by (simp add: s)
  let ?o = "\<lambda>i. (rune_offsets src @ [length src]) ! i"
  have b: "l_startPos l' \<le> length (runes_of src)" "l_pos l' \<le> length (runes_of src)"
    using inv' by (simp_all add: lexer_inv_def)
  have t: "t_Pos t = ?o (l_startPos l')" "t_End t = ?o (l_pos l')"
    using p Suc.prems by (simp_all add: lexer_inv_def)
  have le: "?o (l_pos l) \<le> t_Pos t" "t_Pos t \<le> t_End t" "t_End t \<le> length src"
      "t_Type t \<noteq> EOF \<Longrightarrow> t_Pos t < t_End t"
    unfolding t using p b offs_mono [of "l_pos l" "l_startPos l'" src]
      offs_mono [of "l_startPos l'" "l_pos l'" src] offs_mono [of "l_pos l'" "length (runes_of src)" src]
      offs_strict [of "l_startPos l'" "l_pos l'" src] by (auto simp: offs_last)
  show ?case
    using Suc.IH [OF inv'] le t by (auto simp: s)
qed simp

end
