(* ===== verification/LexerBlind.thy ===== *)
theory LexerBlind
  imports LexerScanFacts
begin

text \<open>
  The doc comments a scanner collects are never read back by it: every scanner does the
  same whatever the collection holds. So a scan is determined by what \<open>Mark\<close> saves, and
  rewinding replays the same tokens.
\<close>

definition with_docs :: "(nat \<rightharpoonup> string) \<Rightarrow> 'a \<times> lexer \<Rightarrow> 'a \<times> lexer" where
  "with_docs d r = (fst r, (snd r)\<lparr>l_Docs := d\<rparr>)"

lemma with_docs_pair [simp]: "with_docs d (x, l) = (x, l\<lparr>l_Docs := d\<rparr>)"
  by (simp add: with_docs_def)

lemma with_docs_if [simp]:
  "with_docs d (if b then x else y) = (if b then with_docs d x else with_docs d y)"
  by simp

lemma with_docs_case: "with_docs d (case r of (x, l) \<Rightarrow> g x l) = (case r of (x, l) \<Rightarrow> with_docs d (g x l))"
  by (cases r) simp

lemma with_docs_sum: "with_docs d (case r of Inl e \<Rightarrow> g e | Inr x \<Rightarrow> h x)
    = (case r of Inl e \<Rightarrow> with_docs d (g e) | Inr x \<Rightarrow> with_docs d (h x))"
  by (cases r) simp_all

lemma with_docs_option: "with_docs d (case r of None \<Rightarrow> g | Some x \<Rightarrow> h x)
    = (case r of None \<Rightarrow> with_docs d g | Some x \<Rightarrow> with_docs d (h x))"
  by (cases r) simp_all

lemma case_with_docs: "(case with_docs d r of (x, l) \<Rightarrow> g x l) = (case r of (x, l) \<Rightarrow> g x (l\<lparr>l_Docs := d\<rparr>))"
  by (cases r) simp

lemmas docs_push = with_docs_case with_docs_sum with_docs_option case_with_docs

lemma peek_docs [simp]: "peek (l\<lparr>l_Docs := d\<rparr>) = peek l" "peekAt n (l\<lparr>l_Docs := d\<rparr>) = peekAt n l"
  by (simp_all add: peek_def peekAt_def Let_def)

lemma advance_docs [simp]: "advance (l\<lparr>l_Docs := d\<rparr>) = with_docs d (advance l)"
  by (simp add: advance_def with_docs_def Let_def)

lemma skip_docs: "skip (l\<lparr>l_Docs := d\<rparr>) = (skip l)\<lparr>l_Docs := d\<rparr>"
  by (simp add: with_docs_def)

lemma snd_with_docs [simp]: "snd (with_docs d r) = (snd r)\<lparr>l_Docs := d\<rparr>" "fst (with_docs d r) = fst r"
  by (simp_all add: with_docs_def)

lemma fail_docs [simp]: "fail U line col m args (l\<lparr>l_Docs := d\<rparr>) = with_docs d (fail U line col m args l)"
  by (simp add: fail_def errAt_def)

lemma tok_docs [simp]: "tok k s line col (l\<lparr>l_Docs := d\<rparr>) = with_docs d (tok k s line col l)"
  by (simp add: tok_def Let_def)

lemma give_docs [simp]: "give k s line col (l\<lparr>l_Docs := d\<rparr>) = with_docs d (give k s line col l)"
  by (simp add: give_def docs_push)

lemma scanWhile_docs [simp]: "scanWhile P buf (l\<lparr>l_Docs := d\<rparr>) = with_docs d (scanWhile P buf l)"
proof (induction P buf l rule: scanWhile.induct)
  case (1 P buf l)
  then show ?case
    by (subst (1 2) scanWhile.simps) (auto simp: docs_push split: prod.split)
qed

lemma readDigitRun_docs [simp]:
  "readDigitRun U D line col w buf (l\<lparr>l_Docs := d\<rparr>) = with_docs d (readDigitRun U D line col w buf l)"
proof (induction U D line col w buf l rule: readDigitRun.induct)
  case (1 U D line col w buf l)
  then show ?case
    by (subst (1 2) readDigitRun.simps) (auto simp: docs_push Let_def split: prod.split)
qed

lemma decimalDigits_docs [simp]:
  "decimalDigits U z line col h w buf (l\<lparr>l_Docs := d\<rparr>) = with_docs d (decimalDigits U z line col h w buf l)"
proof (induction U z line col h w buf l rule: decimalDigits.induct)
  case (1 U z line col h w buf l)
  then show ?case
    by (subst (1 2) decimalDigits.simps) (auto simp: docs_push Let_def split: prod.split)
qed

lemma readPrefixed_docs [simp]:
  "readPrefixed U D line col (l\<lparr>l_Docs := d\<rparr>) = with_docs d (readPrefixed U D line col l)"
  by (simp add: readPrefixed_def docs_push cong: if_cong prod.case_cong sum.case_cong)

lemma readExponent_docs [simp]:
  "readExponent U line col buf (l\<lparr>l_Docs := d\<rparr>) = with_docs d (readExponent U line col buf l)"
  by (auto simp: readExponent_def docs_push Let_def split: prod.split sum.split)

lemma readDecimal_docs [simp]:
  "readDecimal U line col (l\<lparr>l_Docs := d\<rparr>) = with_docs d (readDecimal U line col l)"
  by (simp add: readDecimal_def docs_push Let_def cong: if_cong prod.case_cong sum.case_cong)

lemma readNumberBody_docs [simp]:
  "readNumberBody U line col (l\<lparr>l_Docs := d\<rparr>) = with_docs d (readNumberBody U line col l)"
  by (simp only: readNumberBody_def Let_def peek_docs readPrefixed_docs readDecimal_docs with_docs_if)

lemma readNumber_docs [simp]:
  "readNumber U line col (l\<lparr>l_Docs := d\<rparr>) = with_docs d (readNumber U line col l)"
  by (simp add: readNumber_def docs_push Let_def cong: if_cong prod.case_cong sum.case_cong)

lemma hexDigits_docs [simp]: "hexDigits n v (l\<lparr>l_Docs := d\<rparr>) = with_docs d (hexDigits n v l)"
  by (induction n v l rule: hexDigits.induct) (auto simp: docs_push split: option.split)

lemma octalDigits_docs [simp]: "octalDigits n v (l\<lparr>l_Docs := d\<rparr>) = with_docs d (octalDigits n v l)"
  by (induction n v l rule: octalDigits.induct) (auto simp: docs_push split: prod.split)

lemma codePoint_docs [simp]:
  "codePoint U line col v n (l\<lparr>l_Docs := d\<rparr>) = with_docs d (codePoint U line col v n l)"
proof (induction U line col v n l rule: codePoint.induct)
  case (1 U line col v n l)
  then show ?case
    by (subst (1 2) codePoint.simps) (auto simp: docs_push Let_def split: option.split)
qed

lemma bracedEscape_docs [simp]:
  "bracedEscape U buf line col (l\<lparr>l_Docs := d\<rparr>) = with_docs d (bracedEscape U buf line col l)"
  by (simp add: bracedEscape_def docs_push cong: if_cong prod.case_cong sum.case_cong)

lemma fixedEscape_docs [simp]:
  "fixedEscape U n m buf line col (l\<lparr>l_Docs := d\<rparr>) = with_docs d (fixedEscape U n m buf line col l)"
  by (simp add: fixedEscape_def readHexEscape_def docs_push cong: prod.case_cong option.case_cong)

lemma octalEscape_docs [simp]:
  "octalEscape esc buf (l\<lparr>l_Docs := d\<rparr>) = with_docs d (octalEscape esc buf l)"
  by (simp add: octalEscape_def docs_push cong: prod.case_cong)

lemma scanStringEscape_docs [simp]:
  "scanStringEscape U buf line col (l\<lparr>l_Docs := d\<rparr>) = with_docs d (scanStringEscape U buf line col l)"
  by (simp add: scanStringEscape_def docs_push case_prod_beta cong: if_cong)

lemma readStringBody_docs [simp]:
  "readStringBody U q line col buf (l\<lparr>l_Docs := d\<rparr>) = with_docs d (readStringBody U q line col buf l)"
proof (induction U q line col buf l rule: readStringBody.induct)
  case (1 U q line col buf l)
  then show ?case
    by (subst (1 2) readStringBody.simps) (auto simp: docs_push Let_def split: prod.split sum.split)
qed

lemma regexBody_docs [simp]:
  "regexBody U line col b p (l\<lparr>l_Docs := d\<rparr>) = with_docs d (regexBody U line col b p l)"
proof (induction U line col b p l rule: regexBody.induct)
  case (1 U line col b p l)
  then show ?case
    by (subst (1 2) regexBody.simps) (auto simp: docs_push Let_def split: prod.split)
qed

lemma readRegex_docs [simp]:
  "readRegex U line col (l\<lparr>l_Docs := d\<rparr>) = with_docs d (readRegex U line col l)"
  by (simp add: readRegex_def docs_push cong: if_cong prod.case_cong sum.case_cong)

lemma templateBody_docs [simp]:
  "templateBody U i buf (l\<lparr>l_Docs := d\<rparr>) = with_docs d (templateBody U i buf l)"
proof (induction U i buf l rule: templateBody.induct)
  case (1 U i buf l)
  then show ?case
    by (subst (1 2) templateBody.simps)
      (auto simp: docs_push Let_def rawText_def split: prod.split sum.split)
qed

lemma stack_docs:
  "tok k s line col (l\<lparr>l_Docs := d, l_templateStack := ts\<rparr>)
    = with_docs d (tok k s line col (l\<lparr>l_templateStack := ts\<rparr>))"
  "give k s line col (l\<lparr>l_Docs := d, l_templateStack := ts\<rparr>)
    = with_docs d (give k s line col (l\<lparr>l_templateStack := ts\<rparr>))"
proof -
  have e: "l\<lparr>l_Docs := d, l_templateStack := ts\<rparr> = l\<lparr>l_templateStack := ts\<rparr>\<lparr>l_Docs := d\<rparr>" by simp
  show "tok k s line col (l\<lparr>l_Docs := d, l_templateStack := ts\<rparr>)
      = with_docs d (tok k s line col (l\<lparr>l_templateStack := ts\<rparr>))"
    and "give k s line col (l\<lparr>l_Docs := d, l_templateStack := ts\<rparr>)
      = with_docs d (give k s line col (l\<lparr>l_templateStack := ts\<rparr>))"
    unfolding e by (rule tok_docs, rule give_docs)
qed

lemma templateToken_docs [simp]:
  "templateToken U k1 k2 line col (l\<lparr>l_Docs := d\<rparr>) = with_docs d (templateToken U k1 k2 line col l)"
  by (simp add: templateToken_def readTemplateSegment_def docs_push stack_docs
      cong: if_cong prod.case_cong sum.case_cong)

lemma stack_docs_template:
  "templateToken U k1 k2 line col (l\<lparr>l_Docs := d, l_templateStack := ts\<rparr>)
    = with_docs d (templateToken U k1 k2 line col (l\<lparr>l_templateStack := ts\<rparr>))"
proof -
  have e: "l\<lparr>l_Docs := d, l_templateStack := ts\<rparr> = l\<lparr>l_templateStack := ts\<rparr>\<lparr>l_Docs := d\<rparr>" by simp
  show ?thesis unfolding e by (rule templateToken_docs)
qed

lemma scanPunct_docs [simp]:
  "scanPunct U ch line col (l\<lparr>l_Docs := d\<rparr>) = with_docs d (scanPunct U ch line col l)"
  by (simp add: scanPunct_def scanPlus_def scanMinus_def scanStar_def scanSlash_def scanPercent_def
    scanEquals_def scanBang_def scanLess_def scanGreater_def scanAmpersand_def scanBar_def
    scanCaret_def scanLBrace_def scanRBrace_def scanDot_def scanQuestion_def readTemplatePart_def
    Let_def docs_push stack_docs stack_docs_template cong: if_cong option.case_cong)

lemma scanToken_docs [simp]:
  "scanToken U line col (l\<lparr>l_Docs := d\<rparr>) = with_docs d (scanToken U line col l)"
  by (simp add: scanToken_def Let_def regexAllowed_def readTemplateHead_def readString_def readIdent_def
    readPrivateName_def docs_push cong: if_cong prod.case_cong)

section \<open>One token\<close>

lemma skipWhitespace_docs: "skipWhitespace (l\<lparr>l_Docs := d\<rparr>) = (skipWhitespace l)\<lparr>l_Docs := d\<rparr>"
proof (induction l rule: skipWhitespace.induct)
  case (1 l)
  then show ?case by (subst (1 2) skipWhitespace.simps) (auto simp: skip_docs)
qed

lemma skipLineComment_docs: "skipLineComment (l\<lparr>l_Docs := d\<rparr>) = (skipLineComment l)\<lparr>l_Docs := d\<rparr>"
proof (induction l rule: skipLineComment.induct)
  case (1 l)
  then show ?case by (subst (1 2) skipLineComment.simps) (auto simp: skip_docs)
qed

lemma blockComment_docs [simp]: "blockComment buf (l\<lparr>l_Docs := d\<rparr>) = with_docs d (blockComment buf l)"
proof (induction buf l rule: blockComment.induct)
  case (1 buf l)
  then show ?case
    by (subst (1 2) blockComment.simps) (auto simp: docs_push split: prod.split)
qed

text \<open>Two states that differ in the comments collected, and in the start of the current
  token, which the next scan sets.\<close>

definition core :: "lexer \<Rightarrow> lexer" where
  "core l = l\<lparr>l_Docs := Map.empty, l_startPos := 0, l_startNL := False\<rparr>"

lemma core_eq: "core l = core m \<Longrightarrow>
  m = l\<lparr>l_Docs := l_Docs m, l_startPos := l_startPos m, l_startNL := l_startNL m\<rparr>"
  by (cases l, cases m) (simp add: core_def)

lemma startToken_docs: "startToken (l\<lparr>l_Docs := d\<rparr>) = (startToken l)\<lparr>l_Docs := d\<rparr>"
  by (simp add: startToken_def Let_def skipWhitespace_docs)

lemma skipBlockComment_docs:
  "\<exists>d'. skipBlockComment (l\<lparr>l_Docs := d\<rparr>) = (skipBlockComment l)\<lparr>l_Docs := d'\<rparr>"
proof -
  have s: "skip (skip (l\<lparr>l_Docs := d\<rparr>)) = (skip (skip l))\<lparr>l_Docs := d\<rparr>" by (simp add: skip_docs)
  obtain l' where l': "skip (skip l) = l'" by blast
  obtain x m where b: "blockComment '''' l' = (x, m)" by fastforce
  obtain y k where c: "blockComment '''' (skip l') = (y, k)" by fastforce
  show ?thesis
  proof (cases "peek l' = ord (CHR ''*'')")
    case True
    then show ?thesis unfolding skipBlockComment_def s l'
      by (auto simp: Let_def skip_docs c intro: exI)
  next
    case False
    then show ?thesis unfolding skipBlockComment_def s l'
      by (auto simp: Let_def b intro: exI)
  qed
qed

lemma nextToken_docs: "\<exists>d'. nextToken U (l\<lparr>l_Docs := d\<rparr>) = with_docs d' (nextToken U l)"
proof (induction U l arbitrary: d rule: nextToken.induct)
  case (1 U l)
  define m where "m = startToken l"
  have m': "startToken (l\<lparr>l_Docs := d\<rparr>) = m\<lparr>l_Docs := d\<rparr>" by (simp add: m_def startToken_docs)
  consider (eof) "\<not> more m"
    | (line) "more m" "peek m = ord (CHR ''/'') \<and> peekAt 1 m = ord (CHR ''/'')"
    | (block) "more m" "\<not> (peek m = ord (CHR ''/'') \<and> peekAt 1 m = ord (CHR ''/''))"
        "peek m = ord (CHR ''/'') \<and> peekAt 1 m = ord (CHR ''*'')"
    | (tok) "more m" "\<not> (peek m = ord (CHR ''/'') \<and> peekAt 1 m = ord (CHR ''/''))"
        "\<not> (peek m = ord (CHR ''/'') \<and> peekAt 1 m = ord (CHR ''*''))" by blast
  then show ?case
  proof cases
    case eof
    then show ?thesis
      unfolding nextToken_code [of _ "l\<lparr>l_Docs := d\<rparr>"] nextToken_code [of _ l] m' m_def [symmetric]
        nextTokenFrom_def
      by (auto intro: exI [of _ d])
  next
    case line
    then show ?thesis
      unfolding nextToken_code [of _ "l\<lparr>l_Docs := d\<rparr>"] nextToken_code [of _ l] m' m_def [symmetric]
        nextTokenFrom_def
      using 1(1) [OF m_def, of d] by (simp add: skipLineComment_docs)
  next
    case block
    obtain d1 where "skipBlockComment (m\<lparr>l_Docs := d\<rparr>) = (skipBlockComment m)\<lparr>l_Docs := d1\<rparr>"
      using skipBlockComment_docs by blast
    then show ?thesis
      unfolding nextToken_code [of _ "l\<lparr>l_Docs := d\<rparr>"] nextToken_code [of _ l] m' m_def [symmetric]
        nextTokenFrom_def
      using 1(2) [OF m_def, of d1] block by simp
  next
    case tok
    then show ?thesis
      unfolding nextToken_code [of _ "l\<lparr>l_Docs := d\<rparr>"] nextToken_code [of _ l] m' m_def [symmetric]
        nextTokenFrom_def
      by (auto intro: exI [of _ d])
  qed
qed

lemma startToken_start_update:
  "startToken (l\<lparr>l_startPos := i, l_startNL := b\<rparr>) = startToken l"
proof -
  have "skipWhitespace (l\<lparr>l_startPos := i, l_startNL := b\<rparr>) = (skipWhitespace l)\<lparr>l_startPos := i, l_startNL := b\<rparr>"
  proof (induction l rule: skipWhitespace.induct)
    case (1 l)
    have "skip (l\<lparr>l_startPos := i, l_startNL := b\<rparr>) = (skip l)\<lparr>l_startPos := i, l_startNL := b\<rparr>"
      by (simp add: advance_def Let_def)
    with 1 show ?case
      by (subst (1 2) skipWhitespace.simps) (auto simp: peek_def)
  qed
  then show ?thesis by (simp add: startToken_def Let_def)
qed

lemma nextToken_core:
  assumes "core l = core m"
  shows "\<exists>d. nextToken U m = with_docs d (nextToken U l)"
proof -
  have "startToken m = startToken (l\<lparr>l_Docs := l_Docs m\<rparr>)"
    by (subst core_eq [OF assms])
      (metis startToken_start_update)
  then have "nextToken U m = nextToken U (l\<lparr>l_Docs := l_Docs m\<rparr>)"
    by (simp add: nextToken_code)
  then show ?thesis using nextToken_docs by metis
qed

section \<open>Rewinding\<close>

lemma Scan_core:
  assumes "core l = core m"
  shows "fst (Scan U mode m) = fst (Scan U mode l) \<and> core (snd (Scan U mode m)) = core (snd (Scan U mode l))"
proof -
  have "core (scan_from l mode) = core (scan_from m mode)"
    using assms by (cases l, cases m) (simp add: core_def scan_from_def)
  then obtain d where d: "nextToken U (scan_from m mode) = with_docs d (nextToken U (scan_from l mode))"
    using nextToken_core by blast
  obtain r l1 where r: "nextToken U (scan_from l mode) = (r, l1)" by fastforce
  show ?thesis
    using d by (cases r) (simp_all add: Scan_def NextToken_def scan_from_def [symmetric] r core_def)
qed

lemma scan_all_core: "core l = core m \<Longrightarrow> scan_all U n m = scan_all U n l"
proof (induction n arbitrary: l m)
  case (Suc n)
  note s = Scan_core [OF Suc.prems, of U ScanDefault]
  have "scan_all U n (snd (Scan U ScanDefault m)) = scan_all U n (snd (Scan U ScanDefault l))"
    by (rule Suc.IH) (use s in simp)
  then show ?case using s by (simp only: scan_all.simps case_prod_beta)
qed simp

lemma rewind_core:
  assumes "lexer_inv src l0" and "lexer_inv src l"
  shows "core (Rewind (Mark l0) l) = core l0"
proof -
  have "l_src l0 = l_src l" "l_offs l0 = l_offs l" "l_mode l0 = l_mode l"
    using assms by (simp_all add: lexer_inv_def)
  then show ?thesis
    by (intro lexer.equality) (simp_all add: core_def Rewind_def Mark_def)
qed

end
