(* ===== verification/LexerBraces.thy ===== *)
theory LexerBraces
  imports LexerScanFacts
begin

text \<open>
  The template stack: which tokens push, pop and count on it. Every other scanner leaves
  it alone.
\<close>

section \<open>Scanners that leave the stack alone\<close>

abbreviation stk :: "'a \<times> lexer \<Rightarrow> nat list" where
  "stk r \<equiv> l_templateStack (snd r)"

lemma stk_case: "stk (case r of (x, l) \<Rightarrow> g x l) = (case r of (x, l) \<Rightarrow> stk (g x l))"
  by (cases r) simp

lemma stk_bind:
  assumes "stk r = ts" and "\<And>x l'. l_templateStack l' = ts \<Longrightarrow> stk (g x l') = ts"
  shows "stk (case r of (x, l') \<Rightarrow> g x l') = ts"
  using assms by (cases r) auto

lemma fail_stk [simp]: "stk (fail U line col m args l) = l_templateStack l"
  by (simp add: fail_def)

lemma tok_stk [simp]: "stk (tok k s line col l) = l_templateStack l"
  by (simp add: tok_def Let_def)

lemma give_stk [simp]: "stk (give k s line col l) = l_templateStack l"
  by (simp add: give_def case_prod_beta)

lemma scanWhile_stk [simp]: "stk (scanWhile P buf l) = l_templateStack l"
proof (induction P buf l rule: scanWhile.induct)
  case (1 P buf l)
  then show ?case
    by (subst scanWhile.simps) (cases "advance l"; use advance_src(4) [of l] in simp)
qed

lemma readDigitRun_stk [simp]: "stk (readDigitRun U D line col w buf l) = l_templateStack l"
proof (induction U D line col w buf l rule: readDigitRun.induct)
  case (1 U D line col w buf l)
  then show ?case
    by (subst readDigitRun.simps) (cases "advance l"; use advance_src(4) [of l] in \<open>simp add: Let_def\<close>)
qed

lemma decimalDigits_stk [simp]: "stk (decimalDigits U z line col h w buf l) = l_templateStack l"
proof (induction U z line col h w buf l rule: decimalDigits.induct)
  case (1 U z line col h w buf l)
  then show ?case
    by (subst decimalDigits.simps) (cases "advance l"; use advance_src(4) [of l] in \<open>simp add: Let_def\<close>)
qed

lemma readPrefixed_stk [simp]: "stk (readPrefixed U D line col l) = l_templateStack l"
  by (simp add: readPrefixed_def case_prod_beta split: sum.split)

lemma readExponent_stk [simp]: "stk (readExponent U line col buf l) = l_templateStack l"
  by (simp add: readExponent_def case_prod_beta Let_def split: sum.split)

lemma readDecimal_stk [simp]: "stk (readDecimal U line col l) = l_templateStack l"
proof -
  define z where "z = (peek l = ord (CHR ''0'')
    \<and> ((ord (CHR ''0'') \<le> peekAt 1 l \<and> peekAt 1 l \<le> ord (CHR ''9'')) \<or> peekAt 1 l = ord (CHR ''_'')))"
  obtain r m where d: "decimalDigits U z line col False False '''' l = (r, m)" by fastforce
  have m: "l_templateStack m = l_templateStack l"
    using decimalDigits_stk [of U z line col False False "''''" l] d by simp
  show ?thesis
  proof (cases r)
    case (Inr p)
    obtain h b where p: "p = (h, b)" by fastforce
    obtain r' m' where x: "readExponent U line col b m = (r', m')" by fastforce
    have "l_templateStack m' = l_templateStack l"
      using readExponent_stk [of U line col b m] x m by simp
    then show ?thesis
      unfolding readDecimal_def Let_def z_def [symmetric] d
      by (simp add: Inr p x split: sum.split)
  next
    case (Inl e)
    then show ?thesis
      unfolding readDecimal_def Let_def z_def [symmetric] d by (simp add: m)
  qed
qed

lemma readNumberBody_stk [simp]: "stk (readNumberBody U line col l) = l_templateStack l"
  by (simp add: readNumberBody_def Let_def)

lemma readNumber_stk [simp]: "stk (readNumber U line col l) = l_templateStack l"
  by (simp add: readNumber_def case_prod_beta Let_def split: sum.split)

lemma hexDigits_stk [simp]: "stk (hexDigits n v l) = l_templateStack l"
  by (induction n v l rule: hexDigits.induct) (auto split: option.split)

lemma octalDigits_stk [simp]: "stk (octalDigits n v l) = l_templateStack l"
  by (induction n v l rule: octalDigits.induct) (auto simp: case_prod_beta)

lemma codePoint_stk [simp]: "stk (codePoint U line col v n l) = l_templateStack l"
proof (induction U line col v n l rule: codePoint.induct)
  case (1 U line col v n l)
  then show ?case
    by (subst codePoint.simps) (auto simp: Let_def split: option.split)
qed

lemma scanStringEscape_stk [simp]: "stk (scanStringEscape U buf line col l) = l_templateStack l"
  by (simp add: scanStringEscape_def octalEscape_def fixedEscape_def bracedEscape_def readHexEscape_def
      case_prod_beta Let_def split: sum.split option.split)

lemma readStringBody_stk [simp]: "stk (readStringBody U q line col buf l) = l_templateStack l"
proof (induction U q line col buf l rule: readStringBody.induct)
  case (1 U q line col buf l)
  obtain r m where e: "scanStringEscape U buf line col (skip l) = (r, m)" by fastforce
  then have "l_templateStack m = l_templateStack l"
    using scanStringEscape_stk [of U buf line col "skip l"] by simp
  then show ?case using 1 e
    by (subst readStringBody.simps)
      (cases "advance l"; use advance_src(4) [of l] in \<open>auto simp: Let_def split: sum.split\<close>)
qed

lemma regexBody_stk [simp]: "stk (regexBody U line col b p l) = l_templateStack l"
proof (induction U line col b p l rule: regexBody.induct)
  case (1 U line col b p l)
  obtain r m where e: "advance l = (r, m)" by fastforce
  obtain r' m' where e': "advance m = (r', m')" by fastforce
  have "l_templateStack m = l_templateStack l" "l_templateStack m' = l_templateStack l"
    using advance_src(4) [of l] advance_src(4) [of m] e e' by simp_all
  then show ?case using 1 e e'
    by (subst regexBody.simps) (auto simp: Let_def)
qed

lemma readRegex_stk [simp]: "stk (readRegex U line col l) = l_templateStack l"
  by (simp add: readRegex_def case_prod_beta split: sum.split)

lemma templateBody_stk [simp]: "stk (templateBody U i buf l) = l_templateStack l"
proof (induction U i buf l rule: templateBody.induct)
  case (1 U i buf l)
  obtain r m where e: "scanStringEscape U buf (l_line (skip l)) (l_col (skip l)) (skip l) = (r, m)"
    by fastforce
  then have "l_templateStack m = l_templateStack l"
    using scanStringEscape_stk [of U buf _ _ "skip l"] by (metis advance_src(4) snd_conv)
  then show ?case using 1 e
    by (subst templateBody.simps)
      (cases "advance l"; use advance_src(4) [of l] in \<open>auto simp: Let_def split: sum.split\<close>)
qed

section \<open>The tokens\<close>

definition brace_types :: "TokenType set" where
  "brace_types = {TEMPLATE_HEAD, TEMPLATE_MIDDLE, TEMPLATE_TAIL, LBRACE, RBRACE}"

text \<open>What a token does to the stack.\<close>

definition stack_step :: "TokenType \<Rightarrow> nat list \<Rightarrow> nat list option" where
  "stack_step k ts =
    (if k = TEMPLATE_HEAD then Some (ts @ [0])
     else if k = TEMPLATE_MIDDLE then (if ts \<noteq> [] \<and> last ts = 0 then Some ts else None)
     else if k = TEMPLATE_TAIL then (if ts \<noteq> [] \<and> last ts = 0 then Some (butlast ts) else None)
     else if k = LBRACE then Some (if ts = [] then [] else butlast ts @ [last ts + 1])
     else if k = RBRACE then
       (if ts = [] then Some [] else if last ts = 0 then None else Some (butlast ts @ [last ts - 1]))
     else Some ts)"

definition stack_ok :: "nat list \<Rightarrow> scanned \<Rightarrow> bool" where
  "stack_ok ts r \<longleftrightarrow> (case r of (Inr t, l) \<Rightarrow> stack_step (t_Type t) ts = Some (l_templateStack l) | _ \<Rightarrow> True)"

lemma stack_ok_give [simp]:
  "stack_ok ts (give k s line col l) = (stack_step k ts = Some (l_templateStack l))"
proof -
  obtain t l' where t: "tok k s line col l = (t, l')" by fastforce
  show ?thesis using tok_fields(1,10) [OF t] by (simp add: stack_ok_def give_def t)
qed

lemma stack_ok_fail [simp]: "stack_ok ts (fail U line col m args l)"
  by (simp add: stack_ok_def fail_def)

lemma stack_ok_bind:
  assumes "\<And>x l'. r = (Inr x, l') \<Longrightarrow> stack_ok ts (g x l')"
  shows "stack_ok ts (case r of (Inl e, l') \<Rightarrow> (Inl e, l') | (Inr x, l') \<Rightarrow> g x l')"
  using assms by (cases r) (auto simp: stack_ok_def split: sum.splits)

lemma stack_step_plain: "k \<notin> brace_types \<Longrightarrow> stack_step k ts = Some ts"
  by (simp add: stack_step_def brace_types_def)

lemma stack_ok_tok:
  assumes "tok k s line col l = (t, l')" and "stack_step k ts = Some (l_templateStack l)"
  shows "stack_step (t_Type t) ts = Some (l_templateStack l')"
  using assms tok_fields(1,10) [OF assms(1)] by simp

text \<open>A scanner whose tokens are none of the five, and that leaves the stack alone.\<close>

definition plain :: "scanned \<Rightarrow> bool" where
  "plain r \<longleftrightarrow> (case fst r of Inr t \<Rightarrow> t_Type t \<notin> brace_types | Inl _ \<Rightarrow> True)"

lemma plain_stack_ok: "plain r \<Longrightarrow> stk r = ts \<Longrightarrow> stack_ok ts r"
  by (auto simp: plain_def stack_ok_def stack_step_plain split: prod.splits sum.splits)

lemma plain_give [simp]: "plain (give k s line col l) = (k \<notin> brace_types)"
proof -
  obtain t l' where t: "tok k s line col l = (t, l')" by fastforce
  show ?thesis using tok_fields(1) [OF t] by (simp add: plain_def give_def t)
qed

lemma plain_fail [simp]: "plain (fail U line col m args l)"
  by (simp add: plain_def fail_def)

lemma plain_bind:
  assumes "\<And>x l'. r = (Inr x, l') \<Longrightarrow> plain (g x l')"
  shows "plain (case r of (Inl e, l') \<Rightarrow> (Inl e, l') | (Inr x, l') \<Rightarrow> g x l')"
  using assms by (cases r) (auto simp: plain_def split: sum.splits)

lemma plain_step:
  "(\<And>c l'. f l = (c, l') \<Longrightarrow> plain (g c l')) \<Longrightarrow> plain (case f l of (c, l') \<Rightarrow> g c l')"
  by (cases "f l") simp

lemma plain_types [simp]:
  "NUMBER \<notin> brace_types" "BIGINT \<notin> brace_types" "STRING \<notin> brace_types" "REGEX \<notin> brace_types"
  "PRIVATE_NAME \<notin> brace_types" "EOF \<notin> brace_types"
  by (simp_all add: brace_types_def)

lemma LookupIdent_plain [simp]: "LookupIdent s \<notin> brace_types"
  using LookupIdent_cases [of s] by (auto simp: keyword_table_def brace_types_def)

lemma readNumber_plain: "plain (readNumber U line col l)"
proof -
  have "plain (readPrefixed U D line col l)" for D
    unfolding readPrefixed_def by (rule plain_step, rule plain_step, rule plain_bind) simp
  moreover have "plain (readDecimal U line col l)"
    unfolding readDecimal_def Let_def
    by (rule plain_bind, simp only: split_paired_all prod.case, rule plain_bind,
        simp only: split_paired_all prod.case) simp
  ultimately have "plain (readNumberBody U line col l)"
    by (simp add: readNumberBody_def Let_def)
  then show ?thesis
    by (auto simp: readNumber_def Let_def plain_def fail_def split: prod.splits sum.splits)
qed

lemma readStringBody_plain: "plain (readStringBody U q line col buf l)"
proof (induction U q line col buf l rule: readStringBody.induct)
  case (1 U q line col buf l)
  have "plain (case scanStringEscape U buf line col (skip l) of
      (Inl e, l') \<Rightarrow> (Inl e, l') | (Inr buf', l') \<Rightarrow> readStringBody U q line col buf' l')"
    if "more l" "peek l \<noteq> q" "peek l = ord (CHR 0x5C)"
    by (rule plain_bind) (use 1(1) [OF that(1) refl that(2,3)] in auto)
  then show ?case
    using 1 by (subst readStringBody.simps) (auto simp: Let_def intro!: plain_step)
qed

lemma readRegex_plain: "plain (readRegex U line col l)"
proof -
  have "plain (case tok REGEX p line col l' of (t, l') \<Rightarrow> (Inr (t\<lparr>t_RegexFlags := fs\<rparr>), l'))" for p fs l'
  proof -
    obtain t m where t: "tok REGEX p line col l' = (t, m)" by fastforce
    show ?thesis using tok_fields(1) [OF t] by (simp add: t plain_def)
  qed
  then show ?thesis
    unfolding readRegex_def by (intro plain_bind plain_step) simp
qed

lemma templateToken_stack_ok:
  assumes "stack_step closed ts = Some (l_templateStack l)"
    and "stack_step open ts = Some (l_templateStack l @ [0])"
  shows "stack_ok ts (templateToken U closed open line col l)"
proof -
  have s: "readTemplateSegment U l = (Inr x, l') \<Longrightarrow> l_templateStack l' = l_templateStack l" for x l'
    using templateBody_stk [of U "l_pos l" "''''" l] by (simp add: readTemplateSegment_def)
  have e: "stack_ok ts (case tok k seg line col m of (t, l) \<Rightarrow> (Inr (t\<lparr>t_Raw := raw\<rparr>), l))"
    if "stack_step k ts = Some (l_templateStack m)" for k seg raw m
  proof -
    obtain t m' where t: "tok k seg line col m = (t, m')" by fastforce
    show ?thesis using stack_ok_tok [OF t that] by (simp add: t stack_ok_def)
  qed
  show ?thesis
    unfolding templateToken_def
    by (rule stack_ok_bind, simp only: split_paired_all prod.case) (auto intro!: e simp: assms dest: s)
qed

text \<open>Braces and template parts: the stack moves as the token says.\<close>

lemma scanPunct_stack_ok: "stack_ok (l_templateStack l) (scanPunct U ch line col l)"
proof -
  have single: "map_of singleTokens ch = Some (k, lit) \<Longrightarrow> k \<notin> brace_types" for k lit
    by (auto simp: singleTokens_def brace_types_def split: if_splits)
  have rbrace: "stack_ok (l_templateStack l) (scanRBrace U line col l)"
  proof (cases "l_templateStack l" rule: rev_cases)
    case Nil
    then show ?thesis by (simp add: scanRBrace_def stack_step_def)
  next
    case (snoc ts d)
    then show ?thesis
      by (auto simp: scanRBrace_def Let_def readTemplatePart_def stack_step_def
          intro!: templateToken_stack_ok)
  qed
  have lbrace: "stack_ok (l_templateStack l) (scanLBrace line col l)"
    by (simp add: scanLBrace_def Let_def stack_step_def)
  show ?thesis
    unfolding scanPunct_def
    by (simp add: rbrace lbrace stack_step_plain single split: option.split)
      (simp add: scanPlus_def scanMinus_def scanStar_def scanSlash_def scanPercent_def scanEquals_def
        scanBang_def scanLess_def scanGreater_def scanAmpersand_def scanBar_def scanCaret_def
        scanDot_def scanQuestion_def Let_def stack_step_def)
qed

lemma scanToken_stack_ok: "stack_ok (l_templateStack l) (scanToken U line col l)"
proof -
  have str: "stack_ok (l_templateStack l) (readString U line col l)"
    by (rule plain_stack_ok) (simp_all add: readString_def case_prod_beta readStringBody_plain)
  have id: "stack_ok (l_templateStack l) (readIdent U line col l)"
    by (rule plain_stack_ok) (simp_all add: readIdent_def case_prod_beta)
  have priv: "stack_ok (l_templateStack l) (readPrivateName U line col l)"
    by (rule plain_stack_ok) (simp_all add: readPrivateName_def case_prod_beta)
  have num: "stack_ok (l_templateStack l) (readNumber U line col l)"
    by (rule plain_stack_ok) (simp_all add: readNumber_plain)
  have regex: "stack_ok (l_templateStack l) (readRegex U line col l)"
    by (rule plain_stack_ok) (simp_all add: readRegex_plain)
  have tmpl: "stack_ok (l_templateStack l) (readTemplateHead U line col l)"
    unfolding readTemplateHead_def by (rule templateToken_stack_ok) (simp_all add: stack_step_def)
  show ?thesis
    using str id priv num regex tmpl scanPunct_stack_ok [of "skip l"]
    by (simp add: scanToken_def Let_def)
qed

lemma skipWhitespace_stk [simp]: "l_templateStack (skipWhitespace l) = l_templateStack l"
  by (induction l rule: skipWhitespace.induct) (subst skipWhitespace.simps, simp)

lemma skipLineComment_stk [simp]: "l_templateStack (skipLineComment l) = l_templateStack l"
  by (induction l rule: skipLineComment.induct) (subst skipLineComment.simps, simp)

lemma blockComment_stk [simp]: "stk (blockComment buf l) = l_templateStack l"
proof (induction buf l rule: blockComment.induct)
  case (1 buf l)
  then show ?case
    by (subst blockComment.simps) (cases "advance l"; use advance_src(4) [of l] in simp)
qed

lemma skipBlockComment_stk [simp]: "l_templateStack (skipBlockComment l) = l_templateStack l"
  by (simp add: skipBlockComment_def Let_def case_prod_beta)

lemma startToken_stk [simp]: "l_templateStack (startToken l) = l_templateStack l"
  by (simp add: startToken_def Let_def)

lemma nextToken_stack_ok: "stack_ok (l_templateStack l) (nextToken U l)"
proof (induction U l rule: nextToken.induct)
  case (1 U l)
  show ?case
    using 1(1) [OF refl] 1(2) [OF refl] scanToken_stack_ok [of "startToken l"]
    by (subst nextToken.simps) (simp add: Let_def stack_step_plain)
qed

end
