(* ===== verification/LexerProps.thy ===== *)
theory LexerProps
  imports LexerPos LexerPunct LexerBlind LexerBraces
begin

text \<open>
  The properties of the scanner: its state, termination, spans, positions and the
  functional behaviour of its tokens.
\<close>

section \<open>State, termination, spans and positions\<close>

text \<open>C1. In every state a client reaches by scanning in any mode and rewinding to marks, the
  position and the token start are in the source, both index the table of byte offsets, and
  the line and column are those of the text consumed so far.\<close>

theorem reachable_state_safe:
  assumes "reach U src l"
  shows "l_src l = runes_of src \<and> l_pos l \<le> length (l_src l)
    \<and> l_pos l < length (l_offs l) \<and> l_startPos l < length (l_offs l)
    \<and> linecol (take (l_pos l) (runes_of src)) = (l_line l, l_col l)"
  using reach_inv [OF assms] by (simp add: lexer_inv_def)

theorem reachable_state_safe_witness:
  "l_pos (Rewind (Mark (New ''a b'')) (snd (Scan latin1_tables ScanDefault (New ''a b'')))) \<le> 3"
proof -
  have "reach latin1_tables ''a b''
      (Rewind (Mark (New ''a b'')) (snd (Scan latin1_tables ScanDefault (New ''a b''))))"
    by (intro reach.intros)
  from reachable_state_safe [OF this] show ?thesis
    by (simp add: runes_of_def) (simp add: Rewind_def Mark_def New_def)
qed

text \<open>C2. Scanning a source ends: a loop over \<open>Scan\<close> from \<open>New\<close> reads an \<open>EOF\<close> after at most
  as many tokens as the source has characters, and no token before it is \<open>EOF\<close>.\<close>

theorem scanning_ends:
  assumes "length (runes_of src) < n"
  shows "\<exists>ts t. scan_all U n (New src) = ts @ [t] \<and> t_Type t = EOF
    \<and> (\<forall>x \<in> set ts. t_Type x \<noteq> EOF) \<and> length ts \<le> length (runes_of src)"
  using scan_all_ends [of "New src" n U] assms by (simp add: New_def remaining_def)

theorem scanning_ends_witness:
  "\<exists>ts t. scan_all latin1_tables 4 (New ''a+b'') = ts @ [t] \<and> t_Type t = EOF
    \<and> (\<forall>x \<in> set ts. t_Type x \<noteq> EOF) \<and> length ts \<le> 3"
proof -
  have "length (runes_of ''a+b'') = 3" by code_simp
  then show ?thesis using scanning_ends [of "''a+b''" 4 latin1_tables] by simp
qed

text \<open>C3. The tokens of a source are ordered and disjoint: each ends before the next begins,
  within the source, and every token but \<open>EOF\<close>, an error's included, spans at least a byte.\<close>

theorem token_spans_ordered:
  "sorted_wrt (\<lambda>a b. t_End a \<le> t_Pos b) (scan_all U n (New src))
   \<and> (\<forall>t \<in> set (scan_all U n (New src)).
        t_Pos t \<le> t_End t \<and> t_End t \<le> length src \<and> (t_Type t = EOF \<or> t_Pos t < t_End t))"
  using scan_all_spans [OF lexer_inv_New, of U n src] by blast

theorem token_spans_ordered_witness:
  "sorted_wrt (\<lambda>a b. t_End a \<le> t_Pos b) (scan_all latin1_tables 3 (New ''a b''))"
  using token_spans_ordered [of latin1_tables 3 "''a b''"] by blast

text \<open>C4. A token's line and column and its byte position say the same place: both
  \<open>Offset\<close> of the scanner and \<open>diag.Offsets\<close> of the source map the one to the other.\<close>

theorem token_position_agrees:
  assumes "reach U src l" and "Scan U mode l = (t, l')" and "t_Err t = None"
  shows "Offset (int (t_Line t)) (int (t_Col t)) l' = t_Pos t
    \<and> Offsets src (int (t_Line t)) (int (t_Col t)) = int (t_Pos t)"
proof -
  note inv = reach_inv [OF assms(1)] and post = Scan_postE [OF assms(2), unfolded scan_post_def]
  have inv': "lexer_inv src l'"
    using lexer_inv_Scan [OF inv, of U mode] assms(2) by simp
  have lc: "linecol (take (l_startPos l') (runes_of src)) = (t_Line t, t_Col t)"
    using post assms(3) lexer_inv_linecol [OF inv] inv by (simp add: lexer_inv_def)
  have le: "l_startPos l' \<le> length (runes_of src)" and src': "l_src l' = runes_of src"
    and offs': "l_offs l' = rune_offsets src @ [length src]"
    using inv' by (simp_all add: lexer_inv_def)
  show ?thesis
    using Offset_linecol [of "l_startPos l'" l'] Offsets_linecol [OF le lc] lc le post src' offs'
    by (simp add: inv [unfolded lexer_inv_def])
qed

theorem token_position_agrees_witness:
  "Offset 2 1 (snd (Scan latin1_tables ScanDefault (New [CHR 0x0A, CHR ''x'']))) = 1
   \<and> Offsets [CHR 0x0A, CHR ''x''] 2 1 = 1"
proof -
  obtain t l' where s: "Scan latin1_tables ScanDefault (New [CHR 0x0A, CHR ''x'']) = (t, l')"
    by fastforce
  have "map (\<lambda>t. (t_Line t, t_Col t, t_Pos t, t_Err t = None))
      [fst (Scan latin1_tables ScanDefault (New [CHR 0x0A, CHR ''x'']))] = [(2, 1, 1, True)]"
    by code_simp
  then show ?thesis
    using token_position_agrees [OF reach_New s] by (simp add: s)
qed

text \<open>C5. The line break that automatic semicolon insertion and the restricted productions
  look at: a token has it exactly when a line terminator lies between the position the scan
  started from and the token's first character, comments included.\<close>

theorem preceding_line_break_exact:
  assumes "Scan U mode l = (t, l')" and "t_Err t = None"
  shows "HasPrecedingLineBreak t
    = (\<exists>i < length (l_src l). l_pos l \<le> i \<and> i < l_startPos l' \<and> isLineTerminator (l_src l ! i))"
  using Scan_postE [OF assms(1)] assms(2) by (simp add: scan_post_def nl_in_def)

theorem preceding_line_break_exact_witness:
  "HasPrecedingLineBreak (fst (Scan latin1_tables ScanDefault (New [CHR 0x0A, CHR ''x''])))"
proof -
  let ?l = "New [CHR 0x0A, CHR ''x'']"
  obtain t l' where s: "Scan latin1_tables ScanDefault ?l = (t, l')" by fastforce
  have "map (\<lambda>t. (t_Err t = None, t_Pos t)) [fst (Scan latin1_tables ScanDefault ?l)] = [(True, 1)]"
    by code_simp
  then have e: "t_Err t = None" and tp: "t_Pos t = 1" by (simp_all add: s)
  have src: "l_src ?l = [10, 120]" and pos: "l_pos ?l = 0" and offs: "l_offs ?l = [0, 1, 2]"
    by code_simp+
  have "t_Pos t = l_offs ?l ! l_startPos l'"
    using Scan_postE [OF s] by (simp add: scan_post_def)
  then have "l_startPos l' \<noteq> 0"
    using tp offs by (intro notI) simp
  then have "HasPrecedingLineBreak t"
    unfolding preceding_line_break_exact [OF s e] src pos
    by (intro exI [of _ 0]) (simp add: isLineTerminator_def)
  then show ?thesis by (simp add: s)
qed

section \<open>Rewinding and nesting\<close>

text \<open>C6. Rewinding is exact: from a state rewound to a mark, the scanner reads the very tokens
  it read from the marked state, however far it had got and whatever it scanned in between.
  This is what the parser's speculation rests on.\<close>

theorem rewind_replays:
  assumes "reach U src l0" and "reach U src l"
  shows "fst (Scan U mode (Rewind (Mark l0) l)) = fst (Scan U mode l0)
    \<and> scan_all U n (Rewind (Mark l0) l) = scan_all U n l0"
proof -
  have c: "core l0 = core (Rewind (Mark l0) l)"
    using rewind_core reach_inv assms by metis
  show ?thesis using Scan_core [OF c, of U mode] scan_all_core [OF c] by simp
qed

theorem rewind_replays_witness:
  "t_Literal (fst (Scan latin1_tables ScanDefault
      (Rewind (Mark (New ''ab c'')) (snd (Scan latin1_tables ScanDefault (New ''ab c'')))))) = ''ab''"
proof -
  have "t_Literal (fst (Scan latin1_tables ScanDefault (New ''ab c''))) = ''ab''" by code_simp
  then show ?thesis
    using rewind_replays [where U = latin1_tables and src = "''ab c''" and mode = ScanDefault,
      OF reach_New reach_Scan [OF reach_New, of _ _ ScanDefault]] by simp
qed

text \<open>C7. Templates and braces form a pushdown automaton over the token types: a head pushes a
  counter, braces count in the innermost one, a closing brace at zero is a middle (which
  leaves the stack) or a tail (which pops it), and no other token touches the stack.\<close>

theorem template_stack_discipline:
  assumes "Scan U mode l = (t, l')" and "t_Err t = None"
  shows "stack_step (t_Type t) (l_templateStack l) = Some (l_templateStack l')"
  using nextToken_stack_ok [of "scan_from l mode" U] assms
  by (cases rule: Scan_cases [of U l mode]) (auto simp: stack_ok_def scan_from_def)

theorem template_stack_discipline_witness:
  "l_templateStack (snd (Scan latin1_tables ScanDefault (New [CHR 0x60, CHR ''$'', CHR ''{'']))) = [0]"
proof -
  let ?l = "New [CHR 0x60, CHR ''$'', CHR ''{'']"
  obtain t l' where s: "Scan latin1_tables ScanDefault ?l = (t, l')" by fastforce
  have "map (\<lambda>t. (t_Err t = None, t_Type t)) [fst (Scan latin1_tables ScanDefault ?l)]
      = [(True, TEMPLATE_HEAD)]" by code_simp
  then have "t_Err t = None" "t_Type t = TEMPLATE_HEAD" by (simp_all add: s)
  moreover have "l_templateStack ?l = []" by code_simp
  ultimately show ?thesis
    using template_stack_discipline [OF s] by (simp add: s stack_step_def)
qed

section \<open>The tokens' texts\<close>

text \<open>C8. A punctuator is the longest one of the language's table that the text starts with: the
  token has its type and spelling, spans exactly it, and no longer entry of the table is a
  prefix of the text. Outside the gluing mode \<open>>\<close> stays alone.\<close>

theorem punctuator_longest_match:
  assumes "rest l = c # r" and "l_templateStack l = []"
    and "scanPunct U c line col (skip l) = (Inr t, l')"
  shows "(t_Literal t, t_Type t) \<in> set (punct_at (l_mode l) c)
    \<and> prefix (map ord (t_Literal t)) (rest l) \<and> l_pos l' = l_pos l + length (t_Literal t)
    \<and> (\<forall>p \<in> set (punct_at (l_mode l) c). prefix (map ord (fst p)) (rest l)
          \<longrightarrow> length (fst p) \<le> length (t_Literal t))"
proof -
  have c: "peek l = c" using rest_Cons [OF assms(1)] by simp
  have e: "scanPunct_spec U line col l = (Inr t, l')"
    using scanPunct_munch [OF assms(1,2)] assms(3) by simp
  then obtain s k where m: "munch (punct_at (l_mode l) c) (rest l) = Some (s, k)"
      and g: "give k s line col ((skip ^^ length s) l) = (Inr t, l')"
    by (auto simp: scanPunct_spec_def c fail_def split: option.splits)
  note longest = munch_longest [OF punct_at_longest_first m]
  then have "length s \<le> length (rest l)"
    using prefix_length_le by fastforce
  then show ?thesis
    using give_token [OF g] longest pos_skips by auto
qed

theorem punctuator_longest_match_witness:
  "\<exists>t. fst (scanPunct latin1_tables 61 1 1 (skip (New ''===a''))) = Inr t \<and> length (t_Literal t) \<ge> 3"
proof -
  have r: "rest (New ''===a'') = 61 # [61, 61, 97]" and ts: "l_templateStack (New ''===a'') = []"
    and m: "l_mode (New ''===a'') = ScanDefault"
    by code_simp+
  have "map (\<lambda>r. case r of Inr t \<Rightarrow> True | Inl _ \<Rightarrow> False)
      [fst (scanPunct latin1_tables 61 1 1 (skip (New ''===a'')))] = [True]" by code_simp
  then obtain t l' where s: "scanPunct latin1_tables 61 1 1 (skip (New ''===a'')) = (Inr t, l')"
    by (cases "scanPunct latin1_tables 61 1 1 (skip (New ''===a''))") (auto split: sum.splits)
  have "(''==='', STRICT_EQ) \<in> set (punct_at ScanDefault 61)" by code_simp
  moreover have "prefix (map ord ''==='') [61, 61, 61, 97]" by code_simp
  ultimately have "length ''==='' \<le> length (t_Literal t)"
    using punctuator_longest_match [OF r ts s] unfolding r m by (metis fst_conv)
  then show ?thesis by (intro exI [of _ t]) (simp only: s, simp)
qed

text \<open>A name is the longest run of name characters, and a keyword exactly when its whole
  spelling is one: its type is the keyword's, and the name of that type is the spelling.\<close>

theorem identifier_longest_run:
  "\<exists>t l'. readIdent U line col l = (Inr t, l')
    \<and> t_Literal t = encode_runes (takeWhile (identPart U) (rest l))
    \<and> rest l' = dropWhile (identPart U) (rest l) \<and> t_Type t = LookupIdent (t_Literal t)
    \<and> (t_Type t = IDENT \<longleftrightarrow> t_Literal t \<notin> fst ` set keyword_table)
    \<and> TokenType_String (t_Type t) = (if t_Type t = IDENT then ''IDENT'' else t_Literal t)"
proof -
  obtain l1 where l1: "scanWhile (identPart U) '''' l = (encode_runes (takeWhile (identPart U) (rest l)), l1)"
      "rest l1 = dropWhile (identPart U) (rest l)"
    using scanWhile_run [of "identPart U" "''''" l] by auto
  define lit where "lit = encode_runes (takeWhile (identPart U) (rest l))"
  obtain r l' where g: "give (LookupIdent lit) lit line col l1 = (r, l')" by fastforce
  obtain t where t: "r = Inr t" "t_Type t = LookupIdent lit" "t_Literal t = lit"
      "l' = l1\<lparr>l_pendingDoc := ''''\<rparr>"
    using give_token [OF g] by blast
  have "rest l' = rest l1" using t(4) by (simp add: rest_def)
  moreover have "readIdent U line col l = (Inr t, l')"
    using g t(1) l1(1) by (simp add: readIdent_def lit_def)
  moreover have "TokenType_String IDENT = ''IDENT''" by code_simp
  moreover have "TokenType_String (LookupIdent lit) = lit" if "LookupIdent lit \<noteq> IDENT"
    using LookupIdent_cases [of lit] keyword_names that by blast
  ultimately show ?thesis
    using l1(2) t(2,3) LookupIdent_IDENT [of lit]
    by (intro exI [of _ t] exI [of _ l']) (cases "LookupIdent lit = IDENT"; simp add: lit_def)
qed

text \<open>C10. A string literal reads back what was written: for every text, its characters escaped
  between two quotes are scanned to the text itself, up to the closing quote and no further.\<close>

theorem string_literal_roundtrip:
  assumes "q = 0x22 \<or> q = 0x27" and "rest l = q # concat (map (escape_char q) cs) @ q # after"
  shows "\<exists>t l'. readString U line col l = (Inr t, l') \<and> t_Type t = STRING
    \<and> t_Literal t = encode_runes cs \<and> rest l' = after"
proof -
  have q: "q \<in> {0x22, 0x27}" using assms(1) by blast
  note r = rest_Cons [OF assms(2)]
  obtain l1 where l1: "readStringBody U q line col '''' (skip l) = give STRING ('''' @ encode_runes cs) line col l1"
      "rest l1 = after"
    using readStringBody_roundtrip [OF q r(3)] by blast
  obtain x l' where g: "give STRING (encode_runes cs) line col l1 = (x, l')" by fastforce
  obtain t where "x = Inr t" "t_Type t = STRING" "t_Literal t = encode_runes cs"
      "l' = l1\<lparr>l_pendingDoc := ''''\<rparr>"
    using give_token [OF g] by blast
  then show ?thesis
    using g l1 r(4) by (intro exI [of _ t] exI [of _ l']) (simp add: readString_def case_prod_beta rest_def)
qed

theorem string_literal_roundtrip_witness:
  "\<exists>t l'. readString latin1_tables 1 1 (New [CHR 0x22, CHR ''a'', CHR 0x5C, CHR 0x22, CHR 0x22, CHR '';''])
      = (Inr t, l') \<and> t_Type t = STRING \<and> t_Literal t = [CHR ''a'', CHR 0x22] \<and> rest l' = [59]"
proof -
  have "rest (New [CHR 0x22, CHR ''a'', CHR 0x5C, CHR 0x22, CHR 0x22, CHR '';''])
      = 0x22 # concat (map (escape_char 0x22) [97, 0x22]) @ 0x22 # [59]" by code_simp
  moreover have "encode_runes [97, 0x22] = [CHR ''a'', CHR 0x22]" by code_simp
  ultimately show ?thesis
    using string_literal_roundtrip [of "0x22" _ "[97, 0x22]" "[59]" latin1_tables 1 1] by metis
qed

text \<open>A braced escape is its code point: digits up to the closing brace append the character
  of their hexadecimal value, and a value past the last code point is the error that says so,
  whatever follows.\<close>

theorem braced_escape_value:
  assumes "rest l = ord (CHR ''{'') # ds @ ord (CHR ''}'') # cs" and "ds \<noteq> []"
    and "list_all (\<lambda>d. hexDigitVal d \<noteq> None) ds"
  shows "if hex_value 0 ds \<le> 0x10FFFF
    then \<exists>l'. bracedEscape U buf line col l = (Inr (buf @ encode_rune (hex_value 0 ds)), l') \<and> rest l' = cs
    else \<exists>l' e. bracedEscape U buf line col l = (Inl e, l') \<and> d_Message e = CodePointOutOfRange"
proof -
  have r: "rest l = 123 # ds @ 0x7D # cs" using assms(1) by simp
  have r1: "rest (skip l) = ds @ 0x7D # cs" by (rule rest_Cons(3) [OF r])
  show ?thesis
  proof (cases "hex_value 0 ds \<le> 0x10FFFF")
    case True
    obtain l' where l': "codePoint U line col 0 0 (skip l) = (Inr (hex_value 0 ds, 0 + length ds), l')"
        "rest l' = 0x7D # cs"
      using codePoint_digits [OF r1 assms(3) True] by blast
    then show ?thesis
      using True assms(2) rest_Cons [OF l'(2)] by (simp add: bracedEscape_def)
  next
    case False
    then obtain l' where l': "codePoint U line col 0 0 (skip l) = fail U line col CodePointOutOfRange [] l'"
      using codePoint_overflow [OF r1 assms(3)] by fastforce
    then show ?thesis
      using False by (simp add: bracedEscape_def fail_def errAt_def New_diag_def)
  qed
qed

theorem braced_escape_value_witness:
  "\<exists>l'. bracedEscape latin1_tables '''' 1 1 (New ''{1f600}x'')
    = (Inr ([] @ encode_rune 0x1F600), l') \<and> rest l' = [120]"
proof -
  have r: "rest (New ''{1f600}x'') = ord (CHR ''{'') # [49, 102, 54, 48, 48] @ ord (CHR ''}'') # [120]"
    by code_simp
  have d: "list_all (\<lambda>d. hexDigitVal d \<noteq> None) [49, 102, 54, 48, 48]"
    and v: "hex_value 0 [49, 102, 54, 48, 48] = 0x1F600"
    by code_simp+
  show ?thesis
    using braced_escape_value [OF r _ d, of latin1_tables "[]" 1 1] unfolding v by simp
qed

text \<open>A regular expression token has valid flags: each a letter of \<open>dgimsuvy\<close>, none twice,
  and not both of the Unicode modes.\<close>

theorem regex_flags_valid:
  assumes "readRegex U line col l = (Inr t, l')"
  shows "let fs = runes_of (t_RegexFlags t) in
    t_Type t = REGEX \<and> set fs \<subseteq> set (runes_of ''dgimsuvy'') \<and> distinct fs
    \<and> \<not> (ord (CHR ''u'') \<in> set fs \<and> ord (CHR ''v'') \<in> set fs)"
proof -
  obtain p l1 where b: "regexBody U line col False '''' (skip l) = (Inr p, l1)"
    using assms by (auto simp: readRegex_def split: prod.splits sum.splits)
  obtain fs l2 where w: "scanWhile (IsLetter U) '''' l1 = (fs, l2)" by fastforce
  obtain t0 l3 where k: "tok REGEX p line col l2 = (t0, l3)" by fastforce
  have "\<not> (ord (CHR ''u'') \<in> set (runes_of fs) \<and> ord (CHR ''v'') \<in> set (runes_of fs))"
      "validRegexFlags fs" "t = t0\<lparr>t_RegexFlags := fs\<rparr>"
    using assms b w k by (auto simp: readRegex_def fail_def split: if_splits)
  then show ?thesis
    using tok_fields(1) [OF k] by (auto simp: validRegexFlags_def flagsValid_iff Let_def)
qed

theorem regex_flags_valid_witness:
  "\<exists>t l'. readRegex latin1_tables 1 1 (New ''/a/gi;'') = (Inr t, l') \<and> distinct (runes_of (t_RegexFlags t))"
proof -
  have "map (\<lambda>r. case r of Inr t \<Rightarrow> True | Inl _ \<Rightarrow> False)
      [fst (readRegex latin1_tables 1 1 (New ''/a/gi;''))] = [True]" by code_simp
  then obtain t l' where s: "readRegex latin1_tables 1 1 (New ''/a/gi;'') = (Inr t, l')"
    by (cases "readRegex latin1_tables 1 1 (New ''/a/gi;'')") (auto split: sum.splits)
  show ?thesis
    using regex_flags_valid [OF s] s unfolding Let_def by blast
qed

text \<open>A run of digits keeps its digits and drops its separators: the text consumed is the
  longest run of digits and \<open>_\<close>, every separator of it stands between two digits, and the
  literal is the run without them.\<close>

theorem digit_run_separators:
  assumes "readDigitRun U D line col False buf l = (Inr buf', l')" and "\<not> D 0x5F" and "\<not> D 0"
  shows "\<exists>s. rest l = s @ rest l' \<and> buf' = buf @ encode_runes (filter (\<lambda>c. c \<noteq> 0x5F) s)
    \<and> (\<forall>c \<in> set s. c = 0x5F \<or> D c)
    \<and> (\<forall>i < length s. s ! i = 0x5F \<longrightarrow>
         0 < i \<and> D (s ! (i - 1)) \<and> i + 1 < length s \<and> D (s ! (i + 1)))
    \<and> (case rest l' of [] \<Rightarrow> True | c # _ \<Rightarrow> \<not> D c \<and> c \<noteq> 0x5F)"
proof -
  obtain s where s: "rest l = s @ rest l'" "separated D False s"
      "buf' = buf @ encode_runes (filter (\<lambda>c. c \<noteq> 0x5F) s)"
      "case rest l' of [] \<Rightarrow> True | c # _ \<Rightarrow> \<not> D c \<and> c \<noteq> 0x5F"
    using readDigitRun_ok [OF assms] by blast
  have "0 < i \<and> D (s ! (i - 1)) \<and> i + 1 < length s \<and> D (s ! (i + 1))"
    if "i < length s" "s ! i = 0x5F" for i
    using separated_nth [OF s(2) that assms(2)] by (cases i) auto
  then show ?thesis
    using s separated_digits [OF s(2)] by blast
qed

theorem digit_run_separators_witness:
  "\<exists>s l'. readDigitRun latin1_tables isHexDigit 1 1 False '''' (New ''f_f;'') = (Inr ''ff'', l')
    \<and> rest (New ''f_f;'') = s @ rest l'"
proof -
  have "map (\<lambda>r. case r of Inr s \<Rightarrow> s = ''ff'' | Inl _ \<Rightarrow> False) [fst (readDigitRun latin1_tables isHexDigit 1 1 False '''' (New ''f_f;''))]
      = [True]" by code_simp
  then obtain l' where s: "readDigitRun latin1_tables isHexDigit 1 1 False '''' (New ''f_f;'') = (Inr ''ff'', l')"
    by (cases "readDigitRun latin1_tables isHexDigit 1 1 False '''' (New ''f_f;'')") (auto split: sum.splits)
  have "\<not> isHexDigit 0x5F" "\<not> isHexDigit 0" by code_simp+
  then show ?thesis using digit_run_separators [OF s] s by blast
qed

section \<open>Deviations from the language\<close>

fun no_close :: "rune list \<Rightarrow> bool" where
  "no_close (a # b # cs) = (\<not> (a = ord (CHR ''*'') \<and> b = ord (CHR ''/'')) \<and> no_close (b # cs))"
| "no_close _ = True"

lemma blockComment_open:
  "no_close (rest l) \<Longrightarrow> rest (snd (blockComment buf l)) = []"
proof (induction buf l rule: blockComment.induct)
  case (1 buf l)
  show ?case
  proof (cases "rest l")
    case Nil
    then show ?thesis by (subst blockComment.simps) (simp add: rest_more)
  next
    case (Cons c cs)
    note r = rest_Cons [OF Cons]
    have n: "\<not> (peek l = ord (CHR ''*'') \<and> peekAt 1 l = ord (CHR ''/''))"
      using 1(2) r Cons by (cases cs) (auto simp: rest_peekAt)
    have "no_close cs" using 1(2) Cons by (cases cs) auto
    moreover have "(fst (advance l), skip l) = advance l" by simp
    ultimately have "rest (snd (blockComment (buf @ encode_rune (fst (advance l))) (skip l))) = []"
      using 1(1) [OF r(1) n] r(3) by metis
    then show ?thesis
      using n r(1) by (subst blockComment.simps) (auto simp: case_prod_beta)
  qed
qed

lemma startToken_slash:
  assumes "rest l = ord (CHR ''/'') # cs"
  shows "rest (startToken l) = rest l" "more (startToken l)"
    "peek (startToken l) = ord (CHR ''/'')" "peekAt 1 (startToken l) = peekAt 1 l"
proof -
  have "skipWhitespace l = l"
    using rest_Cons [OF assms] by (subst skipWhitespace.simps) (simp add: IsSpace_def)
  then show "rest (startToken l) = rest l" by (simp add: startToken_def Let_def rest_def)
  then show "more (startToken l)" "peek (startToken l) = ord (CHR ''/'')" "peekAt 1 (startToken l) = peekAt 1 l"
    using assms by (simp_all add: rest_more rest_peek rest_peekAt)
qed

text \<open>An empty block comment swallows the text after it: its second star is read as part of a
  doc comment's opening, so the comment does not end at its own \<open>*/\<close>, and when no other one
  follows the scanner is at the end of the input.\<close>

theorem empty_comment_swallows:
  assumes "rest l = ord (CHR ''/'') # ord (CHR ''*'') # ord (CHR ''*'') # ord (CHR ''/'') # s" and "no_close s"
  shows "\<exists>t l'. nextToken U l = (Inr t, l') \<and> t_Type t = EOF \<and> rest l' = []"
proof -
  define m where "m = startToken l"
  note st = startToken_slash [OF assms(1), folded m_def]
  have r0: "rest m = 47 # 42 # 42 # 47 # s" using st(1) assms(1) by simp
  note r1 = rest_Cons(3) [OF r0] 
  note r2 = rest_Cons(3) [OF r1]
  have two: "skipBlockComment m = (let l = skip (skip m); b = blockComment '''' (skip l) in
      (snd b)\<lparr>l_pendingDoc := TrimSpace (fst b),
        l_Docs := (l_Docs (snd b))(l_offs (snd b) ! l_startPos (snd b) \<mapsto> TrimSpace (fst b))\<rparr>)"
    using rest_Cons(2) [OF r2] by (simp add: skipBlockComment_def Let_def case_prod_beta)
  have "no_close (47 # s)" using assms(2) by (cases s) auto
  then have "rest (snd (blockComment '''' (skip (skip (skip m))))) = []"
    using blockComment_open [of "skip (skip (skip m))" "''''"] rest_Cons(3) [OF r2] by simp
  then have b: "rest (skipBlockComment m) = []"
    by (simp add: two Let_def rest_def)
  have end_s: "rest (startToken k) = []" "\<not> more (startToken k)" if "rest k = []" for k
  proof -
    have "skipWhitespace k = k" using that rest_more [of k] by (subst skipWhitespace.simps) simp
    then show "rest (startToken k) = []" using that by (simp add: startToken_def Let_def rest_def)
    then show "\<not> more (startToken k)" using rest_more [of "startToken k"] by simp
  qed
  define k where "k = startToken (skipBlockComment m)"
  have p1: "peekAt 1 m = 42" using r0 by (simp add: rest_peekAt)
  have "nextToken U l = nextToken U (skipBlockComment m)"
    using st(2,3) p1 by (subst nextToken_code) (simp add: nextTokenFrom_def m_def [symmetric])
  also have "\<dots> = give EOF '''' (l_line k) (l_col k) k"
    using end_s(2) [OF b] by (subst nextToken_code) (simp add: nextTokenFrom_def k_def)
  finally obtain r l' where e: "nextToken U l = (r, l')" "give EOF '''' (l_line k) (l_col k) k = (r, l')"
    by (metis prod.exhaust)
  then show ?thesis
    using give_token [OF e(2)] end_s(1) [OF b] by (auto simp: k_def rest_def)
qed

theorem empty_comment_swallows_witness:
  "\<exists>t l'. nextToken latin1_tables (New ''/**/x'') = (Inr t, l') \<and> t_Type t = EOF \<and> rest l' = []"
proof -
  have "rest (New ''/**/x'') = ord (CHR ''/'') # ord (CHR ''*'') # ord (CHR ''*'') # ord (CHR ''/'') # [120]"
    by code_simp
  then show ?thesis by (rule empty_comment_swallows) simp
qed

text \<open>The two halves of a surrogate pair, each written as a \<open>\uHHHH\<close> escape, are not joined: any
  two surrogates append the same replacement character, so the pair's character is lost.\<close>

theorem surrogate_escapes_collapse:
  assumes "0xD800 \<le> v" "v \<le> 0xDFFF" and "readHexEscape 4 l = (Some v, l')"
  shows "fixedEscape U 4 InvalidUnicodeEscape buf line col l = (Inr (buf @ encode_rune RuneError), l')"
proof -
  have "encode_rune v = encode_rune RuneError"
    using assms(1,2) by (simp add: encode_rune_def RuneError_def ValidRune_def byte_def)
  then show ?thesis using assms(3) by (simp add: fixedEscape_def)
qed

theorem surrogate_escapes_collapse_witness:
  "\<exists>l'. fixedEscape latin1_tables 4 InvalidUnicodeEscape '''' 1 1 (New ''D83D'')
    = (Inr (encode_rune RuneError), l')"
proof -
  have "fst (readHexEscape 4 (New ''D83D'')) = Some 0xD83D" by code_simp
  then obtain l' where h: "readHexEscape 4 (New ''D83D'') = (Some 0xD83D, l')"
    by (metis prod.collapse)
  then show ?thesis
    using surrogate_escapes_collapse [OF _ _ h, of latin1_tables "''''" 1 1] by simp
qed

text \<open>A numeric prefix with no digit after it is accepted as a number.\<close>

lemma bare_prefix_accepted:
  "map (\<lambda>t. (t_Type t, t_Literal t)) (scan_all latin1_tables 3 (New ''0x;''))
    = [(NUMBER, ''0x''), (SEMICOLON, '';''), (EOF, '''')]"
  by code_simp

end
