(* ===== verification/DiagProps.thy ===== *)
theory DiagProps
  imports Diag "HOL-Library.Sublist"
begin

text \<open>The properties of the diagnostics: one per position, and attribution to a file.\<close>

definition place :: "Diagnostic \<Rightarrow> Pos \<times> string" where
  "place d = (s_Pos (d_Span d), s_File (d_Span d))"

lemma Add_place:
  "fst (Add items d) = (if items \<noteq> [] \<and> place (last items) = place d then items else items @ [d])"
  by (simp add: Add_def place_def)

lemma Add_all_snoc: "Add_all items (ds @ [d]) = fst (Add (Add_all items ds) d)"
  by (simp add: Add_all_def)

text \<open>The kept list is a subsequence of the reports, no two neighbours are at the same place, and
  no place reported is lost.\<close>

lemma Add_all_kept:
  "subseq (Add_all [] ds) ds \<and> distinct_adj (map place (Add_all [] ds))
   \<and> place ` set (Add_all [] ds) = place ` set ds"
proof (induction ds rule: rev_induct)
  case (snoc d ds)
  show ?case
  proof (cases "Add_all [] ds \<noteq> [] \<and> place (last (Add_all [] ds)) = place d")
    case True
    then have "place d \<in> place ` set (Add_all [] ds)"
      by (metis image_eqI last_in_set)
    then show ?thesis
      using True snoc by (auto simp: Add_all_snoc Add_place intro: subseq_order.trans)
  next
    case False
    then show ?thesis
      using snoc by (auto simp: Add_all_snoc Add_place distinct_adj_append_iff last_map list_emb_append_mono)
  qed
qed (simp add: Add_all_def)

text \<open>Attributing an error to a file: the diagnostics it carries, through any number of
  wrappings, come back all in that file and otherwise unchanged; an error that carries none
  still carries none, and its text names the file.\<close>

theorem InFile_attributes:
  "case As err of
     Some ds \<Rightarrow> As (InFile err file) = Some (map (set_file file) ds)
       \<and> map d_Text (the (As (InFile err file))) = map d_Text ds
       \<and> (\<lambda>d. s_File (d_Span d)) ` set (the (As (InFile err file))) \<subseteq> {file}
   | None \<Rightarrow> As (InFile err file) = None \<and> Error_text (InFile err file) = file @ '': '' @ Error_text err"
  by (auto simp: InFile_def As_def set_file_def split: option.split)
end
