(* ===== verification/JSDoc.thy ===== *)
theory JSDoc
  imports GoStrings
begin

text \<open>
  Package \<open>jsdoc\<close>: the annotations of a doc comment and what the compiler reads from
  them. A \<open>Comment\<close> is its list of annotations; the queries are the methods of
  \<open>*Comment\<close>, in the order of \<open>jsdoc/parser.go\<close>.
\<close>

record Annotation =
  a_Tag :: string
  a_Value :: string
  a_Text :: string
  a_HasBrace :: bool

type_synonym Comment = "Annotation list"

section \<open>Parsing\<close>

text \<open>\<open>\w\<close> of \<open>tagNameRe\<close>.\<close>

definition word_char :: "char \<Rightarrow> bool" where
  "word_char c \<longleftrightarrow> (0x30 \<le> ord c \<and> ord c \<le> 0x39) \<or> (0x41 \<le> ord c \<and> ord c \<le> 0x5A)
    \<or> (0x61 \<le> ord c \<and> ord c \<le> 0x7A) \<or> c = CHR ''_''"

text \<open>The matches of \<open>@(\w+)\<close>, leftmost first: the tag, and the text after it.\<close>

function tag_matches :: "string \<Rightarrow> (string \<times> string) list" where
  "tag_matches [] = []"
| "tag_matches (c # cs) =
    (if c = CHR ''@'' \<and> takeWhile word_char cs \<noteq> []
     then (takeWhile word_char cs, dropWhile word_char cs) # tag_matches (dropWhile word_char cs)
     else tag_matches cs)"
  by pat_completeness auto
termination
  by (relation "measure length") (simp_all add: le_imp_less_Suc length_dropWhile_le)

definition blank :: "char \<Rightarrow> bool" where
  "blank c \<longleftrightarrow> c = CHR '' '' \<or> c = CHR 0x09"

text \<open>The loop over a brace body, after its opening brace: the body and what follows the
  matching brace.\<close>

fun braceLoop :: "nat \<Rightarrow> string \<Rightarrow> string \<Rightarrow> (string \<times> string) option" where
  "braceLoop depth body [] = None"
| "braceLoop depth body (c # cs) =
    (if c = CHR ''{'' then braceLoop (depth + 1) (body @ [c]) cs
     else if c = CHR ''}'' then
       (if depth - 1 = 0 then Some (body, cs) else braceLoop (depth - 1) (body @ [c]) cs)
     else if c = CHR 0x0A then None
     else braceLoop depth (body @ [c]) cs)"

definition scanBraceType :: "string \<Rightarrow> string \<times> string \<times> bool" where
  "scanBraceType s =
    (case dropWhile blank s of
       [] \<Rightarrow> ('''', '''', False)
     | c # cs \<Rightarrow>
         if c \<noteq> CHR ''{'' then ('''', c # cs, False)
         else (case braceLoop 1 '''' cs of
           Some (body, after) \<Rightarrow> (body, after, True)
         | None \<Rightarrow> ('''', c # cs, False)))"

definition lineHead :: "string \<Rightarrow> string" where
  "lineHead s = takeWhile (\<lambda>c. c \<noteq> CHR 0x0A \<and> c \<noteq> CHR ''@'') s"

definition annotation :: "string \<times> string \<Rightarrow> Annotation" where
  "annotation p =
    (case p of (tag, rest) \<Rightarrow>
     case scanBraceType rest of (braceTy, after, hasBrace) \<Rightarrow>
       let trailing = TrimSpace (lineHead after);
           val = TrimSpace braceTy;
           val = (if val = '''' then trailing else val)
       in \<lparr>a_Tag = tag, a_Value = val, a_Text = trailing, a_HasBrace = hasBrace\<rparr>)"

definition Parse :: "string \<Rightarrow> Comment" where
  "Parse raw = map annotation (tag_matches raw)"

section \<open>Names and types\<close>

definition paramName :: "string \<Rightarrow> string" where
  "paramName rest =
    (let first = (case index_of (\<lambda>c. c = CHR '' '' \<or> c = CHR 0x09) rest of
                    Some i \<Rightarrow> take i rest | None \<Rightarrow> rest);
         first = TrimSpace first;
         first = (if HasPrefix first ''['' \<and> HasSuffix first '']''
                  then let f = take (length first - 2) (drop 1 first)
                       in case index_of (\<lambda>c. c = CHR ''='') f of Some i \<Rightarrow> take i f | None \<Rightarrow> f
                  else first)
     in TrimSpace first)"

definition stripJSDocDecorations :: "string \<Rightarrow> string" where
  "stripJSDocDecorations ty =
    TrimSpace (TrimSuffix (TrimPrefix (TrimSpace ty) ''...'') ''='')"

section \<open>Queries\<close>

definition is_param :: "string \<Rightarrow> bool" where
  "is_param tag \<longleftrightarrow> tag = ''param'' \<or> tag = ''arg'' \<or> tag = ''argument''"

fun GetType :: "Comment \<Rightarrow> string" where
  "GetType [] = ''''"
| "GetType (a # as) = (if a_Tag a = ''type'' then a_Value a else GetType as)"

fun ParamType :: "Comment \<Rightarrow> string \<Rightarrow> string" where
  "ParamType [] name = ''''"
| "ParamType (a # as) name =
    (if is_param (a_Tag a) \<and> a_Value a \<noteq> '''' \<and> paramName (a_Text a) = name
     then stripJSDocDecorations (a_Value a)
     else ParamType as name)"

fun ParamOptional :: "Comment \<Rightarrow> string \<Rightarrow> bool" where
  "ParamOptional [] name = False"
| "ParamOptional (a # as) name =
    (if is_param (a_Tag a) \<and> paramName (a_Text a) = name
     then HasPrefix (TrimSpace (a_Text a)) ''['' \<or> HasSuffix (TrimSpace (a_Value a)) ''=''
     else ParamOptional as name)"

fun ReturnType :: "Comment \<Rightarrow> string" where
  "ReturnType [] = ''''"
| "ReturnType (a # as) =
    (if a_Tag a = ''returns'' \<or> a_Tag a = ''return'' then stripJSDocDecorations (a_Value a)
     else ReturnType as)"

record TemplateParam =
  tp_Name :: string
  tp_Constraint :: string

text \<open>The loop over the comma-separated names of one \<open>@template\<close>; \<open>first\<close> says it is at
  the first of them.\<close>

fun templateNames :: "bool \<Rightarrow> string \<Rightarrow> string list \<Rightarrow> TemplateParam list" where
  "templateNames first constraint [] = []"
| "templateNames first constraint (n # ns) =
    (if TrimSpace n = '''' then templateNames False constraint ns
     else \<lparr>tp_Name = TrimSpace n, tp_Constraint = (if first then constraint else '''')\<rparr>
       # templateNames False constraint ns)"

definition Templates :: "Comment \<Rightarrow> TemplateParam list" where
  "Templates as = concat (map (\<lambda>a.
     if a_Tag a \<noteq> ''template'' then []
     else templateNames True (if a_HasBrace a then stripJSDocDecorations (a_Value a) else '''')
       (Split (a_Text a) (CHR '',''))) as)"

record TypedefField =
  f_Name :: string
  f_Type :: string
  f_Rest :: bool

record TypedefDecl =
  td_Name :: string
  td_Kind :: string
  td_Base :: string
  td_Fields :: "TypedefField list"
  td_Return :: string

definition member :: "Annotation \<Rightarrow> TypedefField" where
  "member a = \<lparr>f_Name = paramName (a_Text a), f_Type = stripJSDocDecorations (a_Value a),
     f_Rest = HasPrefix (TrimSpace (a_Value a)) ''...''\<rparr>"

text \<open>One step of the loop of \<open>Typedefs\<close>: the declarations so far, and the index of the one
  that members go to.\<close>

definition typedef_step :: "TypedefDecl list \<times> nat option \<Rightarrow> Annotation
    \<Rightarrow> TypedefDecl list \<times> nat option" where
  "typedef_step st a =
    (case st of (out, cur) \<Rightarrow>
     let add_member = (\<lambda>kind. case cur of
           Some i \<Rightarrow> if td_Kind (out ! i) = kind \<and> a_Value a \<noteq> ''''
             then (out[i := (out ! i)\<lparr>td_Fields := td_Fields (out ! i) @ [member a]\<rparr>], cur)
             else (out, cur)
         | None \<Rightarrow> (out, cur))
     in
     if a_Tag a = ''typedef'' then
       let b = stripJSDocDecorations (a_Value a);
           alias = (a_HasBrace a \<and> map lower_byte b \<noteq> ''object'' \<and> b \<noteq> '''')
       in (out @ [\<lparr>td_Name = paramName (a_Text a), td_Kind = (if alias then ''alias'' else ''object''),
                   td_Base = (if alias then b else ''''), td_Fields = [], td_Return = ''''\<rparr>],
           Some (length out))
     else if a_Tag a = ''callback'' then
       (out @ [\<lparr>td_Name = paramName (a_Text a), td_Kind = ''callback'', td_Base = '''',
                td_Fields = [], td_Return = ''''\<rparr>],
        Some (length out))
     else if a_Tag a = ''property'' \<or> a_Tag a = ''prop'' then add_member ''object''
     else if is_param (a_Tag a) then add_member ''callback''
     else if a_Tag a = ''returns'' \<or> a_Tag a = ''return'' then
       (case cur of
          Some i \<Rightarrow> if td_Kind (out ! i) = ''callback''
            then (out[i := (out ! i)\<lparr>td_Return := stripJSDocDecorations (a_Value a)\<rparr>], cur)
            else (out, cur)
        | None \<Rightarrow> (out, cur))
     else (out, cur))"

definition Typedefs :: "Comment \<Rightarrow> TypedefDecl list" where
  "Typedefs as = fst (foldl typedef_step ([], None) as)"

definition OwnedParams :: "Comment \<Rightarrow> string list" where
  "OwnedParams as = filter (\<lambda>n. n \<noteq> '''') (map (\<lambda>a. paramName (a_Text a)) (filter (\<lambda>a. a_Tag a = ''owned'') as))"

definition HasTag :: "Comment \<Rightarrow> string \<Rightarrow> bool" where
  "HasTag as tag \<longleftrightarrow> list_ex (\<lambda>a. a_Tag a = tag) as"

section \<open>Brace bodies\<close>

text \<open>The depth a text ends at, from depth \<open>d\<close>, if it never closes the brace it is in and has
  no line feed.\<close>

fun depth_after :: "nat \<Rightarrow> string \<Rightarrow> nat option" where
  "depth_after d [] = Some d"
| "depth_after d (c # cs) =
    (if c = CHR ''{'' then depth_after (d + 1) cs
     else if c = CHR ''}'' then (if d \<le> 1 then None else depth_after (d - 1) cs)
     else if c = CHR 0x0A then None
     else depth_after d cs)"

definition balanced :: "string \<Rightarrow> bool" where
  "balanced s \<longleftrightarrow> depth_after 1 s = Some 1"

lemma braceLoop_iff:
  "1 \<le> d \<Longrightarrow> braceLoop d body s = Some (b, rest) \<longleftrightarrow>
    (\<exists>u. b = body @ u \<and> s = u @ CHR ''}'' # rest \<and> depth_after d u = Some 1)"
proof (induction s arbitrary: d body)
  case (Cons c cs)
  note IH = Cons.IH
  have nil: "(\<exists>u. b = body @ u \<and> c # cs = u @ CHR ''}'' # rest \<and> depth_after d u = Some 1)
    \<longleftrightarrow> (b = body \<and> c = CHR ''}'' \<and> cs = rest \<and> d = 1)
      \<or> (\<exists>u. b = body @ c # u \<and> cs = u @ CHR ''}'' # rest \<and> depth_after d (c # u) = Some 1)"
    by (auto simp: Cons_eq_append_conv)
  show ?case
    unfolding nil using Cons.prems
    by (auto simp: IH)
qed simp

lemma scanBraceType_body:
  "scanBraceType s = (body, after, True) \<longleftrightarrow>
     (\<exists>w. set w \<subseteq> {CHR '' '', CHR 0x09} \<and> s = w @ CHR ''{'' # body @ CHR ''}'' # after \<and> balanced body)"
proof
  assume a: "scanBraceType s = (body, after, True)"
  then obtain cs where cs: "dropWhile blank s = CHR ''{'' # cs" "braceLoop 1 '''' cs = Some (body, after)"
    by (auto simp: scanBraceType_def split: list.splits if_splits option.splits)
  then have "cs = body @ CHR ''}'' # after" "balanced body"
    by (auto simp: braceLoop_iff balanced_def)
  moreover have "s = takeWhile blank s @ CHR ''{'' # cs"
    using cs(1) by (metis takeWhile_dropWhile_id)
  moreover have "set (takeWhile blank s) \<subseteq> {CHR '' '', CHR 0x09}"
    by (auto simp: blank_def dest: set_takeWhileD)
  ultimately show "\<exists>w. set w \<subseteq> {CHR '' '', CHR 0x09} \<and> s = w @ CHR ''{'' # body @ CHR ''}'' # after \<and> balanced body"
    by metis
next
  assume "\<exists>w. set w \<subseteq> {CHR '' '', CHR 0x09} \<and> s = w @ CHR ''{'' # body @ CHR ''}'' # after \<and> balanced body"
  then obtain w where w: "set w \<subseteq> {CHR '' '', CHR 0x09}" "s = w @ CHR ''{'' # body @ CHR ''}'' # after"
      "balanced body" by blast
  have "dropWhile blank s = CHR ''{'' # body @ CHR ''}'' # after"
    using w(1) unfolding w(2) by (subst dropWhile_append2) (auto simp: blank_def)
  moreover have "braceLoop 1 '''' (body @ CHR ''}'' # after) = Some (body, after)"
    using w(3) by (simp add: braceLoop_iff balanced_def)
  ultimately show "scanBraceType s = (body, after, True)"
    by (simp add: scanBraceType_def)
qed

section \<open>Reading back what is written\<close>

lemma TrimLeftFunc_length: "length (TrimLeftFunc P s) \<le> length s"
proof (induction P s rule: TrimLeftFunc.induct)
  case (1 P s)
  obtain r w where rw: "decode_rune s = (r, w)" by fastforce
  show ?case
    using 1 rw by (subst TrimLeftFunc.simps) (fastforce simp: Let_def)
qed

lemma TrimRightFunc_length: "length (TrimRightFunc P s) \<le> length s"
proof (induction P s rule: TrimRightFunc.induct)
  case (1 P s)
  obtain r w where rw: "decode_last_rune s = (r, w)" by fastforce
  show ?case
    using 1 rw by (subst TrimRightFunc.simps) (fastforce simp: Let_def)
qed

lemma TrimLeft_blank: "blank c \<Longrightarrow> TrimLeftFunc IsSpace (c # cs) = TrimLeftFunc IsSpace cs"
  by (subst TrimLeftFunc.simps) (auto simp: blank_def IsSpace_def)

lemma TrimSpace_blank: "blank c \<Longrightarrow> TrimSpace (c # cs) = TrimSpace cs"
  by (simp add: TrimSpace_def TrimLeft_blank)

lemma TrimSpace_length: "length (TrimSpace s) \<le> length s"
  using TrimLeftFunc_length [of IsSpace s] TrimRightFunc_length [of IsSpace "TrimLeftFunc IsSpace s"]
  by (simp add: TrimSpace_def)

lemma trimmed_not_blank: "TrimSpace (c # cs) = c # cs \<Longrightarrow> \<not> blank c"
  using TrimSpace_blank [of c cs] TrimSpace_length [of cs] by (metis Suc_n_not_le_n length_Cons)

lemma tag_matches_skip: "CHR ''@'' \<notin> set p \<Longrightarrow> tag_matches (p @ s) = tag_matches s"
  by (induction p) auto

lemma tag_matches_tag:
  assumes "tag \<noteq> []" and "list_all word_char tag" and "\<not> word_char c"
  shows "tag_matches (CHR ''@'' # tag @ c # s) = (tag, c # s) # tag_matches (c # s)"
proof -
  have "takeWhile word_char (tag @ c # s) = tag" "dropWhile word_char (tag @ c # s) = c # s"
    using assms(2,3) by (simp_all add: list_all_iff takeWhile_append2 dropWhile_append2)
  then show ?thesis using assms(1) by simp
qed

lemma lineHead_line:
  "CHR 0x0A \<notin> set t \<Longrightarrow> CHR ''@'' \<notin> set t \<Longrightarrow> lineHead (t @ CHR 0x0A # r) = t"
  unfolding lineHead_def by (subst takeWhile_append2) auto

text \<open>An annotation as a line of a doc comment, and the ones that can be written so: the tag a
  word, the text a trimmed piece of a line, the type balanced; without a type, the value is
  the text.\<close>

definition render :: "Annotation \<Rightarrow> string" where
  "render a = '' * @'' @ a_Tag a @ '' ''
    @ (if a_HasBrace a then ''{'' @ a_Value a @ ''} '' else '''') @ a_Text a @ [CHR 0x0A]"

definition line_text :: "string \<Rightarrow> bool" where
  "line_text t \<longleftrightarrow> CHR 0x0A \<notin> set t \<and> CHR ''@'' \<notin> set t \<and> TrimSpace t = t"

definition writable :: "Annotation \<Rightarrow> bool" where
  "writable a \<longleftrightarrow> a_Tag a \<noteq> '''' \<and> list_all word_char (a_Tag a) \<and> line_text (a_Text a)
    \<and> (if a_HasBrace a then a_Value a \<noteq> '''' \<and> line_text (a_Value a) \<and> balanced (a_Value a)
       else a_Value a = a_Text a \<and> \<not> HasPrefix (a_Text a) ''{'')"

lemma annotation_render:
  assumes "writable a"
  shows "annotation (a_Tag a, '' '' @ (if a_HasBrace a then ''{'' @ a_Value a @ ''} '' else '''')
    @ a_Text a @ CHR 0x0A # r) = a"
proof (cases "a_HasBrace a")
  case True
  have "scanBraceType ('' '' @ ''{'' @ a_Value a @ ''} '' @ a_Text a @ CHR 0x0A # r)
      = (a_Value a, CHR '' '' # a_Text a @ CHR 0x0A # r, True)"
    unfolding scanBraceType_body using assms True
    by (intro exI [of _ "'' ''"]) (simp add: writable_def)
  moreover have "lineHead (CHR '' '' # a_Text a @ CHR 0x0A # r) = CHR '' '' # a_Text a"
    using lineHead_line [of "CHR '' '' # a_Text a" r] assms by (simp add: writable_def line_text_def)
  ultimately show ?thesis
    using assms True TrimSpace_blank [of "CHR '' ''" "a_Text a"]
    by (simp add: annotation_def Let_def writable_def line_text_def blank_def)
next
  case False
  have drop: "dropWhile blank ('' '' @ a_Text a @ CHR 0x0A # r) = a_Text a @ CHR 0x0A # r"
    using assms trimmed_not_blank [of "hd (a_Text a)" "tl (a_Text a)"]
    by (cases "a_Text a") (auto simp: writable_def line_text_def blank_def)
  have "hd (a_Text a @ CHR 0x0A # r) \<noteq> CHR ''{''"
    using assms False by (cases "a_Text a") (auto simp: writable_def HasPrefix_def)
  then have "scanBraceType ('' '' @ a_Text a @ CHR 0x0A # r) = ('''', a_Text a @ CHR 0x0A # r, False)"
    unfolding scanBraceType_def drop by (cases "a_Text a") auto
  moreover have "TrimSpace '''' = ''''" by code_simp
  ultimately show ?thesis
    using assms False lineHead_line [of "a_Text a" r]
    by (simp add: annotation_def Let_def writable_def line_text_def)
qed

text \<open>C18. Annotations written as the lines of a doc comment are read back: tag, type and text of
  every one of them, in order, nested braces included.\<close>

theorem Parse_render:
  assumes "list_all writable as"
  shows "Parse (concat (map render as)) = as"
  using assms
proof (induction as)
  case Nil
  then show ?case by (simp add: Parse_def)
next
  case (Cons a as)
  let ?R = "concat (map render as)"
  let ?X = "(if a_HasBrace a then ''{'' @ a_Value a @ ''} '' else '''') @ a_Text a @ CHR 0x0A # ?R"
  have w: "writable a" using Cons.prems by simp
  have "render a @ ?R = '' * '' @ CHR ''@'' # a_Tag a @ CHR '' '' # ?X"
    by (simp add: render_def)
  then have "tag_matches (render a @ ?R) = tag_matches (CHR ''@'' # a_Tag a @ CHR '' '' # ?X)"
    using tag_matches_skip [of "'' * ''"] by simp
  also have "\<dots> = (a_Tag a, CHR '' '' # ?X) # tag_matches (CHR '' '' # ?X)"
    by (rule tag_matches_tag) (use w in \<open>auto simp: writable_def word_char_def\<close>)
  also have "tag_matches (CHR '' '' # ?X) = tag_matches ?R"
  proof -
    have "CHR '' '' # ?X = ('' '' @ (if a_HasBrace a then ''{'' @ a_Value a @ ''} '' else '''')
        @ a_Text a @ [CHR 0x0A]) @ ?R" by simp
    then show ?thesis
      using w by (simp only: tag_matches_skip)
        (subst tag_matches_skip, auto simp: writable_def line_text_def)
  qed
  finally show ?case
    using annotation_render [OF w, of ?R] Cons.IH Cons.prems by (simp add: Parse_def)
qed

theorem Parse_render_witness:
  "Parse ('' * @param {{x: number}} p a point'' @ [CHR 0x0A] @ '' * @erased '' @ [CHR 0x0A])
    = [\<lparr>a_Tag = ''param'', a_Value = ''{x: number}'', a_Text = ''p a point'', a_HasBrace = True\<rparr>,
       \<lparr>a_Tag = ''erased'', a_Value = '''', a_Text = '''', a_HasBrace = False\<rparr>]"
proof -
  let ?as = "[\<lparr>a_Tag = ''param'', a_Value = ''{x: number}'', a_Text = ''p a point'', a_HasBrace = True\<rparr>,
       \<lparr>a_Tag = ''erased'', a_Value = '''', a_Text = '''', a_HasBrace = False\<rparr>]"
  have "list_all writable ?as" by code_simp
  moreover have "concat (map render ?as)
      = '' * @param {{x: number}} p a point'' @ [CHR 0x0A] @ '' * @erased '' @ [CHR 0x0A]"
    by (simp add: render_def)
  ultimately show ?thesis using Parse_render [of ?as] by simp
qed

section \<open>Type declarations\<close>

definition decl_ok :: "TypedefDecl \<Rightarrow> bool" where
  "decl_ok d \<longleftrightarrow>
     (td_Kind d = ''alias'' \<and> td_Base d \<noteq> '''' \<and> td_Fields d = [] \<and> td_Return d = '''')
   \<or> (td_Kind d = ''object'' \<and> td_Base d = '''' \<and> td_Return d = '''')
   \<or> (td_Kind d = ''callback'' \<and> td_Base d = '''')"

definition declares :: "Annotation \<Rightarrow> bool" where
  "declares a \<longleftrightarrow> a_Tag a = ''typedef'' \<or> a_Tag a = ''callback''"

definition typedefs_inv :: "Comment \<Rightarrow> TypedefDecl list \<times> nat option \<Rightarrow> bool" where
  "typedefs_inv as st \<longleftrightarrow> (case st of (out, cur) \<Rightarrow>
     list_all decl_ok out
   \<and> map td_Name out = map (\<lambda>a. paramName (a_Text a)) (filter declares as)
   \<and> cur = (if out = [] then None else Some (length out - 1)))"

lemma map_list_update_same: "i < length xs \<Longrightarrow> f y = f (xs ! i) \<Longrightarrow> map f (xs[i := y]) = map f xs"
  by (simp add: map_update list_update_same_conv)

lemma typedef_step_inv:
  assumes "typedefs_inv as st"
  shows "typedefs_inv (as @ [a]) (typedef_step st a)"
proof -
  obtain out cur where st: "st = (out, cur)" by fastforce
  have inv: "list_all decl_ok out" "map td_Name out = map (\<lambda>a. paramName (a_Text a)) (filter declares as)"
      "cur = (if out = [] then None else Some (length out - 1))"
    using assms by (simp_all add: typedefs_inv_def st)
  have upd: "typedefs_inv (as @ [a]) (out[i := d], cur)"
    if "i < length out" "cur = Some i" "decl_ok d" "td_Name d = td_Name (out ! i)" "\<not> declares a" for i d
    using inv that map_list_update_same [of i out td_Name d]
    by (auto simp: typedefs_inv_def list_all_iff dest!: set_update_subset_insert [THEN subsetD])
  have cur: "cur = Some i \<Longrightarrow> i < length out \<and> decl_ok (out ! i)" for i
    using inv by (auto simp: list_all_iff split: if_splits)
  consider (decl) "declares a" | (member) "\<not> declares a" by blast
  then show ?thesis
  proof cases
    case decl
    have new: "typedefs_inv (as @ [a]) (out @ [d], Some (length out))"
      if "decl_ok d" "td_Name d = paramName (a_Text a)" for d
      using inv decl that by (simp add: typedefs_inv_def)
    have "\<exists>d. typedef_step st a = (out @ [d], Some (length out)) \<and> decl_ok d \<and> td_Name d = paramName (a_Text a)"
    proof (cases "a_Tag a = ''typedef''")
      case True
      then show ?thesis by (simp add: st typedef_step_def Let_def decl_ok_def)
    next
      case False
      then show ?thesis using decl by (simp add: st typedef_step_def Let_def decl_ok_def declares_def)
    qed
    then show ?thesis using new by auto
  next
    case member
    have same: "typedefs_inv (as @ [a]) (out, cur)" using inv member by (simp add: typedefs_inv_def)
    show ?thesis
    proof (cases cur)
      case None
      then show ?thesis using same member by (auto simp: st typedef_step_def declares_def Let_def)
    next
      case (Some i)
      have "decl_ok ((out ! i)\<lparr>td_Fields := fs\<rparr>)" if "td_Kind (out ! i) \<noteq> ''alias''" for fs
        using cur [OF Some] that by (auto simp: decl_ok_def)
      moreover have "decl_ok ((out ! i)\<lparr>td_Return := r\<rparr>)" if "td_Kind (out ! i) = ''callback''" for r
        using cur [OF Some] that by (auto simp: decl_ok_def)
      ultimately show ?thesis
        using same member cur [OF Some] upd [OF _ Some]
        by (auto simp: st Some typedef_step_def declares_def Let_def)
    qed
  qed
qed

lemma Typedefs_inv: "typedefs_inv as (foldl typedef_step ([], None) as)"
proof (induction as rule: rev_induct)
  case (snoc a as)
  then show ?case using typedef_step_inv by simp
qed (simp add: typedefs_inv_def)

text \<open>The type declarations of a comment: one per \<open>@typedef\<close> or \<open>@callback\<close>, in order and
  with its name; only objects and callbacks have members, only aliases an aliased type and
  only callbacks a return type.\<close>

theorem Typedefs_wellformed:
  "list_all decl_ok (Typedefs as)
   \<and> map td_Name (Typedefs as) = map (\<lambda>a. paramName (a_Text a)) (filter declares as)"
  using Typedefs_inv [of as] by (simp add: typedefs_inv_def Typedefs_def case_prod_beta)

end
