(* ===== verification/Symbols.thy ===== *)
theory Symbols
  imports Diag
begin

text \<open>
  The binder's symbols (\<open>binder/symbol.go\<close>): flags, declarations and how two of one
  name clash, and the insertion-ordered symbol table. Syntax nodes, symbols and scopes
  are pointers in Go; here they are numbers, and what a node is is read off an \<open>ast\<close>
  (the node a number stands for, restricted to the kinds this code tells apart, and its
  position). \<open>NotASyntaxNode\<close> is a namespace group or record used as a scope key.
\<close>

section \<open>Syntax nodes\<close>

type_synonym node_ptr = nat
type_synonym symbol_ptr = nat
type_synonym scope_ptr = nat

record TypeAnnotation =
  ta_Name :: string
  ta_Nullable :: bool

record var_decl =
  vd_Kind :: string
  vd_Init :: "node_ptr option"
  vd_TypeAnnot :: "TypeAnnotation option"
  vd_Ambient :: bool
  vd_Definite :: bool

record fn_decl =
  fd_Body :: "node_ptr option"
  fd_Ambient :: bool

datatype ast_node =
    Identifier string
  | NullLiteral bool
  | StringLiteral string
  | BooleanLiteral bool
  | UnaryExpression string node_ptr
  | BinaryExpression string node_ptr node_ptr
  | AssignmentExpression string node_ptr
  | VarDeclaration var_decl
  | ArrayDestructuring string
  | ObjectDestructuring string
  | FunctionDeclaration fn_decl
  | FunctionExpression bool bool
  | ArrowFunction bool
  | OtherNode
  | NotASyntaxNode

record ast =
  node_at :: "node_ptr \<Rightarrow> ast_node"
  GetPos :: "node_ptr \<Rightarrow> Pos"

section \<open>Symbol flags\<close>

type_synonym SymbolFlags = "32 word"

abbreviation (input) flag_bit :: "nat \<Rightarrow> SymbolFlags" where
  "flag_bit n \<equiv> push_bit n 1"

definition FunctionScopedVariable :: SymbolFlags where "FunctionScopedVariable = flag_bit 0"
definition BlockScopedVariable :: SymbolFlags where "BlockScopedVariable = flag_bit 1"
definition PropertyFlag :: SymbolFlags where "PropertyFlag = flag_bit 2"
definition EnumMember :: SymbolFlags where "EnumMember = flag_bit 3"
definition FunctionFlag :: SymbolFlags where "FunctionFlag = flag_bit 4"
definition ClassFlag :: SymbolFlags where "ClassFlag = flag_bit 5"
definition InterfaceFlag :: SymbolFlags where "InterfaceFlag = flag_bit 6"
definition ConstEnum :: SymbolFlags where "ConstEnum = flag_bit 7"
definition RegularEnum :: SymbolFlags where "RegularEnum = flag_bit 8"
definition TypeParameter :: SymbolFlags where "TypeParameter = flag_bit 9"
definition TypeAlias :: SymbolFlags where "TypeAlias = flag_bit 10"
definition AliasFlag :: SymbolFlags where "AliasFlag = flag_bit 11"
definition NamespaceModule :: SymbolFlags where "NamespaceModule = flag_bit 12"
definition TypeModule :: SymbolFlags where "TypeModule = flag_bit 13"

text \<open>\<open>f&(m1|\<dots>|mk) != 0\<close>: one of the masks shares a bit with \<open>f\<close>.\<close>

definition has_flag :: "SymbolFlags \<Rightarrow> SymbolFlags list \<Rightarrow> bool" where
  "has_flag f ms \<longleftrightarrow> Bit_Operations.and f (foldr Bit_Operations.or ms 0) \<noteq> 0"

definition Enum_masks :: "SymbolFlags list" where
  "Enum_masks = [RegularEnum, ConstEnum]"

definition Value_masks :: "SymbolFlags list" where
  "Value_masks = [FunctionScopedVariable, BlockScopedVariable, PropertyFlag, EnumMember, FunctionFlag,
     ClassFlag, RegularEnum, ConstEnum, AliasFlag, NamespaceModule]"

definition enum_bits :: "SymbolFlags \<Rightarrow> SymbolFlags" where
  "enum_bits f = Bit_Operations.and f (Bit_Operations.or RegularEnum ConstEnum)"

lemmas flag_defs = FunctionScopedVariable_def BlockScopedVariable_def PropertyFlag_def EnumMember_def
  FunctionFlag_def ClassFlag_def InterfaceFlag_def ConstEnum_def RegularEnum_def TypeParameter_def
  TypeAlias_def AliasFlag_def NamespaceModule_def TypeModule_def

section \<open>Declarations and clashes\<close>

datatype DeclKind = VarLike | Lexical | TypeOnly | NamespaceDecl | NameOnly

record Declaration =
  dc_Node :: "node_ptr option"
  dc_Pos :: Pos
  dc_Flags :: SymbolFlags
  dc_Kind :: DeclKind
  dc_Plain :: bool
  dc_Body :: bool

datatype Clash = NoClash | Redeclaration | UnsupportedMerge | DuplicateImplementation

definition functionImplementation :: "ast \<Rightarrow> Declaration \<Rightarrow> bool" where
  "functionImplementation A d =
    (case dc_Node d of
       Some n \<Rightarrow> (case node_at A n of
           FunctionDeclaration fd \<Rightarrow> has_flag (dc_Flags d) [FunctionFlag] \<and> fd_Body fd \<noteq> None \<and> \<not> fd_Ambient fd
         | _ \<Rightarrow> False)
     | None \<Rightarrow> False)"

definition clashes :: "ast \<Rightarrow> Declaration \<Rightarrow> Declaration \<Rightarrow> bool \<Rightarrow> Clash" where
  "clashes A a b annexB =
    (if annexB \<and> dc_Flags a = FunctionFlag \<and> dc_Flags b = FunctionFlag \<and> dc_Plain a \<and> dc_Plain b then NoClash
     else if dc_Kind a = NameOnly \<or> dc_Kind b = NameOnly then NoClash
     else if dc_Kind a = TypeOnly \<or> dc_Kind b = TypeOnly then
       (if dc_Kind a \<noteq> TypeOnly \<and> dc_Kind b \<noteq> TypeOnly then NoClash
        else if has_flag (dc_Flags a) [TypeParameter] \<and> has_flag (dc_Flags b) [TypeParameter] then Redeclaration
        else if has_flag (dc_Flags a) [TypeAlias] \<or> has_flag (dc_Flags b) [TypeAlias] then
          (let other = (if has_flag (dc_Flags a) [TypeAlias] then b else a) in
           if has_flag (dc_Flags other) (InterfaceFlag # TypeAlias # ClassFlag # Enum_masks)
           then Redeclaration else NoClash)
        else NoClash)
     else if dc_Kind a = NamespaceDecl \<or> dc_Kind b = NamespaceDecl then
       (let other = (if dc_Kind a = NamespaceDecl then b else a) in
        if \<not> has_flag (dc_Flags other) (FunctionFlag # ClassFlag # NamespaceModule # TypeModule # Enum_masks)
        then Redeclaration else NoClash)
     else if has_flag (dc_Flags a) Enum_masks \<and> has_flag (dc_Flags b) Enum_masks then
       (if enum_bits (dc_Flags a) = enum_bits (dc_Flags b) then UnsupportedMerge else Redeclaration)
     else if dc_Kind a = Lexical \<or> dc_Kind b = Lexical then Redeclaration
     else if \<not> annexB \<and> functionImplementation A a \<and> functionImplementation A b
     then DuplicateImplementation
     else NoClash)"

text \<open>A namespace's declaration says so in its flags.\<close>

definition decl_wf :: "Declaration \<Rightarrow> bool" where
  "decl_wf d \<longleftrightarrow> (dc_Kind d = NamespaceDecl \<longrightarrow> has_flag (dc_Flags d) [NamespaceModule, TypeModule])"

lemma has_flag_Nil [simp]: "\<not> has_flag f []"
  by (simp add: has_flag_def)

lemma has_flag_Cons: "has_flag f (m # ms) \<longleftrightarrow> Bit_Operations.and f m \<noteq> 0 \<or> has_flag f ms"
proof -
  have "Bit_Operations.and f (Bit_Operations.or m (foldr Bit_Operations.or ms 0))
    = Bit_Operations.or (Bit_Operations.and f m) (Bit_Operations.and f (foldr Bit_Operations.or ms 0))"
    by (rule bit.conj_disj_distrib)
  then show ?thesis by (simp add: has_flag_def or_eq_0_iff)
qed

section \<open>Symbols and scopes\<close>

record Symbol =
  sym_ID :: nat
  sym_Name :: string
  sym_Flags :: SymbolFlags
  sym_Declarations :: "Declaration list"
  sym_Scope :: "scope_ptr option"
  sym_Implicit :: bool
  sym_Display :: string

datatype ScopeKind = ModuleScope | FunctionScope | BlockScope | CatchScope | NameScope | EnumScope
  | NamespaceScope

text \<open>The table: the names in the order of their first \<open>put\<close>, the symbol of each, and the
  aliases, which \<open>Each\<close> does not walk.\<close>

record 'a Table =
  t_names :: "string list"
  t_m :: "string \<rightharpoonup> 'a"
  t_aliases :: "string \<rightharpoonup> 'a"

definition empty_table :: "'a Table" where
  "empty_table = \<lparr>t_names = [], t_m = Map.empty, t_aliases = Map.empty\<rparr>"

definition Get :: "'a Table \<Rightarrow> string \<Rightarrow> 'a option" where
  "Get t name = (case t_m t name of Some s \<Rightarrow> Some s | None \<Rightarrow> t_aliases t name)"

definition put_alias :: "string \<Rightarrow> 'a \<Rightarrow> 'a Table \<Rightarrow> 'a Table" where
  "put_alias name s t = (if t_m t name \<noteq> None then t else t\<lparr>t_aliases := (t_aliases t)(name \<mapsto> s)\<rparr>)"

definition Len :: "'a Table \<Rightarrow> nat" where
  "Len t = length (t_names t)"

text \<open>The symbols \<open>Each\<close> calls its argument on, in order.\<close>

definition Each :: "'a Table \<Rightarrow> 'a option list" where
  "Each t = map (t_m t) (t_names t)"

text \<open>\<open>put\<close>, with the symbol's name as an argument.\<close>

definition put :: "string \<Rightarrow> 'a \<Rightarrow> 'a Table \<Rightarrow> 'a Table" where
  "put name s t =
    t\<lparr>t_names := (if t_m t name = None then t_names t @ [name] else t_names t),
      t_m := (t_m t)(name \<mapsto> s)\<rparr>"

definition table_inv :: "'a Table \<Rightarrow> bool" where
  "table_inv t \<longleftrightarrow> distinct (t_names t) \<and> set (t_names t) = dom (t_m t)"

text \<open>What the binder relies on in a symbol table: lookups after a \<open>put\<close>, an order of names
  that later puts only extend, and a walk over what the names hold.\<close>

locale ordered_table =
  fixes inv :: "'t \<Rightarrow> bool" and emptyt :: 't and lookup :: "'t \<Rightarrow> string \<Rightarrow> 'a option"
    and insert_name :: "string \<Rightarrow> 'a \<Rightarrow> 't \<Rightarrow> 't" and names :: "'t \<Rightarrow> string list" and walk :: "'t \<Rightarrow> 'a option list"
  assumes inv_empty: "inv emptyt"
    and inv_insert: "inv t \<Longrightarrow> inv (insert_name n s t)"
    and lookup_empty: "lookup emptyt n = None"
    and lookup_insert: "inv t \<Longrightarrow> lookup (insert_name n s t) k = (if k = n then Some s else lookup t k)"
    and names_empty: "names emptyt = []"
    and names_insert: "inv t \<Longrightarrow> names (insert_name n s t) = (if n \<in> set (names t) then names t else names t @ [n])"
    and names_distinct: "inv t \<Longrightarrow> distinct (names t)"
    and walk_names: "inv t \<Longrightarrow> walk t = map (lookup t) (names t)"
    and names_found: "inv t \<Longrightarrow> n \<in> set (names t) \<Longrightarrow> lookup t n \<noteq> None"
begin

definition inserts :: "(string \<times> 'a) list \<Rightarrow> 't" where
  "inserts ps = foldl (\<lambda>t p. insert_name (fst p) (snd p) t) emptyt ps"

lemma inserts_snoc: "inserts (ps @ [p]) = insert_name (fst p) (snd p) (inserts ps)"
  by (simp add: inserts_def)

lemma inserts_inv: "inv (inserts ps)"
  by (induction ps rule: rev_induct) (simp_all add: inserts_snoc inv_insert inv_empty inserts_def)

lemma inserts_lookup: "lookup (inserts ps) n = map_of (rev ps) n"
proof (induction ps rule: rev_induct)
  case (snoc p ps)
  then show ?case by (cases p) (simp add: inserts_snoc lookup_insert [OF inserts_inv])
qed (simp add: inserts_def lookup_empty)

text \<open>The order is that of the first insertion of each name.\<close>

lemma inserts_names: "names (inserts ps) = rev (remdups (rev (map fst ps)))"
proof (induction ps rule: rev_induct)
  case (snoc p ps)
  then show ?case by (simp add: inserts_snoc names_insert [OF inserts_inv])
qed (simp add: inserts_def names_empty)

lemma inserts_walk: "walk (inserts ps) = map (map_of (rev ps)) (rev (remdups (rev (map fst ps))))"
  by (simp add: walk_names [OF inserts_inv] inserts_names inserts_lookup [abs_def])

end

lemma table_inv_put: "table_inv t \<Longrightarrow> table_inv (put n s t)"
  by (auto simp: table_inv_def put_def)

interpretation symtab: ordered_table "\<lambda>t. table_inv t \<and> t_aliases t = Map.empty" empty_table Get put t_names Each
proof unfold_locales
  fix t :: "'a Table" and n k s
  assume t: "table_inv t \<and> t_aliases t = Map.empty"
  then show "table_inv (put n s t) \<and> t_aliases (put n s t) = Map.empty"
    using table_inv_put [of t n s] by (simp add: put_def)
  show "Get (put n s t) k = (if k = n then Some s else Get t k)"
    by (simp add: Get_def put_def split: option.split)
  show "t_names (put n s t) = (if n \<in> set (t_names t) then t_names t else t_names t @ [n])"
    using t by (auto simp: put_def table_inv_def)
  show "distinct (t_names t)" using t by (simp add: table_inv_def)
  show "Each t = map (Get t) (t_names t)"
    using t by (auto simp: Each_def Get_def table_inv_def split: option.split)
  show "n \<in> set (t_names t) \<Longrightarrow> Get t n \<noteq> None"
    using t by (auto simp: Get_def table_inv_def split: option.split)
qed (simp_all add: empty_table_def table_inv_def Get_def)

section \<open>Clashes\<close>

lemma namespace_flag_namespace:
  assumes "decl_wf d" and "dc_Kind d = NamespaceDecl"
  shows "has_flag (dc_Flags d) (FunctionFlag # ClassFlag # NamespaceModule # TypeModule # Enum_masks)"
  using assms by (auto simp: decl_wf_def has_flag_Cons)

lemma alias_flag_type:
  assumes "has_flag f [TypeAlias]"
  shows "has_flag f (InterfaceFlag # TypeAlias # ClassFlag # Enum_masks)"
  using assms by (simp add: has_flag_Cons)

text \<open>Whether two declarations clash, and how, does not depend on which came first.\<close>

lemma clashes_symmetric:
  assumes "decl_wf a" and "decl_wf b"
  shows "clashes A a b annexB = clashes A b a annexB"
proof -
  note ns = namespace_flag_namespace [OF assms(1)] namespace_flag_namespace [OF assms(2)]
  note al = alias_flag_type [of "dc_Flags a"] alias_flag_type [of "dc_Flags b"]
  show ?thesis
    using ns al unfolding clashes_def Let_def
    by (cases "dc_Kind a"; cases "dc_Kind b") auto
qed

end
