(* ===== verification/Scopes.thy ===== *)
theory Scopes
  imports Symbols "HOL-Library.Product_Lexorder"
begin

text \<open>
  The binder's scopes (\<open>binder/symbol.go\<close>, \<open>binder/binder.go\<close>): opening and leaving a
  scope, declaring a name, resolving one, hoisting a \<open>var\<close> and the redeclaration
  conflicts they report. Scopes and symbols are kept in two lists, their pointers the
  indices; a loop up the parents is a partial function, whose \<open>None\<close> is a loop that does
  not end and whose \<open>Some None\<close> is a loop that reached \<open>nil\<close>.
\<close>

section \<open>State\<close>

record Scope =
  sc_Kind :: ScopeKind
  sc_Node :: "node_ptr option"
  sc_Parent :: "scope_ptr option"
  sc_Symbols :: "symbol_ptr Table"
  sc_Inline :: bool
  sc_ParamArguments :: "symbol_ptr option"

record hoist =
  ho_sym :: symbol_ptr
  ho_decl :: Declaration
  ho_through :: "scope_ptr list"

record Conflict =
  cf_Symbol :: symbol_ptr
  cf_Decl :: Declaration
  cf_Clash :: Clash

record binder_state =
  b_Scopes :: "Scope list"
  b_Symbols :: "Symbol list"
  b_symbols :: "symbol_ptr list"
  b_Conflicts :: "Conflict list"
  b_declaring :: bool
  b_scopes :: "node_ptr \<times> nat \<rightharpoonup> scope_ptr"
  b_opened :: "node_ptr \<rightharpoonup> scope_ptr"
  b_cur :: "scope_ptr option"
  b_nsPrefix :: string
  b_hoists :: "hoist list"
  b_annexB :: bool
  b_plain :: bool
  b_inBody :: bool
  b_inParams :: bool
  b_bodyScope :: "scope_ptr option"
  b_paramScope :: "scope_ptr option"

abbreviation scope_at :: "'a binder_state_scheme \<Rightarrow> scope_ptr \<Rightarrow> Scope" where
  "scope_at b s \<equiv> b_Scopes b ! s"

abbreviation symbol_at :: "'a binder_state_scheme \<Rightarrow> symbol_ptr \<Rightarrow> Symbol" where
  "symbol_at b sp \<equiv> b_Symbols b ! sp"

definition upd_scope :: "scope_ptr \<Rightarrow> (Scope \<Rightarrow> Scope) \<Rightarrow> 'a binder_state_scheme \<Rightarrow> 'a binder_state_scheme" where
  "upd_scope s f b = b\<lparr>b_Scopes := (b_Scopes b)[s := f (scope_at b s)]\<rparr>"

definition upd_symbol :: "symbol_ptr \<Rightarrow> (Symbol \<Rightarrow> Symbol) \<Rightarrow> 'a binder_state_scheme \<Rightarrow> 'a binder_state_scheme" where
  "upd_symbol sp f b = b\<lparr>b_Symbols := (b_Symbols b)[sp := f (symbol_at b sp)]\<rparr>"

section \<open>Walking up the scopes\<close>

text \<open>The loops \<open>for s := p; s != nil; s = s.Parent\<close>: the first answer of \<open>f\<close> on the way up.\<close>

partial_function (option) walk_up ::
  "Scope list \<Rightarrow> (scope_ptr \<Rightarrow> 'c option) \<Rightarrow> scope_ptr option \<Rightarrow> 'c option option" where
  "walk_up H f p =
    (case p of
       None \<Rightarrow> Some None
     | Some s \<Rightarrow> (case f s of Some r \<Rightarrow> Some (Some r) | None \<Rightarrow> walk_up H f (sc_Parent (H ! s))))"

declare walk_up.simps [code]

definition containerOf :: "Scope list \<Rightarrow> scope_ptr \<Rightarrow> scope_ptr option option" where
  "containerOf H s = walk_up H (\<lambda>s. if sc_Kind (H ! s) \<noteq> FunctionScope \<and> sc_Kind (H ! s) \<noteq> ModuleScope
     \<or> sc_Inline (H ! s) then None else Some s) (Some s)"

definition functionOf :: "Scope list \<Rightarrow> scope_ptr \<Rightarrow> scope_ptr option option" where
  "functionOf H s = walk_up H (\<lambda>s. if sc_Kind (H ! s) \<noteq> FunctionScope \<and> sc_Kind (H ! s) \<noteq> ModuleScope
     then None else Some s) (Some s)"

definition is_arrow :: "ast \<Rightarrow> node_ptr option \<Rightarrow> bool" where
  "is_arrow A n = (case n of Some n \<Rightarrow> (case node_at A n of ArrowFunction _ \<Rightarrow> True | _ \<Rightarrow> False) | None \<Rightarrow> False)"

definition thisScope :: "ast \<Rightarrow> Scope list \<Rightarrow> scope_ptr option \<Rightarrow> scope_ptr option option" where
  "thisScope A H p = walk_up H (\<lambda>s. if sc_Kind (H ! s) = ModuleScope then Some s
     else if sc_Kind (H ! s) = FunctionScope \<and> \<not> is_arrow A (sc_Node (H ! s)) then Some s else None) p"

definition functionScope :: "'a binder_state_scheme \<Rightarrow> scope_ptr option option" where
  "functionScope b = walk_up (b_Scopes b) (\<lambda>s. if sc_Kind (scope_at b s) \<noteq> FunctionScope
     \<and> sc_Kind (scope_at b s) \<noteq> ModuleScope \<and> sc_Kind (scope_at b s) \<noteq> NamespaceScope then None else Some s)
     (b_cur b)"

section \<open>Opening and leaving\<close>

definition enter :: "ast \<Rightarrow> node_ptr \<Rightarrow> nat \<Rightarrow> ScopeKind \<Rightarrow> 'a binder_state_scheme \<Rightarrow> scope_ptr \<times> 'a binder_state_scheme" where
  "enter A node tag kind b =
    (case b_scopes b (node, tag) of
       Some s \<Rightarrow> (s, b\<lparr>b_cur := Some s\<rparr>)
     | None \<Rightarrow>
       (let s = length (b_Scopes b);
            is_node = node_at A node \<noteq> NotASyntaxNode;
            b = b\<lparr>b_Scopes := b_Scopes b @ [\<lparr>sc_Kind = kind, sc_Node = (if is_node then Some node else None),
                    sc_Parent = b_cur b, sc_Symbols = empty_table, sc_Inline = False, sc_ParamArguments = None\<rparr>],
                  b_scopes := (b_scopes b)((node, tag) \<mapsto> s)\<rparr>;
            b = (if is_node \<and> tag = 0 \<and> b_opened b node = None
                 then b\<lparr>b_opened := (b_opened b)(node \<mapsto> s)\<rparr> else b)
        in (s, b\<lparr>b_cur := Some s\<rparr>)))"

text \<open>The scope around the program's own, which the builtin declarations are bound into.\<close>

definition open_globals :: "'a binder_state_scheme \<Rightarrow> 'a binder_state_scheme" where
  "open_globals b =
    b\<lparr>b_Scopes := b_Scopes b @ [\<lparr>sc_Kind = ModuleScope, sc_Node = None, sc_Parent = None,
        sc_Symbols = empty_table, sc_Inline = False, sc_ParamArguments = None\<rparr>],
      b_cur := Some (length (b_Scopes b))\<rparr>"

text \<open>\<open>None\<close>: there is no current scope to leave.\<close>

definition leave :: "'a binder_state_scheme \<Rightarrow> 'a binder_state_scheme option" where
  "leave b = (case b_cur b of Some s \<Rightarrow> Some (b\<lparr>b_cur := sc_Parent (scope_at b s)\<rparr>) | None \<Rightarrow> None)"

section \<open>Declaring\<close>

definition new_declaration ::
  "ast \<Rightarrow> scope_ptr \<Rightarrow> SymbolFlags \<Rightarrow> DeclKind \<Rightarrow> node_ptr option \<Rightarrow> 'a binder_state_scheme \<Rightarrow> Declaration" where
  "new_declaration A s flags kind node b =
    \<lparr>dc_Node = node, dc_Pos = (case node of Some n \<Rightarrow> GetPos A n | None \<Rightarrow> \<lparr>p_Line = 0, p_Col = 0\<rparr>),
     dc_Flags = flags, dc_Kind = kind, dc_Plain = b_plain b, dc_Body = (b_inBody b \<and> Some s = b_bodyScope b)\<rparr>"

definition source_name :: "scope_ptr \<Rightarrow> string \<Rightarrow> 'a binder_state_scheme \<Rightarrow> string" where
  "source_name s name b =
    (if b_nsPrefix b \<noteq> '''' \<and> sc_Kind (scope_at b s) = NamespaceScope
     then TrimPrefix name (b_nsPrefix b) else name)"

text \<open>The loop over the earlier declarations, and the conflict it records.\<close>

definition check_clash :: "ast \<Rightarrow> symbol_ptr \<Rightarrow> Declaration \<Rightarrow> 'a binder_state_scheme \<Rightarrow> 'a binder_state_scheme" where
  "check_clash A sp d b =
    (case List.find (\<lambda>prev. clashes A prev d (b_annexB b) \<noteq> NoClash) (sym_Declarations (symbol_at b sp)) of
       Some prev \<Rightarrow> b\<lparr>b_Conflicts := b_Conflicts b @
         [\<lparr>cf_Symbol = sp, cf_Decl = d, cf_Clash = clashes A prev d (b_annexB b)\<rparr>]\<rparr>
     | None \<Rightarrow> b)"

definition add_declaration :: "symbol_ptr \<Rightarrow> Declaration \<Rightarrow> 'a binder_state_scheme \<Rightarrow> 'a binder_state_scheme" where
  "add_declaration sp d b =
    upd_symbol sp (\<lambda>sym. sym\<lparr>sym_Flags := Bit_Operations.or (sym_Flags sym) (dc_Flags d),
      sym_Declarations := sym_Declarations sym @ [d]\<rparr>) b"

definition new_symbol :: "scope_ptr \<Rightarrow> string \<Rightarrow> Declaration \<Rightarrow> 'a binder_state_scheme \<Rightarrow> symbol_ptr \<times> 'a binder_state_scheme" where
  "new_symbol s name d b =
    (let sp = length (b_Symbols b);
         sym = \<lparr>sym_ID = length (b_symbols b) + 1, sym_Name = name, sym_Flags = dc_Flags d,
           sym_Declarations = [d], sym_Scope = Some s, sym_Implicit = False, sym_Display = ''''\<rparr>;
         b = b\<lparr>b_Symbols := b_Symbols b @ [sym]\<rparr>;
         b = upd_scope s (\<lambda>sc. sc\<lparr>sc_Symbols := put name sp (sc_Symbols sc)\<rparr>) b
     in (sp, b\<lparr>b_symbols := b_symbols b @ [sp]\<rparr>))"

definition declare_name ::
  "ast \<Rightarrow> scope_ptr \<Rightarrow> string \<Rightarrow> SymbolFlags \<Rightarrow> DeclKind \<Rightarrow> node_ptr option \<Rightarrow> 'a binder_state_scheme
   \<Rightarrow> symbol_ptr option \<times> 'a binder_state_scheme" where
  "declare_name A s name flags kind node b =
    (if \<not> b_declaring b \<or> name = '''' then (None, b)
     else
       let name = source_name s name b;
           d = new_declaration A s flags kind node b;
           found = Get (sc_Symbols (scope_at b s)) name
       in case found of
            Some sp \<Rightarrow>
              if \<not> sym_Implicit (symbol_at b sp)
              then (Some sp, add_declaration sp d (check_clash A sp d b))
              else
                let b = (if dc_Body d then upd_scope s (\<lambda>sc. sc\<lparr>sc_ParamArguments := Some sp\<rparr>) b else b);
                    (sp', b) = new_symbol s name d b
                in (Some sp', b)
          | None \<Rightarrow> (let (sp', b) = new_symbol s name d b in (Some sp', b)))"
section \<open>Resolving\<close>

definition onlyBody :: "Symbol \<Rightarrow> bool" where
  "onlyBody sy \<longleftrightarrow> \<not> (sym_Implicit sy \<or> sym_Declarations sy = []) \<and> list_all dc_Body (sym_Declarations sy)"

text \<open>What one scope on the way up answers to a value reference.\<close>

definition offers :: "string \<Rightarrow> 'a binder_state_scheme \<Rightarrow> scope_ptr \<Rightarrow> symbol_ptr option" where
  "offers name b s =
    (case Get (sc_Symbols (scope_at b s)) name of
       None \<Rightarrow> None
     | Some sp \<Rightarrow>
         if \<not> has_flag (sym_Flags (symbol_at b sp)) Value_masks then None
         else if b_inParams b \<and> Some s = b_paramScope b \<and> onlyBody (symbol_at b sp)
         then (if sc_ParamArguments (scope_at b s) \<noteq> None \<and> name = ''arguments''
               then sc_ParamArguments (scope_at b s) else None)
         else Some sp)"

definition resolveName :: "string \<Rightarrow> 'a binder_state_scheme \<Rightarrow> symbol_ptr option option" where
  "resolveName name b = walk_up (b_Scopes b) (offers name b) (b_cur b)"

definition unmangled :: "string \<Rightarrow> 'a binder_state_scheme \<Rightarrow> string" where
  "unmangled name b =
    (if b_nsPrefix b \<noteq> '''' \<and> (case b_cur b of Some s \<Rightarrow> sc_Kind (scope_at b s) = NamespaceScope | None \<Rightarrow> False)
     then TrimPrefix name (b_nsPrefix b) else name)"

text \<open>\<open>local\<close>: \<open>None\<close> where there is no current scope.\<close>

definition local_symbol :: "string \<Rightarrow> 'a binder_state_scheme \<Rightarrow> symbol_ptr option option" where
  "local_symbol name b =
    (case b_cur b of Some s \<Rightarrow> Some (Get (sc_Symbols (scope_at b s)) (unmangled name b)) | None \<Rightarrow> None)"

section \<open>Hoisting\<close>

partial_function (option) through_scopes ::
  "Scope list \<Rightarrow> scope_ptr \<Rightarrow> scope_ptr option \<Rightarrow> scope_ptr list option" where
  "through_scopes H target p =
    (case p of
       None \<Rightarrow> None
     | Some s \<Rightarrow> if s = target then Some []
         else Option.bind (through_scopes H target (sc_Parent (H ! s))) (\<lambda>ss. Some (s # ss)))"

declare through_scopes.simps [code]

text \<open>\<open>None\<close>: no scope to hoist to (the code would dereference \<open>nil\<close>).\<close>

definition declareVariable :: "ast \<Rightarrow> string \<Rightarrow> string \<Rightarrow> node_ptr option \<Rightarrow> 'a binder_state_scheme \<Rightarrow> 'a binder_state_scheme option" where
  "declareVariable A kind name node b =
    (if kind = ''var'' then
       (case functionScope b of
          Some (Some target) \<Rightarrow>
            (case declare_name A target name FunctionScopedVariable VarLike node b of
               (Some sp, b) \<Rightarrow>
                 if b_cur b \<noteq> Some target then
                   (case through_scopes (b_Scopes b) target (b_cur b) of
                      Some through \<Rightarrow> Some (b\<lparr>b_hoists := b_hoists b @ [\<lparr>ho_sym = sp,
                        ho_decl = last (sym_Declarations (symbol_at b sp)), ho_through = through\<rparr>]\<rparr>)
                    | None \<Rightarrow> None)
                 else Some b
             | (None, b) \<Rightarrow> Some b)
        | _ \<Rightarrow> None)
     else (case b_cur b of
             Some s \<Rightarrow> Some (snd (declare_name A s name BlockScopedVariable Lexical node b))
           | None \<Rightarrow> None))"

text \<open>\<open>None\<close>: there is no current scope.\<close>

definition functionDeclKind :: "'a binder_state_scheme \<Rightarrow> DeclKind option" where
  "functionDeclKind b =
    (case b_cur b of
       Some s \<Rightarrow> Some (if sc_Kind (scope_at b s) = BlockScope \<or> sc_Kind (scope_at b s) = CatchScope
                      then Lexical else VarLike)
     | None \<Rightarrow> None)"

definition lexical :: "Symbol \<Rightarrow> bool" where
  "lexical sy \<longleftrightarrow> list_ex (\<lambda>d. dc_Kind d = Lexical) (sym_Declarations sy)"

fun hoist_conflict :: "hoist \<Rightarrow> scope_ptr list \<Rightarrow> 'a binder_state_scheme \<Rightarrow> 'a binder_state_scheme" where
  "hoist_conflict h [] b = b"
| "hoist_conflict h (s # ss) b =
    (case Get (sc_Symbols (scope_at b s)) (sym_Name (symbol_at b (ho_sym h))) of
       None \<Rightarrow> hoist_conflict h ss b
     | Some sp \<Rightarrow>
         if lexical (symbol_at b sp)
         then b\<lparr>b_Conflicts := b_Conflicts b @ [\<lparr>cf_Symbol = sp, cf_Decl = ho_decl h, cf_Clash = Redeclaration\<rparr>]\<rparr>
         else hoist_conflict h ss b)"

definition checkHoists :: "'a binder_state_scheme \<Rightarrow> 'a binder_state_scheme" where
  "checkHoists b = fold (\<lambda>h. hoist_conflict h (ho_through h)) (b_hoists b) b"

section \<open>Reporting\<close>

definition DuplicateIdentifier :: Message where
  "DuplicateIdentifier = syntax_msg 2300 (''identifier '' @ [CHR 0x27] @ ''%s'' @ [CHR 0x27] @ '' has already been declared'')"

definition RedeclaredBlockScoped :: Message where
  "RedeclaredBlockScoped = syntax_msg 2451 (''identifier '' @ [CHR 0x27] @ ''%s'' @ [CHR 0x27] @ '' has already been declared'')"

definition DuplicateFunctionImpl :: Message where
  "DuplicateFunctionImpl = syntax_msg 2393 (''duplicate function implementation of '' @ [CHR 0x27] @ ''%s'' @ [CHR 0x27])"

definition unsupported_msg :: "nat \<Rightarrow> string \<Rightarrow> Message" where
  "unsupported_msg code text =
    \<lparr>m_Code = code, m_Severity = Error, m_Kind = Unsupported, m_Phase = PhaseParse, m_Text = text\<rparr>"

definition UnsupportedDeclarationMerge :: Message where
  "UnsupportedDeclarationMerge = unsupported_msg 90022
    (''merging the declarations of '' @ [CHR 0x27] @ ''%s'' @ [CHR 0x27] @ '' is not yet supported'')"

definition conflict_message :: "'a binder_state_scheme \<Rightarrow> Conflict \<Rightarrow> Message" where
  "conflict_message b c =
    (if cf_Clash c = UnsupportedMerge then UnsupportedDeclarationMerge
     else if cf_Clash c = DuplicateImplementation then DuplicateFunctionImpl
     else if has_flag (dc_Flags (cf_Decl c)) [BlockScopedVariable]
       \<or> has_flag (sym_Flags (symbol_at b (cf_Symbol c))) [BlockScopedVariable]
     then RedeclaredBlockScoped
     else DuplicateIdentifier)"

definition conflict_diagnostic :: "unicode_tables \<Rightarrow> (nat \<Rightarrow> nat \<Rightarrow> int) option \<Rightarrow> 'a binder_state_scheme \<Rightarrow> Conflict \<Rightarrow> Diagnostic" where
  "conflict_diagnostic U offset b c =
    (let p = dc_Pos (cf_Decl c);
         start = (case offset of Some f \<Rightarrow> f (p_Line p) (p_Col p) | None \<Rightarrow> - 1)
     in New_diag U (conflict_message b c) \<lparr>s_File = '''', s_Pos = p, s_Start = start, s_End = start\<rparr>
          [ArgStr (sym_Name (symbol_at b (cf_Symbol c)))])"

definition diag_place :: "Diagnostic \<Rightarrow> nat \<times> nat" where
  "diag_place d = (p_Line (s_Pos (d_Span d)), p_Col (s_Pos (d_Span d)))"

text \<open>\<open>sort.SliceStable\<close> by line, then column.\<close>

definition Diagnostics :: "unicode_tables \<Rightarrow> (nat \<Rightarrow> nat \<Rightarrow> int) option \<Rightarrow> 'a binder_state_scheme \<Rightarrow> Diagnostic list" where
  "Diagnostics U offset b = sort_key diag_place (map (conflict_diagnostic U offset b) (b_Conflicts b))"

section \<open>The implicit arguments object\<close>

text \<open>What \<open>function\<close> does for a function that is not an arrow: an \<open>arguments\<close> with no
  declaration, unless its scope has that name.\<close>

definition declare_arguments :: "ast \<Rightarrow> scope_ptr \<Rightarrow> bool \<Rightarrow> 'a binder_state_scheme \<Rightarrow> 'a binder_state_scheme" where
  "declare_arguments A s arrow b =
    (if \<not> arrow \<and> b_declaring b \<and> Get (sc_Symbols (scope_at b s)) ''arguments'' = None then
       (case declare_name A s ''arguments'' FunctionScopedVariable NameOnly None b of
          (Some sp, b) \<Rightarrow> upd_symbol sp (\<lambda>y. y\<lparr>sym_Implicit := True, sym_Declarations := []\<rparr>) b
        | (None, b) \<Rightarrow> b)
     else b)"

text \<open>A function expression bound as part of its caller's flow.\<close>

definition mark_inline :: "scope_ptr \<Rightarrow> 'a binder_state_scheme \<Rightarrow> 'a binder_state_scheme" where
  "mark_inline s b = upd_scope s (\<lambda>sc. sc\<lparr>sc_Inline := True\<rparr>) b"

end
