(* ===== verification/ScopeFacts.thy ===== *)
theory ScopeFacts
  imports Scopes
begin

text \<open>
  Facts on the binder's scopes: the chain of scopes a walk up the parents visits, the
  invariant of the declaring pass, and its preservation by every step of that pass.
\<close>

section \<open>The chain of enclosing scopes\<close>

function scope_chain :: "Scope list \<Rightarrow> scope_ptr \<Rightarrow> scope_ptr list" where
  "scope_chain H s =
    s # (case sc_Parent (H ! s) of
           Some q \<Rightarrow> if q < s then scope_chain H q else []
         | None \<Rightarrow> [])"
  by pat_completeness auto
termination
  by (relation "measure snd") simp_all

declare scope_chain.simps [simp del]

definition scope_tree :: "Scope list \<Rightarrow> bool" where
  "scope_tree H \<longleftrightarrow> (\<forall>s < length H. case sc_Parent (H ! s) of
     None \<Rightarrow> sc_Kind (H ! s) = ModuleScope \<and> \<not> sc_Inline (H ! s)
   | Some q \<Rightarrow> q < s)"

lemma scope_treeD:
  assumes "scope_tree H" "s < length H" "sc_Parent (H ! s) = Some q"
  shows "q < s" and "q < length H"
  using assms by (auto simp: scope_tree_def dest!: spec [of _ s])

lemma scope_tree_root:
  assumes "scope_tree H" "s < length H" "sc_Parent (H ! s) = None"
  shows "sc_Kind (H ! s) = ModuleScope" and "\<not> sc_Inline (H ! s)"
  using assms by (auto simp: scope_tree_def dest!: spec [of _ s])

lemma scope_chain_Some:
  assumes "scope_tree H" "s < length H" "sc_Parent (H ! s) = Some q"
  shows "scope_chain H s = s # scope_chain H q"
  using scope_treeD [OF assms] assms(3) by (simp add: scope_chain.simps [of H s])

lemma scope_chain_None:
  assumes "sc_Parent (H ! s) = None"
  shows "scope_chain H s = [s]"
  using assms by (simp add: scope_chain.simps [of H s])

text \<open>The first answer along a list.\<close>

fun first_answer :: "('a \<Rightarrow> 'b option) \<Rightarrow> 'a list \<Rightarrow> 'b option" where
  "first_answer f [] = None"
| "first_answer f (x # xs) = (case f x of Some r \<Rightarrow> Some r | None \<Rightarrow> first_answer f xs)"

lemma first_answer_append:
  "first_answer f (xs @ ys) = (case first_answer f xs of Some r \<Rightarrow> Some r | None \<Rightarrow> first_answer f ys)"
  by (induction xs) (auto split: option.split)

lemma first_answer_None: "first_answer f xs = None \<longleftrightarrow> (\<forall>x \<in> set xs. f x = None)"
  by (induction xs) (auto split: option.split)

lemma first_answer_Some: "first_answer f xs = Some r \<Longrightarrow> \<exists>x \<in> set xs. f x = Some r"
  by (induction xs) (auto split: option.splits)

lemma walk_up_chain:
  assumes "scope_tree H" "s < length H"
  shows "walk_up H f (Some s) = Some (first_answer f (scope_chain H s))"
  using assms(2)
proof (induction s rule: less_induct)
  case (less s)
  show ?case
  proof (cases "sc_Parent (H ! s)")
    case None
    then show ?thesis
      by (subst walk_up.simps) (simp add: scope_chain_None walk_up.simps [of H f None] split: option.split)
  next
    case (Some q)
    from scope_treeD [OF assms(1) less.prems Some] less.IH
    have "walk_up H f (Some q) = Some (first_answer f (scope_chain H q))" by simp
    then show ?thesis
      by (subst walk_up.simps) (simp add: scope_chain_Some [OF assms(1) less.prems Some] Some split: option.split)
  qed
qed

lemma scope_chain_bound:
  assumes "scope_tree H" "s < length H" "t \<in> set (scope_chain H s)"
  shows "t \<le> s" and "t < length H"
proof -
  have "t \<le> s" using assms(2,3)
  proof (induction s rule: less_induct)
    case (less s)
    show ?case
    proof (cases "sc_Parent (H ! s)")
      case None
      with less.prems show ?thesis by (simp add: scope_chain_None)
    next
      case (Some q)
      with less scope_treeD [OF assms(1) less.prems(1) Some] show ?thesis
        by (fastforce simp: scope_chain_Some [OF assms(1) less.prems(1) Some])
    qed
  qed
  then show "t \<le> s" and "t < length H" using assms(2) by simp_all
qed

text \<open>The outermost scope is a module's.\<close>

lemma scope_chain_root:
  assumes "scope_tree H" "s < length H"
  shows "\<exists>t \<in> set (scope_chain H s). sc_Kind (H ! t) = ModuleScope \<and> \<not> sc_Inline (H ! t)"
  using assms(2)
proof (induction s rule: less_induct)
  case (less s)
  show ?case
  proof (cases "sc_Parent (H ! s)")
    case None
    then show ?thesis using scope_tree_root [OF assms(1) less.prems None] by (simp add: scope_chain_None)
  next
    case (Some q)
    then show ?thesis using less scope_treeD [OF assms(1) less.prems Some]
      by (auto simp: scope_chain_Some [OF assms(1) less.prems Some])
  qed
qed

lemma through_scopes_chain:
  assumes "scope_tree H" "s < length H" "t \<in> set (scope_chain H s)"
  shows "through_scopes H t (Some s) = Some (takeWhile (\<lambda>u. u \<noteq> t) (scope_chain H s))"
  using assms(2,3)
proof (induction s rule: less_induct)
  case (less s)
  show ?case
  proof (cases "sc_Parent (H ! s)")
    case None
    note c = scope_chain_None [OF None]
    with less.prems have t: "t = s" by simp
    show ?thesis unfolding t c by (subst through_scopes.simps) simp
  next
    case (Some q)
    note q = scope_treeD [OF assms(1) less.prems(1) Some] and c = scope_chain_Some [OF assms(1) less.prems(1) Some]
    show ?thesis
    proof (cases "s = t")
      case True
      then have t: "t = s" ..
      show ?thesis unfolding t c by (subst through_scopes.simps) simp
    next
      case False
      with less.prems c have "t \<in> set (scope_chain H q)" by simp
      from less.IH [OF q this] False Some show ?thesis
        by (subst through_scopes.simps) (simp add: c)
    qed
  qed
qed

section \<open>The declaring pass as steps\<close>

definition init_state :: "bool \<Rightarrow> binder_state" where
  "init_state annexB =
    \<lparr>b_Scopes = [], b_Symbols = [], b_symbols = [], b_Conflicts = [], b_declaring = True,
     b_scopes = Map.empty, b_opened = Map.empty, b_cur = None, b_nsPrefix = '''', b_hoists = [],
     b_annexB = annexB, b_plain = False, b_inBody = False, b_inParams = False,
     b_bodyScope = None, b_paramScope = None\<rparr>"

definition set_context :: "string \<Rightarrow> bool \<Rightarrow> bool \<Rightarrow> scope_ptr option \<Rightarrow> bool \<Rightarrow> scope_ptr option
    \<Rightarrow> 'a binder_state_scheme \<Rightarrow> 'a binder_state_scheme" where
  "set_context nsPrefix plain inBody bodyScope inParams paramScope b =
    b\<lparr>b_nsPrefix := nsPrefix, b_plain := plain, b_inBody := inBody, b_bodyScope := bodyScope,
      b_inParams := inParams, b_paramScope := paramScope\<rparr>"

text \<open>What the traversal of the first pass does to the state: it opens and leaves scopes,
  declares names in scopes that exist, and sets the context of a declaration. A namespace
  is declared with a namespace's flag, and only a module's scope has no parent.\<close>

inductive pass1 :: "ast \<Rightarrow> 'a binder_state_scheme \<Rightarrow> 'a binder_state_scheme \<Rightarrow> bool" for A where
  Globals: "b_cur b = None \<Longrightarrow> pass1 A b (open_globals b)"
| Enter: "b_cur b = None \<longrightarrow> kind = ModuleScope \<Longrightarrow> pass1 A b (snd (enter A node tag kind b))"
| Leave: "leave b = Some b' \<Longrightarrow> pass1 A b b'"
| Declare: "s < length (b_Scopes b) \<Longrightarrow> kind = NamespaceDecl \<longrightarrow> has_flag flags [NamespaceModule, TypeModule]
    \<Longrightarrow> pass1 A b (snd (declare_name A s name flags kind node b))"
| Variable: "declareVariable A kw name node b = Some b' \<Longrightarrow> pass1 A b b'"
| Arguments: "s < length (b_Scopes b) \<Longrightarrow> sc_Kind (scope_at b s) = FunctionScope \<Longrightarrow> pass1 A b (declare_arguments A s arrow b)"
| Inline: "s < length (b_Scopes b) \<Longrightarrow> sc_Kind (scope_at b s) = FunctionScope \<Longrightarrow> pass1 A b (mark_inline s b)"
| Context: "pass1 A b (set_context nsPrefix plain inBody bodyScope inParams paramScope b)"

section \<open>Its invariant\<close>

definition scopes_ok :: "'a binder_state_scheme \<Rightarrow> bool" where
  "scopes_ok b \<longleftrightarrow> scope_tree (b_Scopes b) \<and> (\<forall>s. b_cur b = Some s \<longrightarrow> s < length (b_Scopes b))
     \<and> (\<forall>k s. b_scopes b k = Some s \<longrightarrow> s < length (b_Scopes b))"

definition table_ok :: "'a binder_state_scheme \<Rightarrow> scope_ptr \<Rightarrow> symbol_ptr Table \<Rightarrow> bool" where
  "table_ok b s t \<longleftrightarrow> table_inv t \<and> t_aliases t = Map.empty \<and>
     (\<forall>n sp. t_m t n = Some sp \<longrightarrow> sp < length (b_Symbols b) \<and> sym_Name (symbol_at b sp) = n
        \<and> sym_Scope (symbol_at b sp) = Some s)"

definition tables_ok :: "'a binder_state_scheme \<Rightarrow> bool" where
  "tables_ok b \<longleftrightarrow> (\<forall>s < length (b_Scopes b). table_ok b s (sc_Symbols (scope_at b s)))"

definition symbol_ok :: "Symbol \<Rightarrow> bool" where
  "symbol_ok y \<longleftrightarrow> (if sym_Implicit y then sym_Declarations y = []
     else sym_Declarations y \<noteq> [] \<and> sym_Flags y = foldl Bit_Operations.or 0 (map dc_Flags (sym_Declarations y)))
     \<and> (\<forall>d \<in> set (sym_Declarations y). decl_wf d)"

definition symbols_ok :: "'a binder_state_scheme \<Rightarrow> bool" where
  "symbols_ok b \<longleftrightarrow> b_symbols b = [0..<length (b_Symbols b)] \<and>
     (\<forall>i < length (b_Symbols b). sym_ID (symbol_at b i) = Suc i \<and> symbol_ok (symbol_at b i))"

text \<open>The conflicts a symbol's declarations record, in their order: one for each declaration
  that clashes with an earlier one.\<close>

definition clash_at :: "ast \<Rightarrow> bool \<Rightarrow> symbol_ptr \<Rightarrow> Declaration list \<Rightarrow> Declaration \<Rightarrow> Conflict list" where
  "clash_at A x sp ds d =
    (case List.find (\<lambda>prev. clashes A prev d x \<noteq> NoClash) ds of
       Some prev \<Rightarrow> [\<lparr>cf_Symbol = sp, cf_Decl = d, cf_Clash = clashes A prev d x\<rparr>]
     | None \<Rightarrow> [])"

definition decl_conflicts :: "ast \<Rightarrow> bool \<Rightarrow> symbol_ptr \<Rightarrow> Declaration list \<Rightarrow> Conflict list" where
  "decl_conflicts A x sp ds = concat (map (\<lambda>j. clash_at A x sp (take j ds) (ds ! j)) [0..<length ds])"

lemma decl_conflicts_Nil [simp]: "decl_conflicts A x sp [] = []"
  by (simp add: decl_conflicts_def)

lemma decl_conflicts_snoc: "decl_conflicts A x sp (ds @ [d]) = decl_conflicts A x sp ds @ clash_at A x sp ds d"
proof -
  have eq: "map (\<lambda>j. clash_at A x sp (take j (ds @ [d])) ((ds @ [d]) ! j)) [0..<length ds]
      = map (\<lambda>j. clash_at A x sp (take j ds) (ds ! j)) [0..<length ds]"
    by (rule map_cong) (simp_all add: nth_append)
  show ?thesis by (simp add: decl_conflicts_def eq del: take_append map_eq_conv) (simp add: take_append)
qed

definition conflicts_ok :: "ast \<Rightarrow> 'a binder_state_scheme \<Rightarrow> bool" where
  "conflicts_ok A b \<longleftrightarrow>
     (\<forall>c \<in> set (b_Conflicts b). cf_Symbol c < length (b_Symbols b)) \<and>
     (\<forall>sp < length (b_Symbols b). filter (\<lambda>c. cf_Symbol c = sp) (b_Conflicts b)
        = decl_conflicts A (b_annexB b) sp (sym_Declarations (symbol_at b sp)))"

definition binder_inv :: "ast \<Rightarrow> 'a binder_state_scheme \<Rightarrow> bool" where
  "binder_inv A b \<longleftrightarrow> scopes_ok b \<and> tables_ok b \<and> symbols_ok b \<and> conflicts_ok A b"

lemmas binder_inv_defs = binder_inv_def scopes_ok_def tables_ok_def symbols_ok_def conflicts_ok_def

lemma init_inv: "binder_inv A (init_state x)"
  by (simp add: binder_inv_defs init_state_def scope_tree_def)

lemma context_inv: "binder_inv A (set_context p q r s t u b) = binder_inv A b"
  by (simp add: binder_inv_defs set_context_def table_ok_def)

lemma cur_inv: "binder_inv A b \<Longrightarrow> (case p of Some s \<Rightarrow> s < length (b_Scopes b) | None \<Rightarrow> True) \<Longrightarrow> binder_inv A (b\<lparr>b_cur := p\<rparr>)"
  by (auto simp: binder_inv_defs table_ok_def)

lemma leave_inv:
  assumes "binder_inv A b" "leave b = Some b'"
  shows "binder_inv A b'"
proof -
  from assms(2) obtain s where s: "b_cur b = Some s" and b': "b' = b\<lparr>b_cur := sc_Parent (scope_at b s)\<rparr>"
    by (auto simp: leave_def split: option.splits)
  from assms(1) s have t: "scope_tree (b_Scopes b)" "s < length (b_Scopes b)" by (auto simp: binder_inv_defs)
  show ?thesis unfolding b'
    by (rule cur_inv [OF assms(1)]) (use scope_treeD [OF t] in \<open>auto split: option.split\<close>)
qed

text \<open>A new scope, and one already there.\<close>

lemma new_scope_inv:
  assumes "binder_inv A b"
    and "sc_Symbols sc = empty_table" and "\<not> sc_Inline sc"
    and "case sc_Parent sc of None \<Rightarrow> sc_Kind sc = ModuleScope | Some q \<Rightarrow> q < length (b_Scopes b)"
  shows "binder_inv A (b\<lparr>b_Scopes := b_Scopes b @ [sc]\<rparr>)"
proof -
  have "scope_tree (b_Scopes b @ [sc])"
    using assms by (auto simp: binder_inv_defs scope_tree_def nth_append less_Suc_eq split: option.splits)
  then have "scopes_ok (b\<lparr>b_Scopes := b_Scopes b @ [sc]\<rparr>)"
    using assms(1) by (auto simp: binder_inv_def scopes_ok_def intro: less_SucI)
  moreover have "table_ok b s empty_table" for s
    by (simp add: table_ok_def empty_table_def table_inv_def)
  then have "tables_ok (b\<lparr>b_Scopes := b_Scopes b @ [sc]\<rparr>)"
    using assms(1,2) by (simp add: binder_inv_def tables_ok_def table_ok_def nth_append less_Suc_eq empty_table_def)
  ultimately show ?thesis
    using assms(1) by (simp add: binder_inv_def symbols_ok_def conflicts_ok_def)
qed

lemma enter_inv:
  assumes "binder_inv A b" "b_cur b = None \<longrightarrow> kind = ModuleScope"
  shows "binder_inv A (snd (enter A node tag kind b))"
proof (cases "b_scopes b (node, tag)")
  case (Some s)
  then show ?thesis using assms(1) by (auto simp: enter_def binder_inv_defs table_ok_def)
next
  case None
  define sc where "sc = \<lparr>sc_Kind = kind, sc_Node = (if node_at A node \<noteq> NotASyntaxNode then Some node else None),
     sc_Parent = b_cur b, sc_Symbols = (empty_table :: symbol_ptr Table), sc_Inline = False, sc_ParamArguments = None\<rparr>"
  have "binder_inv A (b\<lparr>b_Scopes := b_Scopes b @ [sc]\<rparr>)"
    by (rule new_scope_inv [OF assms(1)])
      (use assms in \<open>auto simp: sc_def binder_inv_defs split: option.split\<close>)
  then show ?thesis
    using None by (cases "node_at A node = NotASyntaxNode") (auto simp: enter_def Let_def sc_def binder_inv_defs table_ok_def)
qed

lemma open_globals_inv: "binder_inv A b \<Longrightarrow> binder_inv A (open_globals b)"
  unfolding open_globals_def
  by (drule new_scope_inv [where sc = "\<lparr>sc_Kind = ModuleScope, sc_Node = None, sc_Parent = None,
        sc_Symbols = empty_table, sc_Inline = False, sc_ParamArguments = None\<rparr>"])
    (auto simp: binder_inv_defs table_ok_def)

text \<open>Declaring again.\<close>

lemma clash_at_symbol: "c \<in> set (clash_at A x sp ds d) \<Longrightarrow> cf_Symbol c = sp"
  by (auto simp: clash_at_def split: option.splits)

lemma check_clash_eq:
  "check_clash A sp d b = b\<lparr>b_Conflicts := b_Conflicts b @ clash_at A (b_annexB b) sp (sym_Declarations (symbol_at b sp)) d\<rparr>"
  by (simp add: check_clash_def clash_at_def split: option.split)

lemma filter_clash_at: "filter (\<lambda>c. cf_Symbol c = sp') (clash_at A x sp ds d) = (if sp' = sp then clash_at A x sp ds d else [])"
  by (auto simp: clash_at_def split: option.split)

lemma redeclare_inv:
  assumes inv: "binder_inv A b" and sp: "sp < length (b_Symbols b)" "\<not> sym_Implicit (symbol_at b sp)"
    and d: "decl_wf d"
  shows "binder_inv A (add_declaration sp d (check_clash A sp d b))"
proof -
  let ?b = "add_declaration sp d (check_clash A sp d b)"
  have f: "b_Scopes ?b = b_Scopes b" "b_cur ?b = b_cur b" "b_scopes ?b = b_scopes b" "b_symbols ?b = b_symbols b"
      "length (b_Symbols ?b) = length (b_Symbols b)" "b_annexB ?b = b_annexB b"
    by (simp_all add: add_declaration_def upd_symbol_def check_clash_eq)
  have y: "symbol_at ?b i = (if i = sp then (symbol_at b sp)\<lparr>sym_Flags := Bit_Operations.or (sym_Flags (symbol_at b sp)) (dc_Flags d),
      sym_Declarations := sym_Declarations (symbol_at b sp) @ [d]\<rparr> else symbol_at b i)" for i
    using sp by (simp add: add_declaration_def upd_symbol_def check_clash_eq nth_list_update)
  have c: "b_Conflicts ?b = b_Conflicts b @ clash_at A (b_annexB b) sp (sym_Declarations (symbol_at b sp)) d"
    by (simp add: add_declaration_def upd_symbol_def check_clash_eq)
  have "symbol_ok (symbol_at b sp)" using inv sp by (simp add: binder_inv_defs)
  then have "symbols_ok ?b" "scopes_ok ?b" "tables_ok ?b"
    using inv sp d by (auto simp: binder_inv_defs f y symbol_ok_def table_ok_def)
  moreover have "conflicts_ok A ?b"
    using inv sp by (auto simp: binder_inv_defs f y c decl_conflicts_snoc filter_clash_at dest: clash_at_symbol)
  ultimately show ?thesis by (simp add: binder_inv_def)
qed

text \<open>A new symbol.\<close>

lemma new_symbol_simps:
  assumes "new_symbol s name d b = (sp, b')"
  shows "sp = length (b_Symbols b)"
    and "b_Symbols b' = b_Symbols b @ [\<lparr>sym_ID = length (b_symbols b) + 1, sym_Name = name, sym_Flags = dc_Flags d,
       sym_Declarations = [d], sym_Scope = Some s, sym_Implicit = False, sym_Display = ''''\<rparr>]"
    and "b_Scopes b' = (b_Scopes b)[s := (scope_at b s)\<lparr>sc_Symbols := put name sp (sc_Symbols (scope_at b s))\<rparr>]"
    and "b_symbols b' = b_symbols b @ [sp]" and "b_cur b' = b_cur b" and "b_scopes b' = b_scopes b"
    and "b_Conflicts b' = b_Conflicts b" and "b_annexB b' = b_annexB b" and "b_declaring b' = b_declaring b"
    and "b_hoists b' = b_hoists b"
  using assms by (auto simp: new_symbol_def upd_scope_def Let_def)

lemma put_simps: "t_m (put m sp t) = (t_m t)(m \<mapsto> sp)" "t_aliases (put m sp t) = t_aliases t"
  by (simp_all add: put_def)

lemma clash_at_Nil [simp]: "clash_at A x sp [] d = []"
  by (simp add: clash_at_def)

lemma scope_tree_update:
  assumes "scope_tree H" "s < length H" "sc_Parent sc = sc_Parent (H ! s)" "sc_Kind sc = sc_Kind (H ! s)" "sc_Inline sc = sc_Inline (H ! s)"
  shows "scope_tree (H[s := sc])"
  using assms by (auto simp: scope_tree_def nth_list_update split: option.splits)

lemma new_symbol_inv:
  assumes inv: "binder_inv A b" and s: "s < length (b_Scopes b)" and d: "decl_wf d"
    and b': "new_symbol s name d b = (sp, b')"
  shows "binder_inv A b'"
proof -
  note n = new_symbol_simps [OF b']
  have "scopes_ok b'"
    using inv s by (simp add: binder_inv_defs n scope_tree_update)
  moreover have "table_ok b' t (sc_Symbols (scope_at b' t))" if "t < length (b_Scopes b')" for t
  proof -
    have "table_ok b t (sc_Symbols (scope_at b t))" using inv that by (simp add: binder_inv_defs n)
    then show ?thesis
      using s table_inv_put [of "sc_Symbols (scope_at b t)"]
      by (auto simp: table_ok_def n nth_list_update nth_append put_simps split: if_splits intro: less_SucI)
  qed
  then have "tables_ok b'" by (simp add: tables_ok_def)
  moreover have "symbols_ok b'"
    using inv d by (auto simp: binder_inv_defs n symbol_ok_def nth_append less_Suc_eq)
  moreover have "conflicts_ok A b'"
    using inv by (auto simp: binder_inv_defs n nth_append less_Suc_eq decl_conflicts_def filter_empty_conv)
  ultimately show ?thesis by (simp add: binder_inv_def)
qed

section \<open>Every step keeps the invariant\<close>

lemma paramArguments_inv:
  assumes "binder_inv A b" "s < length (b_Scopes b)"
  shows "binder_inv A (upd_scope s (\<lambda>sc. sc\<lparr>sc_ParamArguments := p\<rparr>) b)"
  using assms by (auto simp: binder_inv_defs upd_scope_def table_ok_def nth_list_update scope_tree_update)

lemma mark_inline_inv:
  assumes "binder_inv A b" "s < length (b_Scopes b)" "sc_Kind (scope_at b s) = FunctionScope"
  shows "binder_inv A (mark_inline s b)"
proof -
  have "scope_tree ((b_Scopes b)[s := (scope_at b s)\<lparr>sc_Inline := True\<rparr>])"
    using assms by (auto simp: binder_inv_defs scope_tree_def nth_list_update split: option.splits)
  then show ?thesis
    using assms by (auto simp: binder_inv_defs mark_inline_def upd_scope_def table_ok_def nth_list_update)
qed

lemma Get_ok:
  assumes "binder_inv A b" "s < length (b_Scopes b)" "Get (sc_Symbols (scope_at b s)) n = Some sp"
  shows "sp < length (b_Symbols b)" and "sym_Name (symbol_at b sp) = n" and "sym_Scope (symbol_at b sp) = Some s"
proof -
  from assms(1,2) have "table_ok b s (sc_Symbols (scope_at b s))" by (simp add: binder_inv_def tables_ok_def)
  with assms(3) show "sp < length (b_Symbols b)" and "sym_Name (symbol_at b sp) = n" and "sym_Scope (symbol_at b sp) = Some s"
    by (auto simp: table_ok_def Get_def split: option.splits)
qed

lemma declare_frame:
  assumes "declare_name A s name flags kind node b = (r, b')" "s < length (b_Scopes b)"
  shows "length (b_Scopes b') = length (b_Scopes b)" and "b_cur b' = b_cur b" and "b_annexB b' = b_annexB b"
    and "b_declaring b' = b_declaring b" and "b_hoists b' = b_hoists b"
    and "\<And>t. sc_Parent (scope_at b' t) = sc_Parent (scope_at b t)"
  using assms
  by (auto simp: declare_name_def new_symbol_def upd_scope_def add_declaration_def upd_symbol_def
      check_clash_eq Let_def nth_list_update split: if_splits option.splits)

lemma declare_cases:
  assumes "declare_name A s name flags kind node b = (r, b')"
  obtains (off) "\<not> b_declaring b \<or> name = ''''" "r = None" "b' = b"
  | (again) sp where "Get (sc_Symbols (scope_at b s)) (source_name s name b) = Some sp"
      "\<not> sym_Implicit (symbol_at b sp)" "r = Some sp" "b_declaring b"
      "b' = add_declaration sp (new_declaration A s flags kind node b)
         (check_clash A sp (new_declaration A s flags kind node b) b)"
  | (fresh) sp q where "r = Some sp" "b_declaring b"
      "new_symbol s (source_name s name b) (new_declaration A s flags kind node b) q = (sp, b')"
      "q = b \<or> (\<exists>p. q = upd_scope s (\<lambda>sc. sc\<lparr>sc_ParamArguments := p\<rparr>) b)"
proof -
  let ?d = "new_declaration A s flags kind node b"
  let ?n = "source_name s name b"
  show thesis
  proof (cases "\<not> b_declaring b \<or> name = ''''")
    case True
    with assms have "r = None" "b' = b" by (auto simp: declare_name_def)
    with True show thesis by (rule off)
  next
    case on: False
    define q where "q = (case Get (sc_Symbols (scope_at b s)) ?n of
        Some sp \<Rightarrow> if dc_Body ?d then upd_scope s (\<lambda>sc. sc\<lparr>sc_ParamArguments := Some sp\<rparr>) b else b | None \<Rightarrow> b)"
    have q: "q = b \<or> (\<exists>p. q = upd_scope s (\<lambda>sc. sc\<lparr>sc_ParamArguments := p\<rparr>) b)"
      by (auto simp: q_def split: option.split)
    obtain sp b1 where n: "new_symbol s ?n ?d q = (sp, b1)" by fastforce
    show thesis
    proof (cases "\<exists>sp. Get (sc_Symbols (scope_at b s)) ?n = Some sp \<and> \<not> sym_Implicit (symbol_at b sp)")
      case True
      then obtain sp where sp: "Get (sc_Symbols (scope_at b s)) ?n = Some sp" "\<not> sym_Implicit (symbol_at b sp)" by blast
      with assms on have "r = Some sp" "b' = add_declaration sp ?d (check_clash A sp ?d b)" "b_declaring b"
        by (simp_all add: declare_name_def Let_def)
      with sp show thesis by (intro again)
    next
      case False
      with on n assms have "r = Some sp" "b' = b1"
        by (auto simp: declare_name_def Let_def q_def split: option.splits)
      with n on have "r = Some sp" "b_declaring b" "new_symbol s ?n ?d q = (sp, b')" by simp_all
      from this q show thesis by (rule fresh)
    qed
  qed
qed

lemma declare_inv:
  assumes inv: "binder_inv A b" and s: "s < length (b_Scopes b)"
    and k: "kind = NamespaceDecl \<longrightarrow> has_flag flags [NamespaceModule, TypeModule]"
    and r: "declare_name A s name flags kind node b = (r, b')"
  shows "binder_inv A b'"
proof -
  have d: "decl_wf (new_declaration A s flags kind node b)" using k by (simp add: decl_wf_def new_declaration_def)
  from r show ?thesis
  proof (cases rule: declare_cases)
    case (again sp)
    then show ?thesis using redeclare_inv [OF inv _ _ d] Get_ok [OF inv s] by simp
  next
    case (fresh sp q)
    then have "binder_inv A q" "s < length (b_Scopes q)"
      using inv s paramArguments_inv [OF inv s] by (auto simp: upd_scope_def)
    then show ?thesis using fresh(3) new_symbol_inv d by blast
  qed (use inv in simp)
qed

lemma functionScope_found:
  assumes "binder_inv A b" "b_cur b = Some s"
  obtains t where "functionScope b = Some (Some t)" "t \<in> set (scope_chain (b_Scopes b) s)" "t < length (b_Scopes b)"
proof -
  let ?f = "\<lambda>s. if sc_Kind (scope_at b s) \<noteq> FunctionScope
     \<and> sc_Kind (scope_at b s) \<noteq> ModuleScope \<and> sc_Kind (scope_at b s) \<noteq> NamespaceScope then None else Some s"
  have t: "scope_tree (b_Scopes b)" and s: "s < length (b_Scopes b)" using assms by (simp_all add: binder_inv_defs)
  have w: "functionScope b = Some (first_answer ?f (scope_chain (b_Scopes b) s))"
    unfolding functionScope_def assms(2) by (rule walk_up_chain [OF t s])
  obtain u where "u \<in> set (scope_chain (b_Scopes b) s)" "sc_Kind (scope_at b u) = ModuleScope"
    using scope_chain_root [OF t s] by blast
  then have "first_answer ?f (scope_chain (b_Scopes b) s) \<noteq> None" by (auto simp: first_answer_None)
  then obtain v where v: "first_answer ?f (scope_chain (b_Scopes b) s) = Some v" by blast
  from first_answer_Some [OF this] have "v \<in> set (scope_chain (b_Scopes b) s)" by (auto split: if_splits)
  with v w scope_chain_bound [OF t s] that show thesis by simp
qed

lemma declareVariable_inv:
  assumes inv: "binder_inv A b" and b': "declareVariable A kw name node b = Some b'"
  shows "binder_inv A b'"
proof -
  from b' obtain s where s: "b_cur b = Some s" 
    by (cases "b_cur b") (auto simp: declareVariable_def functionScope_def walk_up.simps split: if_splits)
  then have "s < length (b_Scopes b)" using inv by (simp add: binder_inv_defs)
  from declare_inv [OF inv this] 
  have d: "binder_inv A (snd (declare_name A s name BlockScopedVariable Lexical node b))" by (metis DeclKind.distinct(11) surj_pair snd_conv)
  obtain t where t: "functionScope b = Some (Some t)" "t < length (b_Scopes b)"
    using functionScope_found [OF inv s] by blast
  obtain r b1 where r: "declare_name A t name FunctionScopedVariable VarLike node b = (r, b1)" by fastforce
  have i1: "binder_inv A b1" by (rule declare_inv [OF inv t(2) _ r]) simp
  then have hoist: "binder_inv A (b1\<lparr>b_hoists := hs\<rparr>)" for hs
    by (simp add: binder_inv_defs table_ok_def)
  show ?thesis
    using b' s t(1) r d i1 hoist by (auto simp: declareVariable_def split: if_splits option.splits)
qed

lemma arguments_inv:
  assumes inv: "binder_inv A b" and s: "s < length (b_Scopes b)" and k: "sc_Kind (scope_at b s) = FunctionScope"
  shows "binder_inv A (declare_arguments A s arrow b)"
proof (cases "\<not> arrow \<and> b_declaring b \<and> Get (sc_Symbols (scope_at b s)) ''arguments'' = None")
  case True
  let ?d = "new_declaration A s FunctionScopedVariable NameOnly None b"
  let ?imp = "\<lambda>y. y\<lparr>sym_Implicit := True, sym_Declarations := []\<rparr>"
  have d: "decl_wf ?d" by (simp add: decl_wf_def new_declaration_def)
  obtain sp b1 where n: "new_symbol s ''arguments'' ?d b = (sp, b1)" by fastforce
  note ns = new_symbol_simps [OF n]
  have eq: "declare_arguments A s arrow b = upd_symbol sp ?imp b1"
    using True n k by (simp add: declare_arguments_def declare_name_def source_name_def Let_def)
  have i1: "binder_inv A b1" by (rule new_symbol_inv [OF inv s d n])
  have fresh: "filter (\<lambda>c. cf_Symbol c = sp) (b_Conflicts b1) = []"
    using inv by (auto simp: ns binder_inv_defs filter_empty_conv)
  have at: "symbol_at (upd_symbol sp ?imp b1) i = (if i = sp then ?imp (symbol_at b1 i) else symbol_at b1 i)" for i
    by (auto simp: upd_symbol_def ns nth_list_update nth_append)
  have f: "b_Scopes (upd_symbol sp ?imp b1) = b_Scopes b1" "b_cur (upd_symbol sp ?imp b1) = b_cur b1"
      "b_scopes (upd_symbol sp ?imp b1) = b_scopes b1" "b_symbols (upd_symbol sp ?imp b1) = b_symbols b1"
      "length (b_Symbols (upd_symbol sp ?imp b1)) = length (b_Symbols b1)"
      "b_Conflicts (upd_symbol sp ?imp b1) = b_Conflicts b1" "b_annexB (upd_symbol sp ?imp b1) = b_annexB b1"
    by (simp_all add: upd_symbol_def)
  show ?thesis unfolding eq
    using i1 fresh by (auto simp: binder_inv_defs f at table_ok_def symbol_ok_def)
qed (use inv in \<open>auto simp: declare_arguments_def\<close>)

lemma declare_inv_snd:
  assumes "binder_inv A b" "s < length (b_Scopes b)" "kind = NamespaceDecl \<longrightarrow> has_flag flags [NamespaceModule, TypeModule]"
  shows "binder_inv A (snd (declare_name A s name flags kind node b))"
  using declare_inv [OF assms] by (cases "declare_name A s name flags kind node b") simp

lemma pass1_inv:
  assumes "pass1 A b b'" "binder_inv A b"
  shows "binder_inv A b'"
  using assms
proof (induction rule: pass1.induct)
  case (Globals b)
  show ?case by (rule open_globals_inv [OF Globals.prems])
next
  case (Enter b kind node tag)
  show ?case by (rule enter_inv [OF Enter.prems Enter.hyps])
next
  case (Leave b b')
  show ?case by (rule leave_inv [OF Leave.prems Leave.hyps])
next
  case (Declare s b kind flags name node)
  show ?case by (rule declare_inv_snd [OF Declare.prems Declare.hyps])
next
  case (Variable kw name node b b')
  show ?case by (rule declareVariable_inv [OF Variable.prems Variable.hyps])
next
  case (Arguments s b arrow)
  show ?case by (rule arguments_inv [OF Arguments.prems Arguments.hyps])
next
  case (Inline s b)
  show ?case by (rule mark_inline_inv [OF Inline.prems Inline.hyps])
next
  case (Context b)
  then show ?case by (simp only: context_inv)
qed

text \<open>The states of the first pass.\<close>

inductive reachable :: "ast \<Rightarrow> bool \<Rightarrow> binder_state \<Rightarrow> bool" for A x where
  start: "reachable A x (init_state x)"
| step: "reachable A x b \<Longrightarrow> pass1 A b b' \<Longrightarrow> reachable A x b'"

lemma reachable_inv: "reachable A x b \<Longrightarrow> binder_inv A b"
  by (induction rule: reachable.induct) (blast intro: init_inv pass1_inv)+

end
