(* ===== verification/ScopeProps.thy ===== *)
theory ScopeProps
  imports ScopeFacts
begin

text \<open>
  Properties of the binder's scopes: the states of the declaring pass are consistent, the
  walks up the scopes return, the conflicts recorded are the clashes there are, a name
  resolves to its innermost declaration, and a hoisted \<open>var\<close> conflicts with the lexical
  names it passes.
\<close>

text \<open>A module with a function in it, whose body declares a block.\<close>

definition small_ast :: ast where
  "small_ast = \<lparr>node_at = \<lambda>n. if n = 7 then FunctionDeclaration \<lparr>fd_Body = Some 8, fd_Ambient = False\<rparr> else OtherNode,
     GetPos = \<lambda>n. \<lparr>p_Line = 1, p_Col = n\<rparr>\<rparr>"

definition small_state :: binder_state where
  "small_state =
    (let b = snd (enter small_ast 0 0 ModuleScope (init_state False));
         b = snd (enter small_ast 7 0 FunctionScope b);
         b = snd (declare_name small_ast 1 ''x'' BlockScopedVariable Lexical (Some 9) b)
     in snd (enter small_ast 8 0 BlockScope b))"

lemma small_state_reachable: "reachable small_ast False small_state"
proof -
  note r = reachable.step
  have 1: "reachable small_ast False (snd (enter small_ast 0 0 ModuleScope (init_state False)))" (is "reachable _ _ ?b1")
    by (rule r [OF reachable.start pass1.Enter]) simp
  have 2: "reachable small_ast False (snd (enter small_ast 7 0 FunctionScope ?b1))" (is "reachable _ _ ?b2")
    by (rule r [OF 1 pass1.Enter]) (simp add: enter_def init_state_def Let_def)
  have l2: "length (b_Scopes ?b2) = 2" "b_cur ?b2 = Some 1"
    by (simp_all add: enter_def init_state_def small_ast_def Let_def)
  obtain p b3 where b3: "declare_name small_ast 1 ''x'' BlockScopedVariable Lexical (Some 9) ?b2 = (p, b3)" by fastforce
  have 3: "reachable small_ast False b3"
    using r [OF 2 pass1.Declare [of 1 _ Lexical BlockScopedVariable small_ast "''x''" "Some 9"]] l2 b3 by simp
  have "b_cur b3 = Some 1" using declare_frame(2) [OF b3] l2 by simp
  then have "reachable small_ast False (snd (enter small_ast 8 0 BlockScope b3))"
    by (intro r [OF 3 pass1.Enter]) simp
  then show ?thesis using b3 by (simp add: small_state_def Let_def)
qed

text \<open>The same, with the name declared once more.\<close>

definition clash_state :: binder_state where
  "clash_state = snd (declare_name small_ast 1 ''x'' BlockScopedVariable Lexical (Some 10) small_state)"

lemma small_state_scopes: "1 < length (b_Scopes small_state)" "2 < length (b_Scopes small_state)"
  by code_simp+

lemma clash_state_reachable: "reachable small_ast False clash_state"
  unfolding clash_state_def
  by (intro reachable.step [OF small_state_reachable pass1.Declare]) (use small_state_scopes in simp_all)

section \<open>Consistent states\<close>

text \<open>C20. In every state of the declaring pass, the symbols are numbered from one in the order
  they were created, a name a scope's table holds is a created symbol of that name and scope,
  and a symbol's flags are the union of its declarations' flags.\<close>

theorem declared_symbols_consistent:
  assumes "reachable A x b"
  shows "map (\<lambda>sp. sym_ID (symbol_at b sp)) (b_symbols b) = [1..<Suc (length (b_symbols b))]
    \<and> (\<forall>s < length (b_Scopes b). \<forall>n sp. Get (sc_Symbols (scope_at b s)) n = Some sp \<longrightarrow>
       sp \<in> set (b_symbols b) \<and> sym_Name (symbol_at b sp) = n \<and> sym_Scope (symbol_at b sp) = Some s)
    \<and> (\<forall>sp \<in> set (b_symbols b). \<not> sym_Implicit (symbol_at b sp) \<longrightarrow>
       sym_Flags (symbol_at b sp) = foldl Bit_Operations.or 0 (map dc_Flags (sym_Declarations (symbol_at b sp))))"
proof (intro conjI)
  note inv = reachable_inv [OF assms]
  then have sy: "b_symbols b = [0..<length (b_Symbols b)]"
      "\<And>i. i < length (b_Symbols b) \<Longrightarrow> sym_ID (symbol_at b i) = Suc i \<and> symbol_ok (symbol_at b i)"
    by (auto simp: binder_inv_def symbols_ok_def)
  have "map (\<lambda>sp. sym_ID (symbol_at b sp)) [0..<length (b_Symbols b)] = map Suc [0..<length (b_Symbols b)]"
    using sy(2) by (intro map_cong) auto
  then show "map (\<lambda>sp. sym_ID (symbol_at b sp)) (b_symbols b) = [1..<Suc (length (b_symbols b))]"
    by (simp add: sy(1) map_Suc_upt)
  show "\<forall>s < length (b_Scopes b). \<forall>n sp. Get (sc_Symbols (scope_at b s)) n = Some sp \<longrightarrow>
       sp \<in> set (b_symbols b) \<and> sym_Name (symbol_at b sp) = n \<and> sym_Scope (symbol_at b sp) = Some s"
    using Get_ok [OF inv] by (simp add: sy(1))
  show "\<forall>sp \<in> set (b_symbols b). \<not> sym_Implicit (symbol_at b sp) \<longrightarrow>
       sym_Flags (symbol_at b sp) = foldl Bit_Operations.or 0 (map dc_Flags (sym_Declarations (symbol_at b sp)))"
    using sy by (simp add: symbol_ok_def)
qed

text \<open>C21. The walks up the scopes return: every scope has a function or module it is in and one
  its code runs in, the current scope has a scope a \<open>var\<close> hoists to and a scope whose \<open>this\<close>
  it means, and every name resolves, to a symbol or to none.\<close>

theorem scope_walks_return:
  assumes "reachable A x b" and "b_cur b = Some s"
  shows "(\<exists>t. functionOf (b_Scopes b) s = Some (Some t) \<and> sc_Kind (scope_at b t) \<in> {FunctionScope, ModuleScope})
    \<and> (\<exists>t. containerOf (b_Scopes b) s = Some (Some t) \<and> sc_Kind (scope_at b t) \<in> {FunctionScope, ModuleScope}
       \<and> \<not> sc_Inline (scope_at b t))
    \<and> (\<exists>t. functionScope b = Some (Some t))
    \<and> (\<exists>t. thisScope A (b_Scopes b) (b_cur b) = Some (Some t))
    \<and> (\<exists>r. resolveName name b = Some r)"
proof (intro conjI)
  note inv = reachable_inv [OF assms(1)]
  then have t: "scope_tree (b_Scopes b)" and s: "s < length (b_Scopes b)"
    using assms(2) by (simp_all add: binder_inv_defs)
  obtain u where u: "u \<in> set (scope_chain (b_Scopes b) s)" "sc_Kind (scope_at b u) = ModuleScope" "\<not> sc_Inline (scope_at b u)"
    using scope_chain_root [OF t s] by blast
  have found: "\<exists>v. walk_up (b_Scopes b) f (Some s) = Some (Some v) \<and> (\<exists>w. f w = Some v)" if "f u \<noteq> None" for f :: "scope_ptr \<Rightarrow> scope_ptr option"
  proof -
    from u(1) that have "first_answer f (scope_chain (b_Scopes b) s) \<noteq> None" by (auto simp: first_answer_None)
    then show ?thesis using first_answer_Some by (fastforce simp: walk_up_chain [OF t s])
  qed
  show "\<exists>t. functionOf (b_Scopes b) s = Some (Some t) \<and> sc_Kind (scope_at b t) \<in> {FunctionScope, ModuleScope}"
    unfolding functionOf_def
    using found [of "\<lambda>s. if sc_Kind (scope_at b s) \<noteq> FunctionScope \<and> sc_Kind (scope_at b s) \<noteq> ModuleScope
      then None else Some s"] u by (auto split: if_splits)
  show "\<exists>t. containerOf (b_Scopes b) s = Some (Some t) \<and> sc_Kind (scope_at b t) \<in> {FunctionScope, ModuleScope}
       \<and> \<not> sc_Inline (scope_at b t)"
    unfolding containerOf_def
    using found [of "\<lambda>s. if sc_Kind (scope_at b s) \<noteq> FunctionScope \<and> sc_Kind (scope_at b s) \<noteq> ModuleScope
      \<or> sc_Inline (scope_at b s) then None else Some s"] u by (auto split: if_splits)
  show "\<exists>t. functionScope b = Some (Some t)" by (rule functionScope_found [OF inv assms(2)]) blast
  show "\<exists>t. thisScope A (b_Scopes b) (b_cur b) = Some (Some t)"
    unfolding thisScope_def assms(2)
    using found [of "\<lambda>s. if sc_Kind (scope_at b s) = ModuleScope then Some s
      else if sc_Kind (scope_at b s) = FunctionScope \<and> \<not> is_arrow A (sc_Node (scope_at b s)) then Some s else None"] u
    by auto
  show "\<exists>r. resolveName name b = Some r"
    by (simp add: resolveName_def assms(2) walk_up_chain [OF t s])
qed

lemma declared_symbols_consistent_witness:
  "map (\<lambda>sp. sym_ID (symbol_at small_state sp)) (b_symbols small_state) = [1..<Suc (length (b_symbols small_state))]"
  using declared_symbols_consistent [OF small_state_reachable] by simp

lemma scope_walks_return_witness:
  "\<exists>t. containerOf (b_Scopes small_state) 2 = Some (Some t)
     \<and> sc_Kind (scope_at small_state t) \<in> {FunctionScope, ModuleScope} \<and> \<not> sc_Inline (scope_at small_state t)"
proof -
  have "b_cur small_state = Some 2" by code_simp
  from scope_walks_return [OF small_state_reachable this] show ?thesis by simp
qed

section \<open>Conflicts\<close>

lemma clash_at_decl:
  "map cf_Decl (clash_at A x sp ds d) = (if \<exists>p \<in> set ds. clashes A p d x \<noteq> NoClash then [d] else [])"
  by (auto simp: clash_at_def find_None_iff find_Some_iff split: option.split)

lemma bex_take: "j \<le> length ds \<Longrightarrow> (\<exists>p \<in> set (take j ds). P p) \<longleftrightarrow> (\<exists>i < j. P (ds ! i))"
  by (auto simp flip: nth_image)

lemma decl_conflicts_decl:
  "map cf_Decl (decl_conflicts A x sp ds)
     = map (nth ds) (filter (\<lambda>j. \<exists>i < j. clashes A (ds ! i) (ds ! j) x \<noteq> NoClash) [0..<length ds])"
proof -
  have "map cf_Decl (clash_at A x sp (take j ds) (ds ! j))
      = (if \<exists>i < j. clashes A (ds ! i) (ds ! j) x \<noteq> NoClash then [ds ! j] else [])" if "j < length ds" for j
    using that by (simp add: clash_at_decl bex_take)
  then have "map cf_Decl (decl_conflicts A x sp ds) = concat (map (\<lambda>j.
      if \<exists>i < j. clashes A (ds ! i) (ds ! j) x \<noteq> NoClash then [ds ! j] else []) [0..<length ds])"
    unfolding decl_conflicts_def map_concat map_map comp_def
    by (intro arg_cong [where f = concat] map_cong) simp_all
  moreover have "concat (map (\<lambda>j. if P j then [f j] else []) js) = map f (filter P js)" for P f and js :: "nat list"
    by (induction js) auto
  ultimately show ?thesis by simp
qed

text \<open>C22. The conflicts recorded for a symbol are its declarations that clash with an earlier
  one, each once and in their order.\<close>

theorem conflicts_exact:
  assumes "reachable A x b" and "sp < length (b_Symbols b)"
  shows "map cf_Decl (filter (\<lambda>c. cf_Symbol c = sp) (b_Conflicts b))
    = (let ds = sym_Declarations (symbol_at b sp)
       in map (nth ds) (filter (\<lambda>j. \<exists>i < j. clashes A (ds ! i) (ds ! j) (b_annexB b) \<noteq> NoClash) [0..<length ds]))"
  using reachable_inv [OF assms(1)] assms(2)
  by (simp add: binder_inv_def conflicts_ok_def decl_conflicts_decl Let_def)

lemma conflicts_exact_witness:
  "map cf_Decl (filter (\<lambda>c. cf_Symbol c = 0) (b_Conflicts clash_state)) = [sym_Declarations (symbol_at clash_state 0) ! 1]"
proof -
  have l: "(0::nat) < length (b_Symbols clash_state)" by code_simp
  have "(let ds = sym_Declarations (symbol_at clash_state 0)
       in map (nth ds) (filter (\<lambda>j. \<exists>i < j. clashes small_ast (ds ! i) (ds ! j) (b_annexB clash_state) \<noteq> NoClash) [0..<length ds]))
     = [sym_Declarations (symbol_at clash_state 0) ! 1]" by code_simp
  with conflicts_exact [OF clash_state_reachable l] show ?thesis by simp
qed

text \<open>C23. Whether a name conflicts does not depend on the order of its declarations: a symbol
  has a conflict exactly when two of its declarations clash, in whichever order.\<close>

theorem conflict_order_independent:
  assumes "reachable A x b" and "sp < length (b_Symbols b)"
  shows "(\<exists>c \<in> set (b_Conflicts b). cf_Symbol c = sp) \<longleftrightarrow>
    (let ds = sym_Declarations (symbol_at b sp)
     in \<exists>i < length ds. \<exists>j < length ds. i \<noteq> j \<and> clashes A (ds ! i) (ds ! j) (b_annexB b) \<noteq> NoClash)"
proof -
  define ds where "ds = sym_Declarations (symbol_at b sp)"
  note inv = reachable_inv [OF assms(1)]
  then have f: "filter (\<lambda>c. cf_Symbol c = sp) (b_Conflicts b) = decl_conflicts A (b_annexB b) sp ds"
    using assms(2) by (simp add: binder_inv_def conflicts_ok_def ds_def)
  have wf: "decl_wf d" if "d \<in> set ds" for d
    using inv assms(2) that by (simp add: binder_inv_def symbols_ok_def symbol_ok_def ds_def)
  have "(\<exists>c \<in> set (b_Conflicts b). cf_Symbol c = sp) \<longleftrightarrow> map cf_Decl (decl_conflicts A (b_annexB b) sp ds) \<noteq> []"
    unfolding f [symmetric] by (auto simp: filter_empty_conv)
  also have "\<dots> \<longleftrightarrow> (\<exists>j < length ds. \<exists>i < j. clashes A (ds ! i) (ds ! j) (b_annexB b) \<noteq> NoClash)"
    by (auto simp: decl_conflicts_decl filter_empty_conv)
  also have "\<dots> \<longleftrightarrow> (\<exists>i < length ds. \<exists>j < length ds. i \<noteq> j \<and> clashes A (ds ! i) (ds ! j) (b_annexB b) \<noteq> NoClash)"
  proof
    assume "\<exists>i < length ds. \<exists>j < length ds. i \<noteq> j \<and> clashes A (ds ! i) (ds ! j) (b_annexB b) \<noteq> NoClash"
    then obtain i j where ij: "i < length ds" "j < length ds" "i \<noteq> j" "clashes A (ds ! i) (ds ! j) (b_annexB b) \<noteq> NoClash"
      by blast
    moreover from ij have "clashes A (ds ! j) (ds ! i) (b_annexB b) = clashes A (ds ! i) (ds ! j) (b_annexB b)"
      by (simp add: clashes_symmetric wf)
    ultimately show "\<exists>j < length ds. \<exists>i < j. clashes A (ds ! i) (ds ! j) (b_annexB b) \<noteq> NoClash"
      by (metis linorder_neqE_nat)
  qed (metis less_trans nat_neq_iff)
  finally show ?thesis by (simp add: ds_def Let_def)
qed

lemma conflict_order_independent_witness:
  "\<exists>c \<in> set (b_Conflicts clash_state). cf_Symbol c = 0"
proof -
  have l: "(0::nat) < length (b_Symbols clash_state)" by code_simp
  have "(let ds = sym_Declarations (symbol_at clash_state 0)
     in \<exists>i < length ds. \<exists>j < length ds. i \<noteq> j \<and> clashes small_ast (ds ! i) (ds ! j) (b_annexB clash_state) \<noteq> NoClash)"
    by code_simp
  with conflict_order_independent [OF clash_state_reachable l] show ?thesis by simp
qed

section \<open>Resolution\<close>


lemma declared_found:
  assumes inv: "binder_inv A b" and s: "s < length (b_Scopes b)"
    and d: "declare_name A s name flags kind node b = (Some sp, b')"
  shows "Get (sc_Symbols (scope_at b' s)) (source_name s name b) = Some sp"
    and "sp < length (b_Symbols b')"
    and "\<exists>ds. sym_Declarations (symbol_at b' sp) = ds @ [new_declaration A s flags kind node b]"
    and "Bit_Operations.and (sym_Flags (symbol_at b' sp)) flags = flags"
    and "\<not> sym_Implicit (symbol_at b' sp)"
proof -
  from d have "Get (sc_Symbols (scope_at b' s)) (source_name s name b) = Some sp \<and> sp < length (b_Symbols b')
     \<and> (\<exists>ds. sym_Declarations (symbol_at b' sp) = ds @ [new_declaration A s flags kind node b])
     \<and> Bit_Operations.and (sym_Flags (symbol_at b' sp)) flags = flags \<and> \<not> sym_Implicit (symbol_at b' sp)"
  proof (cases rule: declare_cases)
    case (again sp')
    have "Bit_Operations.and (Bit_Operations.or (sym_Flags y) flags) flags = flags" for y
      by (simp add: bit_eq_iff bit_and_iff bit_or_iff)
    then show ?thesis using again Get_ok [OF inv s again(1)]
      by (simp add: add_declaration_def upd_symbol_def check_clash_eq new_declaration_def)
  next
    case (fresh sp' q)
    then have "length (b_Scopes q) = length (b_Scopes b)" by (auto simp: upd_scope_def)
    with s have "s < length (b_Scopes q)" by simp
    with fresh show ?thesis using new_symbol_simps [OF fresh(3)]
      by (simp add: Get_def put_simps new_declaration_def)
  qed simp
  then show "Get (sc_Symbols (scope_at b' s)) (source_name s name b) = Some sp"
    and "sp < length (b_Symbols b')"
    and "\<exists>ds. sym_Declarations (symbol_at b' sp) = ds @ [new_declaration A s flags kind node b]"
    and "Bit_Operations.and (sym_Flags (symbol_at b' sp)) flags = flags"
    and "\<not> sym_Implicit (symbol_at b' sp)" by blast+
qed




section \<open>Hoisting\<close>

text \<open>The conflict of one hoisted \<open>var\<close>: with the first scope it passes that declares its name
  lexically.\<close>

definition lexical_at :: "'a binder_state_scheme \<Rightarrow> string \<Rightarrow> scope_ptr \<Rightarrow> symbol_ptr option" where
  "lexical_at b name s =
    (case Get (sc_Symbols (scope_at b s)) name of
       Some sp \<Rightarrow> if lexical (symbol_at b sp) then Some sp else None
     | None \<Rightarrow> None)"

lemma lexical_at_frame:
  "b_Scopes c = b_Scopes b \<Longrightarrow> b_Symbols c = b_Symbols b \<Longrightarrow> lexical_at c = lexical_at b"
  by (auto simp: lexical_at_def fun_eq_iff split: option.split)

definition hoist_clash :: "'a binder_state_scheme \<Rightarrow> hoist \<Rightarrow> Conflict list" where
  "hoist_clash b h =
    (case first_answer (lexical_at b (sym_Name (symbol_at b (ho_sym h)))) (ho_through h) of
       Some sp \<Rightarrow> [\<lparr>cf_Symbol = sp, cf_Decl = ho_decl h, cf_Clash = Redeclaration\<rparr>]
     | None \<Rightarrow> [])"

lemma hoist_conflict_eq: "hoist_conflict h ss b = b\<lparr>b_Conflicts := b_Conflicts b @
    (case first_answer (lexical_at b (sym_Name (symbol_at b (ho_sym h)))) ss of
       Some sp \<Rightarrow> [\<lparr>cf_Symbol = sp, cf_Decl = ho_decl h, cf_Clash = Redeclaration\<rparr>] | None \<Rightarrow> [])\<rparr>"
  by (induction ss) (auto simp: lexical_at_def split: option.split)

lemma checkHoists_eq: "checkHoists b = b\<lparr>b_Conflicts := b_Conflicts b @ concat (map (hoist_clash b) (b_hoists b))\<rparr>"
proof -
  have "fold (\<lambda>h. hoist_conflict h (ho_through h)) hs b = b\<lparr>b_Conflicts := b_Conflicts b @ concat (map (hoist_clash b) hs)\<rparr>" for hs b
  proof (induction hs arbitrary: b)
    case (Cons h hs)
    have "hoist_clash (b\<lparr>b_Conflicts := cs\<rparr>) = hoist_clash b" for cs
      by (simp add: hoist_clash_def fun_eq_iff lexical_at_frame [of "b\<lparr>b_Conflicts := cs\<rparr>" b])
    moreover have "hoist_conflict h (ho_through h) b = b\<lparr>b_Conflicts := b_Conflicts b @ hoist_clash b h\<rparr>"
      by (simp add: hoist_conflict_eq hoist_clash_def)
    ultimately show ?case using Cons by simp
  qed simp
  then show ?thesis by (simp add: checkHoists_def)
qed

text \<open>C25. A \<open>var\<close> of a nested scope is declared in the scope it hoists to, and conflicts, when the
  hoists are checked, with the first scope between that declares its name lexically, and with
  no other.\<close>

theorem var_hoist_exact:
  assumes r: "reachable A x b" and cur: "b_cur b = Some s" and t: "functionScope b = Some (Some t)"
    and on: "b_declaring b" "name \<noteq> ''''" and nested: "s \<noteq> t"
    and v: "declareVariable A ''var'' name node b = Some b'"
  shows "\<exists>sp. Get (sc_Symbols (scope_at b' t)) (source_name t name b) = Some sp \<and>
    b_Conflicts (checkHoists b') = b_Conflicts b' @ concat (map (hoist_clash b') (b_hoists b)) @
      (case first_answer (lexical_at b' (source_name t name b)) (takeWhile (\<lambda>u. u \<noteq> t) (scope_chain (b_Scopes b) s)) of
         Some q \<Rightarrow> [\<lparr>cf_Symbol = q, cf_Decl = new_declaration A t FunctionScopedVariable VarLike node b, cf_Clash = Redeclaration\<rparr>]
       | None \<Rightarrow> [])"
proof -
  note inv = reachable_inv [OF r]
  obtain t' where "functionScope b = Some (Some t')" and tc: "t' \<in> set (scope_chain (b_Scopes b) s)" and tl: "t' < length (b_Scopes b)"
    by (rule functionScope_found [OF inv cur])
  with t have [simp]: "t' = t" by simp
  obtain p b1 where d: "declare_name A t name FunctionScopedVariable VarLike node b = (p, b1)" by fastforce
  then obtain sp where p: "p = Some sp" using on by (cases rule: declare_cases) auto
  note f = declared_found [OF inv tl [simplified] d [unfolded p]]
  have inv1: "binder_inv A b1" by (rule declare_inv [OF inv tl [simplified] _ d]) simp
  note fr = declare_frame [OF d tl [simplified]]
  have same: "scope_chain (b_Scopes b1) s = scope_chain (b_Scopes b) s" if "s < length (b_Scopes b)" for s
    using that
  proof (induction s rule: less_induct)
    case (less s)
    then show ?case using fr(6) [of s] by (auto simp: scope_chain.simps [of _ s] split: option.split)
  qed
  have "s < length (b_Scopes b)" using inv cur by (simp add: binder_inv_defs)
  with inv1 tc have th: "through_scopes (b_Scopes b1) t (Some s) = Some (takeWhile (\<lambda>u. u \<noteq> t) (scope_chain (b_Scopes b) s))"
    using through_scopes_chain [of "b_Scopes b1" s t] fr(1) same by (simp add: binder_inv_defs)
  define h where "h = \<lparr>ho_sym = sp, ho_decl = last (sym_Declarations (symbol_at b1 sp)),
    ho_through = takeWhile (\<lambda>u. u \<noteq> t) (scope_chain (b_Scopes b) s)\<rparr>"
  have b': "b' = b1\<lparr>b_hoists := b_hoists b1 @ [h]\<rparr>"
    using v t d p nested fr(2) cur th by (simp add: declareVariable_def h_def)
  have name: "sym_Name (symbol_at b1 sp) = source_name t name b"
    using Get_ok(2) [OF inv1 _ f(1)] fr(1) tl by simp
  have la: "lexical_at b' = lexical_at b1" "hoist_clash b' = hoist_clash b1"
    by (simp_all add: b' hoist_clash_def fun_eq_iff lexical_at_frame [of "b1\<lparr>b_hoists := b_hoists b1 @ [h]\<rparr>" b1])
  have "ho_decl h = new_declaration A t FunctionScopedVariable VarLike node b" using f(3) by (auto simp: h_def)
  then have "b_Conflicts (checkHoists b') = b_Conflicts b' @ concat (map (hoist_clash b') (b_hoists b)) @
      (case first_answer (lexical_at b' (source_name t name b)) (takeWhile (\<lambda>u. u \<noteq> t) (scope_chain (b_Scopes b) s)) of
         Some q \<Rightarrow> [\<lparr>cf_Symbol = q, cf_Decl = new_declaration A t FunctionScopedVariable VarLike node b, cf_Clash = Redeclaration\<rparr>]
       | None \<Rightarrow> [])"
    unfolding checkHoists_eq la by (simp add: b' fr(5) hoist_clash_def h_def name cong: option.case_cong)
  moreover have "Get (sc_Symbols (scope_at b' t)) (source_name t name b) = Some sp" using f(1) by (simp add: b')
  ultimately show ?thesis by blast
qed

definition block_state :: binder_state where
  "block_state = snd (declare_name small_ast 2 ''z'' BlockScopedVariable Lexical (Some 10) small_state)"

lemma var_hoist_exact_witness:
  "\<exists>b'. declareVariable small_ast ''var'' ''z'' (Some 11) block_state = Some b' \<and>
     length (b_Conflicts (checkHoists b')) = Suc (length (b_Conflicts b'))"
proof -
  have "2 < length (b_Scopes small_state)" by code_simp
  then have "reachable small_ast False block_state"
    unfolding block_state_def by (intro reachable.step [OF small_state_reachable pass1.Declare]) simp_all
  moreover have "b_cur block_state = Some 2" "functionScope block_state = Some (Some 1)" "b_declaring block_state"
      "(''z'' :: string) \<noteq> ''''" "(2::nat) \<noteq> 1" by code_simp+
  moreover obtain b' where b': "declareVariable small_ast ''var'' ''z'' (Some 11) block_state = Some b'"
  proof -
    have "declareVariable small_ast ''var'' ''z'' (Some 11) block_state \<noteq> None" by code_simp
    with that show thesis by blast
  qed
  ultimately have "\<exists>sp. Get (sc_Symbols (scope_at b' 1)) (source_name 1 ''z'' block_state) = Some sp \<and>
    b_Conflicts (checkHoists b') = b_Conflicts b' @ concat (map (hoist_clash b') (b_hoists block_state)) @
      (case first_answer (lexical_at b' (source_name 1 ''z'' block_state)) (takeWhile (\<lambda>u. u \<noteq> 1) (scope_chain (b_Scopes block_state) 2)) of
         Some q \<Rightarrow> [\<lparr>cf_Symbol = q, cf_Decl = new_declaration small_ast 1 FunctionScopedVariable VarLike (Some 11) block_state, cf_Clash = Redeclaration\<rparr>]
       | None \<Rightarrow> [])" by (rule var_hoist_exact)
  moreover have "b_hoists block_state = []" by code_simp
  moreover have "first_answer (lexical_at (the (declareVariable small_ast ''var'' ''z'' (Some 11) block_state))
      (source_name 1 ''z'' block_state)) (takeWhile (\<lambda>u. u \<noteq> 1) (scope_chain (b_Scopes block_state) 2)) = Some 1" by code_simp
  ultimately show ?thesis using b' by auto
qed

end
