(* ===== verification/Flow.thy ===== *)
theory Flow
  imports Scopes
begin

text \<open>
  The control-flow graph (\<open>binder/flow.go\<close>): its nodes, the operations that build it while
  references are resolved, and the questions asked of it by walking a node's antecedents
  backwards. The nodes are kept in a list, their pointers the indices; node 0 is
  \<open>unreachableFlow\<close>. Every node is made with exactly one flag, so the flags are a
  datatype and a mask test is a membership. A \<open>None\<close> is a panic or a loop that
  does not end.
\<close>

section \<open>The graph\<close>

type_synonym flow_ptr = nat

datatype FlowFlags = FlowStart | FlowScopeStart | FlowBranchLabel | FlowLoopLabel | FlowAssignment
  | FlowUnreachable | FlowTrueCondition | FlowFalseCondition | FlowSwitchClause | FlowCall
  | FlowPropertyAssignment

record FlowNode =
  fl_Flags :: FlowFlags
  fl_Antecedent :: "flow_ptr option"
  fl_Antecedents :: "flow_ptr list"
  fl_Scope :: "scope_ptr option"
  fl_Symbol :: "symbol_ptr option"
  fl_Node :: "node_ptr option"
  fl_Clause :: int
  fl_Init :: bool
  fl_Assign :: bool
  fl_Outer :: "flow_ptr option"

definition blank_flow :: "FlowFlags \<Rightarrow> FlowNode" where
  "blank_flow fl = \<lparr>fl_Flags = fl, fl_Antecedent = None, fl_Antecedents = [], fl_Scope = None,
     fl_Symbol = None, fl_Node = None, fl_Clause = 0, fl_Init = False, fl_Assign = False, fl_Outer = None\<rparr>"

abbreviation (input) unreachableFlow :: flow_ptr where "unreachableFlow \<equiv> 0"

record jumpTarget =
  j_label :: string
  j_breakTo :: flow_ptr
  j_continueTo :: "flow_ptr option"
  j_breakOnly :: bool

record stmtFrame =
  sf_start :: nat
  sf_assigned :: "symbol_ptr list"

definition maxOrd :: nat where "maxOrd = 2 ^ 63 - 1"

text \<open>What the resolving pass adds to the state: the graph under construction and what is
  recorded for each reference and symbol.\<close>

record flow_state = binder_state +
  b_Flows :: "FlowNode list"
  b_flow :: flow_ptr
  b_container :: "scope_ptr option"
  b_exceptionTargets :: "flow_ptr list"
  b_jumps :: "jumpTarget list"
  b_pendingLabel :: string
  b_returnTo :: "flow_ptr option"
  b_fnScope :: "scope_ptr option"
  b_storing :: "node_ptr option"
  b_writing :: bool
  b_ord :: nat
  b_stmts :: "stmtFrame list"
  b_refs :: "node_ptr \<rightharpoonup> symbol_ptr"
  b_globals :: "node_ptr \<Rightarrow> bool"
  b_lookupScopes :: "node_ptr \<rightharpoonup> scope_ptr"
  b_undefinedRefs :: "node_ptr \<rightharpoonup> symbol_ptr"
  b_accesses :: "node_ptr list"
  b_written :: "node_ptr \<Rightarrow> bool"
  b_asserted :: "node_ptr \<Rightarrow> bool"
  b_refFlow :: "node_ptr \<rightharpoonup> flow_ptr"
  b_refContainer :: "node_ptr \<rightharpoonup> scope_ptr"
  b_refOrd :: "node_ptr \<Rightarrow> nat"
  b_refScope :: "node_ptr \<rightharpoonup> scope_ptr"
  b_stores :: "symbol_ptr \<Rightarrow> node_ptr option list"
  b_foreignStores :: "symbol_ptr \<Rightarrow> bool"
  b_declOrd :: "symbol_ptr \<Rightarrow> nat"
  b_lastAssign :: "symbol_ptr \<rightharpoonup> nat"
  b_endReachable :: "node_ptr \<Rightarrow> bool"
  b_endFlow :: "node_ptr \<rightharpoonup> flow_ptr"
  b_fnScopes :: "node_ptr \<rightharpoonup> scope_ptr"
  b_exported :: "node_ptr \<Rightarrow> bool"
  b_Script :: bool
  b_Module :: "scope_ptr option"

abbreviation flow_at :: "'a flow_state_scheme \<Rightarrow> flow_ptr \<Rightarrow> FlowNode" where
  "flow_at b f \<equiv> b_Flows b ! f"

section \<open>Building it\<close>

definition flowing :: "'a flow_state_scheme \<Rightarrow> bool" where
  "flowing b \<longleftrightarrow> \<not> b_declaring b"

definition new_flow :: "FlowNode \<Rightarrow> 'a flow_state_scheme \<Rightarrow> flow_ptr \<times> 'a flow_state_scheme" where
  "new_flow f b = (length (b_Flows b), b\<lparr>b_Flows := b_Flows b @ [f]\<rparr>)"

definition addAntecedent :: "flow_ptr \<Rightarrow> flow_ptr option \<Rightarrow> 'a flow_state_scheme \<Rightarrow> 'a flow_state_scheme" where
  "addAntecedent label f b =
    (case f of
       None \<Rightarrow> b
     | Some f \<Rightarrow>
         if f = unreachableFlow \<or> f \<in> set (fl_Antecedents (flow_at b label)) then b
         else b\<lparr>b_Flows := (b_Flows b)[label := (flow_at b label)\<lparr>fl_Antecedents := fl_Antecedents (flow_at b label) @ [f]\<rparr>]\<rparr>)"

definition newLabel :: "FlowFlags \<Rightarrow> flow_ptr option list \<Rightarrow> 'a flow_state_scheme \<Rightarrow> flow_ptr \<times> 'a flow_state_scheme" where
  "newLabel flags antecedents b =
    (case new_flow (blank_flow flags) b of (l, b) \<Rightarrow> (l, fold (addAntecedent l) antecedents b))"

definition finish :: "flow_ptr \<Rightarrow> 'a flow_state_scheme \<Rightarrow> flow_ptr" where
  "finish label b = (if fl_Antecedents (flow_at b label) = [] then unreachableFlow else label)"

definition join :: "flow_ptr option list \<Rightarrow> 'a flow_state_scheme \<Rightarrow> flow_ptr \<times> 'a flow_state_scheme" where
  "join paths b = (case newLabel FlowBranchLabel paths b of (l, b) \<Rightarrow> (finish l b, b))"

definition mark_foreign :: "symbol_ptr option \<Rightarrow> 'a flow_state_scheme \<Rightarrow> 'a flow_state_scheme option" where
  "mark_foreign sp b =
    (case sp of
       None \<Rightarrow> Some b
     | Some sp \<Rightarrow>
       (case sym_Scope (symbol_at b sp) of
          None \<Rightarrow> Some b
        | Some sc \<Rightarrow>
          (if b_container b = None then Some b
           else case containerOf (b_Scopes b) sc of
                  Some (Some home) \<Rightarrow>
                    Some (if b_container b \<noteq> Some home then b\<lparr>b_foreignStores := (b_foreignStores b)(sp := True)\<rparr> else b)
                | _ \<Rightarrow> None)))"

definition add_assigned :: "symbol_ptr \<Rightarrow> nat \<Rightarrow> 'a flow_state_scheme \<Rightarrow> 'a flow_state_scheme" where
  "add_assigned sp i b =
    b\<lparr>b_stmts := (b_stmts b)[i := (b_stmts b ! i)\<lparr>sf_assigned := sf_assigned (b_stmts b ! i) @ [sp]\<rparr>]\<rparr>"

definition lastAssign_or_0 :: "'a flow_state_scheme \<Rightarrow> symbol_ptr \<Rightarrow> nat" where
  "lastAssign_or_0 b sp = (case b_lastAssign b sp of Some n \<Rightarrow> n | None \<Rightarrow> 0)"

definition markAssignment :: "symbol_ptr \<Rightarrow> 'a flow_state_scheme \<Rightarrow> 'a flow_state_scheme option" where
  "markAssignment sp b =
    (case sym_Scope (symbol_at b sp) of
       None \<Rightarrow> None
     | Some sc \<Rightarrow>
       (case functionOf (b_Scopes b) sc of
          Some (Some home) \<Rightarrow>
            Some (if b_fnScope b \<noteq> Some home then b\<lparr>b_lastAssign := (b_lastAssign b)(sp \<mapsto> maxOrd)\<rparr>
             else case List.find (\<lambda>i. sf_start (b_stmts b ! i) > b_declOrd b sp) [0..<length (b_stmts b)] of
                    Some i \<Rightarrow> add_assigned sp i b
                  | None \<Rightarrow> if b_ord b > lastAssign_or_0 b sp
                           then b\<lparr>b_lastAssign := (b_lastAssign b)(sp \<mapsto> b_ord b)\<rparr> else b)
        | _ \<Rightarrow> None))"

text \<open>The node of an assignment, seen by every open exception label.\<close>

definition assignment_node :: "symbol_ptr \<Rightarrow> bool \<Rightarrow> bool \<Rightarrow> 'a flow_state_scheme \<Rightarrow> 'a flow_state_scheme" where
  "assignment_node sp init assign b =
    (if b_flow b = unreachableFlow then b
     else case new_flow ((blank_flow FlowAssignment)\<lparr>fl_Antecedent := Some (b_flow b), fl_Symbol := Some sp,
                 fl_Init := init, fl_Assign := assign, fl_Node := b_storing b\<rparr>) b of
            (f, b) \<Rightarrow> fold (\<lambda>t. addAntecedent t (Some f)) (b_exceptionTargets b) (b\<lparr>b_flow := f\<rparr>))"

definition record_store :: "symbol_ptr \<Rightarrow> 'a flow_state_scheme \<Rightarrow> 'a flow_state_scheme" where
  "record_store sp b = b\<lparr>b_stores := (b_stores b)(sp := b_stores b sp @ [b_storing b])\<rparr>"

definition assignFlow :: "symbol_ptr option \<Rightarrow> bool \<Rightarrow> bool \<Rightarrow> 'a flow_state_scheme \<Rightarrow> 'a flow_state_scheme option" where
  "assignFlow sy init assign b =
    (case mark_foreign sy b of
       None \<Rightarrow> None
     | Some b \<Rightarrow>
       (case sy of
          None \<Rightarrow> Some b
        | Some sp \<Rightarrow>
          (if \<not> flowing b then Some b
           else
             let b = record_store sp b in
             case (if init then Some (b\<lparr>b_declOrd := (b_declOrd b)(sp := b_ord b)\<rparr>)
                   else if assign then markAssignment sp b else Some b) of
               None \<Rightarrow> None
             | Some b \<Rightarrow> Some (assignment_node sp init assign b))))"

definition switchClause :: "flow_ptr \<Rightarrow> node_ptr \<Rightarrow> int \<Rightarrow> 'a flow_state_scheme \<Rightarrow> flow_ptr \<times> 'a flow_state_scheme" where
  "switchClause f sw clause b =
    (if \<not> flowing b \<or> f = unreachableFlow then (f, b)
     else new_flow ((blank_flow FlowSwitchClause)\<lparr>fl_Antecedent := Some f, fl_Node := Some sw, fl_Clause := clause\<rparr>) b)"

definition condition :: "flow_ptr \<Rightarrow> node_ptr option \<Rightarrow> bool \<Rightarrow> 'a flow_state_scheme \<Rightarrow> flow_ptr \<times> 'a flow_state_scheme" where
  "condition f cond truthy b =
    (if \<not> flowing b \<or> f = unreachableFlow \<or> cond = None then (f, b)
     else new_flow ((blank_flow (if truthy then FlowTrueCondition else FlowFalseCondition))
                      \<lparr>fl_Antecedent := Some f, fl_Node := cond\<rparr>) b)"

definition scopeStartFlow :: "scope_ptr \<Rightarrow> 'a flow_state_scheme \<Rightarrow> 'a flow_state_scheme" where
  "scopeStartFlow s b =
    (if \<not> flowing b \<or> b_flow b = unreachableFlow then b
     else case new_flow ((blank_flow FlowScopeStart)\<lparr>fl_Antecedent := Some (b_flow b), fl_Scope := Some s\<rparr>) b of
            (f, b) \<Rightarrow> b\<lparr>b_flow := f\<rparr>)"

definition unreachable :: "'a flow_state_scheme \<Rightarrow> 'a flow_state_scheme" where
  "unreachable b = (if flowing b then b\<lparr>b_flow := unreachableFlow\<rparr> else b)"

text \<open>A node of the call or the store to a property path that was just bound.\<close>

definition extend_flow :: "FlowFlags \<Rightarrow> node_ptr \<Rightarrow> 'a flow_state_scheme \<Rightarrow> 'a flow_state_scheme" where
  "extend_flow fl n b =
    (if \<not> flowing b \<or> b_flow b = unreachableFlow then b
     else case new_flow ((blank_flow fl)\<lparr>fl_Antecedent := Some (b_flow b), fl_Node := Some n\<rparr>) b of
            (f, b) \<Rightarrow> b\<lparr>b_flow := f\<rparr>)"

text \<open>The start of a function's or module's own graph; \<open>outer\<close> is the flow where a function
  expression is created.\<close>

definition start_flow :: "scope_ptr \<Rightarrow> flow_ptr option \<Rightarrow> 'a flow_state_scheme \<Rightarrow> 'a flow_state_scheme" where
  "start_flow s outer b =
    (case new_flow ((blank_flow FlowStart)\<lparr>fl_Scope := Some s, fl_Outer := outer\<rparr>) b of
       (f, b) \<Rightarrow> b\<lparr>b_flow := f\<rparr>)"

text \<open>The jump targets, innermost last; the search is from the innermost.\<close>

fun find_jump :: "string \<Rightarrow> bool \<Rightarrow> jumpTarget list \<Rightarrow> jumpTarget option" where
  "find_jump label continuesinues [] = None"
| "find_jump label continues (t # ts) =
    (if label \<noteq> '''' \<and> j_label t \<noteq> label then find_jump label continues ts
     else if continues \<and> j_continueTo t = None then (if label \<noteq> '''' then None else find_jump label continues ts)
     else if label = '''' \<and> j_breakOnly t then find_jump label continues ts
     else Some t)"

definition jump_target :: "string \<Rightarrow> bool \<Rightarrow> 'a flow_state_scheme \<Rightarrow> jumpTarget option" where
  "jump_target label continues b = find_jump label continues (rev (b_jumps b))"

definition takeLabel :: "'a flow_state_scheme \<Rightarrow> string \<times> 'a flow_state_scheme" where
  "takeLabel b = (b_pendingLabel b, b\<lparr>b_pendingLabel := ''''\<rparr>)"

section \<open>Walking it backwards\<close>

definition passes_through :: "FlowFlags \<Rightarrow> bool" where
  "passes_through fl \<longleftrightarrow> fl \<in> {FlowTrueCondition, FlowFalseCondition, FlowSwitchClause, FlowCall, FlowPropertyAssignment}"

text \<open>The state of the search: the node the inner loop is at, the stack, the nodes seen, what
  was found, and the assignments \<open>holds\<close> held of, in the order it was asked.\<close>

record walk_state =
  w_f :: "flow_ptr option"
  w_stack :: "flow_ptr list"
  w_seen :: "flow_ptr list"
  w_found :: bool
  w_missed :: bool
  w_hits :: "flow_ptr list"

definition walk_visit :: "FlowNode list \<Rightarrow> symbol_ptr \<Rightarrow> scope_ptr option \<Rightarrow> scope_ptr \<Rightarrow> (FlowNode \<Rightarrow> bool)
    \<Rightarrow> flow_ptr \<Rightarrow> walk_state \<Rightarrow> walk_state" where
  "walk_visit F sp scope home holds f w =
    (let n = F ! f; w = w\<lparr>w_seen := f # w_seen w\<rparr> in
     if fl_Flags n = FlowAssignment then
       (if fl_Symbol n = Some sp \<and> holds n then w\<lparr>w_found := True, w_f := None, w_hits := w_hits w @ [f]\<rparr>
        else w\<lparr>w_f := fl_Antecedent n\<rparr>)
     else if fl_Flags n = FlowScopeStart then
       (if fl_Scope n = scope then w\<lparr>w_missed := True, w_f := None\<rparr> else w\<lparr>w_f := fl_Antecedent n\<rparr>)
     else if passes_through (fl_Flags n) then w\<lparr>w_f := fl_Antecedent n\<rparr>
     else if fl_Flags n = FlowStart then
       w\<lparr>w_missed := (w_missed w \<or> fl_Scope n = Some home), w_f := None\<rparr>
     else w\<lparr>w_stack := w_stack w @ fl_Antecedents n, w_f := None\<rparr>)"

partial_function (option) walk_loop :: "FlowNode list \<Rightarrow> symbol_ptr \<Rightarrow> scope_ptr option \<Rightarrow> scope_ptr
    \<Rightarrow> (FlowNode \<Rightarrow> bool) \<Rightarrow> walk_state \<Rightarrow> walk_state option" where
  "walk_loop F sp scope home holds w =
    (case w_f w of
       None \<Rightarrow>
         (if w_stack w = [] \<or> (w_found w \<and> w_missed w) then Some w
          else walk_loop F sp scope home holds (w\<lparr>w_f := Some (last (w_stack w)), w_stack := butlast (w_stack w)\<rparr>))
     | Some f \<Rightarrow>
         (if fl_Flags (F ! f) = FlowUnreachable \<or> f \<in> set (w_seen w)
          then walk_loop F sp scope home holds (w\<lparr>w_f := None\<rparr>)
          else walk_loop F sp scope home holds (walk_visit F sp scope home holds f w)))"

declare walk_loop.simps [code]

definition walkBack :: "flow_ptr \<Rightarrow> symbol_ptr \<Rightarrow> (FlowNode \<Rightarrow> bool) \<Rightarrow> 'a flow_state_scheme
    \<Rightarrow> (bool \<times> bool \<times> flow_ptr list) option" where
  "walkBack f sp holds b =
    (let scope = sym_Scope (symbol_at b sp) in
     case scope of
       None \<Rightarrow> None
     | Some sc \<Rightarrow>
       (case containerOf (b_Scopes b) sc of
          Some (Some home) \<Rightarrow>
            (case walk_loop (b_Flows b) sp scope home holds
                    \<lparr>w_f = None, w_stack = [f], w_seen = [], w_found = False, w_missed = False, w_hits = []\<rparr> of
               Some w \<Rightarrow> Some (w_found w, w_missed w, w_hits w)
             | None \<Rightarrow> None)
        | _ \<Rightarrow> None))"

section \<open>Questions\<close>

definition ExemptFromAssignment :: "TypeAnnotation option \<Rightarrow> bool" where
  "ExemptFromAssignment ta =
    (case ta of None \<Rightarrow> False | Some t \<Rightarrow> ta_Name t = ''any'' \<or> ta_Name t = ''unknown'' \<or> ta_Nullable t)"

definition tdzKind :: "Symbol \<Rightarrow> bool" where
  "tdzKind sy \<longleftrightarrow>
    list_ex (\<lambda>d. dc_Kind d = Lexical \<and> has_flag (dc_Flags d) (BlockScopedVariable # ClassFlag # Enum_masks))
      (sym_Declarations sy)"

definition declared_variable :: "ast \<Rightarrow> Symbol \<Rightarrow> var_decl option" where
  "declared_variable A sy =
    (case sym_Declarations sy of
       [] \<Rightarrow> None
     | d # _ \<Rightarrow>
       (case dc_Node d of
          Some n \<Rightarrow> (case node_at A n of VarDeclaration v \<Rightarrow> Some v | _ \<Rightarrow> None)
        | None \<Rightarrow> None))"

definition trackedForAssignment :: "ast \<Rightarrow> Symbol \<Rightarrow> bool" where
  "trackedForAssignment A sy =
    (if length (sym_Declarations sy) \<noteq> 1 then False
     else case declared_variable A sy of
            Some v \<Rightarrow> \<not> vd_Ambient v \<and> \<not> vd_Definite v \<and> vd_Init v = None \<and> vd_TypeAnnot v \<noteq> None
              \<and> \<not> ExemptFromAssignment (vd_TypeAnnot v)
          | None \<Rightarrow> False)"

definition alwaysTrue :: "ast \<Rightarrow> node_ptr option \<Rightarrow> bool" where
  "alwaysTrue A test =
    (case test of
       None \<Rightarrow> True
     | Some n \<Rightarrow> (case node_at A n of BooleanLiteral v \<Rightarrow> v | _ \<Rightarrow> False))"

text \<open>What a reference in its binding's own function or module refers to, and where it was read:
  \<open>Some None\<close> for any other reference.\<close>

definition local_read :: "node_ptr \<Rightarrow> 'a flow_state_scheme \<Rightarrow> (symbol_ptr \<times> flow_ptr) option option" where
  "local_read r b =
    (case (b_refs b r, b_refFlow b r) of
       (Some sp, Some f) \<Rightarrow>
         (case sym_Scope (symbol_at b sp) of
            None \<Rightarrow> None
          | Some sc \<Rightarrow>
            (case containerOf (b_Scopes b) sc of
               Some (Some home) \<Rightarrow> Some (if b_refContainer b r = Some home then Some (sp, f) else None)
             | _ \<Rightarrow> None))
     | _ \<Rightarrow> Some None)"

definition check_message :: "nat \<Rightarrow> ErrorKind \<Rightarrow> string \<Rightarrow> Message" where
  "check_message code kind text =
    \<lparr>m_Code = code, m_Severity = Error, m_Kind = kind, m_Phase = ''check'', m_Text = text\<rparr>"

definition UsedBeforeDeclaration :: Message where
  "UsedBeforeDeclaration = check_message 2448 ''ReferenceError''
     (''cannot access '' @ [CHR 0x27] @ ''%s'' @ [CHR 0x27] @ '' before initialization'')"

definition UsedBeforeAssigned :: Message where
  "UsedBeforeAssigned = check_message 2454 ''''
     (''variable '' @ [CHR 0x27] @ ''%s'' @ [CHR 0x27] @ '' is used before being assigned'')"

text \<open>What one access of \<open>FlowDiagnostics\<close> reports: a message, or none.\<close>

definition access_message :: "ast \<Rightarrow> bool \<Rightarrow> node_ptr \<Rightarrow> 'a flow_state_scheme \<Rightarrow> Message option option" where
  "access_message A definite r b =
    (case local_read r b of
       None \<Rightarrow> None
     | Some None \<Rightarrow> Some None
     | Some (Some (sp, f)) \<Rightarrow>
       (case (if tdzKind (symbol_at b sp) then walkBack f sp fl_Init b else Some (True, False, [])) of
          None \<Rightarrow> None
        | Some (found, missed, _) \<Rightarrow>
          (if missed \<and> \<not> found then Some (Some UsedBeforeDeclaration)
           else if \<not> b_written b r \<and> definite \<and> trackedForAssignment A (symbol_at b sp) \<and> \<not> b_asserted b r then
             (case walkBack f sp fl_Assign b of
                None \<Rightarrow> None
              | Some (_, missed, _) \<Rightarrow> Some (if missed then Some UsedBeforeAssigned else None))
           else Some None)))"

definition identifier_name :: "ast \<Rightarrow> node_ptr \<Rightarrow> string" where
  "identifier_name A r = (case node_at A r of Identifier name \<Rightarrow> name | _ \<Rightarrow> '''')"

definition access_diagnostic :: "unicode_tables \<Rightarrow> ast \<Rightarrow> (nat \<Rightarrow> nat \<Rightarrow> int) option \<Rightarrow> Message \<Rightarrow> node_ptr \<Rightarrow> Diagnostic" where
  "access_diagnostic U A offset m r =
    (let p = GetPos A r;
         start = (case offset of Some f \<Rightarrow> f (p_Line p) (p_Col p) | None \<Rightarrow> - 1);
         end' = (if start \<ge> 0 then start + int (length (identifier_name A r)) else start)
     in New_diag U m \<lparr>s_File = '''', s_Pos = p, s_Start = start, s_End = end'\<rparr> [ArgStr (identifier_name A r)])"

fun access_diagnostics :: "unicode_tables \<Rightarrow> ast \<Rightarrow> (nat \<Rightarrow> nat \<Rightarrow> int) option \<Rightarrow> bool \<Rightarrow> node_ptr list
    \<Rightarrow> 'a flow_state_scheme \<Rightarrow> Diagnostic list option" where
  "access_diagnostics U A offset definite [] b = Some []"
| "access_diagnostics U A offset definite (r # rs) b =
    (case access_message A definite r b of
       None \<Rightarrow> None
     | Some m \<Rightarrow>
       (case access_diagnostics U A offset definite rs b of
          None \<Rightarrow> None
        | Some ds \<Rightarrow> Some (case m of Some msg \<Rightarrow> access_diagnostic U A offset msg r # ds | None \<Rightarrow> ds)))"

definition FlowDiagnostics :: "unicode_tables \<Rightarrow> ast \<Rightarrow> (nat \<Rightarrow> nat \<Rightarrow> int) option \<Rightarrow> bool \<Rightarrow> 'a flow_state_scheme
    \<Rightarrow> Diagnostic list option" where
  "FlowDiagnostics U A offset definite b = access_diagnostics U A offset definite (b_accesses b) b"

text \<open>A store through a plain assignment to a name.\<close>

definition assigned_target :: "ast \<Rightarrow> node_ptr option \<Rightarrow> (string \<times> node_ptr) option" where
  "assigned_target A n =
    (case n of
       Some n \<Rightarrow> (case node_at A n of AssignmentExpression oper left \<Rightarrow> Some (oper, left) | _ \<Rightarrow> None)
     | None \<Rightarrow> None)"

definition is_identifier :: "ast \<Rightarrow> node_ptr \<Rightarrow> bool" where
  "is_identifier A n = (case node_at A n of Identifier _ \<Rightarrow> True | _ \<Rightarrow> False)"

definition plain_target :: "ast \<Rightarrow> node_ptr option \<Rightarrow> bool" where
  "plain_target A n = (case assigned_target A n of Some (_, left) \<Rightarrow> is_identifier A left | None \<Rightarrow> False)"

definition DefinitelyAssigned :: "ast \<Rightarrow> node_ptr \<Rightarrow> 'a flow_state_scheme \<Rightarrow> bool option" where
  "DefinitelyAssigned A r b =
    (if b_written b r then Some False
     else case local_read r b of
       None \<Rightarrow> None
     | Some None \<Rightarrow> Some False
     | Some (Some (sp, f)) \<Rightarrow>
       (if \<not> trackedForAssignment A (symbol_at b sp) then Some False
        else case walkBack f sp fl_Assign b of
               None \<Rightarrow> None
             | Some (found, missed, hits) \<Rightarrow>
               Some (found \<and> \<not> missed \<and> list_all (\<lambda>h. plain_target A (fl_Node (flow_at b h))) hits)))"

text \<open>A store \<open>ReachingStores\<close> can name: an initializer or a plain \<open>=\<close> to a name.\<close>

definition plain_store :: "ast \<Rightarrow> node_ptr option \<Rightarrow> bool" where
  "plain_store A n =
    (case n of
       None \<Rightarrow> False
     | Some m \<Rightarrow>
       (case node_at A m of
          VarDeclaration v \<Rightarrow> vd_Init v \<noteq> None
        | AssignmentExpression oper left \<Rightarrow> is_identifier A left \<and> oper = ''=''
        | _ \<Rightarrow> False))"

definition ReachingStores :: "ast \<Rightarrow> node_ptr \<Rightarrow> 'a flow_state_scheme \<Rightarrow> (node_ptr option list \<times> bool) option" where
  "ReachingStores A r b =
    (if b_written b r then Some ([], False)
     else case local_read r b of
       None \<Rightarrow> None
     | Some None \<Rightarrow> Some ([], False)
     | Some (Some (sp, f)) \<Rightarrow>
       (if length (sym_Declarations (symbol_at b sp)) \<noteq> 1 \<or> b_foreignStores b sp then Some ([], False)
        else case declared_variable A (symbol_at b sp) of
               None \<Rightarrow> Some ([], False)
             | Some v \<Rightarrow>
               (if vd_Ambient v then Some ([], False)
                else case walkBack f sp fl_Assign b of
                       None \<Rightarrow> None
                     | Some (found, missed, hits) \<Rightarrow>
                       (let stores = map (\<lambda>h. fl_Node (flow_at b h)) hits
                        in Some (stores, found \<and> \<not> missed \<and> list_all (plain_store A) stores)))))"

definition FlowAt :: "node_ptr \<Rightarrow> 'a flow_state_scheme \<Rightarrow> (flow_ptr option \<times> bool) option" where
  "FlowAt r b =
    (case local_read r b of
       None \<Rightarrow> None
     | Some found \<Rightarrow> Some (b_refFlow b r, found \<noteq> None))"

definition StoresTo :: "symbol_ptr \<Rightarrow> 'a flow_state_scheme \<Rightarrow> node_ptr option list" where
  "StoresTo sp b = b_stores b sp"

definition StoredElsewhere :: "symbol_ptr \<Rightarrow> 'a flow_state_scheme \<Rightarrow> bool" where
  "StoredElsewhere sp b = b_foreignStores b sp"

section \<open>Closures\<close>

text \<open>What \<open>ClosureNarrows\<close> decides by the symbol's first declaration: an answer, or to go on.\<close>

definition narrows_by_kind :: "ast \<Rightarrow> symbol_ptr \<Rightarrow> 'a flow_state_scheme \<Rightarrow> bool option" where
  "narrows_by_kind A sp b =
    (case sym_Declarations (symbol_at b sp) of
       [] \<Rightarrow> Some False
     | d # _ \<Rightarrow>
       (case dc_Node d of
          None \<Rightarrow> Some False
        | Some n \<Rightarrow>
          let parameter = (if \<not> has_flag (sym_Flags (symbol_at b sp)) [FunctionScopedVariable]
                \<or> sym_Scope (symbol_at b sp) \<noteq> b_fnScopes b n then Some False else None)
          in case node_at A n of
               VarDeclaration v \<Rightarrow>
                 if vd_Kind v = ''const'' then Some True
                 else if vd_Kind v \<noteq> ''let'' \<or> b_exported b n
                   \<or> (b_Script b \<and> sym_Scope (symbol_at b sp) = b_Module b) then Some False
                 else None
             | ArrayDestructuring kind \<Rightarrow> Some (kind = ''const'')
             | ObjectDestructuring kind \<Rightarrow> Some (kind = ''const'')
             | FunctionDeclaration _ \<Rightarrow> parameter
             | FunctionExpression _ _ \<Rightarrow> parameter
             | ArrowFunction _ \<Rightarrow> parameter
             | _ \<Rightarrow> Some False))"

definition continues_flow :: "ast \<Rightarrow> node_ptr option \<Rightarrow> bool" where
  "continues_flow A n =
    (case n of
       None \<Rightarrow> False
     | Some n \<Rightarrow> (case node_at A n of FunctionExpression _ _ \<Rightarrow> True | ArrowFunction _ \<Rightarrow> True | _ \<Rightarrow> False))"

definition ClosureNarrows :: "ast \<Rightarrow> node_ptr \<Rightarrow> symbol_ptr \<Rightarrow> 'a flow_state_scheme \<Rightarrow> bool option" where
  "ClosureNarrows A r sp b =
    (case narrows_by_kind A sp b of
       Some answer \<Rightarrow> Some answer
     | None \<Rightarrow>
       (case sym_Scope (symbol_at b sp) of
          None \<Rightarrow> None
        | Some sc \<Rightarrow>
          (case functionOf (b_Scopes b) sc of
             Some (Some home) \<Rightarrow>
               (case walk_up (b_Scopes b) (\<lambda>s. if s = home then Some True
                      else if sc_Kind (scope_at b s) = FunctionScope \<and> \<not> continues_flow A (sc_Node (scope_at b s))
                      then Some False else None) (b_refScope b r) of
                  None \<Rightarrow> None
                | Some (Some False) \<Rightarrow> Some False
                | Some _ \<Rightarrow> Some (case b_lastAssign b sp of None \<Rightarrow> True | Some n \<Rightarrow> n < b_refOrd b r))
           | _ \<Rightarrow> None)))"

section \<open>Guards\<close>

definition refers_to :: "ast \<Rightarrow> node_ptr \<Rightarrow> symbol_ptr \<Rightarrow> 'a flow_state_scheme \<Rightarrow> bool" where
  "refers_to A e sp b \<longleftrightarrow> is_identifier A e \<and> b_refs b e = Some sp"

definition absent_literal :: "ast \<Rightarrow> node_ptr \<Rightarrow> bool \<Rightarrow> 'a flow_state_scheme \<Rightarrow> bool" where
  "absent_literal A e loose b =
    (case node_at A e of
       NullLiteral isUndefined \<Rightarrow> (isUndefined \<and> b_undefinedRefs b e = None) \<or> (loose \<and> \<not> isUndefined)
     | _ \<Rightarrow> False)"

definition typeof_test :: "ast \<Rightarrow> node_ptr \<Rightarrow> symbol_ptr \<Rightarrow> 'a flow_state_scheme \<Rightarrow> bool" where
  "typeof_test A e sp b =
    (case node_at A e of UnaryExpression oper arg \<Rightarrow> oper = ''typeof'' \<and> refers_to A arg sp b | _ \<Rightarrow> False)"

definition excludesUndefined :: "ast \<Rightarrow> node_ptr \<Rightarrow> symbol_ptr \<Rightarrow> bool \<Rightarrow> 'a flow_state_scheme \<Rightarrow> bool" where
  "excludesUndefined A c sp branch b =
    (case node_at A c of
       Identifier _ \<Rightarrow> branch \<and> refers_to A c sp b
     | UnaryExpression oper arg \<Rightarrow> oper = ''!'' \<and> \<not> branch \<and> refers_to A arg sp b
     | BinaryExpression oper left right \<Rightarrow>
         (let (l, r) = (if refers_to A left sp b then (left, right) else (right, left)) in
          if typeof_test A l sp b then
            (case node_at A r of
               StringLiteral v \<Rightarrow> v \<noteq> ''undefined'' \<and> ((oper = ''==='' \<or> oper = ''=='') = branch)
             | _ \<Rightarrow> False)
          else if \<not> refers_to A l sp b then False
          else if oper = ''!=='' \<or> oper = ''!='' then branch \<and> absent_literal A r (oper = ''!='') b
          else if oper = ''==='' \<or> oper = ''=='' then \<not> branch \<and> absent_literal A r (oper = ''=='') b
          else False)
     | _ \<Rightarrow> False)"

text \<open>What the search of \<open>GuardedSinceStore\<close> does at a node: follow one antecedent, follow all of
  a label's, or answer false.\<close>

datatype guard_step = Follow "flow_ptr option" | Branch "flow_ptr list" | Unguarded

definition guard_visit :: "ast \<Rightarrow> symbol_ptr \<Rightarrow> 'a flow_state_scheme \<Rightarrow> flow_ptr \<Rightarrow> guard_step" where
  "guard_visit A sp b f =
    (let n = flow_at b f in
     if fl_Flags n = FlowAssignment then
       (if fl_Symbol n = Some sp then Unguarded else Follow (fl_Antecedent n))
     else if fl_Flags n = FlowTrueCondition \<or> fl_Flags n = FlowFalseCondition then
       (case fl_Node n of
          Some c \<Rightarrow> if excludesUndefined A c sp (fl_Flags n = FlowTrueCondition) b then Follow None
                   else Follow (fl_Antecedent n)
        | None \<Rightarrow> Follow (fl_Antecedent n))
     else if fl_Flags n = FlowSwitchClause \<or> fl_Flags n = FlowCall \<or> fl_Flags n = FlowPropertyAssignment then
       Follow (fl_Antecedent n)
     else if fl_Flags n = FlowScopeStart \<and> fl_Scope n \<noteq> sym_Scope (symbol_at b sp) then Follow (fl_Antecedent n)
     else if fl_Flags n = FlowStart \<or> fl_Flags n = FlowScopeStart then Unguarded
     else Branch (fl_Antecedents n))"

partial_function (option) guard_loop :: "ast \<Rightarrow> symbol_ptr \<Rightarrow> 'a flow_state_scheme \<Rightarrow> flow_ptr option
    \<Rightarrow> flow_ptr list \<Rightarrow> flow_ptr list \<Rightarrow> bool option" where
  "guard_loop A sp b f stack seen =
    (case f of
       None \<Rightarrow> if stack = [] then Some True else guard_loop A sp b (Some (last stack)) (butlast stack) seen
     | Some f \<Rightarrow>
         if fl_Flags (flow_at b f) = FlowUnreachable \<or> f \<in> set seen then guard_loop A sp b None stack seen
         else (case guard_visit A sp b f of
                 Unguarded \<Rightarrow> Some False
               | Follow g \<Rightarrow> guard_loop A sp b g stack (f # seen)
               | Branch gs \<Rightarrow> guard_loop A sp b None (stack @ gs) (f # seen)))"

declare guard_loop.simps [code]

definition GuardedSinceStore :: "ast \<Rightarrow> node_ptr \<Rightarrow> 'a flow_state_scheme \<Rightarrow> bool option" where
  "GuardedSinceStore A r b =
    (if b_written b r then Some False
     else case local_read r b of
       None \<Rightarrow> None
     | Some None \<Rightarrow> Some False
     | Some (Some (sp, f)) \<Rightarrow>
       (if b_foreignStores b sp then Some False else guard_loop A sp b None [f] []))"

end
