(* ===== verification/FlowFacts.thy ===== *)
theory FlowFacts
  imports Flow ScopeFacts
begin

text \<open>
  Facts on the flow graph: a search by a stack visits exactly the nodes it can reach (a locale
  of its own, interpreted on both searches of the code), what \<open>walkBack\<close> and the guard search
  answer in terms of paths, and the shape of the graph every building step keeps.
\<close>

section \<open>Searching with a stack\<close>

locale stack_search =
  fixes size_of :: nat and dead :: "nat \<Rightarrow> bool" and succs :: "nat \<Rightarrow> nat list"
  assumes succs_range: "f < size_of \<Longrightarrow> g \<in> set (succs f) \<Longrightarrow> g < size_of"
begin

definition edges :: "(nat \<times> nat) set" where
  "edges = {(f, g). f < size_of \<and> \<not> dead f \<and> g \<in> set (succs f)}"

definition reached :: "nat \<Rightarrow> nat set" where
  "reached f = edges\<^sup>* `` {f}"

text \<open>What is to do and what was seen: both can be reached, and what was seen leads only to what
  was seen, is to do, or is dead.\<close>

definition search_inv :: "nat \<Rightarrow> nat set \<Rightarrow> nat set \<Rightarrow> bool" where
  "search_inv f0 work seen \<longleftrightarrow>
     work \<union> seen \<subseteq> {..<size_of} \<inter> reached f0 \<and> (\<forall>g \<in> seen. \<not> dead g) \<and>
     (f0 \<in> seen \<union> work \<or> dead f0) \<and>
     (\<forall>g \<in> seen. \<forall>h \<in> set (succs g). h \<in> seen \<union> work \<or> dead h)"

lemma search_start: "f0 < size_of \<Longrightarrow> search_inv f0 {f0} {}"
  by (simp add: search_inv_def reached_def)

lemma search_skip:
  assumes "search_inv f0 (insert f work) seen" "dead f \<or> f \<in> seen"
  shows "search_inv f0 work seen"
  using assms unfolding search_inv_def by blast

lemma reached_step:
  assumes "g \<in> reached f0" "g < size_of" "\<not> dead g" "h \<in> set (succs g)"
  shows "h \<in> reached f0"
proof -
  have "(g, h) \<in> edges" using assms by (simp add: edges_def)
  with assms(1) show ?thesis unfolding reached_def by (auto intro: rtrancl_into_rtrancl)
qed

lemma search_visit:
  assumes "search_inv f0 (insert f work) seen" "\<not> dead f"
  shows "search_inv f0 (work \<union> set (succs f)) (insert f seen)"
proof -
  from assms(1) have f: "f < size_of" "f \<in> reached f0" by (auto simp: search_inv_def)
  then have "set (succs f) \<subseteq> {..<size_of} \<inter> reached f0"
    using succs_range reached_step assms(2) by auto
  with assms f show ?thesis unfolding search_inv_def by blast
qed

lemma search_done:
  assumes "search_inv f0 {} seen"
  shows "{g \<in> reached f0. \<not> dead g} = seen"
proof
  show "seen \<subseteq> {g \<in> reached f0. \<not> dead g}" using assms by (auto simp: search_inv_def)
  have "g \<in> seen \<or> dead g" if "(f0, g) \<in> edges\<^sup>*" for g
    using that
  proof (induction rule: rtrancl_induct)
    case (step g h)
    then have "g \<in> seen" by (auto simp: edges_def)
    with step assms show ?case by (auto simp: edges_def search_inv_def)
  qed (use assms in \<open>auto simp: search_inv_def\<close>)
  then show "{g \<in> reached f0. \<not> dead g} \<subseteq> seen" by (auto simp: reached_def)
qed

lemma search_sub: "search_inv f0 work seen \<Longrightarrow> seen \<subseteq> {g \<in> reached f0. \<not> dead g}"
  by (auto simp: search_inv_def)

lemma search_measure:
  assumes "search_inv f0 (insert f work) seen" "f \<notin> seen"
  shows "card ({..<size_of} - insert f seen) < card ({..<size_of} - seen)"
proof -
  have "f < size_of" using assms(1) by (auto simp: search_inv_def)
  with assms(2) have "{..<size_of} - insert f seen \<subset> {..<size_of} - seen" by auto
  then show ?thesis by (intro psubset_card_mono) auto
qed

end

section \<open>The shape of the graph\<close>

definition is_label :: "FlowFlags \<Rightarrow> bool" where
  "is_label fl \<longleftrightarrow> fl = FlowBranchLabel \<or> fl = FlowLoopLabel"

text \<open>The pointers of a node, and which kinds of node have which.\<close>

definition node_shape :: "nat \<Rightarrow> FlowNode \<Rightarrow> bool" where
  "node_shape n f \<longleftrightarrow>
     (\<forall>g \<in> set (fl_Antecedents f). g < n \<and> g \<noteq> unreachableFlow) \<and> distinct (fl_Antecedents f) \<and>
     (\<forall>g. fl_Antecedent f = Some g \<longrightarrow> g < n \<and> g \<noteq> unreachableFlow) \<and>
     (if is_label (fl_Flags f) then fl_Antecedent f = None
      else fl_Antecedents f = [] \<and>
        (fl_Antecedent f = None \<longleftrightarrow> fl_Flags f = FlowStart \<or> fl_Flags f = FlowUnreachable))"

definition flow_heap :: "FlowNode list \<Rightarrow> bool" where
  "flow_heap F \<longleftrightarrow> F \<noteq> [] \<and> (\<forall>f < length F. node_shape (length F) (F ! f)
     \<and> (fl_Flags (F ! f) = FlowUnreachable \<longleftrightarrow> f = unreachableFlow))"

lemma flow_heapD:
  assumes "flow_heap F" "f < length F"
  shows "node_shape (length F) (F ! f)" and "fl_Flags (F ! f) = FlowUnreachable \<longleftrightarrow> f = unreachableFlow"
  using assms by (simp_all add: flow_heap_def)

text \<open>The predecessors of a node, and the paths backwards that stop at certain nodes.\<close>

definition preds :: "FlowNode list \<Rightarrow> flow_ptr \<Rightarrow> flow_ptr list" where
  "preds F f = (case fl_Antecedent (F ! f) of Some g \<Rightarrow> [g] | None \<Rightarrow> []) @ fl_Antecedents (F ! f)"

inductive clear_path :: "FlowNode list \<Rightarrow> (FlowNode \<Rightarrow> bool) \<Rightarrow> flow_ptr \<Rightarrow> flow_ptr \<Rightarrow> bool" for F stop f where
  here: "clear_path F stop f f"
| further: "clear_path F stop f g \<Longrightarrow> \<not> stop (F ! g) \<Longrightarrow> h \<in> set (preds F g) \<Longrightarrow> clear_path F stop f h"

lemma preds_range: "flow_heap F \<Longrightarrow> f < length F \<Longrightarrow> g \<in> set (preds F f) \<Longrightarrow> g < length F"
  using flow_heapD(1) [of F f] by (auto simp: preds_def node_shape_def split: option.splits)

lemma clear_path_range: "clear_path F stop f g \<Longrightarrow> flow_heap F \<Longrightarrow> f < length F \<Longrightarrow> g < length F"
  by (induction rule: clear_path.induct) (auto dest: preds_range)

lemma clear_path_mono: "clear_path F stop f g \<Longrightarrow> (\<And>n. stop' n \<Longrightarrow> stop n) \<Longrightarrow> clear_path F stop' f g"
  by (induction rule: clear_path.induct) (auto intro: clear_path.intros)

text \<open>A path that passes a stopped node has a part that ends at the first of them.\<close>

lemma clear_path_first:
  assumes "clear_path F stop f g" "extra (F ! g)"
  shows "\<exists>h. clear_path F (\<lambda>n. stop n \<or> extra n) f h \<and> extra (F ! h)"
proof -
  have "clear_path F (\<lambda>n. stop n \<or> extra n) f g \<or> (\<exists>h. clear_path F (\<lambda>n. stop n \<or> extra n) f h \<and> extra (F ! h))"
    using assms(1)
  proof (induction rule: clear_path.induct)
    case (further g h)
    from further.IH show ?case
    proof
      assume g: "clear_path F (\<lambda>n. stop n \<or> extra n) f g"
      show ?case
      proof (cases "extra (F ! g)")
        case True
        with g show ?thesis by blast
      next
        case False
        with g further.hyps have "clear_path F (\<lambda>n. stop n \<or> extra n) f h"
          by (intro clear_path.further [OF g]) simp_all
        then show ?thesis ..
      qed
    qed simp
  qed (simp add: clear_path.here)
  with assms(2) show ?thesis by blast
qed

section \<open>The walk of a binding's assignments\<close>

definition found_node :: "symbol_ptr \<Rightarrow> (FlowNode \<Rightarrow> bool) \<Rightarrow> FlowNode \<Rightarrow> bool" where
  "found_node sp holds n \<longleftrightarrow> fl_Flags n = FlowAssignment \<and> fl_Symbol n = Some sp \<and> holds n"

definition missed_node :: "scope_ptr option \<Rightarrow> scope_ptr \<Rightarrow> FlowNode \<Rightarrow> bool" where
  "missed_node scope home n \<longleftrightarrow>
     (fl_Flags n = FlowScopeStart \<and> fl_Scope n = scope) \<or> (fl_Flags n = FlowStart \<and> fl_Scope n = Some home)"

abbreviation stop_node :: "symbol_ptr \<Rightarrow> scope_ptr option \<Rightarrow> scope_ptr \<Rightarrow> (FlowNode \<Rightarrow> bool) \<Rightarrow> FlowNode \<Rightarrow> bool" where
  "stop_node sp scope home holds n \<equiv> found_node sp holds n \<or> missed_node scope home n"

definition walk_succs :: "FlowNode list \<Rightarrow> (FlowNode \<Rightarrow> bool) \<Rightarrow> flow_ptr \<Rightarrow> flow_ptr list" where
  "walk_succs F stop f = filter (\<lambda>g. g < length F) (if stop (F ! f) then [] else preds F f)"

definition dead_node :: "FlowNode list \<Rightarrow> flow_ptr \<Rightarrow> bool" where
  "dead_node F f \<longleftrightarrow> fl_Flags (F ! f) = FlowUnreachable"

interpretation walk: stack_search "length F" "dead_node F" "walk_succs F stop" for F stop
  by unfold_locales (auto simp: walk_succs_def)

lemma dead_preds: "flow_heap F \<Longrightarrow> f < length F \<Longrightarrow> dead_node F f \<Longrightarrow> preds F f = []"
  using flow_heapD(1) [of F f] by (auto simp: dead_node_def preds_def node_shape_def is_label_def)

lemma walk_reached:
  assumes "flow_heap F" "f < length F"
  shows "walk.reached F stop f = {g. clear_path F stop f g}"
proof (intro equalityI subsetI)
  fix g assume "g \<in> walk.reached F stop f"
  then have "(f, g) \<in> (walk.edges F stop)\<^sup>*" by (simp add: walk.reached_def)
  then have "clear_path F stop f g"
    by (induction rule: rtrancl_induct)
      (auto simp: walk.edges_def walk_succs_def intro: clear_path.intros split: if_splits)
  then show "g \<in> {g. clear_path F stop f g}" by simp
next
  fix g assume "g \<in> {g. clear_path F stop f g}"
  then have "clear_path F stop f g" by simp
  then show "g \<in> walk.reached F stop f"
  proof (induction rule: clear_path.induct)
    case here
    then show ?case by (simp add: walk.reached_def)
  next
    case (further g h)
    have g: "g < length F" by (rule clear_path_range [OF further.hyps(1) assms])
    with further.hyps(3) assms(1) have "\<not> dead_node F g" by (auto dest: dead_preds)
    moreover have "h \<in> set (walk_succs F stop g)"
      using further.hyps g assms(1) by (simp add: walk_succs_def preds_range)
    ultimately show ?case using walk.reached_step further.IH g by blast
  qed
qed

definition walk_work :: "walk_state \<Rightarrow> flow_ptr set" where
  "walk_work w = set (w_stack w) \<union> (case w_f w of Some f \<Rightarrow> {f} | None \<Rightarrow> {})"

definition walk_facts :: "FlowNode list \<Rightarrow> symbol_ptr \<Rightarrow> scope_ptr option \<Rightarrow> scope_ptr \<Rightarrow> (FlowNode \<Rightarrow> bool) \<Rightarrow> walk_state \<Rightarrow> bool" where
  "walk_facts F sp scope home holds w \<longleftrightarrow>
     (w_found w \<longleftrightarrow> (\<exists>g \<in> set (w_seen w). found_node sp holds (F ! g))) \<and>
     (w_missed w \<longleftrightarrow> (\<exists>g \<in> set (w_seen w). missed_node scope home (F ! g))) \<and>
     set (w_hits w) = {g \<in> set (w_seen w). found_node sp holds (F ! g)}"

lemma walk_visit_next:
  assumes "node_shape N (F ! f)" "\<not> dead_node F f"
  shows "w_f (walk_visit F sp scope home holds f w)
      = (if stop_node sp scope home holds (F ! f) then None else fl_Antecedent (F ! f))"
    and "w_stack (walk_visit F sp scope home holds f w) = w_stack w @ fl_Antecedents (F ! f)"
  using assms
  by (cases "fl_Flags (F ! f)"; simp add: walk_visit_def Let_def found_node_def missed_node_def passes_through_def
        node_shape_def is_label_def dead_node_def)+

lemma walk_visit_flags:
  "w_found (walk_visit F sp scope home holds f w) \<longleftrightarrow> w_found w \<or> found_node sp holds (F ! f)"
  "w_missed (walk_visit F sp scope home holds f w) \<longleftrightarrow> w_missed w \<or> missed_node scope home (F ! f)"
  "w_hits (walk_visit F sp scope home holds f w) = w_hits w @ (if found_node sp holds (F ! f) then [f] else [])"
  "w_seen (walk_visit F sp scope home holds f w) = f # w_seen w"
  by (cases "fl_Flags (F ! f)";
      auto simp: walk_visit_def Let_def found_node_def missed_node_def passes_through_def; fail)+

lemma stop_not_label: "stop_node sp scope home holds n \<Longrightarrow> \<not> is_label (fl_Flags n)"
  by (auto simp: found_node_def missed_node_def is_label_def)

lemma walk_visit_ok:
  assumes heap: "flow_heap F" and f: "f < length F" "\<not> dead_node F f" and w: "walk_facts F sp scope home holds w"
    and wf: "w_f w = Some f"
  shows "walk_facts F sp scope home holds (walk_visit F sp scope home holds f w)"
    and "walk_work (walk_visit F sp scope home holds f w)
      = set (w_stack w) \<union> set (walk_succs F (stop_node sp scope home holds) f)"
    and "set (w_seen (walk_visit F sp scope home holds f w)) = insert f (set (w_seen w))"
proof -
  note s = flow_heapD(1) [OF heap f(1)]
  have range: "\<And>g. g \<in> set (preds F f) \<Longrightarrow> g < length F" using preds_range [OF heap f(1)] .
  show "set (w_seen (walk_visit F sp scope home holds f w)) = insert f (set (w_seen w))"
    by (simp add: walk_visit_def Let_def)
  show "walk_facts F sp scope home holds (walk_visit F sp scope home holds f w)"
  proof -
    let ?w = "walk_visit F sp scope home holds f w"
    have eqs: "w_found ?w \<longleftrightarrow> w_found w \<or> found_node sp holds (F ! f)"
      "w_missed ?w \<longleftrightarrow> w_missed w \<or> missed_node scope home (F ! f)"
      "w_hits ?w = w_hits w @ (if found_node sp holds (F ! f) then [f] else [])"
      "w_seen ?w = f # w_seen w"
      by (rule walk_visit_flags)+
    from w have ws: "w_found w \<longleftrightarrow> (\<exists>g \<in> set (w_seen w). found_node sp holds (F ! g))"
      "w_missed w \<longleftrightarrow> (\<exists>g \<in> set (w_seen w). missed_node scope home (F ! g))"
      "set (w_hits w) = {g \<in> set (w_seen w). found_node sp holds (F ! g)}"
      unfolding walk_facts_def by blast+
    show ?thesis
      unfolding walk_facts_def eqs ws(1,2)
      by (simp add: ws(3) disj_commute) blast
  qed
  show "walk_work (walk_visit F sp scope home holds f w)
      = set (w_stack w) \<union> set (walk_succs F (stop_node sp scope home holds) f)"
  proof (cases "stop_node sp scope home holds (F ! f)")
    case True
    with s stop_not_label [OF True] show ?thesis
      by (simp add: walk_work_def walk_visit_next [OF s f(2)] walk_succs_def node_shape_def)
  next
    case False
    have "set (walk_succs F (stop_node sp scope home holds) f) = set (preds F f)"
      using False range by (auto simp: walk_succs_def)
    with False show ?thesis
      by (auto simp: walk_work_def walk_visit_next [OF s f(2)] preds_def split: option.split)
  qed
qed

definition walk_measure :: "FlowNode list \<Rightarrow> (walk_state \<times> walk_state) set" where
  "walk_measure F = measures [\<lambda>w. card ({..<length F} - set (w_seen w)), \<lambda>w. length (w_stack w),
     \<lambda>w. case w_f w of None \<Rightarrow> 0 | Some _ \<Rightarrow> 1]"

lemma wf_walk_measure: "wf (walk_measure F)"
  by (simp add: walk_measure_def)

text \<open>What the search answers when it ends.\<close>

definition walk_answer :: "FlowNode list \<Rightarrow> symbol_ptr \<Rightarrow> scope_ptr option \<Rightarrow> scope_ptr \<Rightarrow> (FlowNode \<Rightarrow> bool)
    \<Rightarrow> flow_ptr \<Rightarrow> walk_state \<Rightarrow> bool" where
  "walk_answer F sp scope home holds f0 w \<longleftrightarrow>
     (let paths = clear_path F (stop_node sp scope home holds) f0 in
      (w_found w \<longleftrightarrow> (\<exists>g. paths g \<and> found_node sp holds (F ! g))) \<and>
      (w_missed w \<longleftrightarrow> (\<exists>g. paths g \<and> missed_node scope home (F ! g))) \<and>
      (\<forall>h \<in> set (w_hits w). paths h \<and> found_node sp holds (F ! h)) \<and>
      (\<not> w_missed w \<longrightarrow> (\<forall>h. paths h \<and> found_node sp holds (F ! h) \<longrightarrow> h \<in> set (w_hits w))))"

lemma walk_answer_end:
  assumes heap: "flow_heap F" "f0 < length F"
    and inv: "walk.search_inv F (stop_node sp scope home holds) f0 (walk_work w) (set (w_seen w))"
    and facts: "walk_facts F sp scope home holds w"
    and e: "walk_work w = {} \<or> (w_found w \<and> w_missed w)"
  shows "walk_answer F sp scope home holds f0 w"
proof -
  let ?stop = "stop_node sp scope home holds"
  have sub: "set (w_seen w) \<subseteq> {g. clear_path F ?stop f0 g}"
    using walk.search_sub [OF inv] walk_reached [OF heap] by auto
  have live: "\<not> dead_node F g" if "found_node sp holds (F ! g) \<or> missed_node scope home (F ! g)" for g
    using that by (auto simp: dead_node_def found_node_def missed_node_def)
  have all: "{g. clear_path F ?stop f0 g \<and> \<not> dead_node F g} = set (w_seen w)" if "walk_work w = {}"
    using walk.search_done [of F ?stop f0] inv that walk_reached [OF heap] by simp
  note f = facts [unfolded walk_facts_def]
  show ?thesis
  proof (cases "w_found w \<and> w_missed w")
    case True
    with f sub show ?thesis unfolding walk_answer_def Let_def by blast
  next
    case False
    with e have "walk_work w = {}" by blast
    from all [OF this] f live show ?thesis unfolding walk_answer_def Let_def by blast
  qed
qed

lemma walk_loop_correct:
  assumes heap: "flow_heap F" "f0 < length F"
  shows "walk.search_inv F (stop_node sp scope home holds) f0 (walk_work w) (set (w_seen w)) \<Longrightarrow>
    walk_facts F sp scope home holds w \<Longrightarrow>
    \<exists>w'. walk_loop F sp scope home holds w = Some w' \<and> walk_answer F sp scope home holds f0 w'"
proof (induction w rule: wf_induct_rule [OF wf_walk_measure [of F]])
  case (1 w)
  let ?stop = "stop_node sp scope home holds"
  note inv = 1(2) and facts = 1(3)
  show ?case
  proof (cases "w_f w")
    case None
    show ?thesis
    proof (cases "w_stack w = [] \<or> (w_found w \<and> w_missed w)")
      case True
      then have "walk_work w = {} \<or> (w_found w \<and> w_missed w)" using None by (auto simp: walk_work_def)
      with walk_answer_end [OF heap inv facts] True None show ?thesis
        by (subst walk_loop.simps) simp
    next
      case False
      let ?w = "w\<lparr>w_f := Some (last (w_stack w)), w_stack := butlast (w_stack w)\<rparr>"
      have "w_stack w = butlast (w_stack w) @ [last (w_stack w)]" using False by simp
      then have "set (w_stack w) = insert (last (w_stack w)) (set (butlast (w_stack w)))"
        by (metis Un_insert_right list.simps(15) set_append sup_bot.right_neutral list.set(1))
      then have "walk_work ?w = walk_work w" using None by (simp add: walk_work_def)
      moreover have "walk_facts F sp scope home holds ?w" using facts by (simp add: walk_facts_def)
      moreover have "(?w, w) \<in> walk_measure F" using False by (simp add: walk_measure_def)
      ultimately have "\<exists>w'. walk_loop F sp scope home holds ?w = Some w' \<and> walk_answer F sp scope home holds f0 w'"
        using 1(1) [of ?w] inv by simp
      with False None show ?thesis by (subst walk_loop.simps) auto
    qed
  next
    case (Some f)
    then have work: "walk_work w = insert f (set (w_stack w))" by (simp add: walk_work_def)
    show ?thesis
    proof (cases "fl_Flags (F ! f) = FlowUnreachable \<or> f \<in> set (w_seen w)")
      case True
      let ?w = "w\<lparr>w_f := None\<rparr>"
      have "walk.search_inv F ?stop f0 (walk_work ?w) (set (w_seen ?w))"
      proof -
        have "dead_node F f \<or> f \<in> set (w_seen w)" using True by (simp add: dead_node_def)
        from walk.search_skip [OF inv [unfolded work] this] show ?thesis by (simp add: walk_work_def)
      qed
      moreover have "walk_facts F sp scope home holds ?w" using facts by (simp add: walk_facts_def)
      moreover have "(?w, w) \<in> walk_measure F" using Some by (simp add: walk_measure_def)
      ultimately have "\<exists>w'. walk_loop F sp scope home holds ?w = Some w' \<and> walk_answer F sp scope home holds f0 w'"
        using 1(1) [of ?w] by simp
      with True Some show ?thesis by (subst walk_loop.simps) simp
    next
      case False
      let ?w = "walk_visit F sp scope home holds f w"
      from inv work have f: "f < length F" by (auto simp: walk.search_inv_def)
      from False have live: "\<not> dead_node F f" by (simp add: dead_node_def)
      note v = walk_visit_ok [OF heap(1) f live facts Some]
      have "walk.search_inv F ?stop f0 (walk_work ?w) (set (w_seen ?w))"
        unfolding v(2,3) using walk.search_visit inv live unfolding work by blast
      moreover have "(?w, w) \<in> walk_measure F"
        using walk.search_measure [of F ?stop f0 f] inv False v(3) unfolding work walk_measure_def by simp
      ultimately have "\<exists>w'. walk_loop F sp scope home holds ?w = Some w' \<and> walk_answer F sp scope home holds f0 w'"
        using 1(1) [of ?w] v(1) by simp
      with False Some show ?thesis by (subst walk_loop.simps) simp
    qed
  qed
qed

text \<open>The paths only need to stop at what the question is not about.\<close>

lemma walk_missed_paths:
  "(\<exists>g. clear_path F (stop_node sp scope home holds) f g \<and> missed_node scope home (F ! g))
     \<longleftrightarrow> (\<exists>g. clear_path F (found_node sp holds) f g \<and> missed_node scope home (F ! g))"
  using clear_path_first [of F "found_node sp holds" f _ "missed_node scope home"]
    clear_path_mono [of F "stop_node sp scope home holds" f _ "found_node sp holds"] by blast

lemma walk_found_paths:
  "(\<exists>g. clear_path F (stop_node sp scope home holds) f g \<and> found_node sp holds (F ! g))
     \<longleftrightarrow> (\<exists>g. clear_path F (missed_node scope home) f g \<and> found_node sp holds (F ! g))"
  using clear_path_first [of F "missed_node scope home" f _ "found_node sp holds"]
    clear_path_mono [of F "stop_node sp scope home holds" f _ "missed_node scope home"]
    clear_path_mono [of F "\<lambda>n. missed_node scope home n \<or> found_node sp holds n" f _ "stop_node sp scope home holds"] by blast

lemma walkBack_answer:
  assumes heap: "flow_heap (b_Flows b)" and f: "f < length (b_Flows b)"
    and home: "sym_Scope (symbol_at b sp) = Some sc" "containerOf (b_Scopes b) sc = Some (Some home)"
  obtains w where "walkBack f sp holds b = Some (w_found w, w_missed w, w_hits w)"
    and "walk_answer (b_Flows b) sp (Some sc) home holds f w"
proof -
  let ?w = "\<lparr>w_f = None, w_stack = [f], w_seen = [], w_found = False, w_missed = False, w_hits = []\<rparr>"
  have "walk.search_inv (b_Flows b) (stop_node sp (Some sc) home holds) f (walk_work ?w) (set (w_seen ?w))"
    using walk.search_start [OF f] by (simp add: walk_work_def)
  moreover have "walk_facts (b_Flows b) sp (Some sc) home holds ?w" by (simp add: walk_facts_def)
  ultimately obtain w where "walk_loop (b_Flows b) sp (Some sc) home holds ?w = Some w"
      and a: "walk_answer (b_Flows b) sp (Some sc) home holds f w"
    using walk_loop_correct [OF heap f] by blast
  then have "walkBack f sp holds b = Some (w_found w, w_missed w, w_hits w)"
    using home by (simp add: walkBack_def)
  with a show thesis by (rule that [rotated])
qed

text \<open>Where nothing is missed, the nearest facts are the hits.\<close>

lemma walk_covered:
  assumes heap: "flow_heap (b_Flows b)" and f: "f < length (b_Flows b)"
    and home: "sym_Scope (symbol_at b sp) = Some sc" "containerOf (b_Scopes b) sc = Some (Some home)"
    and w: "walkBack f sp holds b = Some (True, False, hits)"
  shows "\<And>g. clear_path (b_Flows b) (found_node sp holds) f g \<Longrightarrow> \<not> missed_node (Some sc) home (flow_at b g)"
    and "set hits = {g. clear_path (b_Flows b) (found_node sp holds) f g \<and> found_node sp holds (flow_at b g)}"
    and "hits \<noteq> []"
proof -
  let ?all = "clear_path (b_Flows b) (stop_node sp (Some sc) home holds) f"
  let ?clear = "clear_path (b_Flows b) (found_node sp holds) f"
  obtain v where "walkBack f sp holds b = Some (w_found v, w_missed v, w_hits v)"
    and a: "walk_answer (b_Flows b) sp (Some sc) home holds f v" by (rule walkBack_answer [OF heap f home])
  with w have v: "w_found v" "\<not> w_missed v" "w_hits v = hits" by simp_all
  from a have "w_missed v \<longleftrightarrow> (\<exists>g. ?clear g \<and> missed_node (Some sc) home (flow_at b g))"
    and "w_found v \<longleftrightarrow> (\<exists>g. ?all g \<and> found_node sp holds (flow_at b g))"
    and "\<not> w_missed v \<longrightarrow> (\<forall>h. ?all h \<and> found_node sp holds (flow_at b h) \<longrightarrow> h \<in> set (w_hits v))"
    and "\<forall>h \<in> set (w_hits v). ?all h \<and> found_node sp holds (flow_at b h)"
    unfolding walk_answer_def Let_def walk_missed_paths by blast+
  with v have missed: "\<not> (\<exists>g. ?clear g \<and> missed_node (Some sc) home (flow_at b g))"
    and found: "\<exists>g. ?all g \<and> found_node sp holds (flow_at b g)"
    and hits: "set hits = {h. ?all h \<and> found_node sp holds (flow_at b h)}" by blast+
  have "?clear g \<Longrightarrow> ?all g" for g
  proof (induction rule: clear_path.induct)
    case (further g h)
    with missed show ?case by (auto intro: clear_path.further)
  qed (rule clear_path.here)
  moreover have "?all g \<Longrightarrow> ?clear g" for g by (erule clear_path_mono) simp
  ultimately show "set hits = {g. ?clear g \<and> found_node sp holds (flow_at b g)}" using hits by blast
  from found hits show "hits \<noteq> []" by auto
  show "\<And>g. ?clear g \<Longrightarrow> \<not> missed_node (Some sc) home (flow_at b g)" using missed by blast
qed

lemma local_read_home:
  assumes "local_read r b = Some (Some (sp, f))"
  obtains sc home where "sym_Scope (symbol_at b sp) = Some sc" "containerOf (b_Scopes b) sc = Some (Some home)"
    and "b_refContainer b r = Some home"
  using assms by (auto simp: local_read_def split: option.splits if_splits)

section \<open>The search for guards\<close>

definition guard_succs :: "FlowNode list \<Rightarrow> (flow_ptr \<Rightarrow> guard_step) \<Rightarrow> flow_ptr \<Rightarrow> flow_ptr list" where
  "guard_succs F visit f = filter (\<lambda>g. g < length F)
     (case visit f of Unguarded \<Rightarrow> [] | Follow g \<Rightarrow> (case g of Some g \<Rightarrow> [g] | None \<Rightarrow> []) | Branch gs \<Rightarrow> gs)"

interpretation guard: stack_search "length F" "dead_node F" "guard_succs F visit" for F visit
  by unfold_locales (auto simp: guard_succs_def)

text \<open>A condition that excludes \<open>undefined\<close>, and where a path without one ends.\<close>

definition guard_node :: "ast \<Rightarrow> symbol_ptr \<Rightarrow> 'a flow_state_scheme \<Rightarrow> FlowNode \<Rightarrow> bool" where
  "guard_node A sp b n \<longleftrightarrow> (fl_Flags n = FlowTrueCondition \<or> fl_Flags n = FlowFalseCondition) \<and>
     (case fl_Node n of Some c \<Rightarrow> excludesUndefined A c sp (fl_Flags n = FlowTrueCondition) b | None \<Rightarrow> False)"

definition unguarded_node :: "symbol_ptr \<Rightarrow> 'a flow_state_scheme \<Rightarrow> FlowNode \<Rightarrow> bool" where
  "unguarded_node sp b n \<longleftrightarrow> (fl_Flags n = FlowAssignment \<and> fl_Symbol n = Some sp)
     \<or> fl_Flags n = FlowStart \<or> (fl_Flags n = FlowScopeStart \<and> fl_Scope n = sym_Scope (symbol_at b sp))"

lemma guard_visit_unguarded: "guard_visit A sp b f = Unguarded \<longleftrightarrow> unguarded_node sp b (flow_at b f)"
  by (cases "fl_Flags (flow_at b f)") (auto simp: guard_visit_def Let_def unguarded_node_def split: option.split)

lemma guard_visit_follow:
  assumes "node_shape N (flow_at b f)" "guard_visit A sp b f = Follow g"
  shows "set (case g of Some g \<Rightarrow> [g] | None \<Rightarrow> [])
       = (if guard_node A sp b (flow_at b f) then {} else set (preds (b_Flows b) f))"
  using assms
  by (cases "fl_Flags (flow_at b f)"; auto simp: guard_visit_def Let_def guard_node_def preds_def node_shape_def
        is_label_def split: option.splits if_splits) (metis option.inject)+

lemma guard_visit_branch:
  assumes "node_shape N (flow_at b f)" "\<not> dead_node (b_Flows b) f" "guard_visit A sp b f = Branch gs"
  shows "\<not> guard_node A sp b (flow_at b f)" and "set gs = set (preds (b_Flows b) f)"
  using assms
  by (cases "fl_Flags (flow_at b f)";
      auto simp: guard_visit_def Let_def guard_node_def preds_def node_shape_def is_label_def dead_node_def
        split: option.splits if_splits; fail)+

lemma guard_succs_preds:
  assumes "flow_heap (b_Flows b)" "f < length (b_Flows b)" "\<not> dead_node (b_Flows b) f" "\<not> unguarded_node sp b (flow_at b f)"
  shows "set (guard_succs (b_Flows b) (guard_visit A sp b) f) = (if guard_node A sp b (flow_at b f) then {} else set (preds (b_Flows b) f))"
proof -
  note s = flow_heapD(1) [OF assms(1,2)]
  have r: "\<And>g. g \<in> set (preds (b_Flows b) f) \<Longrightarrow> g < length (b_Flows b)" using preds_range [OF assms(1,2)] .
  show ?thesis
  proof (cases "guard_visit A sp b f")
    case Unguarded
    then show ?thesis using assms(4) guard_visit_unguarded by blast
  next
    case (Follow g)
    from guard_visit_follow [OF s Follow] r Follow show ?thesis
      by (auto simp: guard_succs_def split: if_splits)
  next
    case (Branch gs)
    from guard_visit_branch [OF s assms(3) Branch] r Branch show ?thesis by (auto simp: guard_succs_def)
  qed
qed

lemma guard_reached:
  assumes "flow_heap (b_Flows b)" "f < length (b_Flows b)"
  shows "guard.reached (b_Flows b) (guard_visit A sp b) f
    = {g. clear_path (b_Flows b) (\<lambda>n. guard_node A sp b n \<or> unguarded_node sp b n) f g}"
proof (intro equalityI subsetI)
  fix g assume "g \<in> guard.reached (b_Flows b) (guard_visit A sp b) f"
  then have "(f, g) \<in> (guard.edges (b_Flows b) (guard_visit A sp b))\<^sup>*" by (simp add: guard.reached_def)
  then have "clear_path (b_Flows b) (\<lambda>n. guard_node A sp b n \<or> unguarded_node sp b n) f g"
  proof (induction rule: rtrancl_induct)
    case (step g h)
    then have g: "g < length (b_Flows b)" "\<not> dead_node (b_Flows b) g" "h \<in> set (guard_succs (b_Flows b) (guard_visit A sp b) g)"
      by (auto simp: guard.edges_def)
    have "\<not> unguarded_node sp b (flow_at b g)"
      using g(3) guard_visit_unguarded [of A sp b g] by (auto simp: guard_succs_def)
    with guard_succs_preds [OF assms(1) g(1,2) this, of A] g(3) step.IH show ?case
      by (auto intro: clear_path.further split: if_splits)
  qed (rule clear_path.here)
  then show "g \<in> {g. clear_path (b_Flows b) (\<lambda>n. guard_node A sp b n \<or> unguarded_node sp b n) f g}" by simp
next
  fix g assume "g \<in> {g. clear_path (b_Flows b) (\<lambda>n. guard_node A sp b n \<or> unguarded_node sp b n) f g}"
  then have "clear_path (b_Flows b) (\<lambda>n. guard_node A sp b n \<or> unguarded_node sp b n) f g" by simp
  then show "g \<in> guard.reached (b_Flows b) (guard_visit A sp b) f"
  proof (induction rule: clear_path.induct)
    case here
    then show ?case by (simp add: guard.reached_def)
  next
    case (further g h)
    have g: "g < length (b_Flows b)" by (rule clear_path_range [OF further.hyps(1) assms])
    with further.hyps(3) assms(1) have live: "\<not> dead_node (b_Flows b) g" by (auto dest: dead_preds)
    moreover have "h \<in> set (guard_succs (b_Flows b) (guard_visit A sp b) g)"
      using guard_succs_preds [OF assms(1) g live] further.hyps by simp
    ultimately show ?case using guard.reached_step further.IH g by blast
  qed
qed

text \<open>The loop answers whether no path without a guard ends at a store or a start.\<close>

definition guard_answer :: "ast \<Rightarrow> symbol_ptr \<Rightarrow> 'a flow_state_scheme \<Rightarrow> flow_ptr \<Rightarrow> bool" where
  "guard_answer A sp b f0 \<longleftrightarrow>
     (\<forall>g. clear_path (b_Flows b) (\<lambda>n. guard_node A sp b n \<or> unguarded_node sp b n) f0 g
        \<longrightarrow> \<not> unguarded_node sp b (flow_at b g))"

lemma guard_answer_paths:
  "guard_answer A sp b f0 \<longleftrightarrow>
     (\<forall>g. clear_path (b_Flows b) (guard_node A sp b) f0 g \<longrightarrow> \<not> unguarded_node sp b (flow_at b g))"
  unfolding guard_answer_def
  using clear_path_first [of "b_Flows b" "guard_node A sp b" f0 _ "unguarded_node sp b"]
    clear_path_mono [of "b_Flows b" "\<lambda>n. guard_node A sp b n \<or> unguarded_node sp b n" f0 _ "guard_node A sp b"] by blast

lemma guard_loop_correct:
  assumes heap: "flow_heap (b_Flows b)" "f0 < length (b_Flows b)"
  shows "guard.search_inv (b_Flows b) (guard_visit A sp b) f0 (set stack \<union> (case f of Some f \<Rightarrow> {f} | None \<Rightarrow> {})) (set seen) \<Longrightarrow>
    \<forall>g \<in> set seen. \<not> unguarded_node sp b (flow_at b g) \<Longrightarrow>
    guard_loop A sp b f stack seen = Some (guard_answer A sp b f0)"
proof (induction "(f, stack, seen)" arbitrary: f stack seen rule: wf_induct_rule
    [OF wf_measures [of "[\<lambda>(f, stack, seen). card ({..<length (b_Flows b)} - set seen),
       \<lambda>(f, stack, seen). length stack, \<lambda>(f, stack, seen). case f of None \<Rightarrow> 0 | Some _ \<Rightarrow> 1]"]])
  case (1 f stack seen)
  note inv = 1(2) and clean = 1(3)
  show ?case
  proof (cases f)
    case None
    show ?thesis
    proof (cases "stack = []")
      case True
      with inv None have "guard.search_inv (b_Flows b) (guard_visit A sp b) f0 {} (set seen)" by simp
      from guard.search_done [OF this] guard_reached [OF heap, of A sp]
      have seen: "{g. clear_path (b_Flows b) (\<lambda>n. guard_node A sp b n \<or> unguarded_node sp b n) f0 g
          \<and> \<not> dead_node (b_Flows b) g} = set seen" by simp
      have "\<not> dead_node (b_Flows b) g" if "unguarded_node sp b (flow_at b g)" for g
        using that by (auto simp: unguarded_node_def dead_node_def)
      with seen clean have "guard_answer A sp b f0" unfolding guard_answer_def by blast
      with True None show ?thesis by (subst guard_loop.simps) simp
    next
      case False
      then have "set stack = insert (last stack) (set (butlast stack))"
        by (metis Un_insert_right append_butlast_last_id list.set(1) list.simps(15) set_append sup_bot.right_neutral)
      with inv None have "guard.search_inv (b_Flows b) (guard_visit A sp b) f0 (set (butlast stack) \<union> {last stack}) (set seen)" by simp
      then have "guard_loop A sp b (Some (last stack)) (butlast stack) seen = Some (guard_answer A sp b f0)"
        using 1(1) [of "Some (last stack)" "butlast stack" seen] False clean by simp
      with False None show ?thesis by (subst guard_loop.simps) simp
    qed
  next
    case (Some g)
    then have inv': "guard.search_inv (b_Flows b) (guard_visit A sp b) f0 (insert g (set stack)) (set seen)" using inv by simp
    show ?thesis
    proof (cases "fl_Flags (flow_at b g) = FlowUnreachable \<or> g \<in> set seen")
      case True
      then have "dead_node (b_Flows b) g \<or> g \<in> set seen" by (simp add: dead_node_def)
      from guard.search_skip [OF inv' this]
      have "guard_loop A sp b None stack seen = Some (guard_answer A sp b f0)"
        using 1(1) [of None stack seen] clean Some by simp
      with True Some show ?thesis by (subst guard_loop.simps) simp
    next
      case False
      then have live: "\<not> dead_node (b_Flows b) g" by (simp add: dead_node_def)
      from inv' have g: "g < length (b_Flows b)" "g \<in> guard.reached (b_Flows b) (guard_visit A sp b) f0" by (auto simp: guard.search_inv_def)
      note vis = guard.search_visit [OF inv' live] and less = guard.search_measure [OF inv']
      show ?thesis
      proof (cases "guard_visit A sp b g")
        case Unguarded
        with guard_visit_unguarded have "unguarded_node sp b (flow_at b g)" by blast
        with g(2) guard_reached [OF heap, of A sp] have "\<not> guard_answer A sp b f0"
          unfolding guard_answer_def by blast
        with False Some Unguarded show ?thesis by (subst guard_loop.simps) simp
      next
        case (Follow h)
        then have ung: "\<not> unguarded_node sp b (flow_at b g)" using guard_visit_unguarded [of A sp b g] by auto
        have "set (case h of Some h \<Rightarrow> [h] | None \<Rightarrow> []) = (case h of Some h \<Rightarrow> {h} | None \<Rightarrow> {})"
          by (cases h) simp_all
        then have "set (guard_succs (b_Flows b) (guard_visit A sp b) g) = (case h of Some h \<Rightarrow> {h} | None \<Rightarrow> {})"
          using guard_succs_preds [OF heap(1) g(1) live ung, of A] guard_visit_follow [OF flow_heapD(1) [OF heap(1) g(1)] Follow]
          by metis
        with vis have "guard.search_inv (b_Flows b) (guard_visit A sp b) f0 (set stack \<union> (case h of Some f \<Rightarrow> {f} | None \<Rightarrow> {})) (set (g # seen))" by simp
        then have "guard_loop A sp b h stack (g # seen) = Some (guard_answer A sp b f0)"
          using 1(1) [of h stack "g # seen"] False less clean ung by simp
        with False Some Follow show ?thesis by (subst guard_loop.simps) simp
      next
        case (Branch gs)
        then have ung: "\<not> unguarded_node sp b (flow_at b g)" using guard_visit_unguarded [of A sp b g] by auto
        note br = guard_visit_branch [OF flow_heapD(1) [OF heap(1) g(1)] live Branch]
        have "set (guard_succs (b_Flows b) (guard_visit A sp b) g) = set gs"
          using guard_succs_preds [OF heap(1) g(1) live ung, of A] br by simp
        with vis have "guard.search_inv (b_Flows b) (guard_visit A sp b) f0 (set (stack @ gs)) (set (g # seen))" by simp
        then have "guard_loop A sp b None (stack @ gs) (g # seen) = Some (guard_answer A sp b f0)"
          using 1(1) [of None "stack @ gs" "g # seen"] False less clean ung by simp
        with False Some Branch show ?thesis by (subst guard_loop.simps) simp
      qed
    qed
  qed
qed

section \<open>Every building step keeps the shape\<close>

definition flow_inv :: "'a flow_state_scheme \<Rightarrow> bool" where
  "flow_inv b \<longleftrightarrow> flow_heap (b_Flows b) \<and> b_flow b < length (b_Flows b) \<and>
     (\<forall>t \<in> set (b_exceptionTargets b). t < length (b_Flows b) \<and> is_label (fl_Flags (flow_at b t)))"

lemma node_shape_mono: "node_shape n f \<Longrightarrow> n \<le> m \<Longrightarrow> node_shape m f"
  by (auto simp: node_shape_def split: if_splits)

lemma flow_heap_add:
  assumes "flow_heap F" "node_shape (length F) n" "fl_Flags n \<noteq> FlowUnreachable"
  shows "flow_heap (F @ [n])"
  using assms node_shape_mono [of "length F" _ "Suc (length F)"]
  by (auto simp: flow_heap_def nth_append less_Suc_eq)

lemma new_flow_inv:
  assumes "flow_inv b" "node_shape (length (b_Flows b)) n" "fl_Flags n \<noteq> FlowUnreachable" "new_flow n b = (f, b')"
  shows "flow_inv b'" and "f < length (b_Flows b')" and "f \<noteq> unreachableFlow" and "flow_at b' f = n"
    and "length (b_Flows b') = Suc (length (b_Flows b))"
  using assms flow_heap_add [of "b_Flows b" n]
  by (auto simp: flow_inv_def new_flow_def nth_append intro: less_SucI) (auto simp: flow_heap_def)

lemma addAntecedent_inv:
  assumes inv: "flow_inv b" and l: "l < length (b_Flows b)" "is_label (fl_Flags (flow_at b l))"
    and f: "\<forall>g. f = Some g \<longrightarrow> g < length (b_Flows b)"
  shows "flow_inv (addAntecedent l f b)" and "length (b_Flows (addAntecedent l f b)) = length (b_Flows b)"
    and "\<And>g. fl_Flags (flow_at (addAntecedent l f b) g) = fl_Flags (flow_at b g)"
    and "b_exceptionTargets (addAntecedent l f b) = b_exceptionTargets b" and "b_flow (addAntecedent l f b) = b_flow b"
proof -
  show len: "length (b_Flows (addAntecedent l f b)) = length (b_Flows b)"
    and fl: "\<And>g. fl_Flags (flow_at (addAntecedent l f b) g) = fl_Flags (flow_at b g)"
    and ex: "b_exceptionTargets (addAntecedent l f b) = b_exceptionTargets b" "b_flow (addAntecedent l f b) = b_flow b"
    using l by (auto simp: addAntecedent_def nth_list_update split: option.split)
  have "flow_heap (b_Flows (addAntecedent l f b))"
  proof (cases "f = None \<or> f = Some unreachableFlow \<or> (\<exists>g. f = Some g \<and> g \<in> set (fl_Antecedents (flow_at b l)))")
    case True
    then show ?thesis using inv by (auto simp: addAntecedent_def flow_inv_def)
  next
    case False
    then obtain g where g: "f = Some g" "g \<noteq> unreachableFlow" "g \<notin> set (fl_Antecedents (flow_at b l))" by auto
    have heap: "flow_heap (b_Flows b)" using inv by (simp add: flow_inv_def)
    have "node_shape (length (b_Flows b)) ((flow_at b l)\<lparr>fl_Antecedents := fl_Antecedents (flow_at b l) @ [g]\<rparr>)"
      using flow_heapD(1) [OF heap l(1)] g f l(2) by (auto simp: node_shape_def)
    then show ?thesis using heap g l
      by (auto simp: addAntecedent_def flow_heap_def nth_list_update)
  qed
  then show "flow_inv (addAntecedent l f b)"
    using inv by (simp add: flow_inv_def len fl ex)
qed

lemma fold_addAntecedent_inv:
  assumes "flow_inv b" "\<And>t f. (t, f) \<in> set as \<Longrightarrow> t < length (b_Flows b) \<and> is_label (fl_Flags (flow_at b t)) \<and>
     (\<forall>g. f = Some g \<longrightarrow> g < length (b_Flows b))"
  shows "flow_inv (fold (\<lambda>(t, f). addAntecedent t f) as b)
    \<and> length (b_Flows (fold (\<lambda>(t, f). addAntecedent t f) as b)) = length (b_Flows b)
    \<and> (\<forall>g. fl_Flags (flow_at (fold (\<lambda>(t, f). addAntecedent t f) as b) g) = fl_Flags (flow_at b g))
    \<and> b_flow (fold (\<lambda>(t, f). addAntecedent t f) as b) = b_flow b"
  using assms
proof (induction as arbitrary: b)
  case (Cons a as)
  obtain t f where a: "a = (t, f)" by fastforce
  have t: "t < length (b_Flows b)" "is_label (fl_Flags (flow_at b t))" "\<forall>g. f = Some g \<longrightarrow> g < length (b_Flows b)"
    using Cons.prems(2) [of t f] a by auto
  note ad = addAntecedent_inv [OF Cons.prems(1) t]
  have rest: "t' < length (b_Flows (addAntecedent t f b)) \<and> is_label (fl_Flags (flow_at (addAntecedent t f b) t'))
      \<and> (\<forall>g. f' = Some g \<longrightarrow> g < length (b_Flows (addAntecedent t f b)))" if "(t', f') \<in> set as" for t' f'
  proof -
    from that have "(t', f') \<in> set (a # as)" by simp
    from Cons.prems(2) [OF this] show ?thesis by (simp add: ad(2,3))
  qed
  from Cons.IH [OF ad(1) rest] show ?case by (simp add: a ad(2,3,5))
qed simp

lemma newLabel_inv:
  assumes inv: "flow_inv b" and l: "is_label flags" and fs: "\<forall>g. Some g \<in> set fs \<longrightarrow> g < length (b_Flows b)"
    and n: "newLabel flags fs b = (l, b')"
  shows "flow_inv b'" and "l < length (b_Flows b')" and "is_label (fl_Flags (flow_at b' l))" and "l \<noteq> unreachableFlow"
    and "length (b_Flows b') = Suc (length (b_Flows b))" and "b_flow b' = b_flow b"
proof -
  obtain b1 where b1: "new_flow (blank_flow flags) b = (l, b1)" and b': "b' = fold (addAntecedent l) fs b1"
    using n by (auto simp: newLabel_def split: prod.splits)
  have "node_shape (length (b_Flows b)) (blank_flow flags)" "fl_Flags (blank_flow flags) \<noteq> FlowUnreachable"
    using l by (auto simp: node_shape_def blank_flow_def is_label_def)
  note nf = new_flow_inv [OF inv this b1]
  have eq: "fold (addAntecedent l) fs b1 = fold (\<lambda>(t, f). addAntecedent t f) (map (Pair l) fs) b1" for b1
    by (simp add: fold_map comp_def)
  have lb: "is_label (fl_Flags (flow_at b1 l))" using l by (simp add: nf(4) blank_flow_def)
  have fb: "b_flow b1 = b_flow b" using b1 by (auto simp: new_flow_def)
  have "t < length (b_Flows b1) \<and> is_label (fl_Flags (flow_at b1 t)) \<and> (\<forall>g. f = Some g \<longrightarrow> g < length (b_Flows b1))"
    if "(t, f) \<in> set (map (Pair l) fs)" for t f
    using that fs nf(2,5) lb by (auto intro: less_SucI)
  from fold_addAntecedent_inv [of b1 "map (Pair l) fs", OF nf(1) this] show "flow_inv b'" and "l < length (b_Flows b')" and "is_label (fl_Flags (flow_at b' l))" and "l \<noteq> unreachableFlow"
    and "length (b_Flows b') = Suc (length (b_Flows b))" and "b_flow b' = b_flow b"
    using nf(2,3,5) lb fb by (simp_all add: b' eq)
qed

lemma finish_inv: "flow_inv b \<Longrightarrow> l < length (b_Flows b) \<Longrightarrow> finish l b < length (b_Flows b)"
  by (auto simp: finish_def flow_inv_def flow_heap_def)

lemma join_inv:
  assumes "flow_inv b" "\<forall>g. Some g \<in> set fs \<longrightarrow> g < length (b_Flows b)" "join fs b = (l, b')"
  shows "flow_inv b'" and "l < length (b_Flows b')"
proof -
  obtain l0 where l0: "newLabel FlowBranchLabel fs b = (l0, b')" "l = finish l0 b'"
    using assms(3) by (auto simp: join_def split: prod.splits)
  have "is_label FlowBranchLabel" by (simp add: is_label_def)
  note n = newLabel_inv [OF assms(1) this assms(2) l0(1)]
  from n(1) show "flow_inv b'" .
  from finish_inv [OF n(1,2)] show "l < length (b_Flows b')" by (simp add: l0(2))
qed

text \<open>A node on the current flow.\<close>

lemma extend_inv:
  assumes inv: "flow_inv b" and f: "f < length (b_Flows b)" "f \<noteq> unreachableFlow"
    and n: "new_flow n b = (g, b')" and k: "fl_Antecedent n = Some f" "fl_Antecedents n = []"
      "\<not> is_label (fl_Flags n)" "fl_Flags n \<notin> {FlowStart, FlowUnreachable}"
  shows "flow_inv b'" and "g < length (b_Flows b')" and "g \<noteq> unreachableFlow" and "flow_inv (b'\<lparr>b_flow := g\<rparr>)"
proof -
  have "node_shape (length (b_Flows b)) n" using f k by (simp add: node_shape_def)
  note nf = new_flow_inv [OF inv this _ n]
  from nf k show "flow_inv b'" and "g < length (b_Flows b')" and "g \<noteq> unreachableFlow" by simp_all
  then show "flow_inv (b'\<lparr>b_flow := g\<rparr>)" by (simp add: flow_inv_def)
qed

lemma same_graph_inv:
  assumes "flow_inv b" "b_Flows b' = b_Flows b" "b_flow b' = b_flow b" "b_exceptionTargets b' = b_exceptionTargets b"
  shows "flow_inv b'"
  using assms by (simp add: flow_inv_def)

lemma assignment_node_inv:
  assumes inv: "flow_inv b"
  shows "flow_inv (assignment_node sp init assign b)"
proof (cases "b_flow b = unreachableFlow")
  case False
  let ?n = "(blank_flow FlowAssignment)\<lparr>fl_Antecedent := Some (b_flow b), fl_Symbol := Some sp,
                 fl_Init := init, fl_Assign := assign, fl_Node := b_storing b\<rparr>"
  obtain f b1 where n: "new_flow ?n b = (f, b1)" by fastforce
  have "b_flow b < length (b_Flows b)" using inv by (simp add: flow_inv_def)
  note e = extend_inv [OF inv this False n]
  let ?b = "b1\<lparr>b_flow := f\<rparr>"
  have i: "flow_inv ?b" by (rule e(4)) (simp_all add: blank_flow_def is_label_def)
  have f: "f < length (b_Flows ?b)" using n by (auto simp: new_flow_def)
  have ex: "b_exceptionTargets b1 = b_exceptionTargets b" using n by (auto simp: new_flow_def)
  have eq: "fold (\<lambda>t. addAntecedent t (Some f)) ts b = fold (\<lambda>(t, f). addAntecedent t f) (map (\<lambda>t. (t, Some f)) ts) b" for ts b
    by (simp add: fold_map comp_def)
  have "flow_inv (fold (\<lambda>(t, f). addAntecedent t f) (map (\<lambda>t. (t, Some f)) (b_exceptionTargets b1)) ?b)"
    using i f by (intro conjunct1 [OF fold_addAntecedent_inv]) (auto simp: flow_inv_def)
  then show ?thesis using n False unfolding assignment_node_def by (simp add: eq)
qed (use inv in \<open>simp add: assignment_node_def\<close>)

lemma assignFlow_inv:
  assumes inv: "flow_inv b" and a: "assignFlow sy init assign b = Some b'"
  shows "flow_inv b'"
proof -
  obtain b1 where b1: "mark_foreign sy b = Some b1" using a by (auto simp: assignFlow_def split: option.splits)
  then have i1: "flow_inv b1"
    by (intro same_graph_inv [OF inv]) (auto simp: mark_foreign_def split: option.splits if_splits)
  show ?thesis
  proof (cases "sy = None \<or> \<not> flowing b1")
    case True
    then show ?thesis using a b1 i1 by (auto simp: assignFlow_def split: option.splits)
  next
    case False
    then obtain sp where sp: "sy = Some sp" by auto
    let ?b = "record_store sp b1"
    from a b1 sp False obtain b2 where
      b2: "(if init then Some (?b\<lparr>b_declOrd := (b_declOrd ?b)(sp := b_ord ?b)\<rparr>)
            else if assign then markAssignment sp ?b else Some ?b) = Some b2"
      and b': "b' = assignment_node sp init assign b2"
      by (auto simp: assignFlow_def Let_def split: option.splits)
    have "flow_inv b2"
      using b2 by (intro same_graph_inv [OF i1])
        (auto simp: markAssignment_def record_store_def add_assigned_def split: if_splits option.splits)
    then show ?thesis unfolding b' by (rule assignment_node_inv)
  qed
qed

text \<open>The steps that build the graph, as the traversal takes them.\<close>

inductive flow_step :: "'a flow_state_scheme \<Rightarrow> 'a flow_state_scheme \<Rightarrow> bool" where
  Assign: "assignFlow sy init assign b = Some b' \<Longrightarrow> flow_step b b'"
| Clause: "f < length (b_Flows b) \<Longrightarrow> flow_step b (snd (switchClause f sw clause b))"
| Condition: "f < length (b_Flows b) \<Longrightarrow> flow_step b (snd (condition f cond truthy b))"
| ScopeEntry: "flow_step b (scopeStartFlow s b)"
| Extend: "fl \<in> {FlowCall, FlowPropertyAssignment} \<Longrightarrow> flow_step b (extend_flow fl n b)"
| Label: "is_label flags \<Longrightarrow> \<forall>g. Some g \<in> set fs \<longrightarrow> g < length (b_Flows b) \<Longrightarrow> flow_step b (snd (newLabel flags fs b))"
| Join: "\<forall>g. Some g \<in> set fs \<longrightarrow> g < length (b_Flows b) \<Longrightarrow> flow_step b (snd (join fs b))"
| Antecedent: "l < length (b_Flows b) \<Longrightarrow> is_label (fl_Flags (flow_at b l)) \<Longrightarrow>
    \<forall>g. f = Some g \<longrightarrow> g < length (b_Flows b) \<Longrightarrow> flow_step b (addAntecedent l f b)"
| Begin: "flow_step b (start_flow scope outer b)"
| Goto: "f < length (b_Flows b) \<Longrightarrow> flow_step b (b\<lparr>b_flow := f\<rparr>)"
| Leave: "flow_step b (unreachable b)"
| Targets: "\<forall>t \<in> set ts. t < length (b_Flows b) \<and> is_label (fl_Flags (flow_at b t)) \<Longrightarrow>
    flow_step b (b\<lparr>b_exceptionTargets := ts\<rparr>)"

lemma flow_step_inv:
  assumes "flow_step b b'" "flow_inv b"
  shows "flow_inv b'"
  using assms
proof (induction rule: flow_step.induct)
  case (Assign sy init assign b b')
  show ?case by (rule assignFlow_inv [OF Assign.prems Assign.hyps])
next
  case (Clause f b sw clause)
  show ?case
  proof (cases "\<not> flowing b \<or> f = unreachableFlow")
    case False
    obtain g b1 where n: "new_flow ((blank_flow FlowSwitchClause)\<lparr>fl_Antecedent := Some f, fl_Node := Some sw, fl_Clause := clause\<rparr>) b = (g, b1)"
      by fastforce
    have "flow_inv b1"
      by (rule extend_inv(1) [OF Clause.prems Clause.hyps _ n]) (use False in \<open>simp_all add: blank_flow_def is_label_def\<close>)
    then show ?thesis using False n by (simp add: switchClause_def)
  qed (use Clause.prems in \<open>simp add: switchClause_def\<close>)
next
  case (Condition f b cond truthy)
  show ?case
  proof (cases "\<not> flowing b \<or> f = unreachableFlow \<or> cond = None")
    case False
    obtain g b1 where n: "new_flow ((blank_flow (if truthy then FlowTrueCondition else FlowFalseCondition))
        \<lparr>fl_Antecedent := Some f, fl_Node := cond\<rparr>) b = (g, b1)" by fastforce
    have "flow_inv b1"
      by (rule extend_inv(1) [OF Condition.prems Condition.hyps _ n]) (use False in \<open>simp_all add: blank_flow_def is_label_def\<close>)
    then show ?thesis using False n by (auto simp: condition_def)
  qed (use Condition.prems in \<open>auto simp: condition_def\<close>)
next
  case (ScopeEntry b s)
  show ?case
  proof (cases "\<not> flowing b \<or> b_flow b = unreachableFlow")
    case False
    obtain g b1 where n: "new_flow ((blank_flow FlowScopeStart)\<lparr>fl_Antecedent := Some (b_flow b), fl_Scope := Some s\<rparr>) b = (g, b1)"
      by fastforce
    have "b_flow b < length (b_Flows b)" using ScopeEntry.prems by (simp add: flow_inv_def)
    then have "flow_inv (b1\<lparr>b_flow := g\<rparr>)"
      by (rule extend_inv(4) [OF ScopeEntry.prems _ _ n]) (use False in \<open>simp_all add: blank_flow_def is_label_def\<close>)
    then show ?thesis using False n by (simp add: scopeStartFlow_def)
  qed (use ScopeEntry.prems in \<open>simp add: scopeStartFlow_def\<close>)
next
  case (Extend fl b n)
  show ?case
  proof (cases "\<not> flowing b \<or> b_flow b = unreachableFlow")
    case False
    obtain g b1 where nf: "new_flow ((blank_flow fl)\<lparr>fl_Antecedent := Some (b_flow b), fl_Node := Some n\<rparr>) b = (g, b1)"
      by fastforce
    have "b_flow b < length (b_Flows b)" using Extend.prems by (simp add: flow_inv_def)
    then have "flow_inv (b1\<lparr>b_flow := g\<rparr>)"
      by (rule extend_inv(4) [OF Extend.prems _ _ nf]) (use False Extend.hyps in \<open>auto simp: blank_flow_def is_label_def\<close>)
    then show ?thesis using False nf by (simp add: extend_flow_def)
  qed (use Extend.prems in \<open>simp add: extend_flow_def\<close>)
next
  case (Label flags fs b)
  show ?case by (rule newLabel_inv(1) [OF Label.prems Label.hyps, of _ "snd (newLabel flags fs b)"]) (rule prod.collapse [symmetric])
next
  case (Join fs b)
  show ?case by (rule join_inv(1) [OF Join.prems Join.hyps, of _ "snd (join fs b)"]) (rule prod.collapse [symmetric])
next
  case (Antecedent l b f)
  show ?case by (rule addAntecedent_inv(1) [OF Antecedent.prems Antecedent.hyps])
next
  case (Begin b scope outer)
  obtain f b1 where n: "new_flow ((blank_flow FlowStart)\<lparr>fl_Scope := Some scope, fl_Outer := outer\<rparr>) b = (f, b1)" by fastforce
  have s: "node_shape (length (b_Flows b)) ((blank_flow FlowStart)\<lparr>fl_Scope := Some scope, fl_Outer := outer\<rparr>)"
    by (simp add: node_shape_def blank_flow_def is_label_def)
  have "flow_inv b1 \<and> f < length (b_Flows b1)"
    using new_flow_inv(1,2) [OF Begin.prems s _ n] by (simp add: blank_flow_def)
  then show ?case using n by (simp add: start_flow_def flow_inv_def)
next
  case (Leave b)
  then show ?case by (auto simp: unreachable_def flow_inv_def flow_heap_def)
qed (simp_all add: flow_inv_def)

inductive flow_reachable :: "flow_state \<Rightarrow> bool" where
  start: "b_Flows b = [blank_flow FlowUnreachable, (blank_flow FlowStart)\<lparr>fl_Scope := Some s\<rparr>] \<Longrightarrow> b_flow b = 1
     \<Longrightarrow> b_exceptionTargets b = [] \<Longrightarrow> flow_reachable b"
| step: "flow_reachable b \<Longrightarrow> flow_step b b' \<Longrightarrow> flow_reachable b'"
| other: "flow_reachable b \<Longrightarrow> b_Flows b' = b_Flows b \<Longrightarrow> b_flow b' = b_flow b
     \<Longrightarrow> b_exceptionTargets b' = b_exceptionTargets b \<Longrightarrow> flow_reachable b'"

lemma flow_reachable_inv: "flow_reachable b \<Longrightarrow> flow_inv b"
proof (induction rule: flow_reachable.induct)
  case (start b s)
  then show ?case
    by (auto simp: flow_inv_def flow_heap_def blank_flow_def node_shape_def is_label_def less_Suc_eq)
next
  case (step b b')
  show ?case by (rule flow_step_inv [OF step.hyps(2) step.IH])
next
  case (other b b')
  show ?case by (rule same_graph_inv [OF other.IH other.hyps(2-4)])
qed

end
