(* ===== verification/FlowProps.thy ===== *)
theory FlowProps
  imports FlowFacts
begin

text \<open>
  Properties of the flow graph: every graph the traversal builds has the shape the searches
  rely on, and each question asked of it is answered as the paths through the graph say.
\<close>


text \<open>A small graph: a \<open>let x\<close> declared without a value, assigned on one branch of a condition,
  and read after it.\<close>

definition read_ast :: "string \<Rightarrow> ast" where
  "read_ast oper = \<lparr>node_at = (\<lambda>n. if n = 20 then VarDeclaration \<lparr>vd_Kind = ''let'', vd_Init = None,
        vd_TypeAnnot = Some \<lparr>ta_Name = ''number'', ta_Nullable = False\<rparr>, vd_Ambient = False, vd_Definite = False\<rparr>
      else if n = 21 then AssignmentExpression ''='' 22 else if n = 22 then Identifier ''x''
      else if n = 23 then Identifier ''x'' else if n = 24 then BinaryExpression oper 26 25 else if n = 25 then StringLiteral ''number''
      else if n = 26 then UnaryExpression ''typeof'' 27 else if n = 27 then Identifier ''x'' else OtherNode),
     GetPos = \<lambda>n. \<lparr>p_Line = 1, p_Col = n\<rparr>\<rparr>"

definition read_state :: "FlowNode list \<Rightarrow> flow_ptr \<Rightarrow> flow_state" where
  "read_state F f =
    \<lparr>b_Scopes = [\<lparr>sc_Kind = ModuleScope, sc_Node = None, sc_Parent = None, sc_Symbols = put ''x'' 0 empty_table,
        sc_Inline = False, sc_ParamArguments = None\<rparr>],
     b_Symbols = [\<lparr>sym_ID = 1, sym_Name = ''x'', sym_Flags = BlockScopedVariable,
        sym_Declarations = [\<lparr>dc_Node = Some 20, dc_Pos = \<lparr>p_Line = 1, p_Col = 1\<rparr>, dc_Flags = BlockScopedVariable,
          dc_Kind = Lexical, dc_Plain = False, dc_Body = False\<rparr>],
        sym_Scope = Some 0, sym_Implicit = False, sym_Display = ''''\<rparr>],
     b_symbols = [0], b_Conflicts = [], b_declaring = False, b_scopes = Map.empty, b_opened = Map.empty,
     b_cur = Some 0, b_nsPrefix = '''', b_hoists = [], b_annexB = False, b_plain = False, b_inBody = False,
     b_inParams = False, b_bodyScope = None, b_paramScope = None,
     b_Flows = F, b_flow = f, b_container = Some 0, b_exceptionTargets = [], b_jumps = [], b_pendingLabel = '''',
     b_returnTo = None, b_fnScope = Some 0, b_storing = None, b_writing = False, b_ord = 0, b_stmts = [],
     b_refs = [22 \<mapsto> 0, 23 \<mapsto> 0, 27 \<mapsto> 0], b_globals = (\<lambda>_. False), b_lookupScopes = Map.empty, b_undefinedRefs = Map.empty,
     b_accesses = [23], b_written = (\<lambda>n. n = 22), b_asserted = (\<lambda>_. False), b_refFlow = [23 \<mapsto> f],
     b_refContainer = [23 \<mapsto> 0], b_refOrd = (\<lambda>_. 0), b_refScope = [23 \<mapsto> 0], b_stores = (\<lambda>_. []),
     b_foreignStores = (\<lambda>_. False), b_declOrd = (\<lambda>_. 0), b_lastAssign = Map.empty, b_endReachable = (\<lambda>_. False),
     b_endFlow = Map.empty, b_fnScopes = Map.empty, b_exported = (\<lambda>_. False), b_Script = False, b_Module = Some 0\<rparr>"

definition start_node :: FlowNode where
  "start_node = (blank_flow FlowStart)\<lparr>fl_Scope := Some 0\<rparr>"

definition store_node :: "flow_ptr \<Rightarrow> node_ptr \<Rightarrow> bool \<Rightarrow> FlowNode" where
  "store_node f n assign = (blank_flow FlowAssignment)\<lparr>fl_Antecedent := Some f, fl_Symbol := Some 0, fl_Node := Some n,
     fl_Init := \<not> assign, fl_Assign := assign\<rparr>"

text \<open>\<open>let x: number; if (c) x = 1; x\<close>: with and without the other branch.\<close>

definition branch_graph :: "flow_ptr list \<Rightarrow> FlowNode list" where
  "branch_graph ants = [blank_flow FlowUnreachable, start_node, store_node 1 20 False, store_node 2 21 True,
     (blank_flow FlowBranchLabel)\<lparr>fl_Antecedents := ants\<rparr>]"

lemma branch_heap: "flow_heap (branch_graph [3])" "flow_heap (branch_graph [3, 2])"
  by (auto simp: flow_heap_def branch_graph_def start_node_def store_node_def blank_flow_def node_shape_def is_label_def less_Suc_eq)


section \<open>Walking back\<close>

text \<open>C27. The walk back from a node ends, on any graph of that shape, loops included; it finds a
  fact exactly when a path backwards, not passing the start of the binding's scope, meets a
  node that holds it, and misses it exactly when a path on which no node holds it reaches
  that start.\<close>

theorem walkBack_exact:
  assumes "flow_heap (b_Flows b)" and "f < length (b_Flows b)"
    and "sym_Scope (symbol_at b sp) = Some sc" and "containerOf (b_Scopes b) sc = Some (Some home)"
  shows "\<exists>found missed hits. walkBack f sp holds b = Some (found, missed, hits) \<and>
    (found \<longleftrightarrow> (\<exists>g. clear_path (b_Flows b) (missed_node (Some sc) home) f g \<and> found_node sp holds (flow_at b g))) \<and>
    (missed \<longleftrightarrow> (\<exists>g. clear_path (b_Flows b) (found_node sp holds) f g \<and> missed_node (Some sc) home (flow_at b g)))"
proof -
  obtain w where "walkBack f sp holds b = Some (w_found w, w_missed w, w_hits w)"
    and "walk_answer (b_Flows b) sp (Some sc) home holds f w" by (rule walkBack_answer [OF assms])
  then show ?thesis by (simp add: walk_answer_def Let_def walk_found_paths walk_missed_paths)
qed

lemma branch_setting:
  "sym_Scope (symbol_at (read_state F f) 0) = Some 0" "containerOf (b_Scopes (read_state F f)) 0 = Some (Some 0)"
  "b_Flows (read_state F f) = F"
  by (simp_all add: read_state_def containerOf_def walk_up.simps)

lemma walkBack_exact_witness:
  "\<exists>found missed hits. walkBack 4 0 fl_Assign (read_state (branch_graph [3, 2]) 4) = Some (found, missed, hits) \<and> found \<and> missed"
proof -
  let ?b = "read_state (branch_graph [3, 2]) 4"
  have "4 < length (b_Flows ?b)" "flow_heap (b_Flows ?b)" using branch_heap by (simp_all add: branch_setting branch_graph_def)
  from walkBack_exact [OF this(2,1) branch_setting(1,2), of fl_Assign]
  obtain found missed hits where w: "walkBack 4 0 fl_Assign ?b = Some (found, missed, hits)" by blast
  moreover have "map_option (\<lambda>t. fst t \<and> fst (snd t)) (walkBack 4 0 fl_Assign ?b) = Some True" by code_simp
  ultimately show ?thesis by auto
qed

text \<open>C28. A read reported as used before its declaration is one no path reaches after the
  declaration ran: some path backwards reaches the start of its scope, and none meets an
  initialization of it.\<close>

theorem use_before_declaration_sound:
  assumes heap: "flow_heap (b_Flows b)" and f: "f < length (b_Flows b)"
    and r: "local_read r b = Some (Some (sp, f))"
    and m: "access_message A definite r b = Some (Some UsedBeforeDeclaration)"
  shows "\<exists>sc home. sym_Scope (symbol_at b sp) = Some sc \<and> containerOf (b_Scopes b) sc = Some (Some home) \<and>
    tdzKind (symbol_at b sp) \<and>
    (\<exists>g. clear_path (b_Flows b) (found_node sp fl_Init) f g \<and> missed_node (Some sc) home (flow_at b g)) \<and>
    (\<forall>g. clear_path (b_Flows b) (missed_node (Some sc) home) f g \<longrightarrow> \<not> found_node sp fl_Init (flow_at b g))"
proof -
  have ne: "UsedBeforeDeclaration \<noteq> UsedBeforeAssigned"
    by (simp add: UsedBeforeDeclaration_def UsedBeforeAssigned_def check_message_def)
  from m r ne obtain hits where tdz: "tdzKind (symbol_at b sp)" and w: "walkBack f sp fl_Init b = Some (False, True, hits)"
    by (auto simp: access_message_def split: if_splits option.splits prod.splits)
  obtain sc home where home: "sym_Scope (symbol_at b sp) = Some sc" "containerOf (b_Scopes b) sc = Some (Some home)"
    using r by (rule local_read_home)
  obtain v where "walkBack f sp fl_Init b = Some (w_found v, w_missed v, w_hits v)"
    and a: "walk_answer (b_Flows b) sp (Some sc) home fl_Init f v" by (rule walkBack_answer [OF heap f home])
  with w have "\<not> w_found v" "w_missed v" by simp_all
  moreover from a have "w_found v \<longleftrightarrow> (\<exists>g. clear_path (b_Flows b) (missed_node (Some sc) home) f g \<and> found_node sp fl_Init (flow_at b g))"
    and "w_missed v \<longleftrightarrow> (\<exists>g. clear_path (b_Flows b) (found_node sp fl_Init) f g \<and> missed_node (Some sc) home (flow_at b g))"
    unfolding walk_answer_def Let_def walk_found_paths walk_missed_paths by blast+
  ultimately have "\<exists>g. clear_path (b_Flows b) (found_node sp fl_Init) f g \<and> missed_node (Some sc) home (flow_at b g)"
    and "\<not> (\<exists>g. clear_path (b_Flows b) (missed_node (Some sc) home) f g \<and> found_node sp fl_Init (flow_at b g))"
    by blast+
  with home tdz show ?thesis by blast
qed

text \<open>\<open>x; let x: number\<close>: a read before the declaration, reported.\<close>

lemma use_before_declaration_sound_witness:
  "\<exists>sc home. sym_Scope (symbol_at (read_state (branch_graph [3]) 1) 0) = Some sc \<and> tdzKind (symbol_at (read_state (branch_graph [3]) 1) 0)
     \<and> (\<exists>g. clear_path (branch_graph [3]) (found_node 0 fl_Init) 1 g \<and> missed_node (Some sc) home (branch_graph [3] ! g))"
proof -
  let ?b = "read_state (branch_graph [3]) 1"
  have "1 < length (b_Flows ?b)" "flow_heap (b_Flows ?b)" using branch_heap by (simp_all add: branch_setting branch_graph_def)
  moreover have "local_read 23 ?b = Some (Some (0, 1))" by code_simp
  moreover have "map_option (map_option m_Code) (access_message (read_ast ''==='') True 23 ?b) = Some (Some 2448)" by code_simp
  then have "access_message (read_ast ''==='') True 23 ?b = Some (Some UsedBeforeDeclaration)"
    by (auto simp: access_message_def UsedBeforeDeclaration_def UsedBeforeAssigned_def check_message_def split: option.splits if_splits prod.splits)
  ultimately show ?thesis
    using use_before_declaration_sound [of ?b 1 23 0 "read_ast ''==='' " True] by (auto simp: branch_setting)
qed



text \<open>C30. The stores reported as reaching a read are exactly the nearest stores on the paths to it;
  every one of them is an initializer or a plain \<open>=\<close> to the name, no path reaches the read
  without one, and no other function stores to the binding.\<close>

theorem reaching_stores_exact:
  assumes heap: "flow_heap (b_Flows b)" and f: "f < length (b_Flows b)"
    and r: "local_read r b = Some (Some (sp, f))" and d: "ReachingStores A r b = Some (stores, True)"
  shows "set stores = {fl_Node (flow_at b g) | g.
      clear_path (b_Flows b) (found_node sp fl_Assign) f g \<and> found_node sp fl_Assign (flow_at b g)} \<and>
    stores \<noteq> [] \<and> list_all (plain_store A) stores \<and> \<not> b_foreignStores b sp \<and>
    (\<exists>sc home. sym_Scope (symbol_at b sp) = Some sc \<and> containerOf (b_Scopes b) sc = Some (Some home) \<and>
      (\<forall>g. clear_path (b_Flows b) (found_node sp fl_Assign) f g \<longrightarrow> \<not> missed_node (Some sc) home (flow_at b g)))"
proof -
  from d r obtain hits where w: "walkBack f sp fl_Assign b = Some (True, False, hits)"
    and s: "stores = map (\<lambda>h. fl_Node (flow_at b h)) hits" "list_all (plain_store A) stores" "\<not> b_foreignStores b sp"
    by (auto simp: ReachingStores_def Let_def split: if_splits option.splits prod.splits)
  obtain sc home where home: "sym_Scope (symbol_at b sp) = Some sc" "containerOf (b_Scopes b) sc = Some (Some home)"
    using r by (rule local_read_home)
  note c = walk_covered [OF heap f home w]
  have "set stores = {fl_Node (flow_at b g) | g.
      clear_path (b_Flows b) (found_node sp fl_Assign) f g \<and> found_node sp fl_Assign (flow_at b g)}"
    unfolding s(1) using c(2) by auto
  moreover have "stores \<noteq> []" using c(3) s(1) by simp
  ultimately show ?thesis using s home c(1) by blast
qed

lemma reaching_stores_exact_witness:
  "set [Some 21] = {fl_Node (branch_graph [3] ! g) | g.
      clear_path (branch_graph [3]) (found_node 0 fl_Assign) 4 g \<and> found_node 0 fl_Assign (branch_graph [3] ! g)}"
proof -
  let ?b = "read_state (branch_graph [3]) 4"
  have "4 < length (b_Flows ?b)" "flow_heap (b_Flows ?b)" using branch_heap by (simp_all add: branch_setting branch_graph_def)
  moreover have "local_read 23 ?b = Some (Some (0, 4))" by code_simp
  moreover have "ReachingStores (read_ast ''==='') 23 ?b = Some ([Some 21], True)" by code_simp
  ultimately have "set [Some 21] = {fl_Node (flow_at ?b g) | g.
      clear_path (b_Flows ?b) (found_node 0 fl_Assign) 4 g \<and> found_node 0 fl_Assign (flow_at ?b g)}"
    using reaching_stores_exact [of ?b 4 23 0 "read_ast ''==='' " "[Some 21]"] by blast
  then show ?thesis unfolding branch_setting .
qed

text \<open>C31. A read is found guarded since its last store exactly when every path backwards from it
  passes a condition excluding \<open>undefined\<close> before it meets a store to the binding, a start
  or the start of the binding's scope.\<close>

theorem guarded_since_store_exact:
  assumes heap: "flow_heap (b_Flows b)" and f: "f < length (b_Flows b)"
    and r: "local_read r b = Some (Some (sp, f))" and w: "\<not> b_written b r" "\<not> b_foreignStores b sp"
  shows "GuardedSinceStore A r b =
    Some (\<forall>g. clear_path (b_Flows b) (guard_node A sp b) f g \<longrightarrow> \<not> unguarded_node sp b (flow_at b g))"
proof -
  have "guard.search_inv (b_Flows b) (guard_visit A sp b) f (set [f] \<union> (case None of Some f \<Rightarrow> {f} | None \<Rightarrow> {})) (set [])"
    using guard.search_start [OF f] by simp
  from guard_loop_correct [OF heap f this] have "guard_loop A sp b None [f] [] = Some (guard_answer A sp b f)" by simp
  with r w show ?thesis by (simp add: GuardedSinceStore_def guard_answer_paths)
qed

text \<open>\<open>"number" === typeof x && x\<close>.\<close>

definition guard_graph :: "FlowNode list" where
  "guard_graph = [blank_flow FlowUnreachable, start_node, store_node 1 20 True,
     (blank_flow FlowTrueCondition)\<lparr>fl_Antecedent := Some 2, fl_Node := Some 22\<rparr>]"

lemma guarded_since_store_exact_witness:
  "GuardedSinceStore (read_ast ''==='') 23 (read_state guard_graph 3) = Some True \<and>
   \<not> (\<exists>g. clear_path guard_graph (guard_node (read_ast ''==='') 0 (read_state guard_graph 3)) 3 g
      \<and> unguarded_node 0 (read_state guard_graph 3) (guard_graph ! g))"
proof -
  let ?b = "read_state guard_graph 3"
  have "flow_heap guard_graph"
    by (auto simp: flow_heap_def guard_graph_def start_node_def store_node_def blank_flow_def node_shape_def is_label_def less_Suc_eq)
  then have "3 < length (b_Flows ?b)" "flow_heap (b_Flows ?b)" by (simp_all add: branch_setting guard_graph_def)
  moreover have "local_read 23 ?b = Some (Some (0, 3))" by code_simp
  moreover have "\<not> b_written ?b 23" "\<not> b_foreignStores ?b 0" by (simp_all add: read_state_def)
  ultimately have "GuardedSinceStore (read_ast ''==='') 23 ?b =
    Some (\<forall>g. clear_path (b_Flows ?b) (guard_node (read_ast ''==='') 0 ?b) 3 g \<longrightarrow> \<not> unguarded_node 0 ?b (flow_at ?b g))"
    by (intro guarded_since_store_exact)
  moreover have "GuardedSinceStore (read_ast ''==='') 23 ?b = Some True" by code_simp
  ultimately show ?thesis unfolding branch_setting by simp
qed

section \<open>Typeof guards\<close>

text \<open>A \<open>typeof\<close> test is recognised only when it is the right operand, and then under any
  operator: an operator that is not an equality is taken to exclude \<open>undefined\<close> on its
  false branch. A test with \<open>typeof\<close> on the left excludes nothing.\<close>

theorem typeof_guard_operand:
  assumes "typeof_test A t sp b" and "node_at A s = StringLiteral v"
  shows "(node_at A c = BinaryExpression oper s t \<longrightarrow>
      excludesUndefined A c sp branch b = (v \<noteq> ''undefined'' \<and> ((oper = ''==='' \<or> oper = ''=='') = branch))) \<and>
    (node_at A c = BinaryExpression oper t s \<longrightarrow> \<not> excludesUndefined A c sp branch b)"
proof -
  have "\<not> refers_to A s sp b" "\<not> typeof_test A s sp b"
    using assms(2) by (simp_all add: refers_to_def is_identifier_def typeof_test_def)
  moreover have "\<not> refers_to A t sp b"
    using assms(1) by (auto simp: refers_to_def is_identifier_def typeof_test_def split: ast_node.splits)
  ultimately show ?thesis using assms by (simp add: excludesUndefined_def)
qed

text \<open>\<open>typeof x < "number"\<close> and \<open>"number" < typeof x\<close>.\<close>

lemma typeof_guard_operand_witness:
  "\<not> excludesUndefined (read_ast ''==='') 24 0 True (read_state guard_graph 3)"
proof -
  have "typeof_test (read_ast ''==='') 26 0 (read_state guard_graph 3)" by code_simp
  moreover have "node_at (read_ast ''==='') 25 = StringLiteral ''number''" by (simp add: read_ast_def)
  ultimately show ?thesis
    using typeof_guard_operand [of "read_ast ''==='' " 26 0 "read_state guard_graph 3" 25 "''number''" 24 "''==='' " True]
    by (simp add: read_ast_def)
qed

section \<open>The report\<close>




section \<open>Jumps\<close>

text \<open>A \<open>break\<close> or \<open>continue\<close> goes to the innermost target that takes it: without a label the
  innermost loop or switch (for a \<open>continue\<close>, the innermost loop), with one the innermost
  statement of that label, to which a \<open>continue\<close> goes only if it is a loop.\<close>

theorem jump_target_innermost:
  "jump_target label continues b =
    (let accepts = (\<lambda>t. if label = '''' then \<not> j_breakOnly t \<and> (continues \<longrightarrow> j_continueTo t \<noteq> None) else j_label t = label)
     in case List.find accepts (rev (b_jumps b)) of
          None \<Rightarrow> None
        | Some t \<Rightarrow> if continues \<and> j_continueTo t = None then None else Some t)"
proof -
  have "find_jump label continues ts =
    (case List.find (\<lambda>t. if label = '''' then \<not> j_breakOnly t \<and> (continues \<longrightarrow> j_continueTo t \<noteq> None) else j_label t = label) ts of
          None \<Rightarrow> None
        | Some t \<Rightarrow> if continues \<and> j_continueTo t = None then None else Some t)" for ts
    by (induction ts) auto
  then show ?thesis by (simp add: jump_target_def Let_def)
qed

lemma jump_target_innermost_witness:
  "jump_target ''a'' True ((read_state [] 0)\<lparr>b_jumps := [\<lparr>j_label = ''a'', j_breakTo = 1, j_continueTo = None, j_breakOnly = True\<rparr>]\<rparr>) = None"
  unfolding jump_target_innermost by code_simp

end
