(* ===== verification/Decimal.thy ===== *)
theory Decimal
  imports GoStrings
begin

text \<open>
  What the development needs of decimal numerals and of strings joined from parts:
  \<open>strconv.Itoa\<close> writes digits only and no two numbers alike, a run of characters of one
  class is told from what follows it, and \<open>strings.Join\<close> is undone by \<open>strings.Split\<close>.
  The names of the merged program and the keys of the type table are both built from
  these parts, and both have to be told apart.
\<close>

section \<open>Runs of one character class\<close>

definition stops :: "(char \<Rightarrow> bool) \<Rightarrow> string \<Rightarrow> bool" where
  "stops P r \<longleftrightarrow> (case r of [] \<Rightarrow> True | c # _ \<Rightarrow> \<not> P c)"

lemma stops_Nil [simp]: "stops P []"
  by (simp add: stops_def)

lemma stops_Cons [simp]: "stops P (c # cs) \<longleftrightarrow> \<not> P c"
  by (simp add: stops_def)

lemma takeWhile_run: "list_all P xs \<Longrightarrow> stops P r \<Longrightarrow> takeWhile P (xs @ r) = xs"
  by (induction xs) (auto split: list.splits simp: stops_def)

lemma run_append_eq:
  assumes "list_all P xs" "list_all P ys" "stops P r" "stops P s"
  shows "xs @ r = ys @ s \<longleftrightarrow> xs = ys \<and> r = s"
  using takeWhile_run [OF assms(1,3)] takeWhile_run [OF assms(2,4)] by (metis append_eq_append_conv)

section \<open>Numerals\<close>

definition ascii_digit :: "char \<Rightarrow> bool" where
  "ascii_digit c \<longleftrightarrow> 0x30 \<le> ord c \<and> ord c \<le> 0x39"

definition digits_value :: "string \<Rightarrow> nat \<Rightarrow> nat" where
  "digits_value ds n = fold (\<lambda>c n. n * 10 + (ord c - 0x30)) ds n"

lemma digits_value_simps [simp]:
  "digits_value [] n = n"
  "digits_value (c # cs) n = digits_value cs (n * 10 + (ord c - 0x30))"
  "digits_value (xs @ ys) n = digits_value ys (digits_value xs n)"
  by (simp_all add: digits_value_def)

lemma ascii_digit_byte: "d < 10 \<Longrightarrow> ascii_digit (byte (48 + d))"
  by (simp add: ascii_digit_def)

lemma itoa_nat_digits: "list_all ascii_digit (itoa_nat n)"
proof (induction n rule: itoa_nat.induct)
  case (1 n)
  then show ?case by (subst itoa_nat.simps) (auto simp: ascii_digit_byte)
qed

lemma itoa_nat_nonempty [simp]: "itoa_nat n \<noteq> []"
  by (subst itoa_nat.simps) simp

lemma itoa_nat_value: "digits_value (itoa_nat n) 0 = n"
proof (induction n rule: itoa_nat.induct)
  case (1 n)
  then show ?case by (subst itoa_nat.simps) auto
qed

lemma itoa_nat_inj [simp]: "itoa_nat n = itoa_nat m \<longleftrightarrow> n = m"
  by (metis itoa_nat_value)

definition num_char :: "char \<Rightarrow> bool" where
  "num_char c \<longleftrightarrow> ascii_digit c \<or> c = CHR ''-''"

lemma itoa_nonempty [simp]: "itoa i \<noteq> []"
  by (simp add: itoa_def)

lemma itoa_num: "list_all num_char (itoa i)"
  using itoa_nat_digits by (auto simp: itoa_def num_char_def list_all_iff)

lemma itoa_nat_hd: "itoa_nat n \<noteq> CHR ''-'' # ds"
proof
  assume "itoa_nat n = CHR ''-'' # ds"
  then show False using itoa_nat_digits [of n] by (simp add: ascii_digit_def)
qed

lemma itoa_inj [simp]: "itoa i = itoa j \<longleftrightarrow> i = j"
  using itoa_nat_hd itoa_nat_hd [symmetric] by (auto simp: itoa_def)

lemma itoa_append_eq:
  "stops num_char r \<Longrightarrow> stops num_char s \<Longrightarrow> itoa i @ r = itoa j @ s \<longleftrightarrow> i = j \<and> r = s"
  using run_append_eq [OF itoa_num itoa_num] by simp

lemma itoa_nat_int: "itoa (int n) = itoa_nat n"
  by (simp add: itoa_def)

section \<open>Joined parts\<close>

lemma Split_run: "sep \<notin> set w \<Longrightarrow> Split (w @ sep # s) sep = w # Split s sep"
  by (induction w) auto

lemma Split_none: "sep \<notin> set w \<Longrightarrow> Split w sep = [w]"
  by (induction w) auto

lemma Join_Cons: "ws \<noteq> [] \<Longrightarrow> Join (w # ws) sep = w @ sep @ Join ws sep"
  by (cases ws) auto

lemma Split_Join:
  "ws \<noteq> [] \<Longrightarrow> \<forall>w\<in>set ws. sep \<notin> set w \<Longrightarrow> Split (Join ws [sep]) sep = ws"
proof (induction ws)
  case (Cons w ws)
  then show ?case by (cases "ws = []") (simp_all add: Join_Cons Split_run Split_none)
qed simp

lemma Join_empty: "\<forall>w\<in>set ws. w \<noteq> [] \<Longrightarrow> Join ws sep = [] \<longleftrightarrow> ws = []"
  by (cases ws rule: remdups_adj.cases) auto

lemma Join_inj:
  assumes "\<forall>w\<in>set ws. w \<noteq> [] \<and> sep \<notin> set w" and "\<forall>w\<in>set vs. w \<noteq> [] \<and> sep \<notin> set w"
  shows "Join ws [sep] = Join vs [sep] \<longleftrightarrow> ws = vs"
  using assms by (metis Join_empty Split_Join)

lemma set_Join: "set (Join ws sep) \<subseteq> (\<Union>w\<in>set ws. set w) \<union> set sep"
proof (induction ws)
  case (Cons w ws)
  then show ?case by (cases "ws = []") (auto simp: Join_Cons)
qed simp

end
