(* ===== verification/Names.thy ===== *)
theory Names
  imports Symbols Decimal
begin

text \<open>
  The names of the merged program (\<open>ast/nodes.go\<close>): a namespace member's flat name, the
  per-file suffix the resolver gives every top-level name and the functions that read
  both back, with \<open>sourceName\<close>, the form a type is printed with (\<open>checker/types.go\<close>), and
  the partner search of \<open>binder/binder.go\<close>. \<open>fileURLFromPath\<close> of \<open>resolver/fileurl.go\<close> is
  the other injective rendering of names, of a module's path as its URL.

  \<open>UnmangleText\<close> reads a count at the machine's 64-bit width and then slices with it,
  so it may panic, and its loop need not end: its result is an option (\<open>None\<close>: it runs
  for ever) of a sum (\<open>Inl\<close>: the run-time panic).
\<close>

section \<open>Searching a string\<close>

text \<open>\<open>strings.Index\<close>, \<open>strings.LastIndex\<close>, \<open>strings.Contains\<close>.\<close>

fun Index :: "string \<Rightarrow> string \<Rightarrow> nat option" where
  "Index [] p = (if p = [] then Some 0 else None)"
| "Index (c # cs) p = (if HasPrefix (c # cs) p then Some 0 else map_option Suc (Index cs p))"

fun LastIndex :: "string \<Rightarrow> string \<Rightarrow> nat option" where
  "LastIndex [] p = (if p = [] then Some 0 else None)"
| "LastIndex (c # cs) p =
    (case LastIndex cs p of
       Some i \<Rightarrow> Some (Suc i)
     | None \<Rightarrow> if HasPrefix (c # cs) p then Some 0 else None)"

definition Contains :: "string \<Rightarrow> string \<Rightarrow> bool" where
  "Contains s p \<longleftrightarrow> Index s p \<noteq> None"

lemma Index_Some:
  "Index s p = Some i \<longleftrightarrow> HasPrefix (drop i s) p \<and> i \<le> length s \<and> (\<forall>k<i. \<not> HasPrefix (drop k s) p)"
proof (induction s arbitrary: i)
  case Nil
  then show ?case by (auto simp: HasPrefix_def)
next
  case (Cons c cs)
  show ?case
  proof (cases i)
    case 0
    then show ?thesis by auto
  next
    case (Suc j)
    have "(\<forall>k<Suc j. \<not> HasPrefix (drop k (c # cs)) p)
      \<longleftrightarrow> \<not> HasPrefix (c # cs) p \<and> (\<forall>k<j. \<not> HasPrefix (drop k cs) p)"
      by (auto simp: less_Suc_eq_0_disj)
    then show ?thesis using Suc Cons.IH [of j] by auto
  qed
qed

lemma Index_None: "Index s p = None \<longleftrightarrow> (\<forall>k\<le>length s. \<not> HasPrefix (drop k s) p)"
proof (induction s)
  case Nil
  then show ?case by (auto simp: HasPrefix_def)
next
  case (Cons c cs)
  have "(\<forall>k\<le>length (c # cs). \<not> HasPrefix (drop k (c # cs)) p)
    \<longleftrightarrow> \<not> HasPrefix (c # cs) p \<and> (\<forall>k\<le>length cs. \<not> HasPrefix (drop k cs) p)"
    by (metis (no_types, lifting) Suc_le_mono drop0 drop_Suc_Cons length_Cons not0_implies_Suc zero_le)
  then show ?case using Cons.IH by auto
qed

lemma LastIndex_Some:
  "LastIndex s p = Some i
    \<longleftrightarrow> HasPrefix (drop i s) p \<and> i \<le> length s \<and> (\<forall>k\<le>length s. i < k \<longrightarrow> \<not> HasPrefix (drop k s) p)"
proof (induction s arbitrary: i)
  case Nil
  then show ?case by (auto simp: HasPrefix_def)
next
  case (Cons c cs)
  have none: "LastIndex cs p = None \<longleftrightarrow> (\<forall>k\<le>length cs. \<not> HasPrefix (drop k cs) p)"
  proof (induction cs)
    case Nil
    then show ?case by (auto simp: HasPrefix_def)
  next
    case (Cons d ds)
    have "(\<forall>k\<le>length (d # ds). \<not> HasPrefix (drop k (d # ds)) p)
      \<longleftrightarrow> \<not> HasPrefix (d # ds) p \<and> (\<forall>k\<le>length ds. \<not> HasPrefix (drop k ds) p)"
      by (metis (no_types, lifting) Suc_le_mono drop0 drop_Suc_Cons length_Cons not0_implies_Suc zero_le)
    then show ?case using Cons.IH by (auto split: option.splits)
  qed
  show ?case
  proof (cases i)
    case 0
    have "(\<forall>k\<le>length (c # cs). 0 < k \<longrightarrow> \<not> HasPrefix (drop k (c # cs)) p)
      \<longleftrightarrow> (\<forall>k\<le>length cs. \<not> HasPrefix (drop k cs) p)"
      by (metis Suc_le_mono drop_Suc_Cons length_Cons not0_implies_Suc zero_less_Suc gr0_implies_Suc)
    then show ?thesis using 0 none by (auto split: option.splits)
  next
    case (Suc j)
    have "(\<forall>k\<le>length (c # cs). Suc j < k \<longrightarrow> \<not> HasPrefix (drop k (c # cs)) p)
      \<longleftrightarrow> (\<forall>k\<le>length cs. j < k \<longrightarrow> \<not> HasPrefix (drop k cs) p)"
      by (metis Suc_le_mono Suc_less_eq drop_Suc_Cons length_Cons less_imp_Suc_add)
    then show ?thesis using Suc Cons.IH [of j] none by (auto split: option.splits)
  qed
qed

section \<open>Mangling\<close>

definition NamespaceMangle :: "string \<Rightarrow> string \<Rightarrow> string" where
  "NamespaceMangle ns member = ReplaceAll ns ''.'' ''__kmlns_'' @ ''__kmlns_'' @ member"

definition moduleSuffix :: string where
  "moduleSuffix = ''__kml_mod''"

definition ModuleMangle :: "string \<Rightarrow> int \<Rightarrow> string \<Rightarrow> string" where
  "ModuleMangle name fileIdx libKey =
    (if libKey \<noteq> [] then name @ moduleSuffix @ ''L'' @ itoa (int (length libKey)) @ libKey
     else name @ moduleSuffix @ itoa fileIdx)"

text \<open>\<open>hash/fnv\<close>'s 64-bit FNV-1a over the path's bytes.\<close>

definition fnv64a :: "string \<Rightarrow> 64 word" where
  "fnv64a s = fold (\<lambda>c h. Bit_Operations.xor h (word_of_nat (ord c)) * 1099511628211) s 14695981039346656037"

definition DynModuleKey :: "string \<Rightarrow> string" where
  "DynModuleKey absPath = ''isl_'' @ hex_fixed 16 (unat (fnv64a absPath))"

definition Unmangle :: "string \<Rightarrow> string" where
  "Unmangle name =
    (case Index name moduleSuffix of
       Some i \<Rightarrow> if 0 < i then take i name else name
     | None \<Rightarrow> name)"

text \<open>The count after a suffix: the loop's \<open>n\<close>, a 64-bit \<open>int\<close>, and how far \<open>j\<close> moved.\<close>

fun read_count :: "string \<Rightarrow> 64 word \<Rightarrow> 64 word \<times> nat" where
  "read_count [] n = (n, 0)"
| "read_count (c # cs) n =
    (if ascii_digit c
     then (let (m, k) = read_count cs (n * 10 + word_of_nat (ord c - 0x30)) in (m, Suc k))
     else (n, 0))"

datatype strip = Clean | Stripped string | SliceBounds

definition strip_first :: "string \<Rightarrow> strip" where
  "strip_first s =
    (case Index s moduleSuffix of
       None \<Rightarrow> Clean
     | Some i \<Rightarrow>
        (let j0 = i + length moduleSuffix;
             lib = (j0 < length s \<and> s ! j0 = CHR ''L'');
             j1 = (if lib then j0 + 1 else j0);
             (n, k) = read_count (drop j1 s) 0;
             j2 = j1 + k;
             j = (if lib then min (sint (word_of_nat j2 + n)) (int (length s)) else int j2)
         in if j < 0 then SliceBounds else Stripped (take i s @ drop (nat j) s)))"

datatype panic = SliceOutOfRange | NilDereference | IndexOutOfRange

partial_function (option) UnmangleText :: "string \<Rightarrow> (panic + string) option" where
  "UnmangleText s =
    (case strip_first s of
       Clean \<Rightarrow> Some (Inr s)
     | SliceBounds \<Rightarrow> Some (Inl SliceOutOfRange)
     | Stripped t \<Rightarrow> UnmangleText t)"

declare UnmangleText.simps [code]

definition TrimModuleSuffix :: "string \<Rightarrow> (panic + string) option" where
  "TrimModuleSuffix name =
    (case LastIndex name moduleSuffix of
       None \<Rightarrow> Some (Inr name)
     | Some i \<Rightarrow>
        if i = 0 then Some (Inr name)
        else Option.bind (UnmangleText (drop i name)) (\<lambda>r. case r of
            Inl e \<Rightarrow> Some (Inl e)
          | Inr rest \<Rightarrow> Some (Inr (if rest = [] then take i name else name))))"

function only_library_suffixes :: "string \<Rightarrow> bool" where
  "only_library_suffixes rest =
    (case Index rest moduleSuffix of
       None \<Rightarrow> True
     | Some i \<Rightarrow>
        (case drop (i + length moduleSuffix) rest of
           [] \<Rightarrow> only_library_suffixes []
         | c # cs \<Rightarrow> \<not> ascii_digit c \<and> only_library_suffixes (c # cs)))"
  by pat_completeness auto
termination
proof (relation "measure length", goal_cases)
  case (2 rest i)
  then show ?case by (cases rest) (auto simp: moduleSuffix_def)
next
  case (3 rest i c cs)
  then have "length (c # cs) = length rest - (i + length moduleSuffix)" by (metis length_drop)
  moreover from 3(1) have "rest \<noteq> []" by (auto simp: moduleSuffix_def)
  ultimately show ?case by (cases rest) (auto simp: moduleSuffix_def)
qed simp

declare only_library_suffixes.simps [simp del]

definition IsLibraryName :: "string \<Rightarrow> bool" where
  "IsLibraryName name \<longleftrightarrow>
    Contains name (moduleSuffix @ ''L'') \<and> only_library_suffixes name"

section \<open>Names as the source wrote them\<close>

definition sourceName :: "string \<Rightarrow> (panic + string) option" where
  "sourceName name =
    map_option (map_sum id (\<lambda>s. ReplaceAll s ''__kmlns_'' ''.'')) (TrimModuleSuffix name)"

definition symbolName :: "Symbol \<Rightarrow> (panic + string) option" where
  "symbolName b = (if sym_Display b \<noteq> [] then sourceName (sym_Display b) else sourceName (sym_Name b))"

text \<open>The loop of \<open>renamedPartner\<close> over the symbols a table's \<open>Each\<close> walks: the last match
  and the number of matches.\<close>

definition renamedPartner :: "Symbol list \<Rightarrow> string \<Rightarrow> Symbol option" where
  "renamedPartner symbols name =
    (let (found, n) = fold (\<lambda>b (found, n).
           if sym_Name b \<noteq> name \<and> Unmangle (sym_Name b) = name
              \<and> has_flag (sym_Flags b) (FunctionFlag # ClassFlag # Enum_masks)
           then (Some b, n + 1) else (found, n)) symbols (None, 0 :: nat)
     in if n \<noteq> 1 then None else found)"

section \<open>The file-private names of one file\<close>

text \<open>\<open>filepath.Ext\<close>: the suffix from the last dot of the last path element.\<close>

definition Ext :: "string \<Rightarrow> string" where
  "Ext path =
    (let tail = takeWhile (\<lambda>c. c \<noteq> CHR ''.'' \<and> c \<noteq> CHR ''/'') (rev path);
         before = drop (length tail) (rev path)
     in case before of [] \<Rightarrow> [] | c # _ \<Rightarrow> if c = CHR ''.'' then c # rev tail else [])"

definition ModuleRoot :: string where
  "ModuleRoot = ''/__kml_lib/node/''"

definition name_byte :: "char \<Rightarrow> bool" where
  "name_byte c \<longleftrightarrow> (0x61 \<le> ord c \<and> ord c \<le> 0x7A) \<or> (0x41 \<le> ord c \<and> ord c \<le> 0x5A) \<or> ascii_digit c"

definition libKey :: "string \<Rightarrow> string" where
  "libKey path =
    (if \<not> HasPrefix path ModuleRoot then []
     else (let rest = drop (length ModuleRoot) path;
               rest = TrimSuffix rest (Ext rest)
           in map (\<lambda>c. if name_byte c then c else CHR ''_'') (''node_'' @ rest)))"

text \<open>A top-level statement, as \<open>mangleFileDecls\<close> reads it: the names \<open>declRefsOf\<close> finds in it
  with their kinds, whether it is an \<open>export default\<close> and what that exports.\<close>

datatype exported = NoVariable | VariableOf "string option"

record top_stmt =
  ts_refs :: "(string \<times> string) list"
  ts_default :: bool
  ts_decl :: exported

record mangling =
  mg_mangled :: "string \<rightharpoonup> string"
  mg_seenKind :: "string \<rightharpoonup> string"
  mg_sawDefault :: bool

text \<open>One declared name: \<open>ref.Set\<close>'s new name and the map entry (the zero string of a missing
  entry included).\<close>

definition mangle_ref :: "string \<Rightarrow> int \<Rightarrow> string \<times> string \<Rightarrow> mangling \<times> string \<times> (string \<times> string) list
    \<Rightarrow> mangling \<times> string \<times> (string \<times> string) list" where
  "mangle_ref key fileIdx ref acc =
    (let (name, kind) = ref; (g, lastNewName, out) = acc in
     if Contains name ''__kmlns_''
     then (g\<lparr>mg_mangled := (mg_mangled g)(name \<mapsto> name)\<rparr>, lastNewName, out @ [(name, kind)])
     else if mg_seenKind g name \<noteq> None
     then (let n = (case mg_mangled g name of Some n \<Rightarrow> n | None \<Rightarrow> []) in (g, n, out @ [(n, kind)]))
     else (let n = ModuleMangle name fileIdx key in
           (g\<lparr>mg_mangled := (mg_mangled g)(name \<mapsto> n), mg_seenKind := (mg_seenKind g)(name \<mapsto> kind)\<rparr>,
            n, out @ [(n, kind)])))"

datatype resolve_error = SecondDefault

definition mangle_stmt :: "string \<Rightarrow> int \<Rightarrow> top_stmt \<Rightarrow> mangling \<Rightarrow> resolve_error + mangling \<times> top_stmt" where
  "mangle_stmt key fileIdx st g =
    (let (g', lastNewName, refs) = fold (mangle_ref key fileIdx) (ts_refs st) (g, [], []);
         st' = st\<lparr>ts_refs := refs\<rparr>
     in if ts_default st then
          (if mg_sawDefault g' then Inl SecondDefault
           else Inr (g'\<lparr>mg_sawDefault := True, mg_mangled := (mg_mangled g')(''default'' \<mapsto> lastNewName)\<rparr>, st'))
        else Inr (g', st'))"

fun mangle_body :: "string \<Rightarrow> int \<Rightarrow> top_stmt list \<Rightarrow> mangling \<Rightarrow> resolve_error + mangling \<times> top_stmt list" where
  "mangle_body key fileIdx [] g = Inr (g, [])"
| "mangle_body key fileIdx (st # body) g =
    (case mangle_stmt key fileIdx st g of
       Inl e \<Rightarrow> Inl e
     | Inr (g', st') \<Rightarrow>
        (case mangle_body key fileIdx body g' of
           Inl e \<Rightarrow> Inl e
         | Inr (g'', body') \<Rightarrow> Inr (g'', st' # body')))"

text \<open>The default export of a class or function named in the file is that declaration: the
  statement holding it goes, and \<open>default\<close> becomes its name.\<close>

fun alias_default :: "top_stmt list \<Rightarrow> mangling \<Rightarrow> mangling \<times> top_stmt list" where
  "alias_default [] g = (g, [])"
| "alias_default (st # body) g =
    (if \<not> ts_default st then (let (g', body') = alias_default body g in (g', st # body'))
     else case ts_decl st of
       VariableOf (Some name) \<Rightarrow>
         (if mg_seenKind g name = Some ''class'' \<or> mg_seenKind g name = Some ''function''
          then (g\<lparr>mg_mangled := (mg_mangled g)(''default'' \<mapsto>
                   (case mg_mangled g name of Some n \<Rightarrow> n | None \<Rightarrow> []))\<rparr>, body)
          else (g, st # body))
     | _ \<Rightarrow> (g, st # body))"

definition mangleFileDecls :: "string \<Rightarrow> top_stmt list \<Rightarrow> int \<Rightarrow> resolve_error + mangling \<times> top_stmt list" where
  "mangleFileDecls key body fileIdx =
    (case mangle_body key fileIdx body \<lparr>mg_mangled = Map.empty, mg_seenKind = Map.empty, mg_sawDefault = False\<rparr> of
       Inl e \<Rightarrow> Inl e
     | Inr (g, body') \<Rightarrow> Inr (alias_default body' g))"

section \<open>A module's URL\<close>

definition hex_upper :: "nat \<Rightarrow> char" where
  "hex_upper n = ''0123456789ABCDEF'' ! n"

definition url_encoded :: "char \<Rightarrow> bool" where
  "url_encoded c \<longleftrightarrow> ord c \<le> 0x20 \<or> 0x7F \<le> ord c \<or> ord c = 0x22
    \<or> c \<in> set ''#%<>?[]^`{|}~'' \<or> ord c = 0x5C"

definition url_byte :: "char \<Rightarrow> string" where
  "url_byte c =
    (if url_encoded c then [CHR ''%'', hex_upper (ord c div 16), hex_upper (ord c mod 16)] else [c])"

definition url_host_path :: "string \<Rightarrow> bool \<Rightarrow> string \<times> string" where
  "url_host_path path windows =
    (if windows then
       (let path = ReplaceAll path [CHR 0x5C] ''/'' in
        if HasPrefix path ''//'' \<and> \<not> HasPrefix path ''///'' then
          (let rest = drop 2 path in
           case index_of (\<lambda>c. c = CHR ''/'') rest of
             Some i \<Rightarrow> (take i rest, drop i rest)
           | None \<Rightarrow> (rest, ''/''))
        else if \<not> HasPrefix path ''/'' then ([], CHR ''/'' # path)
        else ([], path))
     else ([], path))"

definition fileURLFromPath :: "string \<Rightarrow> bool \<Rightarrow> string" where
  "fileURLFromPath path windows =
    (let (host, path) = url_host_path path windows
     in ''file://'' @ host @ concat (map url_byte path))"

end
