(* ===== verification/NameFacts.thy ===== *)
theory NameFacts
  imports Names "HOL-Library.Sublist"
begin

text \<open>
  How the mangled names read back: where the suffix of a name is, what a count after it
  is worth, and that nothing of a name is lost or confused by it.
\<close>

section \<open>Occurrences\<close>

lemma Contains_simps [simp]:
  "Contains [] p \<longleftrightarrow> p = []"
  "Contains (c # cs) p \<longleftrightarrow> HasPrefix (c # cs) p \<or> Contains cs p"
  by (auto simp: Contains_def)

lemma HasPrefix_prefix: "HasPrefix s p \<longleftrightarrow> prefix p s"
  by (auto simp: HasPrefix_def prefix_def) (metis append_take_drop_id)

lemma LastIndex_Contains: "LastIndex s p = None \<longleftrightarrow> \<not> Contains s p"
  by (induction s) (auto split: option.splits)

lemma Contains_skip:
  "list_all (\<lambda>c. c \<noteq> a) xs \<Longrightarrow> Contains (xs @ s) (a # p) \<longleftrightarrow> Contains s (a # p)"
  by (induction xs) (auto simp: HasPrefix_def)

lemma Contains_suffix: "Contains (drop k s) p \<Longrightarrow> Contains s p"
proof (induction k arbitrary: s)
  case (Suc k)
  then show ?case by (cases s) auto
qed simp

lemma moduleSuffix_Cons: "moduleSuffix = CHR ''_'' # ''_kml_mod''"
  by (simp add: moduleSuffix_def)

lemma suffix_inside: "\<not> Contains tail moduleSuffix \<Longrightarrow> \<not> Contains (''_kml_mod'' @ tail) moduleSuffix"
  by (simp add: moduleSuffix_def HasPrefix_def)

lemma LastIndex_suffix:
  "\<not> Contains tail moduleSuffix \<Longrightarrow> LastIndex (name @ moduleSuffix @ tail) moduleSuffix = Some (length name)"
proof (induction name)
  case Nil
  have "LastIndex (''_kml_mod'' @ tail) moduleSuffix = None"
    using suffix_inside [OF Nil] LastIndex_Contains by blast
  then show ?case
    by (simp add: moduleSuffix_Cons HasPrefix_def)
qed simp

lemma HasPrefix_short: "length p \<le> length xs \<Longrightarrow> HasPrefix (xs @ ys) p \<longleftrightarrow> HasPrefix xs p"
  by (simp add: HasPrefix_def)

lemma Index_suffix:
  "\<not> Contains (name @ ''__kml_mo'') moduleSuffix
    \<Longrightarrow> Index (name @ moduleSuffix @ tail) moduleSuffix = Some (length name)"
proof (induction name)
  case Nil
  then show ?case by (simp add: moduleSuffix_def HasPrefix_def)
next
  case (Cons c name)
  have "HasPrefix (c # name @ ''__kml_mo'') moduleSuffix"
    if "HasPrefix (c # name @ moduleSuffix @ tail) moduleSuffix"
  proof -
    have "c # name @ moduleSuffix @ tail = (c # name @ ''__kml_mo'') @ ''d'' @ tail"
      by (simp add: moduleSuffix_def)
    moreover have "length moduleSuffix \<le> length (c # name @ ''__kml_mo'')"
      by (simp add: moduleSuffix_def)
    ultimately show ?thesis using that HasPrefix_short by metis
  qed
  with Cons show ?case by auto
qed

section \<open>Counts\<close>

lemma read_count_value:
  "read_count s (word_of_nat m)
    = (word_of_nat (digits_value (takeWhile ascii_digit s) m), length (takeWhile ascii_digit s))"
proof (induction s arbitrary: m)
  case (Cons c s)
  have "(word_of_nat m :: 64 word) * 10 + word_of_nat (ord c - 0x30) = word_of_nat (m * 10 + (ord c - 0x30))"
    by simp
  then show ?case using Cons.IH [of "m * 10 + (ord c - 0x30)"] by simp
qed simp

lemma read_count_zero:
  "read_count s 0 = (word_of_nat (digits_value (takeWhile ascii_digit s) 0), length (takeWhile ascii_digit s))"
  using read_count_value [of s 0] by simp

lemma read_count_itoa:
  "stops ascii_digit r \<Longrightarrow> read_count (itoa_nat n @ r) 0 = (word_of_nat n, length (itoa_nat n))"
  by (simp add: read_count_zero takeWhile_run itoa_nat_digits itoa_nat_value)

lemma digits_value_bound: "digits_value ds n < (n + 1) * 10 ^ length ds" if "list_all ascii_digit ds"
  using that
proof (induction ds arbitrary: n)
  case (Cons c ds)
  then have "ord c \<le> 57" by (simp add: ascii_digit_def)
  then have "ord c - 0x30 \<le> 9" by linarith
  then have "n * 10 + (ord c - 0x30) + 1 \<le> (n + 1) * 10" by simp
  then have "(n * 10 + (ord c - 0x30) + 1) * 10 ^ length ds \<le> (n + 1) * 10 * 10 ^ length ds"
    by (rule mult_le_mono1)
  moreover have "digits_value ds (n * 10 + (ord c - 0x30)) < (n * 10 + (ord c - 0x30) + 1) * 10 ^ length ds"
    using Cons by simp
  ultimately show ?case by (simp add: algebra_simps)
qed simp

section \<open>What a suffix is stripped to\<close>

definition mangle_tail :: "int \<Rightarrow> string \<Rightarrow> string" where
  "mangle_tail fileIdx key = (if key \<noteq> [] then ''L'' @ itoa (int (length key)) @ key else itoa fileIdx)"

text \<open>The keys of library files and of islands: no digit first, no suffix inside.\<close>

definition good_key :: "string \<Rightarrow> bool" where
  "good_key key \<longleftrightarrow> stops ascii_digit key \<and> \<not> Contains key moduleSuffix"

lemma ModuleMangle_tail: "ModuleMangle name i key = name @ moduleSuffix @ mangle_tail i key"
  by (simp add: ModuleMangle_def mangle_tail_def)

lemma numeral_no_suffix: "Contains (itoa_nat n @ s) moduleSuffix \<longleftrightarrow> Contains s moduleSuffix"
proof -
  have "list_all (\<lambda>c. c \<noteq> CHR ''_'') (itoa_nat n)"
    using itoa_nat_digits [of n] by (auto simp: list_all_iff ascii_digit_def)
  then show ?thesis by (simp add: moduleSuffix_Cons Contains_skip)
qed

lemma mangle_tail_clean: "0 \<le> i \<Longrightarrow> good_key key \<Longrightarrow> \<not> Contains (mangle_tail i key) moduleSuffix"
  using numeral_no_suffix [of "nat i" "[]"] numeral_no_suffix [of "length key" key]
  by (auto simp: mangle_tail_def good_key_def itoa_nat_int itoa_def HasPrefix_def moduleSuffix_def)

lemma sint_of_nat: "n < 2 ^ 62 \<Longrightarrow> sint (word_of_nat n :: 64 word) = int n"
  by (simp add: signed_take_bit_int_eq_self sint_uint uint_nat unsigned_of_nat take_bit_nat_eq_self)

lemma itoa_nat_length: "length (itoa_nat n) \<le> n + 1"
proof (induction n rule: itoa_nat.induct)
  case (1 n)
  then show ?case by (subst itoa_nat.simps) (auto split: if_splits)
qed

lemma strip_mangled:
  assumes name: "\<not> Contains (name @ ''__kml_mo'') moduleSuffix"
    and key: "good_key key" and i: "0 \<le> i"
    and post: "key = [] \<Longrightarrow> stops ascii_digit post"
    and short: "length name + length key < 2 ^ 60"
  shows "strip_first (name @ moduleSuffix @ mangle_tail i key @ post) = Stripped (name @ post)"
proof (cases "key = []")
  case True
  have idx: "Index (name @ moduleSuffix @ itoa_nat (nat i) @ post) moduleSuffix = Some (length name)"
    by (rule Index_suffix [OF name])
  have no_L: "\<not> (stops (\<lambda>c. c = CHR ''L'') [])" if "itoa_nat (nat i) @ post = CHR ''L'' # cs" for cs
    using that itoa_nat_digits [of "nat i"]
    by (cases "itoa_nat (nat i)") (auto simp: ascii_digit_def)
  have count: "read_count (itoa_nat (nat i) @ post) 0 = (word_of_nat (nat i), length (itoa_nat (nat i)))"
    by (rule read_count_itoa [OF post [OF True]])
  have "(itoa_nat (nat i) @ post) ! 0 \<noteq> CHR ''L''"
    using no_L by (cases "itoa_nat (nat i)") auto
  then show ?thesis
    using True i idx count
    by (auto simp: strip_first_def mangle_tail_def itoa_def Let_def nth_append)
next
  case False
  have idx: "Index (name @ moduleSuffix @ (''L'' @ itoa_nat (length key) @ key @ post)) moduleSuffix
      = Some (length name)"
    by (rule Index_suffix [OF name])
  have "stops ascii_digit (key @ post)"
    using key False by (cases key) (auto simp: good_key_def)
  then have count: "read_count (itoa_nat (length key) @ key @ post) 0
      = (word_of_nat (length key), length (itoa_nat (length key)))"
    by (rule read_count_itoa)
  define j2 where "j2 = length name + length moduleSuffix + 1 + length (itoa_nat (length key))"
  have "j2 + length key < 2 ^ 62"
    using short itoa_nat_length [of "length key"] by (simp add: j2_def moduleSuffix_def)
  then have "sint (word_of_nat j2 + word_of_nat (length key) :: 64 word) = int (j2 + length key)"
    using sint_of_nat [of "j2 + length key"] by simp
  then have upto: "min (sint (word_of_nat j2 + word_of_nat (length key) :: 64 word))
      (int (j2 + length key + length post)) = int (j2 + length key)"
    by simp
  let ?s = "name @ moduleSuffix @ (''L'' @ itoa_nat (length key) @ key @ post)"
  have len: "length ?s = j2 + length key + length post" by (simp add: j2_def)
  have rest: "drop (j2 + length key) ?s = post" by (simp add: j2_def)
  have at: "?s ! (length name + length moduleSuffix) = CHR ''L''"
    and past: "drop (length name + length moduleSuffix + 1) ?s = itoa_nat (length key) @ key @ post"
    and before: "take (length name) ?s = name"
    by (simp_all add: nth_append)
  have lt: "length name + length moduleSuffix < length ?s" by simp
  have "strip_first ?s = Stripped (name @ post)"
    unfolding strip_first_def idx option.case Let_def
    using lt by (simp only: at past count prod.case simp_thms if_True len j2_def [symmetric] upto rest
        before nat_int of_nat_less_0_iff if_False)
  with False show ?thesis by (simp add: mangle_tail_def itoa_nat_int)
qed

lemma UnmangleText_step:
  "strip_first s = Stripped t \<Longrightarrow> UnmangleText s = UnmangleText t"
  "strip_first s = Clean \<Longrightarrow> UnmangleText s = Some (Inr s)"
  by (subst UnmangleText.simps; simp)+

lemma strip_clean: "strip_first s = Clean \<longleftrightarrow> \<not> Contains s moduleSuffix"
  by (simp add: strip_first_def Contains_def Let_def split: option.splits prod.splits)

lemma TrimModuleSuffix_mangled:
  assumes "name \<noteq> []" "good_key key" "0 \<le> i" "length key < 2 ^ 60"
  shows "TrimModuleSuffix (ModuleMangle name i key) = Some (Inr name)"
proof -
  have "strip_first (moduleSuffix @ mangle_tail i key) = Stripped []"
    using strip_mangled [of "[]" key i "[]"] assms by (simp add: moduleSuffix_def HasPrefix_def)
  moreover have "strip_first [] = Clean" by (simp add: strip_clean moduleSuffix_def)
  ultimately have "UnmangleText (moduleSuffix @ mangle_tail i key) = Some (Inr [])"
    by (simp add: UnmangleText_step)
  then show ?thesis
    using assms LastIndex_suffix [OF mangle_tail_clean [OF assms(3,2)], of name]
    by (simp add: TrimModuleSuffix_def ModuleMangle_tail)
qed

lemma TrimModuleSuffix_plain: "\<not> Contains s moduleSuffix \<Longrightarrow> TrimModuleSuffix s = Some (Inr s)"
  by (simp add: TrimModuleSuffix_def LastIndex_Contains [symmetric] split: option.splits)

end
