(* ===== verification/NameProps.thy ===== *)
theory NameProps
  imports NameFacts
begin

text \<open>
  The properties of the merged program's names and of a module's URL.
\<close>

section \<open>Namespaces\<close>

definition plain_part :: "string \<Rightarrow> bool" where
  "plain_part p \<longleftrightarrow> \<not> Contains p ''__kmlns'' \<and> CHR ''.'' \<notin> set p"

lemma ReplaceAll_dot:
  "CHR ''.'' \<notin> set p \<Longrightarrow> ReplaceAll p ''.'' new = p"
  "CHR ''.'' \<notin> set p \<Longrightarrow> ReplaceAll (p @ ''.'' @ s) ''.'' new = p @ new @ ReplaceAll s ''.'' new"
  by (induction p) (auto simp: HasPrefix_def)

lemma ReplaceAll_dots:
  "ps \<noteq> [] \<Longrightarrow> \<forall>p\<in>set ps. CHR ''.'' \<notin> set p \<Longrightarrow> ReplaceAll (Join ps ''.'') ''.'' new = Join ps new"
proof (induction ps)
  case (Cons p ps)
  then show ?case by (cases "ps = []") (simp_all add: Join_Cons ReplaceAll_dot ReplaceAll_dot(2) [simplified])
qed simp

lemma Join_snoc: "ps \<noteq> [] \<Longrightarrow> Join (ps @ [m]) sep = Join ps sep @ sep @ m"
proof (induction ps)
  case (Cons p ps)
  then show ?case by (cases "ps = []") (simp_all add: Join_Cons)
qed simp

lemma separator_inside:
  assumes "0 < length p" "length p < 7"
  shows "\<not> HasPrefix (p @ ''__kmlns_'' @ s) ''__kmlns_''"
proof
  let ?t = "p @ ''__kmlns_'' @ s"
  assume "HasPrefix ?t ''__kmlns_''"
  then have "take (length ''__kmlns_'') ?t = ''__kmlns_''" unfolding HasPrefix_def .
  then have eq: "take 8 ?t = ''__kmlns_''" by (simp only: list.size One_nat_def) (simp add: numeral_eq_Suc)
  then have at: "?t ! k = ''__kmlns_'' ! k" if "k < 8" for k using that by (metis nth_take)
  have "?t ! length p = CHR ''_''" "?t ! Suc (length p) = CHR ''_''"
    by (simp_all add: nth_append)
  then have here: "''__kmlns_'' ! length p = CHR ''_''" "''__kmlns_'' ! Suc (length p) = CHR ''_''"
    using at [of "length p"] at [of "Suc (length p)"] assms by simp_all
  consider "length p = 1" | "length p = 2" | "length p = 3" | "length p = 4" | "length p = 5"
    | "length p = 6" using assms by linarith
  then show False using here by cases simp_all
qed

lemma ReplaceAll_separator:
  "\<not> Contains p ''__kmlns'' \<Longrightarrow> ReplaceAll p ''__kmlns_'' new = p
    \<and> ReplaceAll (p @ ''__kmlns_'' @ s) ''__kmlns_'' new = p @ new @ ReplaceAll s ''__kmlns_'' new"
proof (induction p)
  case Nil
  show ?case by (simp add: HasPrefix_def)
next
  case (Cons c p)
  have longer: "HasPrefix t ''__kmlns_'' \<Longrightarrow> HasPrefix t ''__kmlns''" for t
    by (auto simp: HasPrefix_prefix prefix_def)
  have no: "\<not> HasPrefix (c # p) ''__kmlns''" using Cons.prems by simp
  then have p: "\<not> HasPrefix (c # p) ''__kmlns_''" using longer by blast
  have "\<not> HasPrefix (c # p @ ''__kmlns_'' @ s) ''__kmlns_''"
  proof (cases "length (c # p) < 7")
    case True
    then show ?thesis using separator_inside [of "c # p" s] by simp
  next
    case False
    then have "HasPrefix ((c # p) @ ''__kmlns_'' @ s) ''__kmlns'' \<longleftrightarrow> HasPrefix (c # p) ''__kmlns''"
      by (intro HasPrefix_short) simp
    then show ?thesis using no longer by auto
  qed
  then show ?case using p Cons by simp
qed

lemma ReplaceAll_separators:
  "ps \<noteq> [] \<Longrightarrow> \<forall>p\<in>set ps. plain_part p \<Longrightarrow> ReplaceAll (Join ps ''__kmlns_'') ''__kmlns_'' ''.'' = Join ps ''.''"
proof (induction ps)
  case (Cons p ps)
  then show ?case by (cases "ps = []") (simp_all add: Join_Cons ReplaceAll_separator ReplaceAll_separator [THEN conjunct2, simplified] plain_part_def)
qed simp

lemma NamespaceMangle_Join:
  "ps \<noteq> [] \<Longrightarrow> \<forall>p\<in>set ps. plain_part p \<Longrightarrow> NamespaceMangle (Join ps ''.'') m = Join (ps @ [m]) ''__kmlns_''"
  by (simp add: NamespaceMangle_def ReplaceAll_dots plain_part_def Join_snoc)

text \<open>C35. A declaration's name reads back as the source wrote it. With the file-private
  suffix of a program's file or of a library file, whatever the name is, \<open>TrimModuleSuffix\<close>
  gives the name again; and the member \<open>m\<close> of the namespace \<open>p1.\<dots>.pk\<close>, flattened by
  \<open>NamespaceMangle\<close>, is printed by \<open>sourceName\<close> as \<open>p1.\<dots>.pk.m\<close>, as long as no part holds the
  separator's own text and no suffix is in the flat name.\<close>

theorem mangled_name_reads_back:
  assumes "name \<noteq> []" and "good_key key" and "0 \<le> i" and "length key < 2 ^ 60"
    and "ps \<noteq> []" and "\<forall>p\<in>set (ps @ [m]). plain_part p"
    and "\<not> Contains (NamespaceMangle (Join ps ''.'') m) moduleSuffix"
  shows "TrimModuleSuffix (ModuleMangle name i key) = Some (Inr name)
    \<and> sourceName (NamespaceMangle (Join ps ''.'') m) = Some (Inr (Join (ps @ [m]) ''.''))"
proof
  show "TrimModuleSuffix (ModuleMangle name i key) = Some (Inr name)"
    by (rule TrimModuleSuffix_mangled) (use assms in auto)
  have "NamespaceMangle (Join ps ''.'') m = Join (ps @ [m]) ''__kmlns_''"
    by (rule NamespaceMangle_Join) (use assms in auto)
  moreover have "ReplaceAll (Join (ps @ [m]) ''__kmlns_'') ''__kmlns_'' ''.'' = Join (ps @ [m]) ''.''"
    by (rule ReplaceAll_separators) (use assms in auto)
  ultimately show "sourceName (NamespaceMangle (Join ps ''.'') m) = Some (Inr (Join (ps @ [m]) ''.''))"
    using TrimModuleSuffix_plain [OF assms(7)] by (simp add: sourceName_def)
qed

theorem mangled_name_reads_back_witness:
  "TrimModuleSuffix (ModuleMangle ''URL'' 4 ''node_url'') = Some (Inr ''URL'')
    \<and> sourceName (NamespaceMangle (Join [''A'', ''B_''] ''.'') ''x'')
        = Some (Inr (Join ([''A'', ''B_''] @ [''x'']) ''.''))"
  by (rule mangled_name_reads_back)
    (simp_all add: good_key_def plain_part_def moduleSuffix_def HasPrefix_def ascii_digit_def
      NamespaceMangle_def)

section \<open>Files\<close>

lemma mangle_tail_inj:
  assumes "good_key k1" "good_key k2" "0 \<le> i1" "0 \<le> i2" "mangle_tail i1 k1 = mangle_tail i2 k2"
  shows "k1 = k2 \<and> (k1 = [] \<longrightarrow> i1 = i2)"
proof -
  have no_L: "itoa_nat n \<noteq> CHR ''L'' # s" for n s
    using itoa_nat_digits [of n] by (auto simp: ascii_digit_def)
  have "itoa_nat (length k1) @ k1 = itoa_nat (length k2) @ k2 \<longleftrightarrow> length k1 = length k2 \<and> k1 = k2"
    using run_append_eq [OF itoa_nat_digits itoa_nat_digits] assms(1,2) by (simp add: good_key_def)
  then show ?thesis
    using assms no_L no_L [symmetric] by (auto simp: mangle_tail_def itoa_def split: if_splits)
qed

lemma ModuleMangle_inj:
  assumes "good_key k1" "good_key k2" "0 \<le> i1" "0 \<le> i2"
    and "ModuleMangle z1 i1 k1 = ModuleMangle z2 i2 k2"
  shows "z1 = z2 \<and> k1 = k2 \<and> (k1 = [] \<longrightarrow> i1 = i2)"
proof -
  have eq: "z1 @ moduleSuffix @ mangle_tail i1 k1 = z2 @ moduleSuffix @ mangle_tail i2 k2"
    using assms(5) by (simp add: ModuleMangle_tail)
  have len: "length z1 = length z2"
    using LastIndex_suffix [OF mangle_tail_clean [OF assms(3,1)], of z1]
      LastIndex_suffix [OF mangle_tail_clean [OF assms(4,2)], of z2] eq by simp
  with eq have "z1 = z2" "mangle_tail i1 k1 = mangle_tail i2 k2" by simp_all
  with mangle_tail_inj [OF assms(1-4)] show ?thesis by simp
qed

definition ok_name :: "string \<Rightarrow> int \<Rightarrow> string \<Rightarrow> bool" where
  "ok_name key i n \<longleftrightarrow> Contains n ''__kmlns_'' \<or> (\<exists>z. n = ModuleMangle z i key)"

text \<open>What the parser gives: an \<open>export default\<close> declares one name, no namespace member.\<close>

definition single_default :: "top_stmt \<Rightarrow> bool" where
  "single_default st \<longleftrightarrow> (ts_default st \<longrightarrow>
    (case ts_refs st of [(n, _)] \<Rightarrow> \<not> Contains n ''__kmlns_'' | _ \<Rightarrow> False))"

definition file_form :: "string \<Rightarrow> int \<Rightarrow> string \<Rightarrow> string" where
  "file_form key i x = (if Contains x ''__kmlns_'' then x else ModuleMangle x i key)"

definition entry_ok :: "string \<Rightarrow> int \<Rightarrow> string \<Rightarrow> string \<Rightarrow> bool" where
  "entry_ok key i x n \<longleftrightarrow> ok_name key i n \<and> (x \<noteq> ''default'' \<longrightarrow> n = file_form key i x)"

definition mangling_inv :: "string \<Rightarrow> int \<Rightarrow> mangling \<Rightarrow> bool" where
  "mangling_inv key i g \<longleftrightarrow>
    (\<forall>x n. mg_mangled g x = Some n \<longrightarrow> entry_ok key i x n)
    \<and> (\<forall>x. mg_seenKind g x \<noteq> None \<longrightarrow> mg_mangled g x \<noteq> None)"

lemma ok_file_form: "ok_name key i (file_form key i x)"
  by (auto simp: ok_name_def file_form_def)

lemma entry_ok_form: "entry_ok key i x (file_form key i x)"
  by (simp add: entry_ok_def ok_file_form)

lemma entry_ok_default: "ok_name key i n \<Longrightarrow> entry_ok key i ''default'' n"
  by (simp add: entry_ok_def)

lemma mangling_inv_put:
  "mangling_inv key i g \<Longrightarrow> entry_ok key i x n \<Longrightarrow> mangling_inv key i (g\<lparr>mg_mangled := (mg_mangled g)(x \<mapsto> n)\<rparr>)"
  by (simp add: mangling_inv_def)

lemma mangling_inv_seen:
  "mangling_inv key i g \<Longrightarrow> mg_mangled g x \<noteq> None \<Longrightarrow>
    mangling_inv key i (g\<lparr>mg_seenKind := (mg_seenKind g)(x \<mapsto> k)\<rparr>)"
  by (simp add: mangling_inv_def)

lemma mangling_inv_saw [simp]:
  "mangling_inv key i (g\<lparr>mg_sawDefault := b\<rparr>) \<longleftrightarrow> mangling_inv key i g"
  by (simp add: mangling_inv_def)

lemma mangling_inv_default:
  "mangling_inv key i g \<Longrightarrow> ok_name key i n \<Longrightarrow>
    mangling_inv key i (g\<lparr>mg_sawDefault := b, mg_mangled := (mg_mangled g)(''default'' \<mapsto> n)\<rparr>)"
  by (simp add: mangling_inv_def entry_ok_default)

lemma mangling_inv_seenD:
  "mangling_inv key i g \<Longrightarrow> mg_seenKind g x = Some k \<Longrightarrow> \<exists>n. mg_mangled g x = Some n \<and> entry_ok key i x n"
  by (auto simp: mangling_inv_def)

definition declared :: "top_stmt list \<Rightarrow> string set" where
  "declared body = (\<Union>st\<in>set body. fst ` set (ts_refs st))"

lemma declared_simps [simp]:
  "declared [] = {}"
  "declared (st # body) = fst ` set (ts_refs st) \<union> declared body"
  by (simp_all add: declared_def)

lemma mangle_ref_inv:
  assumes "mangling_inv key i g" "\<forall>r\<in>set out. ok_name key i (fst r)"
    and "mangle_ref key i ref (g, lastn, out) = (g', lastn', out')"
  shows "mangling_inv key i g' \<and> (\<forall>r\<in>set out'. ok_name key i (fst r))
    \<and> (\<not> Contains (fst ref) ''__kmlns_'' \<longrightarrow> ok_name key i lastn')"
proof -
  obtain name kind where ref: "ref = (name, kind)" by fastforce
  consider (ns) "Contains name ''__kmlns_''"
    | (dup) k where "\<not> Contains name ''__kmlns_''" "mg_seenKind g name = Some k"
    | (new) "\<not> Contains name ''__kmlns_''" "mg_seenKind g name = None" by blast
  then show ?thesis
  proof cases
    case ns
    then have "file_form key i name = name" by (simp add: file_form_def)
    with ns assms ref show ?thesis
      using mangling_inv_put [OF assms(1) entry_ok_form [of key i name]] ok_file_form [of key i name]
      by (auto simp: mangle_ref_def)
  next
    case dup
    with assms ref mangling_inv_seenD [OF assms(1) dup(2)] show ?thesis
      by (auto simp: mangle_ref_def entry_ok_def Let_def)
  next
    case new
    then have "file_form key i name = ModuleMangle name i key" by (simp add: file_form_def)
    moreover have "mangling_inv key i
        (g\<lparr>mg_mangled := (mg_mangled g)(name \<mapsto> file_form key i name),
           mg_seenKind := (mg_seenKind g)(name \<mapsto> kind)\<rparr>)"
      using mangling_inv_seen [OF mangling_inv_put [OF assms(1) entry_ok_form [of key i name]], of name kind]
      by simp
    ultimately show ?thesis
      using new assms ref ok_file_form [of key i name] by (auto simp: mangle_ref_def Let_def)
  qed
qed

lemma mangle_refs_inv:
  assumes "mangling_inv key i g" "\<forall>r\<in>set out. ok_name key i (fst r)"
    and "fold (mangle_ref key i) refs (g, lastn, out) = (g', lastn', out')"
  shows "mangling_inv key i g' \<and> (\<forall>r\<in>set out'. ok_name key i (fst r))"
  using assms
proof (induction refs arbitrary: g lastn out)
  case (Cons r refs)
  obtain g1 l1 o1 where step: "mangle_ref key i r (g, lastn, out) = (g1, l1, o1)"
    using prod_cases3 by blast
  from mangle_ref_inv [OF Cons.prems(1,2) step] Cons.IH [of g1 o1 l1] Cons.prems(3) step
  show ?case by simp
qed simp

lemma mangle_stmt_inv:
  assumes inv: "mangling_inv key i g" and st: "single_default st"
    and step: "mangle_stmt key i st g = Inr (g', st')"
  shows "mangling_inv key i g' \<and> (\<forall>r\<in>set (ts_refs st'). ok_name key i (fst r))"
proof -
  obtain g1 l1 refs where fold: "fold (mangle_ref key i) (ts_refs st) (g, [], []) = (g1, l1, refs)"
    using prod_cases3 by blast
  have g1: "mangling_inv key i g1" and refs: "\<forall>r\<in>set refs. ok_name key i (fst r)"
    using mangle_refs_inv [OF inv _ fold] by auto
  have "ok_name key i l1" if default: "ts_default st"
  proof -
    from st default obtain n k where one: "ts_refs st = [(n, k)]" and ns: "\<not> Contains n ''__kmlns_''"
      by (auto simp: single_default_def split: list.splits prod.splits)
    show ?thesis
      using mangle_ref_inv [OF inv, of "[]" "(n, k)" "[]" g1 l1 refs] fold one ns by simp
  qed
  from mangling_inv_default [OF g1 this] show ?thesis
    using step fold g1 refs by (auto simp: mangle_stmt_def Let_def split: if_splits)
qed

lemma mangle_body_inv:
  assumes "mangling_inv key i g" "\<forall>st\<in>set body. single_default st"
    and "mangle_body key i body g = Inr (g', body')"
  shows "mangling_inv key i g' \<and> (\<forall>n\<in>declared body'. ok_name key i n)"
  using assms
proof (induction body arbitrary: g g' body')
  case (Cons st body)
  from Cons.prems(3) obtain g1 st1 body1 where
    step: "mangle_stmt key i st g = Inr (g1, st1)" and
    rest: "mangle_body key i body g1 = Inr (g', body1)" and body': "body' = st1 # body1"
    by (auto split: sum.splits)
  have "mangling_inv key i g1" "\<forall>r\<in>set (ts_refs st1). ok_name key i (fst r)"
    using mangle_stmt_inv [OF Cons.prems(1) _ step] Cons.prems(2) by auto
  with Cons.IH [OF _ _ rest] Cons.prems(2) body' show ?case by auto
qed simp

lemma alias_default_inv:
  assumes "mangling_inv key i g" "\<forall>n\<in>declared body. ok_name key i n"
    and "alias_default body g = (g', body')"
  shows "mangling_inv key i g' \<and> (\<forall>n\<in>declared body'. ok_name key i n)"
  using assms
proof (induction body arbitrary: g g' body')
  case (Cons st body)
  show ?case
  proof (cases "ts_default st")
    case False
    obtain g1 body1 where rest: "alias_default body g = (g1, body1)" by fastforce
    from Cons.IH [OF Cons.prems(1) _ rest] Cons.prems(2,3) False rest show ?thesis by auto
  next
    case True
    show ?thesis
    proof (cases "\<exists>name k. ts_decl st = VariableOf (Some name) \<and> mg_seenKind g name = Some k
        \<and> (k = ''class'' \<or> k = ''function'')")
      case True
      then obtain name k where decl: "ts_decl st = VariableOf (Some name)"
        and seen: "mg_seenKind g name = Some k" "k = ''class'' \<or> k = ''function''" by blast
      from mangling_inv_seenD [OF Cons.prems(1) seen(1)] obtain n where
        n: "mg_mangled g name = Some n" "ok_name key i n" by (auto simp: entry_ok_def)
      have "g' = g\<lparr>mg_mangled := (mg_mangled g)(''default'' \<mapsto> n)\<rparr>" "body' = body"
        using Cons.prems(3) \<open>ts_default st\<close> decl seen n(1) by auto
      with mangling_inv_put [OF Cons.prems(1) entry_ok_default [OF n(2)]] Cons.prems(2)
      show ?thesis by simp
    next
      case False
      then have "(g', body') = (g, st # body)"
      proof (cases "ts_decl st")
        case (VariableOf v)
        with False Cons.prems(3) \<open>ts_default st\<close> show ?thesis by (cases v) (auto split: if_split_asm)
      qed (use Cons.prems(3) \<open>ts_default st\<close> in simp)
      with Cons.prems(1,2) show ?thesis by simp
    qed
  qed
qed simp

lemma mangleFileDecls_inv:
  assumes "mangleFileDecls key body i = Inr (g, body')" "\<forall>st\<in>set body. single_default st"
  shows "mangling_inv key i g \<and> (\<forall>n\<in>declared body'. ok_name key i n)"
proof -
  let ?g0 = "\<lparr>mg_mangled = Map.empty, mg_seenKind = Map.empty, mg_sawDefault = False\<rparr>"
  from assms(1) obtain g1 body1 where
    1: "mangle_body key i body ?g0 = Inr (g1, body1)" and 2: "alias_default body1 g1 = (g, body')"
    by (auto simp: mangleFileDecls_def split: sum.splits)
  have "mangling_inv key i ?g0" by (simp add: mangling_inv_def)
  from mangle_body_inv [OF this assms(2) 1] alias_default_inv [OF _ _ 2] show ?thesis by blast
qed

text \<open>C36. The top-level names of two files stay apart in the merged program: whatever two
  different files declare, the names \<open>mangleFileDecls\<close> gives them coincide only on a namespace
  member, whose flat name it keeps. And what a file's references are renamed to is exactly the
  file-private form of the name, or the name itself for a namespace member.\<close>

theorem file_names_apart:
  assumes "mangleFileDecls key1 body1 i1 = Inr (g1, out1)"
    and "mangleFileDecls key2 body2 i2 = Inr (g2, out2)"
    and "\<forall>st\<in>set (body1 @ body2). single_default st"
    and "good_key key1" and "good_key key2" and "0 \<le> i1" and "0 \<le> i2"
    and "key1 \<noteq> key2 \<or> (key1 = [] \<and> i1 \<noteq> i2)"
  shows "(\<forall>n \<in> declared out1 \<inter> declared out2. Contains n ''__kmlns_'')
    \<and> (\<forall>x n. mg_mangled g1 x = Some n \<and> x \<noteq> ''default'' \<longrightarrow>
         n = file_form key1 i1 x)"
proof -
  have 1: "mangling_inv key1 i1 g1" "\<forall>n\<in>declared out1. ok_name key1 i1 n"
    using mangleFileDecls_inv [OF assms(1)] assms(3) by auto
  have 2: "\<forall>n\<in>declared out2. ok_name key2 i2 n"
    using mangleFileDecls_inv [OF assms(2)] assms(3) by auto
  have "Contains n ''__kmlns_''" if "n \<in> declared out1" "n \<in> declared out2" for n
    using 1(2) 2 that ModuleMangle_inj [OF assms(4-7)] assms(8) by (auto simp: ok_name_def)
  with 1(1) show ?thesis by (auto simp: mangling_inv_def entry_ok_def)
qed

definition small_body :: "top_stmt list" where
  "small_body =
    [\<lparr>ts_refs = [(''f'', ''function'')], ts_default = False, ts_decl = NoVariable\<rparr>,
     \<lparr>ts_refs = [(''default'', ''const'')], ts_default = True, ts_decl = VariableOf (Some ''f'')\<rparr>]"

text \<open>A file declaring a function and exporting it as its default: two copies of it.\<close>

abbreviation mangled_file :: "string \<Rightarrow> int \<Rightarrow> mangling \<times> top_stmt list" where
  "mangled_file key i \<equiv>
    (\<lparr>mg_mangled = [''f'' \<mapsto> ModuleMangle ''f'' i key, ''default'' \<mapsto> ModuleMangle ''f'' i key],
      mg_seenKind = [''f'' \<mapsto> ''function'', ''default'' \<mapsto> ''const''], mg_sawDefault = True\<rparr>,
     [\<lparr>ts_refs = [(ModuleMangle ''f'' i key, ''function'')], ts_default = False, ts_decl = NoVariable\<rparr>])"

lemma small_body_mangled: "mangleFileDecls key small_body i = Inr (mangled_file key i)"
  by (simp add: mangleFileDecls_def small_body_def mangle_stmt_def mangle_ref_def Let_def HasPrefix_def)

theorem file_names_apart_witness:
  "\<not> (\<exists>n \<in> declared (snd (mangled_file [] 0)) \<inter> declared (snd (mangled_file ''node_fs'' 1)).
        \<not> Contains n ''__kmlns_'')
    \<and> mg_mangled (fst (mangled_file [] 0)) ''f'' = Some (file_form [] 0 ''f'')"
proof -
  have default: "\<forall>st\<in>set (small_body @ small_body). single_default st"
    by (simp add: small_body_def single_default_def HasPrefix_def)
  have keys: "good_key []" "good_key ''node_fs''"
    by (simp_all add: good_key_def moduleSuffix_def HasPrefix_def ascii_digit_def)
  note apart = file_names_apart [OF small_body_mangled [of "[]" 0] small_body_mangled [of "''node_fs''" 1]
      default keys]
  show ?thesis
    using apart by auto
qed

section \<open>Messages\<close>

definition digit_count :: "string \<Rightarrow> nat" where
  "digit_count s = length (filter ascii_digit s)"

lemma digit_count_subseq: "subseq t s \<Longrightarrow> digit_count t \<le> digit_count s"
  unfolding digit_count_def using subseq_filter [THEN list_emb_length] .

lemma digit_run_count: "length (takeWhile ascii_digit (drop k s)) \<le> digit_count s"
proof -
  have "subseq (takeWhile ascii_digit (drop k s)) s"
    by (meson subseq_order.trans prefix_imp_subseq suffix_imp_subseq suffix_drop takeWhile_is_prefix)
  moreover have "digit_count (takeWhile ascii_digit (drop k s)) = length (takeWhile ascii_digit (drop k s))"
    unfolding digit_count_def by (metis filter_True set_takeWhileD)
  ultimately show ?thesis using digit_count_subseq by metis
qed

lemma cut_subseq: "i \<le> j \<Longrightarrow> subseq (take i s @ drop j s) s"
proof -
  assume "i \<le> j"
  then have "suffix (drop j s) (drop i s)" by (metis le_Suc_ex drop_drop add.commute suffix_drop)
  then have "subseq (take i s @ drop j s) (take i s @ drop i s)" by (intro list_emb_append_mono suffix_imp_subseq) auto
  then show ?thesis by simp
qed

text \<open>Eighteen digits keep the count inside an \<open>int\<close>, so a step cuts the suffix out.\<close>

lemma strip_shortens:
  assumes digits: "digit_count s \<le> 18" and short: "length s < 2 ^ 61" and has: "Contains s moduleSuffix"
  shows "\<exists>t. strip_first s = Stripped t \<and> length t < length s \<and> subseq t s"
proof -
  obtain i where idx: "Index s moduleSuffix = Some i" using has by (auto simp: Contains_def)
  have "HasPrefix (drop i s) moduleSuffix" using idx by (simp add: Index_Some)
  then have "length (take (length moduleSuffix) (drop i s)) = length moduleSuffix"
    by (simp only: HasPrefix_def)
  then have room: "i + length moduleSuffix \<le> length s"
    by (simp add: moduleSuffix_def min_def split: if_splits)
  define j0 where "j0 = i + length moduleSuffix"
  define lib where "lib \<longleftrightarrow> j0 < length s \<and> s ! j0 = CHR ''L''"
  define j1 where "j1 = (if lib then j0 + 1 else j0)"
  define run where "run = takeWhile ascii_digit (drop j1 s)"
  define j2 where "j2 = j1 + length run"
  have count: "read_count (drop j1 s) 0 = (word_of_nat (digits_value run 0), length run)"
    by (simp add: read_count_zero run_def)
  have "list_all ascii_digit run" unfolding run_def list_all_iff using set_takeWhileD by fast
  then have "digits_value run 0 < 10 ^ length run" using digits_value_bound [of run 0] by simp
  moreover have "length run \<le> 18" using digit_run_count [of j1 s] digits by (simp add: run_def)
  then have "(10 :: nat) ^ length run \<le> 10 ^ 18" by (intro power_increasing) auto
  ultimately have small: "digits_value run 0 < 2 ^ 61" by (simp add: order_less_le_trans)
  have "length run \<le> length s - j1" by (metis run_def length_drop length_takeWhile_le)
  moreover have "j1 \<le> length s" using room by (auto simp: j1_def lib_def j0_def)
  ultimately have j2: "j2 \<le> length s" by (simp add: j2_def)
  define j where "j = (if lib then min (sint (word_of_nat j2 + word_of_nat (digits_value run 0) :: 64 word))
      (int (length s)) else int j2)"
  have "j2 + digits_value run 0 < 2 ^ 62" using j2 short small by simp
  then have "sint (word_of_nat j2 + word_of_nat (digits_value run 0) :: 64 word) = int (j2 + digits_value run 0)"
    using sint_of_nat [of "j2 + digits_value run 0"] by simp
  then have j: "int j2 \<le> j" "j \<le> int (length s)" using j2 by (auto simp: j_def)
  have past: "i < nat j" using j(1) by (auto simp: j2_def j1_def j0_def moduleSuffix_def split: if_splits)
  have "strip_first s = Stripped (take i s @ drop (nat j) s)"
    unfolding strip_first_def idx option.case Let_def j0_def [symmetric] lib_def [symmetric]
      j1_def [symmetric] count prod.case j2_def [symmetric] j_def [symmetric]
    using j(1) by simp
  moreover have "length (take i s @ drop (nat j) s) < length s"
    using past j(2) room by (auto simp: moduleSuffix_def)
  ultimately show ?thesis using cut_subseq [of i "nat j" s] past by auto
qed

text \<open>Un-mangling a message ends: a text with at most eighteen digits gives a text, one
  left by deleting characters of the message, in which no suffix is left; a message without a
  suffix is kept as it is; and in a message that quotes one mangled name exactly the suffix
  goes.\<close>

theorem unmangle_text_cleans:
  assumes "digit_count s \<le> 18" and "length s < 2 ^ 61"
    and "\<not> Contains (pre @ ''__kml_mo'') moduleSuffix" and "\<not> Contains (pre @ post) moduleSuffix"
    and "good_key key" and "0 \<le> i" and "key = [] \<Longrightarrow> stops ascii_digit post"
    and "length pre + length key < 2 ^ 60"
  shows "(\<exists>t. UnmangleText s = Some (Inr t) \<and> \<not> Contains t moduleSuffix \<and> subseq t s
          \<and> (Contains s moduleSuffix \<or> t = s))
    \<and> UnmangleText (ModuleMangle pre i key @ post) = Some (Inr (pre @ post))"
proof
  show "UnmangleText (ModuleMangle pre i key @ post) = Some (Inr (pre @ post))"
    using strip_mangled [OF assms(3,5,6,7,8)] strip_clean [of "pre @ post"] assms(4)
    by (simp add: ModuleMangle_tail UnmangleText_step)
  show "\<exists>t. UnmangleText s = Some (Inr t) \<and> \<not> Contains t moduleSuffix \<and> subseq t s
      \<and> (Contains s moduleSuffix \<or> t = s)"
    using assms(1,2)
  proof (induction "length s" arbitrary: s rule: less_induct)
    case less
    show ?case
    proof (cases "Contains s moduleSuffix")
      case False
      then show ?thesis using UnmangleText_step(2) [of s] strip_clean [of s] by auto
    next
      case True
      from strip_shortens [OF less.prems True] obtain t where
        t: "strip_first s = Stripped t" "length t < length s" "subseq t s" by blast
      have "digit_count t \<le> 18" "length t < 2 ^ 61"
        using digit_count_subseq [OF t(3)] less.prems t(2) by auto
      from less.hyps [OF t(2) this] obtain u where
        "UnmangleText t = Some (Inr u)" "\<not> Contains u moduleSuffix" "subseq u t" by blast
      then show ?thesis
        using UnmangleText_step(1) [OF t(1)] t(3) True subseq_order.trans by metis
    qed
  qed
qed

theorem unmangle_text_cleans_witness:
  "\<not> Contains (''a '' @ '' b'') moduleSuffix
    \<and> UnmangleText (ModuleMangle ''a '' 3 ''node_fs'' @ '' b'') = Some (Inr (''a '' @ '' b''))"
  using unmangle_text_cleans [of "''x''" "''a ''" "'' b''" "''node_fs''" 3]
  by (simp add: digit_count_def good_key_def moduleSuffix_def HasPrefix_def ascii_digit_def)

section \<open>URLs\<close>











end
