(* ===== verification/Types.thy ===== *)
theory Types
  imports Names
begin

text \<open>
  The checker's types and the table that hands them out (\<open>checker/types.go\<close>). A \<open>*Type\<close> is
  the address of a cell of the checker's heap \<open>in_types\<close>, so pointer equality is equality of
  addresses; a nil pointer is \<open>None\<close>. A \<open>*Property\<close> is the property itself: nothing here
  writes through one. A \<open>*binder.Symbol\<close> is a \<open>symbol_ptr\<close>, looked up in the binder's
  list of symbols \<open>ss\<close>.
\<close>

section \<open>Kinds and cells\<close>

type_synonym TypeFlags = "32 word"

definition AnyT :: TypeFlags where "AnyT = flag_bit 0"
definition UnknownT :: TypeFlags where "UnknownT = flag_bit 1"
definition StringT :: TypeFlags where "StringT = flag_bit 2"
definition NumberT :: TypeFlags where "NumberT = flag_bit 3"
definition BooleanT :: TypeFlags where "BooleanT = flag_bit 4"
definition BigIntT :: TypeFlags where "BigIntT = flag_bit 5"
definition VoidT :: TypeFlags where "VoidT = flag_bit 6"
definition UndefinedT :: TypeFlags where "UndefinedT = flag_bit 7"
definition NullT :: TypeFlags where "NullT = flag_bit 8"
definition NeverT :: TypeFlags where "NeverT = flag_bit 9"
definition StringLiteralT :: TypeFlags where "StringLiteralT = flag_bit 10"
definition NumberLiteralT :: TypeFlags where "NumberLiteralT = flag_bit 11"
definition BooleanLiteralT :: TypeFlags where "BooleanLiteralT = flag_bit 12"
definition BigIntLiteralT :: TypeFlags where "BigIntLiteralT = flag_bit 13"
definition IntT :: TypeFlags where "IntT = flag_bit 14"
definition Float32T :: TypeFlags where "Float32T = flag_bit 15"
definition ObjectT :: TypeFlags where "ObjectT = flag_bit 16"
definition UnionT :: TypeFlags where "UnionT = flag_bit 17"
definition TypeParamT :: TypeFlags where "TypeParamT = flag_bit 18"
definition NonPrimitiveT :: TypeFlags where "NonPrimitiveT = flag_bit 19"
definition ESSymbolT :: TypeFlags where "ESSymbolT = flag_bit 20"
definition DeferredT :: TypeFlags where "DeferredT = flag_bit 21"

lemmas type_flag_defs = AnyT_def UnknownT_def StringT_def NumberT_def BooleanT_def BigIntT_def VoidT_def
  UndefinedT_def NullT_def NeverT_def StringLiteralT_def NumberLiteralT_def BooleanLiteralT_def
  BigIntLiteralT_def IntT_def Float32T_def ObjectT_def UnionT_def TypeParamT_def NonPrimitiveT_def
  ESSymbolT_def DeferredT_def

definition Literal_masks :: "TypeFlags list" where
  "Literal_masks = [StringLiteralT, NumberLiteralT, BooleanLiteralT, BigIntLiteralT]"

definition StringLike :: "TypeFlags list" where "StringLike = [StringT, StringLiteralT]"
definition NumberLike :: "TypeFlags list" where "NumberLike = [NumberT, NumberLiteralT, IntT, Float32T]"
definition BooleanLike :: "TypeFlags list" where "BooleanLike = [BooleanT, BooleanLiteralT]"
definition BigIntLike :: "TypeFlags list" where "BigIntLike = [BigIntT, BigIntLiteralT]"
definition Nullish :: "TypeFlags list" where "Nullish = [UndefinedT, NullT, VoidT]"

datatype ObjectKind = Anonymous | Array | Tuple | Function | Instance | Interface

type_synonym ty = nat

record Predicate =
  pd_Index :: int
  pd_Type :: "ty option"
  pd_Asserts :: bool

record Property =
  pr_Name :: string
  pr_Type :: ty
  pr_Optional :: bool
  pr_Accessor :: bool
  pr_Write :: "ty option"
  pr_Readonly :: bool
  pr_Visibility :: string
  pr_WriteVisibility :: string
  pr_Owner :: "symbol_ptr option"
  pr_Field :: bool
  pr_Decl :: "node_ptr option"
  pr_Decls :: "node_ptr list"

record sigOrigin =
  so_sym :: int
  so_decl :: int
  so_literal :: bool

text \<open>The display-only and payload fields of a function, tuple and object type are grouped
  as Go's struct comments group them.\<close>

record Type =
  Flags :: TypeFlags
  ty_ID :: int
  ty_Value :: string
  ty_Bits :: int
  ty_Signed :: bool
  ty_AnyArith :: bool
  ty_Types :: "ty list"
  ty_Kind :: ObjectKind
  ty_Elem :: "ty option"
  ty_Elems :: "ty list"
  ty_Props :: "Property list"
  ty_Params :: "ty list"
  ty_Result :: "ty option"
  ty_Symbol :: "symbol_ptr option"
  ty_ClassOf :: "symbol_ptr option"
  ty_ParamNames :: "string list"
  ty_Base :: "ty option"
  ty_TypeArgs :: "ty list"
  ty_Predicate :: "Predicate option"
  ty_TypeParams :: "ty list"
  ty_Overloads :: "ty list"
  ty_ThisType :: "ty option"
  ty_Opt :: int
  ty_Labels :: "string list option"
  ty_Brand :: "ty option"
  ty_BrandBase :: "ty option"
  ty_LiteralThis :: "ty option"
  ty_StringIndex :: "ty option"
  ty_NumberIndex :: "ty option"
  ty_Member :: string
  ty_EnumSize :: nat
  ty_Constraint :: "ty option"
  ty_Default :: "ty option"
  ty_optionals :: "bool list"
  ty_restParam :: bool
  ty_Calls :: "ty list"
  ty_Constructs :: "ty list"
  ty_callOrigins :: "sigOrigin list"
  ty_constructOrigins :: "sigOrigin list"
  ty_partial :: bool
  ty_intersection :: bool

text \<open>\<open>&Type{}\<close>, the zero cell.\<close>

definition zero_type :: Type where
  "zero_type = \<lparr>Flags = 0, ty_ID = 0, ty_Value = [], ty_Bits = 0, ty_Signed = False, ty_AnyArith = False,
     ty_Types = [], ty_Kind = Anonymous, ty_Elem = None, ty_Elems = [], ty_Props = [], ty_Params = [],
     ty_Result = None, ty_Symbol = None, ty_ClassOf = None, ty_ParamNames = [], ty_Base = None,
     ty_TypeArgs = [], ty_Predicate = None, ty_TypeParams = [], ty_Overloads = [], ty_ThisType = None,
     ty_Opt = 0, ty_Labels = None, ty_Brand = None, ty_BrandBase = None, ty_LiteralThis = None,
     ty_StringIndex = None, ty_NumberIndex = None, ty_Member = [], ty_EnumSize = 0, ty_Constraint = None,
     ty_Default = None, ty_optionals = [], ty_restParam = False, ty_Calls = [], ty_Constructs = [],
     ty_callOrigins = [], ty_constructOrigins = [], ty_partial = False, ty_intersection = False\<rparr>"

section \<open>The interner\<close>

record interner =
  in_types :: "Type list"
  in_byKey :: "string \<rightharpoonup> ty"
  in_next :: int

definition type_at :: "interner \<Rightarrow> ty \<Rightarrow> Type" where
  "type_at S t = in_types S ! t"

abbreviation ID_of :: "interner \<Rightarrow> ty \<Rightarrow> int" where
  "ID_of S t \<equiv> ty_ID (type_at S t)"

definition new_interner :: interner where
  "new_interner = \<lparr>in_types = [], in_byKey = Map.empty, in_next = 0\<rparr>"

definition intern :: "string \<Rightarrow> Type \<Rightarrow> interner \<Rightarrow> ty \<times> interner" where
  "intern key c S =
    (case in_byKey S key of
       Some t \<Rightarrow> (t, S)
     | None \<Rightarrow>
        (let t = length (in_types S); n = in_next S + 1
         in (t, S\<lparr>in_types := in_types S @ [c\<lparr>ty_ID := n\<rparr>], in_byKey := (in_byKey S)(key \<mapsto> t), in_next := n\<rparr>)))"

definition intern2 :: "string \<Rightarrow> Type \<Rightarrow> interner \<Rightarrow> (ty \<times> bool) \<times> interner" where
  "intern2 key c S =
    (case in_byKey S key of
       Some t \<Rightarrow> ((t, False), S)
     | None \<Rightarrow> (let (t, S') = intern key c S in ((t, True), S')))"

definition intrinsic :: "TypeFlags \<Rightarrow> interner \<Rightarrow> ty \<times> interner" where
  "intrinsic f = intern (''i'' @ itoa (uint f)) (zero_type\<lparr>Flags := f\<rparr>)"

definition anyNumber :: "interner \<Rightarrow> ty \<times> interner" where
  "anyNumber = intern ''anynum'' (zero_type\<lparr>Flags := NumberT, ty_AnyArith := True\<rparr>)"

definition literal :: "TypeFlags \<Rightarrow> string \<Rightarrow> interner \<Rightarrow> ty \<times> interner" where
  "literal f v = intern (''l'' @ itoa (uint f) @ '':'' @ v) (zero_type\<lparr>Flags := f, ty_Value := v\<rparr>)"

text \<open>\<open>strconv.FormatBool\<close>.\<close>

definition FormatBool :: "bool \<Rightarrow> string" where
  "FormatBool b = (if b then ''true'' else ''false'')"

definition intType :: "int \<Rightarrow> bool \<Rightarrow> interner \<Rightarrow> ty \<times> interner" where
  "intType bits sg = intern (''n'' @ itoa bits @ FormatBool sg)
     (zero_type\<lparr>Flags := IntT, ty_Bits := bits, ty_Signed := sg\<rparr>)"

definition array :: "ty \<Rightarrow> interner \<Rightarrow> ty \<times> interner" where
  "array elem S = intern (''a'' @ itoa (ID_of S elem))
     (zero_type\<lparr>Flags := ObjectT, ty_Kind := Array, ty_Elem := Some elem\<rparr>) S"

definition ids :: "interner \<Rightarrow> ty list \<Rightarrow> string" where
  "ids S ts = Join (map (\<lambda>t. itoa (ID_of S t)) ts) '',''"

definition bools :: "bool list \<Rightarrow> string" where
  "bools bs = map (\<lambda>b. if b then CHR ''1'' else CHR ''0'') bs"

definition tuple :: "ty list \<Rightarrow> interner \<Rightarrow> ty \<times> interner" where
  "tuple elems S = intern (''t'' @ ids S elems)
     (zero_type\<lparr>Flags := ObjectT, ty_Kind := Tuple, ty_Elems := elems\<rparr>) S"

definition tupleLabelled :: "ty list \<Rightarrow> int \<Rightarrow> string list option \<Rightarrow> interner \<Rightarrow> ty \<times> interner" where
  "tupleLabelled elems opt labels S =
    (let opt = min opt (int (length elems));
         labels = (case labels of Some ls \<Rightarrow> if length ls \<noteq> length elems then None else Some ls | None \<Rightarrow> None);
         names = (case labels of Some ls \<Rightarrow> ls | None \<Rightarrow> [])
     in if opt \<le> 0 \<and> labels = None then tuple elems S
        else intern (''t'' @ ids S elems @ ''?'' @ itoa opt @ ''#'' @ Join names '','')
          (zero_type\<lparr>Flags := ObjectT, ty_Kind := Tuple, ty_Elems := elems, ty_Opt := max opt 0,
             ty_Labels := labels\<rparr>) S)"

definition tupleOpt :: "ty list \<Rightarrow> int \<Rightarrow> interner \<Rightarrow> ty \<times> interner" where
  "tupleOpt elems opt = tupleLabelled elems opt None"

definition minLen :: "Type \<Rightarrow> int" where
  "minLen c = int (length (ty_Elems c)) - ty_Opt c"

definition branded :: "ty \<Rightarrow> ty \<Rightarrow> interner \<Rightarrow> ty \<times> interner" where
  "branded base brand S = intern (''B'' @ itoa (ID_of S base) @ '':'' @ itoa (ID_of S brand))
     ((type_at S base)\<lparr>ty_Brand := Some brand, ty_BrandBase := Some base\<rparr>) S"

definition predicate_key :: "interner \<Rightarrow> Predicate option \<Rightarrow> string" where
  "predicate_key S pred =
    (case pred of
       None \<Rightarrow> []
     | Some p \<Rightarrow> ''!'' @ itoa (pd_Index p) @ '':'' @ FormatBool (pd_Asserts p)
         @ (case pd_Type p of None \<Rightarrow> [] | Some t \<Rightarrow> '':'' @ itoa (ID_of S t)))"

definition function_type :: "ty list \<Rightarrow> bool list \<Rightarrow> bool \<Rightarrow> ty \<Rightarrow> Predicate option \<Rightarrow> ty list
    \<Rightarrow> interner \<Rightarrow> ty \<times> interner" where
  "function_type params opts rest result pred typeParams S =
    intern (''f'' @ ids S params @ ''>'' @ itoa (ID_of S result) @ ''?'' @ bools opts @ FormatBool rest
        @ ''<'' @ ids S typeParams @ predicate_key S pred)
      (zero_type\<lparr>Flags := ObjectT, ty_Kind := Function, ty_Params := params, ty_Result := Some result,
         ty_Predicate := pred, ty_TypeParams := typeParams, ty_optionals := opts, ty_restParam := rest\<rparr>) S"

definition is_function :: "Type \<Rightarrow> bool" where
  "is_function c \<longleftrightarrow> has_flag (Flags c) [ObjectT] \<and> ty_Kind c = Function"

definition withParamNames :: "ty \<Rightarrow> string list \<Rightarrow> interner \<Rightarrow> ty \<times> interner" where
  "withParamNames fn names S =
    (if \<not> is_function (type_at S fn) \<or> names = [] then (fn, S)
     else intern (''n'' @ itoa (ID_of S fn) @ '':'' @ Join names '','')
       ((type_at S fn)\<lparr>ty_ParamNames := names\<rparr>) S)"

definition withResult :: "ty \<Rightarrow> ty \<Rightarrow> interner \<Rightarrow> ty \<times> interner" where
  "withResult fn r S = intern (''r'' @ itoa (ID_of S fn) @ '':'' @ itoa (ID_of S r))
     ((type_at S fn)\<lparr>ty_Result := Some r\<rparr>) S"

definition withThis :: "ty \<Rightarrow> ty option \<Rightarrow> interner \<Rightarrow> ty \<times> interner" where
  "withThis fn th S =
    (case th of
       None \<Rightarrow> (fn, S)
     | Some t \<Rightarrow>
        if \<not> is_function (type_at S fn) then (fn, S)
        else intern (''t'' @ itoa (ID_of S fn) @ '':'' @ itoa (ID_of S t))
          ((type_at S fn)\<lparr>ty_ThisType := Some t\<rparr>) S)"

definition withLiteralThis :: "ty \<Rightarrow> ty \<Rightarrow> interner \<Rightarrow> ty \<times> interner" where
  "withLiteralThis ob t S = intern (''T'' @ itoa (ID_of S ob) @ '':'' @ itoa (ID_of S t))
     ((type_at S ob)\<lparr>ty_LiteralThis := Some t\<rparr>) S"

definition opt_ID :: "interner \<Rightarrow> string \<Rightarrow> ty option \<Rightarrow> string" where
  "opt_ID S mark t = (case t of None \<Rightarrow> [] | Some t \<Rightarrow> mark @ itoa (ID_of S t))"

definition indexedOn :: "ty \<Rightarrow> ty option \<Rightarrow> ty option \<Rightarrow> interner \<Rightarrow> ty \<times> interner" where
  "indexedOn ob str num S =
    (if str = None \<and> num = None then (ob, S)
     else intern (''x'' @ itoa (ID_of S ob) @ opt_ID S ''s'' str @ opt_ID S ''n'' num)
       ((type_at S ob)\<lparr>ty_StringIndex := str, ty_NumberIndex := num\<rparr>) S)"

definition withSignatures :: "ty \<Rightarrow> ty list \<Rightarrow> ty list \<Rightarrow> interner \<Rightarrow> ty \<times> interner" where
  "withSignatures ob calls constructs S =
    (if calls = [] \<and> constructs = [] then (ob, S)
     else intern (''g'' @ itoa (ID_of S ob) @ concat (map (\<lambda>t. ''c'' @ itoa (ID_of S t)) calls)
         @ concat (map (\<lambda>t. ''k'' @ itoa (ID_of S t)) constructs))
       ((type_at S ob)\<lparr>ty_Calls := calls, ty_Constructs := constructs\<rparr>) S)"

text \<open>\<open>%p\<close> prints a symbol's address, which is the run's own: a parameter.\<close>

definition classValue :: "(symbol_ptr \<Rightarrow> string) \<Rightarrow> Symbol list \<Rightarrow> ty \<Rightarrow> ty option \<Rightarrow> symbol_ptr
    \<Rightarrow> interner \<Rightarrow> ty \<times> interner" where
  "classValue addr ss ob ctor b S =
    intern (''v'' @ itoa (ID_of S ob) @ ''|'' @ sym_Name (ss ! b) @ ''|'' @ addr b @ opt_ID S ''k'' ctor)
      ((type_at S ob)\<lparr>ty_Constructs := (case ctor of Some t \<Rightarrow> [t] | None \<Rightarrow> ty_Constructs (type_at S ob)),
         ty_ClassOf := Some b\<rparr>) S"

definition prop_key :: "interner \<Rightarrow> Property \<Rightarrow> string" where
  "prop_key S p = pr_Name p @ (if pr_Optional p then ''?'' else []) @ '':'' @ itoa (ID_of S (pr_Type p))
     @ (if pr_Accessor p then ''@'' @ opt_ID S [] (pr_Write p) else [])
     @ (if pr_Readonly p then ''!'' else []) @ '';''"

definition objectOf :: "Property list \<Rightarrow> bool \<Rightarrow> bool \<Rightarrow> interner \<Rightarrow> ty \<times> interner" where
  "objectOf props partial intersection S =
    intern (''o'' @ (if partial then [CHR 0x01] else []) @ (if intersection then [CHR 0x02] else [])
        @ concat (map (prop_key S) props))
      (zero_type\<lparr>Flags := ObjectT, ty_Kind := Anonymous, ty_Props := props, ty_partial := partial,
         ty_intersection := intersection\<rparr>) S"

definition object :: "Property list \<Rightarrow> interner \<Rightarrow> ty \<times> interner" where
  "object props = objectOf props False False"

definition indexed :: "Property list \<Rightarrow> ty option \<Rightarrow> ty option \<Rightarrow> interner \<Rightarrow> ty \<times> interner" where
  "indexed props str num S = (let (ob, S') = object props S in indexedOn ob str num S')"

fun kind_number :: "ObjectKind \<Rightarrow> int" where
  "kind_number Anonymous = 0"
| "kind_number Array = 1"
| "kind_number Tuple = 2"
| "kind_number Function = 3"
| "kind_number Instance = 4"
| "kind_number Interface = 5"

definition nominalKey :: "Symbol list \<Rightarrow> ObjectKind \<Rightarrow> symbol_ptr \<Rightarrow> ty list \<Rightarrow> interner \<Rightarrow> string" where
  "nominalKey ss kind b args S =
    ''s'' @ itoa (kind_number kind) @ '':'' @ itoa (int (sym_ID (ss ! b))) @ ''<'' @ ids S args"

definition nominal :: "Symbol list \<Rightarrow> ObjectKind \<Rightarrow> symbol_ptr \<Rightarrow> ty list \<Rightarrow> interner \<Rightarrow> (ty \<times> bool) \<times> interner" where
  "nominal ss kind b args S =
    (let key = nominalKey ss kind b args S in
     case in_byKey S key of
       Some t \<Rightarrow> ((t, False), S)
     | None \<Rightarrow>
        (let (t, S') = intern key (zero_type\<lparr>Flags := ObjectT, ty_Kind := kind, ty_Symbol := Some b,
               ty_TypeArgs := args\<rparr>) S
         in ((t, True), S')))"

definition overloaded_type :: "ty list \<Rightarrow> interner \<Rightarrow> ty \<times> interner" where
  "overloaded_type sigs S = intern (''o'' @ ids S sigs)
     ((type_at S (sigs ! 0))\<lparr>ty_ID := 0, ty_Overloads := sigs\<rparr>) S"

end
