(* ===== verification/Unions.thy ===== *)
theory Unions
  imports Types
begin

text \<open>
  The union constructor of the checker's types with TypeScript's literal reduction, and
  the questions about one type that need no relation: what a call must pass, what a class
  derives from (\<open>checker/types.go\<close>).
\<close>

section \<open>Unions\<close>

text \<open>\<open>union\<close>'s \<open>add\<close>: the map \<open>set\<close> holds what \<open>members\<close> holds. It recurses into a union's
  members; the fuel is the heap's size, and a union's members are no unions, so that a
  fuel of two is enough (\<open>UnionFacts.union_add_fuel\<close>).\<close>

fun union_add :: "nat \<Rightarrow> interner \<Rightarrow> ty \<Rightarrow> ty list \<Rightarrow> ty list" where
  "union_add 0 S t members = members"
| "union_add (Suc n) S t members =
    (if has_flag (Flags (type_at S t)) [UnionT]
     then fold (union_add n S) (ty_Types (type_at S t)) members
     else if has_flag (Flags (type_at S t)) [NeverT] \<or> t \<in> set members then members
     else members @ [t])"

text \<open>The loop over the arguments: \<open>Inl\<close> is the \<open>any\<close> it returns at once.\<close>

fun union_members :: "interner \<Rightarrow> ty option list \<Rightarrow> ty list \<Rightarrow> ty + ty list" where
  "union_members S [] members = Inr members"
| "union_members S (None # ts) members = union_members S ts members"
| "union_members S (Some t # ts) members =
    (if has_flag (Flags (type_at S t)) [AnyT] then Inl t
     else union_members S ts (union_add (Suc (length (in_types S))) S t members))"

definition absorb_numbers :: "interner \<Rightarrow> ty list \<Rightarrow> ty list" where
  "absorb_numbers S members =
    (if \<exists>m\<in>set members. ty_AnyArith (type_at S m)
     then filter (\<lambda>m. ty_AnyArith (type_at S m) \<or> \<not> has_flag (Flags (type_at S m)) [NumberT, NumberLiteralT]) members
     else members)"

definition primitive_of :: "TypeFlags \<Rightarrow> TypeFlags" where
  "primitive_of f =
    (let b = Bit_Operations.and f (foldr Bit_Operations.or Literal_masks 0) in
     if b = StringLiteralT then StringT else if b = NumberLiteralT then NumberT
     else if b = BooleanLiteralT then BooleanT else if b = BigIntLiteralT then BigIntT else 0)"

definition primitives :: "interner \<Rightarrow> ty list \<Rightarrow> TypeFlags" where
  "primitives S members =
    fold (\<lambda>m prims. Bit_Operations.or prims
       (Bit_Operations.and (Flags (type_at S m)) (foldr Bit_Operations.or [StringT, NumberT, BooleanT, BigIntT] 0)))
      members 0"

definition has_boolean :: "interner \<Rightarrow> string \<Rightarrow> ty list \<Rightarrow> bool" where
  "has_boolean S v members \<longleftrightarrow>
    (\<exists>m\<in>set members. has_flag (Flags (type_at S m)) [BooleanLiteralT] \<and> ty_Value (type_at S m) = v)"

definition reduceLiterals :: "ty list \<Rightarrow> interner \<Rightarrow> ty list \<times> interner" where
  "reduceLiterals members S =
    (let prims = primitives S members;
         (members, prims, S) =
           (if has_boolean S ''true'' members \<and> has_boolean S ''false'' members \<and> \<not> has_flag prims [BooleanT]
            then (let (b, S') = intrinsic BooleanT S in (members @ [b], Bit_Operations.or prims BooleanT, S'))
            else (members, prims, S))
     in (filter (\<lambda>m. primitive_of (Flags (type_at S m)) = 0
            \<or> \<not> has_flag prims [primitive_of (Flags (type_at S m))]) members, S))"

text \<open>\<open>sort.Slice\<close> by ID; it is not stable, which no interned members tell.\<close>

definition union :: "ty option list \<Rightarrow> interner \<Rightarrow> ty \<times> interner" where
  "union ts S =
    (case union_members S ts [] of
       Inl t \<Rightarrow> (t, S)
     | Inr members \<Rightarrow>
        (case find (\<lambda>m. has_flag (Flags (type_at S m)) [UnknownT]) members of
           Some m \<Rightarrow> (m, S)
         | None \<Rightarrow>
            (let (members, S) = reduceLiterals (absorb_numbers S members) S in
             case members of
               [] \<Rightarrow> intrinsic NeverT S
             | [m] \<Rightarrow> (m, S)
             | _ \<Rightarrow> (let members = sort_key (ID_of S) members in
                 intern (''u'' @ ids S members) (zero_type\<lparr>Flags := UnionT, ty_Types := members\<rparr>) S))))"

section \<open>Questions\<close>

definition IsMissing :: "Type \<Rightarrow> bool" where
  "IsMissing c \<longleftrightarrow> has_flag (Flags c) [UndefinedT] \<and> ty_Value c = ''missing''"

definition Prop :: "Type \<Rightarrow> string \<Rightarrow> Property option" where
  "Prop c name = find (\<lambda>p. pr_Name p = name) (ty_Props c)"

definition RecursiveAlias :: "Symbol list \<Rightarrow> Type \<Rightarrow> bool" where
  "RecursiveAlias ss c \<longleftrightarrow> has_flag (Flags c) [ObjectT] \<and> ty_Kind c = Anonymous
    \<and> (case ty_Symbol c of Some b \<Rightarrow> has_flag (sym_Flags (ss ! b)) [TypeAlias] | None \<Rightarrow> False)"

text \<open>\<open>Derives\<close>' loop, with the iterations left.\<close>

fun derives_loop :: "nat \<Rightarrow> interner \<Rightarrow> ty option \<Rightarrow> symbol_ptr \<Rightarrow> bool" where
  "derives_loop 0 S t b = False"
| "derives_loop (Suc n) S None b = False"
| "derives_loop (Suc n) S (Some t) b =
    (if ty_Kind (type_at S t) = Instance \<and> ty_Symbol (type_at S t) = Some b then True
     else derives_loop n S (ty_Base (type_at S t)) b)"

definition Derives :: "interner \<Rightarrow> ty \<Rightarrow> symbol_ptr \<Rightarrow> bool" where
  "Derives S t b = derives_loop 64 S (Some t) b"

definition HasRestParam :: "Type \<Rightarrow> bool" where
  "HasRestParam c = ty_restParam c"

definition OptionalParam :: "Type \<Rightarrow> nat \<Rightarrow> bool" where
  "OptionalParam c i \<longleftrightarrow> i < length (ty_optionals c) \<and> ty_optionals c ! i"

definition acceptsVoid :: "interner \<Rightarrow> ty \<Rightarrow> bool" where
  "acceptsVoid S t \<longleftrightarrow> has_flag (Flags (type_at S t)) [VoidT]
    \<or> (has_flag (Flags (type_at S t)) [UnionT]
       \<and> (\<exists>m\<in>set (ty_Types (type_at S t)). has_flag (Flags (type_at S m)) [VoidT]))"

text \<open>\<open>MinArgs\<close>' two loops: forward over the required parameters, back over those that
  accept void.\<close>

function required_params :: "Type \<Rightarrow> nat \<Rightarrow> nat" where
  "required_params c i =
    (if length (ty_Params c) \<le> i \<or> OptionalParam c i \<or> (ty_restParam c \<and> Suc i = length (ty_Params c)) then i
     else required_params c (Suc i))"
  by pat_completeness auto
termination by (relation "measure (\<lambda>(c, i). length (ty_Params c) - i)") auto

declare required_params.simps [simp del]

fun drop_void :: "interner \<Rightarrow> Type \<Rightarrow> nat \<Rightarrow> nat" where
  "drop_void S c 0 = 0"
| "drop_void S c (Suc n) = (if acceptsVoid S (ty_Params c ! n) then drop_void S c n else Suc n)"

definition MinArgs :: "interner \<Rightarrow> Type \<Rightarrow> nat" where
  "MinArgs S c = drop_void S c (required_params c 0)"

end
