(* ===== verification/TypeText.thy ===== *)
theory TypeText
  imports Unions
begin

text \<open>
  How a type prints (\<open>Type.String\<close> of \<open>checker/types.go\<close>). The method calls itself on the
  types a cell names, and nothing in it stops at a cell it has met, so it is modelled with
  fuel: an outcome is \<open>None\<close> when the fuel is gone, \<open>Some (Inl e)\<close> when the code panics and
  \<open>Some (Inr s)\<close> when it returns \<open>s\<close>. The text of one cell is a definition over \<open>print\<close>, the
  method called on the types the cell names.
\<close>

section \<open>Outcomes\<close>

type_synonym 'a outcome = "(panic + 'a) option"

definition returns :: "'a \<Rightarrow> 'a outcome" where
  "returns x = Some (Inr x)"

definition panics :: "panic \<Rightarrow> 'a outcome" where
  "panics e = Some (Inl e)"

definition and_then :: "'a outcome \<Rightarrow> ('a \<Rightarrow> 'b outcome) \<Rightarrow> 'b outcome" where
  "and_then r f = (case r of None \<Rightarrow> None | Some (Inl e) \<Rightarrow> Some (Inl e) | Some (Inr x) \<Rightarrow> f x)"

definition also_text :: "string \<Rightarrow> string outcome \<Rightarrow> string outcome" where
  "also_text s r = and_then r (\<lambda>x. returns (s @ x))"

primrec for_each :: "('a \<Rightarrow> 'b outcome) \<Rightarrow> 'a list \<Rightarrow> 'b list outcome" where
  "for_each f [] = returns []"
| "for_each f (x # xs) = and_then (f x) (\<lambda>y. and_then (for_each f xs) (\<lambda>ys. returns (y # ys)))"

text \<open>A pointer followed: a nil one panics.\<close>

definition through :: "'a option \<Rightarrow> ('a \<Rightarrow> 'b outcome) \<Rightarrow> 'b outcome" where
  "through p f = (case p of None \<Rightarrow> panics NilDereference | Some x \<Rightarrow> f x)"

section \<open>The text of a cell\<close>

definition symbol_text :: "Symbol list \<Rightarrow> symbol_ptr option \<Rightarrow> string outcome" where
  "symbol_text ss p = through p (\<lambda>sp. symbolName (ss ! sp))"

definition memberDisplayName :: "string \<Rightarrow> string" where
  "memberDisplayName name = (if HasPrefix name ''@@'' then ''[Symbol.'' @ drop 2 name @ '']'' else name)"

text \<open>An object type that is one construct signature.\<close>

definition constructor_type :: "Type \<Rightarrow> bool" where
  "constructor_type c \<longleftrightarrow> ty_Kind c = Anonymous \<and> ty_Props c = [] \<and> ty_Calls c = []
    \<and> length (ty_Constructs c) = 1 \<and> ty_StringIndex c = None \<and> ty_NumberIndex c = None"

text \<open>The cases of the switch over the flags but the last, the union.\<close>

definition flag_text :: "unicode_tables \<Rightarrow> Symbol list \<Rightarrow> Type \<Rightarrow> string outcome option" where
  "flag_text U ss c =
    (let f = Flags c in
     if has_flag f [AnyT] then Some (returns ''any'')
     else if has_flag f [UnknownT] then Some (returns ''unknown'')
     else if has_flag f [StringT] then Some (returns ''string'')
     else if has_flag f [NumberT] then Some (returns ''number'')
     else if has_flag f [BooleanT] then Some (returns ''boolean'')
     else if has_flag f [BigIntT] then Some (returns ''bigint'')
     else if has_flag f [ESSymbolT] then Some (returns ''symbol'')
     else if has_flag f [VoidT] then Some (returns ''void'')
     else if has_flag f [UndefinedT] then Some (returns ''undefined'')
     else if has_flag f [NullT] then Some (returns ''null'')
     else if has_flag f [NeverT] then Some (returns ''never'')
     else if has_flag f [NonPrimitiveT] then Some (returns ''object'')
     else if has_flag f Literal_masks \<and> ty_Member c \<noteq> []
     then Some (and_then (symbol_text ss (ty_Symbol c)) (\<lambda>s. returns (s @ ''.'' @ ty_Member c)))
     else if has_flag f [StringLiteralT] then Some (returns (Quote U (ty_Value c)))
     else if has_flag f [NumberLiteralT, BooleanLiteralT] then Some (returns (ty_Value c))
     else if has_flag f [BigIntLiteralT] then Some (returns (ty_Value c @ ''n''))
     else if has_flag f [IntT] then Some (returns ((if ty_Signed c then ''int'' else ''uint'') @ itoa (ty_Bits c)))
     else if has_flag f [Float32T] then Some (returns ''float32'')
     else if has_flag f [DeferredT] then Some (returns ''unknown'')
     else if has_flag f [TypeParamT]
     then Some (if ty_Symbol c = None then returns (ty_Value c) else symbol_text ss (ty_Symbol c))
     else None)"

text \<open>The members of a union: \<open>seen[m.Symbol] == m.EnumSize\<close>, and the loop over them with its
  \<open>named\<close>, \<open>undef\<close>, \<open>parts\<close> and \<open>tail\<close>.\<close>

definition whole_enum :: "interner \<Rightarrow> ty list \<Rightarrow> ty \<Rightarrow> bool" where
  "whole_enum S ms m \<longleftrightarrow> ty_Member (type_at S m) \<noteq> []
    \<and> length (filter (\<lambda>k. ty_Member (type_at S k) \<noteq> [] \<and> ty_Symbol (type_at S k) = ty_Symbol (type_at S m)) ms)
        = ty_EnumSize (type_at S m)"

fun union_parts :: "Symbol list \<Rightarrow> interner \<Rightarrow> (ty \<Rightarrow> string outcome) \<Rightarrow> ty list \<Rightarrow> ty list \<Rightarrow>
    symbol_ptr option list \<Rightarrow> bool \<Rightarrow> string list \<Rightarrow> string list \<Rightarrow> string list outcome" where
  "union_parts ss S print ms [] named undef parts tail = returns (parts @ tail)"
| "union_parts ss S print ms (m # rest) named undef parts tail =
    (let c = type_at S m in
     if whole_enum S ms m
     then (if ty_Symbol c \<in> set named then union_parts ss S print ms rest named undef parts tail
           else and_then (symbol_text ss (ty_Symbol c)) (\<lambda>s.
             union_parts ss S print ms rest (ty_Symbol c # named) undef (parts @ [s]) tail))
     else if has_flag (Flags c) [UndefinedT]
     then (if undef then union_parts ss S print ms rest named undef parts tail
           else union_parts ss S print ms rest named True parts (tail @ [''undefined'']))
     else and_then (print m) (\<lambda>s.
       if has_flag (Flags c) [NullT] then union_parts ss S print ms rest named undef parts (tail @ [s])
       else union_parts ss S print ms rest named undef (parts @ [s]) tail))"

text \<open>A type that stands in parentheses before \<open>[]\<close> and \<open>?\<close>.\<close>

definition in_parentheses :: "Type \<Rightarrow> bool" where
  "in_parentheses c \<longleftrightarrow> has_flag (Flags c) [UnionT] \<or> has_flag (Flags c) [ObjectT] \<and> ty_Kind c = Function"

definition array_text :: "interner \<Rightarrow> (ty \<Rightarrow> string outcome) \<Rightarrow> Type \<Rightarrow> string outcome" where
  "array_text S print c = through (ty_Elem c) (\<lambda>e. and_then (print e) (\<lambda>s.
     returns (if in_parentheses (type_at S e) then ''('' @ s @ '')[]'' else s @ ''[]'')))"

definition tuple_part :: "interner \<Rightarrow> (ty \<Rightarrow> string outcome) \<Rightarrow> Type \<Rightarrow> nat \<times> ty \<Rightarrow> string outcome" where
  "tuple_part S print c = (\<lambda>(i, e). and_then (print e) (\<lambda>s.
     case ty_Labels c of
       Some labels \<Rightarrow>
         if i < length labels then returns (labels ! i @ (if minLen c \<le> int i then ''?: '' else '': '') @ s)
         else panics IndexOutOfRange
     | None \<Rightarrow> returns
         (if minLen c \<le> int i then (if in_parentheses (type_at S e) then ''('' @ s @ '')'' else s) @ ''?'' else s)))"

definition tuple_text :: "interner \<Rightarrow> (ty \<Rightarrow> string outcome) \<Rightarrow> Type \<Rightarrow> string outcome" where
  "tuple_text S print c =
    and_then (for_each (tuple_part S print c) (enumerate 0 (ty_Elems c))) (\<lambda>parts.
      returns (''['' @ Join parts '', '' @ '']''))"

definition overload_text :: "string \<Rightarrow> string" where
  "overload_text s =
    (case Index s '') => '' of Some j \<Rightarrow> take (j + 1) s @ '': '' @ drop (j + 5) s | None \<Rightarrow> s)"

definition param_name :: "Type \<Rightarrow> int \<Rightarrow> string" where
  "param_name c i =
    (if 0 \<le> i \<and> i < int (length (ty_ParamNames c)) \<and> ty_ParamNames c ! nat i \<noteq> []
     then ty_ParamNames c ! nat i else ''p'' @ itoa i)"

definition param_part :: "(ty \<Rightarrow> string outcome) \<Rightarrow> Type \<Rightarrow> nat \<times> ty \<Rightarrow> string outcome" where
  "param_part print c = (\<lambda>(i, p).
    (let name = param_name c (int i);
         name = (if ty_restParam c \<and> i + 1 = length (ty_Params c) then ''...'' @ name
                 else if i < length (ty_optionals c) \<and> ty_optionals c ! i then name @ ''?'' else name)
     in also_text (name @ '': '') (print p)))"

definition predicate_text :: "(ty \<Rightarrow> string outcome) \<Rightarrow> Type \<Rightarrow> Predicate \<Rightarrow> string outcome" where
  "predicate_text print c p =
    (let s = (if pd_Index p = - 1 then ''this'' else param_name c (pd_Index p)) in
     and_then (case pd_Type p of None \<Rightarrow> returns s | Some t \<Rightarrow> also_text (s @ '' is '') (print t)) (\<lambda>s.
       returns (if pd_Asserts p then ''asserts '' @ s else s)))"

definition function_text :: "(ty \<Rightarrow> string outcome) \<Rightarrow> Type \<Rightarrow> string outcome" where
  "function_text print c =
    (if ty_Overloads c \<noteq> []
     then and_then (for_each print (ty_Overloads c)) (\<lambda>sigs.
       returns (''{ '' @ Join (map overload_text sigs) ''; '' @ '' }''))
     else and_then (for_each (param_part print c) (enumerate 0 (ty_Params c))) (\<lambda>parts.
       and_then (case ty_ThisType c of None \<Rightarrow> returns parts
                 | Some t \<Rightarrow> and_then (print t) (\<lambda>s. returns ((''this: '' @ s) # parts))) (\<lambda>parts.
       and_then (if ty_TypeParams c = [] then returns []
                 else and_then (for_each print (ty_TypeParams c)) (\<lambda>names. returns (''<'' @ Join names '', '' @ ''>'')))
         (\<lambda>generic.
           also_text (generic @ ''('' @ Join parts '', '' @ '') => '')
             (case ty_Predicate c of Some p \<Rightarrow> predicate_text print c p | None \<Rightarrow> through (ty_Result c) print)))))"

definition nominal_text :: "Symbol list \<Rightarrow> (ty \<Rightarrow> string outcome) \<Rightarrow> Type \<Rightarrow> string outcome" where
  "nominal_text ss print c =
    (if ty_TypeArgs c = [] then symbol_text ss (ty_Symbol c)
     else and_then (for_each print (ty_TypeArgs c)) (\<lambda>args.
       and_then (symbol_text ss (ty_Symbol c)) (\<lambda>s. returns (s @ ''<'' @ Join args '', '' @ ''>''))))"

definition prop_part :: "(ty \<Rightarrow> string outcome) \<Rightarrow> Property \<Rightarrow> string outcome" where
  "prop_part print p = and_then (print (pr_Type p)) (\<lambda>s.
     returns ((if pr_Readonly p then ''readonly '' else []) @ memberDisplayName (pr_Name p)
       @ (if pr_Optional p then ''?'' else []) @ '': '' @ s @ '';''))"

definition index_part :: "(ty \<Rightarrow> string outcome) \<Rightarrow> string \<Rightarrow> ty option \<Rightarrow> string list outcome" where
  "index_part print key p =
    (case p of None \<Rightarrow> returns [] | Some t \<Rightarrow> and_then (print t) (\<lambda>s. returns [''[x: '' @ key @ '']: '' @ s @ '';'']))"

definition object_text :: "(ty \<Rightarrow> string outcome) \<Rightarrow> Type \<Rightarrow> string outcome" where
  "object_text print c =
    and_then (index_part print ''string'' (ty_StringIndex c)) (\<lambda>strings.
    and_then (index_part print ''number'' (ty_NumberIndex c)) (\<lambda>numbers.
      if ty_Props c = [] \<and> strings @ numbers = [] then returns ''{}''
      else and_then (for_each (prop_part print) (ty_Props c)) (\<lambda>parts.
        returns (''{ '' @ Join (strings @ numbers @ parts) '' '' @ '' }''))))"

definition kind_text :: "Symbol list \<Rightarrow> interner \<Rightarrow> (ty \<Rightarrow> string outcome) \<Rightarrow> Type \<Rightarrow> string outcome" where
  "kind_text ss S print c =
    (case ty_Kind c of
       Array \<Rightarrow> array_text S print c
     | Tuple \<Rightarrow> tuple_text S print c
     | Function \<Rightarrow> function_text print c
     | Anonymous \<Rightarrow> if RecursiveAlias ss c then symbol_text ss (ty_Symbol c) else object_text print c
     | Instance \<Rightarrow> if ty_Symbol c \<noteq> None then nominal_text ss print c else object_text print c
     | Interface \<Rightarrow> if ty_Symbol c \<noteq> None then nominal_text ss print c else object_text print c)"

definition type_text :: "unicode_tables \<Rightarrow> Symbol list \<Rightarrow> interner \<Rightarrow> (ty \<Rightarrow> string outcome) \<Rightarrow> Type \<Rightarrow> string outcome" where
  "type_text U ss S print c =
    (case ty_Brand c of
       Some brand \<Rightarrow> through (ty_BrandBase c) (\<lambda>base. and_then (print base) (\<lambda>s. also_text (s @ '' & '') (print brand)))
     | None \<Rightarrow>
       if ty_ClassOf c \<noteq> None then also_text ''typeof '' (symbol_text ss (ty_ClassOf c))
       else if constructor_type c then also_text ''new '' (print (hd (ty_Constructs c)))
       else (case flag_text U ss c of
           Some r \<Rightarrow> r
         | None \<Rightarrow>
           if has_flag (Flags c) [UnionT]
           then and_then (union_parts ss S print (ty_Types c) (ty_Types c) [] False [] []) (\<lambda>parts. returns (Join parts '' | ''))
           else kind_text ss S print c))"

primrec Type_String :: "unicode_tables \<Rightarrow> Symbol list \<Rightarrow> interner \<Rightarrow> nat \<Rightarrow> ty \<Rightarrow> string outcome" where
  "Type_String U ss S 0 t = None"
| "Type_String U ss S (Suc n) t = type_text U ss S (Type_String U ss S n) (type_at S t)"

end
