(* ===== verification/Interning.thy ===== *)
theory Interning
  imports Unions
begin

text \<open>
  Interning. The locale \<open>interning\<close> is what a table of canonical pointers promises its
  clients: a key asked for again gives the pointer it gave, two keys never share one. The
  checker's \<open>intern\<close> is an instance, on states whose table and heap agree (\<open>table_inv\<close>).
  A type of the checker is asked for by a key that its request determines; here each
  constructor of \<open>checker/types.go\<close> is a request, and the keys of two requests are told
  apart.
\<close>

section \<open>The contract\<close>

locale interning =
  fixes inv :: "'s \<Rightarrow> bool"
    and look :: "'s \<Rightarrow> 'k \<Rightarrow> 'a option"
    and put :: "'k \<Rightarrow> 'v \<Rightarrow> 's \<Rightarrow> 'a \<times> 's"
  assumes hit: "look s k = Some a \<Longrightarrow> put k v s = (a, s)"
    and miss: "look s k = None \<Longrightarrow> look (snd (put k v s)) = (look s)(k \<mapsto> fst (put k v s))"
    and unshared: "inv s \<Longrightarrow> look s k = Some a \<Longrightarrow> look s k' = Some a \<Longrightarrow> k = k'"
    and inv_put: "inv s \<Longrightarrow> inv (snd (put k v s))"
begin

lemma put_look: "look (snd (put k v s)) k = Some (fst (put k v s))"
  using hit [of s k] miss [of s k] by (cases "look s k") auto

lemma put_keep: "look s k' = Some a \<Longrightarrow> look (snd (put k v s)) k' = Some a"
  using hit [of s k] miss [of s k] by (cases "look s k") auto

lemma put_again: "put k w (snd (put k v s)) = (fst (put k v s), snd (put k v s))"
  by (rule hit [OF put_look])

lemma put_same_iff:
  assumes "inv s"
  shows "fst (put k v s) = fst (put k' w (snd (put k v s))) \<longleftrightarrow> k = k'"
proof
  assume eq: "fst (put k v s) = fst (put k' w (snd (put k v s)))"
  let ?s = "snd (put k' w (snd (put k v s)))"
  have "look ?s k = Some (fst (put k v s))" by (rule put_keep [OF put_look])
  moreover have "look ?s k' = Some (fst (put k v s))" using eq put_look [of k' w] by simp
  ultimately show "k = k'" using unshared [OF inv_put [OF inv_put [OF assms]]] by blast
next
  assume "k = k'"
  then show "fst (put k v s) = fst (put k' w (snd (put k v s)))" by (simp add: put_again)
qed

end

definition table_inv :: "interner \<Rightarrow> bool" where
  "table_inv S \<longleftrightarrow>
    (\<forall>k t. in_byKey S k = Some t \<longrightarrow> t < length (in_types S) \<and> 0 < ID_of S t)
    \<and> (\<forall>k k' t. in_byKey S k = Some t \<and> in_byKey S k' = Some t \<longrightarrow> k = k')
    \<and> (\<forall>t < length (in_types S). ID_of S t \<le> in_next S)
    \<and> (\<forall>t < length (in_types S). \<forall>u < length (in_types S). 0 < ID_of S t \<and> ID_of S t = ID_of S u \<longrightarrow> t = u)
    \<and> 0 \<le> in_next S"

lemma table_invD:
  assumes "table_inv S"
  shows "in_byKey S k = Some t \<Longrightarrow> t < length (in_types S) \<and> 0 < ID_of S t"
    and "in_byKey S k = Some t \<Longrightarrow> in_byKey S k' = Some t \<Longrightarrow> k = k'"
    and "t < length (in_types S) \<Longrightarrow> ID_of S t \<le> in_next S"
    and "t < length (in_types S) \<Longrightarrow> u < length (in_types S) \<Longrightarrow> 0 < ID_of S t \<Longrightarrow> ID_of S t = ID_of S u \<Longrightarrow> t = u"
    and "0 \<le> in_next S"
  using assms by (auto simp: table_inv_def)

lemma type_at_snoc:
  "t < length (in_types S) \<Longrightarrow> type_at (S\<lparr>in_types := in_types S @ cs, in_byKey := m, in_next := n\<rparr>) t = type_at S t"
  "type_at (S\<lparr>in_types := in_types S @ [c], in_byKey := m, in_next := n\<rparr>) (length (in_types S)) = c"
  by (simp_all add: type_at_def nth_append)

lemma new_interner_inv: "table_inv new_interner"
  by (simp add: table_inv_def new_interner_def)

lemma intern_hit: "in_byKey S k = Some t \<Longrightarrow> intern k c S = (t, S)"
  by (simp add: intern_def)

lemma intern_miss:
  "in_byKey S k = None \<Longrightarrow> intern k c S = (length (in_types S),
    S\<lparr>in_types := in_types S @ [c\<lparr>ty_ID := in_next S + 1\<rparr>], in_byKey := (in_byKey S)(k \<mapsto> length (in_types S)),
      in_next := in_next S + 1\<rparr>)"
  by (simp add: intern_def Let_def)

lemma intern_inv:
  assumes inv: "table_inv S"
  shows "table_inv (snd (intern k c S))"
proof (cases "in_byKey S k")
  case None
  note D = table_invD [OF inv]
  show ?thesis
    unfolding intern_miss [OF None] snd_conv table_inv_def
  proof (intro conjI allI impI, goal_cases)
    case (1 k' t) then show ?case
      using D(1) [of k' t] D(5) by (auto simp: type_at_def nth_append split: if_splits)
  next
    case (2 k' t) then show ?case
      using D(1) [of k' t] D(5) by (auto simp: type_at_def nth_append split: if_splits)
  next
    case (3 k' k'' t) then show ?case
      using D(1) [of k' t] D(1) [of k'' t] D(2) [of k' t k''] by (auto split: if_splits)
  next
    case (4 t) then show ?case
      using D(3) [of t] by (auto simp: type_at_def nth_append less_Suc_eq)
  next
    case (5 t u) then show ?case
      using D(3) [of t] D(3) [of u] D(4) [of t u] by (auto simp: type_at_def nth_append less_Suc_eq)
  next
    case 6 then show ?case using D(5) by simp
  qed
qed (simp add: intern_hit inv)

interpretation tys: interning table_inv in_byKey intern
proof
  show "in_byKey s k = Some a \<Longrightarrow> intern k v s = (a, s)" for s k a v
    by (rule intern_hit)
  show "in_byKey s k = None \<Longrightarrow> in_byKey (snd (intern k v s)) = (in_byKey s)(k \<mapsto> fst (intern k v s))" for s k v
    by (simp add: intern_miss)
  show "table_inv s \<Longrightarrow> in_byKey s k = Some a \<Longrightarrow> in_byKey s k' = Some a \<Longrightarrow> k = k'" for s k a k'
    by (rule table_invD(2))
  show "table_inv s \<Longrightarrow> table_inv (snd (intern k v s))" for s k v
    by (rule intern_inv)
qed

end
