(* ===== verification/UnionFacts.thy ===== *)
theory UnionFacts
  imports Interning
begin

text \<open>
  What the union constructor does to a set of types. The invariant of the type heap: a
  union's members are older, at least two, distinct, in the order of their IDs, none of
  them a union, \<open>never\<close>, \<open>any\<close> or \<open>unknown\<close>, and no literal stands beside its primitive.
\<close>

section \<open>Flags\<close>

lemma has_flag_or: "has_flag (Bit_Operations.or a b) [p] \<longleftrightarrow> has_flag a [p] \<or> has_flag b [p]"
proof -
  have "Bit_Operations.and (Bit_Operations.or a b) p
    = Bit_Operations.or (Bit_Operations.and a p) (Bit_Operations.and b p)"
    by (rule bit.conj_disj_distrib2)
  then show ?thesis by (simp add: has_flag_def or_eq_0_iff)
qed

lemma has_flag_and: "Bit_Operations.and m p = p \<Longrightarrow> has_flag (Bit_Operations.and f m) [p] \<longleftrightarrow> has_flag f [p]"
  by (simp add: has_flag_def and.assoc)

lemma has_flag_zero [simp]: "\<not> has_flag 0 ms"
  by (simp add: has_flag_def)

definition Primitives :: "TypeFlags set" where
  "Primitives = {StringT, NumberT, BooleanT, BigIntT}"

lemma primitives_flag:
  assumes "p \<in> Primitives"
  shows "has_flag (primitives S ms) [p] \<longleftrightarrow> (\<exists>m\<in>set ms. has_flag (Flags (type_at S m)) [p])"
proof -
  define mask where "mask = foldr Bit_Operations.or [StringT, NumberT, BooleanT, BigIntT] 0"
  have p: "Bit_Operations.and mask p = p"
    using assms by (auto simp: mask_def Primitives_def type_flag_defs)
  have "has_flag (fold (\<lambda>m prims. Bit_Operations.or prims (Bit_Operations.and (Flags (type_at S m)) mask)) ms a) [p]
    \<longleftrightarrow> has_flag a [p] \<or> (\<exists>m\<in>set ms. has_flag (Flags (type_at S m)) [p])" for a
    by (induction ms arbitrary: a) (auto simp: has_flag_or has_flag_and [OF p])
  then show ?thesis by (simp add: primitives_def mask_def)
qed

lemma primitive_of_cases: "primitive_of f = 0 \<or> primitive_of f \<in> Primitives"
  by (simp add: primitive_of_def Primitives_def Let_def)

lemma primitive_nonzero: "p \<in> Primitives \<Longrightarrow> p \<noteq> 0"
  by (auto simp: Primitives_def type_flag_defs)

lemma BooleanT_flags:
  "\<not> has_flag BooleanT [UnionT]" "\<not> has_flag BooleanT [NeverT]" "\<not> has_flag BooleanT [AnyT]"
  "\<not> has_flag BooleanT [UnknownT]" "has_flag BooleanT [BooleanT]" "\<not> has_flag BooleanT [StringT]"
  "\<not> has_flag BooleanT [NumberT]" "\<not> has_flag BooleanT [BigIntT]" "\<not> has_flag BooleanT [BooleanLiteralT]"
  "primitive_of BooleanT = 0" "\<not> has_flag BooleanT [NumberT, NumberLiteralT]"
  by (simp_all add: has_flag_def type_flag_defs primitive_of_def Literal_masks_def)

section \<open>The heap\<close>

definition extends :: "interner \<Rightarrow> interner \<Rightarrow> bool" where
  "extends S S' \<longleftrightarrow> (\<exists>cs. in_types S' = in_types S @ cs)"

lemma extends_refl [simp]: "extends S S"
  by (simp add: extends_def)

lemma extends_trans: "extends S S' \<Longrightarrow> extends S' S'' \<Longrightarrow> extends S S''"
  by (auto simp: extends_def)

lemma extends_at: "extends S S' \<Longrightarrow> t < length (in_types S) \<Longrightarrow> type_at S' t = type_at S t"
  by (auto simp: extends_def type_at_def nth_append)

lemma extends_length: "extends S S' \<Longrightarrow> length (in_types S) \<le> length (in_types S')"
  by (auto simp: extends_def)

lemma intern_extends: "extends S (snd (intern k c S))"
  by (cases "in_byKey S k") (auto simp: intern_hit intern_miss extends_def)

definition plain :: "interner \<Rightarrow> ty \<Rightarrow> bool" where
  "plain S m \<longleftrightarrow> m < length (in_types S) \<and> \<not> has_flag (Flags (type_at S m)) [UnionT]
    \<and> \<not> has_flag (Flags (type_at S m)) [NeverT] \<and> \<not> has_flag (Flags (type_at S m)) [AnyT]"

definition base_list :: "interner \<Rightarrow> ty list \<Rightarrow> bool" where
  "base_list S ms \<longleftrightarrow> distinct ms \<and> (\<forall>m\<in>set ms. plain S m)"

definition numeric :: "interner \<Rightarrow> ty \<Rightarrow> bool" where
  "numeric S m \<longleftrightarrow> has_flag (Flags (type_at S m)) [NumberT, NumberLiteralT]"

definition reduced :: "interner \<Rightarrow> ty set \<Rightarrow> bool" where
  "reduced S M \<longleftrightarrow>
    (\<forall>m\<in>M. \<not> has_flag (Flags (type_at S m)) [UnknownT])
    \<and> (\<forall>a\<in>M. \<forall>m\<in>M. ty_AnyArith (type_at S a) \<longrightarrow> ty_AnyArith (type_at S m) \<or> \<not> numeric S m)
    \<and> (\<forall>m\<in>M. \<forall>p\<in>M. primitive_of (Flags (type_at S m)) \<noteq> 0 \<longrightarrow>
          \<not> has_flag (Flags (type_at S p)) [primitive_of (Flags (type_at S m))])"

definition union_cell :: "interner \<Rightarrow> ty \<Rightarrow> ty list \<Rightarrow> bool" where
  "union_cell S t ms \<longleftrightarrow> set ms \<subseteq> {..<t} \<and> base_list S ms \<and> reduced S (set ms)
    \<and> sorted (map (ID_of S) ms) \<and> 2 \<le> length ms"

definition heap_inv :: "interner \<Rightarrow> bool" where
  "heap_inv S \<longleftrightarrow> table_inv S
    \<and> (\<forall>t < length (in_types S). has_flag (Flags (type_at S t)) [UnionT] \<longrightarrow> union_cell S t (ty_Types (type_at S t)))
    \<and> (\<forall>f t. in_byKey S (''i'' @ itoa (uint f)) = Some t \<longrightarrow>
          Flags (type_at S t) = f \<and> \<not> ty_AnyArith (type_at S t))
    \<and> (\<forall>r t. in_byKey S (''u'' @ r) = Some t \<longrightarrow>
          has_flag (Flags (type_at S t)) [UnionT] \<and> r = ids S (ty_Types (type_at S t)))"

lemma heap_invD:
  assumes "heap_inv S"
  shows "table_inv S"
    and "t < length (in_types S) \<Longrightarrow> has_flag (Flags (type_at S t)) [UnionT] \<Longrightarrow> union_cell S t (ty_Types (type_at S t))"
    and "in_byKey S (''i'' @ itoa (uint f)) = Some t \<Longrightarrow> Flags (type_at S t) = f"
    and "in_byKey S (''i'' @ itoa (uint f)) = Some t \<Longrightarrow> \<not> ty_AnyArith (type_at S t)"
    and "in_byKey S (''u'' @ r) = Some t \<Longrightarrow> has_flag (Flags (type_at S t)) [UnionT]"
    and "in_byKey S (''u'' @ r) = Some t \<Longrightarrow> r = ids S (ty_Types (type_at S t))"
  using assms unfolding heap_inv_def by blast+

lemma new_interner_heap: "heap_inv new_interner"
  by (simp add: heap_inv_def new_interner_inv) (simp add: new_interner_def)

lemma ids_extends: "extends S S' \<Longrightarrow> set ts \<subseteq> {..<length (in_types S)} \<Longrightarrow> ids S' ts = ids S ts"
  unfolding ids_def by (rule arg_cong [where f = "\<lambda>ws. Join ws '',''"]) (auto simp: extends_at)

lemma union_cell_extends:
  assumes "extends S S'" "union_cell S t ms" "t \<le> length (in_types S)"
  shows "union_cell S' t ms"
proof -
  have at: "type_at S' m = type_at S m" if "m \<in> set ms" for m
    using assms that by (intro extends_at) (auto simp: union_cell_def)
  have "map (ID_of S') ms = map (ID_of S) ms" by (simp add: at)
  moreover have "base_list S' ms"
    using assms(2) at extends_length [OF assms(1)] by (auto simp: union_cell_def base_list_def plain_def)
  moreover have "reduced S' (set ms)"
    using assms(2) at by (auto simp: union_cell_def reduced_def numeric_def)
  ultimately show ?thesis using assms(2) unfolding union_cell_def by metis
qed

text \<open>A new cell is a union in normal form or none.\<close>

definition new_cell_ok :: "interner \<Rightarrow> Type \<Rightarrow> bool" where
  "new_cell_ok S c \<longleftrightarrow> (has_flag (Flags c) [UnionT] \<longrightarrow> union_cell S (length (in_types S)) (ty_Types c))"

definition key_ok :: "interner \<Rightarrow> string \<Rightarrow> Type \<Rightarrow> bool" where
  "key_ok S k c \<longleftrightarrow>
    (\<forall>f. k = ''i'' @ itoa (uint (f :: TypeFlags)) \<longrightarrow> Flags c = f \<and> \<not> ty_AnyArith c)
    \<and> (\<forall>r. k = ''u'' @ r \<longrightarrow> has_flag (Flags c) [UnionT] \<and> r = ids S (ty_Types c))"

lemma intern_heap:
  assumes inv: "heap_inv S" and c: "new_cell_ok S c" "key_ok S k c"
  shows "heap_inv (snd (intern k c S))"
proof (cases "in_byKey S k")
  case None
  let ?S' = "snd (intern k c S)"
  have ext: "extends S ?S'" by (rule intern_extends)
  have new: "type_at ?S' (length (in_types S)) = c\<lparr>ty_ID := in_next S + 1\<rparr>"
    by (simp add: intern_miss [OF None] type_at_def)
  have keys: "in_byKey ?S' = (in_byKey S)(k \<mapsto> length (in_types S))" by (simp add: intern_miss [OF None])
  have len: "length (in_types ?S') = Suc (length (in_types S))" by (simp add: intern_miss [OF None])
  have "union_cell ?S' t (ty_Types (type_at ?S' t))"
    if "t < length (in_types ?S')" "has_flag (Flags (type_at ?S' t)) [UnionT]" for t
  proof (cases "t < length (in_types S)")
    case True
    then show ?thesis
      using heap_invD(2) [OF inv True] that extends_at [OF ext True] union_cell_extends [OF ext] by simp
  next
    case False
    with that len have t: "t = length (in_types S)" by simp
    then show ?thesis
      using c(1) that(2) new union_cell_extends [OF ext, of t "ty_Types c"] by (simp add: new_cell_ok_def)
  qed
  moreover have "Flags (type_at ?S' t) = f \<and> \<not> ty_AnyArith (type_at ?S' t)"
    if look: "in_byKey ?S' (''i'' @ itoa (uint f)) = Some t" for f t
  proof (cases "k = ''i'' @ itoa (uint f)")
    case True
    with look keys have "t = length (in_types S)" by simp
    with new c(2) True show ?thesis by (simp add: key_ok_def)
  next
    case False
    with look keys have old: "in_byKey S (''i'' @ itoa (uint f)) = Some t" by simp
    then have "t < length (in_types S)" using table_invD(1) [OF heap_invD(1) [OF inv]] by blast
    then show ?thesis using heap_invD(3,4) [OF inv old] extends_at [OF ext] by simp
  qed
  moreover have "has_flag (Flags (type_at ?S' t)) [UnionT] \<and> r = ids ?S' (ty_Types (type_at ?S' t))"
    if look: "in_byKey ?S' (''u'' @ r) = Some t" for r t
  proof (cases "k = ''u'' @ r")
    case True
    with look keys have t: "t = length (in_types S)" by simp
    from c(2) True have u: "has_flag (Flags c) [UnionT]" "r = ids S (ty_Types c)" by (auto simp: key_ok_def)
    then have "set (ty_Types c) \<subseteq> {..<length (in_types S)}"
      using c(1) by (simp add: new_cell_ok_def union_cell_def)
    then show ?thesis using u ids_extends [OF ext] new t by simp
  next
    case False
    with look keys have old: "in_byKey S (''u'' @ r) = Some t" by simp
    then have t: "t < length (in_types S)" using table_invD(1) [OF heap_invD(1) [OF inv]] by blast
    have u: "has_flag (Flags (type_at S t)) [UnionT]" "r = ids S (ty_Types (type_at S t))"
      using heap_invD(5,6) [OF inv old] by auto
    then have "set (ty_Types (type_at S t)) \<subseteq> {..<length (in_types S)}"
      using heap_invD(2) [OF inv t] t by (auto simp: union_cell_def)
    then show ?thesis using u extends_at [OF ext t] ids_extends [OF ext] by simp
  qed
  ultimately show ?thesis using intern_inv [OF heap_invD(1) [OF inv]] by (simp add: heap_inv_def)
qed (simp add: intern_hit inv)

lemma intrinsic_at:
  assumes inv: "heap_inv S"
  shows "Flags (type_at (snd (intrinsic f S)) (fst (intrinsic f S))) = f
    \<and> \<not> ty_AnyArith (type_at (snd (intrinsic f S)) (fst (intrinsic f S)))
    \<and> fst (intrinsic f S) < length (in_types (snd (intrinsic f S)))"
proof (cases "in_byKey S (''i'' @ itoa (uint f))")
  case None
  then show ?thesis by (simp add: intrinsic_def intern_miss type_at_def zero_type_def)
next
  case (Some t)
  then show ?thesis
    using heap_invD [OF inv] table_invD(1) [OF heap_invD(1) [OF inv]] by (simp add: intrinsic_def intern_hit)
qed

lemma intrinsic_heap:
  assumes "heap_inv S" "\<not> has_flag f [UnionT]"
  shows "heap_inv (snd (intrinsic f S))"
  unfolding intrinsic_def
  by (rule intern_heap [OF assms(1)])
    (use assms(2) in \<open>auto simp: new_cell_ok_def key_ok_def zero_type_def word_uint_eq_iff\<close>)

lemma intrinsic_extends: "extends S (snd (intrinsic f S))"
  unfolding intrinsic_def by (rule intern_extends)


section \<open>The members\<close>

text \<open>What one argument contributes: a union's members or the type itself, never \<open>never\<close>.\<close>

definition parts :: "interner \<Rightarrow> ty \<Rightarrow> ty set" where
  "parts S t =
    (if has_flag (Flags (type_at S t)) [UnionT] then set (ty_Types (type_at S t))
     else if has_flag (Flags (type_at S t)) [NeverT] then {} else {t})"

definition flat_set :: "interner \<Rightarrow> ty option list \<Rightarrow> ty set" where
  "flat_set S ts = (\<Union>t\<in>{t. Some t \<in> set ts}. parts S t)"

lemma flat_set_simps [simp]:
  "flat_set S [] = {}" "flat_set S (None # ts) = flat_set S ts"
  "flat_set S (Some t # ts) = parts S t \<union> flat_set S ts"
  by (auto simp: flat_set_def)

lemma union_add_plain:
  "plain S m \<Longrightarrow> union_add (Suc n) S m ms = (if m \<in> set ms then ms else ms @ [m])"
  by (simp add: plain_def)

lemma union_add_fold:
  assumes "\<forall>m\<in>set xs. plain S m" "base_list S ms"
  shows "base_list S (fold (union_add (Suc n) S) xs ms) \<and> set (fold (union_add (Suc n) S) xs ms) = set ms \<union> set xs"
  using assms
proof (induction xs arbitrary: ms)
  case (Cons x xs)
  have "base_list S (union_add (Suc n) S x ms) \<and> set (union_add (Suc n) S x ms) = insert x (set ms)"
    using Cons.prems union_add_plain [of S x n ms] by (auto simp: base_list_def)
  with Cons show ?case by (simp del: union_add.simps)
qed simp

text \<open>A fuel of two is enough: the members of a union are no unions.\<close>

lemma union_add_parts:
  assumes inv: "heap_inv S" and t: "t < length (in_types S)" "\<not> has_flag (Flags (type_at S t)) [AnyT]"
    and ms: "base_list S ms"
  shows "base_list S (union_add (Suc (Suc n)) S t ms) \<and> set (union_add (Suc (Suc n)) S t ms) = set ms \<union> parts S t"
proof (cases "has_flag (Flags (type_at S t)) [UnionT]")
  case True
  have "\<forall>m\<in>set (ty_Types (type_at S t)). plain S m"
    using heap_invD(2) [OF inv t(1) True] by (simp add: union_cell_def base_list_def)
  from union_add_fold [OF this ms, of n] True show ?thesis
    by (simp add: parts_def del: union_add.simps(2)) (simp add: union_add.simps(2) [of "Suc n"])
next
  case False
  then show ?thesis using t ms by (auto simp: parts_def base_list_def plain_def)
qed

definition args_ok :: "interner \<Rightarrow> ty option list \<Rightarrow> bool" where
  "args_ok S ts \<longleftrightarrow> (\<forall>t. Some t \<in> set ts \<longrightarrow> t < length (in_types S) \<and> \<not> has_flag (Flags (type_at S t)) [AnyT])"

lemma union_members_flat:
  assumes inv: "heap_inv S"
  shows "args_ok S ts \<Longrightarrow> base_list S ms \<Longrightarrow>
    \<exists>out. union_members S ts ms = Inr out \<and> base_list S out \<and> set out = set ms \<union> flat_set S ts"
proof (induction ts arbitrary: ms)
  case (Cons a ts)
  have ts: "args_ok S ts" using Cons.prems(1) by (auto simp: args_ok_def)
  show ?case
  proof (cases a)
    case None
    then show ?thesis using Cons.IH [OF ts Cons.prems(2)] by simp
  next
    case (Some t)
    then have t: "t < length (in_types S)" "\<not> has_flag (Flags (type_at S t)) [AnyT]"
      using Cons.prems(1) by (auto simp: args_ok_def)
    then obtain n where n: "length (in_types S) = Suc n" by (cases "length (in_types S)") auto
    have add: "base_list S (union_add (Suc (Suc n)) S t ms)"
      "set (union_add (Suc (Suc n)) S t ms) = set ms \<union> parts S t"
      using union_add_parts [OF inv t Cons.prems(2), of n] by auto
    from Cons.IH [OF ts add(1)] add(2) Some t n show ?thesis by (auto simp del: union_add.simps)
  qed
qed simp

section \<open>The reduction\<close>

definition absorbed :: "interner \<Rightarrow> ty set \<Rightarrow> ty set" where
  "absorbed S D = {m\<in>D. (\<exists>a\<in>D. ty_AnyArith (type_at S a)) \<longrightarrow> ty_AnyArith (type_at S m) \<or> \<not> numeric S m}"

definition present :: "interner \<Rightarrow> ty set \<Rightarrow> TypeFlags \<Rightarrow> bool" where
  "present S D p \<longleftrightarrow> (\<exists>m\<in>D. has_flag (Flags (type_at S m)) [p])"

definition boolean_value :: "interner \<Rightarrow> ty set \<Rightarrow> string \<Rightarrow> bool" where
  "boolean_value S D v \<longleftrightarrow> (\<exists>m\<in>D. has_flag (Flags (type_at S m)) [BooleanLiteralT] \<and> ty_Value (type_at S m) = v)"

definition both_booleans :: "interner \<Rightarrow> ty set \<Rightarrow> bool" where
  "both_booleans S D \<longleftrightarrow> boolean_value S D ''true'' \<and> boolean_value S D ''false'' \<and> \<not> present S D BooleanT"

definition kept :: "interner \<Rightarrow> ty set \<Rightarrow> ty set" where
  "kept S D = {m\<in>D. primitive_of (Flags (type_at S m)) = 0
     \<or> \<not> (present S D (primitive_of (Flags (type_at S m)))
           \<or> both_booleans S D \<and> primitive_of (Flags (type_at S m)) = BooleanT)}"

text \<open>The set the union of the types \<open>D\<close> stands for, with \<open>b\<close> the type \<open>boolean\<close>.\<close>

definition union_of :: "interner \<Rightarrow> ty set \<Rightarrow> ty \<Rightarrow> ty set" where
  "union_of S D b = kept S (absorbed S D) \<union> (if both_booleans S (absorbed S D) then {b} else {})"

lemma absorb_numbers_set:
  "base_list S ms \<Longrightarrow> base_list S (absorb_numbers S ms) \<and> set (absorb_numbers S ms) = absorbed S (set ms)"
  by (auto simp: absorb_numbers_def absorbed_def base_list_def numeric_def)

lemma has_boolean_set: "has_boolean S v ms \<longleftrightarrow> boolean_value S (set ms) v"
  by (simp add: has_boolean_def boolean_value_def)

lemma BooleanT_primitive: "BooleanT \<in> Primitives"
  by (simp add: Primitives_def)

lemma present_primitives: "p \<in> Primitives \<Longrightarrow> has_flag (primitives S ms) [p] \<longleftrightarrow> present S (set ms) p"
  by (simp add: primitives_flag present_def)

definition reduced_state :: "interner \<Rightarrow> ty set \<Rightarrow> interner" where
  "reduced_state S D = (if both_booleans S D then snd (intrinsic BooleanT S) else S)"

lemma BooleanT_only: "p \<in> Primitives \<Longrightarrow> has_flag BooleanT [p] \<longleftrightarrow> p = BooleanT"
  by (auto simp: Primitives_def has_flag_def type_flag_defs)

lemma reduceLiterals_set:
  assumes inv: "heap_inv S" and ms: "base_list S ms" and out: "reduceLiterals ms S = (out, S')"
  shows "S' = reduced_state S (set ms)
    \<and> set out = kept S (set ms) \<union> (if both_booleans S (set ms) then {fst (intrinsic BooleanT S)} else {})
    \<and> distinct out"
proof -
  have both: "has_boolean S ''true'' ms \<and> has_boolean S ''false'' ms \<and> \<not> has_flag (primitives S ms) [BooleanT]
      \<longleftrightarrow> both_booleans S (set ms)"
    by (simp add: both_booleans_def has_boolean_set present_primitives BooleanT_primitive)
  let ?f = "\<lambda>m. primitive_of (Flags (type_at S m))"
  have prim: "?f m \<noteq> 0 \<Longrightarrow> ?f m \<in> Primitives" for m
    using primitive_of_cases by blast
  show ?thesis
  proof (cases "both_booleans S (set ms)")
    case False
    then have "S' = S" "out = filter (\<lambda>m. ?f m = 0 \<or> \<not> has_flag (primitives S ms) [?f m]) ms"
      using out both by (auto simp: reduceLiterals_def Let_def)
    then show ?thesis
      using False ms prim by (auto simp: reduced_state_def kept_def base_list_def present_primitives)
  next
    case True
    let ?b = "fst (intrinsic BooleanT S)" and ?S = "snd (intrinsic BooleanT S)"
    have at: "type_at ?S m = type_at S m" if "m \<in> set ms" for m
      using extends_at [OF intrinsic_extends] ms that by (simp add: base_list_def plain_def)
    have b: "Flags (type_at ?S ?b) = BooleanT" using intrinsic_at [OF inv] by blast
    have new: "?b \<notin> set ms"
      using True at b BooleanT_flags(5) by (auto simp: both_booleans_def present_def)
    define g where "g = (\<lambda>m. primitive_of (Flags (type_at ?S m)) = 0
        \<or> \<not> has_flag (Bit_Operations.or (primitives S ms) BooleanT) [primitive_of (Flags (type_at ?S m))])"
    obtain b1 S1 where intr: "intrinsic BooleanT S = (b1, S1)" by fastforce
    then have "S' = ?S" "out = filter g (ms @ [?b])"
      using out both True unfolding g_def by (auto simp: reduceLiterals_def Let_def)
    moreover have "g ?b" by (simp add: g_def b BooleanT_flags)
    moreover have "g m \<longleftrightarrow> ?f m = 0 \<or> \<not> (present S (set ms) (?f m) \<or> ?f m = BooleanT)" if "m \<in> set ms" for m
      using prim [of m] by (auto simp: g_def at [OF that] has_flag_or present_primitives BooleanT_only)
    ultimately show ?thesis
      using True ms new by (auto simp: reduced_state_def kept_def base_list_def)
  qed
qed

lemma reduced_state_facts:
  assumes "heap_inv S"
  shows "heap_inv (reduced_state S D)" "extends S (reduced_state S D)"
  using intrinsic_heap [OF assms, of BooleanT] intrinsic_extends [of S BooleanT]
  by (simp_all add: reduced_state_def BooleanT_flags assms)

lemma union_of_reduced:
  assumes inv: "heap_inv S" and D: "\<forall>m\<in>D. plain S m" "\<forall>m\<in>D. \<not> has_flag (Flags (type_at S m)) [UnknownT]"
  defines "R \<equiv> union_of S D (fst (intrinsic BooleanT S))" and "S' \<equiv> reduced_state S (absorbed S D)"
  shows "reduced S' R \<and> (\<forall>m\<in>R. plain S' m)"
proof -
  let ?A = "absorbed S D" and ?b = "fst (intrinsic BooleanT S)"
  have A: "?A \<subseteq> D" by (auto simp: absorbed_def)
  have ext: "extends S S'" using reduced_state_facts [OF inv] by (simp add: S'_def)
  have at: "type_at S' m = type_at S m" if "m \<in> ?A" for m
    using extends_at [OF ext] A D(1) that by (auto simp: plain_def)
  have b: "Flags (type_at S' ?b) = BooleanT \<and> \<not> ty_AnyArith (type_at S' ?b) \<and> ?b < length (in_types S')"
    if "both_booleans S ?A" using intrinsic_at [OF inv, of BooleanT] that by (simp add: S'_def reduced_state_def)
  have b_new: "?b \<notin> ?A" if "both_booleans S ?A"
    using that at b BooleanT_flags(5) by (auto simp: both_booleans_def present_def)
  have R: "m \<in> ?A \<or> (m = ?b \<and> both_booleans S ?A)" if "m \<in> R" for m
    using that by (auto simp: R_def union_of_def kept_def split: if_splits)
  have "plain S' m" if "m \<in> R" for m
    using R [OF that]
  proof
    assume m: "m \<in> ?A"
    then have "plain S m" using A D(1) by blast
    then show ?thesis using at [OF m] extends_length [OF ext] by (simp add: plain_def)
  next
    assume "m = ?b \<and> both_booleans S ?A"
    then show ?thesis using b by (simp add: plain_def BooleanT_flags)
  qed
  moreover have "\<not> has_flag (Flags (type_at S' m)) [UnknownT]" if "m \<in> R" for m
    using R [OF that] at A D(2) b by (auto simp: BooleanT_flags)
  moreover have "ty_AnyArith (type_at S' m) \<or> \<not> numeric S' m"
    if "a \<in> R" "m \<in> R" "ty_AnyArith (type_at S' a)" for a m
  proof -
    have "a \<in> ?A" using R [OF that(1)] that(3) b by auto
    then have "ty_AnyArith (type_at S a)" "a \<in> D" using at that(3) A by auto
    then show ?thesis
      using R [OF that(2)] at b by (auto simp: absorbed_def numeric_def BooleanT_flags)
  qed
  moreover have "\<not> has_flag (Flags (type_at S' q)) [primitive_of (Flags (type_at S' m))]"
    if m: "m \<in> R" and q: "q \<in> R" and lit: "primitive_of (Flags (type_at S' m)) \<noteq> 0" for m q
  proof -
    have mA: "m \<in> ?A" using R [OF m] lit b by (auto simp: BooleanT_flags)
    then have k: "\<not> present S ?A (primitive_of (Flags (type_at S m)))"
      "\<not> (both_booleans S ?A \<and> primitive_of (Flags (type_at S m)) = BooleanT)"
      using m lit at b_new by (auto simp: R_def union_of_def kept_def split: if_splits)
    have "primitive_of (Flags (type_at S m)) \<in> Primitives"
      using lit at [OF mA] primitive_of_cases by metis
    then show ?thesis
      using R [OF q] k at [OF mA] at b by (auto simp: present_def BooleanT_only)
  qed
  ultimately show ?thesis by (simp add: reduced_def)
qed

end
