(* ===== verification/TypeTextProps.thy ===== *)
theory TypeTextProps
  imports TypeText UnionFacts NameFacts
begin

text \<open>
  When printing a type returns: exactly when no cycle of printed types can be reached from it.
\<close>

section \<open>Outcomes that are decided\<close>

text \<open>\<open>settles r h\<close>: the outcome \<open>r\<close> does not panic, and it is out of fuel just when \<open>h\<close> holds.\<close>

definition settles :: "'a outcome \<Rightarrow> bool \<Rightarrow> bool" where
  "settles r h \<longleftrightarrow> (if h then r = None else \<exists>x. r = Some (Inr x))"

named_theorems settling \<open>when the outcome of a step settles\<close>

lemma settles_returns [settling]: "settles (returns x) False"
  by (simp add: settles_def returns_def)

lemma settles_then [settling]:
  "settles r h \<Longrightarrow> (\<And>x. settles (f x) k) \<Longrightarrow> settles (and_then r f) (h \<or> k)"
  by (auto simp: settles_def and_then_def split: if_splits)

lemma settles_then_returns: "settles r h \<Longrightarrow> (\<And>x. settles (f x) False) \<Longrightarrow> settles (and_then r f) h"
  using settles_then [of r h f False] by simp

lemma settles_also [settling]: "settles r h \<Longrightarrow> settles (also_text s r) h"
  by (auto simp: settles_def also_text_def and_then_def returns_def split: if_splits)

lemma settles_each:
  "(\<And>x. x \<in> set xs \<Longrightarrow> settles (f x) (h x)) \<Longrightarrow> settles (for_each f xs) (\<exists>x\<in>set xs. h x)"
proof (induction xs)
  case Nil
  then show ?case by (simp add: settles_returns)
next
  case (Cons x xs)
  have "settles (for_each f (x # xs)) (h x \<or> (\<exists>x\<in>set xs. h x) \<or> False)"
    unfolding for_each.simps by (intro settles_then settles_returns Cons.IH Cons.prems) auto
  then show ?case by simp
qed

lemma settles_cong: "settles r h \<Longrightarrow> h = k \<Longrightarrow> settles r k"
  by simp

section \<open>What a cell's text prints\<close>

text \<open>The cells whose text is one name or word.\<close>

definition word_flags :: "TypeFlags list" where
  "word_flags = [AnyT, UnknownT, StringT, NumberT, BooleanT, BigIntT, ESSymbolT, VoidT, UndefinedT, NullT, NeverT,
     NonPrimitiveT, StringLiteralT, NumberLiteralT, BooleanLiteralT, BigIntLiteralT, IntT, Float32T, DeferredT, TypeParamT]"

definition list_of :: "'a option \<Rightarrow> 'a list" where
  "list_of p = (case p of None \<Rightarrow> [] | Some x \<Rightarrow> [x])"

lemma set_list_of [simp]: "set (list_of p) = set_option p"
  by (auto simp: list_of_def split: option.splits)

definition object_shown :: "Type \<Rightarrow> ty list" where
  "object_shown c = list_of (ty_StringIndex c) @ list_of (ty_NumberIndex c) @ map pr_Type (ty_Props c)"

definition function_shown :: "Type \<Rightarrow> ty list" where
  "function_shown c =
    (if ty_Overloads c \<noteq> [] then ty_Overloads c
     else ty_Params c @ list_of (ty_ThisType c) @ ty_TypeParams c
       @ (case ty_Predicate c of Some p \<Rightarrow> list_of (pd_Type p) | None \<Rightarrow> list_of (ty_Result c)))"

definition shown :: "Symbol list \<Rightarrow> interner \<Rightarrow> Type \<Rightarrow> ty list" where
  "shown ss S c =
    (case ty_Brand c of
       Some b \<Rightarrow> list_of (ty_BrandBase c) @ [b]
     | None \<Rightarrow>
       if ty_ClassOf c \<noteq> None then []
       else if constructor_type c then ty_Constructs c
       else if has_flag (Flags c) word_flags then []
       else if has_flag (Flags c) [UnionT]
       then filter (\<lambda>m. \<not> whole_enum S (ty_Types c) m \<and> \<not> has_flag (Flags (type_at S m)) [UndefinedT]) (ty_Types c)
       else (case ty_Kind c of
           Array \<Rightarrow> list_of (ty_Elem c)
         | Tuple \<Rightarrow> ty_Elems c
         | Function \<Rightarrow> function_shown c
         | Anonymous \<Rightarrow> if RecursiveAlias ss c then [] else object_shown c
         | Instance \<Rightarrow> if ty_Symbol c \<noteq> None then ty_TypeArgs c else object_shown c
         | Interface \<Rightarrow> if ty_Symbol c \<noteq> None then ty_TypeArgs c else object_shown c))"

text \<open>A heap in which nothing printing follows is missing: every symbol has a name that reads
  back, every pointer a text follows is there, and every type it names is in the heap.\<close>

definition reads_back :: "Symbol list \<Rightarrow> symbol_ptr option \<Rightarrow> bool" where
  "reads_back ss p \<longleftrightarrow> (case p of None \<Rightarrow> False | Some sp \<Rightarrow> \<exists>s. symbolName (ss ! sp) = Some (Inr s))"

definition complete_cell :: "Symbol list \<Rightarrow> Type \<Rightarrow> bool" where
  "complete_cell ss c \<longleftrightarrow>
    (ty_Brand c \<noteq> None \<longrightarrow> ty_BrandBase c \<noteq> None)
    \<and> (ty_ClassOf c \<noteq> None \<longrightarrow> reads_back ss (ty_ClassOf c)) \<and> (ty_Symbol c \<noteq> None \<longrightarrow> reads_back ss (ty_Symbol c))
    \<and> (ty_Member c \<noteq> [] \<longrightarrow> ty_Symbol c \<noteq> None)
    \<and> (ty_Kind c = Array \<longrightarrow> ty_Elem c \<noteq> None)
    \<and> (ty_Kind c = Function \<longrightarrow> ty_Result c \<noteq> None)
    \<and> (\<forall>ls. ty_Labels c = Some ls \<longrightarrow> length ls = length (ty_Elems c))"

definition complete_heap :: "Symbol list \<Rightarrow> interner \<Rightarrow> bool" where
  "complete_heap ss S \<longleftrightarrow>
    (\<forall>c\<in>set (in_types S). complete_cell ss c \<and> set (shown ss S c) \<subseteq> {..<length (in_types S)}
      \<and> set (ty_Types c) \<subseteq> {..<length (in_types S)})"

lemma settles_symbol: "reads_back ss p \<Longrightarrow> settles (symbol_text ss p) False"
  by (auto simp: reads_back_def symbol_text_def through_def settles_def split: option.splits)

lemma flag_text_none: "flag_text U ss c = None \<longleftrightarrow> \<not> has_flag (Flags c) word_flags"
  by (simp add: flag_text_def Let_def word_flags_def Literal_masks_def has_flag_Cons)

lemma settles_flag:
  assumes "complete_cell ss c" "flag_text U ss c = Some r"
  shows "settles r False"
proof -
  let ?ok = "\<lambda>q :: string outcome option. \<forall>r. q = Some r \<longrightarrow> settles r False"
  have step: "?ok (if b then Some x else y)" if "b \<Longrightarrow> settles x False" "?ok y" for b x y
    using that by simp
  have "?ok (flag_text U ss c)"
    unfolding flag_text_def Let_def
  proof (intro step settles_returns settles_then_returns settles_symbol)
    assume "has_flag (Flags c) Literal_masks \<and> ty_Member c \<noteq> []"
    then show "reads_back ss (ty_Symbol c)" using assms(1) by (simp add: complete_cell_def)
  next
    show "settles (if ty_Symbol c = None then returns (ty_Value c) else symbol_text ss (ty_Symbol c)) False"
      using assms(1) by (simp add: complete_cell_def settles_returns settles_symbol)
  qed simp
  with assms(2) show ?thesis by simp
qed

lemma settles_union:
  assumes "\<And>m. m \<in> set rest \<Longrightarrow> complete_cell ss (type_at S m)"
    and "\<And>m. m \<in> set rest \<Longrightarrow> \<not> whole_enum S ms m \<Longrightarrow> \<not> has_flag (Flags (type_at S m)) [UndefinedT] \<Longrightarrow>
      settles (print m) (h m)"
  shows "settles (union_parts ss S print ms rest named undef ws tail)
    (\<exists>m\<in>set rest. \<not> whole_enum S ms m \<and> \<not> has_flag (Flags (type_at S m)) [UndefinedT] \<and> h m)"
  using assms
proof (induction rest arbitrary: named undef ws tail)
  case Nil
  then show ?case by (simp add: settles_returns)
next
  case (Cons m rest)
  let ?k = "\<exists>m\<in>set rest. \<not> whole_enum S ms m \<and> \<not> has_flag (Flags (type_at S m)) [UndefinedT] \<and> h m"
  have IH: "settles (union_parts ss S print ms rest n u p t) ?k" for n u p t
    by (rule Cons.IH) (use Cons.prems in auto)
  have name: "whole_enum S ms m \<Longrightarrow> settles (symbol_text ss (ty_Symbol (type_at S m))) False"
    using Cons.prems(1) [of m] by (intro settles_symbol) (auto simp: whole_enum_def complete_cell_def)
  show ?case
  proof (cases "whole_enum S ms m")
    case True
    have "settles (and_then (symbol_text ss (ty_Symbol (type_at S m)))
        (\<lambda>s. union_parts ss S print ms rest n undef (ws @ [s]) tail)) (False \<or> ?k)" for n
      by (intro settles_then name IH True)
    with True IH show ?thesis by (simp add: Let_def)
  next
    case False
    show ?thesis
    proof (cases "has_flag (Flags (type_at S m)) [UndefinedT]")
      case True
      with False IH show ?thesis by (simp add: Let_def)
    next
      case plain: False
      have "settles (and_then (print m) (\<lambda>s. if has_flag (Flags (type_at S m)) [NullT]
          then union_parts ss S print ms rest named undef ws (tail @ [s])
          else union_parts ss S print ms rest named undef (ws @ [s]) tail)) (h m \<or> ?k)"
        using IH by (intro settles_then Cons.prems(2)) (simp_all add: False plain)
      with False plain show ?thesis by (simp add: Let_def)
    qed
  qed
qed

lemma settles_array:
  "ty_Elem c \<noteq> None \<Longrightarrow> (\<And>u. u \<in> set (list_of (ty_Elem c)) \<Longrightarrow> settles (print u) (h u)) \<Longrightarrow>
    settles (array_text S print c) (\<exists>u\<in>set (list_of (ty_Elem c)). h u)"
  unfolding array_text_def through_def
  by (cases "ty_Elem c") (auto intro!: settles_then_returns settles_returns)

lemma ex_enumerate: "(\<exists>x\<in>set (enumerate 0 xs). h (snd x)) = (\<exists>u\<in>set xs. h u)"
proof -
  have "snd ` set (enumerate 0 xs) = set xs" by (metis list.set_map map_snd_enumerate)
  then show ?thesis by (metis (no_types, lifting) image_iff)
qed

lemma settles_tuple:
  assumes "\<And>ls. ty_Labels c = Some ls \<Longrightarrow> length ls = length (ty_Elems c)"
    and "\<And>u. u \<in> set (ty_Elems c) \<Longrightarrow> settles (print u) (h u)"
  shows "settles (tuple_text S print c) (\<exists>u\<in>set (ty_Elems c). h u)"
proof -
  have part: "settles (tuple_part S print c (i, e)) (h e)" if "(i, e) \<in> set (enumerate 0 (ty_Elems c))" for i e
  proof -
    have i: "i < length (ty_Elems c)" "e \<in> set (ty_Elems c)"
      using that by (auto simp: in_set_enumerate_eq)
    show ?thesis
      unfolding tuple_part_def prod.case
      by (rule settles_then_returns)
        (use i assms in \<open>auto simp: settles_returns split: option.splits\<close>)
  qed
  have "settles (for_each (tuple_part S print c) (enumerate 0 (ty_Elems c)))
      (\<exists>x\<in>set (enumerate 0 (ty_Elems c)). h (snd x))"
    by (rule settles_each) (use part in auto)
  then have "settles (tuple_text S print c) ((\<exists>x\<in>set (enumerate 0 (ty_Elems c)). h (snd x)) \<or> False)"
    unfolding tuple_text_def by (intro settles_then settles_returns)
  then show ?thesis by (rule settles_cong) (simp only: ex_enumerate simp_thms)
qed

lemma settles_option:
  "(\<And>t. p = Some t \<Longrightarrow> settles (f t) (h t)) \<Longrightarrow>
    settles (case p of None \<Rightarrow> returns x | Some t \<Rightarrow> f t) (\<exists>t\<in>set (list_of p). h t)"
  by (cases p) (auto simp: settles_returns)

lemma settles_params:
  assumes "\<And>u. u \<in> set (ty_Params c) \<Longrightarrow> settles (print u) (h u)"
  shows "settles (for_each (param_part print c) (enumerate 0 (ty_Params c))) (\<exists>u\<in>set (ty_Params c). h u)"
proof -
  have part: "settles (param_part print c x) (h (snd x))" if "x \<in> set (enumerate 0 (ty_Params c))" for x
  proof -
    obtain i p where x: "x = (i, p)" by fastforce
    have "p \<in> set (ty_Params c)" using that by (auto simp: x in_set_enumerate_eq)
    from assms [OF this] show ?thesis unfolding x param_part_def prod.case Let_def by (simp add: settles_also)
  qed
  have "settles (for_each (param_part print c) (enumerate 0 (ty_Params c)))
      (\<exists>x\<in>set (enumerate 0 (ty_Params c)). h (snd x))"
    by (rule settles_each) (rule part)
  then show ?thesis by (simp only: ex_enumerate)
qed

lemma settles_predicate:
  "(\<And>u. u \<in> set (list_of (pd_Type p)) \<Longrightarrow> settles (print u) (h u)) \<Longrightarrow>
    settles (predicate_text print c p) (\<exists>u\<in>set (list_of (pd_Type p)). h u)"
  unfolding predicate_text_def Let_def
  by (intro settles_then_returns settles_option settles_also settles_returns) simp

lemma settles_result:
  "ty_Result c \<noteq> None \<Longrightarrow> (\<And>u. u \<in> set (list_of (ty_Result c)) \<Longrightarrow> settles (print u) (h u)) \<Longrightarrow>
    settles (through (ty_Result c) print) (\<exists>u\<in>set (list_of (ty_Result c)). h u)"
  by (cases "ty_Result c") (simp_all add: through_def)

lemma settles_function:
  assumes "ty_Result c \<noteq> None" and u: "\<And>u. u \<in> set (function_shown c) \<Longrightarrow> settles (print u) (h u)"
  shows "settles (function_text print c) (\<exists>u\<in>set (function_shown c). h u)"
proof (cases "ty_Overloads c = []")
  case False
  have "settles (for_each print (ty_Overloads c)) (\<exists>u\<in>set (ty_Overloads c). h u)"
    by (rule settles_each) (use False u in \<open>simp add: function_shown_def\<close>)
  then have "settles (function_text print c) (\<exists>u\<in>set (ty_Overloads c). h u)"
    unfolding function_text_def if_P [OF False] by (rule settles_then_returns) (rule settles_returns)
  with False show ?thesis by (simp add: function_shown_def)
next
  case True
  let ?last = "case ty_Predicate c of Some p \<Rightarrow> list_of (pd_Type p) | None \<Rightarrow> list_of (ty_Result c)"
  have shown: "function_shown c = ty_Params c @ list_of (ty_ThisType c) @ ty_TypeParams c @ ?last"
    using True by (simp add: function_shown_def)
  have self: "settles (case ty_ThisType c of None \<Rightarrow> returns ps
      | Some t \<Rightarrow> and_then (print t) (\<lambda>s. returns ((''this: '' @ s) # ps)))
      (\<exists>u\<in>set (list_of (ty_ThisType c)). h u)" for ps
    by (intro settles_option settles_then_returns settles_returns u)
      (simp add: shown list_of_def)
  have generic: "settles (if ty_TypeParams c = [] then returns []
      else and_then (for_each print (ty_TypeParams c)) (\<lambda>names. returns (''<'' @ Join names '', '' @ ''>'')))
      (\<exists>u\<in>set (ty_TypeParams c). h u)"
  proof (cases "ty_TypeParams c = []")
    case False
    have "settles (for_each print (ty_TypeParams c)) (\<exists>u\<in>set (ty_TypeParams c). h u)"
      by (rule settles_each) (use u in \<open>simp add: shown\<close>)
    then show ?thesis unfolding if_not_P [OF False] by (rule settles_then_returns) (rule settles_returns)
  qed (simp add: settles_returns)
  have last: "settles (case ty_Predicate c of Some p \<Rightarrow> predicate_text print c p | None \<Rightarrow> through (ty_Result c) print)
      (\<exists>u\<in>set ?last. h u)"
  proof (cases "ty_Predicate c")
    case None
    then show ?thesis
      using settles_result [OF assms(1), of print h] u by (simp add: shown)
  next
    case (Some p)
    then show ?thesis
      using settles_predicate [of p print h c] u by (simp add: shown)
  qed
  have "settles (function_text print c)
      ((\<exists>u\<in>set (ty_Params c). h u) \<or> (\<exists>u\<in>set (list_of (ty_ThisType c)). h u)
        \<or> (\<exists>u\<in>set (ty_TypeParams c). h u) \<or> (\<exists>u\<in>set ?last. h u))"
    unfolding function_text_def True not_True_eq_False simp_thms if_False
    by (intro settles_then settles_params self generic settles_also last u) (simp add: shown)
  then show ?thesis by (rule settles_cong) (auto simp: shown)
qed

lemma settles_object:
  assumes "\<And>u. u \<in> set (object_shown c) \<Longrightarrow> settles (print u) (h u)"
  shows "settles (object_text print c) (\<exists>u\<in>set (object_shown c). h u)"
proof -
  have index: "settles (index_part print key p) (\<exists>u\<in>set (list_of p). h u)"
    if "set (list_of p) \<subseteq> set (object_shown c)" for key p
    unfolding index_part_def
    by (intro settles_option settles_then_returns settles_returns assms) (use that in auto)
  have parts: "settles (for_each (prop_part print) (ty_Props c)) (\<exists>p\<in>set (ty_Props c). h (pr_Type p))"
    unfolding prop_part_def
    by (intro settles_each settles_then_returns settles_returns assms) (auto simp: object_shown_def)
  let ?rest = "\<exists>p\<in>set (ty_Props c). h (pr_Type p)"
  have rest: "settles (if ty_Props c = [] \<and> strings @ numbers = [] then returns ''{}''
      else and_then (for_each (prop_part print) (ty_Props c)) (\<lambda>parts.
        returns (''{ '' @ Join (strings @ numbers @ parts) '' '' @ '' }''))) ?rest" for strings numbers
  proof (cases "ty_Props c = [] \<and> strings @ numbers = []")
    case True
    then show ?thesis by (simp add: settles_returns)
  next
    case False
    show ?thesis unfolding if_not_P [OF False] by (rule settles_then_returns [OF parts settles_returns])
  qed
  have "settles (object_text print c) ((\<exists>u\<in>set (list_of (ty_StringIndex c)). h u)
      \<or> (\<exists>u\<in>set (list_of (ty_NumberIndex c)). h u) \<or> ?rest)"
    unfolding object_text_def by (intro settles_then index rest) (auto simp: object_shown_def)
  then show ?thesis by (rule settles_cong) (auto simp: object_shown_def)
qed

lemma settles_nominal:
  assumes "reads_back ss (ty_Symbol c)" "\<And>u. u \<in> set (ty_TypeArgs c) \<Longrightarrow> settles (print u) (h u)"
  shows "settles (nominal_text ss print c) (\<exists>u\<in>set (ty_TypeArgs c). h u)"
proof (cases "ty_TypeArgs c = []")
  case True
  then show ?thesis using settles_symbol [OF assms(1)] by (simp add: nominal_text_def)
next
  case False
  show ?thesis
    unfolding nominal_text_def if_not_P [OF False]
    by (intro settles_then_returns settles_each assms(2) settles_symbol [OF assms(1)] settles_returns)
qed

lemma settles_kind:
  assumes "complete_cell ss c"
    and "\<And>u. u \<in> set (case ty_Kind c of Array \<Rightarrow> list_of (ty_Elem c) | Tuple \<Rightarrow> ty_Elems c
         | Function \<Rightarrow> function_shown c | Anonymous \<Rightarrow> if RecursiveAlias ss c then [] else object_shown c
         | Instance \<Rightarrow> if ty_Symbol c \<noteq> None then ty_TypeArgs c else object_shown c
         | Interface \<Rightarrow> if ty_Symbol c \<noteq> None then ty_TypeArgs c else object_shown c) \<Longrightarrow> settles (print u) (h u)"
      (is "\<And>u. u \<in> set ?shown \<Longrightarrow> _")
  shows "settles (kind_text ss S print c) (\<exists>u\<in>set ?shown. h u)"
proof (cases "ty_Kind c")
  case Array
  then show ?thesis
    using settles_array [of c print h S] assms by (simp add: kind_text_def complete_cell_def)
next
  case Tuple
  then show ?thesis
    using settles_tuple [of c print h S] assms by (simp add: kind_text_def complete_cell_def)
next
  case Function
  then show ?thesis
    using settles_function [of c print h] assms by (simp add: kind_text_def complete_cell_def)
next
  case Anonymous
  have "reads_back ss (ty_Symbol c)" if "RecursiveAlias ss c"
    using that assms(1) by (auto simp: RecursiveAlias_def complete_cell_def split: option.splits)
  then show ?thesis
    using Anonymous settles_object [of c print h] assms(2) by (simp add: kind_text_def settles_symbol)
next
  case Instance
  then show ?thesis
    using settles_object [of c print h] settles_nominal [of ss c print h] assms
    by (simp add: kind_text_def complete_cell_def)
next
  case Interface
  then show ?thesis
    using settles_object [of c print h] settles_nominal [of ss c print h] assms
    by (simp add: kind_text_def complete_cell_def)
qed

lemma settles_text:
  assumes "complete_cell ss c" "\<And>m. m \<in> set (ty_Types c) \<Longrightarrow> complete_cell ss (type_at S m)"
    and u: "\<And>u. u \<in> set (shown ss S c) \<Longrightarrow> settles (print u) (h u)"
  shows "settles (type_text U ss S print c) (\<exists>u\<in>set (shown ss S c). h u)"
proof (cases "ty_Brand c")
  case (Some b)
  then obtain a where a: "ty_BrandBase c = Some a" using assms(1) by (auto simp: complete_cell_def)
  have "settles (and_then (print a) (\<lambda>s. also_text (s @ '' & '') (print b))) (h a \<or> h b)"
    by (intro settles_then settles_also u) (simp_all add: shown_def Some a list_of_def)
  then show ?thesis by (simp add: type_text_def shown_def Some a through_def list_of_def)
next
  case plain: None
  show ?thesis
  proof (cases "ty_ClassOf c = None")
    case False
    then show ?thesis
      using assms(1) by (simp add: type_text_def shown_def plain complete_cell_def settles_also settles_symbol)
  next
    case no_class: True
    show ?thesis
    proof (cases "constructor_type c")
      case True
      then obtain f where f: "ty_Constructs c = [f]" by (auto simp: constructor_type_def length_Suc_conv)
      then show ?thesis
        using u True by (simp add: type_text_def shown_def plain no_class settles_also)
    next
      case no_new: False
      show ?thesis
      proof (cases "has_flag (Flags c) word_flags")
        case True
        then obtain r where "flag_text U ss c = Some r" using flag_text_none [of U ss c] by fastforce
        then show ?thesis
          using settles_flag [OF assms(1)] True by (simp add: type_text_def shown_def plain no_class no_new)
      next
        case False
        then have word: "flag_text U ss c = None" by (simp add: flag_text_none)
        show ?thesis
        proof (cases "has_flag (Flags c) [UnionT]")
          case True
          have "settles (union_parts ss S print (ty_Types c) (ty_Types c) [] False [] [])
              (\<exists>m\<in>set (ty_Types c). \<not> whole_enum S (ty_Types c) m
                \<and> \<not> has_flag (Flags (type_at S m)) [UndefinedT] \<and> h m)"
            by (rule settles_union)
              (use assms(2) u in \<open>simp_all add: shown_def plain no_class no_new False True\<close>)
          from settles_then_returns [OF this settles_returns, of "\<lambda>parts. Join parts '' | ''"] show ?thesis
            using False True by (simp add: type_text_def shown_def plain no_class no_new word conj_assoc Bex_def)
        next
          case no_union: False
          show ?thesis
            using settles_kind [OF assms(1), of print h S] u False
            by (simp add: type_text_def shown_def plain no_class no_new word no_union)
        qed
      qed
    qed
  qed
qed

section \<open>Properties\<close>

text \<open>The graph of printing: a type and the types its text prints.\<close>

definition prints :: "Symbol list \<Rightarrow> interner \<Rightarrow> (ty \<times> ty) set" where
  "prints ss S = {(t, u). t < length (in_types S) \<and> u \<in> set (shown ss S (type_at S t))}"

lemma complete_heapD:
  assumes "complete_heap ss S" "t < length (in_types S)"
  shows "complete_cell ss (type_at S t)"
    and "u \<in> set (shown ss S (type_at S t)) \<Longrightarrow> u < length (in_types S)"
    and "m \<in> set (ty_Types (type_at S t)) \<Longrightarrow> m < length (in_types S)"
proof -
  have "type_at S t \<in> set (in_types S)" using assms(2) by (simp add: type_at_def)
  then show "complete_cell ss (type_at S t)"
    and "u \<in> set (shown ss S (type_at S t)) \<Longrightarrow> u < length (in_types S)"
    and "m \<in> set (ty_Types (type_at S t)) \<Longrightarrow> m < length (in_types S)"
    using assms(1) by (auto simp: complete_heap_def)
qed

lemma String_settles:
  assumes "complete_heap ss S" "t < length (in_types S)"
  shows "settles (Type_String U ss S n t) (Type_String U ss S n t = None)"
  using assms(2)
proof (induction n arbitrary: t)
  case (Suc n)
  note heap = complete_heapD [OF assms(1)]
  have "settles (Type_String U ss S (Suc n) t) (\<exists>u\<in>set (shown ss S (type_at S t)). Type_String U ss S n u = None)"
    unfolding Type_String.simps
    by (rule settles_text [OF heap(1) heap(1) Suc.IH]) (erule heap(2,3) [OF Suc.prems] | rule Suc.prems)+
  then show ?case by (auto simp: settles_def split: if_splits)
qed (simp add: settles_def)

lemma String_step:
  assumes "complete_heap ss S" "t < length (in_types S)"
  shows "Type_String U ss S (Suc n) t = None \<longleftrightarrow> (\<exists>u. (t, u) \<in> prints ss S \<and> Type_String U ss S n u = None)"
proof -
  note heap = complete_heapD [OF assms(1)]
  have "settles (Type_String U ss S (Suc n) t) (\<exists>u\<in>set (shown ss S (type_at S t)). Type_String U ss S n u = None)"
    unfolding Type_String.simps
    by (rule settles_text [OF heap(1) heap(1) String_settles [OF assms(1)]])
      (erule heap(2,3) [OF assms(2)] | rule assms(2))+
  then show ?thesis using assms(2) by (auto simp: settles_def prints_def split: if_splits)
qed

lemma prints_heap: "complete_heap ss S \<Longrightarrow> (t, u) \<in> prints ss S \<Longrightarrow> t < length (in_types S) \<and> u < length (in_types S)"
  using complete_heapD(2) by (auto simp: prints_def)

lemma String_mono:
  assumes "complete_heap ss S" "t < length (in_types S)" "Type_String U ss S n t \<noteq> None"
  shows "Type_String U ss S (n + k) t \<noteq> None"
  using assms(2,3)
proof (induction n arbitrary: t)
  case (Suc n)
  then show ?case
    using String_step [OF assms(1) Suc.prems(1)] prints_heap [OF assms(1)] by (metis add_Suc)
qed simp

lemma prints_finite: "complete_heap ss S \<Longrightarrow> finite (prints ss S)"
  by (rule finite_subset [of _ "{..<length (in_types S)} \<times> {..<length (in_types S)}"])
    (use prints_heap in auto)

lemma String_cycle:
  assumes "complete_heap ss S" "(u, u) \<in> (prints ss S)\<^sup>+"
  shows "(t, u) \<in> (prints ss S)\<^sup>* \<Longrightarrow> Type_String U ss S n t = None"
proof (induction n arbitrary: t)
  case (Suc n)
  obtain v where v: "(t, v) \<in> prints ss S" "(v, u) \<in> (prints ss S)\<^sup>*"
    using Suc.prems assms(2) by (metis converse_rtranclE tranclD)
  have "t < length (in_types S)" using prints_heap [OF assms(1) v(1)] by simp
  then show ?case using String_step [OF assms(1)] v(1) Suc.IH [OF v(2)] by blast
qed simp

lemma String_returns:
  assumes heap: "complete_heap ss S" and t: "t < length (in_types S)"
    and acyclic: "\<And>u. (t, u) \<in> (prints ss S)\<^sup>* \<Longrightarrow> (u, u) \<notin> (prints ss S)\<^sup>+"
  shows "\<exists>n. Type_String U ss S n t \<noteq> None"
proof -
  let ?R = "prints ss S"
  let ?r = "{(v, u). (t, v) \<in> ?R\<^sup>* \<and> (v, u) \<in> ?R}"
  have sub: "?r \<subseteq> ?R" by auto
  have "acyclic ?r"
    unfolding acyclic_def
  proof (intro allI notI)
    fix u assume u: "(u, u) \<in> ?r\<^sup>+"
    then have "(t, u) \<in> ?R\<^sup>*" by (auto dest: tranclD)
    moreover from u have "(u, u) \<in> ?R\<^sup>+" by (rule trancl_mono) (rule sub)
    ultimately show False using acyclic by blast
  qed
  then have wf: "wf (?r\<inverse>)"
    using finite_subset [OF sub prints_finite [OF heap]] by (rule finite_acyclic_wf_converse [rotated])
  have "(t, v) \<in> ?R\<^sup>* \<Longrightarrow> v < length (in_types S) \<Longrightarrow> \<exists>n. Type_String U ss S n v \<noteq> None" for v
  proof (induction v rule: wf_induct_rule [OF wf])
    case (1 v)
    have "\<exists>n. Type_String U ss S n u \<noteq> None" if "(v, u) \<in> ?R" for u
      using 1 that prints_heap [OF heap that] by (auto intro: rtrancl_into_rtrancl)
    then obtain n where n: "\<And>u. (v, u) \<in> ?R \<Longrightarrow> Type_String U ss S (n u) u \<noteq> None" by metis
    let ?us = "set (shown ss S (type_at S v))"
    have "Type_String U ss S (Suc (Max (n ` ?us))) v \<noteq> None"
    proof
      assume "Type_String U ss S (Suc (Max (n ` ?us))) v = None"
      then obtain u where u: "(v, u) \<in> ?R" "Type_String U ss S (Max (n ` ?us)) u = None"
        using String_step [OF heap 1(3)] by blast
      have "n u \<le> Max (n ` ?us)" using u(1) by (simp add: prints_def)
      then show False
        using String_mono [OF heap _ n [OF u(1)], of "Max (n ` ?us) - n u"] prints_heap [OF heap u(1)] u(2) by simp
    qed
    then show ?case by blast
  qed
  with t show ?thesis by blast
qed

text \<open>C40. When printing a type returns. In a heap that has every type and name a text follows,
  \<open>String\<close> returns a text exactly when no cycle of printed types can be reached from the type,
  and it never panics: the method keeps no record of the types it has entered, so on such a
  cycle it recurses until the stack is gone.\<close>

theorem printing_returns_iff:
  assumes "complete_heap ss S" and "t < length (in_types S)"
  shows "((\<exists>n s. Type_String U ss S n t = Some (Inr s))
      \<longleftrightarrow> (\<nexists>u. (t, u) \<in> (prints ss S)\<^sup>* \<and> (u, u) \<in> (prints ss S)\<^sup>+))
    \<and> (\<nexists>n e. Type_String U ss S n t = Some (Inl e))"
proof -
  have "\<nexists>e. Type_String U ss S n t = Some (Inl e)" for n
    using String_settles [OF assms, of U n] by (auto simp: settles_def split: if_splits)
  moreover have "\<exists>s. Type_String U ss S n t = Some (Inr s)" if "Type_String U ss S n t \<noteq> None" for n
    using String_settles [OF assms, of U n] that by (simp add: settles_def)
  ultimately show ?thesis
    using String_cycle [OF assms(1), of _ t U] String_returns [OF assms, of U] by fastforce
qed

text \<open>What \<open>recursiveLiteralAlias\<close> leaves for the module-level \<open>type C = { new (): C }\<close>: the
  alias's own type, filled with the construct signature whose result it is.\<close>

definition alias_symbols :: "Symbol list" where
  "alias_symbols = [\<lparr>sym_ID = 1, sym_Name = ''C'', sym_Flags = TypeAlias, sym_Declarations = [], sym_Scope = Some 0,
     sym_Implicit = False, sym_Display = []\<rparr>]"

definition alias_heap :: interner where
  "alias_heap =
    (let S = snd (nominal alias_symbols Anonymous 0 [] new_interner);
         S = snd (function_type [] [] False 0 None [] S)
     in S\<lparr>in_types := (in_types S)[0 := (in_types S ! 0)\<lparr>ty_Constructs := [1]\<rparr>]\<rparr>)"

lemma alias_cells:
  "in_types alias_heap =
    [zero_type\<lparr>Flags := ObjectT, ty_Symbol := Some 0, ty_ID := 1, ty_Constructs := [1]\<rparr>,
     zero_type\<lparr>Flags := ObjectT, ty_Kind := Function, ty_Result := Some 0, ty_ID := 2\<rparr>]"
  by (simp add: alias_heap_def nominal_def nominalKey_def function_type_def intern_def new_interner_def Let_def
      zero_type_def split: option.splits)

lemma alias_flags: "\<not> has_flag ObjectT word_flags" "\<not> has_flag ObjectT [UnionT]"
  by (simp_all add: has_flag_Cons word_flags_def has_flag_def type_flag_defs)

lemma alias_shown:
  "shown alias_symbols alias_heap (type_at alias_heap 0) = [1]"
  "shown alias_symbols alias_heap (type_at alias_heap (Suc 0)) = [0]"
  by (simp_all add: type_at_def alias_cells shown_def zero_type_def constructor_type_def alias_flags
      function_shown_def list_of_def)

lemma alias_reads_back: "reads_back alias_symbols (Some 0)"
proof -
  have "\<not> Contains ''C'' moduleSuffix" by (simp add: Contains_def moduleSuffix_def HasPrefix_def)
  then show ?thesis
    by (simp add: reads_back_def alias_symbols_def symbolName_def sourceName_def TrimModuleSuffix_plain)
qed

lemma alias_complete: "complete_heap alias_symbols alias_heap"
proof -
  have "complete_cell alias_symbols (type_at alias_heap 0)" "complete_cell alias_symbols (type_at alias_heap (Suc 0))"
    using alias_reads_back by (simp_all add: complete_cell_def type_at_def alias_cells zero_type_def)
  moreover have "ty_Types (type_at alias_heap 0) = []" "ty_Types (type_at alias_heap (Suc 0)) = []"
    by (simp_all add: type_at_def alias_cells zero_type_def)
  moreover have "set (in_types alias_heap) = {type_at alias_heap 0, type_at alias_heap (Suc 0)}"
    by (simp add: type_at_def alias_cells)
  moreover have "length (in_types alias_heap) = 2" by (simp add: alias_cells)
  ultimately show ?thesis using alias_shown by (simp add: complete_heap_def)
qed

theorem printing_returns_iff_witness:
  "\<nexists>n s. Type_String latin1_tables alias_symbols alias_heap n 0 = Some (Inr s)"
proof -
  have range: "0 < length (in_types alias_heap)" by (simp add: alias_cells)
  have "(0, 1) \<in> prints alias_symbols alias_heap" "(1, 0) \<in> prints alias_symbols alias_heap"
    using alias_shown by (simp_all add: prints_def alias_cells)
  then have "(0, 0) \<in> (prints alias_symbols alias_heap)\<^sup>+" by (meson r_into_trancl trancl_trans)
  then show ?thesis using printing_returns_iff [OF alias_complete range, of latin1_tables] by blast
qed

end
