(* ===== verification/TypeKeys.thy ===== *)
theory TypeKeys
  imports Interning
begin

text \<open>
  The keys the checker interns types by, each constructor with its arguments as a
  \<open>request\<close>, and the proof that no two requests have one key: every key is read back part
  by part, a numeral or a list of numerals ending at the next mark.
\<close>

section \<open>Requests\<close>

datatype request =
    RIntrinsic TypeFlags
  | RAnyNumber
  | RLiteral TypeFlags string
  | RInt int bool
  | RArray ty
  | RTuple "ty list"
  | RLabelled "ty list" int "string list option"
  | RBranded ty ty
  | RFunction "ty list" "bool list" bool ty "Predicate option" "ty list"
  | RNames ty "string list"
  | RResult ty ty
  | RThis ty ty
  | RLiteralThis ty ty
  | RIndexed ty "ty option" "ty option"
  | RSignatures ty "ty list" "ty list"
  | RClass ty "ty option" symbol_ptr
  | RObject "Property list" bool bool
  | RNominal ObjectKind symbol_ptr "ty list"
  | ROverloaded "ty list"
  | RUnion "ty list"

fun run :: "(symbol_ptr \<Rightarrow> string) \<Rightarrow> Symbol list \<Rightarrow> request \<Rightarrow> interner \<Rightarrow> ty \<times> interner" where
  "run addr ss (RIntrinsic f) S = intrinsic f S"
| "run addr ss RAnyNumber S = anyNumber S"
| "run addr ss (RLiteral f v) S = literal f v S"
| "run addr ss (RInt n b) S = intType n b S"
| "run addr ss (RArray t) S = array t S"
| "run addr ss (RTuple ts) S = tuple ts S"
| "run addr ss (RLabelled ts opt ls) S = tupleLabelled ts opt ls S"
| "run addr ss (RBranded t b) S = branded t b S"
| "run addr ss (RFunction ps opts rest res pred tps) S = function_type ps opts rest res pred tps S"
| "run addr ss (RNames t ns) S = withParamNames t ns S"
| "run addr ss (RResult t r) S = withResult t r S"
| "run addr ss (RThis t u) S = withThis t (Some u) S"
| "run addr ss (RLiteralThis t u) S = withLiteralThis t u S"
| "run addr ss (RIndexed t s n) S = indexedOn t s n S"
| "run addr ss (RSignatures t cs ks) S = withSignatures t cs ks S"
| "run addr ss (RClass t c b) S = classValue addr ss t c b S"
| "run addr ss (RObject ps a i) S = objectOf ps a i S"
| "run addr ss (RNominal k b args) S = (fst (fst (nominal ss k b args S)), snd (nominal ss k b args S))"
| "run addr ss (ROverloaded sigs) S = overloaded_type sigs S"
| "run addr ss (RUnion ms) S = union (map Some ms) S"

fun request_key :: "(symbol_ptr \<Rightarrow> string) \<Rightarrow> Symbol list \<Rightarrow> interner \<Rightarrow> request \<Rightarrow> string" where
  "request_key addr ss S (RIntrinsic f) = ''i'' @ itoa (uint f)"
| "request_key addr ss S RAnyNumber = ''anynum''"
| "request_key addr ss S (RLiteral f v) = ''l'' @ itoa (uint f) @ '':'' @ v"
| "request_key addr ss S (RInt n b) = ''n'' @ itoa n @ FormatBool b"
| "request_key addr ss S (RArray t) = ''a'' @ itoa (ID_of S t)"
| "request_key addr ss S (RTuple ts) = ''t'' @ ids S ts"
| "request_key addr ss S (RLabelled ts opt ls) =
     ''t'' @ ids S ts @ ''?'' @ itoa opt @ ''#'' @ Join (case ls of Some ns \<Rightarrow> ns | None \<Rightarrow> []) '',''"
| "request_key addr ss S (RBranded t b) = ''B'' @ itoa (ID_of S t) @ '':'' @ itoa (ID_of S b)"
| "request_key addr ss S (RFunction ps opts rest res pred tps) =
     ''f'' @ ids S ps @ ''>'' @ itoa (ID_of S res) @ ''?'' @ bools opts @ FormatBool rest
       @ ''<'' @ ids S tps @ predicate_key S pred"
| "request_key addr ss S (RNames t ns) = ''n'' @ itoa (ID_of S t) @ '':'' @ Join ns '',''"
| "request_key addr ss S (RResult t r) = ''r'' @ itoa (ID_of S t) @ '':'' @ itoa (ID_of S r)"
| "request_key addr ss S (RThis t u) = ''t'' @ itoa (ID_of S t) @ '':'' @ itoa (ID_of S u)"
| "request_key addr ss S (RLiteralThis t u) = ''T'' @ itoa (ID_of S t) @ '':'' @ itoa (ID_of S u)"
| "request_key addr ss S (RIndexed t s n) = ''x'' @ itoa (ID_of S t) @ opt_ID S ''s'' s @ opt_ID S ''n'' n"
| "request_key addr ss S (RSignatures t cs ks) =
     ''g'' @ itoa (ID_of S t) @ concat (map (\<lambda>t. ''c'' @ itoa (ID_of S t)) cs)
       @ concat (map (\<lambda>t. ''k'' @ itoa (ID_of S t)) ks)"
| "request_key addr ss S (RClass t c b) =
     ''v'' @ itoa (ID_of S t) @ ''|'' @ sym_Name (ss ! b) @ ''|'' @ addr b @ opt_ID S ''k'' c"
| "request_key addr ss S (RObject ps a i) =
     ''o'' @ (if a then [CHR 0x01] else []) @ (if i then [CHR 0x02] else []) @ concat (map (prop_key S) ps)"
| "request_key addr ss S (RNominal k b args) = nominalKey ss k b args S"
| "request_key addr ss S (ROverloaded sigs) = ''o'' @ ids S sigs"
| "request_key addr ss S (RUnion ms) = ''u'' @ ids S ms"

text \<open>An object type is told by the shape of its properties: the rest of a property (its
  visibility, its declaration) is not in the key.\<close>

definition shape :: "Property \<Rightarrow> string \<times> bool \<times> ty \<times> bool \<times> ty option \<times> bool" where
  "shape p = (pr_Name p, pr_Optional p, pr_Type p, pr_Accessor p,
     if pr_Accessor p then pr_Write p else None, pr_Readonly p)"

definition shapes :: "request \<Rightarrow> ((string \<times> bool \<times> ty \<times> bool \<times> ty option \<times> bool) list \<times> bool \<times> bool) option" where
  "shapes r = (case r of RObject ps a i \<Rightarrow> Some (map shape ps, a, i) | _ \<Rightarrow> None)"

definition same_request :: "request \<Rightarrow> request \<Rightarrow> bool" where
  "same_request r q \<longleftrightarrow> (if shapes r = None then r = q else shapes r = shapes q)"

text \<open>What the callers respect: interned types, names without the marks, and the arguments
  for which a constructor does not just give its argument back.\<close>

definition id_ok :: "interner \<Rightarrow> ty \<Rightarrow> bool" where
  "id_ok S t \<longleftrightarrow> t < length (in_types S) \<and> 0 < ID_of S t"

definition name_ok :: "string \<Rightarrow> bool" where
  "name_ok w \<longleftrightarrow> list_all (\<lambda>c. c \<noteq> CHR ''?'' \<and> c \<noteq> CHR '':'' \<and> c \<noteq> CHR 0x01 \<and> c \<noteq> CHR 0x02) w"

definition label_ok :: "string \<Rightarrow> bool" where
  "label_ok w \<longleftrightarrow> w \<noteq> [] \<and> CHR '','' \<notin> set w"

definition opt_ok :: "interner \<Rightarrow> ty option \<Rightarrow> bool" where
  "opt_ok S t \<longleftrightarrow> (case t of None \<Rightarrow> True | Some u \<Rightarrow> id_ok S u)"

definition prop_ok :: "interner \<Rightarrow> Property \<Rightarrow> bool" where
  "prop_ok S p \<longleftrightarrow> name_ok (pr_Name p) \<and> id_ok S (pr_Type p) \<and> opt_ok S (pr_Write p)"

fun request_ok :: "Symbol list \<Rightarrow> interner \<Rightarrow> request \<Rightarrow> bool" where
  "request_ok ss S (RIntrinsic f) \<longleftrightarrow> True"
| "request_ok ss S RAnyNumber \<longleftrightarrow> True"
| "request_ok ss S (RLiteral f v) \<longleftrightarrow> True"
| "request_ok ss S (RInt n b) \<longleftrightarrow> True"
| "request_ok ss S (RArray t) \<longleftrightarrow> id_ok S t"
| "request_ok ss S (RTuple ts) \<longleftrightarrow> list_all (id_ok S) ts"
| "request_ok ss S (RLabelled ts opt ls) \<longleftrightarrow> list_all (id_ok S) ts \<and> 0 \<le> opt \<and> opt \<le> int (length ts)
     \<and> (0 < opt \<or> ls \<noteq> None)
     \<and> (case ls of Some ns \<Rightarrow> length ns = length ts \<and> list_all label_ok ns | None \<Rightarrow> True)"
| "request_ok ss S (RBranded t b) \<longleftrightarrow> id_ok S t \<and> id_ok S b"
| "request_ok ss S (RFunction ps opts rest res pred tps) \<longleftrightarrow>
     list_all (id_ok S) ps \<and> id_ok S res \<and> list_all (id_ok S) tps
     \<and> (case pred of Some p \<Rightarrow> opt_ok S (pd_Type p) | None \<Rightarrow> True)"
| "request_ok ss S (RNames t ns) \<longleftrightarrow> id_ok S t \<and> is_function (type_at S t) \<and> ns \<noteq> []
     \<and> list_all (\<lambda>w. CHR '','' \<notin> set w) ns"
| "request_ok ss S (RResult t r) \<longleftrightarrow> id_ok S t \<and> id_ok S r"
| "request_ok ss S (RThis t u) \<longleftrightarrow> id_ok S t \<and> id_ok S u \<and> is_function (type_at S t)"
| "request_ok ss S (RLiteralThis t u) \<longleftrightarrow> id_ok S t \<and> id_ok S u"
| "request_ok ss S (RIndexed t s n) \<longleftrightarrow> id_ok S t \<and> opt_ok S s \<and> opt_ok S n \<and> (s \<noteq> None \<or> n \<noteq> None)"
| "request_ok ss S (RSignatures t cs ks) \<longleftrightarrow>
     id_ok S t \<and> list_all (id_ok S) cs \<and> list_all (id_ok S) ks \<and> (cs \<noteq> [] \<or> ks \<noteq> [])"
| "request_ok ss S (RClass t c b) \<longleftrightarrow> id_ok S t \<and> opt_ok S c \<and> b < length ss"
| "request_ok ss S (RObject ps a i) \<longleftrightarrow> list_all (prop_ok S) ps"
| "request_ok ss S (RNominal k b args) \<longleftrightarrow> b < length ss \<and> list_all (id_ok S) args"
| "request_ok ss S (ROverloaded sigs) \<longleftrightarrow> list_all (id_ok S) sigs \<and> sigs \<noteq> []"
| "request_ok ss S (RUnion ms) \<longleftrightarrow> list_all (id_ok S) ms"

text \<open>The symbols: the binder numbers them from one (\<open>ScopeProps.declared_symbols_consistent\<close>);
  \<open>%p\<close> prints an address in hexadecimal, and two symbols have two addresses.\<close>

definition symbols_ok :: "(symbol_ptr \<Rightarrow> string) \<Rightarrow> Symbol list \<Rightarrow> bool" where
  "symbols_ok addr ss \<longleftrightarrow> (\<forall>i < length ss. sym_ID (ss ! i) = Suc i) \<and> inj_on addr {..<length ss}
     \<and> (\<forall>i < length ss. list_all (\<lambda>c. c \<noteq> CHR ''|'' \<and> c \<noteq> CHR ''k'') (addr i))"

section \<open>Reading a key back\<close>

definition list_char :: "char \<Rightarrow> bool" where
  "list_char c \<longleftrightarrow> num_char c \<or> c = CHR '',''"

lemma Join_all: "\<forall>w\<in>set ws. list_all P w \<Longrightarrow> list_all P sep \<Longrightarrow> list_all P (Join ws sep)"
proof (induction ws)
  case (Cons w ws)
  then show ?case by (cases "ws = []") (simp_all add: Join_Cons)
qed simp

lemma num_list_char: "list_all num_char w \<Longrightarrow> list_all list_char w"
  by (simp add: list_all_iff list_char_def)

lemma ids_chars: "list_all list_char (ids S ts)"
  unfolding ids_def by (rule Join_all) (auto simp: list_char_def intro: num_list_char itoa_num)

lemma comma_not_num: "\<not> num_char (CHR '','')"
  by (simp add: num_char_def ascii_digit_def)

lemma comma_not_itoa: "CHR '','' \<notin> set (itoa i)"
  using itoa_num [of i] comma_not_num by (auto simp: list_all_iff)

lemma ids_eq: "ids S ts = ids S us \<longleftrightarrow> map (ID_of S) ts = map (ID_of S) us"
proof -
  have "ids S ts = ids S us \<longleftrightarrow> map (\<lambda>t. itoa (ID_of S t)) ts = map (\<lambda>t. itoa (ID_of S t)) us"
    unfolding ids_def by (rule Join_inj) (auto simp: comma_not_itoa)
  also have "\<dots> \<longleftrightarrow> map itoa (map (ID_of S) ts) = map itoa (map (ID_of S) us)" by (simp add: comp_def)
  also have "\<dots> \<longleftrightarrow> map (ID_of S) ts = map (ID_of S) us"
    by (rule inj_map_eq_map) (simp add: inj_on_def)
  finally show ?thesis .
qed

lemma ids_append_eq:
  "stops list_char r \<Longrightarrow> stops list_char s \<Longrightarrow>
    ids S ts @ r = ids S us @ s \<longleftrightarrow> map (ID_of S) ts = map (ID_of S) us \<and> r = s"
  using run_append_eq [OF ids_chars ids_chars] ids_eq by simp

lemma bools_append_eq:
  assumes "stops (\<lambda>c. c = CHR ''0'' \<or> c = CHR ''1'') r" "stops (\<lambda>c. c = CHR ''0'' \<or> c = CHR ''1'') s"
  shows "bools xs @ r = bools ys @ s \<longleftrightarrow> xs = ys \<and> r = s"
proof -
  have run: "list_all (\<lambda>c. c = CHR ''0'' \<or> c = CHR ''1'') (bools zs)" for zs
    by (auto simp: bools_def list_all_iff)
  have "bools xs = bools ys \<longleftrightarrow> xs = ys"
    unfolding bools_def by (rule inj_map_eq_map) (auto simp: inj_on_def)
  with run_append_eq [OF run run assms] show ?thesis by simp
qed

lemma FormatBool_append_eq: "FormatBool a @ r = FormatBool b @ s \<longleftrightarrow> a = b \<and> r = s"
  by (simp add: FormatBool_def)

lemma FormatBool_stops:
  "stops num_char (FormatBool b @ r)" "stops (\<lambda>c. c = CHR ''0'' \<or> c = CHR ''1'') (FormatBool b @ r)"
  by (simp_all add: FormatBool_def num_char_def ascii_digit_def)

lemma mark_stops:
  "c \<in> set '':?>#<!@;|sknctf'' \<Longrightarrow> stops num_char (c # r)"
  "c \<in> set '':?>#<!@;|sknctf'' \<Longrightarrow> stops list_char (c # r)"
  by (auto simp: list_char_def num_char_def ascii_digit_def)

end
