(* ===== verification/KeyReading.thy ===== *)
theory KeyReading
  imports TypeKeys
begin

text \<open>
  Reading an interner key back: which part of it ends where, and so that two requests the
  checker may make have two keys (\<open>request_key_inj\<close>).
\<close>

section \<open>Parts\<close>


lemma num_marks [simp]:
  "\<not> num_char (CHR '':'')" "\<not> num_char (CHR ''?'')" "\<not> num_char (CHR ''>'')" "\<not> num_char (CHR ''#'')"
  "\<not> num_char (CHR ''<'')" "\<not> num_char (CHR ''!'')" "\<not> num_char (CHR ''@'')" "\<not> num_char (CHR '';'')"
  "\<not> num_char (CHR ''|'')" "\<not> num_char (CHR ''s'')" "\<not> num_char (CHR ''k'')" "\<not> num_char (CHR ''n'')"
  "\<not> num_char (CHR ''c'')" "\<not> num_char (CHR ''t'')" "\<not> num_char (CHR ''f'')"
  by (simp_all add: num_char_def ascii_digit_def)

lemma list_marks [simp]:
  "\<not> list_char (CHR '':'')" "\<not> list_char (CHR ''?'')" "\<not> list_char (CHR ''>'')" "\<not> list_char (CHR ''<'')"
  "\<not> list_char (CHR ''!'')" "\<not> list_char (CHR '';'')"
  by (simp_all add: list_char_def)

lemma itoa_head [simp]:
  "\<not> num_char c \<Longrightarrow> c # r \<noteq> itoa i @ s" "\<not> num_char c \<Longrightarrow> itoa i @ s \<noteq> c # r"
  using itoa_num [of i] itoa_nonempty [of i] by (cases "itoa i"; force)+

lemma itoa_head0 [simp]: "\<not> num_char c \<Longrightarrow> c # r \<noteq> itoa i" "\<not> num_char c \<Longrightarrow> itoa i \<noteq> c # r"
  using itoa_head(1) [of c r i "[]"] itoa_head(2) [of c i "[]" r] by simp_all

lemma itoa_alone:
  "stops num_char s \<Longrightarrow> itoa i = itoa j @ s \<longleftrightarrow> i = j \<and> s = []"
  "stops num_char s \<Longrightarrow> itoa j @ s = itoa i \<longleftrightarrow> i = j \<and> s = []"
  using itoa_append_eq [of "[]" s i j] by auto

lemma ids_alone:
  "stops list_char s \<Longrightarrow> ids S ts = ids S us @ s \<longleftrightarrow> map (ID_of S) ts = map (ID_of S) us \<and> s = []"
  "stops list_char s \<Longrightarrow> ids S us @ s = ids S ts \<longleftrightarrow> map (ID_of S) ts = map (ID_of S) us \<and> s = []"
  using ids_append_eq [of "[]" s S ts us] by auto

lemma itoa_ids: "itoa (ID_of S t) = ids S [t]"
  by (simp add: ids_def)

lemmas key_reading = itoa_append_eq itoa_alone ids_append_eq ids_alone ids_eq FormatBool_append_eq

lemma FormatBool_stops' [simp]: "stops num_char (FormatBool b)"
  using FormatBool_stops(1) [of b "[]"] by simp

lemma id_eq: "table_inv S \<Longrightarrow> id_ok S t \<Longrightarrow> id_ok S u \<Longrightarrow> ID_of S t = ID_of S u \<longleftrightarrow> t = u"
  using table_invD(4) by (auto simp: id_ok_def)

lemma ids_ok_eq:
  "table_inv S \<Longrightarrow> list_all (id_ok S) ts \<Longrightarrow> list_all (id_ok S) us \<Longrightarrow>
    map (ID_of S) ts = map (ID_of S) us \<longleftrightarrow> ts = us"
proof (induction ts arbitrary: us)
  case (Cons t ts)
  then show ?case by (cases us) (auto simp: id_eq)
qed auto

lemma opt_ID_stops [simp]: "\<not> num_char c \<Longrightarrow> stops num_char (opt_ID S (c # cs) t)"
  by (simp add: opt_ID_def split: option.splits)

lemma opt_ID_eq:
  assumes "table_inv S" "opt_ok S t" "opt_ok S u" "c = d" "\<not> num_char c"
    "stops num_char r" "stops num_char s"
    "stops (\<lambda>x. x = c) r" "stops (\<lambda>x. x = c) s"
  shows "opt_ID S [c] t @ r = opt_ID S [d] u @ s \<longleftrightarrow> t = u \<and> r = s"
  using assms id_eq [OF assms(1)]
  by (cases t; cases u) (auto simp: opt_ID_def opt_ok_def itoa_append_eq stops_def split: list.splits)

lemma sig_list_eq:
  assumes inv: "table_inv S" and c: "\<not> num_char c"
    and ends: "stops (\<lambda>x. x = c \<or> num_char x) r" "stops (\<lambda>x. x = c \<or> num_char x) s"
  shows "list_all (id_ok S) ts \<Longrightarrow> list_all (id_ok S) us \<Longrightarrow>
    concat (map (\<lambda>t. [c] @ itoa (ID_of S t)) ts) @ r = concat (map (\<lambda>t. [c] @ itoa (ID_of S t)) us) @ s
      \<longleftrightarrow> ts = us \<and> r = s"
proof (induction ts arbitrary: us)
  case Nil
  then show ?case using ends by (cases us) (auto simp: stops_def split: list.splits)
next
  case (Cons t ts)
  have stop: "stops num_char (concat (map (\<lambda>t. [c] @ itoa (ID_of S t)) vs) @ x)"
    if "stops (\<lambda>x. x = c \<or> num_char x) x" for vs x
    using c that by (cases vs) (auto simp: stops_def split: list.splits)
  show ?case
  proof (cases us)
    case Nil
    then show ?thesis using ends Cons.prems by (auto simp: stops_def split: list.splits)
  next
    case (Cons u us')
    then show ?thesis
      using Cons.IH Cons.prems stop [OF ends(1)] stop [OF ends(2)] id_eq [OF inv]
      by (simp add: itoa_append_eq)
  qed
qed

definition name_char :: "char \<Rightarrow> bool" where
  "name_char c \<longleftrightarrow> c \<noteq> CHR ''?'' \<and> c \<noteq> CHR '':''"

lemma name_ok_chars: "name_ok w \<Longrightarrow> list_all name_char w"
  by (simp add: name_ok_def name_char_def list_all_iff)

lemma prop_key_eq:
  assumes inv: "table_inv S" and ok: "prop_ok S p" "prop_ok S q"
  shows "prop_key S p @ r = prop_key S q @ s \<longleftrightarrow> shape p = shape q \<and> r = s"
proof -
  define tl where "tl x y = (if pr_Optional x then ''?'' else []) @ '':'' @ itoa (ID_of S (pr_Type x))
     @ (if pr_Accessor x then ''@'' @ opt_ID S [] (pr_Write x) else [])
     @ (if pr_Readonly x then ''!'' else []) @ '';'' @ y" for x :: Property and y
  have tl: "prop_key S x @ y = pr_Name x @ tl x y" for x y by (simp add: prop_key_def tl_def)
  have stop: "stops name_char (tl x y)" for x y by (simp add: tl_def name_char_def)
  have name: "prop_key S p @ r = prop_key S q @ s \<longleftrightarrow> pr_Name p = pr_Name q \<and> tl p r = tl q s"
    unfolding tl by (rule run_append_eq) (use ok stop in \<open>auto simp: prop_ok_def intro: name_ok_chars\<close>)
  have ids: "ID_of S (pr_Type p) = ID_of S (pr_Type q) \<longleftrightarrow> pr_Type p = pr_Type q"
    using id_eq [OF inv] ok by (simp add: prop_ok_def)
  have writes: "ID_of S t = ID_of S u \<longleftrightarrow> t = u" if "pr_Write p = Some t" "pr_Write q = Some u" for t u
    using id_eq [OF inv] ok that by (simp add: prop_ok_def opt_ok_def)
  have "tl p r = tl q s \<longleftrightarrow> pr_Optional p = pr_Optional q \<and> pr_Type p = pr_Type q
      \<and> pr_Accessor p = pr_Accessor q \<and> (pr_Accessor p \<longrightarrow> pr_Write p = pr_Write q)
      \<and> pr_Readonly p = pr_Readonly q \<and> r = s"
    using ids writes
    by (cases "pr_Write p"; cases "pr_Write q")
      (auto simp: tl_def opt_ID_def itoa_append_eq)
  with name show ?thesis by (auto simp: shape_def)
qed

section \<open>Whole keys\<close>


lemma props_key_eq:
  assumes inv: "table_inv S"
  shows "list_all (prop_ok S) ps \<Longrightarrow> list_all (prop_ok S) qs \<Longrightarrow>
    concat (map (prop_key S) ps) = concat (map (prop_key S) qs) \<longleftrightarrow> map shape ps = map shape qs"
proof (induction ps arbitrary: qs)
  case Nil
  have "prop_key S q \<noteq> []" for q by (simp add: prop_key_def)
  then show ?case by (cases qs) (auto dest: sym [of "[]"])
next
  case (Cons p ps)
  have "prop_key S p \<noteq> []" by (simp add: prop_key_def)
  then show ?case
    using Cons prop_key_eq [OF inv, of p] by (cases qs) auto
qed

lemma props_key_colon: "ps \<noteq> [] \<Longrightarrow> CHR '':'' \<in> set (concat (map (prop_key S) ps))"
  by (cases ps) (auto simp: prop_key_def)

lemma ids_no_colon: "CHR '':'' \<notin> set (ids S ts)" "CHR 0x01 \<notin> set (ids S ts)" "CHR 0x02 \<notin> set (ids S ts)"
  using ids_chars [of S ts] by (auto simp: list_all_iff list_char_def num_char_def ascii_digit_def)

lemma key_head:
  "hd (request_key addr ss S r) =
    (case r of RIntrinsic _ \<Rightarrow> CHR ''i'' | RAnyNumber \<Rightarrow> CHR ''a'' | RLiteral _ _ \<Rightarrow> CHR ''l''
     | RInt _ _ \<Rightarrow> CHR ''n'' | RArray _ \<Rightarrow> CHR ''a'' | RTuple _ \<Rightarrow> CHR ''t'' | RLabelled _ _ _ \<Rightarrow> CHR ''t''
     | RBranded _ _ \<Rightarrow> CHR ''B'' | RFunction _ _ _ _ _ _ \<Rightarrow> CHR ''f'' | RNames _ _ \<Rightarrow> CHR ''n''
     | RResult _ _ \<Rightarrow> CHR ''r'' | RThis _ _ \<Rightarrow> CHR ''t'' | RLiteralThis _ _ \<Rightarrow> CHR ''T''
     | RIndexed _ _ _ \<Rightarrow> CHR ''x'' | RSignatures _ _ _ \<Rightarrow> CHR ''g'' | RClass _ _ _ \<Rightarrow> CHR ''v''
     | RObject _ _ _ \<Rightarrow> CHR ''o'' | RNominal _ _ _ \<Rightarrow> CHR ''s'' | ROverloaded _ \<Rightarrow> CHR ''o''
     | RUnion _ \<Rightarrow> CHR ''u'')"
  by (cases r) (simp_all add: nominalKey_def)

lemma key_tuple_this: "ids S ts @ CHR ''?'' # r \<noteq> itoa (ID_of S t) @ CHR '':'' # s"
  using ids_append_eq [of "CHR ''?'' # r" "CHR '':'' # s" S ts "[t]"] by (simp add: itoa_ids)

lemma key_ids_this: "ids S ts \<noteq> itoa (ID_of S t) @ CHR '':'' # s"
  using ids_no_colon(1) [of S ts] by (metis in_set_conv_decomp)

lemma kind_number_inj [simp]: "kind_number k = kind_number l \<longleftrightarrow> k = l"
  by (cases k; cases l) simp_all

lemma predicate_key_eq:
  assumes "table_inv S"
    and "case p of Some x \<Rightarrow> opt_ok S (pd_Type x) | None \<Rightarrow> True"
    and "case q of Some x \<Rightarrow> opt_ok S (pd_Type x) | None \<Rightarrow> True"
  shows "predicate_key S p = predicate_key S q \<longleftrightarrow> p = q"
proof (cases p; cases q)
  fix a b assume p: "p = Some a" and q: "q = Some b"
  have "a = b \<longleftrightarrow> pd_Index a = pd_Index b \<and> pd_Asserts a = pd_Asserts b \<and> pd_Type a = pd_Type b"
    by (cases a; cases b) auto
  then show ?thesis
    using assms p q id_eq [OF assms(1)]
    by (cases "pd_Type a"; cases "pd_Type b")
      (auto simp: predicate_key_def opt_ok_def itoa_append_eq FormatBool_append_eq FormatBool_def
        split: if_splits)
qed (auto simp: predicate_key_def)

lemma predicate_key_stops: "stops list_char (predicate_key S p)"
  by (simp add: predicate_key_def split: option.splits)

lemma labels_eq:
  assumes "case l of Some ns \<Rightarrow> length ns = n \<and> list_all label_ok ns | None \<Rightarrow> True"
    and "case m of Some ns \<Rightarrow> length ns = n \<and> list_all label_ok ns | None \<Rightarrow> True"
    and "l = None \<Longrightarrow> 0 < n" and "m = None \<Longrightarrow> 0 < n"
  shows "Join (case l of Some ns \<Rightarrow> ns | None \<Rightarrow> []) '','' = Join (case m of Some ns \<Rightarrow> ns | None \<Rightarrow> []) '',''
    \<longleftrightarrow> l = m"
proof -
  have ok: "\<forall>w\<in>set (case k of Some ns \<Rightarrow> ns | None \<Rightarrow> []). w \<noteq> [] \<and> CHR '','' \<notin> set w"
    if "case k of Some ns \<Rightarrow> length ns = n \<and> list_all label_ok ns | None \<Rightarrow> True" for k
    using that by (auto simp: label_ok_def list_all_iff split: option.splits)
  show ?thesis
    unfolding Join_inj [OF ok [OF assms(1)] ok [OF assms(2)]]
    using assms by (auto split: option.splits)
qed

lemma names_eq:
  assumes "ns \<noteq> []" "ms \<noteq> []" "list_all (\<lambda>w. CHR '','' \<notin> set w) ns" "list_all (\<lambda>w. CHR '','' \<notin> set w) ms"
  shows "Join ns '','' = Join ms '','' \<longleftrightarrow> ns = ms"
  using assms Split_Join [of ns "CHR '',''"] Split_Join [of ms "CHR '',''"] by (metis list_all_iff)

lemma class_key_eq:
  assumes inv: "table_inv S" and ss: "symbols_ok addr ss" and b: "b < length ss" "d < length ss"
    and c: "opt_ok S c" "opt_ok S e"
  shows "sym_Name (ss ! b) @ CHR ''|'' # addr b @ opt_ID S ''k'' c
      = sym_Name (ss ! d) @ CHR ''|'' # addr d @ opt_ID S ''k'' e \<longleftrightarrow> b = d \<and> c = e"
proof
  assume eq: "sym_Name (ss ! b) @ CHR ''|'' # addr b @ opt_ID S ''k'' c
      = sym_Name (ss ! d) @ CHR ''|'' # addr d @ opt_ID S ''k'' e"
  have no_bar: "list_all (\<lambda>x. x \<noteq> CHR ''|'') (addr i @ opt_ID S ''k'' x)" if "i < length ss" for i x
  proof -
    have "CHR ''|'' \<notin> set (itoa n)" for n
      using itoa_num [of n] by (auto simp: list_all_iff)
    then show ?thesis
      using ss that by (auto simp: symbols_ok_def list_all_iff opt_ID_def split: option.splits)
  qed
  have rev_bar: "list_all (\<lambda>x. x \<noteq> CHR ''|'') (rev (addr i @ opt_ID S ''k'' x))" if "i < length ss" for i x
    using no_bar [OF that, of x] by (auto simp: list_all_iff)
  have "rev (addr b @ opt_ID S ''k'' c) @ CHR ''|'' # rev (sym_Name (ss ! b))
      = rev (addr d @ opt_ID S ''k'' e) @ CHR ''|'' # rev (sym_Name (ss ! d))"
    using arg_cong [OF eq, of rev] by simp
  then have "rev (addr b @ opt_ID S ''k'' c) = rev (addr d @ opt_ID S ''k'' e)"
    using run_append_eq [OF rev_bar [OF b(1), of c] rev_bar [OF b(2), of e],
        of "CHR ''|'' # rev (sym_Name (ss ! b))" "CHR ''|'' # rev (sym_Name (ss ! d))"]
    by (simp only: stops_Cons simp_thms)
  then have "addr b @ opt_ID S ''k'' c = addr d @ opt_ID S ''k'' e" by (simp only: rev_is_rev_conv)
  moreover have "list_all (\<lambda>x. x \<noteq> CHR ''k'') (addr i)" if "i < length ss" for i
    using ss that by (simp add: symbols_ok_def list_all_iff)
  moreover have "stops (\<lambda>x. x \<noteq> CHR ''k'') (opt_ID S ''k'' x)" for x
    by (simp add: opt_ID_def split: option.splits)
  ultimately have "addr b = addr d" "opt_ID S ''k'' c = opt_ID S ''k'' e"
    using run_append_eq [of "\<lambda>x. x \<noteq> CHR ''k''" "addr b" "addr d"] b by blast+
  then show "b = d \<and> c = e"
    using ss b opt_ID_eq [OF inv c, of "CHR ''k''" "CHR ''k''" "[]" "[]"]
    by (auto simp: symbols_ok_def inj_on_def)
qed simp


text \<open>Requests of one constructor.\<close>

lemma same_key_object:
  assumes inv: "table_inv S" and ok: "request_ok ss S (RObject ps a i)" "request_ok ss S (RObject qs b j)"
    and key: "request_key addr ss S (RObject ps a i) = request_key addr ss S (RObject qs b j)"
  shows "map shape ps = map shape qs \<and> a = b \<and> i = j"
proof -
  have first: "hd (concat (map (prop_key S) xs)) \<noteq> CHR 0x01 \<and> hd (concat (map (prop_key S) xs)) \<noteq> CHR 0x02"
    if "xs \<noteq> []" "list_all (prop_ok S) xs" for xs
  proof -
    obtain p xs' where xs: "xs = p # xs'" using \<open>xs \<noteq> []\<close> by (cases xs) auto
    show ?thesis
    proof (cases "pr_Name p")
      case Nil
      then show ?thesis using xs by (simp add: prop_key_def)
    next
      case (Cons c cs)
      then show ?thesis using xs that(2) by (simp add: prop_key_def prop_ok_def name_ok_def)
    qed
  qed
  define P where "P = concat (map (prop_key S) ps)"
  define Q where "Q = concat (map (prop_key S) qs)"
  have P: "P = [] \<or> hd P \<noteq> CHR 0x01 \<and> hd P \<noteq> CHR 0x02"
    using first [of ps] ok(1) by (cases "ps = []") (simp_all add: P_def)
  have Q: "Q = [] \<or> hd Q \<noteq> CHR 0x01 \<and> hd Q \<noteq> CHR 0x02"
    using first [of qs] ok(2) by (cases "qs = []") (simp_all add: Q_def)
  from key have "(if a then [CHR 0x01] else []) @ (if i then [CHR 0x02] else []) @ P
      = (if b then [CHR 0x01] else []) @ (if j then [CHR 0x02] else []) @ Q"
    by (simp add: P_def Q_def)
  with P Q have "a = b \<and> i = j \<and> P = Q"
    by (cases P; cases Q; cases a; cases b; cases i; cases j; simp)
  then show ?thesis
    using props_key_eq [OF inv] ok by (simp add: P_def Q_def)
qed

lemma key_object_overloaded:
  assumes "sigs \<noteq> []"
  shows "request_key addr ss S (RObject ps a i) \<noteq> request_key addr ss S (ROverloaded sigs)"
proof
  assume "request_key addr ss S (RObject ps a i) = request_key addr ss S (ROverloaded sigs)"
  then have eq: "(if a then [CHR 0x01] else []) @ (if i then [CHR 0x02] else []) @ concat (map (prop_key S) ps)
      = ids S sigs" by simp
  have "ids S sigs \<noteq> []"
    using assms by (auto simp: ids_def Join_empty)
  then show False
    using eq ids_no_colon [of S sigs] props_key_colon [of ps S]
    by (cases "ps = []"; cases a; cases i; simp) (metis in_set_conv_decomp list.set_intros Un_iff set_append)+
qed

lemma same_key_function:
  assumes inv: "table_inv S"
    and ok: "request_ok ss S (RFunction ps os r t p gs)" "request_ok ss S (RFunction qs os' r' u q hs)"
    and key: "request_key addr ss S (RFunction ps os r t p gs) = request_key addr ss S (RFunction qs os' r' u q hs)"
  shows "RFunction ps os r t p gs = RFunction qs os' r' u q hs"
proof -
  define A where "A = ''?'' @ bools os @ FormatBool r @ ''<'' @ ids S gs @ predicate_key S p"
  define B where "B = ''?'' @ bools os' @ FormatBool r' @ ''<'' @ ids S hs @ predicate_key S q"
  from key have "ids S ps @ CHR ''>'' # itoa (ID_of S t) @ A = ids S qs @ CHR ''>'' # itoa (ID_of S u) @ B"
    by (simp add: A_def B_def)
  then have 1: "map (ID_of S) ps = map (ID_of S) qs" and tl: "itoa (ID_of S t) @ A = itoa (ID_of S u) @ B"
    by (simp_all add: ids_append_eq)
  have "stops num_char A" "stops num_char B" by (simp_all add: A_def B_def)
  with tl have 2: "ID_of S t = ID_of S u" and "A = B" by (simp_all add: itoa_append_eq)
  then have "bools os @ FormatBool r @ ''<'' @ ids S gs @ predicate_key S p
      = bools os' @ FormatBool r' @ ''<'' @ ids S hs @ predicate_key S q" by (simp add: A_def B_def)
  then have 3: "os = os'" and "FormatBool r @ ''<'' @ ids S gs @ predicate_key S p
      = FormatBool r' @ ''<'' @ ids S hs @ predicate_key S q"
    using bools_append_eq [OF FormatBool_stops(2) FormatBool_stops(2)] by simp_all
  then have 4: "r = r'" and "ids S gs @ predicate_key S p = ids S hs @ predicate_key S q"
    by (simp_all add: FormatBool_append_eq)
  then have 5: "map (ID_of S) gs = map (ID_of S) hs" and 6: "predicate_key S p = predicate_key S q"
    by (simp_all add: ids_append_eq predicate_key_stops)
  show ?thesis
    using 1 2 3 4 5 6 ok by (simp add: ids_ok_eq [OF inv] id_eq [OF inv] predicate_key_eq [OF inv])
qed

lemma same_key_labelled:
  assumes inv: "table_inv S" and ok: "request_ok ss S (RLabelled ts m ls)" "request_ok ss S (RLabelled us n ks)"
    and key: "request_key addr ss S (RLabelled ts m ls) = request_key addr ss S (RLabelled us n ks)"
  shows "RLabelled ts m ls = RLabelled us n ks"
proof -
  from key have "ids S ts @ CHR ''?'' # itoa m @ CHR ''#'' # Join (case ls of Some ns \<Rightarrow> ns | None \<Rightarrow> []) '',''
    = ids S us @ CHR ''?'' # itoa n @ CHR ''#'' # Join (case ks of Some ns \<Rightarrow> ns | None \<Rightarrow> []) '',''" by simp
  then have 1: "map (ID_of S) ts = map (ID_of S) us" and 2: "m = n"
    and 3: "Join (case ls of Some ns \<Rightarrow> ns | None \<Rightarrow> []) '','' = Join (case ks of Some ns \<Rightarrow> ns | None \<Rightarrow> []) '',''"
    by (simp_all add: ids_append_eq itoa_append_eq)
  have ts: "ts = us" using 1 ok by (simp add: ids_ok_eq [OF inv])
  have "m \<le> int (length ts)" "ls = None \<Longrightarrow> 0 < m" "ks = None \<Longrightarrow> 0 < m"
    using ok 2 by simp_all
  then have nonempty: "ls = None \<Longrightarrow> 0 < length ts" "ks = None \<Longrightarrow> 0 < length ts" by linarith+
  have "case ls of Some ns \<Rightarrow> length ns = length ts \<and> list_all label_ok ns | None \<Rightarrow> True"
    "case ks of Some ns \<Rightarrow> length ns = length ts \<and> list_all label_ok ns | None \<Rightarrow> True"
    using ok unfolding ts request_ok.simps by blast+
  from labels_eq [THEN iffD1, OF this nonempty 3] have "ls = ks" .
  with ts 2 show ?thesis by simp
qed

lemma same_key_indexed:
  assumes inv: "table_inv S" and ok: "request_ok ss S (RIndexed t s n)" "request_ok ss S (RIndexed u s' n')"
    and key: "request_key addr ss S (RIndexed t s n) = request_key addr ss S (RIndexed u s' n')"
  shows "RIndexed t s n = RIndexed u s' n'"
proof -
  have stop: "stops num_char (opt_ID S ''s'' a @ opt_ID S ''n'' b)" for a b
    by (cases a) (simp_all add: opt_ID_def split: option.splits)
  have stop_n: "stops num_char (opt_ID S ''n'' b)" "stops (\<lambda>x. x = CHR ''s'') (opt_ID S ''n'' b)" for b
    by (simp_all add: opt_ID_def split: option.splits)
  from key have "itoa (ID_of S t) @ opt_ID S ''s'' s @ opt_ID S ''n'' n
      = itoa (ID_of S u) @ opt_ID S ''s'' s' @ opt_ID S ''n'' n'" by simp
  then have 1: "ID_of S t = ID_of S u" and 2: "opt_ID S ''s'' s @ opt_ID S ''n'' n = opt_ID S ''s'' s' @ opt_ID S ''n'' n'"
    using itoa_append_eq [OF stop stop] by blast+
  from 2 ok stop_n have 3: "s = s'" and 4: "opt_ID S ''n'' n = opt_ID S ''n'' n'"
    using opt_ID_eq [OF inv, of s s' "CHR ''s''" "CHR ''s''" "opt_ID S ''n'' n" "opt_ID S ''n'' n'"] by auto
  from 4 ok have "n = n'"
    using opt_ID_eq [OF inv, of n n' "CHR ''n''" "CHR ''n''" "[]" "[]"] by simp
  with 1 3 ok show ?thesis by (simp add: id_eq [OF inv])
qed

lemma same_key_signatures:
  assumes inv: "table_inv S" and ok: "request_ok ss S (RSignatures t cs ks)" "request_ok ss S (RSignatures u ds ls)"
    and key: "request_key addr ss S (RSignatures t cs ks) = request_key addr ss S (RSignatures u ds ls)"
  shows "RSignatures t cs ks = RSignatures u ds ls"
proof -
  let ?l = "\<lambda>c ts. concat (map (\<lambda>t. [c] @ itoa (ID_of S t)) ts)"
  have stop: "stops num_char (?l (CHR ''c'') xs @ ?l (CHR ''k'') ys)" for xs ys
    by (cases xs; cases ys) simp_all
  have stop_k: "stops (\<lambda>x. x = CHR ''c'' \<or> num_char x) (?l (CHR ''k'') ys)" for ys
    by (cases ys) simp_all
  from key have "itoa (ID_of S t) @ ?l (CHR ''c'') cs @ ?l (CHR ''k'') ks
      = itoa (ID_of S u) @ ?l (CHR ''c'') ds @ ?l (CHR ''k'') ls" by simp
  then have 1: "ID_of S t = ID_of S u"
    and 2: "?l (CHR ''c'') cs @ ?l (CHR ''k'') ks = ?l (CHR ''c'') ds @ ?l (CHR ''k'') ls"
    using itoa_append_eq [OF stop stop] by blast+
  from 2 ok have 3: "cs = ds" and 4: "?l (CHR ''k'') ks = ?l (CHR ''k'') ls"
    using sig_list_eq [OF inv _ stop_k stop_k, of cs ds ks ls] by simp_all
  from 4 ok have "ks = ls"
    using sig_list_eq [OF inv, of "CHR ''k''" "[]" "[]" ks ls] by simp
  with 1 3 ok show ?thesis by (simp add: id_eq [OF inv])
qed

lemma same_key_class:
  assumes inv: "table_inv S" and ss: "symbols_ok addr ss"
    and ok: "request_ok ss S (RClass t c b)" "request_ok ss S (RClass u e d)"
    and key: "request_key addr ss S (RClass t c b) = request_key addr ss S (RClass u e d)"
  shows "RClass t c b = RClass u e d"
proof -
  from key have "ID_of S t = ID_of S u"
    and "sym_Name (ss ! b) @ CHR ''|'' # addr b @ opt_ID S ''k'' c
      = sym_Name (ss ! d) @ CHR ''|'' # addr d @ opt_ID S ''k'' e"
    by (simp_all add: itoa_append_eq)
  with ok show ?thesis by (simp add: class_key_eq [OF inv ss] id_eq [OF inv])
qed

lemma same_key_nominal:
  assumes inv: "table_inv S" and ss: "symbols_ok addr ss"
    and ok: "request_ok ss S (RNominal k b as)" "request_ok ss S (RNominal l d bs)"
    and key: "request_key addr ss S (RNominal k b as) = request_key addr ss S (RNominal l d bs)"
  shows "RNominal k b as = RNominal l d bs"
  using key ok ss
  by (simp add: nominalKey_def itoa_append_eq ids_eq ids_ok_eq [OF inv] symbols_ok_def)

text \<open>Two requests with one key are one request.\<close>

lemma request_key_inj:
  assumes inv: "table_inv S" and ss: "symbols_ok addr ss" and ok: "request_ok ss S r" "request_ok ss S q"
    and key: "request_key addr ss S r = request_key addr ss S q"
  shows "same_request r q"
proof -
  note eqs = itoa_append_eq itoa_alone ids_append_eq ids_alone ids_eq FormatBool_append_eq names_eq
    id_eq [OF inv] ids_ok_eq [OF inv] word_uint_eq_iff [symmetric]
    key_ids_this key_ids_this [symmetric] key_tuple_this key_tuple_this [symmetric]
  note marks = nominalKey_def same_request_def shapes_def FormatBool_def num_char_def ascii_digit_def
  show ?thesis
  proof (cases r)
    case (RIntrinsic f)
    with key ok show ?thesis by (cases q) (simp_all add: eqs marks split: if_split_asm)
  next
    case (RLiteral f v)
    with key ok show ?thesis by (cases q) (simp_all add: eqs marks split: if_split_asm)
  next
    case (RBranded t u)
    with key ok show ?thesis by (cases q) (simp_all add: eqs marks split: if_split_asm)
  next
    case (RResult t u)
    with key ok show ?thesis by (cases q) (simp_all add: eqs marks split: if_split_asm)
  next
    case (RLiteralThis t u)
    with key ok show ?thesis by (cases q) (simp_all add: eqs marks split: if_split_asm)
  next
    case (RUnion ts)
    with key ok show ?thesis by (cases q) (simp_all add: eqs marks split: if_split_asm)
  next
    case RAnyNumber
    with key ok show ?thesis by (cases q) (simp_all add: eqs marks split: if_split_asm)
  next
    case (RArray t)
    with key ok show ?thesis by (cases q) (simp_all add: eqs marks split: if_split_asm)
  next
    case (RInt n b)
    with key ok show ?thesis by (cases q) (simp_all add: eqs marks split: if_split_asm)
  next
    case (RNames t ns)
    with key ok show ?thesis by (cases q) (simp_all add: eqs marks split: if_split_asm)
  next
    case (RTuple ts)
    with key ok show ?thesis by (cases q) (simp_all add: eqs marks split: if_split_asm)
  next
    case (RThis t u)
    with key ok show ?thesis by (cases q) (simp_all add: eqs marks split: if_split_asm)
  next
    case (RLabelled ts n ls)
    with key ok have "\<exists>ts' n' ls'. q = RLabelled ts' n' ls'" by (cases q) (simp_all add: eqs marks)
    with RLabelled key ok same_key_labelled [OF inv] have "r = q" by blast
    with RLabelled show ?thesis by (simp add: marks)
  next
    case (RFunction ps os x t p gs)
    with key ok have "\<exists>ps' os' x' t' p' gs'. q = RFunction ps' os' x' t' p' gs'" by (cases q) (simp_all add: eqs marks)
    with RFunction key ok same_key_function [OF inv] have "r = q" by blast
    with RFunction show ?thesis by (simp add: marks)
  next
    case (RIndexed t s n)
    with key ok have "\<exists>t' s' n'. q = RIndexed t' s' n'" by (cases q) (simp_all add: eqs marks)
    with RIndexed key ok same_key_indexed [OF inv] have "r = q" by blast
    with RIndexed show ?thesis by (simp add: marks)
  next
    case (RSignatures t cs ks)
    with key ok have "\<exists>t' cs' ks'. q = RSignatures t' cs' ks'" by (cases q) (simp_all add: eqs marks)
    with RSignatures key ok same_key_signatures [OF inv] have "r = q" by blast
    with RSignatures show ?thesis by (simp add: marks)
  next
    case (RClass t c b)
    with key ok have "\<exists>t' c' b'. q = RClass t' c' b'" by (cases q) (simp_all add: eqs marks)
    with RClass key ok same_key_class [OF inv ss] have "r = q" by blast
    with RClass show ?thesis by (simp add: marks)
  next
    case (RNominal k b as)
    with key ok have "\<exists>k' b' as'. q = RNominal k' b' as'" by (cases q) (simp_all add: eqs marks)
    with RNominal key ok same_key_nominal [OF inv ss] have "r = q" by blast
    with RNominal show ?thesis by (simp add: marks)
  next
    case (RObject ps a i)
    then consider ps' a' i' where "q = RObject ps' a' i'"
      using key ok key_object_overloaded by (cases q) (simp_all add: marks)
    then show ?thesis
    proof cases
      case 1
      from same_key_object [OF inv ok [unfolded 1 RObject] key [unfolded 1 RObject]]
      show ?thesis by (simp add: 1 RObject same_request_def shapes_def)
    qed
  next
    case (ROverloaded ts)
    then show ?thesis
      using key ok key_object_overloaded [symmetric] by (cases q) (simp_all add: ids_eq ids_ok_eq [OF inv] marks)
  qed
qed

end
