(* ===== verification/UnionProps.thy ===== *)
theory UnionProps
  imports UnionFacts KeyReading
begin

text \<open>
  The union constructor as a function on sets: what the type it gives denotes, and that
  neither the order nor the nesting nor the repetition of its arguments counts.
\<close>

definition no_unknown :: "interner \<Rightarrow> ty set \<Rightarrow> bool" where
  "no_unknown S D \<longleftrightarrow> (\<forall>m\<in>D. \<not> has_flag (Flags (type_at S m)) [UnknownT])"

lemma find_none: "no_unknown S (set ms) \<Longrightarrow> find (\<lambda>m. has_flag (Flags (type_at S m)) [UnknownT]) ms = None"
  by (simp add: no_unknown_def find_None_iff)

lemma parts_plain: "plain S m \<Longrightarrow> parts S m = {m}"
  by (simp add: plain_def parts_def)

text \<open>\<open>union\<close> past its early returns.\<close>

definition finish_union :: "ty list \<Rightarrow> interner \<Rightarrow> ty \<times> interner" where
  "finish_union ms S =
    (case ms of
       [] \<Rightarrow> intrinsic NeverT S
     | [m] \<Rightarrow> (m, S)
     | _ \<Rightarrow> intern (''u'' @ ids S (sort_key (ID_of S) ms))
         (zero_type\<lparr>Flags := UnionT, ty_Types := sort_key (ID_of S) ms\<rparr>) S)"

lemma union_finish:
  assumes "union_members S ts [] = Inr ms" "no_unknown S (set ms)"
  shows "union ts S = case_prod finish_union (reduceLiterals (absorb_numbers S ms) S)"
  using assms
  by (auto simp: union_def finish_union_def find_none Let_def split: prod.splits list.splits)

lemma sort_key_set_unique:
  fixes f :: "ty \<Rightarrow> int"
  assumes "set xs = set ys" "distinct xs" "distinct ys" "inj_on f (set xs)"
  shows "sort_key f xs = sort_key f ys"
proof -
  have d: "distinct (map f (sort_key f zs))" if "set zs = set xs" "distinct zs" for zs
    using that assms(4) by (simp add: distinct_map)
  have "map f (sort_key f xs) = map f (sort_key f ys)"
    by (rule sorted_distinct_set_unique) (use assms d in auto)
  then show ?thesis
    using assms by (intro map_inj_on [of f]) (auto simp: Un_absorb)
qed

lemma finish_union_set:
  assumes inv: "table_inv S" and ids: "\<forall>m\<in>set ms. m < length (in_types S) \<and> 0 < ID_of S m"
    and "set ms = set ns" "distinct ms" "distinct ns"
  shows "finish_union ms S = finish_union ns S"
proof -
  have inj: "inj_on (ID_of S) (set ms)"
    using table_invD(4) [OF inv] ids by (auto intro: inj_onI)
  have len: "length ms = length ns" using assms by (metis distinct_card)
  have sort: "sort_key (ID_of S) ms = sort_key (ID_of S) ns"
    by (rule sort_key_set_unique) (use assms inj in auto)
  show ?thesis
  proof (cases ms rule: remdups_adj.cases)
    case 1
    then show ?thesis using assms(3) by simp
  next
    case (2 m)
    then show ?thesis using len assms(3) by (cases ns rule: remdups_adj.cases) auto
  next
    case (3 m m' ms')
    then show ?thesis using len sort by (cases ns rule: remdups_adj.cases) (auto simp: finish_union_def)
  qed
qed

lemma UnionT_flag: "has_flag UnionT [UnionT]" "\<not> has_flag NeverT [UnionT]" "has_flag NeverT [NeverT]"
  by (simp_all add: has_flag_def type_flag_defs)

lemma finish_union_denotes:
  assumes inv: "heap_inv S" and ms: "\<forall>m\<in>set ms. plain S m \<and> 0 < ID_of S m" "distinct ms" "reduced S (set ms)"
    and out: "finish_union ms S = (t, S')"
  shows "heap_inv S' \<and> extends S S' \<and> t < length (in_types S') \<and> parts S' t = set ms"
proof (cases ms rule: remdups_adj.cases)
  case 1
  with out have "t = fst (intrinsic NeverT S)" "S' = snd (intrinsic NeverT S)"
    by (simp_all add: finish_union_def)
  then show ?thesis
    using 1 intrinsic_at [OF inv, of NeverT] intrinsic_heap [OF inv, of NeverT] intrinsic_extends [of S NeverT]
    by (simp add: parts_def UnionT_flag)
next
  case (2 m)
  with out ms inv show ?thesis by (auto simp: finish_union_def parts_plain plain_def)
next
  case (3 m m' ms')
  let ?ms = "sort_key (ID_of S) ms"
  define c where "c = zero_type\<lparr>Flags := UnionT, ty_Types := ?ms\<rparr>"
  define k where "k = ''u'' @ ids S ?ms"
  have out': "intern k c S = (t, S')" using out 3 by (simp add: finish_union_def c_def k_def)
  have cell: "union_cell S (length (in_types S)) ?ms"
  proof -
    have "2 \<le> length ms" using 3 by simp
    then show ?thesis using ms by (auto simp: union_cell_def base_list_def plain_def)
  qed
  have S': "heap_inv S'"
    using intern_heap [OF inv, of c k] cell out'
    by (auto simp: new_cell_ok_def key_ok_def c_def k_def UnionT_flag)
  have ext: "extends S S'" using intern_extends [of S k c] out' by simp
  show ?thesis
  proof (cases "in_byKey S k")
    case None
    then show ?thesis
      using S' ext out' by (auto simp: intern_miss type_at_def parts_def c_def UnionT_flag)
  next
    case (Some u)
    then have tu: "t = u" "S' = S" using out' by (simp_all add: intern_hit)
    have t: "t < length (in_types S)" using table_invD(1) [OF heap_invD(1) [OF inv] Some] tu by simp
    have u: "has_flag (Flags (type_at S t)) [UnionT]" "ids S ?ms = ids S (ty_Types (type_at S t))"
      using heap_invD(5,6) [OF inv, of "ids S ?ms" t] Some tu by (auto simp: k_def)
    have IDs: "map (ID_of S) ?ms = map (ID_of S) (ty_Types (type_at S t))" using u(2) by (simp add: ids_eq)
    have old: "union_cell S t (ty_Types (type_at S t))" using heap_invD(2) [OF inv t u(1)] .
    have "?ms = ty_Types (type_at S t)"
    proof (rule nth_equalityI)
      show len: "length ?ms = length (ty_Types (type_at S t))" using IDs by (metis length_map)
      fix i assume i: "i < length ?ms"
      then have "ID_of S (?ms ! i) = ID_of S (ty_Types (type_at S t) ! i)"
        using IDs len by (metis nth_map)
      moreover have "?ms ! i \<in> set ms" using i by (metis nth_mem set_sort)
      moreover have "ty_Types (type_at S t) ! i \<in> set (ty_Types (type_at S t))" using i len by simp
      moreover from this have "ty_Types (type_at S t) ! i < length (in_types S)"
        using old t by (auto simp: union_cell_def)
      ultimately show "?ms ! i = ty_Types (type_at S t) ! i"
        using ms(1) by (intro table_invD(4) [OF heap_invD(1) [OF inv]]) (auto simp: plain_def)
    qed
    then have "parts S t = set ms" using u(1) by (simp add: parts_def) (metis set_sort)
    then show ?thesis using inv tu t by simp
  qed
qed

definition union_args :: "interner \<Rightarrow> ty option list \<Rightarrow> bool" where
  "union_args S ts \<longleftrightarrow> args_ok S ts \<and> no_unknown S (flat_set S ts) \<and> (\<forall>m\<in>flat_set S ts. 0 < ID_of S m)"

lemma union_reduced:
  assumes inv: "heap_inv S" and ts: "union_args S ts"
  shows "\<exists>ms. union ts S = finish_union ms (reduced_state S (absorbed S (flat_set S ts)))
    \<and> set ms = union_of S (flat_set S ts) (fst (intrinsic BooleanT S)) \<and> distinct ms
    \<and> (\<forall>m\<in>flat_set S ts. plain S m)"
proof -
  let ?D = "flat_set S ts"
  from union_members_flat [OF inv, of ts "[]"] ts obtain ms where
    ms: "union_members S ts [] = Inr ms" "base_list S ms" "set ms = ?D"
    by (auto simp: union_args_def base_list_def)
  obtain out S' where red: "reduceLiterals (absorb_numbers S ms) S = (out, S')" by fastforce
  have A: "base_list S (absorb_numbers S ms)" "set (absorb_numbers S ms) = absorbed S ?D"
    using absorb_numbers_set [OF ms(2)] ms(3) by auto
  have "union ts S = finish_union out S'"
    using union_finish [OF ms(1)] ts ms(3) red by (simp add: union_args_def)
  then show ?thesis
    using reduceLiterals_set [OF inv A(1) red] A(2) ms(2,3) by (auto simp: union_of_def base_list_def)
qed

lemma union_of_numbered:
  assumes inv: "heap_inv S" and D: "\<forall>m\<in>D. plain S m \<and> 0 < ID_of S m"
  shows "\<forall>m\<in>union_of S D (fst (intrinsic BooleanT S)). 0 < ID_of (reduced_state S (absorbed S D)) m"
proof
  fix m assume m: "m \<in> union_of S D (fst (intrinsic BooleanT S))"
  let ?S' = "reduced_state S (absorbed S D)"
  show "0 < ID_of ?S' m"
  proof (cases "m \<in> D")
    case True
    then show ?thesis using D extends_at [OF reduced_state_facts(2) [OF inv]] by (simp add: plain_def)
  next
    case False
    with m have "m = fst (intrinsic BooleanT S)" and both: "both_booleans S (absorbed S D)"
      by (auto simp: union_of_def kept_def absorbed_def split: if_splits)
    moreover have "in_byKey (snd (intrinsic BooleanT S)) (''i'' @ itoa (uint BooleanT)) = Some (fst (intrinsic BooleanT S))"
      unfolding intrinsic_def by (rule tys.put_look)
    ultimately show ?thesis
      using table_invD(1) [OF heap_invD(1) [OF reduced_state_facts(1) [OF inv]], of "absorbed S D"]
      by (simp add: reduced_state_def)
  qed
qed


lemma union_result:
  assumes "heap_inv S" and "union_args S ts" and "union ts S = (t, S')"
  shows "parts S' t = union_of S (flat_set S ts) (fst (intrinsic BooleanT S))
    \<and> heap_inv S' \<and> extends S S' \<and> t < length (in_types S')"
proof -
  let ?D = "flat_set S ts"
  let ?R = "reduced_state S (absorbed S ?D)"
  from union_reduced [OF assms(1,2)] obtain ms where
    ms: "union ts S = finish_union ms ?R" "set ms = union_of S ?D (fst (intrinsic BooleanT S))" "distinct ms"
    and D: "\<forall>m\<in>?D. plain S m" by blast
  have "reduced ?R (set ms) \<and> (\<forall>m\<in>set ms. plain ?R m)"
    using union_of_reduced [OF assms(1) D] assms(2) ms(2) by (simp add: union_args_def no_unknown_def)
  moreover have "\<forall>m\<in>set ms. 0 < ID_of ?R m"
    using union_of_numbered [OF assms(1), of ?D] D assms(2) ms(2) by (simp add: union_args_def)
  ultimately show ?thesis
    using finish_union_denotes [OF reduced_state_facts(1) [OF assms(1)], of ms "absorbed S ?D" t S']
      reduced_state_facts(2) [OF assms(1)] ms assms(3) extends_trans by fastforce
qed

lemma union_reduced_heap: "heap_inv S \<Longrightarrow> union_args S ts \<Longrightarrow> union ts S = (t, S') \<Longrightarrow> heap_inv S'"
  using union_result by blast

end
