(* ===== verification/TypeProps.thy ===== *)
theory TypeProps
  imports UnionProps
begin

text \<open>
  The states of the type heap the checker's operations reach, and that interning is exact
  in them: one pointer for one type.
\<close>

section \<open>Requests are interned under their keys\<close>

definition normal_union :: "interner \<Rightarrow> ty list \<Rightarrow> bool" where
  "normal_union S ms \<longleftrightarrow> union_cell S (length (in_types S)) ms \<and> \<not> both_booleans S (set ms)"

definition good_request :: "Symbol list \<Rightarrow> interner \<Rightarrow> request \<Rightarrow> bool" where
  "good_request ss S r \<longleftrightarrow> request_ok ss S r
    \<and> (case r of RUnion ms \<Rightarrow> normal_union S ms
       | RIntrinsic f \<Rightarrow> \<not> has_flag f [UnionT]
       | RLiteral f v \<Rightarrow> \<not> has_flag f [UnionT]
       | _ \<Rightarrow> True)"

lemma normal_union_run:
  assumes inv: "heap_inv S" and ms: "normal_union S ms" "list_all (id_ok S) ms"
  shows "union (map Some ms) S = intern (''u'' @ ids S ms) (zero_type\<lparr>Flags := UnionT, ty_Types := ms\<rparr>) S"
proof -
  have cell: "base_list S ms" "reduced S (set ms)" "sorted (map (ID_of S) ms)" "2 \<le> length ms"
    using ms by (auto simp: normal_union_def union_cell_def)
  then have plain: "\<forall>m\<in>set ms. plain S m" by (simp add: base_list_def)
  have flat: "flat_set S (map Some ms) = set ms"
    using plain by (auto simp: flat_set_def parts_plain)
  have ids: "\<forall>m\<in>set ms. m < length (in_types S) \<and> 0 < ID_of S m"
    using ms(2) by (simp add: list_all_iff id_ok_def)
  have "union_args S (map Some ms)"
    using plain cell(2) ids flat
    by (auto simp: union_args_def args_ok_def plain_def no_unknown_def reduced_def)
  moreover have "absorbed S (set ms) = set ms" using cell(2) by (auto simp: absorbed_def reduced_def)
  moreover have "kept S (set ms) = set ms"
    using cell(2) ms(1) by (auto simp: kept_def reduced_def present_def normal_union_def)
  moreover have "\<not> both_booleans S (set ms)" using ms(1) by (simp add: normal_union_def)
  ultimately obtain ns where ns: "union (map Some ms) S = finish_union ns S" "set ns = set ms" "distinct ns"
    using union_reduced [OF inv, of "map Some ms"] flat by (auto simp: union_of_def reduced_state_def)
  have "finish_union ns S = finish_union ms S"
    using ns cell(1) ids by (intro finish_union_set [OF heap_invD(1) [OF inv]]) (auto simp: base_list_def)
  moreover have "sort_key (ID_of S) ms = ms" using cell(3) by (rule sort_key_id_if_sorted)
  ultimately show ?thesis
    using ns(1) cell(4) by (cases ms rule: remdups_adj.cases) (simp_all add: finish_union_def del: sort_key_simps)
qed

text \<open>The cell of each request: fresh, or a copy of one with a field set.\<close>

fun request_cell :: "interner \<Rightarrow> request \<Rightarrow> Type" where
  "request_cell S (RIntrinsic f) = zero_type\<lparr>Flags := f\<rparr>"
| "request_cell S RAnyNumber = zero_type\<lparr>Flags := NumberT, ty_AnyArith := True\<rparr>"
| "request_cell S (RLiteral f v) = zero_type\<lparr>Flags := f, ty_Value := v\<rparr>"
| "request_cell S (RInt n b) = zero_type\<lparr>Flags := IntT, ty_Bits := n, ty_Signed := b\<rparr>"
| "request_cell S (RArray t) = zero_type\<lparr>Flags := ObjectT, ty_Kind := Array, ty_Elem := Some t\<rparr>"
| "request_cell S (RTuple ts) = zero_type\<lparr>Flags := ObjectT, ty_Kind := Tuple, ty_Elems := ts\<rparr>"
| "request_cell S (RLabelled ts opt ls) =
     zero_type\<lparr>Flags := ObjectT, ty_Kind := Tuple, ty_Elems := ts, ty_Opt := opt, ty_Labels := ls\<rparr>"
| "request_cell S (RBranded t b) = (type_at S t)\<lparr>ty_Brand := Some b, ty_BrandBase := Some t\<rparr>"
| "request_cell S (RFunction ps opts rest res pred tps) =
     zero_type\<lparr>Flags := ObjectT, ty_Kind := Function, ty_Params := ps, ty_Result := Some res,
       ty_Predicate := pred, ty_TypeParams := tps, ty_optionals := opts, ty_restParam := rest\<rparr>"
| "request_cell S (RNames t ns) = (type_at S t)\<lparr>ty_ParamNames := ns\<rparr>"
| "request_cell S (RResult t r) = (type_at S t)\<lparr>ty_Result := Some r\<rparr>"
| "request_cell S (RThis t u) = (type_at S t)\<lparr>ty_ThisType := Some u\<rparr>"
| "request_cell S (RLiteralThis t u) = (type_at S t)\<lparr>ty_LiteralThis := Some u\<rparr>"
| "request_cell S (RIndexed t s n) = (type_at S t)\<lparr>ty_StringIndex := s, ty_NumberIndex := n\<rparr>"
| "request_cell S (RSignatures t cs ks) = (type_at S t)\<lparr>ty_Calls := cs, ty_Constructs := ks\<rparr>"
| "request_cell S (RClass t c b) =
     (type_at S t)\<lparr>ty_Constructs := (case c of Some t \<Rightarrow> [t] | None \<Rightarrow> ty_Constructs (type_at S t)),
       ty_ClassOf := Some b\<rparr>"
| "request_cell S (RObject ps a i) =
     zero_type\<lparr>Flags := ObjectT, ty_Kind := Anonymous, ty_Props := ps, ty_partial := a, ty_intersection := i\<rparr>"
| "request_cell S (RNominal k b args) =
     zero_type\<lparr>Flags := ObjectT, ty_Kind := k, ty_Symbol := Some b, ty_TypeArgs := args\<rparr>"
| "request_cell S (ROverloaded sigs) = (type_at S (sigs ! 0))\<lparr>ty_ID := 0, ty_Overloads := sigs\<rparr>"
| "request_cell S (RUnion ms) = zero_type\<lparr>Flags := UnionT, ty_Types := ms\<rparr>"

lemmas constructor_defs = intrinsic_def anyNumber_def literal_def intType_def array_def tuple_def
  tupleLabelled_def branded_def function_type_def withParamNames_def withResult_def withThis_def
  withLiteralThis_def indexedOn_def withSignatures_def classValue_def objectOf_def overloaded_type_def

lemma nominal_run:
  "(fst (fst (nominal ss k b args S)), snd (nominal ss k b args S))
    = intern (nominalKey ss k b args S)
        (zero_type\<lparr>Flags := ObjectT, ty_Kind := k, ty_Symbol := Some b, ty_TypeArgs := args\<rparr>) S"
  by (cases "in_byKey S (nominalKey ss k b args S)") (simp_all add: nominal_def intern_hit intern_miss)

lemma labelled_run:
  assumes "request_ok ss S (RLabelled ts opt ls)"
  shows "tupleLabelled ts opt ls S
    = intern (request_key addr ss S (RLabelled ts opt ls)) (request_cell S (RLabelled ts opt ls)) S"
proof (cases ls)
  case None
  then show ?thesis using assms by (simp add: tupleLabelled_def)
next
  case (Some ns)
  then show ?thesis using assms by (simp add: tupleLabelled_def)
qed

lemma run_intern:
  assumes "heap_inv S" "good_request ss S r"
  shows "run addr ss r S = intern (request_key addr ss S r) (request_cell S r) S"
proof (cases r)
  case (RLabelled ts opt ls)
  then show ?thesis using labelled_run assms(2) by (simp add: good_request_def del: request_ok.simps)
next
  case (RNominal k b args)
  then show ?thesis using nominal_run by simp
next
  case (RUnion ms)
  then show ?thesis using normal_union_run [OF assms(1)] assms(2) by (simp add: good_request_def)
qed (use assms(2) in \<open>auto simp: good_request_def constructor_defs\<close>)

lemma no_union_flags: "\<not> has_flag ObjectT [UnionT]" "\<not> has_flag IntT [UnionT]" "\<not> has_flag NumberT [UnionT]"
  by (simp_all add: has_flag_def type_flag_defs)

text \<open>A copy of a union cell is as normal as the cell.\<close>

lemma copied_union:
  assumes "heap_inv S" "id_ok S t" "has_flag (Flags (type_at S t)) [UnionT]"
  shows "union_cell S (length (in_types S)) (ty_Types (type_at S t))"
proof -
  have "t < length (in_types S)" using assms(2) by (simp add: id_ok_def)
  then have "{..<t} \<subseteq> {..<length (in_types S)}" by auto
  with heap_invD(2) [OF assms(1) \<open>t < _\<close> assms(3)] show ?thesis by (auto simp: union_cell_def)
qed

lemma request_cell_ok:
  assumes "heap_inv S" "good_request ss S r"
  shows "new_cell_ok S (request_cell S r) \<and> key_ok S (request_key addr ss S r) (request_cell S r)"
proof
  show "new_cell_ok S (request_cell S r)"
  proof (cases r)
    case (RUnion ms)
    then show ?thesis
      using assms(2) by (simp add: good_request_def normal_union_def new_cell_ok_def)
  next
    case (ROverloaded sigs)
    then show ?thesis
      using assms(2) copied_union [OF assms(1), of "sigs ! 0"]
      by (cases sigs) (simp_all add: good_request_def new_cell_ok_def)
  qed (use assms(2) copied_union [OF assms(1)] in
      \<open>auto simp: good_request_def new_cell_ok_def zero_type_def no_union_flags\<close>)
  show "key_ok S (request_key addr ss S r) (request_cell S r)"
    by (cases r) (auto simp: key_ok_def nominalKey_def zero_type_def word_uint_eq_iff UnionT_flag)
qed


section \<open>Later states\<close>














lemma run_heap: "heap_inv S \<Longrightarrow> good_request ss S r \<Longrightarrow> heap_inv (snd (run addr ss r S))"
  using intern_heap request_cell_ok by (simp add: run_intern)

section \<open>Reachable heaps\<close>

text \<open>The fields nothing changes once a type is handed out: the rest of a nominal type's cell
  (its base, properties, signatures) and of a type parameter's is filled in later.\<close>

definition same_type :: "Type \<Rightarrow> Type \<Rightarrow> bool" where
  "same_type c d \<longleftrightarrow> Flags c = Flags d \<and> ty_ID c = ty_ID d \<and> ty_Types c = ty_Types d
    \<and> ty_AnyArith c = ty_AnyArith d"

text \<open>What the checker does to the table and the heap: it asks for types, unites them, interns
  a type parameter or an enum member under a key of its own, makes a type outside the table
  (an unanswered type, a namespace's object; their IDs are not positive), fills a cell in, and
  takes an instance back whose base has no type.\<close>

inductive types_reach :: "(symbol_ptr \<Rightarrow> string) \<Rightarrow> Symbol list \<Rightarrow> interner \<Rightarrow> bool"
  for addr :: "symbol_ptr \<Rightarrow> string" and ss :: "Symbol list" where
  start: "types_reach addr ss new_interner"
| asked: "types_reach addr ss S \<Longrightarrow> good_request ss S r \<Longrightarrow> types_reach addr ss (snd (run addr ss r S))"
| united: "types_reach addr ss S \<Longrightarrow> union_args S ts \<Longrightarrow> types_reach addr ss (snd (union ts S))"
| named: "types_reach addr ss S \<Longrightarrow> \<not> has_flag (Flags c) [UnionT] \<Longrightarrow> key_ok S k c \<Longrightarrow>
    types_reach addr ss (snd (intern k c S))"
| outside: "types_reach addr ss S \<Longrightarrow> \<not> has_flag (Flags c) [UnionT] \<Longrightarrow> ty_ID c \<le> 0 \<Longrightarrow>
    types_reach addr ss (S\<lparr>in_types := in_types S @ [c]\<rparr>)"
| filled: "types_reach addr ss S \<Longrightarrow> t < length (in_types S) \<Longrightarrow> same_type c (type_at S t) \<Longrightarrow>
    types_reach addr ss (S\<lparr>in_types := (in_types S)[t := c]\<rparr>)"
| forgotten: "types_reach addr ss S \<Longrightarrow> types_reach addr ss (S\<lparr>in_byKey := (in_byKey S)(k := None)\<rparr>)"

text \<open>A change that keeps every old type's view keeps the invariant.\<close>

lemma heap_view:
  assumes inv: "heap_inv S"
    and len: "length (in_types S) \<le> length (in_types S')"
    and view: "\<And>t. t < length (in_types S) \<Longrightarrow> same_type (type_at S' t) (type_at S t)"
    and new: "\<And>t. t < length (in_types S') \<Longrightarrow> length (in_types S) \<le> t \<Longrightarrow>
        \<not> has_flag (Flags (type_at S' t)) [UnionT] \<and> ty_ID (type_at S' t) \<le> 0"
    and keys: "\<And>k t. in_byKey S' k = Some t \<Longrightarrow> in_byKey S k = Some t"
    and same_next: "in_next S' = in_next S"
  shows "heap_inv S'"
proof -
  note T = table_invD [OF heap_invD(1) [OF inv]]
  have byKey: "t < length (in_types S)" if "in_byKey S' k = Some t" for k t
    using T(1) keys [OF that] by blast
  have id: "ID_of S' t = ID_of S t" if "t < length (in_types S)" for t
    using view [OF that] by (simp add: same_type_def)
  have pos: "t < length (in_types S)" if "t < length (in_types S')" "0 < ID_of S' t" for t
    using new [OF that(1)] that(2) by (meson not_less)
  have table: "table_inv S'"
    unfolding table_inv_def
  proof (intro conjI allI impI, goal_cases)
    case (1 k t) then show ?case using byKey len by fastforce
  next
    case (2 k t) then show ?case using T(1) keys byKey id by auto
  next
    case (3 k k' t) then show ?case using T(2) keys by blast
  next
    case (4 t) then show ?case
      using T(3) [of t] T(5) id [of t] new [of t] same_next by (cases "t < length (in_types S)") auto
  next
    case (5 t u) then show ?case using T(4) [of t u] id pos by metis
  next
    case 6 then show ?case using T(5) same_next by simp
  qed
  have cell: "union_cell S' t ms" if "union_cell S t ms" "t < length (in_types S)" for t ms
  proof -
    have at: "same_type (type_at S' m) (type_at S m)" "m < length (in_types S)" if "m \<in> set ms" for m
      using that view \<open>union_cell S t ms\<close> \<open>t < _\<close> by (auto simp: union_cell_def)
    have "map (ID_of S') ms = map (ID_of S) ms" using at by (simp add: same_type_def)
    moreover have "base_list S' ms"
      using that(1) at len by (fastforce simp: union_cell_def base_list_def plain_def same_type_def)
    moreover have "reduced S' (set ms)"
      using that(1) at by (simp add: union_cell_def reduced_def numeric_def same_type_def)
    ultimately show ?thesis using that(1) unfolding union_cell_def by metis
  qed
  have unions: "union_cell S' t (ty_Types (type_at S' t))"
    if "t < length (in_types S')" "has_flag (Flags (type_at S' t)) [UnionT]" for t
  proof -
    have t: "t < length (in_types S)" using new [OF that(1)] that(2) by (meson not_less)
    then show ?thesis
      using view [OF t] that(2) heap_invD(2) [OF inv t] cell [OF _ t] by (simp add: same_type_def)
  qed
  have ids: "ids S' ms = ids S ms" if "set ms \<subseteq> {..<length (in_types S)}" for ms
    unfolding ids_def using that id by (intro arg_cong [where f = "\<lambda>ws. Join ws '',''"]) auto
  have "Flags (type_at S' t) = f \<and> \<not> ty_AnyArith (type_at S' t)"
    if "in_byKey S' (''i'' @ itoa (uint f)) = Some t" for f t
    using heap_invD(3,4) [OF inv keys [OF that]] view [OF byKey [OF that]] by (simp add: same_type_def)
  moreover have "has_flag (Flags (type_at S' t)) [UnionT] \<and> r = ids S' (ty_Types (type_at S' t))"
    if k: "in_byKey S' (''u'' @ r) = Some t" for r t
  proof -
    have u: "has_flag (Flags (type_at S t)) [UnionT]" "r = ids S (ty_Types (type_at S t))"
      using heap_invD(5,6) [OF inv keys [OF k]] by auto
    have "set (ty_Types (type_at S t)) \<subseteq> {..<length (in_types S)}"
      using heap_invD(2) [OF inv byKey [OF k] u(1)] byKey [OF k] by (auto simp: union_cell_def)
    with u view [OF byKey [OF k]] ids show ?thesis by (simp add: same_type_def)
  qed
  ultimately show ?thesis using table unions by (simp add: heap_inv_def)
qed

lemma types_reach_heap: "types_reach addr ss S \<Longrightarrow> heap_inv S"
proof (induction rule: types_reach.induct)
  case start
  then show ?case by (rule new_interner_heap)
next
  case (asked S r)
  then show ?case by (simp add: run_heap)
next
  case (united S ts)
  obtain t S' where "union ts S = (t, S')" by fastforce
  with union_reduced_heap [OF united.IH united.hyps(2)] show ?case by simp
next
  case (named S c k)
  then show ?case by (intro intern_heap) (simp_all add: new_cell_ok_def)
next
  case (outside S c)
  then show ?case
    by (intro heap_view [OF outside.IH]) (auto simp: type_at_def nth_append same_type_def)
next
  case (filled S t c)
  then show ?case
    by (intro heap_view [OF filled.IH]) (auto simp: type_at_def nth_list_update same_type_def)
next
  case (forgotten S k)
  then show ?case
    by (intro heap_view [OF forgotten.IH]) (auto simp: type_at_def same_type_def split: if_splits)
qed

section \<open>Properties\<close>

text \<open>C15. A union denotes its reduced members. In every state the checker reaches, for interned
  arguments without \<open>any\<close> and \<open>unknown\<close>, the type \<open>union\<close> gives stands for exactly the
  flattened arguments, less \<open>never\<close>, less the numbers that an \<open>any\<close> arithmetic's number
  absorbs, less each literal whose primitive is there, with \<open>boolean\<close> for \<open>true\<close> and
  \<open>false\<close>; and when it is a union cell, its members are older types, distinct, at least two
  and in the order of their IDs.\<close>

theorem union_denotes_reduced:
  assumes "types_reach addr ss S" and "union_args S ts" and "union ts S = (t, S')"
  shows "parts S' t = union_of S (flat_set S ts) (fst (intrinsic BooleanT S)) \<and> extends S S'
    \<and> (\<not> has_flag (Flags (type_at S' t)) [UnionT] \<or> union_cell S' t (ty_Types (type_at S' t)))"
proof -
  have inv: "heap_inv S" by (rule types_reach_heap [OF assms(1)])
  note out = union_result [OF inv assms(2,3)]
  then show ?thesis using heap_invD(2) [of S' t] by blast
qed






text \<open>A table with \<open>string\<close>, \<open>number\<close> and the literal \<open>"a"\<close>.\<close>

definition tiny_heap :: interner where
  "tiny_heap = snd (literal StringLiteralT ''a'' (snd (intrinsic NumberT (snd (intrinsic StringT new_interner)))))"

lemma tiny_flags:
  "\<not> has_flag StringT [UnionT]" "\<not> has_flag StringT [NeverT]" "\<not> has_flag StringT [AnyT]"
  "\<not> has_flag StringT [UnknownT]" "primitive_of StringT = 0" "\<not> has_flag NumberT [UnionT]"
  "\<not> has_flag NumberT [NeverT]" "\<not> has_flag NumberT [AnyT]" "\<not> has_flag NumberT [UnknownT]"
  "primitive_of NumberT = 0" "\<not> has_flag StringLiteralT [UnionT]" "\<not> has_flag StringLiteralT [NeverT]"
  "\<not> has_flag StringLiteralT [AnyT]" "\<not> has_flag StringLiteralT [UnknownT]" "primitive_of StringLiteralT = StringT"
  "\<not> has_flag StringT [BooleanLiteralT]" "\<not> has_flag NumberT [BooleanLiteralT]"
  "\<not> has_flag StringLiteralT [BooleanLiteralT]" "has_flag StringT [StringT]" "StringT \<noteq> 0"
  "uint StringT = 4" "uint NumberT = 8"
  by (simp_all add: has_flag_def type_flag_defs primitive_of_def Literal_masks_def)

lemma tiny_cells:
  "in_types tiny_heap = [zero_type\<lparr>Flags := StringT, ty_ID := 1\<rparr>, zero_type\<lparr>Flags := NumberT, ty_ID := 2\<rparr>,
     zero_type\<lparr>Flags := StringLiteralT, ty_Value := ''a'', ty_ID := 3\<rparr>]"
  by (simp add: tiny_heap_def intrinsic_def literal_def intern_def new_interner_def tiny_flags)

lemma tiny_reach: "types_reach addr ss tiny_heap"
proof -
  have "types_reach addr ss (snd (run addr ss (RIntrinsic StringT) new_interner))"
    by (rule asked [OF start]) (simp add: good_request_def tiny_flags)
  then have "types_reach addr ss (snd (run addr ss (RIntrinsic NumberT) (snd (intrinsic StringT new_interner))))"
    by (intro asked) (simp_all add: good_request_def tiny_flags)
  then have "types_reach addr ss (snd (run addr ss (RLiteral StringLiteralT ''a'')
      (snd (intrinsic NumberT (snd (intrinsic StringT new_interner))))))"
    by (intro asked) (simp_all add: good_request_def tiny_flags)
  then show ?thesis by (simp add: tiny_heap_def)
qed

lemma tiny_at:
  "Flags (type_at tiny_heap 0) = StringT" "Flags (type_at tiny_heap (Suc 0)) = NumberT"
  "Flags (type_at tiny_heap 2) = StringLiteralT" "ID_of tiny_heap 0 = 1" "ID_of tiny_heap (Suc 0) = 2"
  "ID_of tiny_heap 2 = 3" "\<not> ty_AnyArith (type_at tiny_heap 0)" "\<not> ty_AnyArith (type_at tiny_heap (Suc 0))"
  "\<not> ty_AnyArith (type_at tiny_heap 2)" "length (in_types tiny_heap) = 3"
  by (simp_all add: type_at_def tiny_cells zero_type_def)

lemma tiny_args:
  "union_args tiny_heap [Some 0, Some 1, Some 2]" "union_args tiny_heap [Some 2, None, Some 1, Some 0, Some 1]"
  "flat_set tiny_heap [Some 0, Some 1, Some 2] = {0, 1, 2}"
  "flat_set tiny_heap [Some 2, None, Some 1, Some 0, Some 1] = {0, 1, 2}"
  by (auto simp: union_args_def args_ok_def no_unknown_def parts_def tiny_at tiny_flags)

lemma tiny_union_of: "union_of tiny_heap {0, 1, 2} b = {0, 1}"
proof -
  have "absorbed tiny_heap {0, 1, 2} = {0, 1, 2}" by (auto simp: absorbed_def tiny_at)
  moreover have "\<not> both_booleans tiny_heap {0, 1, 2}"
    by (simp add: both_booleans_def boolean_value_def tiny_at tiny_flags)
  ultimately show ?thesis
    by (auto simp: union_of_def kept_def present_def tiny_at tiny_flags)
qed

theorem union_denotes_reduced_witness:
  "parts (snd (union [Some 0, Some 1, Some 2] tiny_heap)) (fst (union [Some 0, Some 1, Some 2] tiny_heap)) = {0, 1}"
  using union_denotes_reduced [OF tiny_reach tiny_args(1) prod.collapse [symmetric]]
  by (simp only: tiny_args(3) tiny_union_of)




end
