(* ===== verification/GoFloat.thy ===== *)
theory GoFloat
  imports Decimal
begin

text \<open>
  \<open>strconv.ParseFloat(s, 64)\<close>, as far as the modelled code uses it: whether it returns without
  an error. The text must be a special value or a whole number in Go's syntax (decimal, or
  hexadecimal with a binary exponent, underscores between digits), and not so large that it
  rounds past the largest \<open>float64\<close>.
\<close>

definition lower_is :: "char \<Rightarrow> string \<Rightarrow> bool" where
  "lower_is c cs \<longleftrightarrow> lower_byte c \<in> set cs"

definition unsigned_part :: "string \<Rightarrow> string" where
  "unsigned_part s = (case s of c # cs \<Rightarrow> if c = CHR ''+'' \<or> c = CHR ''-'' then cs else s | [] \<Rightarrow> s)"

definition special_float :: "string \<Rightarrow> bool" where
  "special_float s \<longleftrightarrow> map lower_byte (unsigned_part s) \<in> {''inf'', ''infinity''} \<or> map lower_byte s = ''nan''"

definition float_digit :: "bool \<Rightarrow> char \<Rightarrow> nat option" where
  "float_digit hex c =
    (if ascii_digit c then Some (ord c - 0x30)
     else if hex \<and> 0x61 \<le> ord (lower_byte c) \<and> ord (lower_byte c) \<le> 0x66 then Some (ord (lower_byte c) - 0x57)
     else None)"

text \<open>The loop over the mantissa: whether it saw a dot and a digit, the digits read as one
  number, and how many of them stand behind the dot.\<close>

fun read_mantissa :: "bool \<Rightarrow> string \<Rightarrow> bool \<Rightarrow> bool \<Rightarrow> nat \<Rightarrow> nat \<Rightarrow> (bool \<times> nat \<times> nat) \<times> string" where
  "read_mantissa hex [] dot seen m frac = ((seen, m, frac), [])"
| "read_mantissa hex (c # cs) dot seen m frac =
    (if c = CHR ''_'' then read_mantissa hex cs dot seen m frac
     else if c = CHR ''.'' then (if dot then ((seen, m, frac), c # cs) else read_mantissa hex cs True seen m frac)
     else (case float_digit hex c of
         Some d \<Rightarrow> read_mantissa hex cs dot True (m * (if hex then 16 else 10) + d) (if dot then frac + 1 else frac)
       | None \<Rightarrow> ((seen, m, frac), c # cs)))"

text \<open>The digits of the exponent; the loop stops counting at 10000.\<close>

fun read_exponent :: "string \<Rightarrow> nat \<Rightarrow> nat \<times> string" where
  "read_exponent [] e = (e, [])"
| "read_exponent (c # cs) e =
    (if c = CHR ''_'' then read_exponent cs e
     else if ascii_digit c then read_exponent cs (if e < 10000 then e * 10 + (ord c - 0x30) else e)
     else (e, c # cs))"

text \<open>\<open>underscoreOK\<close>'s loop; the state is the class of the last character, a digit (\<open>0\<close>), an
  underscore or another.\<close>

fun underscores :: "bool \<Rightarrow> char \<Rightarrow> string \<Rightarrow> bool" where
  "underscores hex prev [] \<longleftrightarrow> prev \<noteq> CHR ''_''"
| "underscores hex prev (c # cs) \<longleftrightarrow>
    (if float_digit hex c \<noteq> None then underscores hex (CHR ''0'') cs
     else if c = CHR ''_'' then prev = CHR ''0'' \<and> underscores hex (CHR ''_'') cs
     else prev \<noteq> CHR ''_'' \<and> underscores hex (CHR ''!'') cs)"

definition underscoreOK :: "string \<Rightarrow> bool" where
  "underscoreOK s \<longleftrightarrow>
    (case unsigned_part s of
       c # x # cs \<Rightarrow> if c = CHR ''0'' \<and> lower_is x ''box'' then underscores (lower_is x ''x'') (CHR ''0'') cs
         else underscores False (CHR ''!'') (c # x # cs)
     | cs \<Rightarrow> underscores False (CHR ''!'') cs)"

text \<open>The number a whole text reads as: a mantissa over a power of the base, times a power of
  ten (of two, for a hexadecimal one).\<close>

definition read_float :: "string \<Rightarrow> (bool \<times> nat \<times> nat \<times> int) option" where
  "read_float s =
    (let digits = unsigned_part s;
         hex = (case digits of c # x # _ # _ \<Rightarrow> c = CHR ''0'' \<and> lower_is x ''x'' | _ \<Rightarrow> False);
         ((seen, m, frac), rest) = read_mantissa hex (if hex then drop 2 digits else digits) False False 0 0
     in if \<not> seen then None
        else (case rest of
            [] \<Rightarrow> if hex then None else Some (hex, m, frac, 0)
          | c # cs \<Rightarrow>
              if \<not> lower_is c (if hex then ''p'' else ''e'') then None
              else (let neg = (case cs of d # _ \<Rightarrow> d = CHR ''-'' | [] \<Rightarrow> False);
                        ds = unsigned_part cs
                    in case ds of
                         [] \<Rightarrow> None
                       | d # _ \<Rightarrow>
                           if \<not> ascii_digit d then None
                           else (let (e, after) = read_exponent ds 0
                                 in if after \<noteq> [] then None
                                    else Some (hex, m, frac, if neg then - int e else int e)))))"

text \<open>Whether the value rounds past the largest \<open>float64\<close>: it is at least \<open>2^1024 - 2^970\<close>.\<close>

definition float_overflows :: "bool \<times> nat \<times> nat \<times> int \<Rightarrow> bool" where
  "float_overflows = (\<lambda>(hex, m, frac, e).
    (let base = (if hex then 16 else 10 :: int); scale = (if hex then 2 else 10 :: int) in
     if 0 \<le> e then (2 ^ 1024 - 2 ^ 970) * base ^ frac \<le> int m * scale ^ nat e
     else (2 ^ 1024 - 2 ^ 970) * base ^ frac * scale ^ nat (- e) \<le> int m))"

definition ParseFloat_ok :: "string \<Rightarrow> bool" where
  "ParseFloat_ok s \<longleftrightarrow> special_float s
    \<or> (case read_float s of
         Some v \<Rightarrow> \<not> float_overflows v \<and> (CHR ''_'' \<in> set s \<longrightarrow> underscoreOK s)
       | None \<Rightarrow> False)"

end
