(* ===== verification/CheckerState.thy ===== *)
theory CheckerState
  imports Scopes Unions GoFloat
begin

text \<open>
  The checker's state as far as relating types reads and changes it (\<open>checker/checker.go\<close>), the
  members of TypeScript's library interfaces (\<open>lib/lib.go\<close>), and the combinators the relation is
  written with. An action takes the checker, and gives a result or the reason there is none,
  with the checker it leaves.
\<close>

section \<open>The state and actions on it\<close>

datatype ternary = No | Maybe | Yes

record relation =
  missingIsNo :: bool

type_synonym relKey = "ty \<times> ty \<times> relation"

record checker =
  ck_in :: interner
  relMemo :: "relKey \<rightharpoonup> ternary"
  relActive :: "relKey set"
  relAssumed :: nat

text \<open>Why an action has no result: the code panics, or it does not return.\<close>

datatype halt = Panicked panic | Endless

type_synonym ('c, 'a) action = "'c \<Rightarrow> (halt + 'a) \<times> 'c"

definition answer :: "'a \<Rightarrow> ('c, 'a) action" where
  "answer x = (\<lambda>c. (Inr x, c))"

definition stop :: "halt \<Rightarrow> ('c, 'a) action" where
  "stop e = (\<lambda>c. (Inl e, c))"

definition after :: "('c, 'a) action \<Rightarrow> ('a \<Rightarrow> ('c, 'b) action) \<Rightarrow> ('c, 'b) action" where
  "after m f = (\<lambda>c. case m c of (Inl e, c') \<Rightarrow> (Inl e, c') | (Inr x, c') \<Rightarrow> f x c')"

definition reading :: "('c \<Rightarrow> ('c, 'a) action) \<Rightarrow> ('c, 'a) action" where
  "reading f = (\<lambda>c. f c c)"

text \<open>A pure function of the interner, a result with a panic, a walk that may not end.\<close>

definition interning :: "(interner \<Rightarrow> 'a \<times> interner) \<Rightarrow> ('e checker_scheme, 'a) action" where
  "interning f = (\<lambda>c. let (x, S) = f (ck_in c) in (Inr x, c\<lparr>ck_in := S\<rparr>))"

definition settled :: "(panic + 'a) option \<Rightarrow> ('c, 'a) action" where
  "settled r = (case r of None \<Rightarrow> stop Endless | Some (Inl e) \<Rightarrow> stop (Panicked e) | Some (Inr x) \<Rightarrow> answer x)"

definition walked :: "'a option \<Rightarrow> ('c, 'a) action" where
  "walked r = (case r of None \<Rightarrow> stop Endless | Some x \<Rightarrow> answer x)"

definition pointed :: "'a option \<Rightarrow> ('a \<Rightarrow> ('c, 'b) action) \<Rightarrow> ('c, 'b) action" where
  "pointed p f = (case p of None \<Rightarrow> stop (Panicked NilDereference) | Some x \<Rightarrow> f x)"

text \<open>The cell of a type, as the checker holds it now.\<close>

definition with_cell :: "ty \<Rightarrow> (Type \<Rightarrow> ('e checker_scheme, 'a) action) \<Rightarrow> ('e checker_scheme, 'a) action" where
  "with_cell t f = reading (\<lambda>c. f (type_at (ck_in c) t))"

section \<open>The program and its library\<close>

text \<open>What stays fixed while types are related: the binder's result, the global and the module
  scope, the types \<open>NewWith\<close> makes once, and the text of \<open>lib/tsmembers.txt\<close>.\<close>

record program =
  pg_Symbols :: "Symbol list"
  pg_Scopes :: "Scope list"
  pg_Globals :: "scope_ptr option"
  pg_Module :: "scope_ptr option"
  pg_boolT :: ty
  pg_trueT :: ty
  pg_falseT :: ty
  pg_missingT :: ty
  pg_unanswered :: ty
  pg_members :: string

text \<open>The types of \<open>NewWith\<close>, in its order; the unanswered type stands outside the table.\<close>

definition NewWith :: "Symbol list \<Rightarrow> Scope list \<Rightarrow> scope_ptr option \<Rightarrow> scope_ptr option \<Rightarrow> string \<Rightarrow> program \<times> checker" where
  "NewWith ss H globals module members =
    (let S = snd (intrinsic AnyT new_interner);
         S = snd (intrinsic UnknownT S);
         S = snd (intrinsic NonPrimitiveT S);
         S = snd (object [] S);
         S = snd (intern ''this'' (zero_type\<lparr>Flags := TypeParamT, ty_Value := ''this''\<rparr>) S);
         S = snd (intrinsic StringT S);
         S = snd (intrinsic NumberT S);
         (boolT, S) = intrinsic BooleanT S;
         S = snd (intrinsic BigIntT S);
         S = snd (intrinsic ESSymbolT S);
         S = snd (intrinsic VoidT S);
         S = snd (intrinsic UndefinedT S);
         S = snd (intrinsic NullT S);
         (missingT, S) = intern ''missing'' (zero_type\<lparr>Flags := UndefinedT, ty_Value := ''missing''\<rparr>) S;
         S = snd (intrinsic NeverT S);
         (trueT, S) = literal BooleanLiteralT ''true'' S;
         (falseT, S) = literal BooleanLiteralT ''false'' S;
         unanswered = length (in_types S);
         S = S\<lparr>in_types := in_types S @ [zero_type\<lparr>Flags := AnyT, ty_Value := ''unanswered'', ty_ID := - 1\<rparr>]\<rparr>
     in (\<lparr>pg_Symbols = ss, pg_Scopes = H, pg_Globals = globals, pg_Module = module, pg_boolT = boolT,
           pg_trueT = trueT, pg_falseT = falseT, pg_missingT = missingT, pg_unanswered = unanswered,
           pg_members = members\<rparr>,
         \<lparr>ck_in = S, relMemo = Map.empty, relActive = {}, relAssumed = 0\<rparr>))"

text \<open>The two questions the relation asks of the type evaluator, which is not modelled: the type
  of an interface with its type arguments, and what iterating a type yields.\<close>

record 'c evaluator =
  ev_interfaceOf :: "symbol_ptr \<Rightarrow> ty list \<Rightarrow> 'c \<Rightarrow> ty \<times> 'c"
  ev_iteratedType :: "ty \<Rightarrow> 'c \<Rightarrow> ty \<times> 'c"

definition evaluated :: "('c \<Rightarrow> 'a \<times> 'c) \<Rightarrow> ('c, 'a) action" where
  "evaluated f = (\<lambda>c. let (x, c') = f c in (Inr x, c'))"

definition Unanswered :: "program \<Rightarrow> ty \<Rightarrow> bool" where
  "Unanswered pg t \<longleftrightarrow> t = pg_unanswered pg"

definition inLibrary :: "program \<Rightarrow> scope_ptr option \<Rightarrow> bool option" where
  "inLibrary pg scope =
    (if pg_Globals pg = None then Some False
     else map_option (\<lambda>r. r = Some True) (walk_up (pg_Scopes pg)
       (\<lambda>s. if Some s = pg_Module pg then Some False else if Some s = pg_Globals pg then Some True else None) scope))"

text \<open>\<open>strings.SplitN\<close> on a one-byte separator and \<open>strings.Fields\<close>.\<close>

fun SplitN :: "nat \<Rightarrow> string \<Rightarrow> char \<Rightarrow> string list" where
  "SplitN 0 s sep = []"
| "SplitN (Suc 0) s sep = [s]"
| "SplitN (Suc n) s sep =
    (if sep \<in> set s then takeWhile (\<lambda>c. c \<noteq> sep) s # SplitN n (tl (dropWhile (\<lambda>c. c \<noteq> sep) s)) sep else [s])"

function fields_from :: "string \<Rightarrow> string \<Rightarrow> string list" where
  "fields_from s word =
    (if s = [] then (if word = [] then [] else [word])
     else (let (r, w) = decode_rune s in
       if IsSpace r then (if word = [] then [] else [word]) @ fields_from (drop w s) []
       else fields_from (drop w s) (word @ take w s)))"
  by pat_completeness auto
termination
proof (relation "measure (\<lambda>(s, _). length s)", goal_cases)
  case (2 s word p r w)
  then have "0 < w" using decode_width_pos [of s] by (metis snd_conv)
  with 2 show ?case by simp
next
  case (3 s word p r w)
  then have "0 < w" using decode_width_pos [of s] by (metis snd_conv)
  with 3 show ?case by simp
qed simp

declare fields_from.simps [simp del]

definition Fields :: "string \<Rightarrow> string list" where
  "Fields s = fields_from s []"

text \<open>The lines of \<open>tsmembers.txt\<close>: each interface with its bases and members; of two lines for
  one name the later counts.\<close>

definition member_line :: "string \<Rightarrow> (string \<times> string list \<times> string list) option" where
  "member_line line =
    (if line = [] \<or> HasPrefix line ''#'' then None
     else (case SplitN 3 line (CHR 0x09) of
         [name, bases, ms] \<Rightarrow> Some (name, if bases = [] then [] else Split bases (CHR '',''), Fields ms)
       | _ \<Rightarrow> None))"

definition tsMembers :: "string \<Rightarrow> (string \<times> string list \<times> string list) list" where
  "tsMembers text = rev (List.map_filter member_line (Split text (CHR 0x0A)))"

text \<open>The walk through an interface and its bases, with the names still to visit.\<close>

function walk_bases :: "(string \<times> string list \<times> string list) list \<Rightarrow> string \<Rightarrow> string list \<Rightarrow> string list \<Rightarrow> bool" where
  "walk_bases T member [] seen = False"
| "walk_bases T member (n # ns) seen =
    (case map_of T n of
       None \<Rightarrow> walk_bases T member ns seen
     | Some (bases, ms) \<Rightarrow>
        if n \<in> set seen then walk_bases T member ns seen
        else if member \<in> set ms then True
        else walk_bases T member (bases @ ns) (n # seen))"
  by pat_completeness auto
termination
proof (relation "measures [\<lambda>(T, _, _, seen). card (fst ` set T - set seen), \<lambda>(_, _, ns, _). length ns]", goal_cases)
  case (4 T member n ns seen p bases ms)
  have "n \<in> fst ` set T - set seen"
    using 4 by (metis Diff_iff map_of_eq_None_iff option.distinct(1))
  then have "fst ` set T - set (n # seen) \<subset> fst ` set T - set seen" by auto
  then have "card (fst ` set T - set (n # seen)) < card (fst ` set T - set seen)"
    by (intro psubset_card_mono) auto
  then show ?case by simp
qed auto

declare walk_bases.simps [simp del]

definition TSInterfaceHas :: "program \<Rightarrow> string \<Rightarrow> string \<Rightarrow> bool \<times> bool" where
  "TSInterfaceHas pg name member =
    (let T = tsMembers (pg_members pg) in
     if map_of T name = None then (False, False) else (True, walk_bases T member [name] []))"

end
