(* ===== verification/Relate.thy ===== *)
theory Relate
  imports CheckerState
begin

text \<open>
  Assignability (\<open>checker/relate.go\<close>): whether a value of one type goes where another is asked,
  answered \<open>Yes\<close>, \<open>No\<close> or \<open>Maybe\<close>. The definitions stand in the order of the calls, helpers
  first; those that ask the relation about parts take it as the argument \<open>rel\<close>, and \<open>relate\<close>
  ties the knot with fuel. The code gives up at depth 21, so 22 is always enough fuel
  (\<open>RelateFacts.relate_answers\<close>). A cell is read again after every call that may change it.
\<close>

section \<open>Answers\<close>

definition ternary_rank :: "ternary \<Rightarrow> nat" where
  "ternary_rank x = (case x of No \<Rightarrow> 0 | Maybe \<Rightarrow> 1 | Yes \<Rightarrow> 2)"

instantiation ternary :: linorder
begin

definition less_eq_ternary :: "ternary \<Rightarrow> ternary \<Rightarrow> bool" where
  "less_eq_ternary x y \<longleftrightarrow> ternary_rank x \<le> ternary_rank y"

definition less_ternary :: "ternary \<Rightarrow> ternary \<Rightarrow> bool" where
  "less_ternary x y \<longleftrightarrow> ternary_rank x < ternary_rank y"

instance
  by standard (auto simp: less_eq_ternary_def less_ternary_def ternary_rank_def split: ternary.splits)

end

definition all_tern :: "ternary list \<Rightarrow> ternary" where
  "all_tern rs = fold (\<lambda>r out. if r < out then r else out) rs Yes"

definition boolTern :: "bool \<Rightarrow> ternary" where
  "boolTern b = (if b then Yes else No)"

type_synonym 'c relating = "ty option \<Rightarrow> ty option \<Rightarrow> relation \<Rightarrow> nat \<Rightarrow> ('c, ternary) action"

text \<open>The loops of the code over a list of questions: every one must hold, one is enough, one
  \<open>No\<close> is enough, one answer other than \<open>No\<close> is enough.\<close>

primrec all_of :: "('a \<Rightarrow> ('c, ternary) action) \<Rightarrow> 'a list \<Rightarrow> ternary \<Rightarrow> ('c, ternary) action" where
  "all_of f [] out = answer out"
| "all_of f (x # xs) out = after (f x) (\<lambda>r. if r = No then answer No else all_of f xs (all_tern [out, r]))"

primrec some_of :: "('a \<Rightarrow> ('c, ternary) action) \<Rightarrow> 'a list \<Rightarrow> ternary \<Rightarrow> ('c, ternary) action" where
  "some_of f [] out = answer out"
| "some_of f (x # xs) out = after (f x) (\<lambda>r.
     if r = Yes then answer Yes else some_of f xs (if r = Maybe then Maybe else out))"

primrec one_no :: "('a \<Rightarrow> ('c, ternary) action) \<Rightarrow> 'a list \<Rightarrow> ('c, bool) action" where
  "one_no f [] = answer False"
| "one_no f (x # xs) = after (f x) (\<lambda>r. if r = No then answer True else one_no f xs)"

primrec one_not_no :: "('a \<Rightarrow> ('c, ternary) action) \<Rightarrow> 'a list \<Rightarrow> ('c, bool) action" where
  "one_not_no f [] = answer False"
| "one_not_no f (x # xs) = after (f x) (\<lambda>r. if r \<noteq> No then answer True else one_not_no f xs)"

text \<open>A condition whose last part is an action.\<close>

definition and_also :: "bool \<Rightarrow> ('c, bool) action \<Rightarrow> ('c, bool) action" where
  "and_also b m = (if b then m else answer False)"

section \<open>Questions about cells\<close>

definition is_object :: "Type \<Rightarrow> bool" where
  "is_object c \<longleftrightarrow> has_flag (Flags c) [ObjectT]"

definition is_union :: "Type \<Rightarrow> bool" where
  "is_union c \<longleftrightarrow> has_flag (Flags c) [UnionT]"

definition is_list :: "Type \<Rightarrow> bool" where
  "is_list c \<longleftrightarrow> ty_Kind c = Array \<or> ty_Kind c = Tuple"

definition empty_object :: "Type \<Rightarrow> bool" where
  "empty_object c \<longleftrightarrow> ty_Kind c = Anonymous \<and> ty_Props c = []"

definition members :: "interner \<Rightarrow> ty \<Rightarrow> ty list" where
  "members S t = (if is_union (type_at S t) then ty_Types (type_at S t) else [t])"

definition everyMember :: "interner \<Rightarrow> ty \<Rightarrow> TypeFlags list \<Rightarrow> bool" where
  "everyMember S t fs \<longleftrightarrow> list_all (\<lambda>m. has_flag (Flags (type_at S m)) fs) (members S t)"

definition unionHasArray :: "interner \<Rightarrow> Type \<Rightarrow> bool" where
  "unionHasArray S c \<longleftrightarrow> list_ex (\<lambda>m. is_object (type_at S m) \<and> is_list (type_at S m)) (ty_Types c)"

definition widenedAgainstLiterals :: "interner \<Rightarrow> ty \<Rightarrow> ty \<Rightarrow> bool" where
  "widenedAgainstLiterals S el t \<longleftrightarrow>
    has_flag (Flags (type_at S el)) [StringT, NumberT, BooleanT] \<and> \<not> has_flag (Flags (type_at S el)) Literal_masks
    \<and> (has_flag (Flags (type_at S t)) Literal_masks
       \<or> list_ex (\<lambda>m. has_flag (Flags (type_at S m)) Literal_masks) (ty_Types (type_at S t)))"

definition numericName :: "string \<Rightarrow> bool" where
  "numericName name \<longleftrightarrow> ParseFloat_ok name"

definition unit_flags :: "TypeFlags list" where
  "unit_flags = Literal_masks @ [BooleanT, NullT, UndefinedT]"

text \<open>A property typed as a unit, which \<open>sharesDiscriminant\<close> and \<open>nonDiscriminantRulesOut\<close>
  take for a discriminant.\<close>

definition unit_prop :: "interner \<Rightarrow> Property \<Rightarrow> bool" where
  "unit_prop S p \<longleftrightarrow> has_flag (Flags (type_at S (pr_Type p))) unit_flags
    \<or> is_union (type_at S (pr_Type p)) \<and> everyMember S (pr_Type p) unit_flags"

definition sharesDiscriminant :: "interner \<Rightarrow> Type \<Rightarrow> Type \<Rightarrow> bool" where
  "sharesDiscriminant S cs ct \<longleftrightarrow>
    list_ex (\<lambda>m. is_object (type_at S m)
      \<and> list_ex (\<lambda>mp. Prop cs (pr_Name mp) \<noteq> None \<and> unit_prop S mp) (ty_Props (type_at S m))) (ty_Types ct)"

definition discriminants :: "interner \<Rightarrow> Type \<Rightarrow> string list" where
  "discriminants S ct =
    concat (map (\<lambda>m. if is_object (type_at S m) then map pr_Name (filter (unit_prop S) (ty_Props (type_at S m))) else [])
      (ty_Types ct))"

definition discriminantValues :: "program \<Rightarrow> interner \<Rightarrow> ty \<Rightarrow> ty list" where
  "discriminantValues pg S t =
    concat (map (\<lambda>m. if has_flag (Flags (type_at S m)) [BooleanT] \<and> \<not> has_flag (Flags (type_at S m)) Literal_masks
      then [pg_trueT pg, pg_falseT pg] else [m]) (members S t))"

definition filter_type :: "program \<Rightarrow> (ty \<Rightarrow> bool) \<Rightarrow> ty \<Rightarrow> interner \<Rightarrow> ty \<times> interner" where
  "filter_type pg keep t S =
    (if has_flag (Flags (type_at S t)) [AnyT, UnknownT] then (t, S)
     else union (map Some (concat (map (\<lambda>m. if m = pg_boolT pg then filter keep [pg_trueT pg, pg_falseT pg]
       else if keep m then [m] else []) (members S t)))) S)"

definition withoutMissing :: "program \<Rightarrow> ty \<Rightarrow> interner \<Rightarrow> ty \<times> interner" where
  "withoutMissing pg t = filter_type pg (\<lambda>m. m \<noteq> pg_missingT pg) t"

definition sharesProp :: "Type \<Rightarrow> Type \<Rightarrow> bool" where
  "sharesProp cs ct \<longleftrightarrow> list_ex (\<lambda>p. Prop cs (pr_Name p) \<noteq> None) (ty_Props ct)"

definition weakType :: "Type \<Rightarrow> bool" where
  "weakType c \<longleftrightarrow> is_object c \<and> (ty_Kind c = Anonymous \<or> ty_Kind c = Interface) \<and> \<not> ty_partial c
    \<and> ty_Props c \<noteq> [] \<and> ty_Calls c = [] \<and> ty_Constructs c = [] \<and> list_all pr_Optional (ty_Props c)"

definition restElem :: "interner \<Rightarrow> ty \<Rightarrow> ty option" where
  "restElem S t =
    (let c = type_at S t in
     if has_flag (Flags c) [AnyT, UnknownT] then Some t
     else if is_object c \<and> ty_Kind c = Array then ty_Elem c
     else None)"

section \<open>The library's interfaces\<close>

definition symbol_of :: "program \<Rightarrow> symbol_ptr \<Rightarrow> Symbol" where
  "symbol_of pg sp = pg_Symbols pg ! sp"

definition global_interface :: "program \<Rightarrow> string \<Rightarrow> symbol_ptr option" where
  "global_interface pg name =
    (case pg_Globals pg of
       None \<Rightarrow> None
     | Some g \<Rightarrow>
       (case Get (sc_Symbols (pg_Scopes pg ! g)) name of
          Some sp \<Rightarrow> if has_flag (sym_Flags (symbol_of pg sp)) [InterfaceFlag] then Some sp else None
        | None \<Rightarrow> None))"

definition interface_answer :: "program \<Rightarrow> 'c evaluator \<Rightarrow> string \<Rightarrow> ty list \<Rightarrow> ('c, ty option) action" where
  "interface_answer pg ev name args =
    (case global_interface pg name of
       None \<Rightarrow> answer None
     | Some sp \<Rightarrow> after (evaluated (ev_interfaceOf ev sp args)) (\<lambda>t.
         answer (if Unanswered pg t then None else Some t)))"

definition objectProto :: "string list" where
  "objectProto = [''toString'', ''toLocaleString'', ''valueOf'', ''hasOwnProperty'', ''isPrototypeOf'',
     ''propertyIsEnumerable'', ''constructor'', ''__proto__'']"

text \<open>The type of the member a lookup finds, or \<open>None\<close>.\<close>

definition member_type :: "ty option \<Rightarrow> string \<Rightarrow> ('e checker_scheme, ty option) action" where
  "member_type p name =
    (case p of None \<Rightarrow> answer None | Some t \<Rightarrow> with_cell t (\<lambda>c. answer (map_option pr_Type (Prop c name))))"

definition objectMember :: "program \<Rightarrow> 'e checker_scheme evaluator \<Rightarrow> string \<Rightarrow> ('e checker_scheme, ty option) action" where
  "objectMember pg ev name =
    (if name \<notin> set objectProto \<or> name = ''__proto__'' then answer None
     else after (interface_answer pg ev ''Object'' []) (\<lambda>ot. member_type ot name))"

definition functionMember :: "program \<Rightarrow> 'e checker_scheme evaluator \<Rightarrow> string \<Rightarrow> ('e checker_scheme, ty option) action" where
  "functionMember pg ev name = after (interface_answer pg ev ''Function'' []) (\<lambda>ft. member_type ft name)"

definition apparentType :: "program \<Rightarrow> 'e checker_scheme evaluator \<Rightarrow> ty \<Rightarrow> ('e checker_scheme, ty option) action" where
  "apparentType pg ev t = with_cell t (\<lambda>c.
    (let f = Flags c in
     if pg_Globals pg = None \<or> is_union c then answer None
     else if has_flag f StringLike then interface_answer pg ev ''String'' []
     else if has_flag f NumberLike then interface_answer pg ev ''Number'' []
     else if has_flag f BooleanLike then interface_answer pg ev ''Boolean'' []
     else if has_flag f [ESSymbolT] then interface_answer pg ev ''Symbol'' []
     else if has_flag f BigIntLike then interface_answer pg ev ''BigInt'' []
     else if has_flag f [NonPrimitiveT] then interface_answer pg ev ''Object'' []
     else if is_object c \<and> ty_Kind c = Array then pointed (ty_Elem c) (\<lambda>e. interface_answer pg ev ''Array'' [e])
     else if is_object c \<and> ty_Kind c = Tuple \<and> ty_Elems c \<noteq> []
     then after (interning (union (map Some (ty_Elems c)))) (\<lambda>u. interface_answer pg ev ''Array'' [u])
     else answer None))"

definition in_library :: "program \<Rightarrow> symbol_ptr option \<Rightarrow> ('c, bool) action" where
  "in_library pg p = (case p of None \<Rightarrow> answer False | Some sp \<Rightarrow> walked (inLibrary pg (sym_Scope (symbol_of pg sp))))"

definition library_name :: "program \<Rightarrow> symbol_ptr option \<Rightarrow> ('c, string) action" where
  "library_name pg p = pointed p (\<lambda>sp. settled (sourceName (sym_Name (symbol_of pg sp))))"

definition libLacks :: "program \<Rightarrow> Type \<Rightarrow> string \<Rightarrow> ('c, bool) action" where
  "libLacks pg c name =
    (if ty_Symbol c = None \<or> Prop c name \<noteq> None \<or> ty_StringIndex c \<noteq> None
        \<or> ty_NumberIndex c \<noteq> None \<and> numericName name \<or> ty_Kind c \<noteq> Interface \<and> ty_Kind c \<noteq> Instance
     then answer False
     else after (in_library pg (ty_Symbol c)) (\<lambda>inside.
       if \<not> inside then answer False
       else after (library_name pg (ty_Symbol c)) (\<lambda>n.
         (let (known, has) = TSInterfaceHas pg n name in
          answer (known \<and> \<not> has
            \<and> \<not> ((ty_Calls c \<noteq> [] \<or> ty_Constructs c \<noteq> []) \<and> snd (TSInterfaceHas pg ''Function'' name)))))))"

definition libInterfaceKnown :: "program \<Rightarrow> Type \<Rightarrow> ('c, bool) action" where
  "libInterfaceKnown pg c =
    (if ty_Symbol c = None \<or> ty_Kind c \<noteq> Interface then answer False
     else after (in_library pg (ty_Symbol c)) (\<lambda>inside.
       if \<not> inside then answer False
       else after (library_name pg (ty_Symbol c)) (\<lambda>n. answer (fst (TSInterfaceHas pg n '''')))))"

definition apparentMembers :: "(string \<times> string list) list" where
  "apparentMembers =
    [(''Number'', [''toString'', ''toFixed'', ''toExponential'', ''toPrecision'', ''valueOf'', ''toLocaleString'']),
     (''Boolean'', [''valueOf'']),
     (''Symbol'', [''toString'', ''valueOf'', ''description'']),
     (''String'', [''toString'', ''charAt'', ''charCodeAt'', ''concat'', ''indexOf'', ''lastIndexOf'', ''localeCompare'',
       ''match'', ''replace'', ''search'', ''slice'', ''split'', ''substring'', ''toLowerCase'', ''toLocaleLowerCase'',
       ''toUpperCase'', ''toLocaleUpperCase'', ''trim'', ''length'', ''substr'', ''valueOf'', ''codePointAt'', ''includes'',
       ''endsWith'', ''normalize'', ''repeat'', ''startsWith'', ''anchor'', ''big'', ''blink'', ''bold'', ''fixed'',
       ''fontcolor'', ''fontsize'', ''italics'', ''link'', ''small'', ''strike'', ''sub'', ''sup'', ''padStart'', ''padEnd'',
       ''trimEnd'', ''trimStart'', ''trimLeft'', ''trimRight'', ''matchAll'', ''replaceAll'', ''at'', ''isWellFormed'',
       ''toWellFormed'']),
     (''Object'', [''constructor'', ''toString'', ''toLocaleString'', ''valueOf'', ''hasOwnProperty'', ''isPrototypeOf'',
       ''propertyIsEnumerable''])]"

definition apparent_members :: "string \<Rightarrow> string list" where
  "apparent_members name = (case map_of apparentMembers name of Some ms \<Rightarrow> ms | None \<Rightarrow> [])"

definition primitiveLacksLibraryMember ::
    "program \<Rightarrow> 'e checker_scheme evaluator \<Rightarrow> ty \<Rightarrow> ty \<Rightarrow> ('e checker_scheme, bool) action" where
  "primitiveLacksLibraryMember pg ev s t =
    after (apparentType pg ev s) (\<lambda>p.
      case p of
        None \<Rightarrow> answer False
      | Some a \<Rightarrow> with_cell a (\<lambda>ca. with_cell t (\<lambda>ct.
          case ty_Symbol ca of
            None \<Rightarrow> answer False
          | Some sp \<Rightarrow>
            if ty_Symbol ct = Some sp then answer False
            else (case map_of apparentMembers (sym_Name (symbol_of pg sp)) of
                None \<Rightarrow> answer False
              | Some own \<Rightarrow> answer (list_ex (\<lambda>p. \<not> (pr_Optional p \<or> pr_Name p \<in> set own
                  \<or> pr_Name p \<in> set (apparent_members ''Object'') \<or> Prop ca (pr_Name p) \<noteq> None
                  \<or> HasPrefix (pr_Name p) ''__@'' \<or> HasPrefix (pr_Name p) ''['')) (ty_Props ct))))))"

section \<open>Unions and brands\<close>

text \<open>A member of the union ruled out by its properties: the loop of \<open>nonDiscriminantRulesOut\<close>
  over one object member's properties, \<open>disc\<close> being the names of the discriminants.\<close>

primrec ruled_out :: "program \<Rightarrow> 'e checker_scheme relating \<Rightarrow> ty \<Rightarrow> relation \<Rightarrow> nat \<Rightarrow> string list \<Rightarrow>
    Property list \<Rightarrow> ('e checker_scheme, bool) action" where
  "ruled_out pg rel s r depth disc [] = answer False"
| "ruled_out pg rel s r depth disc (mp # ps) = with_cell s (\<lambda>cs. reading (\<lambda>c.
     (if pr_Name mp \<in> set disc
      then (case Prop cs (pr_Name mp) of
          Some sp \<Rightarrow> after (one_not_no (\<lambda>v. rel (Some v) (Some (pr_Type mp)) r (depth + 1))
              (discriminantValues pg (ck_in c) (pr_Type sp)))
            (\<lambda>overlap. if \<not> overlap then answer True else ruled_out pg rel s r depth disc ps)
        | None \<Rightarrow> ruled_out pg rel s r depth disc ps)
      else (case Prop cs (pr_Name mp) of
          None \<Rightarrow> if \<not> pr_Optional mp \<and> missingIsNo r then answer True else ruled_out pg rel s r depth disc ps
        | Some sp \<Rightarrow> after (rel (Some (pr_Type sp)) (Some (pr_Type mp)) r (depth + 1))
            (\<lambda>x. if x = No then answer True else ruled_out pg rel s r depth disc ps)))))"

primrec all_ruled_out :: "program \<Rightarrow> 'e checker_scheme relating \<Rightarrow> ty \<Rightarrow> relation \<Rightarrow> nat \<Rightarrow> string list \<Rightarrow> ty list \<Rightarrow>
    ('e checker_scheme, bool) action" where
  "all_ruled_out pg rel s r depth disc [] = answer True"
| "all_ruled_out pg rel s r depth disc (m # ms) = with_cell m (\<lambda>cm.
     if \<not> is_object cm then all_ruled_out pg rel s r depth disc ms
     else after (ruled_out pg rel s r depth disc (ty_Props cm))
       (\<lambda>out. if \<not> out then answer False else all_ruled_out pg rel s r depth disc ms))"

definition nonDiscriminantRulesOut ::
    "program \<Rightarrow> 'e checker_scheme relating \<Rightarrow> ty \<Rightarrow> ty \<Rightarrow> relation \<Rightarrow> nat \<Rightarrow> ('e checker_scheme, bool) action" where
  "nonDiscriminantRulesOut pg rel s t r depth = with_cell t (\<lambda>ct. reading (\<lambda>c.
     all_ruled_out pg rel s r depth (discriminants (ck_in c) ct) (ty_Types ct)))"

text \<open>A target union: some member must take the source; when none does and the source is an
  object, the rules of discriminated unions may leave the answer open.\<close>

definition relate_to_union ::
    "program \<Rightarrow> 'e checker_scheme relating \<Rightarrow> ty \<Rightarrow> ty \<Rightarrow> relation \<Rightarrow> nat \<Rightarrow> ('e checker_scheme, ternary) action" where
  "relate_to_union pg rel s t r depth = with_cell s (\<lambda>cs. with_cell t (\<lambda>ct.
     (let mrel = r\<lparr>missingIsNo := missingIsNo r \<or> is_object cs\<rparr> in
      after (some_of (\<lambda>m. rel (Some s) (Some m) mrel (depth + 1)) (ty_Types ct) No) (\<lambda>out.
        with_cell s (\<lambda>cs. with_cell t (\<lambda>ct. reading (\<lambda>c.
          (let S = ck_in c;
               objects = length (filter (\<lambda>m. is_object (type_at S m)) (ty_Types ct))
           in if out = No \<and> (is_object cs \<and> \<not> is_list cs \<or> is_list cs \<and> unionHasArray S ct) \<and> 1 < objects
              then (if is_list cs then answer Maybe
                    else if \<not> sharesDiscriminant S cs ct then answer out
                    else after (nonDiscriminantRulesOut pg rel s t r depth)
                      (\<lambda>ruled. answer (if ruled then out else Maybe)))
              else answer out))))))))"

text \<open>A branded source: to the union's own branded member, or where either part goes.\<close>

definition relate_branded ::
    "'e checker_scheme relating \<Rightarrow> ty \<Rightarrow> ty \<Rightarrow> relation \<Rightarrow> nat \<Rightarrow> ('e checker_scheme, ternary) action" where
  "relate_branded rel s t r depth = with_cell s (\<lambda>cs. with_cell t (\<lambda>ct. reading (\<lambda>c.
     (let brands = (if is_union ct then filter (\<lambda>m. ty_Brand (type_at (ck_in c) m) \<noteq> None) (ty_Types ct) else []) in
      after (some_of (\<lambda>m. rel (Some s) (Some m) r (depth + 1)) brands No) (\<lambda>own.
        if own = Yes then answer Yes
        else after (rel (ty_BrandBase cs) (Some t) r (depth + 1)) (\<lambda>x.
          if x \<noteq> No then answer x else rel (ty_Brand cs) (Some t) r (depth + 1)))))))"

definition unknown_to_union :: "interner \<Rightarrow> Type \<Rightarrow> bool" where
  "unknown_to_union S ct \<longleftrightarrow>
    (let mask = Bit_Operations.or NullT UndefinedT;
         f = fold (\<lambda>m f. Bit_Operations.or
           (if is_object (type_at S m) \<and> empty_object (type_at S m) then Bit_Operations.or f ObjectT else f)
           (Bit_Operations.and (Flags (type_at S m)) mask)) (ty_Types ct) 0
     in f = Bit_Operations.or ObjectT mask)"

section \<open>Signatures\<close>

text \<open>Parameters are compared both ways.\<close>

primrec both_ways :: "'c relating \<Rightarrow> relation \<Rightarrow> nat \<Rightarrow> (ty option \<times> ty option) list \<Rightarrow> ternary \<Rightarrow> ('c, ternary) action" where
  "both_ways rel r depth [] out = answer out"
| "both_ways rel r depth (p # ps) out =
     after (rel (snd p) (fst p) r (depth + 1)) (\<lambda>x.
       if x = Yes then both_ways rel r depth ps out
       else after (rel (fst p) (snd p) r (depth + 1)) (\<lambda>y.
         if y = No \<and> x = No then answer No else both_ways rel r depth ps (all_tern [out, Maybe])))"

definition relate_results ::
    "'e checker_scheme relating \<Rightarrow> ty \<Rightarrow> ty \<Rightarrow> relation \<Rightarrow> nat \<Rightarrow> ternary \<Rightarrow> ('e checker_scheme, ternary) action" where
  "relate_results rel s t r depth out = with_cell s (\<lambda>cs. with_cell t (\<lambda>ct.
     pointed (ty_Result ct) (\<lambda>u. with_cell u (\<lambda>cu.
       if has_flag (Flags cu) [VoidT] then answer out
       else after (rel (ty_Result cs) (ty_Result ct) r (depth + 1)) (\<lambda>x. answer (all_tern [out, x]))))))"

definition fixed_params :: "Type \<Rightarrow> nat" where
  "fixed_params c = (if ty_restParam c then length (ty_Params c) - 1 else length (ty_Params c))"

definition param_or_rest :: "Type \<Rightarrow> ty option \<Rightarrow> nat \<Rightarrow> ty option" where
  "param_or_rest c rest i = (if i < fixed_params c then Some (ty_Params c ! i) else rest)"

text \<open>The positions in order: a source parameter the target never passes is a \<open>No\<close> unless it may
  be left out.\<close>

primrec rest_positions :: "'c relating \<Rightarrow> relation \<Rightarrow> nat \<Rightarrow> bool list \<Rightarrow> (nat \<times> ty option \<times> ty option) list \<Rightarrow>
    ternary \<Rightarrow> ('c, ternary) action" where
  "rest_positions rel r depth opts [] out = answer out"
| "rest_positions rel r depth opts (q # qs) out =
     (case q of
        (i, sp, tp) \<Rightarrow>
          if sp = None \<or> tp = None
          then (if sp \<noteq> None \<and> \<not> (i < length opts \<and> opts ! i) \<and> tp = None then answer No
                else rest_positions rel r depth opts qs out)
          else after (rel tp sp r (depth + 1)) (\<lambda>x.
            if x = Yes then rest_positions rel r depth opts qs out
            else after (rel sp tp r (depth + 1)) (\<lambda>y.
              if y = No \<and> x = No then answer No
              else rest_positions rel r depth opts qs (all_tern [out, Maybe]))))"

text \<open>A rest parameter that is not there: the code indexes the empty list of parameters.\<close>

definition relateRestSignatures ::
    "'e checker_scheme relating \<Rightarrow> ty \<Rightarrow> ty \<Rightarrow> relation \<Rightarrow> nat \<Rightarrow> ('e checker_scheme, ternary) action" where
  "relateRestSignatures rel s t r depth = with_cell s (\<lambda>cs. with_cell t (\<lambda>ct. reading (\<lambda>c.
     (let S = ck_in c;
          rest = (\<lambda>c. if ty_restParam c then restElem S (last (ty_Params c)) else None)
      in if ty_restParam cs \<and> ty_Params cs = [] then stop (Panicked IndexOutOfRange)
         else if ty_restParam cs \<and> rest cs = None then answer Maybe
         else if ty_restParam ct \<and> ty_Params ct = [] then stop (Panicked IndexOutOfRange)
         else if ty_restParam ct \<and> rest ct = None then answer Maybe
         else after (rest_positions rel r depth (ty_optionals cs)
             (map (\<lambda>i. (i, param_or_rest cs (rest cs) i, param_or_rest ct (rest ct) i))
               [0..<max (fixed_params cs) (fixed_params ct)]) Yes) (\<lambda>out.
           if out = No then answer No
           else after (if rest cs \<noteq> None \<and> rest ct \<noteq> None then both_ways rel r depth [(rest cs, rest ct)] out
               else answer out) (\<lambda>out.
             if out = No then answer No else relate_results rel s t r depth out))))))"

text \<open>\<open>check.go\<close>'s \<open>expandTupleRest\<close>.\<close>

definition tuple_rest_params :: "Type \<Rightarrow> Type \<Rightarrow> ty list \<times> bool list" where
  "tuple_rest_params c rp =
    (let n = length (ty_Params c) in
     (butlast (ty_Params c) @ ty_Elems rp,
      if ty_optionals c \<noteq> [] \<or> 0 < ty_Opt rp
      then map (\<lambda>i. i < length (ty_optionals c) \<and> ty_optionals c ! i) [0..<n - 1]
        @ map (\<lambda>i. minLen rp \<le> int i) [0..<length (ty_Elems rp)]
      else []))"

definition expandTupleRest :: "ty \<Rightarrow> ('e checker_scheme, ty) action" where
  "expandTupleRest fn = with_cell fn (\<lambda>c.
     if \<not> ty_restParam c \<or> ty_Params c = [] then answer fn
     else with_cell (last (ty_Params c)) (\<lambda>rp.
       if \<not> is_object rp \<or> ty_Kind rp \<noteq> Tuple then answer fn
       else (let (params, opts) = tuple_rest_params c rp in
         pointed (ty_Result c) (\<lambda>result.
           after (interning (function_type params opts False result (ty_Predicate c) [])) (\<lambda>out.
             if ty_ThisType c = None then answer out
             else interning (\<lambda>S. (length (in_types S),
               S\<lparr>in_types := in_types S @ [(type_at S out)\<lparr>ty_ThisType := ty_ThisType c\<rparr>]\<rparr>)))))))"

definition relate_signatures ::
    "'e checker_scheme relating \<Rightarrow> ty \<Rightarrow> ty \<Rightarrow> relation \<Rightarrow> nat \<Rightarrow> ('e checker_scheme, ternary) action" where
  "relate_signatures rel s t r depth = with_cell s (\<lambda>cs. with_cell t (\<lambda>ct.
     if ty_Overloads cs \<noteq> [] \<and> ty_Overloads ct = [] \<and> ty_TypeParams ct = []
     then some_of (\<lambda>sig. rel (Some sig) (Some t) r (depth + 1)) (ty_Overloads cs) No
     else if ty_Overloads cs \<noteq> [] \<or> ty_Overloads ct \<noteq> [] \<or> ty_TypeParams cs \<noteq> [] \<or> ty_TypeParams ct \<noteq> []
     then answer Maybe
     else after (expandTupleRest s) (\<lambda>s. after (expandTupleRest t) (\<lambda>t.
       with_cell s (\<lambda>cs. with_cell t (\<lambda>ct. reading (\<lambda>c.
         if ty_restParam cs \<or> ty_restParam ct then relateRestSignatures rel s t r depth
         else if list_ex (\<lambda>p. has_flag (Flags (type_at (ck_in c) p)) [VoidT]) (ty_Params cs) then answer Maybe
         else if length (ty_Params ct) < MinArgs (ck_in c) cs then answer No
         else after (both_ways rel r depth (zip (map Some (ty_Params cs)) (map Some (ty_Params ct))) Yes) (\<lambda>out.
           if out = No then answer No else relate_results rel s t r depth out))))))))"

text \<open>A type guard takes only a source that guards alike.\<close>

definition guard_mismatch ::
    "'e checker_scheme relating \<Rightarrow> Type \<Rightarrow> Type \<Rightarrow> relation \<Rightarrow> nat \<Rightarrow> ('e checker_scheme, bool) action" where
  "guard_mismatch rel cs ct r depth =
    (case ty_Predicate ct of
       None \<Rightarrow> answer False
     | Some tp \<Rightarrow>
       if pd_Asserts tp \<or> ty_Overloads cs \<noteq> [] \<or> ty_Overloads ct \<noteq> [] then answer False
       else (case ty_Predicate cs of
           None \<Rightarrow> answer True
         | Some sp \<Rightarrow>
           if pd_Asserts sp \<or> pd_Index sp \<noteq> pd_Index tp then answer True
           else if pd_Type sp \<noteq> None \<and> pd_Type tp \<noteq> None
           then after (rel (pd_Type sp) (pd_Type tp) r (depth + 1)) (\<lambda>x. answer (x = No))
           else answer False))"

section \<open>Object types\<close>

definition relate_to_array ::
    "program \<Rightarrow> 'e checker_scheme relating \<Rightarrow> ty \<Rightarrow> ty \<Rightarrow> relation \<Rightarrow> nat \<Rightarrow> ('e checker_scheme, ternary) action" where
  "relate_to_array pg rel s t r depth = with_cell s (\<lambda>cs. with_cell t (\<lambda>ct.
     (case ty_Kind cs of
        Array \<Rightarrow> rel (ty_Elem cs) (ty_Elem ct) r (depth + 1)
      | Tuple \<Rightarrow> all_of (\<lambda>e. rel (Some e) (ty_Elem ct) r (depth + 1)) (ty_Elems cs) Yes
      | Function \<Rightarrow> answer No
      | Anonymous \<Rightarrow> answer (if Prop cs ''length'' = None then No else Maybe)
      | _ \<Rightarrow>
         if ty_Props cs \<noteq> [] \<and> Prop cs ''push'' = None \<and> Prop cs ''length'' \<noteq> None then answer No
         else after (and_also (ty_Props cs \<noteq> [] \<and> Prop cs ''length'' = None)
             (if \<not> ty_partial cs then answer True else libLacks pg cs ''length''))
           (\<lambda>lacks. answer (if lacks then No else Maybe)))))"

definition relate_to_tuple ::
    "'e checker_scheme relating \<Rightarrow> ty \<Rightarrow> ty \<Rightarrow> relation \<Rightarrow> nat \<Rightarrow> ('e checker_scheme, ternary) action" where
  "relate_to_tuple rel s t r depth = with_cell s (\<lambda>cs. with_cell t (\<lambda>ct.
     (case ty_Kind cs of
        Tuple \<Rightarrow>
          if length (ty_Elems ct) < length (ty_Elems cs) \<or> minLen cs < minLen ct then answer No
          else all_of (\<lambda>(x, y). rel (Some x) (Some y) r (depth + 1)) (zip (ty_Elems cs) (ty_Elems ct)) Yes
      | Array \<Rightarrow> answer No
      | Function \<Rightarrow> answer No
      | Anonymous \<Rightarrow> answer (if Prop cs ''length'' = None then No else Maybe)
      | _ \<Rightarrow> answer Maybe)))"

definition relate_to_function ::
    "'e checker_scheme relating \<Rightarrow> ty \<Rightarrow> ty \<Rightarrow> relation \<Rightarrow> nat \<Rightarrow> ('e checker_scheme, ternary) action" where
  "relate_to_function rel s t r depth = with_cell s (\<lambda>cs. with_cell t (\<lambda>ct.
     if ty_Kind cs \<noteq> Function
     then (if (ty_Kind cs = Anonymous \<or> ty_Kind cs = Interface) \<and> ty_Calls cs = [] \<and> length (ty_Constructs cs) = 1
           then after (rel (Some (hd (ty_Constructs cs))) (Some t) r (depth + 1))
             (\<lambda>x. answer (if x = No then No else Maybe))
           else answer Maybe)
     else after (guard_mismatch rel cs ct r depth) (\<lambda>mismatch.
       if mismatch then answer No else relate_signatures rel s t r depth)))"

text \<open>The elements of an array or a tuple, against what the target reads them as.\<close>

definition elements :: "Type \<Rightarrow> ty list" where
  "elements c = (if ty_Kind c = Array then (case ty_Elem c of Some e \<Rightarrow> [e] | None \<Rightarrow> []) else ty_Elems c)"

definition element_mismatch ::
    "'e checker_scheme relating \<Rightarrow> Type \<Rightarrow> ty \<Rightarrow> relation \<Rightarrow> nat \<Rightarrow> ('e checker_scheme, bool) action" where
  "element_mismatch rel cs u r depth = reading (\<lambda>c.
     one_no (\<lambda>el. rel (Some el) (Some u) r (depth + 1))
       (filter (\<lambda>el. \<not> widenedAgainstLiterals (ck_in c) el u) (elements cs)))"

text \<open>A required property that neither the array's apparent type nor every object has.\<close>

primrec lacks_required ::
    "program \<Rightarrow> 'e checker_scheme evaluator \<Rightarrow> ty \<Rightarrow> Property list \<Rightarrow> ('e checker_scheme, bool) action" where
  "lacks_required pg ev a [] = answer False"
| "lacks_required pg ev a (p # ps) = with_cell a (\<lambda>ca.
     after (if \<not> pr_Optional p \<and> Prop ca (pr_Name p) = None
            then after (objectMember pg ev (pr_Name p)) (\<lambda>m. answer (m = None)) else answer False)
       (\<lambda>lacks. if lacks then answer True else lacks_required pg ev a ps))"

definition iterable_names :: "string list" where
  "iterable_names = [''Iterable'', ''IterableIterator'']"

definition named_in :: "program \<Rightarrow> Type \<Rightarrow> string list \<Rightarrow> bool" where
  "named_in pg c names \<longleftrightarrow> (case ty_Symbol c of Some sp \<Rightarrow> sym_Name (symbol_of pg sp) \<in> set names | None \<Rightarrow> False)"

definition list_to_object :: "program \<Rightarrow> 'e checker_scheme evaluator \<Rightarrow> 'e checker_scheme relating \<Rightarrow> ty \<Rightarrow> ty \<Rightarrow>
    relation \<Rightarrow> nat \<Rightarrow> ('e checker_scheme, ternary) action" where
  "list_to_object pg ev rel s t r depth = with_cell s (\<lambda>cs. with_cell t (\<lambda>ct. reading (\<lambda>c.
     (let S = ck_in c;
          indexed = (\<lambda>p. case p of Some i \<Rightarrow> \<not> has_flag (Flags (type_at S i)) [AnyT] | None \<Rightarrow> False)
      in if indexed (ty_StringIndex ct) then answer No
         else after (if indexed (ty_NumberIndex ct) \<and> ty_Kind cs \<noteq> Function
             then pointed (ty_NumberIndex ct) (\<lambda>i. element_mismatch rel cs i r depth) else answer False) (\<lambda>bad.
           if bad then answer No
           else after (if ty_Kind cs \<noteq> Function \<and> ty_Kind ct = Interface \<and> ty_TypeArgs ct \<noteq> []
                  \<and> named_in pg ct (iterable_names @ [''ArrayLike''])
               then element_mismatch rel cs (hd (ty_TypeArgs ct)) r depth else answer False) (\<lambda>bad.
             if bad then answer No
             else if ty_Props ct = [] then answer Yes
             else if ty_Kind cs = Function then answer Maybe
             else after (apparentType pg ev s) (\<lambda>p.
               case p of
                 None \<Rightarrow> answer Maybe
               | Some a \<Rightarrow> after (lacks_required pg ev a (ty_Props ct)) (\<lambda>lacks.
                   answer (if lacks then No else Maybe)))))))))"

text \<open>The type of the source's property for a target's: its own, a callable's from
  \<open>Function\<close>, an object's from \<open>Object\<close>.\<close>

definition source_property ::
    "program \<Rightarrow> 'e checker_scheme evaluator \<Rightarrow> Type \<Rightarrow> string \<Rightarrow> ('e checker_scheme, ty option) action" where
  "source_property pg ev cs name =
    (case Prop cs name of
       Some p \<Rightarrow> answer (Some (pr_Type p))
     | None \<Rightarrow>
        after (if ty_Calls cs \<noteq> [] \<or> ty_Constructs cs \<noteq> [] then functionMember pg ev name else answer None)
          (\<lambda>m. if m \<noteq> None then answer m else objectMember pg ev name))"

primrec props_fit :: "program \<Rightarrow> 'e checker_scheme evaluator \<Rightarrow> 'e checker_scheme relating \<Rightarrow> ty \<Rightarrow> relation \<Rightarrow> nat \<Rightarrow>
    Property list \<Rightarrow> ternary \<Rightarrow> ('e checker_scheme, ternary) action" where
  "props_fit pg ev rel s r depth [] out = answer out"
| "props_fit pg ev rel s r depth (tp # ps) out = with_cell s (\<lambda>cs.
     after (source_property pg ev cs (pr_Name tp)) (\<lambda>sp.
       case sp of
         None \<Rightarrow>
           if pr_Optional tp then props_fit pg ev rel s r depth ps out
           else after (and_also (ty_partial cs) (after (libLacks pg cs (pr_Name tp)) (\<lambda>lacks. answer (\<not> lacks))))
             (\<lambda>open. if open then props_fit pg ev rel s r depth ps (all_tern [out, Maybe])
                     else answer (if missingIsNo r then No else Maybe))
       | Some u \<Rightarrow> after (rel (Some u) (Some (pr_Type tp)) r (depth + 1)) (\<lambda>x.
           if x = No then answer No else props_fit pg ev rel s r depth ps (all_tern [out, x]))))"

definition propsFit :: "program \<Rightarrow> 'e checker_scheme evaluator \<Rightarrow> 'e checker_scheme relating \<Rightarrow> ty \<Rightarrow> ty \<Rightarrow> relation \<Rightarrow>
    nat \<Rightarrow> ('e checker_scheme, ternary) action" where
  "propsFit pg ev rel s t r depth = with_cell t (\<lambda>ct. props_fit pg ev rel s r depth (ty_Props ct) Yes)"

text \<open>The properties an index signature covers, each without the missing type if it is optional.\<close>

primrec covered_fit :: "program \<Rightarrow> 'e checker_scheme relating \<Rightarrow> ty \<Rightarrow> relation \<Rightarrow> nat \<Rightarrow> Property list \<Rightarrow> ternary \<Rightarrow>
    ('e checker_scheme, ternary) action" where
  "covered_fit pg rel u r depth [] out = answer out"
| "covered_fit pg rel u r depth (p # ps) out =
     after (if pr_Optional p then interning (withoutMissing pg (pr_Type p)) else answer (pr_Type p)) (\<lambda>pt.
       after (rel (Some pt) (Some u) r (depth + 1)) (\<lambda>x.
         if x = No then answer No else covered_fit pg rel u r depth ps (all_tern [out, x])))"

text \<open>One kind of index signature; the second part of the answer says whether the loop over the
  kinds returns with it.\<close>

definition index_fit :: "program \<Rightarrow> 'e checker_scheme relating \<Rightarrow> ty \<Rightarrow> ty \<Rightarrow> relation \<Rightarrow> nat \<Rightarrow> bool \<Rightarrow> ternary \<Rightarrow>
    ('e checker_scheme, ternary \<times> bool) action" where
  "index_fit pg rel s t r depth numeric out = with_cell s (\<lambda>cs. with_cell t (\<lambda>ct.
     (case (if numeric then ty_NumberIndex ct else ty_StringIndex ct) of
        None \<Rightarrow> answer (out, False)
      | Some u \<Rightarrow>
        (let si = (if numeric \<and> ty_NumberIndex cs \<noteq> None then ty_NumberIndex cs else ty_StringIndex cs) in
         if si \<noteq> None
         then after (rel si (Some u) r (depth + 1))
           (\<lambda>x. answer (if x = No then (No, True) else (all_tern [out, x], False)))
         else after (and_also (ty_partial cs) (after (libInterfaceKnown pg cs) (\<lambda>known. answer (\<not> known)))) (\<lambda>open.
           if open \<or> ty_Kind cs \<noteq> Anonymous \<and> ty_Kind cs \<noteq> Interface \<and> ty_Kind cs \<noteq> Instance
           then answer (Maybe, True)
           else if ty_Kind cs \<noteq> Anonymous then answer (No, True)
           else after (covered_fit pg rel u r depth
               (filter (\<lambda>p. \<not> numeric \<or> numericName (pr_Name p)) (ty_Props cs)) out)
             (\<lambda>out. answer (out, out = No)))))))"

definition indexesFit ::
    "program \<Rightarrow> 'e checker_scheme relating \<Rightarrow> ty \<Rightarrow> ty \<Rightarrow> relation \<Rightarrow> nat \<Rightarrow> ('e checker_scheme, ternary) action" where
  "indexesFit pg rel s t r depth = with_cell t (\<lambda>ct. reading (\<lambda>c.
     if (case ty_StringIndex ct of Some i \<Rightarrow> has_flag (Flags (type_at (ck_in c) i)) [AnyT] | None \<Rightarrow> False)
     then answer Yes
     else after (index_fit pg rel s t r depth False Yes) (\<lambda>(out, done).
       if done then answer out
       else after (index_fit pg rel s t r depth True out) (\<lambda>(out, _). answer out))))"

definition construct_mismatch ::
    "'e checker_scheme relating \<Rightarrow> ty \<Rightarrow> ty \<Rightarrow> relation \<Rightarrow> nat \<Rightarrow> ('e checker_scheme, bool) action" where
  "construct_mismatch rel s t r depth = with_cell s (\<lambda>cs. with_cell t (\<lambda>ct.
     if length (ty_Constructs ct) = 1 \<and> length (ty_Constructs cs) = 1
        \<and> (ty_Kind cs = Anonymous \<or> ty_Kind cs = Interface)
     then after (rel (Some (hd (ty_Constructs cs))) (Some (hd (ty_Constructs ct))) r (depth + 1)) (\<lambda>x. answer (x = No))
     else answer False))"

text \<open>A source of the program's own against a library \<open>Iterable\<close> it must iterate as.\<close>

definition not_iterable ::
    "program \<Rightarrow> 'e checker_scheme evaluator \<Rightarrow> ty \<Rightarrow> ty \<Rightarrow> relation \<Rightarrow> ('e checker_scheme, bool) action" where
  "not_iterable pg ev s t r = with_cell s (\<lambda>cs. with_cell t (\<lambda>ct.
     if ty_Kind ct = Interface \<and> ty_TypeArgs ct \<noteq> [] \<and> named_in pg ct iterable_names \<and> missingIsNo r
        \<and> (ty_Kind cs = Instance \<or> ty_Kind cs = Anonymous) \<and> ty_Symbol cs \<noteq> None
     then after (in_library pg (ty_Symbol ct)) (\<lambda>target.
       if \<not> target then answer False
       else after (in_library pg (ty_Symbol cs)) (\<lambda>source.
         if source then answer False
         else after (evaluated (ev_iteratedType ev s)) (\<lambda>u. answer (Unanswered pg u))))
     else answer False))"

definition relate_to_members :: "program \<Rightarrow> 'e checker_scheme evaluator \<Rightarrow> 'e checker_scheme relating \<Rightarrow> ty \<Rightarrow> ty \<Rightarrow>
    relation \<Rightarrow> nat \<Rightarrow> ('e checker_scheme, ternary) action" where
  "relate_to_members pg ev rel s t r depth = with_cell s (\<lambda>cs. with_cell t (\<lambda>ct. reading (\<lambda>c.
     if ty_Kind cs = Instance \<and> ty_Kind ct = Instance
        \<and> (case ty_Symbol ct of Some b \<Rightarrow> Derives (ck_in c) s b | None \<Rightarrow> False)
     then answer Yes
     else if ty_Kind cs = Function \<or> is_list cs then list_to_object pg ev rel s t r depth
     else after (not_iterable pg ev s t r) (\<lambda>bad.
       if bad then answer No
       else if ty_Kind ct = Instance
       then (if missingIsNo r then propsFit pg ev rel s t r depth else answer Maybe)
       else after (propsFit pg ev rel s t r depth) (\<lambda>x.
         if x = No then answer No
         else after (construct_mismatch rel s t r depth) (\<lambda>bad.
           if bad then answer No
           else after (indexesFit pg rel s t r depth) (\<lambda>y. answer (all_tern [x, y]))))))))"

definition covariantLibInterfaces :: "string list" where
  "covariantLibInterfaces =
    [''Promise'', ''PromiseLike'', ''ReadonlyArray'', ''Set'', ''ReadonlySet'', ''Map'', ''ReadonlyMap'',
     ''WeakSet'', ''WeakMap'', ''Iterable'', ''Iterator'', ''IterableIterator'', ''AsyncIterable'', ''AsyncIterator'',
     ''AsyncIterableIterator'']"

definition covariant_mismatch ::
    "program \<Rightarrow> 'e checker_scheme relating \<Rightarrow> ty \<Rightarrow> ty \<Rightarrow> relation \<Rightarrow> nat \<Rightarrow> ('e checker_scheme, bool) action" where
  "covariant_mismatch pg rel s t r depth = with_cell s (\<lambda>cs. with_cell t (\<lambda>ct.
     if ty_Kind cs = Interface \<and> ty_Kind ct = Interface \<and> ty_Symbol cs \<noteq> None \<and> ty_Symbol cs = ty_Symbol ct
        \<and> ty_TypeArgs cs \<noteq> [] \<and> length (ty_TypeArgs cs) = length (ty_TypeArgs ct)
        \<and> named_in pg cs covariantLibInterfaces
     then after (in_library pg (ty_Symbol cs)) (\<lambda>inside.
       if \<not> inside then answer False
       else one_no (\<lambda>(x, y). rel (Some x) (Some y) r (depth + 1)) (zip (ty_TypeArgs cs) (ty_TypeArgs ct)))
     else answer False))"

definition relateObjects :: "program \<Rightarrow> 'e checker_scheme evaluator \<Rightarrow> 'e checker_scheme relating \<Rightarrow> ty \<Rightarrow> ty \<Rightarrow>
    relation \<Rightarrow> nat \<Rightarrow> ('e checker_scheme, ternary) action" where
  "relateObjects pg ev rel s t r depth =
    after (covariant_mismatch pg rel s t r depth) (\<lambda>bad.
      if bad then answer No
      else with_cell t (\<lambda>ct.
        (case ty_Kind ct of
           Array \<Rightarrow> relate_to_array pg rel s t r depth
         | Tuple \<Rightarrow> relate_to_tuple rel s t r depth
         | Function \<Rightarrow> relate_to_function rel s t r depth
         | _ \<Rightarrow> relate_to_members pg ev rel s t r depth)))"

section \<open>The relation\<close>

text \<open>A primitive source against an object type.\<close>

definition primitive_to_object ::
    "program \<Rightarrow> 'e checker_scheme evaluator \<Rightarrow> ty \<Rightarrow> ty \<Rightarrow> relation \<Rightarrow> ('e checker_scheme, ternary) action" where
  "primitive_to_object pg ev s t r = with_cell s (\<lambda>cs. with_cell t (\<lambda>ct.
     if empty_object ct then answer (boolTern (\<not> has_flag (Flags cs) Nullish))
     else if has_flag (Flags cs) Nullish \<or> is_list ct \<or> ty_Kind ct = Function then answer No
     else after (and_also (missingIsNo r \<and> weakType ct) (after (apparentType pg ev s) (\<lambda>p.
         case p of None \<Rightarrow> answer False | Some a \<Rightarrow> with_cell a (\<lambda>ca. answer (\<not> sharesProp ca ct))))) (\<lambda>weak.
       if weak then answer No
       else after (primitiveLacksLibraryMember pg ev s t) (\<lambda>lacks. answer (if lacks then No else Maybe)))))"

definition object_target :: "program \<Rightarrow> 'e checker_scheme evaluator \<Rightarrow> 'e checker_scheme relating \<Rightarrow> ty \<Rightarrow> ty \<Rightarrow>
    relation \<Rightarrow> nat \<Rightarrow> ('e checker_scheme, ternary) action" where
  "object_target pg ev rel s t r depth = with_cell s (\<lambda>cs.
     if has_flag (Flags cs) (Nullish @ StringLike @ NumberLike @ BooleanLike @ BigIntLike @ [ESSymbolT])
     then primitive_to_object pg ev s t r
     else if \<not> is_object cs then answer Maybe
     else relateObjects pg ev rel s t r depth)"

text \<open>The answers that need only the two cells: enum members, \<open>object\<close>, and the primitive types;
  \<open>None\<close> leaves the question to the object types.\<close>

definition simple_answer :: "Type \<Rightarrow> Type \<Rightarrow> ternary option" where
  "simple_answer cs ct =
    (let f = Flags cs; g = Flags ct in
     if ty_Member cs \<noteq> [] \<and> ty_Member ct \<noteq> [] then Some No
     else if ty_Member ct \<noteq> []
     then Some (if has_flag g [NumberLiteralT]
       then (if has_flag f [NumberT, IntT, Float32T] then Yes
             else if has_flag f [NumberLiteralT] then boolTern (ty_Value cs = ty_Value ct) else No)
       else No)
     else if has_flag g [NonPrimitiveT] then Some (boolTern (has_flag f [ObjectT, NonPrimitiveT]))
     else if has_flag f [NonPrimitiveT]
     then Some (if is_object ct then (if empty_object ct then Yes else Maybe) else No)
     else if has_flag g Literal_masks then Some No
     else if has_flag g [StringT] then Some (boolTern (has_flag f StringLike))
     else if has_flag g [NumberT, IntT, Float32T] then Some (boolTern (has_flag f NumberLike))
     else if has_flag g [BooleanT] then Some (boolTern (has_flag f BooleanLike))
     else if has_flag g [BigIntT] then Some (boolTern (has_flag f BigIntLike))
     else if has_flag g [ESSymbolT] then Some (boolTern (has_flag f [ESSymbolT]))
     else if has_flag g [VoidT] then Some (boolTern (has_flag f [VoidT, UndefinedT]))
     else if has_flag g [UndefinedT] then Some (boolTern (has_flag f [UndefinedT]))
     else if has_flag g [NullT] then Some (boolTern (has_flag f [NullT]))
     else if has_flag g [NeverT] then Some No
     else if is_object ct then None
     else Some Maybe)"

definition concrete_flags :: "TypeFlags list" where
  "concrete_flags = [NullT, UndefinedT, StringT, NumberT, BooleanT, BigIntT, StringLiteralT, NumberLiteralT,
     BooleanLiteralT, BigIntLiteralT, IntT, Float32T, ESSymbolT]"

definition is_type_param :: "Type \<Rightarrow> bool" where
  "is_type_param c \<longleftrightarrow> has_flag (Flags c) [TypeParamT]"

definition relate_types :: "program \<Rightarrow> 'e checker_scheme evaluator \<Rightarrow> 'e checker_scheme relating \<Rightarrow> ty \<Rightarrow> ty \<Rightarrow>
    relation \<Rightarrow> nat \<Rightarrow> ('e checker_scheme, ternary) action" where
  "relate_types pg ev rel s t r depth = with_cell s (\<lambda>cs. with_cell t (\<lambda>ct.
     if has_flag (Flags cs) [DeferredT] \<or> has_flag (Flags ct) [DeferredT] then answer Maybe
     else if s = t then answer Yes
     else if has_flag (Flags ct) [AnyT, UnknownT] \<or> has_flag (Flags cs) [AnyT, NeverT] then answer Yes
     else if is_type_param cs \<and> ty_Constraint cs \<noteq> None \<and> \<not> is_type_param ct
     then after (rel (ty_Constraint cs) (Some t) r (depth + 1)) (\<lambda>x. answer (if x = Yes then Yes else Maybe))
     else if is_type_param ct \<and> ty_Constraint ct = None \<and> \<not> is_type_param cs \<and> \<not> is_union cs
        \<and> has_flag (Flags cs) concrete_flags
     then answer No
     else if is_type_param cs \<or> is_type_param ct then answer Maybe
     else if ty_Brand ct \<noteq> None \<and> \<not> is_union cs
     then (if ty_Brand cs = None then answer No
           else after (rel (ty_BrandBase cs) (ty_BrandBase ct) r (depth + 1)) (\<lambda>x.
             after (rel (ty_Brand cs) (ty_Brand ct) r (depth + 1)) (\<lambda>y. answer (all_tern [x, y]))))
     else if ty_Brand cs \<noteq> None then relate_branded rel s t r depth
     else if is_union cs then all_of (\<lambda>m. rel (Some m) (Some t) r (depth + 1)) (ty_Types cs) Yes
     else if has_flag (Flags cs) [UnknownT] \<and> is_union ct
     then reading (\<lambda>c. answer (boolTern (unknown_to_union (ck_in c) ct)))
     else if is_union ct then relate_to_union pg rel s t r depth
     else if has_flag (Flags cs) [UnknownT] then answer No
     else (case simple_answer cs ct of
         Some x \<Rightarrow> answer x
       | None \<Rightarrow> object_target pg ev rel s t r depth)))"

definition relateUncached :: "program \<Rightarrow> 'e checker_scheme evaluator \<Rightarrow> 'e checker_scheme relating \<Rightarrow>
    'e checker_scheme relating" where
  "relateUncached pg ev rel s t r depth =
    (case (s, t) of
       (Some a, Some b) \<Rightarrow>
         if Unanswered pg a \<or> Unanswered pg b \<or> 20 < depth then answer Maybe
         else relate_types pg ev rel a b r depth
     | _ \<Rightarrow> answer Maybe)"

text \<open>The memo around it: a pair being related answers \<open>Maybe\<close>, and an answer that leaned on such
  an assumption is not remembered.\<close>

definition remembering :: "relKey \<Rightarrow> nat \<Rightarrow> ('e checker_scheme, ternary) action \<Rightarrow> ('e checker_scheme, ternary) action" where
  "remembering k depth m = (\<lambda>c.
     case relMemo c k of
       Some x \<Rightarrow> (Inr x, c)
     | None \<Rightarrow>
       if k \<in> relActive c then (Inr Maybe, c\<lparr>relAssumed := relAssumed c + 1\<rparr>)
       else (let (res, c') = m (c\<lparr>relActive := insert k (relActive c)\<rparr>) in
         case res of
           Inl e \<Rightarrow> (Inl e, c')
         | Inr x \<Rightarrow>
           (let c' = c'\<lparr>relActive := relActive c' - {k}\<rparr> in
            (Inr x, if relAssumed c' = relAssumed c \<and> depth \<le> 20 then c'\<lparr>relMemo := (relMemo c')(k \<mapsto> x)\<rparr> else c'))))"

primrec relate :: "program \<Rightarrow> 'e checker_scheme evaluator \<Rightarrow> nat \<Rightarrow> 'e checker_scheme relating" where
  "relate pg ev 0 = (\<lambda>s t r depth. stop Endless)"
| "relate pg ev (Suc n) = (\<lambda>s t r depth.
    (case (s, t) of
       (Some a, Some b) \<Rightarrow> with_cell a (\<lambda>cs. with_cell b (\<lambda>ct.
         if \<not> is_object cs \<or> \<not> is_object ct \<or> a = b then relateUncached pg ev (relate pg ev n) s t r depth
         else remembering (a, b, r) depth (relateUncached pg ev (relate pg ev n) s t r depth)))
     | _ \<Rightarrow> relateUncached pg ev (relate pg ev n) s t r depth))"

definition assignableTo ::
    "program \<Rightarrow> 'e checker_scheme evaluator \<Rightarrow> ty option \<Rightarrow> ty option \<Rightarrow> ('e checker_scheme, ternary) action" where
  "assignableTo pg ev s t = relate pg ev 22 s t \<lparr>missingIsNo = False\<rparr> 0"

end
