(* ===== verification/RelateValues.thy ===== *)
theory RelateValues
  imports Relate UnionFacts
begin

text \<open>
  A meaning for types: the values a type has, for the primitive types, their literals, unions
  of them, and arrays and tuples of such types. Assignability on them is inclusion of values
  (\<open>RelateProps\<close>).
\<close>

section \<open>Primitive types and their values\<close>

datatype runtime = VString string | VNumber string | VBigInt string | VBool bool | VSymbol nat
  | VUndefined | VVoid | VNull | VObject | VList "runtime list"

datatype prim = PUnknown | PString | PNumber | PBoolean | PBigInt | PSymbol | PVoid | PUndefined | PNull
  | PStringLit | PNumberLit | PBooleanLit | PBigIntLit | PInt | PFloat32

primrec flag_of :: "prim \<Rightarrow> TypeFlags" where
  "flag_of PUnknown = UnknownT"
| "flag_of PString = StringT"
| "flag_of PNumber = NumberT"
| "flag_of PBoolean = BooleanT"
| "flag_of PBigInt = BigIntT"
| "flag_of PSymbol = ESSymbolT"
| "flag_of PVoid = VoidT"
| "flag_of PUndefined = UndefinedT"
| "flag_of PNull = NullT"
| "flag_of PStringLit = StringLiteralT"
| "flag_of PNumberLit = NumberLiteralT"
| "flag_of PBooleanLit = BooleanLiteralT"
| "flag_of PBigIntLit = BigIntLiteralT"
| "flag_of PInt = IntT"
| "flag_of PFloat32 = Float32T"

definition literals :: "prim set" where
  "literals = {PStringLit, PNumberLit, PBooleanLit, PBigIntLit}"

text \<open>A literal's value is its text; the native widths are this compiler's numbers.\<close>

primrec prim_values :: "prim \<Rightarrow> string \<Rightarrow> runtime set" where
  "prim_values PUnknown v = UNIV"
| "prim_values PString v = range VString"
| "prim_values PNumber v = range VNumber"
| "prim_values PBoolean v = {VBool True, VBool False}"
| "prim_values PBigInt v = range VBigInt"
| "prim_values PSymbol v = range VSymbol"
| "prim_values PVoid v = {VUndefined, VVoid}"
| "prim_values PUndefined v = {VUndefined}"
| "prim_values PNull v = {VNull}"
| "prim_values PStringLit v = {VString v}"
| "prim_values PNumberLit v = {VNumber v}"
| "prim_values PBooleanLit v = {VBool (v = ''true'')}"
| "prim_values PBigIntLit v = {VBigInt v}"
| "prim_values PInt v = range VNumber"
| "prim_values PFloat32 v = range VNumber"

text \<open>The values of a type of the heap.\<close>

inductive typed :: "interner \<Rightarrow> runtime \<Rightarrow> ty \<Rightarrow> bool" for S :: interner where
  of_prim: "Flags (type_at S t) = flag_of p \<Longrightarrow> v \<in> prim_values p (ty_Value (type_at S t)) \<Longrightarrow> typed S v t"
| of_member: "Flags (type_at S t) = UnionT \<Longrightarrow> m \<in> set (ty_Types (type_at S t)) \<Longrightarrow> typed S v m \<Longrightarrow> typed S v t"
| of_array: "Flags (type_at S t) = ObjectT \<Longrightarrow> ty_Kind (type_at S t) = Array \<Longrightarrow> ty_Elem (type_at S t) = Some e \<Longrightarrow>
    (\<forall>v\<in>set vs. typed S v e) \<Longrightarrow> typed S (VList vs) t"
| of_tuple: "Flags (type_at S t) = ObjectT \<Longrightarrow> ty_Kind (type_at S t) = Tuple \<Longrightarrow>
    list_all2 (typed S) vs (ty_Elems (type_at S t)) \<Longrightarrow> typed S (VList vs) t"

definition within :: "interner \<Rightarrow> ty \<Rightarrow> ty \<Rightarrow> bool" where
  "within S s t \<longleftrightarrow> (\<forall>v. typed S v s \<longrightarrow> typed S v t)"

section \<open>The types the meaning covers\<close>

text \<open>A primitive type is a plain cell, a literal the one interned under its key.\<close>

definition prim_cell :: "interner \<Rightarrow> prim \<Rightarrow> ty \<Rightarrow> bool" where
  "prim_cell S p t \<longleftrightarrow> t < length (in_types S) \<and> Flags (type_at S t) = flag_of p \<and> ty_Member (type_at S t) = [] \<and> ty_Brand (type_at S t) = None
    \<and> (p \<in> literals \<longrightarrow> in_byKey S (''l'' @ itoa (uint (flag_of p)) @ '':'' @ ty_Value (type_at S t)) = Some t)
    \<and> (p = PBooleanLit \<longrightarrow> ty_Value (type_at S t) \<in> {''true'', ''false''})"

definition prim_union :: "interner \<Rightarrow> ty \<Rightarrow> bool" where
  "prim_union S t \<longleftrightarrow>
    (let c = type_at S t in
     t < length (in_types S) \<and> Flags c = UnionT \<and> ty_Member c = [] \<and> ty_Brand c = None \<and> ty_Types c \<noteq> []
     \<and> (\<forall>m\<in>set (ty_Types c). \<exists>p. p \<noteq> PUnknown \<and> prim_cell S p m)
     \<and> \<not> (boolean_value S (set (ty_Types c)) ''true'' \<and> boolean_value S (set (ty_Types c)) ''false''))"

definition list_cell :: "interner \<Rightarrow> (ty \<Rightarrow> bool) \<Rightarrow> ty \<Rightarrow> bool" where
  "list_cell S P t \<longleftrightarrow>
    (let c = type_at S t in
     t < length (in_types S) \<and> Flags c = ObjectT \<and> ty_Member c = [] \<and> ty_Brand c = None
     \<and> (ty_Kind c = Array \<and> (\<exists>e. ty_Elem c = Some e \<and> P e)
        \<or> ty_Kind c = Tuple \<and> ty_Opt c = 0 \<and> list_all P (ty_Elems c)))"

text \<open>\<open>ranked S n t\<close>: arrays and tuples stand at most \<open>n\<close> deep in \<open>t\<close>.\<close>

primrec ranked :: "interner \<Rightarrow> nat \<Rightarrow> ty \<Rightarrow> bool" where
  "ranked S 0 t \<longleftrightarrow> (\<exists>p. prim_cell S p t) \<or> prim_union S t"
| "ranked S (Suc n) t \<longleftrightarrow> ranked S n t \<or> list_cell S (ranked S n) t"

lemma ranked_mono: "ranked S n t \<Longrightarrow> n \<le> k \<Longrightarrow> ranked S k t"
  by (induction k) (auto simp: le_Suc_eq)

section \<open>Flags of one bit\<close>

lemma flag_of_tables:
  "\<not> has_flag (flag_of p) [DeferredT]" "\<not> has_flag (flag_of p) [AnyT, NeverT]" "\<not> has_flag (flag_of p) [TypeParamT]"
  "\<not> has_flag (flag_of p) [UnionT]" "\<not> has_flag (flag_of p) [ObjectT]" "\<not> has_flag (flag_of p) [NonPrimitiveT]"
  "\<not> has_flag (flag_of p) [ObjectT, NonPrimitiveT]" "\<not> has_flag (flag_of p) [NeverT]"
  by (cases p; simp add: has_flag_def type_flag_defs)+

lemma flag_of_like:
  "has_flag (flag_of p) [AnyT, UnknownT] \<longleftrightarrow> p = PUnknown" "has_flag (flag_of p) [UnknownT] \<longleftrightarrow> p = PUnknown"
  "has_flag (flag_of p) Literal_masks \<longleftrightarrow> p \<in> literals"
  "has_flag (flag_of p) [StringT] \<longleftrightarrow> p = PString"
  "has_flag (flag_of p) StringLike \<longleftrightarrow> p \<in> {PString, PStringLit}"
  "has_flag (flag_of p) [NumberT, IntT, Float32T] \<longleftrightarrow> p \<in> {PNumber, PInt, PFloat32}"
  "has_flag (flag_of p) NumberLike \<longleftrightarrow> p \<in> {PNumber, PInt, PFloat32, PNumberLit}"
  "has_flag (flag_of p) [BooleanT] \<longleftrightarrow> p = PBoolean"
  "has_flag (flag_of p) BooleanLike \<longleftrightarrow> p \<in> {PBoolean, PBooleanLit}"
  "has_flag (flag_of p) [BigIntT] \<longleftrightarrow> p = PBigInt"
  "has_flag (flag_of p) BigIntLike \<longleftrightarrow> p \<in> {PBigInt, PBigIntLit}"
  "has_flag (flag_of p) [ESSymbolT] \<longleftrightarrow> p = PSymbol"
  "has_flag (flag_of p) [VoidT] \<longleftrightarrow> p = PVoid"
  "has_flag (flag_of p) [VoidT, UndefinedT] \<longleftrightarrow> p \<in> {PVoid, PUndefined}"
  "has_flag (flag_of p) [UndefinedT] \<longleftrightarrow> p = PUndefined"
  "has_flag (flag_of p) [NullT] \<longleftrightarrow> p = PNull"
  "has_flag (flag_of p) [BooleanLiteralT] \<longleftrightarrow> p = PBooleanLit"
  by (cases p; simp add: has_flag_def type_flag_defs Literal_masks_def literals_def StringLike_def NumberLike_def
      BooleanLike_def BigIntLike_def)+

lemma flag_of_primitive:
  "has_flag (flag_of p) (Nullish @ StringLike @ NumberLike @ BooleanLike @ BigIntLike @ [ESSymbolT]) \<longleftrightarrow> p \<noteq> PUnknown"
  by (cases p; simp add: has_flag_def type_flag_defs Nullish_def StringLike_def NumberLike_def BooleanLike_def
      BigIntLike_def)

lemma union_flag_tables:
  "\<not> has_flag UnionT [DeferredT]" "\<not> has_flag UnionT [AnyT, UnknownT]" "\<not> has_flag UnionT [AnyT, NeverT]"
  "\<not> has_flag UnionT [TypeParamT]" "has_flag UnionT [UnionT]" "\<not> has_flag UnionT [ObjectT]"
  "\<not> has_flag UnionT [UnknownT]"
  by (simp_all add: has_flag_def type_flag_defs)

lemma object_flag_tables:
  "\<not> has_flag ObjectT [DeferredT]" "\<not> has_flag ObjectT [AnyT, UnknownT]" "\<not> has_flag ObjectT [AnyT, NeverT]"
  "\<not> has_flag ObjectT [TypeParamT]" "\<not> has_flag ObjectT [UnionT]" "has_flag ObjectT [ObjectT]"
  "\<not> has_flag ObjectT [UnknownT]" "\<not> has_flag ObjectT [NonPrimitiveT]" "\<not> has_flag ObjectT Literal_masks"
  "\<not> has_flag ObjectT StringLike" "\<not> has_flag ObjectT NumberLike" "\<not> has_flag ObjectT BooleanLike"
  "\<not> has_flag ObjectT BigIntLike" "\<not> has_flag ObjectT [ESSymbolT]" "\<not> has_flag ObjectT [VoidT, UndefinedT]"
  "\<not> has_flag ObjectT [UndefinedT]" "\<not> has_flag ObjectT [NullT]" "\<not> has_flag ObjectT [StringT]"
  "\<not> has_flag ObjectT [NumberT, IntT, Float32T]" "\<not> has_flag ObjectT [BooleanT]" "\<not> has_flag ObjectT [BigIntT]"
  "\<not> has_flag ObjectT [VoidT]" "\<not> has_flag ObjectT [NeverT]"
  "\<not> has_flag ObjectT (Nullish @ StringLike @ NumberLike @ BooleanLike @ BigIntLike @ [ESSymbolT])"
  by (simp_all add: has_flag_def type_flag_defs Literal_masks_def StringLike_def NumberLike_def BooleanLike_def
      BigIntLike_def Nullish_def)

lemma flag_of_eq: "flag_of p = flag_of q \<longleftrightarrow> p = q" "flag_of p \<noteq> UnionT" "flag_of p \<noteq> ObjectT" "UnionT \<noteq> ObjectT"
proof -
  show "flag_of p = flag_of q \<longleftrightarrow> p = q"
    by (cases p; cases q; simp add: type_flag_defs)
qed (use flag_of_tables(4,5) [of p] union_flag_tables(5,6) object_flag_tables(6) in metis)+

lemmas flag_of_neq = flag_of_eq(2-4) [symmetric]

section \<open>The values of each kind of type\<close>

lemma typed_prim:
  assumes "prim_cell S p t"
  shows "typed S v t \<longleftrightarrow> v \<in> prim_values p (ty_Value (type_at S t))"
proof
  assume "typed S v t"
  then show "v \<in> prim_values p (ty_Value (type_at S t))"
    using assms by cases (simp_all add: prim_cell_def flag_of_eq flag_of_neq)
next
  assume "v \<in> prim_values p (ty_Value (type_at S t))"
  then show "typed S v t" using assms by (auto simp: prim_cell_def intro: of_prim)
qed

lemma typed_union:
  assumes "Flags (type_at S t) = UnionT"
  shows "typed S v t \<longleftrightarrow> (\<exists>m\<in>set (ty_Types (type_at S t)). typed S v m)"
proof
  assume "typed S v t"
  then show "\<exists>m\<in>set (ty_Types (type_at S t)). typed S v m"
    using assms by cases (auto simp: flag_of_eq flag_of_neq)
qed (use assms in \<open>auto intro: of_member\<close>)

lemma typed_array:
  assumes "Flags (type_at S t) = ObjectT" "ty_Kind (type_at S t) = Array" "ty_Elem (type_at S t) = Some e"
  shows "typed S v t \<longleftrightarrow> (\<exists>vs. v = VList vs \<and> (\<forall>v\<in>set vs. typed S v e))"
proof
  assume "typed S v t"
  then show "\<exists>vs. v = VList vs \<and> (\<forall>v\<in>set vs. typed S v e)"
    using assms by cases (auto simp: flag_of_eq flag_of_neq)
qed (use assms in \<open>auto intro: of_array\<close>)

lemma typed_tuple:
  assumes "Flags (type_at S t) = ObjectT" "ty_Kind (type_at S t) = Tuple"
  shows "typed S v t \<longleftrightarrow> (\<exists>vs. v = VList vs \<and> list_all2 (typed S) vs (ty_Elems (type_at S t)))"
proof
  assume "typed S v t"
  then show "\<exists>vs. v = VList vs \<and> list_all2 (typed S) vs (ty_Elems (type_at S t))"
    using assms by cases (auto simp: flag_of_eq flag_of_neq)
qed (use assms in \<open>auto intro: of_tuple\<close>)

lemma ranked_value: "ranked S n t \<Longrightarrow> \<exists>v. typed S v t"
proof (induction n arbitrary: t)
  case 0
  have prim: "\<exists>v. typed S v m" if "prim_cell S p m" for p m
    using typed_prim [OF that] by (cases p) auto
  from 0 have "(\<exists>p. prim_cell S p t) \<or> prim_union S t" by simp
  then show ?case
  proof
    assume u: "prim_union S t"
    then obtain m p where "m \<in> set (ty_Types (type_at S t))" "prim_cell S p m"
      by (fastforce simp: prim_union_def Let_def neq_Nil_conv)
    moreover have "Flags (type_at S t) = UnionT" using u by (simp add: prim_union_def Let_def)
    ultimately show ?case using prim [of p m] typed_union [of S t] by blast
  qed (use prim in blast)
next
  case (Suc n)
  from Suc.prems consider "ranked S n t" | "list_cell S (ranked S n) t" by auto
  then show ?case
  proof cases
    case 2
    show ?thesis
    proof (cases "ty_Kind (type_at S t) = Array")
      case True
      with 2 typed_array [of S t] have "typed S (VList []) t" by (auto simp: list_cell_def Let_def)
      then show ?thesis by blast
    next
      case False
      have "\<exists>vs. list_all2 (typed S) vs es" if "list_all (ranked S n) es" for es
        using that Suc.IH by (induction es) (auto simp: list_all2_Cons2)
      then obtain vs where "list_all2 (typed S) vs (ty_Elems (type_at S t))"
        using 2 False by (auto simp: list_cell_def Let_def)
      then show ?thesis using 2 False typed_tuple [of S t] by (auto simp: list_cell_def Let_def)
    qed
  qed (rule Suc.IH)
qed

text \<open>When one primitive type's values are another's.\<close>

definition prim_within :: "prim \<Rightarrow> string \<Rightarrow> prim \<Rightarrow> string \<Rightarrow> bool" where
  "prim_within p v q w \<longleftrightarrow>
    (case q of
       PUnknown \<Rightarrow> True
     | PString \<Rightarrow> p \<in> {PString, PStringLit}
     | PNumber \<Rightarrow> p \<in> {PNumber, PInt, PFloat32, PNumberLit}
     | PInt \<Rightarrow> p \<in> {PNumber, PInt, PFloat32, PNumberLit}
     | PFloat32 \<Rightarrow> p \<in> {PNumber, PInt, PFloat32, PNumberLit}
     | PBoolean \<Rightarrow> p \<in> {PBoolean, PBooleanLit}
     | PBigInt \<Rightarrow> p \<in> {PBigInt, PBigIntLit}
     | PSymbol \<Rightarrow> p = PSymbol
     | PVoid \<Rightarrow> p \<in> {PVoid, PUndefined}
     | PUndefined \<Rightarrow> p = PUndefined
     | PNull \<Rightarrow> p = PNull
     | _ \<Rightarrow> p = q \<and> v = w)"

lemma not_one_string: "\<not> (\<forall>x :: string. x = w)" "\<not> (\<forall>x :: string. w = x)"
  by (metis list.distinct(1))+

lemma prim_values_within:
  assumes "p = PBooleanLit \<longrightarrow> v \<in> {''true'', ''false''}" "q = PBooleanLit \<longrightarrow> w \<in> {''true'', ''false''}"
  shows "prim_values p v \<subseteq> prim_values q w \<longleftrightarrow> prim_within p v q w"
proof -
  have all: "\<not> UNIV \<subseteq> prim_values q w" if "q \<noteq> PUnknown"
  proof -
    have "VObject \<notin> prim_values q w" using that by (cases q) auto
    then show ?thesis by blast
  qed
  show ?thesis
    using assms all by (cases q; cases p) (auto simp: prim_within_def image_subset_iff image_iff not_one_string)
qed

lemma within_prim:
  assumes "prim_cell S p s" "prim_cell S q t"
  shows "within S s t \<longleftrightarrow> prim_within p (ty_Value (type_at S s)) q (ty_Value (type_at S t))"
proof -
  have "within S s t \<longleftrightarrow> prim_values p (ty_Value (type_at S s)) \<subseteq> prim_values q (ty_Value (type_at S t))"
    using typed_prim [OF assms(1)] typed_prim [OF assms(2)] by (auto simp: within_def)
  then show ?thesis using prim_values_within assms by (simp add: prim_cell_def)
qed

section \<open>Inclusion, kind by kind\<close>

lemma within_union_source:
  "Flags (type_at S s) = UnionT \<Longrightarrow> within S s t \<longleftrightarrow> (\<forall>m\<in>set (ty_Types (type_at S s)). within S m t)"
  by (auto simp: within_def typed_union)

lemma prim_value_alone:
  "VUndefined \<in> prim_values q w \<longleftrightarrow> q \<in> {PUnknown, PVoid, PUndefined}"
  "VVoid \<in> prim_values q w \<longleftrightarrow> q \<in> {PUnknown, PVoid}"
  "VNull \<in> prim_values q w \<longleftrightarrow> q \<in> {PUnknown, PNull}"
  "VObject \<in> prim_values q w \<longleftrightarrow> q = PUnknown"
  "VList vs \<in> prim_values q w \<longleftrightarrow> q = PUnknown"
  "VSymbol i \<in> prim_values q w \<longleftrightarrow> q \<in> {PUnknown, PSymbol}"
  "VString x \<in> prim_values q w \<longleftrightarrow> q \<in> {PUnknown, PString} \<or> q = PStringLit \<and> w = x"
  "VNumber x \<in> prim_values q w \<longleftrightarrow> q \<in> {PUnknown, PNumber, PInt, PFloat32} \<or> q = PNumberLit \<and> w = x"
  "VBigInt x \<in> prim_values q w \<longleftrightarrow> q \<in> {PUnknown, PBigInt} \<or> q = PBigIntLit \<and> w = x"
  "VBool b \<in> prim_values q w \<longleftrightarrow> q \<in> {PUnknown, PBoolean} \<or> q = PBooleanLit \<and> (w = ''true'') = b"
  by (cases q; auto)+

text \<open>A value only one member's type can have, if it is not the value of a literal member.\<close>

definition token :: "prim \<Rightarrow> string \<Rightarrow> string \<Rightarrow> runtime" where
  "token p v x =
    (case p of
       PUnknown \<Rightarrow> VObject | PString \<Rightarrow> VString x | PNumber \<Rightarrow> VNumber x | PInt \<Rightarrow> VNumber x | PFloat32 \<Rightarrow> VNumber x
     | PBoolean \<Rightarrow> VBool True | PBigInt \<Rightarrow> VBigInt x | PSymbol \<Rightarrow> VSymbol 0 | PVoid \<Rightarrow> VVoid | PUndefined \<Rightarrow> VUndefined
     | PNull \<Rightarrow> VNull | PStringLit \<Rightarrow> VString v | PNumberLit \<Rightarrow> VNumber v | PBooleanLit \<Rightarrow> VBool (v = ''true'')
     | PBigIntLit \<Rightarrow> VBigInt v)"

lemma token_value: "token p v x \<in> prim_values p v"
  by (cases p) (simp_all add: token_def)

lemma token_within:
  assumes "token p v x \<in> prim_values q w" "x \<noteq> w" "p \<noteq> PBoolean"
    and "p = PBooleanLit \<longrightarrow> v \<in> {''true'', ''false''}" "q = PBooleanLit \<longrightarrow> w \<in> {''true'', ''false''}"
  shows "prim_within p v q w"
  using assms by (cases p) (simp_all add: token_def prim_value_alone prim_within_def split: prim.splits, auto)

lemma prim_unionD:
  assumes "prim_union S t"
  shows "Flags (type_at S t) = UnionT"
    and "m \<in> set (ty_Types (type_at S t)) \<Longrightarrow> \<exists>q. q \<noteq> PUnknown \<and> prim_cell S q m"
  using assms by (auto simp: prim_union_def Let_def)

lemma boolean_within_union:
  assumes t: "prim_union S t" and s: "prim_cell S PBoolean s" and all: "within S s t"
  shows "\<exists>m\<in>set (ty_Types (type_at S t)). within S s m"
proof (rule ccontr)
  let ?ms = "set (ty_Types (type_at S t))"
  assume none: "\<not> (\<exists>m\<in>?ms. within S s m)"
  have lit: "boolean_value S ?ms (if b then ''true'' else ''false'')" for b
  proof -
    have "typed S (VBool b) s" using typed_prim [OF s] by (cases b) auto
    then obtain m where m: "m \<in> ?ms" "typed S (VBool b) m"
      using all typed_union [OF prim_unionD(1) [OF t]] by (auto simp: within_def)
    then obtain q where q: "prim_cell S q m" "q \<noteq> PUnknown" using prim_unionD(2) [OF t] by blast
    have "q \<noteq> PBoolean" using none m(1) within_prim [OF s q(1)] by (auto simp: prim_within_def)
    then have "q = PBooleanLit" "(ty_Value (type_at S m) = ''true'') = b"
      using m(2) q(2) typed_prim [OF q(1)] by (auto simp: prim_value_alone)
    then have "ty_Value (type_at S m) = (if b then ''true'' else ''false'')" "has_flag (Flags (type_at S m)) [BooleanLiteralT]"
      using q(1) flag_of_like(17) [of PBooleanLit] by (cases b; fastforce simp: prim_cell_def)+
    with m(1) show ?thesis unfolding boolean_value_def by blast
  qed
  show False using lit [of True] lit [of False] t by (simp add: prim_union_def Let_def)
qed

lemma within_prim_union:
  assumes t: "prim_union S t" and s: "prim_cell S p s"
  shows "within S s t \<longleftrightarrow> (\<exists>m\<in>set (ty_Types (type_at S t)). within S s m)"
proof
  assume all: "within S s t"
  show "\<exists>m\<in>set (ty_Types (type_at S t)). within S s m"
  proof (cases "p = PBoolean")
    case True
    then show ?thesis using boolean_within_union [OF t _ all] s by simp
  next
    case False
    have "\<exists>x. x \<notin> (\<lambda>m. ty_Value (type_at S m)) ` set (ty_Types (type_at S t))"
      by (rule ex_new_if_finite [OF infinite_UNIV_listI]) simp
    then obtain x where x: "x \<notin> (\<lambda>m. ty_Value (type_at S m)) ` set (ty_Types (type_at S t))" ..
    let ?v = "token p (ty_Value (type_at S s)) x"
    have "typed S ?v s" using typed_prim [OF s] token_value by blast
    then obtain m where m: "m \<in> set (ty_Types (type_at S t))" "typed S ?v m"
      using all typed_union [OF prim_unionD(1) [OF t]] by (auto simp: within_def)
    then obtain q where q: "prim_cell S q m" using prim_unionD(2) [OF t] by blast
    have "prim_within p (ty_Value (type_at S s)) q (ty_Value (type_at S m))"
    proof (rule token_within [OF _ _ False])
      show "?v \<in> prim_values q (ty_Value (type_at S m))" using m(2) typed_prim [OF q] by blast
      show "x \<noteq> ty_Value (type_at S m)" using x m(1) by blast
    qed (use s q in \<open>simp_all add: prim_cell_def\<close>)
    with m(1) within_prim [OF s q] show ?thesis by blast
  qed
next
  assume "\<exists>m\<in>set (ty_Types (type_at S t)). within S s m"
  then show "within S s t" using typed_union [OF prim_unionD(1) [OF t]] by (auto simp: within_def)
qed

section \<open>Arrays and tuples\<close>

definition array_of :: "interner \<Rightarrow> ty \<Rightarrow> ty \<Rightarrow> bool" where
  "array_of S t e \<longleftrightarrow> Flags (type_at S t) = ObjectT \<and> ty_Kind (type_at S t) = Array \<and> ty_Elem (type_at S t) = Some e"

definition tuple_of :: "interner \<Rightarrow> ty \<Rightarrow> ty list \<Rightarrow> bool" where
  "tuple_of S t es \<longleftrightarrow> Flags (type_at S t) = ObjectT \<and> ty_Kind (type_at S t) = Tuple \<and> ty_Elems (type_at S t) = es"

lemma typed_array_of: "array_of S t e \<Longrightarrow> typed S v t \<longleftrightarrow> (\<exists>vs. v = VList vs \<and> (\<forall>v\<in>set vs. typed S v e))"
  by (simp add: array_of_def typed_array)

lemma typed_tuple_of: "tuple_of S t es \<Longrightarrow> typed S v t \<longleftrightarrow> (\<exists>vs. v = VList vs \<and> list_all2 (typed S) vs es)"
  by (auto simp: tuple_of_def typed_tuple)

lemma within_arrays:
  assumes "array_of S s e" "array_of S t u"
  shows "within S s t \<longleftrightarrow> within S e u"
proof
  assume w: "within S s t"
  show "within S e u"
    unfolding within_def
  proof (intro allI impI)
    fix v assume "typed S v e"
    then have "typed S (VList [v]) s" using typed_array_of [OF assms(1)] by simp
    then have "typed S (VList [v]) t" using w by (simp add: within_def)
    then show "typed S v u" using typed_array_of [OF assms(2)] by simp
  qed
qed (auto simp: within_def typed_array_of [OF assms(1)] typed_array_of [OF assms(2)])

text \<open>Tuples whose elements have values: any element's value stands in some value of the tuple.\<close>

lemma tuple_values:
  assumes "\<And>e. e \<in> set es \<Longrightarrow> \<exists>v. typed S v e"
  shows "\<exists>vs. list_all2 (typed S) vs es"
    and "i < length es \<Longrightarrow> typed S v (es ! i) \<Longrightarrow> \<exists>vs. list_all2 (typed S) vs es \<and> vs ! i = v"
proof -
  show some: "\<exists>vs. list_all2 (typed S) vs es"
    using assms by (induction es) (auto simp: list_all2_Cons2)
  show "\<exists>vs. list_all2 (typed S) vs es \<and> vs ! i = v" if i: "i < length es" "typed S v (es ! i)"
  proof -
    obtain vs where vs: "list_all2 (typed S) vs es" using some by blast
    have "list_all2 (typed S) (vs[i := v]) es"
      using vs i by (auto simp: list_all2_conv_all_nth nth_list_update)
    moreover have "vs[i := v] ! i = v" using vs i by (simp add: list_all2_lengthD)
    ultimately show ?thesis by blast
  qed
qed

lemma within_tuple_array:
  assumes s: "tuple_of S s es" and t: "array_of S t u" and val: "\<And>e. e \<in> set es \<Longrightarrow> \<exists>v. typed S v e"
  shows "within S s t \<longleftrightarrow> (\<forall>e\<in>set es. within S e u)"
proof
  assume w: "within S s t"
  show "\<forall>e\<in>set es. within S e u"
  proof (intro ballI, unfold within_def, intro allI impI)
    fix e v assume "e \<in> set es" "typed S v e"
    then obtain i where i: "i < length es" "typed S v (es ! i)" by (auto simp: in_set_conv_nth)
    then obtain vs where vs: "list_all2 (typed S) vs es" "vs ! i = v" using tuple_values(2) [OF val] by blast
    then have "typed S (VList vs) t" using w typed_tuple_of [OF s] by (simp add: within_def)
    then show "typed S v u" using typed_array_of [OF t] vs i by (metis list_all2_lengthD nth_mem runtime.inject(6))
  qed
next
  assume w: "\<forall>e\<in>set es. within S e u"
  have "\<forall>v\<in>set vs. typed S v u" if "list_all2 (typed S) vs es" for vs
  proof
    fix v assume "v \<in> set vs"
    then obtain i where i: "i < length vs" "v = vs ! i" by (auto simp: in_set_conv_nth)
    let ?e = "es ! i"
    have e: "?e \<in> set es" "typed S v ?e"
      using i list_all2_nthD [OF that i(1)] list_all2_lengthD [OF that] by simp_all
    then show "typed S v u" using w by (simp add: within_def)
  qed
  then show "within S s t" using typed_tuple_of [OF s] typed_array_of [OF t] by (auto simp: within_def)
qed

lemma within_tuples:
  assumes s: "tuple_of S s es" and t: "tuple_of S t us" and val: "\<And>e. e \<in> set es \<Longrightarrow> \<exists>v. typed S v e"
  shows "within S s t \<longleftrightarrow> length es = length us \<and> (\<forall>x\<in>set (zip es us). within S (fst x) (snd x))"
proof
  assume w: "within S s t"
  have tuples: "list_all2 (typed S) vs us" if "list_all2 (typed S) vs es" for vs
    using w that typed_tuple_of [OF s] typed_tuple_of [OF t] by (auto simp: within_def)
  obtain vs where "list_all2 (typed S) vs es" using tuple_values(1) [OF val] by blast
  then have len: "length es = length us" using tuples by (metis list_all2_lengthD)
  have "within S (es ! i) (us ! i)" if i: "i < length es" for i
    unfolding within_def
  proof (intro allI impI)
    fix v assume "typed S v (es ! i)"
    then obtain vs where vs: "list_all2 (typed S) vs es" "vs ! i = v" using tuple_values(2) [OF val i] by blast
    then show "typed S v (us ! i)" using list_all2_nthD [OF tuples [OF vs(1)]] i by (auto dest: list_all2_lengthD)
  qed
  with len show "length es = length us \<and> (\<forall>x\<in>set (zip es us). within S (fst x) (snd x))"
    by (auto simp: in_set_zip)
next
  assume w: "length es = length us \<and> (\<forall>x\<in>set (zip es us). within S (fst x) (snd x))"
  have "list_all2 (typed S) vs us" if vs: "list_all2 (typed S) vs es" for vs
  proof (rule list_all2_all_nthI)
    show "length vs = length us" using vs w by (metis list_all2_lengthD)
    fix i assume "i < length vs"
    then have i: "i < length es" using vs by (metis list_all2_lengthD)
    then have "(es ! i, us ! i) \<in> set (zip es us)" using w by (auto simp: in_set_zip)
    then have "within S (es ! i) (us ! i)" using w by fastforce
    then show "typed S (vs ! i) (us ! i)" using list_all2_nthD2 [OF vs i] by (simp add: within_def)
  qed
  then show "within S s t" using typed_tuple_of [OF s] typed_tuple_of [OF t] by (auto simp: within_def)
qed

lemma not_within_array_tuple:
  assumes s: "array_of S s e" and t: "tuple_of S t us" and val: "\<exists>v. typed S v e"
  shows "\<not> within S s t"
proof
  assume w: "within S s t"
  obtain v where v: "typed S v e" using val by blast
  have "typed S (VList []) s" "typed S (VList [v]) s" using typed_array_of [OF s] v by simp_all
  then have "list_all2 (typed S) [] us" "list_all2 (typed S) [v] us"
    using w typed_tuple_of [OF t] by (auto simp: within_def)
  then show False by auto
qed

text \<open>Lists are no primitive values, and the other way round.\<close>

definition list_type :: "interner \<Rightarrow> ty \<Rightarrow> bool" where
  "list_type S t \<longleftrightarrow> Flags (type_at S t) = ObjectT \<and> is_list (type_at S t)"

lemma typed_list_type: "list_type S t \<Longrightarrow> typed S v t \<Longrightarrow> \<exists>vs. v = VList vs"
  by (auto simp: list_type_def flag_of_eq flag_of_neq elim: typed.cases)

lemma within_list_prim:
  assumes "list_type S s" "\<exists>v. typed S v s" "prim_cell S q t"
  shows "within S s t \<longleftrightarrow> q = PUnknown"
proof
  assume w: "within S s t"
  obtain v where v: "typed S v s" using assms(2) by blast
  then obtain vs where "v = VList vs" using typed_list_type [OF assms(1)] by blast
  moreover have "v \<in> prim_values q (ty_Value (type_at S t))"
    using w v typed_prim [OF assms(3)] by (simp add: within_def)
  ultimately show "q = PUnknown" by (simp add: prim_value_alone)
qed (use typed_prim [OF assms(3)] in \<open>simp add: within_def\<close>)

lemma not_within_list_union:
  assumes "list_type S s" "\<exists>v. typed S v s" "prim_union S t"
  shows "\<not> within S s t"
proof
  assume w: "within S s t"
  obtain v where v: "typed S v s" using assms(2) by blast
  then obtain vs where "v = VList vs" using typed_list_type [OF assms(1)] by blast
  moreover obtain m where m: "m \<in> set (ty_Types (type_at S t))" "typed S v m"
    using w v typed_union [OF prim_unionD(1) [OF assms(3)]] by (auto simp: within_def)
  moreover obtain q where "q \<noteq> PUnknown" "prim_cell S q m" using prim_unionD(2) [OF assms(3) m(1)] by blast
  ultimately show False using typed_prim by (auto simp: prim_value_alone)
qed

lemma not_within_prim_list:
  assumes "prim_cell S p s" "list_type S t"
  shows "\<not> within S s t"
proof
  assume w: "within S s t"
  have "token p (ty_Value (type_at S s)) [] \<noteq> VList vs" for vs by (cases p) (simp_all add: token_def)
  moreover have "typed S (token p (ty_Value (type_at S s)) []) s" using typed_prim [OF assms(1)] token_value by blast
  ultimately show False using w typed_list_type [OF assms(2)] unfolding within_def by blast
qed

lemma not_within_union_list:
  assumes "prim_union S s" "list_type S t"
  shows "\<not> within S s t"
proof -
  obtain m where m: "m \<in> set (ty_Types (type_at S s))"
    using assms(1) by (fastforce simp: prim_union_def Let_def neq_Nil_conv)
  then obtain p where "prim_cell S p m" using prim_unionD(2) [OF assms(1)] by blast
  then show ?thesis
    using m not_within_prim_list [OF _ assms(2)] within_union_source [OF prim_unionD(1) [OF assms(1)]] by blast
qed

end
