(* ===== verification/RelateRanked.thy ===== *)
theory RelateRanked
  imports RelateValues
begin

text \<open>
  The relation on the types with a meaning: it answers \<open>Yes\<close> or \<open>No\<close> by inclusion of values,
  whatever right answers the memo holds, and leaves the memo right.
\<close>

section \<open>Replies\<close>

definition memo_right :: "interner \<Rightarrow> (relKey \<rightharpoonup> ternary) \<Rightarrow> bool" where
  "memo_right S M \<longleftrightarrow>
    (\<forall>a b r x. M (a, b, r) = Some x \<longrightarrow> ranked S 18 a \<and> ranked S 18 b \<and> x = boolTern (within S a b))"

text \<open>\<open>replies S A m x\<close>: over the heap \<open>S\<close>, with the pairs \<open>A\<close> being related, the action answers
  \<open>x\<close> and changes nothing but the memo, which it keeps right.\<close>

definition replies :: "interner \<Rightarrow> relKey set \<Rightarrow> ('e checker_scheme, 'a) action \<Rightarrow> 'a \<Rightarrow> bool" where
  "replies S A m x \<longleftrightarrow>
    (\<forall>c. ck_in c = S \<longrightarrow> relActive c = A \<longrightarrow> memo_right S (relMemo c) \<longrightarrow>
      (\<exists>M. m c = (Inr x, c\<lparr>relMemo := M\<rparr>) \<and> memo_right S M))"

lemma replies_answer: "replies S A (answer x) x"
  unfolding replies_def answer_def
proof (intro allI impI)
  fix c :: "'e checker_scheme"
  assume "memo_right S (relMemo c)"
  then show "\<exists>M. (Inr x, c) = (Inr x, c\<lparr>relMemo := M\<rparr>) \<and> memo_right S M"
    by (intro exI [of _ "relMemo c"]) simp
qed

lemma replies_after:
  fixes m :: "('e checker_scheme, 'a) action" and f :: "'a \<Rightarrow> ('e checker_scheme, 'b) action"
  assumes "replies S A m x" "replies S A (f x) y"
  shows "replies S A (after m f) y"
  unfolding replies_def
proof (intro allI impI)
  fix c :: "'e checker_scheme"
  assume c: "ck_in c = S" "relActive c = A" "memo_right S (relMemo c)"
  obtain M where M: "m c = (Inr x, c\<lparr>relMemo := M\<rparr>)" "memo_right S M"
    using assms(1) c unfolding replies_def by blast
  have "ck_in (c\<lparr>relMemo := M\<rparr>) = S" "relActive (c\<lparr>relMemo := M\<rparr>) = A" "memo_right S (relMemo (c\<lparr>relMemo := M\<rparr>))"
    using c M(2) by simp_all
  then obtain M' where "f x (c\<lparr>relMemo := M\<rparr>) = (Inr y, c\<lparr>relMemo := M, relMemo := M'\<rparr>)" "memo_right S M'"
    using assms(2) unfolding replies_def by blast
  then show "\<exists>M. after m f c = (Inr y, c\<lparr>relMemo := M\<rparr>) \<and> memo_right S M"
    using M(1) by (auto simp: after_def)
qed

lemma replies_reading: "(\<And>c. ck_in c = S \<Longrightarrow> replies S A (f c) y) \<Longrightarrow> replies S A (reading f) y"
  by (simp add: replies_def reading_def)

lemma replies_cell: "replies S A (f (type_at S t)) y \<Longrightarrow> replies S A (with_cell t f) y"
  by (simp add: replies_def reading_def with_cell_def)

lemma replies_cong: "replies S A m x \<Longrightarrow> x = y \<Longrightarrow> replies S A m y"
  by simp

lemma boolTern_simps [simp]:
  "boolTern True = Yes" "boolTern False = No" "boolTern b = Yes \<longleftrightarrow> b" "boolTern b = No \<longleftrightarrow> \<not> b"
  "boolTern b \<noteq> Maybe" "all_tern [Yes, Yes] = Yes"
  by (simp_all add: boolTern_def all_tern_def less_ternary_def)

lemma replies_all_of:
  "(\<And>x. x \<in> set xs \<Longrightarrow> replies S A (f x) (boolTern (P x))) \<Longrightarrow>
    replies S A (all_of f xs Yes) (boolTern (\<forall>x\<in>set xs. P x))"
proof (induction xs)
  case (Cons x xs)
  have head: "replies S A (f x) (boolTern (P x))" using Cons.prems by simp
  show ?case
    unfolding all_of.simps
    by (rule replies_after [OF head]) (use Cons in \<open>cases "P x"; simp add: replies_answer\<close>)
qed (simp add: replies_answer)

lemma replies_some_of:
  "(\<And>x. x \<in> set xs \<Longrightarrow> replies S A (f x) (boolTern (P x))) \<Longrightarrow>
    replies S A (some_of f xs No) (boolTern (\<exists>x\<in>set xs. P x))"
proof (induction xs)
  case (Cons x xs)
  have head: "replies S A (f x) (boolTern (P x))" using Cons.prems by simp
  show ?case
    unfolding some_of.simps
    by (rule replies_after [OF head]) (use Cons in \<open>cases "P x"; simp add: replies_answer\<close>)
qed (simp add: replies_answer)

section \<open>The cells of the meaningful types\<close>

lemma prim_cellD:
  assumes "prim_cell S p t"
  shows "Flags (type_at S t) = flag_of p" "ty_Member (type_at S t) = []" "ty_Brand (type_at S t) = None"
  using assms by (simp_all add: prim_cell_def)

lemma prim_unionD':
  assumes "prim_union S t"
  shows "ty_Member (type_at S t) = []" "ty_Brand (type_at S t) = None"
  using assms by (simp_all add: prim_union_def Let_def)

text \<open>The literal of a value is one pointer.\<close>

lemma literal_pointer:
  assumes "prim_cell S p s" "prim_cell S p t" "p \<in> literals" "ty_Value (type_at S s) = ty_Value (type_at S t)"
  shows "s = t"
  using assms by (simp add: prim_cell_def)

lemma simple_answer_prim:
  assumes "prim_cell S p s" "prim_cell S q t" "s \<noteq> t" "p \<noteq> PUnknown" "q \<noteq> PUnknown"
  shows "simple_answer (type_at S s) (type_at S t) = Some (boolTern (within S s t))"
proof -
  note s = prim_cellD [OF assms(1)] and t = prim_cellD [OF assms(2)]
  have lit: "\<not> prim_within p (ty_Value (type_at S s)) q (ty_Value (type_at S t))" if "q \<in> literals"
  proof
    assume "prim_within p (ty_Value (type_at S s)) q (ty_Value (type_at S t))"
    then have "p = q" "ty_Value (type_at S s) = ty_Value (type_at S t)"
      using that by (cases q; simp add: prim_within_def literals_def)+
    then have "s = t" using literal_pointer [of S q s t] assms(1,2) that by blast
    then show False using assms(3) by contradiction
  qed
  have "simple_answer (type_at S s) (type_at S t) = (if q \<in> literals then Some No
      else if q = PString then Some (boolTern (p \<in> {PString, PStringLit}))
      else if q \<in> {PNumber, PInt, PFloat32} then Some (boolTern (p \<in> {PNumber, PInt, PFloat32, PNumberLit}))
      else if q = PBoolean then Some (boolTern (p \<in> {PBoolean, PBooleanLit}))
      else if q = PBigInt then Some (boolTern (p \<in> {PBigInt, PBigIntLit}))
      else if q = PSymbol then Some (boolTern (p = PSymbol))
      else if q = PVoid then Some (boolTern (p \<in> {PVoid, PUndefined}))
      else if q = PUndefined then Some (boolTern (p = PUndefined))
      else if q = PNull then Some (boolTern (p = PNull)) else Some Maybe)"
    by (simp only: simple_answer_def Let_def s t flag_of_tables flag_of_like is_object_def simp_thms if_False)
  also have "\<dots> = Some (boolTern (prim_within p (ty_Value (type_at S s)) q (ty_Value (type_at S t))))"
    using lit assms(5) by (cases q) (simp_all only: prim_within_def literals_def prim.case prim.distinct insert_iff empty_iff
        simp_thms if_True if_False boolTern_simps)
  finally show ?thesis by (simp only: within_prim [OF assms(1,2)])
qed

section \<open>The relation of two cells\<close>

definition plain_cell :: "Type \<Rightarrow> bool" where
  "plain_cell c \<longleftrightarrow> (Flags c = UnionT \<or> Flags c = ObjectT \<or> (\<exists>p. Flags c = flag_of p))
    \<and> ty_Member c = [] \<and> ty_Brand c = None"

lemma plain_flags:
  assumes "plain_cell c"
  shows "\<not> has_flag (Flags c) [DeferredT]" "\<not> has_flag (Flags c) [AnyT, NeverT]" "\<not> is_type_param c"
    "has_flag (Flags c) [AnyT, UnknownT] \<longleftrightarrow> has_flag (Flags c) [UnknownT]" "Flags c \<noteq> AnyT"
proof -
  show "\<not> has_flag (Flags c) [DeferredT]" "\<not> has_flag (Flags c) [AnyT, NeverT]" "\<not> is_type_param c"
    "has_flag (Flags c) [AnyT, UnknownT] \<longleftrightarrow> has_flag (Flags c) [UnknownT]"
    using assms flag_of_like(1,2) [of PUnknown]
    by (auto simp: plain_cell_def is_type_param_def flag_of_tables flag_of_like union_flag_tables
        object_flag_tables)
  moreover have "has_flag AnyT [AnyT, NeverT]" by (simp add: has_flag_def type_flag_defs)
  ultimately show "Flags c \<noteq> AnyT" by metis
qed

lemma ranked_plain: "ranked S n t \<Longrightarrow> plain_cell (type_at S t)"
  by (induction n arbitrary: t) (auto simp: prim_cell_def prim_union_def list_cell_def plain_cell_def Let_def)

text \<open>What is left of the relation after the cases plain cells do not meet.\<close>

definition plain_types :: "program \<Rightarrow> 'e checker_scheme evaluator \<Rightarrow> 'e checker_scheme relating \<Rightarrow> interner \<Rightarrow> ty \<Rightarrow> ty \<Rightarrow>
    relation \<Rightarrow> nat \<Rightarrow> ('e checker_scheme, ternary) action" where
  "plain_types pg ev rel S s t r depth =
    (let cs = type_at S s; ct = type_at S t in
     if is_union cs then all_of (\<lambda>m. rel (Some m) (Some t) r (depth + 1)) (ty_Types cs) Yes
     else if has_flag (Flags cs) [UnknownT] \<and> is_union ct
     then reading (\<lambda>c. answer (boolTern (unknown_to_union (ck_in c) ct)))
     else if is_union ct then relate_to_union pg rel s t r depth
     else if has_flag (Flags cs) [UnknownT] then answer No
     else (case simple_answer cs ct of
         Some x \<Rightarrow> answer x
       | None \<Rightarrow> object_target pg ev rel s t r depth))"

lemma replies_uncached:
  assumes s: "plain_cell (type_at S s)" and t: "plain_cell (type_at S t)" and depth: "depth \<le> 20"
    and pg: "Flags (type_at S (pg_unanswered pg)) = AnyT"
    and plain: "s \<noteq> t \<Longrightarrow> \<not> has_flag (Flags (type_at S t)) [UnknownT] \<Longrightarrow>
      replies S A (plain_types pg ev rel S s t r depth) (boolTern (within S s t))"
    and unknown: "has_flag (Flags (type_at S t)) [UnknownT] \<Longrightarrow> within S s t"
  shows "replies S A (relateUncached pg ev rel (Some s) (Some t) r depth) (boolTern (within S s t))"
proof -
  have known: "\<not> Unanswered pg s" "\<not> Unanswered pg t"
    using plain_flags(5) [OF s] plain_flags(5) [OF t] pg by (auto simp: Unanswered_def)
  have brand: "ty_Brand (type_at S s) = None" "ty_Brand (type_at S t) = None"
    using s t by (simp_all add: plain_cell_def)
  have "replies S A (relate_types pg ev rel s t r depth) (boolTern (within S s t))"
  proof (cases "s = t \<or> has_flag (Flags (type_at S t)) [UnknownT]")
    case True
    then have "boolTern (within S s t) = Yes" using unknown by (auto simp: within_def)
    with True show ?thesis
      unfolding relate_types_def
      by (elim disjE; intro replies_cell)
        (simp_all add: plain_flags [OF s] plain_flags [OF t] replies_answer)
  next
    case False
    then show ?thesis
      using plain unfolding relate_types_def
      by (intro replies_cell)
        (simp add: plain_flags [OF s] plain_flags [OF t] brand plain_types_def Let_def)
  qed
  then show ?thesis using known depth by (simp add: relateUncached_def)
qed

section \<open>Primitive types and their unions\<close>

lemma is_union_prim: "prim_cell S p t \<Longrightarrow> \<not> is_union (type_at S t)"
  by (simp add: is_union_def prim_cellD flag_of_tables)

lemma unknown_prim: "prim_cell S p t \<Longrightarrow> has_flag (Flags (type_at S t)) [UnknownT] \<longleftrightarrow> p = PUnknown"
  by (simp add: prim_cellD flag_of_like)

lemma prim_plain: "prim_cell S p t \<Longrightarrow> plain_cell (type_at S t)"
  by (auto simp: plain_cell_def prim_cell_def)

lemma union_plain: "prim_union S t \<Longrightarrow> plain_cell (type_at S t)"
  by (simp add: plain_cell_def prim_union_def Let_def)

lemma replies_prims:
  assumes s: "prim_cell S p s" and t: "prim_cell S q t" and "depth \<le> 20"
    and "Flags (type_at S (pg_unanswered pg)) = AnyT"
  shows "replies S A (relate pg ev (Suc n) (Some s) (Some t) r depth) (boolTern (within S s t))"
proof -
  have "replies S A (relateUncached pg ev (relate pg ev n) (Some s) (Some t) r depth) (boolTern (within S s t))"
  proof (rule replies_uncached [OF prim_plain [OF s] prim_plain [OF t] assms(3,4)])
    assume ne: "s \<noteq> t" and q: "\<not> has_flag (Flags (type_at S t)) [UnknownT]"
    show "replies S A (plain_types pg ev (relate pg ev n) S s t r depth) (boolTern (within S s t))"
    proof (cases "p = PUnknown")
      case True
      then have "\<not> within S s t"
        using q unknown_prim [OF t] by (cases q) (auto simp: within_prim [OF s t] prim_within_def)
      then show ?thesis
        using True by (simp add: plain_types_def is_union_prim [OF s] is_union_prim [OF t] unknown_prim [OF s] replies_answer)
    next
      case False
      then show ?thesis
        using q simple_answer_prim [OF s t ne]
        by (simp add: plain_types_def is_union_prim [OF s] is_union_prim [OF t] unknown_prim [OF s]
            unknown_prim [OF t] replies_answer)
    qed
  next
    assume "has_flag (Flags (type_at S t)) [UnknownT]"
    then show "within S s t" using unknown_prim [OF t] by (simp add: within_prim [OF s t] prim_within_def)
  qed
  moreover have "\<not> is_object (type_at S s)" by (simp add: is_object_def prim_cellD [OF s] flag_of_tables)
  ultimately show ?thesis by (auto intro!: replies_cell)
qed

lemma unknown_not_union:
  assumes "prim_union S t"
  shows "\<not> unknown_to_union S (type_at S t)"
proof -
  let ?mask = "Bit_Operations.or NullT UndefinedT"
  let ?step = "\<lambda>m f. Bit_Operations.or
      (if is_object (type_at S m) \<and> empty_object (type_at S m) then Bit_Operations.or f ObjectT else f)
      (Bit_Operations.and (Flags (type_at S m)) ?mask)"
  have mask: "\<not> has_flag (Bit_Operations.and f ?mask) [ObjectT]" for f
  proof -
    have "Bit_Operations.and (Bit_Operations.and f ?mask) ObjectT = Bit_Operations.and f (Bit_Operations.and ?mask ObjectT)"
      by (rule and.assoc)
    also have "Bit_Operations.and ?mask ObjectT = 0" by (simp add: type_flag_defs)
    finally show ?thesis by (simp add: has_flag_def)
  qed
  have "\<not> has_flag (fold ?step ms f) [ObjectT]"
    if "\<forall>m\<in>set ms. \<not> is_object (type_at S m)" "\<not> has_flag f [ObjectT]" for ms f
    using that by (induction ms arbitrary: f) (simp_all add: has_flag_or mask)
  moreover have "\<forall>m\<in>set (ty_Types (type_at S t)). \<not> is_object (type_at S m)"
    using prim_unionD(2) [OF assms] by (metis is_object_def prim_cellD(1) flag_of_tables(5))
  ultimately have "\<not> has_flag (fold ?step (ty_Types (type_at S t)) 0) [ObjectT]" by simp
  moreover have "has_flag (Bit_Operations.or ObjectT ?mask) [ObjectT]" by (simp add: has_flag_def type_flag_defs)
  ultimately show ?thesis unfolding unknown_to_union_def Let_def by metis
qed

lemma no_objects:
  assumes "prim_union S t"
  shows "\<not> unionHasArray S (type_at S t)" "filter (\<lambda>m. is_object (type_at S m)) (ty_Types (type_at S t)) = []"
proof -
  have "\<not> is_object (type_at S m)" if "m \<in> set (ty_Types (type_at S t))" for m
    using prim_unionD(2) [OF assms that] by (metis is_object_def prim_cellD(1) flag_of_tables(5))
  then show "\<not> unionHasArray S (type_at S t)" "filter (\<lambda>m. is_object (type_at S m)) (ty_Types (type_at S t)) = []"
    by (auto simp: unionHasArray_def list_ex_iff filter_empty_conv)
qed

text \<open>A union of primitive types as the target: one member takes the source, or none.\<close>

lemma replies_to_union:
  assumes t: "prim_union S t"
    and member: "\<And>m r. m \<in> set (ty_Types (type_at S t)) \<Longrightarrow>
      replies S A (rel (Some s) (Some m) r (depth + 1)) (boolTern (P m))"
  shows "replies S A (relate_to_union pg rel s t r depth)
    (boolTern (\<exists>m\<in>set (ty_Types (type_at S t)). P m))"
proof -
  have some: "replies S A (some_of (\<lambda>m. rel (Some s) (Some m) r (depth + 1)) (ty_Types (type_at S t)) No)
      (boolTern (\<exists>m\<in>set (ty_Types (type_at S t)). P m))" for r
    by (rule replies_some_of) (rule member)
  show ?thesis
    unfolding relate_to_union_def Let_def
    by (intro replies_cell replies_after [OF some] replies_reading) (simp add: no_objects [OF t] replies_answer)
qed

lemma replies_prim_union:
  assumes s: "prim_cell S p s" and t: "prim_union S t" and "depth \<le> 19"
    and pg: "Flags (type_at S (pg_unanswered pg)) = AnyT"
  shows "replies S A (relate pg ev (Suc (Suc n)) (Some s) (Some t) r depth) (boolTern (within S s t))"
proof -
  have ct: "is_union (type_at S t)" "\<not> has_flag (Flags (type_at S t)) [UnknownT]"
    by (simp_all add: is_union_def prim_unionD(1) [OF t] union_flag_tables)
  have "replies S A (relateUncached pg ev (relate pg ev (Suc n)) (Some s) (Some t) r depth) (boolTern (within S s t))"
  proof (rule replies_uncached [OF prim_plain [OF s] union_plain [OF t] _ pg])
    show "replies S A (plain_types pg ev (relate pg ev (Suc n)) S s t r depth) (boolTern (within S s t))"
    proof (cases "p = PUnknown")
      case True
      have "\<not> within S s m" if m: "m \<in> set (ty_Types (type_at S t))" for m
      proof -
        obtain q where "q \<noteq> PUnknown" "prim_cell S q m" using prim_unionD(2) [OF t m] by blast
        then show ?thesis using True within_prim [OF s] by (cases q) (auto simp: prim_within_def)
      qed
      then have "\<not> within S s t" using within_prim_union [OF t s] by blast
      then show ?thesis
        using True unknown_not_union [OF t]
        by (auto simp: plain_types_def is_union_prim [OF s] unknown_prim [OF s] ct intro!: replies_reading replies_answer)
    next
      case False
      have "replies S A (relate_to_union pg (relate pg ev (Suc n)) s t r depth)
          (boolTern (\<exists>m\<in>set (ty_Types (type_at S t)). within S s m))"
      proof (rule replies_to_union [OF t])
        fix m r assume "m \<in> set (ty_Types (type_at S t))"
        then obtain q where "prim_cell S q m" using prim_unionD(2) [OF t] by blast
        then show "replies S A (relate pg ev (Suc n) (Some s) (Some m) r (depth + 1)) (boolTern (within S s m))"
          using assms(3) by (intro replies_prims [OF s _ _ pg]) simp_all
      qed
      then show ?thesis
        using False within_prim_union [OF t s]
        by (simp add: plain_types_def is_union_prim [OF s] unknown_prim [OF s] ct)
    qed
  qed (use ct assms(3) in simp_all)
  moreover have "\<not> is_object (type_at S s)" by (simp add: is_object_def prim_cellD [OF s] flag_of_tables)
  ultimately show ?thesis by (auto intro!: replies_cell)
qed

text \<open>A source that is a primitive type or a union of them, whatever the target: the target's own
  case for the members is enough.\<close>

lemma replies_union_source:
  assumes s: "prim_union S s" and t: "plain_cell (type_at S t)" and "depth \<le> 20"
    and pg: "Flags (type_at S (pg_unanswered pg)) = AnyT"
    and unknown: "has_flag (Flags (type_at S t)) [UnknownT] \<Longrightarrow> within S s t"
    and member: "\<And>m p. m \<in> set (ty_Types (type_at S s)) \<Longrightarrow> prim_cell S p m \<Longrightarrow>
      replies S A (relate pg ev n (Some m) (Some t) r (depth + 1)) (boolTern (within S m t))"
  shows "replies S A (relate pg ev (Suc n) (Some s) (Some t) r depth) (boolTern (within S s t))"
proof -
  have cs: "is_union (type_at S s)" by (simp add: is_union_def prim_unionD(1) [OF s] union_flag_tables)
  have "replies S A (relateUncached pg ev (relate pg ev n) (Some s) (Some t) r depth) (boolTern (within S s t))"
  proof (rule replies_uncached [OF union_plain [OF s] t assms(3) pg])
    have "replies S A (all_of (\<lambda>m. relate pg ev n (Some m) (Some t) r (depth + 1)) (ty_Types (type_at S s)) Yes)
        (boolTern (\<forall>m\<in>set (ty_Types (type_at S s)). within S m t))"
      by (rule replies_all_of) (use member prim_unionD(2) [OF s] in blast)
    then show "replies S A (plain_types pg ev (relate pg ev n) S s t r depth) (boolTern (within S s t))"
      by (simp add: plain_types_def cs within_union_source [OF prim_unionD(1) [OF s]])
  qed (rule unknown)
  moreover have "\<not> is_object (type_at S s)" by (simp add: is_object_def prim_unionD(1) [OF s] union_flag_tables)
  ultimately show ?thesis by (auto intro!: replies_cell)
qed

section \<open>Arrays and tuples\<close>

lemma list_cellD:
  assumes "list_cell S P t"
  shows "Flags (type_at S t) = ObjectT" "plain_cell (type_at S t)" "list_type S t" "is_object (type_at S t)"
    "\<not> is_union (type_at S t)" "\<not> has_flag (Flags (type_at S t)) [UnknownT]" "\<not> empty_object (type_at S t)"
    "ty_Member (type_at S t) = []" "is_list (type_at S t)"
  using assms object_flag_tables(5-7)
  by (auto simp: list_cell_def plain_cell_def list_type_def is_list_def is_object_def is_union_def empty_object_def Let_def)

lemma list_cell_cases:
  assumes "list_cell S P t"
  obtains (array) e where "array_of S t e" "P e"
  | (tuple) es where "tuple_of S t es" "list_all P es" "minLen (type_at S t) = int (length es)"
  using assms by (auto simp: list_cell_def array_of_def tuple_of_def minLen_def Let_def)

lemma ranked_cases:
  assumes "ranked S (Suc k) t"
  obtains (prim) p where "prim_cell S p t" | (unions) "prim_union S t" | (list) "list_cell S (ranked S k) t"
proof -
  have "(\<exists>p. prim_cell S p t) \<or> prim_union S t \<or> list_cell S (ranked S k) t"
    using assms
  proof (induction k arbitrary: t)
    case (Suc k)
    have mono: "list_cell S (ranked S k) t \<Longrightarrow> list_cell S (ranked S (Suc k)) t"
      by (auto simp: list_cell_def Let_def list_all_iff)
    from Suc.prems have "ranked S (Suc k) t \<or> list_cell S (ranked S (Suc k)) t" by simp
    then show ?case using Suc.IH mono by blast
  qed auto
  then show ?thesis using that by blast
qed

lemma simple_answer_to_list:
  "list_cell S P t \<Longrightarrow> ty_Member c = [] \<Longrightarrow> \<not> has_flag (Flags c) [NonPrimitiveT] \<Longrightarrow> simple_answer c (type_at S t) = None"
  by (simp add: simple_answer_def Let_def list_cellD object_flag_tables)

lemma replies_prim_list:
  assumes s: "prim_cell S p s" and t: "list_cell S P t" and "depth \<le> 20"
    and pg: "Flags (type_at S (pg_unanswered pg)) = AnyT"
  shows "replies S A (relate pg ev (Suc n) (Some s) (Some t) r depth) (boolTern (within S s t))"
proof -
  have no: "boolTern (within S s t) = No" using not_within_prim_list [OF s list_cellD(3) [OF t]] by simp
  have "replies S A (relateUncached pg ev (relate pg ev n) (Some s) (Some t) r depth) (boolTern (within S s t))"
  proof (rule replies_uncached [OF prim_plain [OF s] list_cellD(2) [OF t] assms(3) pg])
    show "replies S A (plain_types pg ev (relate pg ev n) S s t r depth) (boolTern (within S s t))"
    proof (cases "p = PUnknown")
      case True
      then show ?thesis
        by (simp add: no plain_types_def Let_def is_union_prim [OF s] unknown_prim [OF s] list_cellD [OF t] replies_answer)
    next
      case False
      have "replies S A (primitive_to_object pg ev s t r) No"
        unfolding primitive_to_object_def by (intro replies_cell) (simp add: list_cellD [OF t] replies_answer)
      then have "replies S A (object_target pg ev (relate pg ev n) s t r depth) No"
        unfolding object_target_def
        by (intro replies_cell) (simp add: prim_cellD [OF s] flag_of_primitive False)
      then show ?thesis
        using False simple_answer_to_list [OF t prim_cellD(2) [OF s]]
        by (simp add: no plain_types_def Let_def is_union_prim [OF s] unknown_prim [OF s] list_cellD [OF t]
            prim_cellD [OF s] flag_of_tables flag_of_like)
    qed
  qed (simp add: list_cellD [OF t] object_flag_tables)
  moreover have "\<not> is_object (type_at S s)" by (simp add: is_object_def prim_cellD [OF s] flag_of_tables)
  ultimately show ?thesis by (auto intro!: replies_cell)
qed

lemma replies_list_prim:
  assumes s: "list_cell S P s" and val: "\<exists>v. typed S v s" and t: "prim_cell S q t" and "depth \<le> 20"
    and pg: "Flags (type_at S (pg_unanswered pg)) = AnyT"
  shows "replies S A (relate pg ev (Suc n) (Some s) (Some t) r depth) (boolTern (within S s t))"
proof -
  note within = within_list_prim [OF list_cellD(3) [OF s] val t]
  have "replies S A (relateUncached pg ev (relate pg ev n) (Some s) (Some t) r depth) (boolTern (within S s t))"
  proof (rule replies_uncached [OF list_cellD(2) [OF s] prim_plain [OF t] assms(4) pg])
    assume "\<not> has_flag (Flags (type_at S t)) [UnknownT]"
    then have q: "q \<noteq> PUnknown" by (simp add: unknown_prim [OF t])
    have "simple_answer (type_at S s) (type_at S t) = Some No"
      unfolding simple_answer_def Let_def list_cellD(1) [OF s] prim_cellD(1) [OF t]
      using q by (cases q)
        (simp_all only: object_flag_tables flag_of_tables flag_of_like prim_cellD [OF t] list_cellD [OF s] is_object_def
          simp_thms if_True if_False literals_def insert_iff empty_iff prim.distinct boolTern_simps)
    then show "replies S A (plain_types pg ev (relate pg ev n) S s t r depth) (boolTern (within S s t))"
      using q within by (simp add: plain_types_def list_cellD [OF s] is_union_prim [OF t] replies_answer)
  qed (use within unknown_prim [OF t] in simp)
  moreover have "\<not> is_object (type_at S t)" by (simp add: is_object_def prim_cellD [OF t] flag_of_tables)
  ultimately show ?thesis by (auto intro!: replies_cell)
qed

lemma replies_list_union:
  assumes s: "list_cell S P s" and val: "\<exists>v. typed S v s" and t: "prim_union S t" and "depth \<le> 19"
    and pg: "Flags (type_at S (pg_unanswered pg)) = AnyT"
  shows "replies S A (relate pg ev (Suc (Suc n)) (Some s) (Some t) r depth) (boolTern (within S s t))"
proof -
  have ct: "is_union (type_at S t)" "\<not> has_flag (Flags (type_at S t)) [UnknownT]" "\<not> is_object (type_at S t)"
    by (simp_all add: is_union_def is_object_def prim_unionD(1) [OF t] union_flag_tables)
  have none: "\<not> within S s m" "replies S A (relate pg ev (Suc n) (Some s) (Some m) r (depth + 1)) (boolTern (within S s m))"
    if m: "m \<in> set (ty_Types (type_at S t))" for m r
  proof -
    obtain q where q: "q \<noteq> PUnknown" "prim_cell S q m" using prim_unionD(2) [OF t m] by blast
    then show "\<not> within S s m" using within_list_prim [OF list_cellD(3) [OF s] val] by blast
    show "replies S A (relate pg ev (Suc n) (Some s) (Some m) r (depth + 1)) (boolTern (within S s m))"
      using assms(4) by (intro replies_list_prim [OF s val q(2) _ pg]) simp
  qed
  have "replies S A (relateUncached pg ev (relate pg ev (Suc n)) (Some s) (Some t) r depth) (boolTern (within S s t))"
  proof (rule replies_uncached [OF list_cellD(2) [OF s] union_plain [OF t] _ pg])
    have "(\<exists>m\<in>set (ty_Types (type_at S t)). within S s m) = within S s t"
      using none(1) not_within_list_union [OF list_cellD(3) [OF s] val t] by blast
    moreover have "replies S A (relate_to_union pg (relate pg ev (Suc n)) s t r depth)
        (boolTern (\<exists>m\<in>set (ty_Types (type_at S t)). within S s m))"
      by (rule replies_to_union [OF t]) (rule none(2))
    ultimately show "replies S A (plain_types pg ev (relate pg ev (Suc n)) S s t r depth) (boolTern (within S s t))"
      by (simp add: plain_types_def Let_def list_cellD [OF s] object_flag_tables ct del: relate.simps)
  qed (use ct assms(4) in simp_all)
  then show ?thesis using ct by (auto intro!: replies_cell)
qed

text \<open>Two lists: the memo around the comparison of their elements.\<close>

lemma replies_remembering:
  fixes m :: "('e checker_scheme, ternary) action"
  assumes "ranked S 18 s" "ranked S 18 t" "(s, t, r) \<notin> A" "depth \<le> 20"
    and m: "replies S (insert (s, t, r) A) m (boolTern (within S s t))"
  shows "replies S A (remembering (s, t, r) depth m) (boolTern (within S s t))"
  unfolding replies_def
proof (intro allI impI)
  fix c :: "'e checker_scheme"
  assume c: "ck_in c = S" "relActive c = A" "memo_right S (relMemo c)"
  let ?k = "(s, t, r)" and ?x = "boolTern (within S s t)"
  show "\<exists>M. remembering ?k depth m c = (Inr ?x, c\<lparr>relMemo := M\<rparr>) \<and> memo_right S M"
  proof (cases "relMemo c ?k")
    case (Some x)
    then have "x = ?x" using c(3) assms(1,2) by (simp add: memo_right_def)
    then show ?thesis
      using Some c(3) by (intro exI [of _ "relMemo c"]) (simp add: remembering_def)
  next
    case None
    let ?c = "c\<lparr>relActive := insert ?k (relActive c)\<rparr>"
    have "ck_in ?c = S" "relActive ?c = insert ?k A" "memo_right S (relMemo ?c)" using c by simp_all
    then obtain M where M: "m ?c = (Inr ?x, ?c\<lparr>relMemo := M\<rparr>)" "memo_right S M"
      using m unfolding replies_def by blast
    have "insert ?k A - {?k} = A" using assms(3) by simp
    then have "remembering ?k depth m c = (Inr ?x, c\<lparr>relMemo := M(?k \<mapsto> ?x)\<rparr>)"
      using None M(1) c(2) assms(3,4) by (simp add: remembering_def Let_def)
    moreover have "memo_right S (M(?k \<mapsto> ?x))" using M(2) assms(1,2) by (simp add: memo_right_def)
    ultimately show ?thesis by blast
  qed
qed

lemma no_covariant: "list_cell S P s \<Longrightarrow> replies S A (covariant_mismatch pg rel s t r depth) False"
  unfolding covariant_mismatch_def
  by (intro replies_cell) (auto simp: list_cell_def Let_def intro: replies_answer)

lemma replies_lists:
  assumes s: "list_cell S (ranked S k) s" and t: "list_cell S (ranked S k) t"
    and parts: "\<And>x y. ranked S k x \<Longrightarrow> ranked S k y \<Longrightarrow>
      replies S A (rel (Some x) (Some y) r (depth + 1)) (boolTern (within S x y))"
  shows "replies S A (object_target pg ev rel s t r depth) (boolTern (within S s t))"
proof -
  have inhab: "\<exists>v. typed S v e" if "ranked S k e" for e using that by (rule ranked_value)
  have "replies S A (relateObjects pg ev rel s t r depth) (boolTern (within S s t))"
  proof (rule list_cell_cases [OF t])
    fix u assume u: "array_of S t u" "ranked S k u"
    have ct: "ty_Kind (type_at S t) = Array" "ty_Elem (type_at S t) = Some u" using u(1) by (simp_all add: array_of_def)
    have "replies S A (relate_to_array pg rel s t r depth) (boolTern (within S s t))"
    proof (rule list_cell_cases [OF s])
      fix e assume e: "array_of S s e" "ranked S k e"
      then have cs: "ty_Kind (type_at S s) = Array" "ty_Elem (type_at S s) = Some e" by (simp_all add: array_of_def)
      have "replies S A (rel (Some e) (Some u) r (depth + 1)) (boolTern (within S e u))" by (rule parts [OF e(2) u(2)])
      then show ?thesis
        unfolding relate_to_array_def within_arrays [OF e(1) u(1)] by (intro replies_cell) (simp add: cs ct)
    next
      fix es assume es: "tuple_of S s es" "list_all (ranked S k) es"
      then have cs: "ty_Kind (type_at S s) = Tuple" "ty_Elems (type_at S s) = es" by (simp_all add: tuple_of_def)
      have "replies S A (all_of (\<lambda>e. rel (Some e) (Some u) r (depth + 1)) es Yes) (boolTern (\<forall>e\<in>set es. within S e u))"
        by (rule replies_all_of) (use es(2) parts u(2) in \<open>auto simp: list_all_iff\<close>)
      moreover have "within S s t \<longleftrightarrow> (\<forall>e\<in>set es. within S e u)"
        by (rule within_tuple_array [OF es(1) u(1)]) (use es(2) inhab in \<open>auto simp: list_all_iff\<close>)
      ultimately show ?thesis unfolding relate_to_array_def by (intro replies_cell) (simp add: cs ct)
    qed
    then show ?thesis
      unfolding relateObjects_def
      by (intro replies_after [OF no_covariant [OF s]]) (simp, intro replies_cell, simp add: ct)
  next
    fix us assume us: "tuple_of S t us" "list_all (ranked S k) us" "minLen (type_at S t) = int (length us)"
    have ct: "ty_Kind (type_at S t) = Tuple" "ty_Elems (type_at S t) = us" using us(1) by (simp_all add: tuple_of_def)
    have "replies S A (relate_to_tuple rel s t r depth) (boolTern (within S s t))"
    proof (rule list_cell_cases [OF s])
      fix e assume e: "array_of S s e" "ranked S k e"
      then have cs: "ty_Kind (type_at S s) = Array" by (simp add: array_of_def)
      have "\<not> within S s t" by (rule not_within_array_tuple [OF e(1) us(1) inhab [OF e(2)]])
      then show ?thesis
        unfolding relate_to_tuple_def by (intro replies_cell) (simp add: cs replies_answer)
    next
      fix es assume es: "tuple_of S s es" "list_all (ranked S k) es" "minLen (type_at S s) = int (length es)"
      then have cs: "ty_Kind (type_at S s) = Tuple" "ty_Elems (type_at S s) = es" by (simp_all add: tuple_of_def)
      have all: "replies S A (all_of (\<lambda>(x, y). rel (Some x) (Some y) r (depth + 1)) (zip es us) Yes)
          (boolTern (\<forall>x\<in>set (zip es us). within S (fst x) (snd x)))"
      proof (rule replies_all_of, clarify)
        fix x y assume xy: "(x, y) \<in> set (zip es us)"
        have "ranked S k x" "ranked S k y"
          using set_zip_leftD [OF xy] set_zip_rightD [OF xy] es(2) us(2) by (auto simp: list_all_iff)
        then show "replies S A (rel (Some x) (Some y) r (depth + 1)) (boolTern (within S (fst (x, y)) (snd (x, y))))"
          using parts by simp
      qed
      have within: "within S s t \<longleftrightarrow> length es = length us \<and> (\<forall>x\<in>set (zip es us). within S (fst x) (snd x))"
        by (rule within_tuples [OF es(1) us(1)]) (use es(2) inhab in \<open>auto simp: list_all_iff\<close>)
      show ?thesis
      proof (cases "length es = length us")
        case True
        then show ?thesis
          using all unfolding relate_to_tuple_def within
          by (intro replies_cell) (simp add: cs ct es(3) us(3))
      next
        case False
        then have "length us < length es \<or> length es < length us" by auto
        then show ?thesis
          using False unfolding relate_to_tuple_def within
          by (intro replies_cell) (auto simp: cs ct es(3) us(3) replies_answer)
      qed
    qed
    then show ?thesis
      unfolding relateObjects_def
      by (intro replies_after [OF no_covariant [OF s]]) (simp, intro replies_cell, simp add: ct)
  qed
  then show ?thesis
    unfolding object_target_def
    by (intro replies_cell) (simp add: list_cellD [OF s] object_flag_tables)
qed

section \<open>Every depth\<close>

definition idle :: "interner \<Rightarrow> nat \<Rightarrow> relKey set \<Rightarrow> bool" where
  "idle S k A \<longleftrightarrow> (\<forall>a b r. (a, b, r) \<in> A \<longrightarrow> \<not> (ranked S k a \<and> ranked S k b))"

lemma replies_ranked_zero:
  assumes s: "ranked S 0 s" and t: "ranked S 0 t" and "depth \<le> 18"
    and pg: "Flags (type_at S (pg_unanswered pg)) = AnyT"
  shows "replies S A (relate pg ev (Suc (Suc (Suc n))) (Some s) (Some t) r depth) (boolTern (within S s t))"
proof -
  have target: "replies S A (relate pg ev (Suc (Suc m)) (Some s) (Some t) r depth) (boolTern (within S s t))"
    if "prim_cell S p s" "depth \<le> 19" for m p s depth
  proof (cases "prim_union S t")
    case True
    show ?thesis by (rule replies_prim_union [OF that(1) True that(2) pg])
  next
    case False
    then obtain q where "prim_cell S q t" using t by auto
    then show ?thesis using that by (intro replies_prims [OF that(1) _ _ pg]) simp_all
  qed
  show ?thesis
  proof (cases "prim_union S s")
    case True
    have unknown: "within S s t" if "has_flag (Flags (type_at S t)) [UnknownT]"
    proof -
      have "\<not> prim_union S t"
        using that union_flag_tables(7) by (auto simp: prim_union_def Let_def)
      then obtain q where q: "prim_cell S q t" using t by auto
      then show ?thesis using that typed_prim [OF q] unknown_prim [OF q] by (simp add: within_def)
    qed
    show ?thesis
      by (rule replies_union_source [OF True ranked_plain [OF t] _ pg unknown])
        (use assms(3) target in simp_all)
  next
    case False
    then obtain p where "prim_cell S p s" using s by auto
    then show ?thesis using target assms(3) by simp
  qed
qed

lemma zero_ranked: "prim_cell S p t \<or> prim_union S t \<Longrightarrow> ranked S k t"
  using ranked_mono [of S 0 t k] by auto

lemma replies_ranked:
  assumes pg: "Flags (type_at S (pg_unanswered pg)) = AnyT"
  shows "ranked S k s \<Longrightarrow> ranked S k t \<Longrightarrow> depth + k \<le> 18 \<Longrightarrow> 22 \<le> n + depth \<Longrightarrow> idle S k A \<Longrightarrow>
    replies S A (relate pg ev n (Some s) (Some t) r depth) (boolTern (within S s t))"
proof (induction k arbitrary: s t depth n A)
  case 0
  then have "n = Suc (Suc (Suc (n - 3)))" by simp
  then show ?case using replies_ranked_zero [OF 0(1,2) _ pg] 0(3) by (metis add_0_right)
next
  case (Suc k)
  have val: "\<exists>v. typed S v s" by (rule ranked_value [OF Suc.prems(1)])
  have n: "n = Suc (Suc (n - 2))" "depth \<le> 19" "depth \<le> 20" using Suc.prems(3,4) by simp_all
  have idle: "idle S k A" using Suc.prems(5) by (auto simp: idle_def)
  show ?case
  proof (cases "ranked S k s \<and> ranked S k t")
    case True
    then show ?thesis using Suc.prems(3,4) by (intro Suc.IH idle) simp_all
  next
    case False
    show ?thesis
    proof (rule ranked_cases [OF Suc.prems(1)])
      fix p assume s: "prim_cell S p s"
      show ?thesis
      proof (rule ranked_cases [OF Suc.prems(2)])
        assume t: "list_cell S (ranked S k) t"
        show ?thesis using replies_prim_list [OF s t n(3) pg] n(1) by metis
      qed (use replies_prims [OF s _ n(3) pg] replies_prim_union [OF s _ n(2) pg] n(1) in metis)+
    next
      assume s: "prim_union S s"
      show ?thesis
      proof (rule ranked_cases [OF Suc.prems(2)])
        assume t: "list_cell S (ranked S k) t"
        have "replies S A (relate pg ev (Suc (Suc (n - 2))) (Some s) (Some t) r depth) (boolTern (within S s t))"
        proof (rule replies_union_source [OF s list_cellD(2) [OF t] n(3) pg])
          fix m p assume "prim_cell S p m"
          then show "replies S A (relate pg ev (Suc (n - 2)) (Some m) (Some t) r (depth + 1)) (boolTern (within S m t))"
            using n(2) by (intro replies_prim_list [OF _ t _ pg]) simp_all
        qed (simp add: list_cellD [OF t] object_flag_tables)
        then show ?thesis using n(1) by simp
      qed (use False s zero_ranked in blast)+
    next
      assume s: "list_cell S (ranked S k) s"
      show ?thesis
      proof (rule ranked_cases [OF Suc.prems(2)])
        fix q assume "prim_cell S q t"
        then show ?thesis using replies_list_prim [OF s val _ n(3) pg] n(1) by metis
      next
        assume "prim_union S t"
        then show ?thesis using replies_list_union [OF s val _ n(2) pg] n(1) by metis
      next
        assume t: "list_cell S (ranked S k) t"
        let ?n = "Suc (n - 2)"
        have "replies S (insert (s, t, r) A) (relateUncached pg ev (relate pg ev ?n) (Some s) (Some t) r depth)
            (boolTern (within S s t))"
        proof (rule replies_uncached [OF list_cellD(2) [OF s] list_cellD(2) [OF t] n(3) pg])
          have "replies S (insert (s, t, r) A) (object_target pg ev (relate pg ev ?n) s t r depth) (boolTern (within S s t))"
          proof (rule replies_lists [OF s t])
            fix x y assume "ranked S k x" "ranked S k y"
            then show "replies S (insert (s, t, r) A) (relate pg ev ?n (Some x) (Some y) r (depth + 1)) (boolTern (within S x y))"
              using Suc.prems(3,4) idle False by (intro Suc.IH) (auto simp: idle_def)
          qed
          then show "replies S (insert (s, t, r) A) (plain_types pg ev (relate pg ev ?n) S s t r depth) (boolTern (within S s t))"
            using simple_answer_to_list [OF t, of "type_at S s"]
            by (simp add: plain_types_def Let_def list_cellD [OF s] list_cellD [OF t] object_flag_tables del: relate.simps)
        qed (simp add: list_cellD [OF t] object_flag_tables)
        moreover have "(s, t, r) \<notin> A" using Suc.prems(1,2,5) by (auto simp: idle_def)
        moreover have "ranked S 18 s" "ranked S 18 t"
          using ranked_mono [OF Suc.prems(1), of 18] ranked_mono [OF Suc.prems(2), of 18] Suc.prems(3) by simp_all
        ultimately have "replies S A (remembering (s, t, r) depth (relateUncached pg ev (relate pg ev ?n) (Some s) (Some t) r depth))
            (boolTern (within S s t))"
          using n(3) by (intro replies_remembering)
        moreover have "replies S A (relateUncached pg ev (relate pg ev ?n) (Some s) (Some t) r depth) (boolTern (within S s t))"
          if "s = t"
          by (rule replies_uncached [OF list_cellD(2) [OF s] list_cellD(2) [OF t] n(3) pg])
            (use that in \<open>simp_all add: within_def\<close>)
        ultimately have "replies S A (relate pg ev (Suc ?n) (Some s) (Some t) r depth) (boolTern (within S s t))"
          unfolding relate.simps(2) [of pg ev ?n]
          by (simp del: relate.simps) (intro replies_cell, auto simp: list_cellD [OF s] list_cellD [OF t] simp del: relate.simps)
        then show ?thesis using n(1) by simp
      qed
    qed
  qed
qed

end
