(* ===== verification/RelateFacts.thy ===== *)
theory RelateFacts
  imports Relate
begin

text \<open>
  Every question is answered, or the code panics on a cell it was promised: the relation never
  runs out of the 22 levels, it leaves the set of pairs being related as it was, and it never
  takes a remembered answer back.
\<close>

section \<open>Disciplined actions\<close>

definition sound :: "('e checker_scheme, 'a) action \<Rightarrow> bool" where
  "sound m \<longleftrightarrow>
    (\<forall>c. case m c of
       (Inl e, _) \<Rightarrow> e \<noteq> Endless
     | (Inr x, c') \<Rightarrow> relActive c' = relActive c \<and> relMemo c \<subseteq>\<^sub>m relMemo c')"

named_theorems sounds \<open>actions that are disciplined\<close>

lemma sound_answer [sounds]: "sound (answer x)"
  by (simp add: sound_def answer_def)

lemma after_answer: "after (answer x) f = f x"
  by (simp add: after_def answer_def)

lemma sound_panic [sounds]: "sound (stop (Panicked e))"
  by (simp add: sound_def stop_def)

lemma sound_after [sounds]:
  fixes m :: "('e checker_scheme, 'a) action" and f :: "'a \<Rightarrow> ('e checker_scheme, 'b) action"
  assumes "sound m" "\<And>x. sound (f x)"
  shows "sound (after m f)"
  unfolding sound_def
proof
  fix c :: "'e checker_scheme"
  obtain r c1 where m: "m c = (r, c1)" by fastforce
  show "case after m f c of (Inl e, _) \<Rightarrow> e \<noteq> Endless
      | (Inr x, c') \<Rightarrow> relActive c' = relActive c \<and> relMemo c \<subseteq>\<^sub>m relMemo c'"
  proof (cases r)
    case (Inl e)
    then show ?thesis using m assms(1) [unfolded sound_def, rule_format, of c] by (simp add: after_def)
  next
    case (Inr x)
    obtain r2 c2 where f: "f x c1 = (r2, c2)" by fastforce
    have one: "relActive c1 = relActive c" "relMemo c \<subseteq>\<^sub>m relMemo c1"
      using m Inr assms(1) [unfolded sound_def, rule_format, of c] by simp_all
    then show ?thesis
      using m Inr f assms(2) [of x, unfolded sound_def, rule_format, of c1]
      by (auto simp: after_def split: sum.splits intro: map_le_trans)
  qed
qed

lemma sound_reading [sounds]: "(\<And>c. sound (f c)) \<Longrightarrow> sound (reading f)"
  by (simp add: sound_def reading_def)

lemma sound_cell [sounds]: "(\<And>c. sound (f c)) \<Longrightarrow> sound (with_cell t f)"
  by (simp add: sound_def reading_def with_cell_def)

lemma sound_pointed [sounds]: "(\<And>x. sound (f x)) \<Longrightarrow> sound (pointed p f)"
  by (cases p) (simp_all add: pointed_def sound_panic)

lemma sound_interning [sounds]: "sound (interning f)"
  by (simp add: sound_def interning_def Let_def split: prod.split)

lemma sound_and_also [sounds]: "sound m \<Longrightarrow> sound (and_also b m)"
  by (simp add: and_also_def sound_answer)

lemma sound_if [sounds]: "sound m \<Longrightarrow> sound n \<Longrightarrow> sound (if b then m else n)"
  by simp

lemma sound_option [sounds]:
  "sound m \<Longrightarrow> (\<And>x. sound (f x)) \<Longrightarrow> sound (case p of None \<Rightarrow> m | Some x \<Rightarrow> f x)"
  by (cases p) simp_all

lemma sound_prod [sounds]: "(\<And>x y. sound (f x y)) \<Longrightarrow> sound (case p of (x, y) \<Rightarrow> f x y)"
  by (cases p) simp

lemma sound_kind [sounds]:
  "sound a \<Longrightarrow> sound b \<Longrightarrow> sound d \<Longrightarrow> sound e \<Longrightarrow> sound f \<Longrightarrow> sound g \<Longrightarrow>
    sound (case k of Anonymous \<Rightarrow> a | Array \<Rightarrow> b | Tuple \<Rightarrow> d | Function \<Rightarrow> e | Instance \<Rightarrow> f | Interface \<Rightarrow> g)"
  by (cases k) simp_all

lemma sound_all_of [sounds]: "(\<And>x. sound (f x)) \<Longrightarrow> sound (all_of f xs out)"
  by (induction xs arbitrary: out) (auto simp: sound_answer intro!: sound_after)

lemma sound_some_of [sounds]: "(\<And>x. sound (f x)) \<Longrightarrow> sound (some_of f xs out)"
  by (induction xs arbitrary: out) (auto simp: sound_answer intro!: sound_after)

lemma sound_one_no [sounds]: "(\<And>x. sound (f x)) \<Longrightarrow> sound (one_no f xs)"
  by (induction xs) (auto simp: sound_answer intro!: sound_after)

lemma sound_one_not_no [sounds]: "(\<And>x. sound (f x)) \<Longrightarrow> sound (one_not_no f xs)"
  by (induction xs) (auto simp: sound_answer intro!: sound_after)

section \<open>The library\<close>

text \<open>What the relation relies on: the evaluator is disciplined, the walk from a symbol's scope up
  to the library's ends, and the name of a library interface reads back.\<close>

definition program_ok :: "program \<Rightarrow> 'e checker_scheme evaluator \<Rightarrow> bool" where
  "program_ok pg ev \<longleftrightarrow>
    (\<forall>b args. sound (evaluated (ev_interfaceOf ev b args))) \<and> (\<forall>t. sound (evaluated (ev_iteratedType ev t)))
    \<and> (\<forall>p. inLibrary pg p \<noteq> None)
    \<and> (\<forall>b. inLibrary pg (sym_Scope (symbol_of pg b)) = Some True \<longrightarrow> sourceName (sym_Name (symbol_of pg b)) \<noteq> None)"

lemma sound_evaluated:
  assumes "program_ok pg ev"
  shows "sound (evaluated (ev_interfaceOf ev b args))" "sound (evaluated (ev_iteratedType ev t))"
  using assms by (simp_all add: program_ok_def)

lemma sound_in_library: "program_ok pg ev \<Longrightarrow> sound (in_library pg p)"
proof (cases p)
  case (Some sp)
  assume "program_ok pg ev"
  then obtain x where "inLibrary pg (sym_Scope (symbol_of pg sp)) = Some x"
    unfolding program_ok_def by (meson not_None_eq)
  with Some show ?thesis by (simp add: in_library_def walked_def sound_answer)
qed (simp add: in_library_def sound_answer)

lemma sound_library_name:
  assumes "program_ok pg ev" "inLibrary pg (sym_Scope (symbol_of pg b)) = Some True"
  shows "sound (library_name pg (Some b))"
proof -
  obtain x where "sourceName (sym_Name (symbol_of pg b)) = Some x"
    using assms unfolding program_ok_def by (meson not_None_eq)
  then show ?thesis
    by (cases x) (simp_all add: library_name_def pointed_def settled_def sound_answer sound_panic)
qed

text \<open>The name is read only of a symbol the library holds.\<close>

lemma sound_named_in_library:
  assumes "program_ok pg ev" "\<And>n. sound (f n)"
  shows "sound (after (in_library pg p) (\<lambda>inside.
    if \<not> inside then answer x else after (library_name pg p) f))"
proof (cases p)
  case (Some b)
  have "inLibrary pg (sym_Scope (symbol_of pg b)) = Some True
      \<or> inLibrary pg (sym_Scope (symbol_of pg b)) = Some False"
    using assms(1) unfolding program_ok_def by (metis (full_types) not_None_eq)
  then show ?thesis
  proof
    assume inside: "inLibrary pg (sym_Scope (symbol_of pg b)) = Some True"
    have "sound (after (library_name pg (Some b)) f)"
      by (intro sound_after sound_library_name [OF assms(1) inside] assms(2))
    with Some inside show ?thesis by (simp add: in_library_def walked_def after_answer)
  qed (simp add: Some in_library_def walked_def after_answer sound_answer)
qed (simp add: in_library_def after_answer sound_answer)

lemma sound_interface_answer: "program_ok pg ev \<Longrightarrow> sound (interface_answer pg ev name args)"
  unfolding interface_answer_def by (intro sounds sound_evaluated)

lemma sound_member_type: "sound (member_type p name)"
  unfolding member_type_def by (intro sounds)

lemma sound_members:
  assumes "program_ok pg ev"
  shows "sound (objectMember pg ev name)" "sound (functionMember pg ev name)"
  unfolding objectMember_def functionMember_def
  by (intro sounds sound_interface_answer assms sound_member_type)+

lemma sound_apparentType: "program_ok pg ev \<Longrightarrow> sound (apparentType pg ev t)"
  unfolding apparentType_def Let_def by (intro sounds sound_interface_answer)

lemma sound_libLacks: "program_ok pg ev \<Longrightarrow> sound (libLacks pg c name)"
  unfolding libLacks_def Let_def
  by (intro sound_if sound_answer sound_named_in_library, assumption, intro sounds)

lemma sound_libInterfaceKnown: "program_ok pg ev \<Longrightarrow> sound (libInterfaceKnown pg c)"
  unfolding libInterfaceKnown_def by (intro sound_if sound_answer sound_named_in_library)

lemma sound_primitiveLacks: "program_ok pg ev \<Longrightarrow> sound (primitiveLacksLibraryMember pg ev s t)"
  unfolding primitiveLacksLibraryMember_def by (intro sounds sound_apparentType)

section \<open>One level of the relation\<close>

text \<open>The relation one level down, which the definitions of this level ask.\<close>

definition sound_rel :: "'e checker_scheme relating \<Rightarrow> nat \<Rightarrow> bool" where
  "sound_rel rel depth \<longleftrightarrow> (\<forall>s t r. sound (rel s t r depth))"

lemma sound_relD: "sound_rel rel depth \<Longrightarrow> sound (rel s t r depth)"
  by (simp add: sound_rel_def)

lemma sound_ruled_out:
  assumes d: "sound_rel rel (depth + 1)"
  shows "sound (ruled_out pg rel s r depth disc ps)"
  by (induction ps) (unfold ruled_out.simps, (intro sounds sound_relD [OF d] | erule meta_spec | assumption)+)

lemma sound_all_ruled_out:
  assumes d: "sound_rel rel (depth + 1)"
  shows "sound (all_ruled_out pg rel s r depth disc ms)"
  by (induction ms) (unfold all_ruled_out.simps, (intro sounds sound_ruled_out [OF d] | erule meta_spec | assumption)+)

lemma sound_nonDiscriminant:
  assumes d: "sound_rel rel (depth + 1)"
  shows "sound (nonDiscriminantRulesOut pg rel s t r depth)"
  unfolding nonDiscriminantRulesOut_def by (intro sounds sound_all_ruled_out [OF d])

lemma sound_to_union:
  assumes d: "sound_rel rel (depth + 1)"
  shows "sound (relate_to_union pg rel s t r depth)"
  unfolding relate_to_union_def Let_def by (intro sounds sound_nonDiscriminant [OF d] sound_relD [OF d])

lemma sound_branded:
  assumes d: "sound_rel rel (depth + 1)"
  shows "sound (relate_branded rel s t r depth)"
  unfolding relate_branded_def Let_def by (intro sounds sound_relD [OF d])

lemma sound_both_ways:
  assumes d: "sound_rel rel (depth + 1)"
  shows "sound (both_ways rel r depth ps out)"
  by (induction ps arbitrary: out) (unfold both_ways.simps, (intro sounds sound_relD [OF d] | erule meta_spec | assumption)+)

lemma sound_results:
  assumes d: "sound_rel rel (depth + 1)"
  shows "sound (relate_results rel s t r depth out)"
  unfolding relate_results_def by (intro sounds sound_relD [OF d])

lemma sound_rest_positions:
  assumes d: "sound_rel rel (depth + 1)"
  shows "sound (rest_positions rel r depth opts qs out)"
  by (induction qs arbitrary: out) (unfold rest_positions.simps, (intro sounds sound_relD [OF d] | erule meta_spec | assumption)+)

lemma sound_rest_signatures:
  assumes d: "sound_rel rel (depth + 1)"
  shows "sound (relateRestSignatures rel s t r depth)"
  unfolding relateRestSignatures_def Let_def
  by (intro sounds sound_rest_positions [OF d] sound_both_ways [OF d] sound_results [OF d])

lemma sound_expandTupleRest: "sound (expandTupleRest fn)"
  unfolding expandTupleRest_def Let_def by (intro sounds)

lemma sound_signatures:
  assumes d: "sound_rel rel (depth + 1)"
  shows "sound (relate_signatures rel s t r depth)"
  unfolding relate_signatures_def
  by (intro sounds sound_expandTupleRest sound_rest_signatures [OF d] sound_both_ways [OF d] sound_results [OF d] sound_relD [OF d])

lemma sound_guard:
  assumes d: "sound_rel rel (depth + 1)"
  shows "sound (guard_mismatch rel cs ct r depth)"
  unfolding guard_mismatch_def by (intro sounds sound_relD [OF d])

lemma sound_to_array:
  assumes p: "program_ok pg ev" and d: "sound_rel rel (depth + 1)"
  shows "sound (relate_to_array pg rel s t r depth)"
  unfolding relate_to_array_def by (intro sounds sound_relD [OF d] sound_libLacks [OF p])

lemma sound_to_tuple:
  assumes d: "sound_rel rel (depth + 1)"
  shows "sound (relate_to_tuple rel s t r depth)"
  unfolding relate_to_tuple_def by (intro sounds sound_relD [OF d])

lemma sound_to_function:
  assumes d: "sound_rel rel (depth + 1)"
  shows "sound (relate_to_function rel s t r depth)"
  unfolding relate_to_function_def by (intro sounds sound_relD [OF d] sound_guard [OF d] sound_signatures [OF d])

lemma sound_element_mismatch:
  assumes d: "sound_rel rel (depth + 1)"
  shows "sound (element_mismatch rel cs u r depth)"
  unfolding element_mismatch_def by (intro sounds sound_relD [OF d])

lemma sound_lacks_required:
  assumes p: "program_ok pg ev"
  shows "sound (lacks_required pg ev a ps)"
  by (induction ps) (unfold lacks_required.simps, (intro sounds sound_members [OF p] | erule meta_spec | assumption)+)

lemma sound_list_to_object:
  assumes p: "program_ok pg ev" and d: "sound_rel rel (depth + 1)"
  shows "sound (list_to_object pg ev rel s t r depth)"
  unfolding list_to_object_def Let_def
  by (intro sounds sound_element_mismatch [OF d] sound_apparentType [OF p] sound_lacks_required [OF p])

lemma sound_source_property:
  assumes p: "program_ok pg ev"
  shows "sound (source_property pg ev cs name)"
  unfolding source_property_def by (intro sounds sound_members [OF p])

lemma sound_props_fit:
  assumes p: "program_ok pg ev" and d: "sound_rel rel (depth + 1)"
  shows "sound (props_fit pg ev rel s r depth ps out)"
  by (induction ps arbitrary: out)
    (unfold props_fit.simps, (intro sounds sound_relD [OF d] sound_source_property [OF p] sound_libLacks [OF p] | erule meta_spec | assumption)+)

lemma sound_propsFit:
  assumes p: "program_ok pg ev" and d: "sound_rel rel (depth + 1)"
  shows "sound (propsFit pg ev rel s t r depth)"
  unfolding propsFit_def by (intro sounds sound_props_fit [OF p d])

lemma sound_covered_fit:
  assumes d: "sound_rel rel (depth + 1)"
  shows "sound (covered_fit pg rel u r depth ps out)"
  by (induction ps arbitrary: out) (unfold covered_fit.simps, (intro sounds sound_relD [OF d] | erule meta_spec | assumption)+)

lemma sound_index_fit:
  assumes p: "program_ok pg ev" and d: "sound_rel rel (depth + 1)"
  shows "sound (index_fit pg rel s t r depth numeric out)"
  unfolding index_fit_def Let_def
  by (intro sounds sound_relD [OF d] sound_libInterfaceKnown [OF p] sound_covered_fit [OF d])

lemma sound_indexesFit:
  assumes p: "program_ok pg ev" and d: "sound_rel rel (depth + 1)"
  shows "sound (indexesFit pg rel s t r depth)"
  unfolding indexesFit_def by (intro sounds sound_index_fit [OF p d])

lemma sound_construct_mismatch:
  assumes d: "sound_rel rel (depth + 1)"
  shows "sound (construct_mismatch rel s t r depth)"
  unfolding construct_mismatch_def by (intro sounds sound_relD [OF d])

lemma sound_not_iterable:
  assumes p: "program_ok pg ev"
  shows "sound (not_iterable pg ev s t r)"
  unfolding not_iterable_def by (intro sounds sound_in_library [OF p] sound_evaluated [OF p])

lemma sound_to_members:
  assumes p: "program_ok pg ev" and d: "sound_rel rel (depth + 1)"
  shows "sound (relate_to_members pg ev rel s t r depth)"
  unfolding relate_to_members_def
  by (intro sounds sound_list_to_object [OF p d] sound_not_iterable [OF p] sound_propsFit [OF p d] sound_construct_mismatch [OF d] sound_indexesFit [OF p d])

lemma sound_covariant_mismatch:
  assumes p: "program_ok pg ev" and d: "sound_rel rel (depth + 1)"
  shows "sound (covariant_mismatch pg rel s t r depth)"
  unfolding covariant_mismatch_def by (intro sounds sound_relD [OF d] sound_in_library [OF p])

lemma sound_objects:
  assumes p: "program_ok pg ev" and d: "sound_rel rel (depth + 1)"
  shows "sound (relateObjects pg ev rel s t r depth)"
  unfolding relateObjects_def
  by (intro sounds sound_covariant_mismatch [OF p d] sound_to_array [OF p d] sound_to_tuple [OF d] sound_to_function [OF d] sound_to_members [OF p d])

lemma sound_primitive:
  assumes p: "program_ok pg ev"
  shows "sound (primitive_to_object pg ev s t r)"
  unfolding primitive_to_object_def by (intro sounds sound_apparentType [OF p] sound_primitiveLacks [OF p])

lemma sound_object_target:
  assumes p: "program_ok pg ev" and d: "sound_rel rel (depth + 1)"
  shows "sound (object_target pg ev rel s t r depth)"
  unfolding object_target_def by (intro sounds sound_primitive [OF p] sound_objects [OF p d])

lemma sound_types:
  assumes p: "program_ok pg ev" and d: "sound_rel rel (depth + 1)"
  shows "sound (relate_types pg ev rel s t r depth)"
  unfolding relate_types_def
  by (intro sounds sound_relD [OF d] sound_branded [OF d] sound_to_union [OF d] sound_object_target [OF p d])

text \<open>Below the cut at 20 the parts are asked one level deeper; beyond it nothing is asked.\<close>

lemma sound_uncached:
  assumes "program_ok pg ev" "depth \<le> 20 \<Longrightarrow> sound_rel rel (depth + 1)"
  shows "sound (relateUncached pg ev rel s t r depth)"
proof (cases "20 < depth")
  case True
  then show ?thesis by (simp add: relateUncached_def sound_answer split: option.split)
next
  case False
  then have "depth \<le> 20" by simp
  from sound_types [OF assms(1) assms(2) [OF this]] show ?thesis
    unfolding relateUncached_def by (intro sounds)
qed

lemma sound_remembering:
  assumes "sound m"
  shows "sound (remembering k depth m)"
  unfolding sound_def
proof
  fix c :: "'a checker_scheme"
  obtain res c1 where m: "m (c\<lparr>relActive := insert k (relActive c)\<rparr>) = (res, c1)" by fastforce
  show "case remembering k depth m c of (Inl e, _) \<Rightarrow> e \<noteq> Endless
      | (Inr x, c') \<Rightarrow> relActive c' = relActive c \<and> relMemo c \<subseteq>\<^sub>m relMemo c'"
  proof (cases "relMemo c k = None \<and> k \<notin> relActive c")
    case new: True
    have "case res of Inl e \<Rightarrow> e \<noteq> Endless
      | Inr x \<Rightarrow> relActive c1 = insert k (relActive c) \<and> relMemo c \<subseteq>\<^sub>m relMemo c1"
      using assms [unfolded sound_def, rule_format, of "c\<lparr>relActive := insert k (relActive c)\<rparr>"] m
      by (simp cong: sum.case_cong)
    with new m show ?thesis
      by (cases res) (auto simp: remembering_def Let_def map_le_def dom_def)
  qed (auto simp: remembering_def split: option.split)
qed

lemma sound_relate:
  assumes "program_ok pg ev"
  shows "22 \<le> n + depth \<Longrightarrow> depth \<le> 21 \<Longrightarrow> sound (relate pg ev n s t r depth)"
proof (induction n arbitrary: s t r depth)
  case 0
  then show ?case by simp
next
  case (Suc n)
  have "sound (relateUncached pg ev (relate pg ev n) s t r depth)"
    using Suc by (intro sound_uncached assms) (simp add: sound_rel_def)
  then show ?case
    unfolding relate.simps by (intro sounds sound_remembering)
qed

end
