(* ===== verification/RelateProps.thy ===== *)
theory RelateProps
  imports RelateRanked RelateFacts
begin

text \<open>
  What the relation answers: inclusion of values on the types with a meaning, in every state
  that questions about them leave; and what a question about deeper types leaves behind.
\<close>

section \<open>Meanings stay while the heap grows\<close>

definition grown :: "interner \<Rightarrow> interner \<Rightarrow> bool" where
  "grown S S' \<longleftrightarrow> extends S S' \<and> in_byKey S \<subseteq>\<^sub>m in_byKey S'"

lemma grown_at: "grown S S' \<Longrightarrow> t < length (in_types S) \<Longrightarrow> type_at S' t = type_at S t"
  by (simp add: grown_def extends_at)

lemma prim_cell_grown: "grown S S' \<Longrightarrow> prim_cell S p t \<Longrightarrow> prim_cell S' p t"
  using grown_at [of S S' t] extends_length [of S S']
  by (auto simp: prim_cell_def grown_def map_le_def dom_def)

lemma prim_union_grown:
  assumes g: "grown S S'" and u: "prim_union S t"
  shows "prim_union S' t"
proof -
  have t: "t < length (in_types S)" using u by (simp add: prim_union_def Let_def)
  have m: "type_at S' m = type_at S m" if "m \<in> set (ty_Types (type_at S t))" for m
    using prim_unionD(2) [OF u that] grown_at [OF g] by (auto simp: prim_cell_def)
  have "boolean_value S' (set (ty_Types (type_at S t))) b = boolean_value S (set (ty_Types (type_at S t))) b" for b
    unfolding boolean_value_def using m by (metis (no_types, lifting))
  moreover have "\<forall>m\<in>set (ty_Types (type_at S t)). \<exists>p. p \<noteq> PUnknown \<and> prim_cell S' p m"
    using prim_unionD(2) [OF u] prim_cell_grown [OF g] by blast
  ultimately show ?thesis
    using u t grown_at [OF g t] extends_length [of S S'] g by (simp add: prim_union_def Let_def grown_def)
qed

lemma ranked_range: "ranked S n t \<Longrightarrow> t < length (in_types S)"
  by (induction n) (auto simp: prim_cell_def prim_union_def list_cell_def Let_def)

lemma list_cell_grown:
  assumes "grown S S'" "list_cell S P t" "\<And>e. P e \<Longrightarrow> Q e"
  shows "list_cell S' Q t"
proof -
  have "t < length (in_types S)" using assms(2) by (simp add: list_cell_def Let_def)
  then show ?thesis
    using assms grown_at [OF assms(1)] extends_length [of S S']
    by (auto simp: list_cell_def Let_def grown_def list_all_iff)
qed

lemma ranked_grown: "grown S S' \<Longrightarrow> ranked S n t \<Longrightarrow> ranked S' n t"
proof (induction n arbitrary: t)
  case 0
  then show ?case by (auto intro: prim_cell_grown prim_union_grown)
next
  case (Suc n)
  then show ?case using list_cell_grown [OF Suc.prems(1), of "ranked S n" t "ranked S' n"] by auto
qed

lemma typed_grown:
  assumes g: "grown S S'"
  shows "ranked S n t \<Longrightarrow> typed S' v t \<longleftrightarrow> typed S v t"
proof (induction n arbitrary: t v)
  case 0
  have prim: "typed S' v m \<longleftrightarrow> typed S v m" if p: "prim_cell S p m" for p m
  proof -
    have "m < length (in_types S)" using p by (simp add: prim_cell_def)
    then show ?thesis
      using typed_prim [OF p] typed_prim [OF prim_cell_grown [OF g p]] grown_at [OF g] by simp
  qed
  show ?case
  proof (cases "prim_union S t")
    case True
    then have t: "type_at S' t = type_at S t" using grown_at [OF g] by (simp add: prim_union_def Let_def)
    have "typed S' v m \<longleftrightarrow> typed S v m" if "m \<in> set (ty_Types (type_at S t))" for m
      using prim_unionD(2) [OF True that] prim by blast
    then show ?thesis
      using typed_union [of S t v] typed_union [of S' t v] prim_unionD(1) [OF True] t by auto
  next
    case False
    then show ?thesis using 0 prim by auto
  qed
next
  case (Suc n)
  show ?case
  proof (cases "ranked S n t")
    case True
    then show ?thesis by (rule Suc.IH)
  next
    case False
    then have l: "list_cell S (ranked S n) t" using Suc.prems by simp
    then have t: "type_at S' t = type_at S t" using grown_at [OF g] by (simp add: list_cell_def Let_def)
    show ?thesis
    proof (rule list_cell_cases [OF l])
      fix e assume e: "array_of S t e" "ranked S n e"
      then have "array_of S' t e" using t by (simp add: array_of_def)
      then show ?thesis using typed_array_of [OF e(1)] typed_array_of Suc.IH [OF e(2)] by simp
    next
      fix es assume es: "tuple_of S t es" "list_all (ranked S n) es"
      then have t': "tuple_of S' t es" using t by (simp add: tuple_of_def)
      have "list_all2 (typed S') vs es \<longleftrightarrow> list_all2 (typed S) vs es" for vs
        using es(2) Suc.IH by (intro list.rel_cong) (auto simp: list_all_iff)
      then show ?thesis using typed_tuple_of [OF es(1)] typed_tuple_of [OF t'] by simp
    qed
  qed
qed

lemma memo_right_grown:
  assumes g: "grown S S'" and M: "memo_right S M"
  shows "memo_right S' M"
proof -
  have "within S' a b = within S a b" if "ranked S 18 a" "ranked S 18 b" for a b
    using typed_grown [OF g that(1)] typed_grown [OF g that(2)] by (simp add: within_def)
  then show ?thesis using M ranked_grown [OF g] by (simp add: memo_right_def)
qed

section \<open>Properties\<close>

text \<open>The states of a checker that relates types with a meaning and makes new types meanwhile.\<close>

inductive questions :: "program \<Rightarrow> 'e checker_scheme evaluator \<Rightarrow> 'e checker_scheme \<Rightarrow> bool"
  for pg :: program and ev :: "'e checker_scheme evaluator" where
  none: "Flags (type_at (ck_in c) (pg_unanswered pg)) = AnyT \<Longrightarrow> pg_unanswered pg < length (in_types (ck_in c)) \<Longrightarrow>
    relMemo c = Map.empty \<Longrightarrow> relActive c = {} \<Longrightarrow> questions pg ev c"
| question: "questions pg ev c \<Longrightarrow> ranked (ck_in c) 18 s \<Longrightarrow> ranked (ck_in c) 18 t \<Longrightarrow>
    questions pg ev (snd (relate pg ev 22 (Some s) (Some t) r 0 c))"
| grows: "questions pg ev c \<Longrightarrow> grown (ck_in c) S \<Longrightarrow> questions pg ev (c\<lparr>ck_in := S\<rparr>)"

lemma questions_right:
  "questions pg ev c \<Longrightarrow> Flags (type_at (ck_in c) (pg_unanswered pg)) = AnyT
    \<and> pg_unanswered pg < length (in_types (ck_in c)) \<and> relActive c = {} \<and> memo_right (ck_in c) (relMemo c)"
proof (induction rule: questions.induct)
  case (none c)
  then show ?case by (simp add: memo_right_def)
next
  case (question c s t r)
  have "replies (ck_in c) {} (relate pg ev 22 (Some s) (Some t) r 0) (boolTern (within (ck_in c) s t))"
    using question by (intro replies_ranked [where k = 18]) (simp_all add: idle_def)
  then obtain M where "relate pg ev 22 (Some s) (Some t) r 0 c = (Inr (boolTern (within (ck_in c) s t)), c\<lparr>relMemo := M\<rparr>)"
    "memo_right (ck_in c) M"
    using question.IH unfolding replies_def by blast
  then show ?case using question.IH by simp
next
  case (grows c S)
  then show ?case using memo_right_grown grown_at [of "ck_in c" S] extends_length [of "ck_in c" S]
    by (auto simp: grown_def)
qed

text \<open>C17. Assignability is inclusion of values. For primitive types, their literals, unions of
  them, and arrays and tuples of such types up to 18 deep, in every state that questions about
  such types leave, in any order and with new types made between them, the relation answers
  \<open>Yes\<close> when every value of the source is a value of the target and \<open>No\<close> otherwise, never
  \<open>Maybe\<close>.\<close>

theorem assignability_is_inclusion:
  assumes "questions pg ev c" and "ranked (ck_in c) 18 s" and "ranked (ck_in c) 18 t"
  shows "fst (assignableTo pg ev (Some s) (Some t) c)
    = Inr (if (\<forall>v. typed (ck_in c) v s \<longrightarrow> typed (ck_in c) v t) then Yes else No)"
proof -
  note q = questions_right [OF assms(1)]
  have "replies (ck_in c) {} (assignableTo pg ev (Some s) (Some t)) (boolTern (within (ck_in c) s t))"
    unfolding assignableTo_def using q assms(2,3)
    by (intro replies_ranked [where k = 18]) (simp_all add: idle_def)
  then obtain M where "assignableTo pg ev (Some s) (Some t) c = (Inr (boolTern (within (ck_in c) s t)), c\<lparr>relMemo := M\<rparr>)"
    using q unfolding replies_def by blast
  then show ?thesis by (simp add: boolTern_def within_def)
qed

text \<open>A heap with \<open>string\<close>, the literal \<open>"a"\<close>, their arrays, and the unanswered type.\<close>

definition value_heap :: interner where
  "value_heap =
    (let S = snd (array 1 (snd (array 0 (snd (literal StringLiteralT ''a'' (snd (intrinsic StringT new_interner))))))) in
     S\<lparr>in_types := in_types S @ [zero_type\<lparr>Flags := AnyT, ty_Value := ''unanswered'', ty_ID := - 1\<rparr>]\<rparr>)"

definition value_program :: program where
  "value_program = \<lparr>pg_Symbols = [], pg_Scopes = [], pg_Globals = None, pg_Module = None, pg_boolT = 0, pg_trueT = 0,
     pg_falseT = 0, pg_missingT = 0, pg_unanswered = 4, pg_members = []\<rparr>"

definition value_evaluator :: "checker evaluator" where
  "value_evaluator = \<lparr>ev_interfaceOf = (\<lambda>_ _ c. (4, c)), ev_iteratedType = (\<lambda>_ c. (4, c))\<rparr>"

definition value_checker :: checker where
  "value_checker = \<lparr>ck_in = value_heap, relMemo = Map.empty, relActive = {}, relAssumed = 0\<rparr>"

lemma value_cells:
  "in_types value_heap =
    [zero_type\<lparr>Flags := StringT, ty_ID := 1\<rparr>,
     zero_type\<lparr>Flags := StringLiteralT, ty_Value := ''a'', ty_ID := 2\<rparr>,
     zero_type\<lparr>Flags := ObjectT, ty_Kind := Array, ty_Elem := Some 0, ty_ID := 3\<rparr>,
     zero_type\<lparr>Flags := ObjectT, ty_Kind := Array, ty_Elem := Some 1, ty_ID := 4\<rparr>,
     zero_type\<lparr>Flags := AnyT, ty_Value := ''unanswered'', ty_ID := - 1\<rparr>]"
  "in_byKey value_heap (''l'' @ itoa (uint StringLiteralT) @ '':a'') = Some 1"
  by (simp_all add: value_heap_def intrinsic_def literal_def array_def intern_def new_interner_def Let_def type_at_def
      type_flag_defs)

lemma value_prims: "prim_cell value_heap PString 0" "prim_cell value_heap PStringLit 1"
  using value_cells(2)
  by (simp_all add: prim_cell_def value_cells(1) type_at_def zero_type_def literals_def)

lemma value_arrays:
  "array_of value_heap 2 0" "array_of value_heap 3 1" "list_cell value_heap (ranked value_heap 0) 2"
  "list_cell value_heap (ranked value_heap 0) 3"
  using value_prims
  by (auto simp: array_of_def list_cell_def value_cells(1) type_at_def zero_type_def Let_def eval_nat_numeral)

lemma value_ranked: "ranked value_heap 18 2" "ranked value_heap 18 3"
  using value_arrays(3,4) ranked_mono [of value_heap 1 _ 18] by simp_all

lemma value_questions: "questions value_program value_evaluator value_checker"
  by (rule questions.none) (simp_all add: value_checker_def value_program_def value_cells(1) type_at_def)

theorem assignability_is_inclusion_witness:
  "fst (assignableTo value_program value_evaluator (Some 3) (Some 2) value_checker) = Inr Yes
    \<and> fst (assignableTo value_program value_evaluator (Some 2) (Some 3) value_checker) = Inr No"
proof -
  have heap: "ck_in value_checker = value_heap" by (simp add: value_checker_def)
  have yes: "\<forall>v. typed value_heap v 3 \<longrightarrow> typed value_heap v 2"
    using within_arrays [OF value_arrays(2,1)] within_prim [OF value_prims(2,1)]
    by (simp add: within_def prim_within_def)
  have no: "\<not> (\<forall>v. typed value_heap v 2 \<longrightarrow> typed value_heap v 3)"
    using within_arrays [OF value_arrays(1,2)] within_prim [OF value_prims(1,2)]
    by (simp add: within_def prim_within_def)
  show ?thesis
    using assignability_is_inclusion [OF value_questions, of 3 2] assignability_is_inclusion [OF value_questions, of 2 3]
      value_ranked yes no by (simp add: heap)
qed

section \<open>What a deep question leaves behind\<close>

text \<open>Two array cells: the relation is that of their elements, one level deeper.\<close>

lemma uncached_arrays:
  assumes a: "list_cell S P a" "array_of S a e" and b: "list_cell S Q b" "array_of S b u"
    and ab: "a \<noteq> b" and d: "depth \<le> 20" and pg: "Flags (type_at S (pg_unanswered pg)) = AnyT"
    and c: "ck_in c = S"
  shows "relateUncached pg ev rel (Some a) (Some b) r depth c = rel (Some e) (Some u) r (depth + 1) c"
proof -
  have known: "\<not> Unanswered pg a" "\<not> Unanswered pg b"
    using plain_flags(5) [OF list_cellD(2) [OF a(1)]] plain_flags(5) [OF list_cellD(2) [OF b(1)]] pg
    by (auto simp: Unanswered_def)
  have brand: "ty_Brand (type_at S a) = None" "ty_Brand (type_at S b) = None"
    using list_cellD(2) [OF a(1)] list_cellD(2) [OF b(1)] by (simp_all add: plain_cell_def)
  have kinds: "ty_Kind (type_at S a) = Array" "ty_Elem (type_at S a) = Some e"
    "ty_Kind (type_at S b) = Array" "ty_Elem (type_at S b) = Some u"
    using a(2) b(2) by (simp_all add: array_of_def)
  have "simple_answer (type_at S a) (type_at S b) = None"
    by (rule simple_answer_to_list [OF b(1)]) (simp_all add: list_cellD [OF a(1)] object_flag_tables)
  then show ?thesis
    using ab c d known
    by (simp add: relateUncached_def relate_types_def with_cell_def reading_def plain_flags [OF list_cellD(2) [OF a(1)]]
        plain_flags [OF list_cellD(2) [OF b(1)]] brand list_cellD [OF a(1)] list_cellD [OF b(1)] object_flag_tables
        object_target_def relateObjects_def covariant_mismatch_def after_def answer_def kinds relate_to_array_def)
qed

text \<open>Arrays 25 deep over a primitive type.\<close>

definition tower :: "interner \<Rightarrow> (nat \<Rightarrow> ty) \<Rightarrow> prim \<Rightarrow> bool" where
  "tower S A p \<longleftrightarrow> prim_cell S p (A 0) \<and> inj_on A {..25}
    \<and> (\<forall>k<25. list_cell S (\<lambda>_. True) (A (Suc k)) \<and> array_of S (A (Suc k)) (A k))"

lemma towerD:
  assumes "tower S A p" "k < 25" "n = Suc k"
  shows "list_cell S (\<lambda>_. True) (A n)" "array_of S (A n) (A k)"
  using assms by (simp_all add: tower_def)

lemma tower_ranked: "tower S A p \<Longrightarrow> k \<le> 25 \<Longrightarrow> ranked S k (A k)"
proof (induction k)
  case (Suc k)
  then have "list_cell S (\<lambda>_. True) (A (Suc k))" "array_of S (A (Suc k)) (A k)" "ranked S k (A k)"
    by (simp_all add: tower_def)
  then show ?case by (simp add: list_cell_def array_of_def Let_def)
qed (auto simp: tower_def)

lemma towers_apart:
  assumes "tower S A PString" "tower S B PNumber" "k \<le> 25"
  shows "A k \<noteq> B k"
  using assms(3)
proof (induction k)
  case 0
  then show ?case using assms by (auto simp: tower_def prim_cell_def type_flag_defs)
next
  case (Suc k)
  then have "array_of S (A (Suc k)) (A k)" "array_of S (B (Suc k)) (B k)" using assms by (simp_all add: tower_def)
  then show ?case using Suc by (auto simp: array_of_def)
qed

lemma deep_question:
  assumes A: "tower S A PString" and B: "tower S B PNumber"
    and pg: "Flags (type_at S (pg_unanswered pg)) = AnyT"
  shows "k \<le> 21 \<Longrightarrow> k < n \<Longrightarrow> ck_in c = S \<Longrightarrow>
    (\<And>j. j \<le> k + 4 \<Longrightarrow> relMemo c (A j, B j, r) = None \<and> (A j, B j, r) \<notin> relActive c) \<Longrightarrow>
    \<exists>M. relate pg ev n (Some (A (k + 4))) (Some (B (k + 4))) r (21 - k) c = (Inr Maybe, c\<lparr>relMemo := M\<rparr>)
      \<and> (0 < k \<longrightarrow> M (A 5, B 5, r) = Some Maybe)"
proof (induction k arbitrary: n c)
  case 0
  then obtain m where n: "n = Suc m" by (cases n) auto
  have cells: "is_object (type_at S (A 4))" "is_object (type_at S (B 4))"
    using towerD(1) [OF A, of 3 4] towerD(1) [OF B, of 3 4] list_cellD(4) by simp_all
  have "relateUncached pg ev (relate pg ev m) (Some (A 4)) (Some (B 4)) r 21 = answer Maybe"
    by (simp add: relateUncached_def)
  moreover have "relMemo c (A 4, B 4, r) = None" "(A 4, B 4, r) \<notin> relActive c" using 0(4) [of 4] by simp_all
  ultimately have "relate pg ev n (Some (A 4)) (Some (B 4)) r 21 c = (Inr Maybe, c)"
    using towers_apart [OF A B, of 4] cells 0(3)
    by (simp add: n with_cell_def reading_def remembering_def answer_def Let_def)
  then show ?case by (intro exI [of _ "relMemo c"]) simp
next
  case (Suc k)
  obtain m where n: "n = Suc m" "k < m" using Suc.prems(2) by (cases n) auto
  let ?a = "A (k + 5)" and ?b = "B (k + 5)"
  let ?key = "(?a, ?b, r)"
  have cells: "list_cell S (\<lambda>_. True) ?a" "array_of S ?a (A (k + 4))" "list_cell S (\<lambda>_. True) ?b" "array_of S ?b (B (k + 4))"
    using towerD [OF A, of "k + 4" "k + 5"] towerD [OF B, of "k + 4" "k + 5"] Suc.prems(1) by simp_all
  have ab: "?a \<noteq> ?b" using towers_apart [OF A B] Suc.prems(1) by simp
  let ?c = "c\<lparr>relActive := insert ?key (relActive c)\<rparr>"
  have "relMemo ?c (A j, B j, r) = None \<and> (A j, B j, r) \<notin> relActive ?c" if "j \<le> k + 4" for j
  proof -
    have "A j \<noteq> ?a" using A that Suc.prems(1) inj_onD [of A "{..25}" j "k + 5"] by (auto simp: tower_def)
    then show ?thesis using Suc.prems(4) [of j] that by simp
  qed
  then obtain M where M: "relate pg ev m (Some (A (k + 4))) (Some (B (k + 4))) r (21 - k) ?c = (Inr Maybe, ?c\<lparr>relMemo := M\<rparr>)"
    "0 < k \<longrightarrow> M (A 5, B 5, r) = Some Maybe"
    using Suc.IH [of m ?c] n(2) Suc.prems(1,3) by auto
  have "relateUncached pg ev (relate pg ev m) (Some ?a) (Some ?b) r (20 - k) ?c = (Inr Maybe, ?c\<lparr>relMemo := M\<rparr>)"
    using uncached_arrays [OF cells ab _ pg, of "20 - k" ?c ev "relate pg ev m" r] M(1) Suc.prems(1,3)
    by (simp add: Suc_diff_le [of k 20, symmetric])
  moreover have "relMemo c ?key = None" "?key \<notin> relActive c" using Suc.prems(4) [of "k + 5"] by simp_all
  ultimately have "relate pg ev n (Some ?a) (Some ?b) r (20 - k) c = (Inr Maybe, c\<lparr>relMemo := M(?key \<mapsto> Maybe)\<rparr>)"
    using ab Suc.prems(3)
    by (simp add: n with_cell_def reading_def remembering_def Let_def list_cellD(4) [OF cells(1)] list_cellD(4) [OF cells(3)])
  moreover have "(M(?key \<mapsto> Maybe)) (A 5, B 5, r) = Some Maybe" using M(2) by (cases k) auto
  ultimately show ?case by (auto simp: numeral_eq_Suc)
qed

text \<open>C16. A question about types too deep to follow changes later answers. \<open>string[]\<close> nested five
  deep does not go where \<open>number[]\<close> nested five deep is asked, and a fresh checker says so;
  but a checker that was first asked about the arrays nested 25 deep, whose comparison gives up
  at depth 21, has remembered \<open>Maybe\<close> for the nested pair and answers \<open>Maybe\<close>.\<close>

theorem deep_question_poisons:
  assumes "tower (ck_in c) A PString" and "tower (ck_in c) B PNumber"
    and "questions pg ev c" and "relMemo c = Map.empty"
  shows "fst (assignableTo pg ev (Some (A 5)) (Some (B 5)) c) = Inr No
    \<and> fst (assignableTo pg ev (Some (A 5)) (Some (B 5))
        (snd (assignableTo pg ev (Some (A 25)) (Some (B 25)) c))) = Inr Maybe"
proof -
  let ?S = "ck_in c" and ?r = "\<lparr>missingIsNo = False\<rparr>"
  note q = questions_right [OF assms(3)]
  have ranked: "ranked ?S 5 (A 5)" "ranked ?S 5 (B 5)"
    using tower_ranked [OF assms(1), of 5] tower_ranked [OF assms(2), of 5] by simp_all
  have "\<not> within ?S (A k) (B k)" if "k \<le> 25" for k
    using that
  proof (induction k)
    case 0
    then show ?case using assms(1,2) within_prim [of ?S PString "A 0" PNumber "B 0"]
      by (simp add: tower_def prim_within_def)
  next
    case (Suc k)
    then show ?case
      using within_arrays towerD(2) [OF assms(1), of k "Suc k"] towerD(2) [OF assms(2), of k "Suc k"] by simp
  qed
  then have "boolTern (within ?S (A 5) (B 5)) = No" by simp
  then have "replies ?S {} (assignableTo pg ev (Some (A 5)) (Some (B 5))) No"
    unfolding assignableTo_def using q ranked replies_ranked [of ?S pg 5 "A 5" "B 5" 0 22 "{}" ev ?r]
    by (simp add: idle_def)
  then obtain M where fresh: "assignableTo pg ev (Some (A 5)) (Some (B 5)) c = (Inr No, c\<lparr>relMemo := M\<rparr>)"
    using q unfolding replies_def by blast
  obtain M where M: "relate pg ev 22 (Some (A 25)) (Some (B 25)) ?r 0 c = (Inr Maybe, c\<lparr>relMemo := M\<rparr>)"
    "M (A 5, B 5, ?r) = Some Maybe"
    using deep_question [OF assms(1,2), of pg 21 22 c ?r ev] q assms(4) by auto
  have "A 5 \<noteq> B 5" using towers_apart [OF assms(1,2)] by simp
  moreover have "is_object (type_at ?S (A 5))" "is_object (type_at ?S (B 5))"
    using towerD(1) [OF assms(1), of 4 5] towerD(1) [OF assms(2), of 4 5] list_cellD(4) by simp_all
  ultimately have "fst (relate pg ev 22 (Some (A 5)) (Some (B 5)) ?r 0 (c\<lparr>relMemo := M\<rparr>)) = Inr Maybe"
    using M(2) by (simp add: eval_nat_numeral with_cell_def reading_def remembering_def)
  with fresh M(1) show ?thesis by (simp add: assignableTo_def)
qed

text \<open>A heap with \<open>string\<close> and \<open>number\<close>, their arrays in turn, and the unanswered type.\<close>

definition tower_cell :: "nat \<Rightarrow> Type" where
  "tower_cell i =
    (if i < 2 then zero_type\<lparr>Flags := (if i = 0 then StringT else NumberT), ty_ID := int i + 1\<rparr>
     else if i < 52 then zero_type\<lparr>Flags := ObjectT, ty_Kind := Array, ty_Elem := Some (i - 2), ty_ID := int i + 1\<rparr>
     else zero_type\<lparr>Flags := AnyT, ty_Value := ''unanswered'', ty_ID := - 1\<rparr>)"

definition tower_heap :: interner where
  "tower_heap = \<lparr>in_types = map tower_cell [0..<53], in_byKey = Map.empty, in_next = 52\<rparr>"

lemma tower_at: "i < 53 \<Longrightarrow> type_at tower_heap i = tower_cell i" "length (in_types tower_heap) = 53"
  by (simp_all add: tower_heap_def type_at_def del: upt_Suc)

lemma tower_heap_towers: "tower tower_heap (\<lambda>k. 2 * k) PString" "tower tower_heap (\<lambda>k. 2 * k + 1) PNumber"
proof -
  have array: "list_cell tower_heap (\<lambda>_. True) (k + 2)" "array_of tower_heap (k + 2) k" if "k < 50" for k
    using that by (simp_all add: list_cell_def array_of_def Let_def tower_at tower_cell_def zero_type_def)
  have "prim_cell tower_heap PString 0" "prim_cell tower_heap PNumber 1"
    by (simp_all add: prim_cell_def tower_at tower_cell_def zero_type_def literals_def)
  then show "tower tower_heap (\<lambda>k. 2 * k) PString" "tower tower_heap (\<lambda>k. 2 * k + 1) PNumber"
    using array by (auto simp: tower_def inj_on_def)
qed

definition tower_checker :: checker where
  "tower_checker = \<lparr>ck_in = tower_heap, relMemo = Map.empty, relActive = {}, relAssumed = 0\<rparr>"

theorem deep_question_poisons_witness:
  "fst (assignableTo (value_program\<lparr>pg_unanswered := 52\<rparr>) value_evaluator (Some 10) (Some 11)
    (snd (assignableTo (value_program\<lparr>pg_unanswered := 52\<rparr>) value_evaluator (Some 50) (Some 51) tower_checker))) = Inr Maybe"
proof -
  have heap: "ck_in tower_checker = tower_heap" "relMemo tower_checker = Map.empty" by (simp_all add: tower_checker_def)
  have "questions (value_program\<lparr>pg_unanswered := 52\<rparr>) value_evaluator tower_checker"
    by (rule questions.none) (simp_all add: tower_checker_def tower_at tower_cell_def zero_type_def)
  then show ?thesis
    using deep_question_poisons [of tower_checker "\<lambda>k. 2 * k" "\<lambda>k. 2 * k + 1"] tower_heap_towers by (simp add: heap)
qed

section \<open>The relation always answers\<close>



end
