(* ===== verification/ParserState.thy ===== *)
theory ParserState
  imports Lexer JSDoc Names
begin

text \<open>
  The parser's state and its token stream (\<open>parser/parser.go\<close>). The scanner runs on demand: the
  parser keeps the tokens read so far with the scanner's state before each, re-reads a token
  where the grammar decides what the scanner could not (a \<open>>\<close> that begins a longer operator, a
  \<open>/\<close> that begins a regular expression), and goes back to try another reading.

  The functions are written with the actions of this theory: an action takes the parser, and
  gives a result or the reason there is none, with the parser it leaves.
\<close>

section \<open>The state\<close>

datatype awaitCtx = awaitTop | awaitFn | awaitAsync | awaitStatic

text \<open>The fields the token stream, error recovery and the operator grammar use. An offset or an
  index that the code sets to -1 for none is an \<open>int\<close>.\<close>

record parser =
  ps_lx :: lexer
  ps_tokens :: "Token list"
  ps_states :: "State list"
  ps_rescans :: "nat list"
  ps_pos :: nat
  ps_inGen :: bool
  ps_inGenParams :: bool
  ps_awaitCtx :: awaitCtx
  ps_docAt :: int
  ps_pendingDoc :: "Comment option"
  ps_noInFrom :: int
  ps_diags :: "Diagnostic list"
  ps_contexts :: "32 word"
  ps_speculating :: int
  ps_scanReported :: bool
  ps_src :: string
  ps_Blanks :: "(nat \<times> nat) list"

definition Parser_New :: "string \<Rightarrow> parser" where
  "Parser_New src =
    \<lparr>ps_lx = New src, ps_tokens = [], ps_states = [], ps_rescans = [], ps_pos = 0, ps_inGen = False,
     ps_inGenParams = False, ps_awaitCtx = awaitTop, ps_docAt = - 1, ps_pendingDoc = None,
     ps_noInFrom = - 1, ps_diags = [], ps_contexts = 0, ps_speculating = 0, ps_scanReported = False,
     ps_src = src, ps_Blanks = []\<rparr>"

section \<open>Actions\<close>

text \<open>Why an action has no result: it returns an error, it panics, or the fuel of a recursion
  ran out.\<close>

datatype failure = Rejected goerror | Crashed panic | Exhausted

type_synonym ('p, 'a) parse_action = "'p \<Rightarrow> (failure + 'a) \<times> 'p"

definition return :: "'a \<Rightarrow> ('p, 'a) parse_action" where
  "return x = (\<lambda>p. (Inr x, p))"

definition refuse :: "failure \<Rightarrow> ('p, 'a) parse_action" where
  "refuse e = (\<lambda>p. (Inl e, p))"

definition bind_action :: "('p, 'a) parse_action \<Rightarrow> ('a \<Rightarrow> ('p, 'b) parse_action) \<Rightarrow> ('p, 'b) parse_action" where
  "bind_action m f = (\<lambda>p. case m p of (Inl e, p') \<Rightarrow> (Inl e, p') | (Inr x, p') \<Rightarrow> f x p')"

text \<open>A function of the parser that always returns.\<close>

definition always :: "('p \<Rightarrow> 'a \<times> 'p) \<Rightarrow> ('p, 'a) parse_action" where
  "always f = (\<lambda>p. let (x, p') = f p in (Inr x, p'))"

lemma bind_always: "bind_action (always f) g p = (case f p of (x, q) \<Rightarrow> g x q)"
  by (simp add: bind_action_def always_def split: prod.split)

lemma bind_result:
  "m p = (Inr x, q) \<Longrightarrow> bind_action m f p = f x q"
  "m p = (Inl e, q) \<Longrightarrow> bind_action m f p = (Inl e, q)"
  by (simp_all add: bind_action_def)

section \<open>The token stream\<close>

definition zero_token :: Token where
  "zero_token = \<lparr>t_Type = NUMBER, t_Literal = '''', t_RegexFlags = '''', t_Raw = '''', t_Line = 0, t_Col = 0,
     t_Pos = 0, t_End = 0, t_Flags = 0, t_Doc = '''', t_Err = None\<rparr>"

text \<open>One more token, read under \<open>mode\<close> from the scanner's state.\<close>

definition scan_next :: "unicode_tables \<Rightarrow> ScanMode \<Rightarrow> 'x parser_scheme \<Rightarrow> 'x parser_scheme" where
  "scan_next U mode p =
    (let (t, l) = Scan U mode (ps_lx p) in
     p\<lparr>ps_states := ps_states p @ [Mark (ps_lx p)], ps_tokens := ps_tokens p @ [t], ps_lx := l\<rparr>)"

lemma scan_next_tokens [simp]: "length (ps_tokens (scan_next U mode p)) = Suc (length (ps_tokens p))"
  by (simp add: scan_next_def split: prod.split)

definition past_end :: "'x parser_scheme \<Rightarrow> bool" where
  "past_end p \<longleftrightarrow> ps_tokens p \<noteq> [] \<and> t_Type (last (ps_tokens p)) \<in> {EOF, ILLEGAL}"

definition end_token :: "'x parser_scheme \<Rightarrow> Token" where
  "end_token p =
    (let t = last (ps_tokens p) in
     zero_token\<lparr>t_Type := EOF, t_Line := t_Line t, t_Col := t_Col t, t_Pos := t_End t, t_End := t_End t\<rparr>)"

function Parser_at :: "unicode_tables \<Rightarrow> nat \<Rightarrow> 'x parser_scheme \<Rightarrow> Token \<times> 'x parser_scheme" where
  "Parser_at U i p =
    (if i < length (ps_tokens p) then (ps_tokens p ! i, p)
     else if past_end p then (end_token p, p)
     else Parser_at U i (scan_next U ScanDefault p))"
  by pat_completeness auto
termination by (relation "measure (\<lambda>(U, i, p). Suc i - length (ps_tokens p))") auto

declare Parser_at.simps [simp del]

lemma Parser_at_pos [simp]: "ps_pos (snd (Parser_at U i p)) = ps_pos p"
proof (induction U i p rule: Parser_at.induct)
  case (1 U i p)
  then show ?case
    by (subst Parser_at.simps) (simp add: scan_next_def split: prod.splits)
qed

text \<open>Every token but a closing, separating or binary-operator one.\<close>

definition startsOperand :: "TokenType \<Rightarrow> bool" where
  "startsOperand t \<longleftrightarrow> t \<notin> {EOF, SEMICOLON, COMMA, COLON, DOT, OPTIONAL_DOT, RPAREN, RBRACKET, RBRACE, ARROW,
     QUESTION, ASSIGN, PLUS_ASSIGN, MINUS_ASSIGN, STAR_ASSIGN, SLASH_ASSIGN, PERCENT_ASSIGN, POW_ASSIGN,
     LSHIFT_ASSIGN, RSHIFT_ASSIGN, URSHIFT_ASSIGN, AND_ASSIGN, OR_ASSIGN, XOR_ASSIGN, LOGICAL_AND_ASSIGN,
     LOGICAL_OR_ASSIGN, NULLISH_ASSIGN, EQ, NEQ, STRICT_EQ, STRICT_NEQ, GT, GTE, LTE, AND, OR, NULLISH, STAR,
     SLASH, PERCENT, POW, BITAND, BITOR, BITXOR, LSHIFT, RSHIFT, URSHIFT, INSTANCEOF}"

definition awaitIsIdent :: "unicode_tables \<Rightarrow> 'x parser_scheme \<Rightarrow> bool \<times> 'x parser_scheme" where
  "awaitIsIdent U p =
    (if ps_awaitCtx p = awaitFn \<or> ps_awaitCtx p = awaitTop
     then (let (t, p) = Parser_at U (ps_pos p + 1) p in (\<not> startsOperand (t_Type t), p))
     else (False, p))"

definition Parser_peek :: "unicode_tables \<Rightarrow> 'x parser_scheme \<Rightarrow> Token \<times> 'x parser_scheme" where
  "Parser_peek U p =
    (let (t, p) = Parser_at U (ps_pos p) p;
         t = (if t_Type t = YIELD \<and> \<not> ps_inGen p then t\<lparr>t_Type := IDENT\<rparr> else t);
         (ident, p) = (if t_Type t = AWAIT then awaitIsIdent U p else (False, p));
         t = (if ident then t\<lparr>t_Type := IDENT\<rparr> else t)
     in (t, if t_Doc t \<noteq> [] \<and> ps_docAt p \<noteq> int (ps_pos p)
            then p\<lparr>ps_pendingDoc := Some (Parse (t_Doc t)), ps_docAt := int (ps_pos p)\<rparr> else p))"

definition peekNth :: "unicode_tables \<Rightarrow> nat \<Rightarrow> 'x parser_scheme \<Rightarrow> Token \<times> 'x parser_scheme" where
  "peekNth U n p = Parser_at U (ps_pos p + n) p"

text \<open>\<open>sort.SearchInts\<close> on an ascending list.\<close>

definition SearchInts :: "nat list \<Rightarrow> nat \<Rightarrow> nat" where
  "SearchInts xs i = length (takeWhile (\<lambda>x. x < i) xs)"

definition drop_from :: "nat \<Rightarrow> 'x parser_scheme \<Rightarrow> 'x parser_scheme" where
  "drop_from i p = p\<lparr>ps_lx := Rewind (ps_states p ! i) (ps_lx p), ps_tokens := take i (ps_tokens p),
     ps_states := take i (ps_states p)\<rparr>"

definition rescanAt :: "unicode_tables \<Rightarrow> nat \<Rightarrow> ScanMode \<Rightarrow> ('x parser_scheme, Token) parse_action" where
  "rescanAt U i mode = bind_action (always (Parser_at U i)) (\<lambda>_ p.
    (if i < length (ps_states p)
     then (let st = ps_states p ! i;
               p = drop_from i p;
               (t, l) = Scan U mode (ps_lx p);
               p = p\<lparr>ps_states := ps_states p @ [st], ps_tokens := ps_tokens p @ [t], ps_lx := l,
                 ps_rescans := take (SearchInts (ps_rescans p) i) (ps_rescans p) @ [i]\<rparr>
           in (Inr t, p))
     else (Inl (Crashed IndexOutOfRange), p)))"

text \<open>Type syntax recorded past a point gone back to was a guess.\<close>

definition cut_blanks :: "nat \<Rightarrow> 'x parser_scheme \<Rightarrow> 'x parser_scheme" where
  "cut_blanks i p =
    (if i < length (ps_tokens p)
     then p\<lparr>ps_Blanks := rev (dropWhile (\<lambda>b. t_Pos (ps_tokens p ! i) \<le> fst b) (rev (ps_Blanks p)))\<rparr>
     else p)"

definition rewind :: "nat \<Rightarrow> ('x parser_scheme, unit) parse_action" where
  "rewind i p =
    (let p = (cut_blanks i p)\<lparr>ps_pos := i\<rparr>;
         k = SearchInts (ps_rescans p) i
     in if k = length (ps_rescans p) then (Inr (), p)
        else (let r = ps_rescans p ! k in
          if r < length (ps_states p) then (Inr (), (drop_from r p)\<lparr>ps_rescans := take k (ps_rescans p)\<rparr>)
          else (Inl (Crashed IndexOutOfRange), p)))"

definition peekOperator :: "unicode_tables \<Rightarrow> ('x parser_scheme, Token) parse_action" where
  "peekOperator U = bind_action (always (Parser_peek U)) (\<lambda>t p.
    (if t_Type t = GT then rescanAt U (ps_pos p) ScanGlueGreater p
     else if t_Type t = REGEX then rescanAt U (ps_pos p) ScanNoRegex p
     else (Inr t, p)))"

definition peekPrimary :: "unicode_tables \<Rightarrow> ('x parser_scheme, Token) parse_action" where
  "peekPrimary U = bind_action (always (Parser_peek U)) (\<lambda>t p.
    (if t_Type t = SLASH \<or> t_Type t = SLASH_ASSIGN then rescanAt U (ps_pos p) ScanRegex p else (Inr t, p)))"

section \<open>Taking tokens\<close>

definition Parser_advance :: "unicode_tables \<Rightarrow> 'x parser_scheme \<Rightarrow> Token \<times> 'x parser_scheme" where
  "Parser_advance U p = (let (t, p) = Parser_peek U p in (t, p\<lparr>ps_pos := ps_pos p + 1\<rparr>))"

definition check :: "unicode_tables \<Rightarrow> TokenType \<Rightarrow> 'x parser_scheme \<Rightarrow> bool \<times> 'x parser_scheme" where
  "check U typ p = (let (t, p) = Parser_peek U p in (t_Type t = typ, p))"

primrec match :: "unicode_tables \<Rightarrow> TokenType list \<Rightarrow> 'x parser_scheme \<Rightarrow> bool \<times> 'x parser_scheme" where
  "match U [] p = (False, p)"
| "match U (t # ts) p =
    (let (b, p) = check U t p in if b then (True, snd (Parser_advance U p)) else match U ts p)"

text \<open>An error at a token; one the parser built has no byte range.\<close>

definition Parser_errAt :: "unicode_tables \<Rightarrow> Token \<Rightarrow> Message \<Rightarrow> fmt_arg list \<Rightarrow> Diagnostic" where
  "Parser_errAt U t m args =
    (let start = (if t_End t = 0 then - 1 else int (t_Pos t)); end = (if t_End t = 0 then - 1 else int (t_End t)) in
     New_diag U m \<lparr>s_File = '''', s_Pos = \<lparr>p_Line = t_Line t, p_Col = t_Col t\<rparr>, s_Start = start, s_End = end\<rparr> args)"

definition errAtPos :: "unicode_tables \<Rightarrow> Pos \<Rightarrow> Message \<Rightarrow> fmt_arg list \<Rightarrow> Diagnostic" where
  "errAtPos U pos m args = New_diag U m \<lparr>s_File = '''', s_Pos = pos, s_Start = - 1, s_End = - 1\<rparr> args"

definition posOf :: "Token \<Rightarrow> Pos" where
  "posOf t = \<lparr>p_Line = t_Line t, p_Col = t_Col t\<rparr>"

definition reject :: "Diagnostic \<Rightarrow> ('p, 'a) parse_action" where
  "reject d = refuse (Rejected (OneDiag d))"

definition ExpectedToken :: Message where
  "ExpectedToken = syntax_msg 1005 ''expected %s, got %s''"

definition ExpectedSemicolon :: Message where
  "ExpectedSemicolon = syntax_msg 1005 (''expected '' @ [CHR 0x27] @ '';'' @ [CHR 0x27] @ '', got %s'')"

definition ExpectedCloseAngle :: Message where
  "ExpectedCloseAngle = syntax_msg 1005 (''expected '' @ [CHR 0x27] @ ''>'' @ [CHR 0x27] @ '' to close %s'')"

definition type_arg :: "TokenType \<Rightarrow> fmt_arg" where
  "type_arg t = ArgStr (TokenType_String t)"

definition expect :: "unicode_tables \<Rightarrow> TokenType \<Rightarrow> ('x parser_scheme, Token) parse_action" where
  "expect U typ = bind_action (always (Parser_peek U)) (\<lambda>t.
    if t_Type t \<noteq> typ then reject (Parser_errAt U t ExpectedToken [type_arg typ, type_arg (t_Type t)])
    else always (Parser_advance U))"

definition expectBindingName :: "unicode_tables \<Rightarrow> ('x parser_scheme, Token) parse_action" where
  "expectBindingName U = bind_action (always (Parser_peek U)) (\<lambda>t.
    if t_Type t = UNDEFINED
    then bind_action (always (Parser_advance U)) (\<lambda>t. return (t\<lparr>t_Type := IDENT, t_Literal := ''undefined''\<rparr>))
    else expect U IDENT)"

definition expectGT :: "unicode_tables \<Rightarrow> string \<Rightarrow> ('x parser_scheme, unit) parse_action" where
  "expectGT U context = bind_action (always (Parser_peek U)) (\<lambda>t.
    if t_Type t \<noteq> GT then reject (Parser_errAt U t ExpectedCloseAngle [ArgStr context])
    else bind_action (always (Parser_advance U)) (\<lambda>_. return ()))"

text \<open>Automatic semicolon insertion.\<close>

definition canParseSemicolon :: "unicode_tables \<Rightarrow> 'x parser_scheme \<Rightarrow> bool \<times> 'x parser_scheme" where
  "canParseSemicolon U p =
    (let (t, p) = Parser_peek U p in (t_Type t \<in> {SEMICOLON, RBRACE, EOF} \<or> HasPrecedingLineBreak t, p))"

definition parseSemicolon :: "unicode_tables \<Rightarrow> ('x parser_scheme, unit) parse_action" where
  "parseSemicolon U = bind_action (always (canParseSemicolon U)) (\<lambda>ok.
    if \<not> ok
    then bind_action (always (Parser_peek U)) (\<lambda>t. reject (Parser_errAt U t ExpectedSemicolon [type_arg (t_Type t)]))
    else bind_action (always (match U [SEMICOLON])) (\<lambda>_. return ()))"

definition isWord :: "unicode_tables \<Rightarrow> nat \<Rightarrow> string \<Rightarrow> 'x parser_scheme \<Rightarrow> bool \<times> 'x parser_scheme" where
  "isWord U n w p = (let (t, p) = peekNth U n p in (t_Type t = IDENT \<and> t_Literal t = w, p))"

definition sameLine :: "unicode_tables \<Rightarrow> nat \<Rightarrow> 'x parser_scheme \<Rightarrow> bool \<times> 'x parser_scheme" where
  "sameLine U n p = (let (t, p) = peekNth U n p in (\<not> HasPrecedingLineBreak t, p))"

text \<open>The tokens that open and close a bracketed group.\<close>

definition opens_group :: "TokenType \<Rightarrow> bool" where
  "opens_group t \<longleftrightarrow> t \<in> {LPAREN, LBRACKET, LBRACE, TEMPLATE_HEAD}"

definition closes_group :: "TokenType \<Rightarrow> bool" where
  "closes_group t \<longleftrightarrow> t \<in> {RPAREN, RBRACKET, RBRACE, TEMPLATE_TAIL}"

definition bracket_step :: "TokenType \<Rightarrow> int \<Rightarrow> int" where
  "bracket_step t depth = (if opens_group t then depth + 1 else if closes_group t then depth - 1 else depth)"

text \<open>Whether a relational \<open>in\<close> here ends a \<open>for\<close> initializer: the loop of \<open>inExcluded\<close>.\<close>

function brackets_from :: "unicode_tables \<Rightarrow> nat \<Rightarrow> int \<Rightarrow> 'x parser_scheme \<Rightarrow> int \<times> 'x parser_scheme" where
  "brackets_from U i depth p =
    (if i < ps_pos p
     then (let (t, p') = Parser_at U i p in
           brackets_from U (i + 1) (bracket_step (t_Type t) depth) p')
     else (depth, p))"
  by pat_completeness auto
termination
proof (relation "measure (\<lambda>(U, i, d, p). ps_pos p - i)", goal_cases)
  case (2 U i depth p x t p')
  then show ?case by (cases x) (metis Parser_at_pos case_prod_conv diff_less_mono2 in_measure less_add_one snd_conv)
qed simp

declare brackets_from.simps [simp del]

definition inExcluded :: "unicode_tables \<Rightarrow> 'x parser_scheme \<Rightarrow> bool \<times> 'x parser_scheme" where
  "inExcluded U p =
    (if ps_noInFrom p < 0 then (False, p)
     else (let (depth, p) = brackets_from U (nat (ps_noInFrom p)) 0 p in (depth = 0, p)))"

section \<open>Type syntax in the source text\<close>

definition Parser_blank :: "nat \<Rightarrow> nat \<Rightarrow> 'x parser_scheme \<Rightarrow> 'x parser_scheme" where
  "Parser_blank start end p = (if start < end then p\<lparr>ps_Blanks := ps_Blanks p @ [(start, end)]\<rparr> else p)"

text \<open>\<open>SourceText.Slice\<close> (\<open>ast/nodes.go\<close>): the text of a range with the blanked bytes as spaces,
  line feeds kept.\<close>

definition blanked :: "(nat \<times> nat) list \<Rightarrow> nat \<Rightarrow> bool" where
  "blanked bs i \<longleftrightarrow> list_ex (\<lambda>(lo, hi). lo \<le> i \<and> i < hi) bs"

definition Slice :: "string \<Rightarrow> (nat \<times> nat) list \<Rightarrow> nat \<Rightarrow> nat \<Rightarrow> string" where
  "Slice src bs start end =
    (if length src < end \<or> end \<le> start then ''''
     else map (\<lambda>i. if blanked bs i \<and> src ! i \<noteq> CHR 0x0A then CHR '' '' else src ! i) [start..<end])"

definition callSource :: "nat \<Rightarrow> nat \<Rightarrow> 'x parser_scheme \<Rightarrow> string" where
  "callSource start end p = Slice (ps_src p) (ps_Blanks p) start end"

definition takeDoc :: "'x parser_scheme \<Rightarrow> Comment option \<times> 'x parser_scheme" where
  "takeDoc p = (ps_pendingDoc p, p\<lparr>ps_pendingDoc := None\<rparr>)"

definition scan_error :: "'x parser_scheme \<Rightarrow> Diagnostic option" where
  "scan_error p =
    (case List.find (\<lambda>t. t_Type t = ILLEGAL \<and> t_Err t \<noteq> None) (ps_tokens p) of Some t \<Rightarrow> t_Err t | None \<Rightarrow> None)"

definition scanErrorOr :: "goerror \<Rightarrow> 'x parser_scheme \<Rightarrow> goerror" where
  "scanErrorOr err p = (case scan_error p of Some d \<Rightarrow> OneDiag d | None \<Rightarrow> err)"

end
