(* ===== verification/ParserFacts.thy ===== *)
theory ParserFacts
  imports ParserState LexerBlind LexerScanFacts
begin

text \<open>
  What the parser's token buffer stands for: the tokens of the source, scanned one after the
  other, each in its mode. Reading scans on demand, re-reading changes the mode of one token
  and takes those after it afresh, and going back forgets the modes from there on.
\<close>

section \<open>The tokens of a source under modes\<close>

primrec lexer_after :: "unicode_tables \<Rightarrow> string \<Rightarrow> (nat \<Rightarrow> ScanMode) \<Rightarrow> nat \<Rightarrow> lexer" where
  "lexer_after U src m 0 = New src"
| "lexer_after U src m (Suc n) = snd (Scan U (m n) (lexer_after U src m n))"

definition raw_token :: "unicode_tables \<Rightarrow> string \<Rightarrow> (nat \<Rightarrow> ScanMode) \<Rightarrow> nat \<Rightarrow> Token" where
  "raw_token U src m j = fst (Scan U (m j) (lexer_after U src m j))"

definition final :: "Token \<Rightarrow> bool" where
  "final t \<longleftrightarrow> t_Type t \<in> {EOF, ILLEGAL}"

definition closing :: "Token \<Rightarrow> Token" where
  "closing t = zero_token\<lparr>t_Type := EOF, t_Line := t_Line t, t_Col := t_Col t, t_Pos := t_End t, t_End := t_End t\<rparr>"

text \<open>The token at an index: the scanned one, or the end of input past the last.\<close>

definition stream_token :: "unicode_tables \<Rightarrow> string \<Rightarrow> (nat \<Rightarrow> ScanMode) \<Rightarrow> nat \<Rightarrow> Token" where
  "stream_token U src m j =
    (case List.find (\<lambda>k. final (raw_token U src m k)) [0..<j] of
       None \<Rightarrow> raw_token U src m j
     | Some k \<Rightarrow> closing (raw_token U src m k))"

lemma lexer_after_inv: "lexer_inv src (lexer_after U src m n)"
  by (induction n) (simp_all add: lexer_inv_New lexer_inv_Scan)

lemma lexer_after_cong: "(\<And>j. j < n \<Longrightarrow> m j = m' j) \<Longrightarrow> lexer_after U src m n = lexer_after U src m' n"
  by (induction n) simp_all

lemma raw_token_cong: "(\<And>j. j \<le> n \<Longrightarrow> m j = m' j) \<Longrightarrow> raw_token U src m n = raw_token U src m' n"
  using lexer_after_cong [of n m m' U src] by (simp add: raw_token_def)

lemma stream_token_raw:
  assumes "\<And>k. k < j \<Longrightarrow> \<not> final (raw_token U src m k)"
  shows "stream_token U src m j = raw_token U src m j"
proof -
  have "List.find (\<lambda>k. final (raw_token U src m k)) [0..<j] = None"
    using assms by (simp add: find_None_iff)
  then show ?thesis by (simp add: stream_token_def)
qed

lemma stream_token_past:
  assumes "\<And>k. k < n \<Longrightarrow> \<not> final (raw_token U src m k)" "final (raw_token U src m n)" "n < j"
  shows "stream_token U src m j = closing (raw_token U src m n)"
proof -
  have "List.find (\<lambda>k. final (raw_token U src m k)) [0..<j] = Some n"
    using assms by (auto simp: find_Some_iff intro!: exI [of _ n])
  then show ?thesis by (simp add: stream_token_def)
qed

lemma stream_token_cong:
  assumes "\<And>k. k \<le> j \<Longrightarrow> m k = m' k"
  shows "stream_token U src m j = stream_token U src m' j"
proof -
  have r: "raw_token U src m k = raw_token U src m' k" if "k \<le> j" for k
    using assms that by (intro raw_token_cong) simp
  have f: "List.find (\<lambda>k. final (raw_token U src m k)) [0..<j] = List.find (\<lambda>k. final (raw_token U src m' k)) [0..<j]"
    using r by (intro find_cong) simp_all
  show ?thesis
  proof (cases "List.find (\<lambda>k. final (raw_token U src m' k)) [0..<j]")
    case None
    then show ?thesis by (simp add: stream_token_def f r)
  next
    case (Some k)
    then have "k < j" by (auto simp: find_Some_iff)
    then show ?thesis by (simp add: stream_token_def f Some r)
  qed
qed

section \<open>The buffer\<close>

definition stream_ok :: "unicode_tables \<Rightarrow> string \<Rightarrow> (nat \<Rightarrow> ScanMode) \<Rightarrow> 'x parser_scheme \<Rightarrow> bool" where
  "stream_ok U src m p \<longleftrightarrow>
    (let n = length (ps_tokens p) in
     ps_tokens p = map (raw_token U src m) [0..<n]
     \<and> ps_states p = map (\<lambda>j. Mark (lexer_after U src m j)) [0..<n]
     \<and> core (ps_lx p) = core (lexer_after U src m n) \<and> lexer_inv src (ps_lx p)
     \<and> (\<forall>k. Suc k < n \<longrightarrow> \<not> final (raw_token U src m k))
     \<and> sorted_wrt (<) (ps_rescans p) \<and> set (ps_rescans p) \<subseteq> {..<n}
     \<and> (\<forall>j. j \<notin> set (ps_rescans p) \<longrightarrow> m j = ScanDefault))"

text \<open>What the buffer depends on; the other fields are of no account to it.\<close>

lemma stream_ok_frame [simp]:
  "stream_ok U src m (p\<lparr>ps_pos := i\<rparr>) = stream_ok U src m p"
  "stream_ok U src m (p\<lparr>ps_docAt := d\<rparr>) = stream_ok U src m p"
  "stream_ok U src m (p\<lparr>ps_pendingDoc := c\<rparr>) = stream_ok U src m p"
  "stream_ok U src m (p\<lparr>ps_Blanks := bs\<rparr>) = stream_ok U src m p"
  "stream_ok U src m (p\<lparr>ps_diags := ds\<rparr>) = stream_ok U src m p"
  "stream_ok U src m (p\<lparr>ps_contexts := w\<rparr>) = stream_ok U src m p"
  "stream_ok U src m (p\<lparr>ps_scanReported := b\<rparr>) = stream_ok U src m p"
  "stream_ok U src m (p\<lparr>ps_speculating := k\<rparr>) = stream_ok U src m p"
  by (simp_all add: stream_ok_def)

lemma stream_ok_New: "stream_ok U src (\<lambda>_. ScanDefault) (Parser_New src)"
  by (simp add: stream_ok_def Parser_New_def lexer_inv_New)

lemma stream_okD:
  assumes "stream_ok U src m p"
  shows "\<And>j. j < length (ps_tokens p) \<Longrightarrow> ps_tokens p ! j = raw_token U src m j"
    "length (ps_states p) = length (ps_tokens p)"
    "\<And>j. j < length (ps_tokens p) \<Longrightarrow> ps_states p ! j = Mark (lexer_after U src m j)"
    "core (ps_lx p) = core (lexer_after U src m (length (ps_tokens p)))" "lexer_inv src (ps_lx p)"
    "\<And>k. Suc k < length (ps_tokens p) \<Longrightarrow> \<not> final (raw_token U src m k)"
    "sorted_wrt (<) (ps_rescans p)" "\<And>r. r \<in> set (ps_rescans p) \<Longrightarrow> r < length (ps_tokens p)"
    "\<And>j. j \<notin> set (ps_rescans p) \<Longrightarrow> m j = ScanDefault"
proof -
  let ?n = "length (ps_tokens p)"
  have t: "ps_tokens p = map (raw_token U src m) [0..<?n]"
    and s: "ps_states p = map (\<lambda>j. Mark (lexer_after U src m j)) [0..<?n]"
    using assms by (simp_all add: stream_ok_def Let_def)
  show "\<And>j. j < ?n \<Longrightarrow> ps_tokens p ! j = raw_token U src m j" by (subst t) simp
  show "length (ps_states p) = ?n" by (subst s) simp
  show "\<And>j. j < ?n \<Longrightarrow> ps_states p ! j = Mark (lexer_after U src m j)" by (subst s) simp
qed (use assms in \<open>auto simp: stream_ok_def Let_def\<close>)

lemma past_end_iff:
  assumes "stream_ok U src m p"
  shows "past_end p \<longleftrightarrow> ps_tokens p \<noteq> [] \<and> final (raw_token U src m (length (ps_tokens p) - 1))"
    and "past_end p \<Longrightarrow> end_token p = closing (raw_token U src m (length (ps_tokens p) - 1))"
proof -
  have "ps_tokens p \<noteq> [] \<Longrightarrow> last (ps_tokens p) = raw_token U src m (length (ps_tokens p) - 1)"
    using stream_okD(1) [OF assms] by (simp add: last_conv_nth)
  then show "past_end p \<longleftrightarrow> ps_tokens p \<noteq> [] \<and> final (raw_token U src m (length (ps_tokens p) - 1))"
    "past_end p \<Longrightarrow> end_token p = closing (raw_token U src m (length (ps_tokens p) - 1))"
    by (auto simp: past_end_def final_def end_token_def closing_def Let_def)
qed

text \<open>One token more, in the mode given to its index.\<close>

lemma stream_ok_scan:
  assumes ok: "stream_ok U src m p" and going: "\<not> past_end p"
    and m': "\<And>j. j < length (ps_tokens p) \<Longrightarrow> m' j = m j" "\<And>j. j \<notin> set rs \<Longrightarrow> m' j = ScanDefault"
    and rs: "sorted_wrt (<) rs" "set rs \<subseteq> {..length (ps_tokens p)}"
  shows "stream_ok U src m' ((scan_next U (m' (length (ps_tokens p))) p)\<lparr>ps_rescans := rs\<rparr>)"
proof -
  let ?n = "length (ps_tokens p)"
  note d = stream_okD [OF ok]
  have la: "lexer_after U src m' j = lexer_after U src m j" if "j \<le> ?n" for j
    using m'(1) that by (intro lexer_after_cong) simp
  have rt: "raw_token U src m' j = raw_token U src m j" if "j < ?n" for j
    using m'(1) that by (intro raw_token_cong) simp
  have c: "core (lexer_after U src m' ?n) = core (ps_lx p)" using d(4) la by simp
  have s: "fst (Scan U (m' ?n) (ps_lx p)) = raw_token U src m' ?n"
    "core (snd (Scan U (m' ?n) (ps_lx p))) = core (lexer_after U src m' (Suc ?n))"
    using Scan_core [OF c, of U "m' ?n"] by (simp_all add: raw_token_def)
  have mark: "Mark (ps_lx p) = Mark (lexer_after U src m' ?n)"
    using c by (cases "ps_lx p", cases "lexer_after U src m' ?n") (simp add: core_def Mark_def)
  have t: "ps_tokens p = map (raw_token U src m') [0..<?n]"
    using d(1) rt by (intro nth_equalityI) simp_all
  have st: "ps_states p = map (\<lambda>j. Mark (lexer_after U src m' j)) [0..<?n]"
    using d(2,3) la by (intro nth_equalityI) simp_all
  have nf: "\<not> final (raw_token U src m' k)" if "k < ?n" for k
  proof (cases "Suc k < ?n")
    case True
    then show ?thesis using d(6) rt [OF that] by simp
  next
    case False
    then have "k = ?n - 1" "ps_tokens p \<noteq> []" using that by auto
    then show ?thesis using going past_end_iff(1) [OF ok] rt [OF that] by simp
  qed
  obtain tk l where sc: "Scan U (m' ?n) (ps_lx p) = (tk, l)" by fastforce
  have "lexer_inv src l" using lexer_inv_Scan [OF d(5), of U "m' ?n"] sc by simp
  then show ?thesis
    using s sc mark rs m'(2) nf t st
    by (auto simp: stream_ok_def scan_next_def Let_def lessThan_Suc_atMost)
qed

section \<open>Reading\<close>

lemma Parser_at_cases:
  "i < length (ps_tokens p) \<Longrightarrow> Parser_at U i p = (ps_tokens p ! i, p)"
  "\<not> i < length (ps_tokens p) \<Longrightarrow> past_end p \<Longrightarrow> Parser_at U i p = (end_token p, p)"
  "\<not> i < length (ps_tokens p) \<Longrightarrow> \<not> past_end p \<Longrightarrow> Parser_at U i p = Parser_at U i (scan_next U ScanDefault p)"
  by (subst Parser_at.simps; simp)+

lemma Parser_at_frame:
  "\<exists>lx ts sts. snd (Parser_at U i p) = p\<lparr>ps_lx := lx, ps_tokens := ts, ps_states := sts\<rparr>"
proof (induction U i p rule: Parser_at.induct)
  case (1 U i p)
  show ?case
  proof (cases "i < length (ps_tokens p) \<or> past_end p")
    case True
    have "p = p\<lparr>ps_lx := ps_lx p, ps_tokens := ps_tokens p, ps_states := ps_states p\<rparr>" by simp
    moreover have "snd (Parser_at U i p) = p" using True by (cases "i < length (ps_tokens p)") (simp_all add: Parser_at_cases)
    ultimately show ?thesis by metis
  next
    case False
    with 1 obtain lx ts sts where
      "snd (Parser_at U i (scan_next U ScanDefault p)) = (scan_next U ScanDefault p)\<lparr>ps_lx := lx, ps_tokens := ts, ps_states := sts\<rparr>"
      by blast
    with False show ?thesis
      by (auto simp: Parser_at_cases scan_next_def split: prod.splits)
  qed
qed

lemma Parser_at_longer: "length (ps_tokens p) \<le> length (ps_tokens (snd (Parser_at U i p)))"
proof (induction U i p rule: Parser_at.induct)
  case (1 U i p)
  then show ?case
    by (cases "i < length (ps_tokens p)"; cases "past_end p") (simp_all add: Parser_at_cases)
qed

lemma Parser_at_fields [simp]:
  "ps_rescans (snd (Parser_at U i p)) = ps_rescans p" "ps_inGen (snd (Parser_at U i p)) = ps_inGen p"
  "ps_awaitCtx (snd (Parser_at U i p)) = ps_awaitCtx p" "ps_docAt (snd (Parser_at U i p)) = ps_docAt p"
  "ps_diags (snd (Parser_at U i p)) = ps_diags p" "ps_contexts (snd (Parser_at U i p)) = ps_contexts p"
  "ps_speculating (snd (Parser_at U i p)) = ps_speculating p" "ps_Blanks (snd (Parser_at U i p)) = ps_Blanks p"
  "ps_noInFrom (snd (Parser_at U i p)) = ps_noInFrom p" "ps_scanReported (snd (Parser_at U i p)) = ps_scanReported p"
  using Parser_at_frame [of U i p] by auto

text \<open>Reading a token scans up to it, and finds the source's token there.\<close>

lemma Parser_at_stream:
  assumes "stream_ok U src m p"
  shows "fst (Parser_at U j p) = stream_token U src m j \<and> stream_ok U src m (snd (Parser_at U j p))
    \<and> (j < length (ps_tokens (snd (Parser_at U j p))) \<or> t_Type (fst (Parser_at U j p)) = EOF)"
  using assms
proof (induction U j p rule: Parser_at.induct)
  case (1 U i p)
  note d = stream_okD [OF 1(2)]
  consider (there) "i < length (ps_tokens p)" | (past) "\<not> i < length (ps_tokens p)" "past_end p"
    | (more) "\<not> i < length (ps_tokens p)" "\<not> past_end p" by blast
  then show ?case
  proof cases
    case there
    then have "stream_token U src m i = raw_token U src m i"
      using d(6) by (intro stream_token_raw) simp
    with there d(1) 1(2) show ?thesis by (simp add: Parser_at_cases)
  next
    case past
    have "ps_tokens p \<noteq> []" "final (raw_token U src m (length (ps_tokens p) - 1))"
      using past(2) past_end_iff(1) [OF 1(2)] by auto
    moreover from this have "length (ps_tokens p) - 1 < i" using past(1) by (cases "ps_tokens p") auto
    ultimately have "stream_token U src m i = end_token p"
      using d(6) past(2) past_end_iff(2) [OF 1(2)] by (subst stream_token_past) simp_all
    with past 1(2) show ?thesis by (simp add: Parser_at_cases end_token_def Let_def)
  next
    case more
    let ?n = "length (ps_tokens p)"
    have "?n \<notin> set (ps_rescans p)" using d(8) by blast
    then have "m ?n = ScanDefault" using d(9) by blast
    moreover have "stream_ok U src m ((scan_next U (m ?n) p)\<lparr>ps_rescans := ps_rescans p\<rparr>)"
      using d(7,8,9) by (intro stream_ok_scan [OF 1(2) more(2)]) (auto intro: less_imp_le)
    moreover have "(scan_next U (m ?n) p)\<lparr>ps_rescans := ps_rescans p\<rparr> = scan_next U (m ?n) p"
      by (simp add: scan_next_def split: prod.split)
    ultimately have "stream_ok U src m (scan_next U ScanDefault p)" by simp
    from 1(1) [OF more this] show ?thesis unfolding Parser_at_cases(3) [OF more] .
  qed
qed

lemma at_token:
  assumes "stream_ok U src m p" "Parser_at U j p = (t, p')"
  shows "t = stream_token U src m j" "stream_ok U src m p'" "t_Type t \<noteq> EOF \<Longrightarrow> j < length (ps_tokens p')"
    "ps_pos p' = ps_pos p" "ps_rescans p' = ps_rescans p"
  using Parser_at_stream [OF assms(1), of j] Parser_at_pos [of U j p] Parser_at_fields(1) [of U j p] assms(2) by auto

lemma peek_shape:
  assumes "Parser_peek U p = (t, p')" and r: "Parser_at U (ps_pos p) p = (t0, p0)"
    and q: "Parser_at U (Suc (ps_pos p0)) p0 = (t1, p1)"
  shows "t = t0 \<or> t = t0\<lparr>t_Type := IDENT\<rparr>"
    "\<exists>x c d. x \<in> {p0, p1} \<and> p' = x\<lparr>ps_pendingDoc := c, ps_docAt := d\<rparr>"
proof -
  show "t = t0 \<or> t = t0\<lparr>t_Type := IDENT\<rparr>"
    using assms by (auto simp: Parser_peek_def Let_def awaitIsIdent_def split: if_splits)
  have same: "x = x\<lparr>ps_pendingDoc := ps_pendingDoc x, ps_docAt := ps_docAt x\<rparr>" for x :: "'a parser_scheme" by simp
  have "p' = p0 \<or> p' = p1 \<or> (\<exists>x c d. x \<in> {p0, p1} \<and> p' = x\<lparr>ps_pendingDoc := c, ps_docAt := d\<rparr>)"
    using assms by (auto simp: Parser_peek_def Let_def awaitIsIdent_def split: if_splits)
  then show "\<exists>x c d. x \<in> {p0, p1} \<and> p' = x\<lparr>ps_pendingDoc := c, ps_docAt := d\<rparr>"
    using same by (metis insertI1 insertI2)
qed

lemma Parser_peek_frame:
  "\<exists>lx ts sts c d. snd (Parser_peek U p)
    = p\<lparr>ps_lx := lx, ps_tokens := ts, ps_states := sts, ps_pendingDoc := c, ps_docAt := d\<rparr>"
proof -
  obtain t p' where k: "Parser_peek U p = (t, p')" by fastforce
  obtain t0 p0 where r: "Parser_at U (ps_pos p) p = (t0, p0)" by fastforce
  obtain t1 p1 where q: "Parser_at U (Suc (ps_pos p0)) p0 = (t1, p1)" by fastforce
  obtain lx ts sts where p0: "p0 = p\<lparr>ps_lx := lx, ps_tokens := ts, ps_states := sts\<rparr>"
    using Parser_at_frame [of U "ps_pos p" p] r by auto
  obtain lx' ts' sts' where p1: "p1 = p0\<lparr>ps_lx := lx', ps_tokens := ts', ps_states := sts'\<rparr>"
    using Parser_at_frame [of U "Suc (ps_pos p0)" p0] q by auto
  obtain x c d where x: "x \<in> {p0, p1}" "p' = x\<lparr>ps_pendingDoc := c, ps_docAt := d\<rparr>"
    using peek_shape(2) [OF k r q] by blast
  from x(1) consider "x = p0" | "x = p1" by blast
  then show ?thesis
  proof cases
    case 1
    then have "p' = p\<lparr>ps_lx := lx, ps_tokens := ts, ps_states := sts, ps_pendingDoc := c, ps_docAt := d\<rparr>"
      using x(2) p0 by simp
    then show ?thesis using k by (metis snd_conv)
  next
    case 2
    then have "p' = p\<lparr>ps_lx := lx', ps_tokens := ts', ps_states := sts', ps_pendingDoc := c, ps_docAt := d\<rparr>"
      using x(2) p0 p1 by simp
    then show ?thesis using k by (metis snd_conv)
  qed
qed

lemma Parser_peek_fields [simp]:
  "ps_pos (snd (Parser_peek U p)) = ps_pos p" "ps_rescans (snd (Parser_peek U p)) = ps_rescans p"
  "ps_inGen (snd (Parser_peek U p)) = ps_inGen p" "ps_awaitCtx (snd (Parser_peek U p)) = ps_awaitCtx p"
  "ps_diags (snd (Parser_peek U p)) = ps_diags p" "ps_contexts (snd (Parser_peek U p)) = ps_contexts p"
  "ps_speculating (snd (Parser_peek U p)) = ps_speculating p" "ps_Blanks (snd (Parser_peek U p)) = ps_Blanks p"
  "ps_noInFrom (snd (Parser_peek U p)) = ps_noInFrom p" "ps_scanReported (snd (Parser_peek U p)) = ps_scanReported p"
  using Parser_peek_frame [of U p] by auto

text \<open>The current token: a \<open>yield\<close> or an \<open>await\<close> that names something reads as an identifier.\<close>

lemma peek_token:
  assumes "stream_ok U src m p" "Parser_peek U p = (t, p')"
  shows "stream_ok U src m p'" "ps_pos p' = ps_pos p" "ps_rescans p' = ps_rescans p"
    "t = stream_token U src m (ps_pos p) \<or> t = (stream_token U src m (ps_pos p))\<lparr>t_Type := IDENT\<rparr>"
    "t_Type t \<notin> {EOF, IDENT} \<Longrightarrow> ps_pos p < length (ps_tokens p')"
proof -
  obtain t0 p0 where r: "Parser_at U (ps_pos p) p = (t0, p0)" by fastforce
  obtain t1 p1 where q: "Parser_at U (Suc (ps_pos p0)) p0 = (t1, p1)" by fastforce
  note a = at_token [OF assms(1) r] and b = at_token [OF at_token(2) [OF assms(1) r] q]
  have len: "length (ps_tokens p0) \<le> length (ps_tokens p1)"
    using Parser_at_longer [of p0 U "Suc (ps_pos p0)"] q by simp
  note shape = peek_shape [OF assms(2) r q]
  obtain x c d where x: "x \<in> {p0, p1}" "p' = x\<lparr>ps_pendingDoc := c, ps_docAt := d\<rparr>" using shape(2) by blast
  have "stream_ok U src m x" "ps_pos x = ps_pos p" "ps_rescans x = ps_rescans p"
    "t_Type t0 \<noteq> EOF \<Longrightarrow> ps_pos p < length (ps_tokens x)"
    using x(1) a b len by auto
  moreover have "stream_ok U src m p' = stream_ok U src m x" "ps_pos p' = ps_pos x" "ps_rescans p' = ps_rescans x"
    "ps_tokens p' = ps_tokens x"
    using x(2) by auto
  moreover have "t_Type t \<notin> {EOF, IDENT} \<Longrightarrow> t_Type t0 \<noteq> EOF"
    using shape(1) by auto
  ultimately show "stream_ok U src m p'" "ps_pos p' = ps_pos p" "ps_rescans p' = ps_rescans p"
    "t_Type t \<notin> {EOF, IDENT} \<Longrightarrow> ps_pos p < length (ps_tokens p')"
    by simp_all
  show "t = stream_token U src m (ps_pos p) \<or> t = (stream_token U src m (ps_pos p))\<lparr>t_Type := IDENT\<rparr>"
    using shape(1) a(1) by blast
qed

section \<open>Reading again\<close>

definition remode :: "(nat \<Rightarrow> ScanMode) \<Rightarrow> nat \<Rightarrow> ScanMode \<Rightarrow> nat \<Rightarrow> ScanMode" where
  "remode m i mode = (\<lambda>j. if j < i then m j else if j = i then mode else ScanDefault)"

definition forget :: "(nat \<Rightarrow> ScanMode) \<Rightarrow> nat \<Rightarrow> nat \<Rightarrow> ScanMode" where
  "forget m i = (\<lambda>j. if j < i then m j else ScanDefault)"

lemma Mark_Rewind [simp]: "Mark (Rewind (Mark l0) l) = Mark l0"
  by (simp add: Mark_def Rewind_def)

lemma SearchInts_take:
  assumes "sorted_wrt (<) xs"
  shows "set (take (SearchInts xs i) xs) = {x \<in> set xs. x < i}" "SearchInts xs i \<le> length xs"
    "SearchInts xs i = length xs \<longleftrightarrow> (\<forall>x \<in> set xs. x < i)"
    "SearchInts xs i < length xs \<Longrightarrow> i \<le> xs ! SearchInts xs i \<and> (\<forall>x \<in> set xs. i \<le> x \<longrightarrow> xs ! SearchInts xs i \<le> x)"
proof -
  have t: "take (SearchInts xs i) xs = takeWhile (\<lambda>x. x < i) xs"
    unfolding SearchInts_def by (rule takeWhile_eq_take [symmetric])
  have "x \<in> set (takeWhile (\<lambda>x. x < i) xs)" if "x \<in> set xs" "x < i" for x
    using assms that by (induction xs) auto
  then show "set (take (SearchInts xs i) xs) = {x \<in> set xs. x < i}"
    unfolding t by (auto dest: set_takeWhileD)
  show "SearchInts xs i \<le> length xs" by (simp add: SearchInts_def length_takeWhile_le)
  show "SearchInts xs i = length xs \<longleftrightarrow> (\<forall>x \<in> set xs. x < i)"
    by (metis SearchInts_def takeWhile_eq_all_conv takeWhile_eq_take take_all_iff order_refl)
  show "SearchInts xs i < length xs \<Longrightarrow> i \<le> xs ! SearchInts xs i \<and> (\<forall>x \<in> set xs. i \<le> x \<longrightarrow> xs ! SearchInts xs i \<le> x)"
    using assms by (induction xs) (auto simp: SearchInts_def)
qed

text \<open>The buffer cut back to an index.\<close>

lemma stream_ok_drop:
  assumes ok: "stream_ok U src m p" and i: "i < length (ps_tokens p)"
    and m': "\<And>j. j < i \<Longrightarrow> m' j = m j" "\<And>j. j \<notin> set rs \<Longrightarrow> m' j = ScanDefault"
    and rs: "sorted_wrt (<) rs" "set rs \<subseteq> {..<i}"
  shows "stream_ok U src m' ((drop_from i p)\<lparr>ps_rescans := rs\<rparr>) \<and> \<not> past_end (drop_from i p)"
proof -
  note d = stream_okD [OF ok]
  have la: "lexer_after U src m' j = lexer_after U src m j" if "j \<le> i" for j
    using m'(1) that by (intro lexer_after_cong) simp
  have rt: "raw_token U src m' j = raw_token U src m j" if "j < i" for j
    using m'(1) that by (intro raw_token_cong) simp
  have c: "core (Rewind (ps_states p ! i) (ps_lx p)) = core (lexer_after U src m' i)"
    using rewind_core [OF lexer_after_inv d(5)] d(3) [OF i] la by simp
  have inv: "lexer_inv src (Rewind (ps_states p ! i) (ps_lx p))"
    using lexer_inv_Rewind [OF lexer_after_inv d(5)] d(3) [OF i] by simp
  have t: "take i (ps_tokens p) = map (raw_token U src m') [0..<i]"
    using d(1) rt i by (intro nth_equalityI) simp_all
  have st: "take i (ps_states p) = map (\<lambda>j. Mark (lexer_after U src m' j)) [0..<i]"
    using d(2,3) la i by (intro nth_equalityI) simp_all
  have nf: "\<not> final (raw_token U src m' k)" if "k < i" for k
    using d(6) rt that i by simp
  have "\<not> past_end (drop_from i p)"
    using nf [of "i - 1"] t i by (cases i) (auto simp: past_end_def drop_from_def final_def)
  moreover have "stream_ok U src m' ((drop_from i p)\<lparr>ps_rescans := rs\<rparr>)"
    using t st c inv nf m'(2) rs i by (auto simp: stream_ok_def drop_from_def Let_def)
  ultimately show ?thesis by simp
qed

text \<open>Reading token \<open>i\<close> again in another mode: the token is the one scanned so, and those after it
  are to be scanned afresh. The only failure is to ask for a token past the end.\<close>

lemma rescanAt_stream:
  assumes ok: "stream_ok U src m p" and r: "rescanAt U i mode p = (r, p')"
  shows "case r of
      Inr t \<Rightarrow> stream_ok U src (remode m i mode) p' \<and> t = raw_token U src (remode m i mode) i
        \<and> t = stream_token U src (remode m i mode) i \<and> ps_pos p' = ps_pos p
        \<and> set (ps_rescans p') = {x \<in> set (ps_rescans p). x < i} \<union> {i} \<and> length (ps_tokens p') = Suc i
    | Inl e \<Rightarrow> e = Crashed IndexOutOfRange \<and> t_Type (stream_token U src m i) = EOF"
proof -
  obtain t0 p0 where a: "Parser_at U i p = (t0, p0)" by fastforce
  note at = at_token [OF ok a]
  note d = stream_okD [OF at(2)]
  show ?thesis
  proof (cases "i < length (ps_tokens p0)")
    case False
    then show ?thesis
      using r at(1,3) d(2) by (cases "t_Type t0 = EOF") (auto simp: rescanAt_def bind_action_def always_def a)
  next
    case True
    let ?m = "remode m i mode"
    let ?rs = "take (SearchInts (ps_rescans p) i) (ps_rescans p)"
    have rs: "sorted_wrt (<) ?rs" "set ?rs = {x \<in> set (ps_rescans p). x < i}"
      using d(7) SearchInts_take(1) [of "ps_rescans p" i] at(5) by (simp_all add: sorted_wrt_take)
    define m1 where "m1 = forget m i"
    have "m1 j = ScanDefault" if "j \<notin> set ?rs" for j
      using that d(9) [of j] rs(2) at(5) by (auto simp: m1_def forget_def)
    then have dr: "stream_ok U src m1 ((drop_from i p0)\<lparr>ps_rescans := ?rs\<rparr>)" "\<not> past_end (drop_from i p0)"
      using stream_ok_drop [OF at(2) True, of m1 ?rs] rs by (auto simp: m1_def forget_def)
    let ?q = "(drop_from i p0)\<lparr>ps_rescans := ?rs\<rparr>"
    have n: "length (ps_tokens ?q) = i" using True by (simp add: drop_from_def)
    have "\<not> past_end ?q" using dr(2) by (simp add: past_end_def)
    moreover have "?m j = ScanDefault" if "j \<notin> set (?rs @ [i])" for j
    proof (cases "j < i")
      case True
      then have "j \<notin> set (ps_rescans p0)" using that rs(2) at(5) by simp
      then show ?thesis using d(9) True by (simp add: remode_def)
    qed (use that in \<open>simp add: remode_def\<close>)
    moreover have "sorted_wrt (<) (?rs @ [i])" "set (?rs @ [i]) \<subseteq> {..length (ps_tokens ?q)}"
      unfolding n using rs(1) by (simp_all add: sorted_wrt_append rs(2)) auto
    ultimately have ok': "stream_ok U src ?m ((scan_next U (?m (length (ps_tokens ?q))) ?q)\<lparr>ps_rescans := ?rs @ [i]\<rparr>)"
      using n by (intro stream_ok_scan [OF dr(1)]) (simp_all add: m1_def forget_def remode_def)
    obtain t l where sc: "Scan U mode (ps_lx (drop_from i p0)) = (t, l)" by fastforce
    have "remode m i mode i = mode" by (simp add: remode_def)
    then have p': "r = Inr t" "p' = (scan_next U (?m (length (ps_tokens ?q))) ?q)\<lparr>ps_rescans := ?rs @ [i]\<rparr>"
      using r True d(2,3) sc n at(5)
      by (simp_all add: rescanAt_def bind_action_def always_def a scan_next_def Let_def drop_from_def)
    have "ps_tokens p' ! i = t" "length (ps_tokens p') = Suc i"
      using n sc p'(2) by (simp_all add: scan_next_def drop_from_def nth_append remode_def)
    then have "t = raw_token U src ?m i" using stream_okD(1) [OF ok', of i] p'(2) by simp
    moreover have "stream_token U src ?m i = raw_token U src ?m i"
      using stream_okD(6) [OF ok'] p'(2) \<open>length (ps_tokens p') = Suc i\<close> by (intro stream_token_raw) simp
    moreover have "ps_pos p' = ps_pos p" using p'(2) at(4) sc by (simp add: scan_next_def drop_from_def split: prod.split)
    ultimately show ?thesis using p' ok' rs(2) \<open>length (ps_tokens p') = Suc i\<close> by auto
  qed
qed

text \<open>Going back: the tokens re-read from there on are forgotten.\<close>

lemma rewind_stream:
  assumes ok: "stream_ok U src m p" and r: "rewind i p = (r, p')"
  shows "r = Inr () \<and> stream_ok U src (forget m i) p' \<and> ps_pos p' = i
    \<and> set (ps_rescans p') = {x \<in> set (ps_rescans p). x < i}"
proof -
  note d = stream_okD [OF ok]
  define q where "q = (cut_blanks i p)\<lparr>ps_pos := i\<rparr>"
  have q: "ps_tokens q = ps_tokens p" "ps_states q = ps_states p" "ps_rescans q = ps_rescans p" "ps_pos q = i"
    "stream_ok U src m q"
    using ok by (simp_all add: q_def cut_blanks_def)
  let ?k = "SearchInts (ps_rescans p) i"
  note s = SearchInts_take [OF d(7), of i]
  have r': "(if ?k = length (ps_rescans p) then (Inr (), q)
      else if ps_rescans p ! ?k < length (ps_states p)
      then (Inr (), (drop_from (ps_rescans p ! ?k) q)\<lparr>ps_rescans := take ?k (ps_rescans p)\<rparr>)
      else (Inl (Crashed IndexOutOfRange), q)) = (r, p')"
    using r unfolding rewind_def Let_def q_def [symmetric] q(1-3) .
  show ?thesis
  proof (cases "?k = length (ps_rescans p)")
    case True
    then have all: "\<forall>x \<in> set (ps_rescans p). x < i" using s(3) by blast
    have "forget m i j = m j" for j
      using d(9) [of j] bspec [OF all, of j] by (cases "j \<in> set (ps_rescans p)") (simp_all add: forget_def)
    then have "forget m i = m" by blast
    moreover have "r = Inr ()" "p' = q" using r' unfolding True by simp_all
    moreover have "{x \<in> set (ps_rescans p). x < i} = set (ps_rescans p)" using all by blast
    ultimately show ?thesis using q by simp
  next
    case False
    then have k: "?k < length (ps_rescans p)" using s(2) by simp
    let ?r = "ps_rescans p ! ?k"
    have rn: "?r < length (ps_tokens p)" using d(8) k by simp
    have ri: "i \<le> ?r" "\<And>x. x \<in> set (ps_rescans p) \<Longrightarrow> i \<le> x \<Longrightarrow> ?r \<le> x" using s(4) k by auto
    have same: "forget m i j = m j" if "j < ?r" for j
      using ri(2) [of j] d(9) [of j] that by (cases "j \<in> set (ps_rescans p)") (auto simp: forget_def)
    have "stream_ok U src (forget m i) ((drop_from ?r q)\<lparr>ps_rescans := take ?k (ps_rescans p)\<rparr>) \<and> \<not> past_end (drop_from ?r q)"
    proof (rule stream_ok_drop [OF q(5)])
      show "?r < length (ps_tokens q)" using rn q(1) by simp
      show "forget m i j = m j" if "j < ?r" for j using same that .
      show "forget m i j = ScanDefault" if "j \<notin> set (take ?k (ps_rescans p))" for j
        using that d(9) [of j] unfolding s(1) forget_def by auto
      show "sorted_wrt (<) (take ?k (ps_rescans p))" using d(7) by (rule sorted_wrt_take)
      show "set (take ?k (ps_rescans p)) \<subseteq> {..<?r}" unfolding s(1) using ri(1) by auto
    qed
    moreover have "r = Inr ()" "p' = (drop_from ?r q)\<lparr>ps_rescans := take ?k (ps_rescans p)\<rparr>"
      using r' False rn d(2) by simp_all
    moreover from this have "ps_pos p' = i" "ps_rescans p' = take ?k (ps_rescans p)"
      using q(4) by (simp_all add: drop_from_def)
    ultimately show ?thesis using s(1) by simp
  qed
qed

section \<open>The operator readings\<close>

lemma peek_special:
  assumes ok: "stream_ok U src m p" and t: "Parser_peek U p = (t, p')" "t_Type t \<notin> {EOF, IDENT}"
  shows "\<exists>t' q. rescanAt U (ps_pos p') mode p' = (Inr t', q)"
proof (cases "rescanAt U (ps_pos p') mode p'")
  case (Pair r q)
  note k = peek_token [OF ok t(1)]
  have "t_Type (stream_token U src m (ps_pos p)) = t_Type t" using k(4) t(2) by auto
  then show ?thesis
    using rescanAt_stream [OF k(1) Pair] t(2) k(2) Pair by (cases r) auto
qed

text \<open>Reading the current token as an operator or as the start of an operand never panics.\<close>

lemma peekOperator_ok:
  assumes "stream_ok U src m p"
  shows "\<exists>t q m'. peekOperator U p = (Inr t, q) \<and> stream_ok U src m' q \<and> ps_pos q = ps_pos p \<and> (\<forall>j < ps_pos p. m' j = m j)"
proof -
  obtain t p' where k: "Parser_peek U p = (t, p')" by fastforce
  note pt = peek_token [OF assms k]
  define mode where "mode = (if t_Type t = GT then ScanGlueGreater else ScanNoRegex)"
  show ?thesis
  proof (cases "t_Type t = GT \<or> t_Type t = REGEX")
    case True
    then obtain t' q where r: "rescanAt U (ps_pos p') mode p' = (Inr t', q)"
      using peek_special [OF assms k] by force
    have "peekOperator U p = (Inr t', q)"
      using True r by (auto simp: peekOperator_def bind_action_def always_def k mode_def split: if_splits)
    moreover have "stream_ok U src (remode m (ps_pos p') mode) q" "ps_pos q = ps_pos p"
      using rescanAt_stream [OF pt(1) r] pt(2) by simp_all
    moreover have "\<forall>j < ps_pos p. remode m (ps_pos p') mode j = m j" using pt(2) by (simp add: remode_def)
    ultimately show ?thesis by blast
  next
    case False
    then have "peekOperator U p = (Inr t, p')" by (simp add: peekOperator_def bind_action_def always_def k)
    with pt show ?thesis by blast
  qed
qed

end
