(* ===== verification/ParserProps.thy ===== *)
theory ParserProps
  imports ParserFacts
begin

text \<open>
  The parser reads the source: its tokens are the scanner's under the modes it chose, and going
  back leaves no trace of a reading that failed.
\<close>

section \<open>What the parser may do to its token stream\<close>

text \<open>The steps of a reading that started at index \<open>i\<close>: tokens are looked up and taken, those
  from \<open>i\<close> on re-read, the reading gone back within, and the other fields set freely.\<close>

inductive reads_on :: "unicode_tables \<Rightarrow> nat \<Rightarrow> 'x parser_scheme \<Rightarrow> 'x parser_scheme \<Rightarrow> bool" for U i p where
  start: "reads_on U i p p"
| look: "reads_on U i p q \<Longrightarrow> reads_on U i p (snd (Parser_at U j q))"
| peek: "reads_on U i p q \<Longrightarrow> reads_on U i p (snd (Parser_peek U q))"
| advance: "reads_on U i p q \<Longrightarrow> reads_on U i p (snd (Parser_advance U q))"
| reread: "reads_on U i p q \<Longrightarrow> i \<le> j \<Longrightarrow> rescanAt U j mode q = (Inr t, q') \<Longrightarrow> reads_on U i p q'"
| go_back: "reads_on U i p q \<Longrightarrow> i \<le> j \<Longrightarrow> rewind j q = (Inr (), q') \<Longrightarrow> reads_on U i p q'"
| other: "reads_on U i p q \<Longrightarrow> ps_lx q' = ps_lx q \<Longrightarrow> ps_tokens q' = ps_tokens q \<Longrightarrow> ps_states q' = ps_states q \<Longrightarrow>
    ps_rescans q' = ps_rescans q \<Longrightarrow> reads_on U i p q'"

lemma stream_ok_cong:
  "ps_lx q = ps_lx p \<Longrightarrow> ps_tokens q = ps_tokens p \<Longrightarrow> ps_states q = ps_states p \<Longrightarrow> ps_rescans q = ps_rescans p \<Longrightarrow>
    stream_ok U src m q = stream_ok U src m p"
  by (simp add: stream_ok_def)

lemma reads_on_stream:
  assumes "reads_on U i p q" and "stream_ok U src m p"
  shows "\<exists>m'. stream_ok U src m' q \<and> (\<forall>j < i. m' j = m j)"
  using assms
proof (induction rule: reads_on.induct)
  case start
  then show ?case by blast
next
  case (look q j)
  then show ?case using Parser_at_stream by blast
next
  case (peek q)
  then show ?case using peek_token(1) by (metis prod.collapse)
next
  case (advance q)
  then obtain m' where m': "stream_ok U src m' q" "\<forall>j < i. m' j = m j" by blast
  then have "stream_ok U src m' (snd (Parser_peek U q))" using peek_token(1) by (metis prod.collapse)
  with m' show ?case by (auto simp: Parser_advance_def split: prod.split)
next
  case (reread q j mode t q')
  then obtain m' where m': "stream_ok U src m' q" "\<forall>j < i. m' j = m j" by blast
  have "stream_ok U src (remode m' j mode) q'" using rescanAt_stream [OF m'(1) reread(3)] by simp
  moreover have "\<forall>k < i. remode m' j mode k = m k" using m'(2) reread(2) by (simp add: remode_def)
  ultimately show ?case by blast
next
  case (go_back q j q')
  then obtain m' where m': "stream_ok U src m' q" "\<forall>j < i. m' j = m j" by blast
  have "stream_ok U src (forget m' j) q'" using rewind_stream [OF m'(1) go_back(3)] by simp
  moreover have "\<forall>k < i. forget m' j k = m k" using m'(2) go_back(2) by (simp add: forget_def)
  ultimately show ?case by blast
next
  case (other q q')
  then show ?case using stream_ok_cong [of q' q] by blast
qed

lemma reads_on_peekOperator:
  assumes "reads_on U i p q" "i \<le> ps_pos q" "peekOperator U q = (Inr t, q')"
  shows "reads_on U i p q'"
proof -
  obtain t0 q0 where k: "Parser_peek U q = (t0, q0)" by fastforce
  have r: "reads_on U i p q0" using reads_on.peek [OF assms(1)] k by (metis snd_conv)
  have "ps_pos q0 = ps_pos q" using Parser_peek_fields(1) [of U q] k by simp
  with assms r show ?thesis
    by (auto simp: peekOperator_def bind_action_def always_def k intro: reads_on.reread split: if_splits)
qed

text \<open>C13. The parser's tokens are the source's. In every state the parser reaches there is a scan
  mode for each token, other than the default only where the parser re-read it, such that the
  token at any index is the one that scanning the source from its start in these modes gives;
  going back to an index never panics and is the same as forgetting the modes from there on.\<close>

theorem token_stream_exact:
  assumes "reads_on U 0 (Parser_New src) p"
  shows "\<exists>m. (\<forall>j. j \<notin> set (ps_rescans p) \<longrightarrow> m j = ScanDefault)
    \<and> (\<forall>j. fst (Parser_at U j p) = stream_token U src m j)
    \<and> (\<forall>i. fst (rewind i p) = Inr () \<and> ps_pos (snd (rewind i p)) = i
        \<and> (\<forall>j. fst (Parser_at U j (snd (rewind i p))) = stream_token U src (forget m i) j))"
proof -
  obtain m where m: "stream_ok U src m p" using reads_on_stream [OF assms stream_ok_New] by blast
  have "fst (rewind i p) = Inr () \<and> ps_pos (snd (rewind i p)) = i
    \<and> (\<forall>j. fst (Parser_at U j (snd (rewind i p))) = stream_token U src (forget m i) j)" for i
    using rewind_stream [OF m surjective_pairing] Parser_at_stream by blast
  then show ?thesis using stream_okD(9) [OF m] Parser_at_stream [OF m] by blast
qed

definition shift_reading :: parser where
  "shift_reading = snd (peekOperator latin1_tables (snd (Parser_advance latin1_tables (Parser_New ''a >>= b''))))"

lemma shift_reading_reads:
  "reads_on latin1_tables 1 (snd (Parser_advance latin1_tables (Parser_New ''a >>= b''))) shift_reading"
  "reads_on latin1_tables 0 (Parser_New ''a >>= b'') shift_reading"
proof -
  let ?U = latin1_tables
  let ?p = "snd (Parser_advance ?U (Parser_New ''a >>= b''))"
  have m: "stream_ok ?U ''a >>= b'' m ?p \<Longrightarrow> \<exists>t. peekOperator ?U ?p = (Inr t, shift_reading)" for m
    using peekOperator_ok [of ?U "''a >>= b''" m ?p] unfolding shift_reading_def by fastforce
  have p: "reads_on ?U 0 (Parser_New ''a >>= b'') ?p" by (intro reads_on.intros)
  obtain t where t: "peekOperator ?U ?p = (Inr t, shift_reading)"
    using m reads_on_stream [OF p stream_ok_New] by blast
  have pos: "ps_pos ?p = 1" by code_simp
  have "reads_on ?U i x ?p \<Longrightarrow> i \<le> 1 \<Longrightarrow> reads_on ?U i x shift_reading" for i and x :: parser
    using reads_on_peekOperator [of ?U i x ?p t shift_reading] t pos by simp
  then show "reads_on ?U 1 ?p shift_reading" "reads_on ?U 0 (Parser_New ''a >>= b'') shift_reading"
    using p by (simp_all add: reads_on.start)
qed

theorem token_stream_exact_witness:
  "fst (rewind 1 shift_reading) = Inr () \<and> t_Literal (fst (Parser_at latin1_tables 1 shift_reading)) = ''>>=''"
proof -
  have "t_Literal (fst (Parser_at latin1_tables 1 shift_reading)) = ''>>=''" by code_simp
  then show ?thesis using token_stream_exact [OF shift_reading_reads(2)] by blast
qed

text \<open>C12. A reading that fails leaves no trace. Whatever the parser looks at, takes, re-reads and
  takes back from an index on, once it has gone back to the index every token is again the one
  it was before.\<close>

theorem backtracking_leaves_no_trace:
  assumes "reads_on U 0 (Parser_New src) p" and "\<forall>r \<in> set (ps_rescans p). r < i"
    and "reads_on U i p q"
  shows "fst (rewind i q) = Inr () \<and> ps_pos (snd (rewind i q)) = i
    \<and> (\<forall>j. fst (Parser_at U j (snd (rewind i q))) = fst (Parser_at U j p))"
proof -
  obtain m where m: "stream_ok U src m p" using reads_on_stream [OF assms(1) stream_ok_New] by blast
  obtain m' where m': "stream_ok U src m' q" "\<forall>j < i. m' j = m j" using reads_on_stream [OF assms(3) m] by blast
  have "forget m' i j = m j" for j
    using m'(2) stream_okD(9) [OF m, of j] assms(2) by (force simp: forget_def)
  then have "forget m' i = m" by blast
  then show ?thesis
    using rewind_stream [OF m'(1) surjective_pairing, of i] Parser_at_stream [OF m] Parser_at_stream by metis
qed

theorem backtracking_leaves_no_trace_witness:
  "t_Literal (fst (Parser_at latin1_tables 1 (snd (rewind 1 shift_reading)))) = ''>''"
proof -
  let ?p = "snd (Parser_advance latin1_tables (Parser_New ''a >>= b''))"
  have p: "reads_on latin1_tables 0 (Parser_New ''a >>= b'') ?p" by (intro reads_on.intros)
  have "ps_rescans ?p = []" "t_Literal (fst (Parser_at latin1_tables 1 ?p)) = ''>''" by code_simp+
  then show ?thesis using backtracking_leaves_no_trace [OF p _ shift_reading_reads(1)] by simp
qed

end
