(* ===== verification/Recovery.thy ===== *)
theory Recovery
  imports ParserState
begin

text \<open>
  Error recovery (\<open>parser/recovery.go\<close>): the list of statements whose failing elements are
  reported and skipped, and the file's list of diagnostics. \<open>parseStatement\<close> and what the caller
  does with a statement are parameters.
\<close>

section \<open>Lists and what may stand in them\<close>

datatype parsingContext = ctxSourceElements | ctxBlockStatements | ctxSwitchClauseStatements | ctxClassMembers

primrec context_number :: "parsingContext \<Rightarrow> nat" where
  "context_number ctxSourceElements = 0"
| "context_number ctxBlockStatements = 1"
| "context_number ctxSwitchClauseStatements = 2"
| "context_number ctxClassMembers = 3"

definition all_contexts :: "parsingContext list" where
  "all_contexts = [ctxSourceElements, ctxBlockStatements, ctxSwitchClauseStatements, ctxClassMembers]"

definition isStatementStart :: "TokenType \<Rightarrow> bool" where
  "isStatementStart t \<longleftrightarrow> t \<in> {LBRACE, LET, CONSTK, VAR, FUNCTION, CLASS, IF, FOR, WHILE, DO, RETURN, BREAK, CONTINUE,
     THROW, TRY, SWITCH, IMPORT, EXPORT, AT, IDENT, NUMBER, BIGINT, STRING, PRIVATE_NAME, TRUE, FALSE, NULL,
     UNDEFINED, NEW, TYPEOF, VOID, THIS, SUPER, AWAIT, YIELD, LPAREN, LBRACKET, TEMPLATE_NO_SUB, TEMPLATE_HEAD,
     REGEX, SLASH, SLASH_ASSIGN, PLUS, MINUS, NOT, BITNOT, INC, DEC, LT}"

definition isClassMemberStart :: "TokenType \<Rightarrow> bool" where
  "isClassMemberStart t \<longleftrightarrow> t \<in> {IDENT, STRING, NUMBER, BIGINT, LBRACKET, PRIVATE_NAME, AT, STAR, STATIC, PUBLIC,
     PRIVATE, PROTECTED} \<or> IsKeyword t"

definition ends_list :: "parsingContext \<Rightarrow> TokenType \<Rightarrow> bool" where
  "ends_list ctx t \<longleftrightarrow> t = EOF
    \<or> (case ctx of
         ctxBlockStatements \<Rightarrow> t = RBRACE
       | ctxClassMembers \<Rightarrow> t = RBRACE
       | ctxSwitchClauseStatements \<Rightarrow> t = RBRACE \<or> t = CASE \<or> t = DEFAULT
       | ctxSourceElements \<Rightarrow> False)"

definition isListTerminator :: "unicode_tables \<Rightarrow> parsingContext \<Rightarrow> 'x parser_scheme \<Rightarrow> bool \<times> 'x parser_scheme" where
  "isListTerminator U ctx p = (let (t, p) = Parser_peek U p in (ends_list ctx (t_Type t), p))"

definition starts_element :: "parsingContext \<Rightarrow> bool \<Rightarrow> TokenType \<Rightarrow> bool" where
  "starts_element ctx inRecovery t =
    (if t = SEMICOLON then \<not> inRecovery
     else if ctx = ctxClassMembers then isClassMemberStart t else isStatementStart t)"

definition isListElement ::
    "unicode_tables \<Rightarrow> parsingContext \<Rightarrow> bool \<Rightarrow> 'x parser_scheme \<Rightarrow> bool \<times> 'x parser_scheme" where
  "isListElement U ctx inRecovery p = (let (t, p) = Parser_peek U p in (starts_element ctx inRecovery (t_Type t), p))"

definition atElementBoundary :: "unicode_tables \<Rightarrow> 'x parser_scheme \<Rightarrow> bool \<times> 'x parser_scheme" where
  "atElementBoundary U p =
    (let (t, p) = Parser_peek U p in
     if HasPrecedingLineBreak t \<or> ps_pos p = 0 then (True, p)
     else (let (prev, p) = Parser_at U (ps_pos p - 1) p in (t_Type prev = SEMICOLON \<or> t_Type prev = RBRACE, p)))"

section \<open>Skipping\<close>

text \<open>\<open>skipGroup\<close>: the current token, and the whole group it opens. The loop stops at the end of
  input; \<open>None\<close> stands for a loop that does not (\<open>RecoveryFacts.skipGroup_returns\<close>: it always does).\<close>

partial_function (option) skip_group_loop ::
    "unicode_tables \<Rightarrow> int \<Rightarrow> 'x parser_scheme \<Rightarrow> 'x parser_scheme option" where
  "skip_group_loop U depth p =
    (let (t, p) = Parser_advance U p in
     if t_Type t = EOF then Some p
     else (let depth = bracket_step (t_Type t) depth in
       if depth \<le> 0 then Some p
       else (let (e, p) = check U EOF p in if e then Some p else skip_group_loop U depth p)))"

definition skipGroup :: "unicode_tables \<Rightarrow> 'x parser_scheme \<Rightarrow> 'x parser_scheme option" where
  "skipGroup U p = skip_group_loop U 0 p"

section \<open>The file's diagnostics\<close>

text \<open>A diagnostic placed at a node gets its byte offset when it is collected.\<close>

definition fillOffset :: "Diagnostic \<Rightarrow> 'x parser_scheme \<Rightarrow> Diagnostic" where
  "fillOffset d p =
    (if s_Start (d_Span d) < 0
     then (let pos = s_Pos (d_Span d); off = int (Offset (int (p_Line pos)) (int (p_Col pos)) (ps_lx p)) in
           d\<lparr>d_Span := (d_Span d)\<lparr>s_Start := off, s_End := off\<rparr>\<rparr>)
     else d)"

definition start_of :: "Diagnostic \<Rightarrow> int" where
  "start_of d = s_Start (d_Span d)"

text \<open>\<open>add\<close>: appended, or inserted in source order when it is earlier than the last one. The sort
  is stable, as \<open>sort.SliceStable\<close> is.\<close>

definition Parser_add :: "Diagnostic \<Rightarrow> 'x parser_scheme \<Rightarrow> 'x parser_scheme" where
  "Parser_add d p =
    (let d = fillOffset d p; items = ps_diags p in
     if items = [] \<or> start_of (last items) \<le> start_of d then p\<lparr>ps_diags := fst (Add items d)\<rparr>
     else p\<lparr>ps_diags := Add_all [] (sort_key start_of (items @ [d]))\<rparr>)"

definition errAborted :: goerror where
  "errAborted = OtherError (''list aborted at an enclosing list'' @ [CHR 0x27] @ ''s token'')"

definition otherError :: Message where
  "otherError = \<lparr>m_Code = 90000, m_Severity = Error, m_Kind = SyntaxError, m_Phase = PhaseParse, m_Text = ''%s''\<rparr>"

definition report :: "unicode_tables \<Rightarrow> goerror \<Rightarrow> 'x parser_scheme \<Rightarrow> 'x parser_scheme" where
  "report U err p =
    (if err = errAborted then p
     else (case scan_error p of
         Some d \<Rightarrow> if ps_scanReported p then p else Parser_add d (p\<lparr>ps_scanReported := True\<rparr>)
       | None \<Rightarrow>
           fold Parser_add (case As err of
               Some ds \<Rightarrow> ds
             | None \<Rightarrow> [New_diag U otherError \<lparr>s_File = '''', s_Pos = \<lparr>p_Line = 0, p_Col = 0\<rparr>, s_Start = - 1,
                 s_End = - 1\<rparr> [ArgStr (Error_text err)]]) p))"

section \<open>Resynchronising\<close>

text \<open>Whether the current token belongs to an enclosing list: the loop over the contexts.\<close>

primrec belongs_outside ::
    "unicode_tables \<Rightarrow> parsingContext \<Rightarrow> parsingContext list \<Rightarrow> 'x parser_scheme \<Rightarrow> bool \<times> 'x parser_scheme" where
  "belongs_outside U ctx [] p = (False, p)"
| "belongs_outside U ctx (c # cs) p =
    (if c \<noteq> ctx \<and> bit (ps_contexts p) (context_number c)
     then (let (e, p) = isListElement U c True p in
           if e then (True, p)
           else (let (e, p) = isListTerminator U c p in if e then (True, p) else belongs_outside U ctx cs p))
     else belongs_outside U ctx cs p)"

text \<open>The loop of \<open>recoverList\<close>: whether the list resumes (\<open>False\<close>: an enclosing list's token).\<close>

partial_function (option) resync ::
    "unicode_tables \<Rightarrow> parsingContext \<Rightarrow> 'x parser_scheme \<Rightarrow> (bool \<times> 'x parser_scheme) option" where
  "resync U ctx p =
    (let (e, p) = check U EOF p in
     if e then Some (True, p)
     else (let (e, p) = isListTerminator U ctx p in
       if e then Some (True, p)
       else (let (b, p) = atElementBoundary U p in
         (let (r, p) = (if b then (let (e, p) = isListElement U ctx True p in
                          if e then (Some True, p)
                          else (let (out, p) = belongs_outside U ctx all_contexts p in (if out then Some False else None, p)))
                        else (None, p))
          in case r of
               Some x \<Rightarrow> Some (x, p)
             | None \<Rightarrow> Option.bind (skipGroup U p) (resync U ctx)))))"

definition recoverList ::
    "unicode_tables \<Rightarrow> parsingContext \<Rightarrow> nat \<Rightarrow> goerror \<Rightarrow> ('x parser_scheme, unit) parse_action" where
  "recoverList U ctx start err p =
    (if 0 < ps_speculating p then (Inl (Rejected err), p)
     else (let p = report U err p;
               (stuck, p) = (if ps_pos p = start
                 then (let (e, p) = isListTerminator U ctx p in
                       if e then (False, p) else isListElement U ctx True p)
                 else (False, p))
           in case (if stuck then skipGroup U p else Some p) of
                None \<Rightarrow> (Inl Exhausted, p)
              | Some p \<Rightarrow>
                  (case resync U ctx p of
                     None \<Rightarrow> (Inl Exhausted, p)
                   | Some (True, p) \<Rightarrow> (Inr (), p)
                   | Some (False, p) \<Rightarrow> (Inl (Rejected errAborted), p))))"

text \<open>The statements of a list: \<open>n\<close> bounds the number of elements tried
  (\<open>RecoveryFacts.statement_list_ends\<close>: one for each token left is enough).\<close>

primrec statement_list ::
    "unicode_tables \<Rightarrow> ('x parser_scheme, 's) parse_action \<Rightarrow> ('s \<Rightarrow> ('x parser_scheme, unit) parse_action) \<Rightarrow>
     parsingContext \<Rightarrow> nat \<Rightarrow> ('x parser_scheme, unit) parse_action" where
  "statement_list U parseStatement add ctx 0 = refuse Exhausted"
| "statement_list U parseStatement add ctx (Suc n) = bind_action (always (isListTerminator U ctx)) (\<lambda>done p.
    (if done then (Inr (), p)
     else (let start = ps_pos p in
       case bind_action parseStatement add p of
         (Inr _, p) \<Rightarrow> statement_list U parseStatement add ctx n p
       | (Inl (Rejected err), p) \<Rightarrow>
           bind_action (recoverList U ctx start err) (\<lambda>_. statement_list U parseStatement add ctx n) p
       | (Inl e, p) \<Rightarrow> (Inl e, p))))"

definition parseStatementList ::
    "unicode_tables \<Rightarrow> ('x parser_scheme, 's) parse_action \<Rightarrow> ('s \<Rightarrow> ('x parser_scheme, unit) parse_action) \<Rightarrow>
     parsingContext \<Rightarrow> nat \<Rightarrow> ('x parser_scheme, unit) parse_action" where
  "parseStatementList U parseStatement add ctx n p =
    (let saved = ps_contexts p;
         (r, p) = statement_list U parseStatement add ctx n
           (p\<lparr>ps_contexts := set_bit (context_number ctx) (ps_contexts p)\<rparr>)
     in (r, p\<lparr>ps_contexts := saved\<rparr>))"

end
