(* ===== verification/RecoveryFacts.thy ===== *)
theory RecoveryFacts
  imports ParserFacts Recovery DiagProps
begin

text \<open>
  Error recovery ends: every token skipped takes text away, so the loops over tokens return, and
  a list makes progress with each element it tries. The diagnostics stay in source order.
\<close>

section \<open>How far tokens go\<close>

lemma lexer_after_pos:
  assumes "\<And>k. k < j \<Longrightarrow> t_Type (raw_token U src m k) \<noteq> EOF"
  shows "j \<le> l_pos (lexer_after U src m j)"
  using assms
proof (induction j)
  case (Suc j)
  obtain t l where s: "Scan U (m j) (lexer_after U src m j) = (t, l)" by fastforce
  have "t_Type t \<noteq> EOF" using Suc.prems [of j] s by (simp add: raw_token_def)
  then have "l_pos (lexer_after U src m j) < l_pos l"
    using Scan_postE [OF s] by (auto simp: scan_post_def)
  with Suc s show ?case by fastforce
qed simp

text \<open>Every token before the end of input takes a character.\<close>

lemma stream_bound:
  assumes "t_Type (stream_token U src m j) \<noteq> EOF"
  shows "j < length (runes_of src)"
proof -
  have "List.find (\<lambda>k. final (raw_token U src m k)) [0..<j] = None"
    using assms by (cases "List.find (\<lambda>k. final (raw_token U src m k)) [0..<j]") (simp_all add: stream_token_def closing_def)
  then have nf: "\<not> final (raw_token U src m k)" if "k < j" for k
    using that by (auto simp: find_None_iff)
  then have r: "stream_token U src m j = raw_token U src m j" by (rule stream_token_raw)
  have "Suc j \<le> l_pos (lexer_after U src m (Suc j))"
  proof (rule lexer_after_pos)
    fix k assume "k < Suc j"
    then show "t_Type (raw_token U src m k) \<noteq> EOF"
      using nf [of k] assms r by (cases "k = j") (auto simp: final_def)
  qed
  also have "\<dots> \<le> length (runes_of src)" using lexer_after_inv [of src U m "Suc j"] by (simp add: lexer_inv_def)
  finally show ?thesis by simp
qed

section \<open>Looking without moving\<close>

definition looked :: "'x parser_scheme \<Rightarrow> 'x parser_scheme \<Rightarrow> unicode_tables \<Rightarrow> bool" where
  "looked p q U \<longleftrightarrow>
    (\<exists>lx ts sts c d. q = p\<lparr>ps_lx := lx, ps_tokens := ts, ps_states := sts, ps_pendingDoc := c, ps_docAt := d\<rparr>)
    \<and> (\<forall>src m. stream_ok U src m p \<longrightarrow> stream_ok U src m q)"

lemma looked_refl [simp]: "looked p p U"
proof -
  have "p = p\<lparr>ps_lx := ps_lx p, ps_tokens := ps_tokens p, ps_states := ps_states p, ps_pendingDoc := ps_pendingDoc p,
    ps_docAt := ps_docAt p\<rparr>" by simp
  then show ?thesis unfolding looked_def by blast
qed

lemma looked_trans: "looked p q U \<Longrightarrow> looked q r U \<Longrightarrow> looked p r U"
proof -
  assume pq: "looked p q U" and qr: "looked q r U"
  obtain lx ts sts c d where q: "q = p\<lparr>ps_lx := lx, ps_tokens := ts, ps_states := sts, ps_pendingDoc := c, ps_docAt := d\<rparr>"
    using pq unfolding looked_def by blast
  obtain lx' ts' sts' c' d' where r: "r = q\<lparr>ps_lx := lx', ps_tokens := ts', ps_states := sts', ps_pendingDoc := c', ps_docAt := d'\<rparr>"
    using qr unfolding looked_def by blast
  have "r = p\<lparr>ps_lx := lx', ps_tokens := ts', ps_states := sts', ps_pendingDoc := c', ps_docAt := d'\<rparr>"
    unfolding r q by simp
  then show "looked p r U" using pq qr unfolding looked_def by blast
qed

lemma looked_fields:
  assumes "looked p q U"
  shows "ps_pos q = ps_pos p" "ps_inGen q = ps_inGen p" "ps_awaitCtx q = ps_awaitCtx p"
    "ps_contexts q = ps_contexts p" "ps_diags q = ps_diags p"
  using assms unfolding looked_def by auto

lemma looked_stream: "looked p q U \<Longrightarrow> stream_ok U src m p \<Longrightarrow> stream_ok U src m q"
  by (simp add: looked_def)

lemma looked_at: "Parser_at U i p = (t, q) \<Longrightarrow> looked p q U"
proof -
  assume a: "Parser_at U i p = (t, q)"
  obtain lx ts sts where "q = p\<lparr>ps_lx := lx, ps_tokens := ts, ps_states := sts\<rparr>"
    using Parser_at_frame [of U i p] a by auto
  then have "q = p\<lparr>ps_lx := lx, ps_tokens := ts, ps_states := sts, ps_pendingDoc := ps_pendingDoc p, ps_docAt := ps_docAt p\<rparr>"
    by simp
  then show ?thesis using at_token(2) [OF _ a] unfolding looked_def by blast
qed

lemma looked_peek: "Parser_peek U p = (t, q) \<Longrightarrow> looked p q U"
  using Parser_peek_frame [of U p] peek_token(1) [of U _ _ p t q] unfolding looked_def by auto

definition peek_value :: "unicode_tables \<Rightarrow> string \<Rightarrow> (nat \<Rightarrow> ScanMode) \<Rightarrow> bool \<Rightarrow> awaitCtx \<Rightarrow> nat \<Rightarrow> Token" where
  "peek_value U src m gen ctx i =
    (let t = stream_token U src m i;
         t = (if t_Type t = YIELD \<and> \<not> gen then t\<lparr>t_Type := IDENT\<rparr> else t)
     in if t_Type t = AWAIT \<and> (ctx = awaitFn \<or> ctx = awaitTop) \<and> \<not> startsOperand (t_Type (stream_token U src m (i + 1)))
        then t\<lparr>t_Type := IDENT\<rparr> else t)"

text \<open>What \<open>peek\<close> gives depends on the stream, the position and two flags only.\<close>

lemma peek_value:
  assumes "stream_ok U src m p"
  shows "fst (Parser_peek U p) = peek_value U src m (ps_inGen p) (ps_awaitCtx p) (ps_pos p)"
proof -
  obtain t0 p0 where r: "Parser_at U (ps_pos p) p = (t0, p0)" by fastforce
  note a = at_token [OF assms r]
  have f: "ps_inGen p0 = ps_inGen p" "ps_awaitCtx p0 = ps_awaitCtx p"
    using looked_fields [OF looked_at [OF r]] by simp_all
  obtain t1 p1 where q: "Parser_at U (Suc (ps_pos p)) p0 = (t1, p1)" by fastforce
  note b = at_token [OF a(2) q]
  show ?thesis
    using q by (simp add: Parser_peek_def peek_value_def awaitIsIdent_def Let_def r f a(1,4) b(1))
qed

lemma peek_value_EOF: "t_Type (peek_value U src m gen ctx i) = EOF \<longleftrightarrow> t_Type (stream_token U src m i) = EOF"
  by (simp add: peek_value_def Let_def)

text \<open>The token types that are not a name, seen through \<open>looked\<close>.\<close>

definition here :: "unicode_tables \<Rightarrow> string \<Rightarrow> (nat \<Rightarrow> ScanMode) \<Rightarrow> 'x parser_scheme \<Rightarrow> Token" where
  "here U src m p = peek_value U src m (ps_inGen p) (ps_awaitCtx p) (ps_pos p)"

lemma here_looked: "looked p q U \<Longrightarrow> here U src m q = here U src m p"
  by (simp add: here_def looked_fields)

lemma peek_here:
  assumes "stream_ok U src m p" "Parser_peek U p = (t, q)"
  shows "t = here U src m p" "looked p q U" "stream_ok U src m q" "here U src m q = here U src m p"
  using peek_value [OF assms(1)] looked_peek [OF assms(2)] looked_stream [OF _ assms(1)] here_looked assms(2)
  by (auto simp: here_def)

section \<open>The questions of recovery\<close>

lemma question_looked:
  "check U typ p = (b, q) \<Longrightarrow> looked p q U"
  "isListTerminator U ctx p = (b, q) \<Longrightarrow> looked p q U"
  "isListElement U ctx rec p = (b, q) \<Longrightarrow> looked p q U"
  "atElementBoundary U p = (b, q) \<Longrightarrow> looked p q U"
  by (auto simp: check_def isListTerminator_def isListElement_def atElementBoundary_def Let_def split: prod.splits if_splits
      intro: looked_peek looked_at looked_trans)

lemma belongs_looked: "belongs_outside U ctx cs p = (b, q) \<Longrightarrow> looked p q U"
proof (induction cs arbitrary: p)
  case (Cons c cs)
  show ?case
  proof (cases "c \<noteq> ctx \<and> bit (ps_contexts p) (context_number c)")
    case True
    obtain e p1 where e: "isListElement U c True p = (e, p1)" by fastforce
    obtain f p2 where f: "isListTerminator U c p1 = (f, p2)" by fastforce
    have "looked p p1 U" "looked p1 p2 U" using question_looked e f by blast+
    then show ?thesis
      using Cons True e f looked_trans by (auto split: if_splits)
  qed (use Cons in auto)
qed simp

lemma question_value:
  assumes "stream_ok U src m p"
  shows "check U typ p = (b, q) \<Longrightarrow> b \<longleftrightarrow> t_Type (here U src m p) = typ"
    "isListTerminator U ctx p = (b, q) \<Longrightarrow> b \<longleftrightarrow> ends_list ctx (t_Type (here U src m p))"
    "isListElement U ctx rec p = (b, q) \<Longrightarrow> b \<longleftrightarrow> starts_element ctx rec (t_Type (here U src m p))"
  using peek_value [OF assms]
  by (auto simp: check_def isListTerminator_def isListElement_def here_def Let_def split: prod.splits)

lemma here_EOF: "t_Type (here U src m p) \<noteq> EOF \<Longrightarrow> ps_pos p < length (runes_of src)"
  using stream_bound by (simp add: here_def peek_value_EOF)

section \<open>Skipping returns\<close>

definition same_flags :: "'x parser_scheme \<Rightarrow> 'x parser_scheme \<Rightarrow> bool" where
  "same_flags p q \<longleftrightarrow> ps_inGen q = ps_inGen p \<and> ps_awaitCtx q = ps_awaitCtx p \<and> ps_contexts q = ps_contexts p
    \<and> ps_diags q = ps_diags p"

lemma same_flags_refl [simp]: "same_flags p p"
  by (simp add: same_flags_def)

lemma same_flags_trans: "same_flags p q \<Longrightarrow> same_flags q r \<Longrightarrow> same_flags p r"
  by (simp add: same_flags_def)

lemma looked_flags: "looked p q U \<Longrightarrow> same_flags p q"
  by (simp add: same_flags_def looked_fields)

lemma advance_here:
  assumes "stream_ok U src m p" "Parser_advance U p = (t, q)"
  shows "t = here U src m p" "stream_ok U src m q" "ps_pos q = ps_pos p + 1" "same_flags p q"
proof -
  obtain t' q' where k: "Parser_peek U p = (t', q')" by fastforce
  note h = peek_here [OF assms(1) k]
  have "t = t'" "q = q'\<lparr>ps_pos := ps_pos p + 1\<rparr>"
    using assms(2) k looked_fields(1) [OF h(2)] by (simp_all add: Parser_advance_def)
  with h looked_flags [OF h(2)] show "t = here U src m p" "stream_ok U src m q" "ps_pos q = ps_pos p + 1" "same_flags p q"
    by (simp_all add: same_flags_def)
qed

text \<open>\<open>skipGroup\<close> returns and takes at least a token.\<close>

lemma skip_group_returns:
  assumes "stream_ok U src m p"
  shows "\<exists>q. skip_group_loop U depth p = Some q \<and> stream_ok U src m q \<and> ps_pos p < ps_pos q \<and> same_flags p q"
  using assms
proof (induction "length (runes_of src) - ps_pos p" arbitrary: p depth rule: less_induct)
  case less
  obtain t p1 where a: "Parser_advance U p = (t, p1)" by fastforce
  note h = advance_here [OF less.prems a]
  let ?d = "bracket_step (t_Type t) depth"
  obtain e p2 where e: "check U EOF p1 = (e, p2)" by fastforce
  have l: "looked p1 p2 U" using question_looked(1) [OF e] .
  have p2: "stream_ok U src m p2" "ps_pos p2 = ps_pos p + 1" "same_flags p p2"
    using looked_stream [OF l h(2)] looked_fields(1) [OF l] h(3) same_flags_trans [OF h(4) looked_flags [OF l]] by simp_all
  show ?case
  proof (cases "t_Type t = EOF \<or> ?d \<le> 0 \<or> e")
    case True
    then have "skip_group_loop U depth p = Some (if t_Type t = EOF \<or> ?d \<le> 0 then p1 else p2)"
      by (subst skip_group_loop.simps) (auto simp: a e Let_def)
    then show ?thesis using h p2 by (cases "t_Type t = EOF \<or> ?d \<le> 0") auto
  next
    case False
    then have s: "skip_group_loop U depth p = skip_group_loop U ?d p2"
      by (subst skip_group_loop.simps) (simp add: a e Let_def)
    have "ps_pos p < length (runes_of src)" using here_EOF [of U src m p] False h(1) by simp
    then have "length (runes_of src) - ps_pos p2 < length (runes_of src) - ps_pos p" using p2(2) by simp
    from less.hyps [OF this p2(1), of ?d]
    obtain q where "skip_group_loop U ?d p2 = Some q" "stream_ok U src m q" "ps_pos p2 < ps_pos q" "same_flags p2 q"
      by blast
    then show ?thesis using s p2 same_flags_trans by (metis Suc_eq_plus1 Suc_lessD)
  qed
qed

lemmas skipGroup_returns = skip_group_returns [of _ _ _ _ 0, folded skipGroup_def]

section \<open>Resynchronising returns\<close>

lemma resync_returns:
  assumes "stream_ok U src m p"
  shows "\<exists>b q. resync U ctx p = Some (b, q) \<and> stream_ok U src m q \<and> same_flags p q \<and> ps_pos p \<le> ps_pos q
    \<and> (b \<longrightarrow> ends_list ctx (t_Type (here U src m q)) \<or> starts_element ctx True (t_Type (here U src m q)))"
  using assms
proof (induction "length (runes_of src) - ps_pos p" arbitrary: p rule: less_induct)
  case less
  obtain e p1 where e: "check U EOF p = (e, p1)" by fastforce
  obtain f p2 where f: "isListTerminator U ctx p1 = (f, p2)" by fastforce
  obtain g p3 where g: "atElementBoundary U p2 = (g, p3)" by fastforce
  obtain i p4 where i: "isListElement U ctx True p3 = (i, p4)" by fastforce
  obtain out p5 where out: "belongs_outside U ctx all_contexts p4 = (out, p5)" by fastforce
  have l1: "looked p p1 U" using question_looked(1) [OF e] .
  have l2: "looked p p2 U" using looked_trans [OF l1 question_looked(2) [OF f]] .
  have l3: "looked p p3 U" using looked_trans [OF l2 question_looked(4) [OF g]] .
  have l4: "looked p p4 U" using looked_trans [OF l3 question_looked(3) [OF i]] .
  have l5: "looked p p5 U" using looked_trans [OF l4 belongs_looked [OF out]] .
  note at = looked_stream [OF _ less.prems] and hl = here_looked
  have ev: "e \<longleftrightarrow> t_Type (here U src m p) = EOF" using question_value(1) [OF less.prems e] .
  have fv: "f \<longleftrightarrow> ends_list ctx (t_Type (here U src m p))" using question_value(2) [OF at [OF l1] f] hl [OF l1] by simp
  have iv: "i \<longleftrightarrow> starts_element ctx True (t_Type (here U src m p))"
    using question_value(3) [OF at [OF l3] i] hl [OF l3] by simp
  have fin: ?case if "resync U ctx p = Some (b, q)" "looked p q U"
      "b \<longrightarrow> ends_list ctx (t_Type (here U src m p)) \<or> starts_element ctx True (t_Type (here U src m p))" for b q
    using that at [OF that(2)] looked_flags [OF that(2)] looked_fields(1) [OF that(2)] hl [OF that(2)] by auto
  consider (eof) "e" | (term_here) "\<not> e" "f" | (elem) "\<not> e" "\<not> f" "g" "i" | (outer) "\<not> e" "\<not> f" "g" "\<not> i" "out"
    | (skip) "\<not> e" "\<not> f" "\<not> (g \<and> (i \<or> out))" by blast
  then show ?case
  proof cases
    case eof
    then show ?thesis using ev by (intro fin [OF _ l1]) (subst resync.simps, simp_all add: e ends_list_def)
  next
    case term_here
    then show ?thesis using fv by (intro fin [OF _ l2]) (subst resync.simps, simp_all add: e f)
  next
    case elem
    then show ?thesis using iv by (intro fin [OF _ l4]) (subst resync.simps, simp_all add: e f g i)
  next
    case outer
    then show ?thesis by (intro fin [OF _ l5, of False]) (subst resync.simps, simp_all add: e f g i out)
  next
    case skip
    define q where "q = (if g then p5 else p3)"
    have lq: "looked p q U" using l3 l5 by (simp add: q_def)
    have "resync U ctx p = Option.bind (skipGroup U q) (resync U ctx)"
      using skip by (subst resync.simps) (auto simp: e f g i out q_def Let_def)
    moreover obtain q' where q': "skipGroup U q = Some q'" "stream_ok U src m q'" "ps_pos q < ps_pos q'" "same_flags q q'"
      using skipGroup_returns [OF at [OF lq]] by blast
    ultimately have r: "resync U ctx p = resync U ctx q'" by simp
    have p: "ps_pos p < ps_pos q'" "same_flags p q'"
      using q'(3,4) looked_fields(1) [OF lq] looked_flags [OF lq] same_flags_trans by simp_all
    have "ps_pos p < length (runes_of src)" using here_EOF [of U src m p] skip(1) ev by simp
    with p have "length (runes_of src) - ps_pos q' < length (runes_of src) - ps_pos p" by simp
    from less.hyps [OF this q'(2)] obtain b q2 where
      "resync U ctx q' = Some (b, q2)" "stream_ok U src m q2" "same_flags q' q2" "ps_pos q' \<le> ps_pos q2"
      "b \<longrightarrow> ends_list ctx (t_Type (here U src m q2)) \<or> starts_element ctx True (t_Type (here U src m q2))"
      by blast
    moreover from this have "ps_pos p \<le> ps_pos q2" "same_flags p q2"
      using p same_flags_trans [of p q' q2] by simp_all
    ultimately show ?thesis unfolding r by blast
  qed
qed

section \<open>A list recovers\<close>

lemma add_frame:
  "stream_ok U src m (Parser_add d p) = stream_ok U src m p" "ps_pos (Parser_add d p) = ps_pos p"
  "ps_inGen (Parser_add d p) = ps_inGen p" "ps_awaitCtx (Parser_add d p) = ps_awaitCtx p"
  "ps_contexts (Parser_add d p) = ps_contexts p" "ps_lx (Parser_add d p) = ps_lx p"
  by (simp_all add: Parser_add_def Let_def)

lemma add_all_frame:
  "stream_ok U src m (fold Parser_add ds p) = stream_ok U src m p" "ps_pos (fold Parser_add ds p) = ps_pos p"
  "ps_inGen (fold Parser_add ds p) = ps_inGen p" "ps_awaitCtx (fold Parser_add ds p) = ps_awaitCtx p"
  "ps_contexts (fold Parser_add ds p) = ps_contexts p"
  by (induction ds arbitrary: p) (simp_all add: add_frame)

lemma report_stream:
  "stream_ok U src m (report U err p) = stream_ok U src m p" "ps_pos (report U err p) = ps_pos p"
  "ps_inGen (report U err p) = ps_inGen p" "ps_awaitCtx (report U err p) = ps_awaitCtx p"
  "ps_contexts (report U err p) = ps_contexts p"
  by (simp_all add: report_def add_frame add_all_frame split: option.split)

text \<open>After recovery the list has moved on, or stands at its end.\<close>

lemma recoverList_moves:
  assumes ok: "stream_ok U src m p" and start: "start \<le> ps_pos p" and r: "recoverList U ctx start err p = (r, q)"
  shows "r \<in> {Inr (), Inl (Rejected err), Inl (Rejected errAborted)} \<and> stream_ok U src m q \<and> start \<le> ps_pos q
    \<and> (r = Inr () \<longrightarrow> start < ps_pos q \<or> ends_list ctx (t_Type (here U src m q)))"
proof (cases "0 < ps_speculating p")
  case True
  then show ?thesis using ok start r by (auto simp: recoverList_def)
next
  case False
  define p0 where "p0 = report U err p"
  have p0: "stream_ok U src m p0" "ps_pos p0 = ps_pos p" using ok by (simp_all add: p0_def report_stream)
  obtain e p1 where e: "isListTerminator U ctx p0 = (e, p1)" by fastforce
  obtain i p2 where i: "isListElement U ctx True p1 = (i, p2)" by fastforce
  have l1: "looked p0 p1 U" using question_looked(2) [OF e] .
  have l2: "looked p0 p2 U" using looked_trans [OF l1 question_looked(3) [OF i]] .
  have ev: "e \<longleftrightarrow> ends_list ctx (t_Type (here U src m p0))" using question_value(2) [OF p0(1) e] .
  have iv: "i \<longleftrightarrow> starts_element ctx True (t_Type (here U src m p0))"
    using question_value(3) [OF looked_stream [OF l1 p0(1)] i] here_looked [OF l1] by simp
  define stuck where "stuck \<longleftrightarrow> ps_pos p = start \<and> \<not> e \<and> i"
  define p3 where "p3 = (if ps_pos p = start then if e then p1 else p2 else p0)"
  have l3: "looked p0 p3 U" using l1 l2 by (simp add: p3_def)
  have s3: "stream_ok U src m p3" "ps_pos p3 = ps_pos p" using looked_stream [OF l3 p0(1)] looked_fields(1) [OF l3] p0(2) by simp_all
  have "\<exists>p4. (if stuck then skipGroup U p3 else Some p3) = Some p4 \<and> stream_ok U src m p4 \<and> same_flags p3 p4
      \<and> ps_pos p3 \<le> ps_pos p4 \<and> (stuck \<longrightarrow> ps_pos p3 < ps_pos p4)"
    using skipGroup_returns [OF s3(1)] s3 by (auto intro: less_imp_le)
  then obtain p4 where p4: "(if stuck then skipGroup U p3 else Some p3) = Some p4" "stream_ok U src m p4" "same_flags p3 p4"
    "ps_pos p3 \<le> ps_pos p4" "stuck \<longrightarrow> ps_pos p3 < ps_pos p4" by blast
  obtain b p5 where p5: "resync U ctx p4 = Some (b, p5)" "stream_ok U src m p5" "same_flags p4 p5" "ps_pos p4 \<le> ps_pos p5"
    "b \<longrightarrow> ends_list ctx (t_Type (here U src m p5)) \<or> starts_element ctx True (t_Type (here U src m p5))"
    using resync_returns [OF p4(2)] by blast
  have "(if ps_pos p0 = start then let (e, p) = isListTerminator U ctx p0 in if e then (False, p) else isListElement U ctx True p
      else (False, p0)) = (stuck, p3)"
    using p0(2) by (auto simp: e i stuck_def p3_def)
  then have "recoverList U ctx start err p = (if b then Inr () else Inl (Rejected errAborted), p5)"
    using False p4(1) p5(1) unfolding recoverList_def p0_def [symmetric] Let_def by (auto split: if_splits)
  moreover have "start < ps_pos p5 \<or> ends_list ctx (t_Type (here U src m p5))" if "b"
  proof (cases "ps_pos p5 = start")
    case True
    then have pos: "ps_pos p = start" "ps_pos p5 = ps_pos p0" "\<not> stuck" using start p4(4,5) p5(4) s3(2) p0(2) by auto
    have "same_flags p0 p5" using looked_flags [OF l3] p4(3) p5(3) same_flags_trans by blast
    then have "here U src m p5 = here U src m p0" using pos(2) by (simp add: here_def same_flags_def)
    then show ?thesis using p5(5) that pos(1,3) ev iv by (auto simp: stuck_def)
  qed (use start p4(4) p5(4) s3(2) in simp)
  ultimately show ?thesis using r start p4(4) p5(2,4) s3(2) by (auto split: if_splits)
qed

section \<open>The whole list\<close>

text \<open>What a list relies on of the parse of an element: it reads on, takes a token when it
  succeeds, and its own recursion does not run out.\<close>

definition progressive :: "unicode_tables \<Rightarrow> string \<Rightarrow> ('x parser_scheme, 'a) parse_action \<Rightarrow> bool" where
  "progressive U src act \<longleftrightarrow>
    (\<forall>p m. stream_ok U src m p \<longrightarrow>
      (case act p of (r, q) \<Rightarrow> (\<exists>m'. stream_ok U src m' q) \<and> ps_pos p \<le> ps_pos q
        \<and> (\<forall>x. r = Inr x \<longrightarrow> ps_pos p < ps_pos q) \<and> r \<noteq> Inl Exhausted))"

lemma progressiveD:
  assumes "progressive U src act" "stream_ok U src m p" "act p = (r, q)"
  shows "\<exists>m'. stream_ok U src m' q" "ps_pos p \<le> ps_pos q" "r = Inr x \<Longrightarrow> ps_pos p < ps_pos q" "r \<noteq> Inl Exhausted"
  using assms unfolding progressive_def by fastforce+

lemma statement_list_ends:
  assumes act: "progressive U src (bind_action parseStatement add)"
  shows "stream_ok U src m p \<Longrightarrow> 0 < n \<Longrightarrow>
    length (runes_of src) < ps_pos p + n \<or> ends_list ctx (t_Type (here U src m p)) \<Longrightarrow>
    statement_list U parseStatement add ctx n p = (r, q) \<Longrightarrow>
    r \<noteq> Inl Exhausted \<and> (\<exists>m'. stream_ok U src m' q \<and> (r = Inr () \<longrightarrow> ends_list ctx (t_Type (here U src m' q))))"
proof (induction n arbitrary: m p)
  case (Suc n)
  obtain e p1 where e: "isListTerminator U ctx p = (e, p1)" by fastforce
  have l: "looked p p1 U" using question_looked(2) [OF e] .
  have p1: "stream_ok U src m p1" "ps_pos p1 = ps_pos p" "here U src m p1 = here U src m p"
    using looked_stream [OF l Suc.prems(1)] looked_fields(1) [OF l] here_looked [OF l] by simp_all
  have ev: "e \<longleftrightarrow> ends_list ctx (t_Type (here U src m p))" using question_value(2) [OF Suc.prems(1) e] .
  show ?case
  proof (cases e)
    case True
    then have "r = Inr ()" "q = p1" using Suc.prems(4) by (simp_all add: bind_always e)
    with p1 True ev show ?thesis by auto
  next
    case False
    have "t_Type (here U src m p) \<noteq> EOF" using False ev by (auto simp: ends_list_def)
    then have in_text: "ps_pos p < length (runes_of src)" by (rule here_EOF)
    have n: "length (runes_of src) < ps_pos p + Suc n" using Suc.prems(3) False ev by blast
    obtain x p2 where x: "bind_action parseStatement add p1 = (x, p2)" by fastforce
    note a = progressiveD [OF act p1(1) x]
    obtain m2 where m2: "stream_ok U src m2 p2" using a(1) by blast
    consider (ok) u where "x = Inr u" | (err) err where "x = Inl (Rejected err)" | (bad) f where "x = Inl f" "\<forall>err. f \<noteq> Rejected err"
      by (cases x) auto
    then show ?thesis
    proof cases
      case ok
      then have s: "statement_list U parseStatement add ctx n p2 = (r, q)"
        using Suc.prems(4) False x by (simp add: bind_always e)
      show ?thesis using Suc.IH [OF m2 _ _ s] a(3) [OF ok] n in_text p1(2) by simp
    next
      case err
      obtain y p3 where y: "recoverList U ctx (ps_pos p1) err p2 = (y, p3)" by fastforce
      note rc = recoverList_moves [OF m2 a(2) y]
      show ?thesis
      proof (cases "y = Inr ()")
        case True
        then have s: "statement_list U parseStatement add ctx n p3 = (r, q)"
          using Suc.prems(4) False x err bind_result(1) [where m = "recoverList U ctx (ps_pos p1) err" and f = "\<lambda>_. statement_list U parseStatement add ctx n", OF y [unfolded True]] by (simp add: bind_always e)
        have "0 < n" using n in_text by simp
        then show ?thesis using Suc.IH [OF _ _ _ s, of m2] rc True n p1(2) by auto
      next
        case False
        then obtain f where f: "y = Inl f" using rc by auto
        have "r = y" "q = p3"
          using Suc.prems(4) \<open>\<not> e\<close> x err bind_result(2) [where m = "recoverList U ctx (ps_pos p1) err" and f = "\<lambda>_. statement_list U parseStatement add ctx n", OF y [unfolded f]] f by (simp_all add: bind_always e)
        then show ?thesis using rc False by auto
      qed
    next
      case bad
      then have "r = Inl f" "q = p2"
        using Suc.prems(4) False x by (cases f; simp add: bind_always e)+
      then show ?thesis using bad a(4) m2 by auto
    qed
  qed
qed simp

section \<open>The diagnostics in order\<close>

definition in_order :: "Diagnostic list \<Rightarrow> bool" where
  "in_order ds \<longleftrightarrow> sorted (map start_of ds) \<and> distinct_adj (map place ds)"

lemma place_fillOffset [simp]: "place (fillOffset d p) = place d"
  by (simp add: fillOffset_def place_def Let_def)

lemma sorted_subseq: "subseq xs ys \<Longrightarrow> sorted (map f ys) \<Longrightarrow> sorted (map f xs)"
  by (auto simp: subseq_conv_nths nths_map [symmetric] intro: sorted_nths)

lemma Add_in_order:
  assumes "in_order ds" "ds = [] \<or> start_of (last ds) \<le> start_of d"
  shows "in_order (fst (Add ds d)) \<and> place ` set (fst (Add ds d)) = insert (place d) (place ` set ds)"
proof (cases "ds \<noteq> [] \<and> place (last ds) = place d")
  case True
  then have "place d \<in> place ` set ds" by (metis image_eqI last_in_set)
  with True assms show ?thesis by (auto simp: Add_place)
next
  case False
  have "start_of x \<le> start_of d" if x: "x \<in> set ds" for x
  proof -
    obtain i where i: "i < length ds" "ds ! i = x" using x unfolding in_set_conv_nth by blast
    have "map start_of ds ! i \<le> map start_of ds ! (length ds - 1)"
      using assms(1) i(1) unfolding in_order_def by (intro sorted_nth_mono) auto
    then have "start_of x \<le> start_of (last ds)"
      using i by (cases "ds = []") (simp_all add: last_conv_nth)
    with assms(2) x show ?thesis by auto
  qed
  then have "sorted (map start_of (ds @ [d]))" using assms(1) by (auto simp: in_order_def sorted_append)
  moreover have "distinct_adj (map place (ds @ [d]))"
    using False assms(1) by (auto simp: in_order_def distinct_adj_append_iff last_map)
  ultimately show ?thesis using False by (auto simp: Add_place in_order_def)
qed

lemma Parser_add_in_order:
  assumes "in_order (ps_diags p)"
  shows "in_order (ps_diags (Parser_add d p)) \<and> place ` set (ps_diags (Parser_add d p)) = insert (place d) (place ` set (ps_diags p))"
proof (cases "ps_diags p = [] \<or> start_of (last (ps_diags p)) \<le> start_of (fillOffset d p)")
  case True
  then show ?thesis using Add_in_order [OF assms, of "fillOffset d p"] by (auto simp: Parser_add_def Let_def)
next
  case False
  let ?xs = "sort_key start_of (ps_diags p @ [fillOffset d p])"
  have "sorted (map start_of (Add_all [] ?xs))"
    using Add_all_kept [of ?xs] sorted_subseq [of "Add_all [] ?xs" ?xs start_of] by (simp del: sort_key_simps set_sort)
  moreover have "distinct_adj (map place (Add_all [] ?xs))" "place ` set (Add_all [] ?xs) = insert (place d) (place ` set (ps_diags p))"
    using Add_all_kept [of ?xs] by auto
  ultimately show ?thesis using False by (auto simp: Parser_add_def Let_def in_order_def)
qed

lemma add_all_in_order:
  "in_order (ps_diags p) \<Longrightarrow> in_order (ps_diags (fold Parser_add ds p))
    \<and> place ` set (ps_diags (fold Parser_add ds p)) = place ` set ds \<union> place ` set (ps_diags p)"
proof (induction ds arbitrary: p)
  case (Cons d ds)
  then show ?case using Parser_add_in_order [OF Cons.prems, of d] by auto
qed simp

end
