(* ===== verification/Ast.thy ===== *)
theory Ast
  imports Diag
begin

text \<open>
  The expression nodes of \<open>ast/nodes.go\<close> the parser of expressions builds and inspects. The Go
  nodes are pointers, which the parser compares (\<open>bareArrow\<close>), collects (\<open>parenLiterals\<close>) and
  uses as map keys (\<open>assertions\<close>): an expression here is an address, a position (\<open>GetPos\<close>) and
  its node. What the other files' productions build (types, blocks, declarations) is a value of
  the type \<open>'a\<close>.
\<close>

section \<open>Nodes\<close>

datatype (plugins only: code size) 'e property =
  Property (Key: string) (KeyExpr: "'e option") (Value: "'e") (AccessorKind: string) (CoverInit: bool) (Shorthand: bool)

text \<open>The fields are the Go structs', in their order, but for these. A null literal has
  \<open>IsUndefined\<close>, \<open>Void\<close>, \<open>Elision\<close>; a unary operator is always a prefix; a member or an index ends
  with \<open>Optional\<close>, \<open>ChainEnd\<close>; a call has its callee, arguments, \<open>Source\<close>, type arguments, asserted
  type, \<open>Optional\<close> and \<open>ChainEnd\<close>; a \<open>new\<close> has the class name, the names that qualify it (none:
  \<open>Qualified\<close> is false, else \<open>Qualifier\<close> is the last), callee, type arguments and arguments; an
  arrow has its parameters, its body or block and its source range; a class its declaration and
  source range; a function its name, the rest of it and \<open>IsGenerator\<close>.\<close>

datatype (plugins only: code size) ('a, 'e) node =
  Identifier string
| NumberLiteral string bool
| StringLiteral string
| BooleanLiteral bool
| NullLiteral bool bool bool
| TemplateLiteral "string list" "'e list"
| TaggedTemplateExpression 'e "string list" "string list" "'e list" "'a list"
| NewRegExpExpression 'e 'e
| ThisExpression
| SuperExpression
| NewTargetExpression
| ArrayLiteral "'e list" bool
| ObjectLiteral "'e property list" bool
| SpreadElement 'e
| SequenceExpression "'e list"
| UnaryExpression string 'e
| UpdateExpression string bool 'e
| BinaryExpression string 'e 'e
| AssignmentExpression string 'e 'e
| ConditionalExpression 'e 'e 'e
| YieldExpression "'e option" bool
| AwaitExpression 'e
| AsExpression 'e 'a
| NonNullExpression 'e
| MemberExpression 'e string bool bool
| IndexExpression 'e 'e bool bool
| CallExpression 'e "'e list" string "'a list" "'a option" bool bool
| NewExpression string "string list" "'e option" "'a list" "'e list"
| ArrowFunction "(string \<times> Pos) list" "'e + 'a" "(nat \<times> nat) option"
| ClassExpression 'a "(nat \<times> nat) option"
| FunctionExpression string 'a bool
| OtherExpression 'a

datatype (plugins only: code size) 'a expr = Expr (ref: nat) (GetPos: Pos) (node_of: "('a, 'a expr) node")

section \<open>Assignment targets\<close>

text \<open>\<open>inChain\<close>: the object or callee of each step is the next expression of the loop.\<close>

fun inChain :: "'a expr \<Rightarrow> bool" where
  "inChain (Expr _ _ n) =
    (case n of
       MemberExpression obj _ opt ce \<Rightarrow> if opt then True else if ce then False else inChain obj
     | IndexExpression obj _ opt ce \<Rightarrow> if opt then True else if ce then False else inChain obj
     | CallExpression callee _ _ _ _ opt ce \<Rightarrow> if opt then True else if ce then False else inChain callee
     | _ \<Rightarrow> False)"

text \<open>The properties of an object pattern: a rest property is last, and a plain target.\<close>

definition rest_target :: "'a expr \<Rightarrow> bool" where
  "rest_target e =
    (case node_of e of Identifier _ \<Rightarrow> True | MemberExpression _ _ _ _ \<Rightarrow> True | IndexExpression _ _ _ _ \<Rightarrow> True | _ \<Rightarrow> False)"

fun object_targets :: "'a expr property list \<Rightarrow> bool" where
  "object_targets [] \<longleftrightarrow> True"
| "object_targets (p # ps) \<longleftrightarrow>
    (case node_of (Value p) of
       SpreadElement arg \<Rightarrow> if Key p = '''' \<and> KeyExpr p = None then rest_target arg \<and> ps = [] else object_targets ps
     | _ \<Rightarrow> object_targets ps)"

text \<open>\<open>assignTarget\<close>, and its loop over an array pattern's elements.\<close>

fun assignTarget :: "'a expr \<Rightarrow> bool \<Rightarrow> bool" and array_targets :: "'a expr list \<Rightarrow> bool" where
  "assignTarget (Expr _ _ n) pattern =
    (case n of
       Identifier _ \<Rightarrow> True
     | NullLiteral undef _ _ \<Rightarrow> undef
     | MemberExpression obj _ opt _ \<Rightarrow> \<not> opt \<and> \<not> inChain obj
     | IndexExpression obj _ opt _ \<Rightarrow> \<not> opt \<and> \<not> inChain obj
     | NonNullExpression arg \<Rightarrow> assignTarget arg pattern
     | AsExpression e _ \<Rightarrow> assignTarget e pattern
     | CallExpression _ _ _ _ _ opt _ \<Rightarrow> \<not> opt
     | ArrayLiteral els trailing \<Rightarrow> if \<not> pattern \<or> trailing then False else array_targets els
     | ObjectLiteral props trailing \<Rightarrow> if \<not> pattern \<or> trailing then False else object_targets props
     | _ \<Rightarrow> False)"
| "array_targets [] = True"
| "array_targets (Expr r s n # els) =
    (case n of
       SpreadElement (Expr r' s' m) \<Rightarrow>
         (case m of
            AssignmentExpression _ _ _ \<Rightarrow> False
          | _ \<Rightarrow> if els \<noteq> [] \<or> \<not> assignTarget (Expr r' s' m) True then False else array_targets els)
     | AssignmentExpression op l _ \<Rightarrow> if op \<noteq> ''='' \<or> \<not> assignTarget l True then False else array_targets els
     | _ \<Rightarrow> if \<not> assignTarget (Expr r s n) True then False else array_targets els)"

section \<open>Asserted types\<close>

text \<open>\<open>assertableCall\<close>, with the type the caller then stores in the call it gives: the same
  expression with the call's \<open>AssertedType\<close> set, \<open>None\<close> when there is no such call.\<close>

definition json_call :: "'a expr \<Rightarrow> bool" where
  "json_call callee =
    (case node_of callee of
       MemberExpression obj property _ _ \<Rightarrow>
         (case node_of obj of Identifier name \<Rightarrow> name = ''JSON'' \<and> property = ''parse'' | _ \<Rightarrow> False) \<or> property = ''json''
     | _ \<Rightarrow> False)"

definition assert_call :: "'a expr \<Rightarrow> 'a \<Rightarrow> 'a expr option" where
  "assert_call e ta =
    (case node_of e of
       CallExpression callee args src targs _ opt ce \<Rightarrow>
         if json_call callee
         then Some (Expr (ref e) (GetPos e) (CallExpression callee args src targs (Some ta) opt ce)) else None
     | _ \<Rightarrow> None)"

definition assertableCall :: "'a expr \<Rightarrow> 'a \<Rightarrow> 'a expr option" where
  "assertableCall e ta =
    (case node_of e of
       AwaitExpression arg \<Rightarrow> map_option (\<lambda>arg. Expr (ref e) (GetPos e) (AwaitExpression arg)) (assert_call arg ta)
     | _ \<Rightarrow> assert_call e ta)"

text \<open>Parentheses end an optional chain.\<close>

definition end_chain :: "'a expr \<Rightarrow> 'a expr" where
  "end_chain e =
    (case node_of e of
       MemberExpression obj property opt _ \<Rightarrow> Expr (ref e) (GetPos e) (MemberExpression obj property opt True)
     | IndexExpression obj index opt _ \<Rightarrow> Expr (ref e) (GetPos e) (IndexExpression obj index opt True)
     | CallExpression callee args src targs ta opt _ \<Rightarrow>
         Expr (ref e) (GetPos e) (CallExpression callee args src targs ta opt True)
     | _ \<Rightarrow> e)"

end
