(* ===== verification/Lookahead.thy ===== *)
theory Lookahead
  imports ParserState Ast
begin

text \<open>
  The parser of expressions: its state, what it takes from the productions of other files, and
  the questions it asks of the tokens ahead (\<open>parser/parser.go\<close>, \<open>parser/parser_literals.go\<close>).
\<close>

section \<open>The state\<close>

record 'a assertion =
  a_Const :: bool
  a_Satisfies :: "'a option"
  a_Cast :: "'a option"

text \<open>\<open>ps_nodes\<close> is the next free address; a set of pointers stands for the map to \<open>bool\<close>.\<close>

record 'a expr_parser = parser +
  ps_nodes :: nat
  ps_bareArrow :: "nat option"
  ps_parenLiterals :: "nat set"
  ps_assertions :: "nat \<rightharpoonup> 'a assertion"

definition Parser_of :: "string \<Rightarrow> 'a expr_parser" where
  "Parser_of src = parser.extend (Parser_New src)
     \<lparr>ps_nodes = 0, ps_bareArrow = None, ps_parenLiterals = {}, ps_assertions = Map.empty\<rparr>"

type_synonym ('a, 'r) expr_action = "('a expr_parser, 'r) parse_action"

text \<open>The productions of the other files: a type annotation (\<open>parseTypeAnnotation\<close>), a type
  (\<open>parseType\<close>), a block, an arrow function whose parameters are parenthesized, a generic arrow,
  an async function or arrow (from its first token), an object literal, an import expression, a
  class declaration, and a function from its name on, made an expression.\<close>

record 'a productions =
  typeAnnotation :: "string \<Rightarrow> ('a, 'a) expr_action"
  typeSyntax :: "('a, 'a) expr_action"
  block :: "('a, 'a) expr_action"
  arrowFunction :: "('a, 'a expr) expr_action"
  genericArrow :: "('a, 'a expr) expr_action"
  asyncFunction :: "Token \<Rightarrow> ('a, 'a expr) expr_action"
  objectLiteral :: "('a, 'a expr) expr_action"
  importExpr :: "('a, 'a expr) expr_action"
  classDecl :: "('a, 'a) expr_action"
  functionRest :: "string \<Rightarrow> bool \<Rightarrow> ('a, 'a) expr_action"

section \<open>Small actions\<close>

definition new_ref :: "'a expr_parser \<Rightarrow> nat \<times> 'a expr_parser" where
  "new_ref p = (ps_nodes p, p\<lparr>ps_nodes := Suc (ps_nodes p)\<rparr>)"

definition make :: "('a, 'a expr) node \<Rightarrow> Pos \<Rightarrow> ('a, 'a expr) expr_action" where
  "make n pos = bind_action (always new_ref) (\<lambda>r. return (Expr r pos n))"

definition update :: "('a expr_parser \<Rightarrow> 'a expr_parser) \<Rightarrow> ('a, unit) expr_action" where
  "update f p = (Inr (), f p)"

definition either :: "('p, bool) parse_action \<Rightarrow> ('p, bool) parse_action \<Rightarrow> ('p, bool) parse_action" where
  "either a b = bind_action a (\<lambda>x. if x then return True else b)"

definition both :: "('p, bool) parse_action \<Rightarrow> ('p, bool) parse_action \<Rightarrow> ('p, bool) parse_action" where
  "both a b = bind_action a (\<lambda>x. if x then b else return False)"

text \<open>The type of the token at the parser, or of the \<open>n\<close>th ahead, is among those given.\<close>

definition type_in :: "unicode_tables \<Rightarrow> TokenType set \<Rightarrow> ('x parser_scheme, bool) parse_action" where
  "type_in U ts = bind_action (always (Parser_peek U)) (\<lambda>t. return (t_Type t \<in> ts))"

definition nth_in :: "unicode_tables \<Rightarrow> nat \<Rightarrow> TokenType set \<Rightarrow> ('x parser_scheme, bool) parse_action" where
  "nth_in U n ts = bind_action (always (peekNth U n)) (\<lambda>t. return (t_Type t \<in> ts))"

definition word :: "unicode_tables \<Rightarrow> string \<Rightarrow> ('x parser_scheme, bool) parse_action" where
  "word U w = bind_action (always (Parser_peek U)) (\<lambda>t. return (t_Type t = IDENT \<and> t_Literal t = w))"

definition next_is :: "unicode_tables \<Rightarrow> TokenType \<Rightarrow> ('x parser_scheme, bool) parse_action" where
  "next_is U t = always (check U t)"

definition taken :: "unicode_tables \<Rightarrow> TokenType \<Rightarrow> ('x parser_scheme, bool) parse_action" where
  "taken U t = always (match U [t])"

section \<open>Source ranges\<close>

text \<open>\<open>srcRange\<close>: the bytes from the token at \<open>pos\<close> to the end of the last one taken; the loop
  goes back from there and stops above the position's line.\<close>

primrec range_from :: "unicode_tables \<Rightarrow> Pos \<Rightarrow> nat \<Rightarrow> nat \<Rightarrow> 'x parser_scheme \<Rightarrow> (nat \<times> nat) option \<times> 'x parser_scheme" where
  "range_from U pos end 0 p = (None, p)"
| "range_from U pos end (Suc i) p =
    (let (t, p) = Parser_at U i p in
     if posOf t = pos then (Some (t_Pos t, end), p)
     else if t_Line t < p_Line pos then (None, p)
     else range_from U pos end i p)"

definition srcRange :: "unicode_tables \<Rightarrow> Pos \<Rightarrow> 'x parser_scheme \<Rightarrow> (nat \<times> nat) option \<times> 'x parser_scheme" where
  "srcRange U pos p =
    (if ps_pos p = 0 then (None, p)
     else (let (t, p) = Parser_at U (ps_pos p - 1) p in range_from U pos (t_End t) (ps_pos p) p))"

section \<open>What is ahead\<close>

text \<open>\<open>typeThenArrowAt\<close>: the parser tries a type from there, and goes back.\<close>

definition typeThenArrowAt :: "unicode_tables \<Rightarrow> 'a productions \<Rightarrow> nat \<Rightarrow> ('a, bool) expr_action" where
  "typeThenArrowAt U P k p =
    (let save = ps_pos p in
     case typeSyntax P (p\<lparr>ps_pos := save + k\<rparr>) of
       (Inr _, p) \<Rightarrow> bind_action (next_is U ARROW) (\<lambda>ok. bind_action (rewind save) (\<lambda>_. return ok)) p
     | (Inl (Rejected _), p) \<Rightarrow> bind_action (rewind save) (\<lambda>_. return False) p
     | (Inl e, p) \<Rightarrow> (Inl e, p))"

text \<open>The loops over the tokens ahead: \<open>n\<close> bounds how many are looked at.\<close>

primrec group_then_arrow :: "unicode_tables \<Rightarrow> 'a productions \<Rightarrow> nat \<Rightarrow> nat \<Rightarrow> int \<Rightarrow> ('a, bool) expr_action" where
  "group_then_arrow U P 0 i depth = refuse Exhausted"
| "group_then_arrow U P (Suc n) i depth = bind_action (always (peekNth U i)) (\<lambda>t.
    if t_Type t = EOF then return False
    else if t_Type t \<in> {LPAREN, LBRACE, LBRACKET} then group_then_arrow U P n (i + 1) (depth + 1)
    else if t_Type t \<in> {RPAREN, RBRACE, RBRACKET}
    then (if depth - 1 = 0
          then bind_action (always (peekNth U (i + 1))) (\<lambda>next.
            if t_Type next = ARROW then return True
            else if t_Type next = COLON then typeThenArrowAt U P (i + 2) else return False)
          else group_then_arrow U P n (i + 1) (depth - 1))
    else group_then_arrow U P n (i + 1) depth)"

definition parenGroupFollowedByArrowAt :: "unicode_tables \<Rightarrow> 'a productions \<Rightarrow> nat \<Rightarrow> nat \<Rightarrow> ('a, bool) expr_action" where
  "parenGroupFollowedByArrowAt U P n k = group_then_arrow U P n k 0"

primrec pattern_end ::
    "unicode_tables \<Rightarrow> TokenType \<Rightarrow> TokenType \<Rightarrow> nat \<Rightarrow> nat \<Rightarrow> int \<Rightarrow> ('x parser_scheme, nat option) parse_action" where
  "pattern_end U op cl 0 i depth = refuse Exhausted"
| "pattern_end U op cl (Suc n) i depth = bind_action (always (peekNth U i)) (\<lambda>t.
    if t_Type t = EOF then return None
    else if t_Type t = op then pattern_end U op cl n (i + 1) (depth + 1)
    else if t_Type t = cl
    then (if depth - 1 = 0 then return (Some i) else pattern_end U op cl n (i + 1) (depth - 1))
    else pattern_end U op cl n (i + 1) depth)"

primrec parens_then_arrow :: "unicode_tables \<Rightarrow> nat \<Rightarrow> nat \<Rightarrow> int \<Rightarrow> ('x parser_scheme, bool) parse_action" where
  "parens_then_arrow U 0 i depth = refuse Exhausted"
| "parens_then_arrow U (Suc n) i depth = bind_action (always (peekNth U i)) (\<lambda>t.
    if t_Type t = EOF then return False
    else if t_Type t = LPAREN then parens_then_arrow U n (i + 1) (depth + 1)
    else if t_Type t = RPAREN
    then (if depth - 1 = 0 then nth_in U (i + 1) {ARROW} else parens_then_arrow U n (i + 1) (depth - 1))
    else parens_then_arrow U n (i + 1) depth)"

definition destructuredArrowParamLookahead :: "unicode_tables \<Rightarrow> nat \<Rightarrow> ('x parser_scheme, bool) parse_action" where
  "destructuredArrowParamLookahead U n = bind_action (always (peekNth U 1)) (\<lambda>open.
    (let closeType = (if t_Type open = LBRACKET then RBRACKET else RBRACE) in
     bind_action (pattern_end U (t_Type open) closeType n 1 0) (\<lambda>r.
       case r of
         None \<Rightarrow> return False
       | Some i \<Rightarrow> either (nth_in U (i + 1) {COLON}) (parens_then_arrow U n 0 0))))"

text \<open>\<open>genericArrowAhead\<close> and its loop.\<close>

primrec generic_arrow_from :: "unicode_tables \<Rightarrow> 'a productions \<Rightarrow> nat \<Rightarrow> nat \<Rightarrow> nat \<Rightarrow> int \<Rightarrow> ('a, bool) expr_action" where
  "generic_arrow_from U P m 0 i depth = refuse Exhausted"
| "generic_arrow_from U P m (Suc n) i depth = bind_action (always (peekNth U i)) (\<lambda>t.
    if t_Type t \<in> {EOF, SEMICOLON, LBRACE, RBRACE} then return False
    else (let depth = (if t_Type t = LT then depth + 1 else if t_Type t = GT then depth - 1
                       else if t_Type t = RSHIFT then depth - 2 else if t_Type t = URSHIFT then depth - 3 else depth)
      in if depth \<le> 0
         then (if depth = 0 then both (nth_in U (i + 1) {LPAREN}) (parenGroupFollowedByArrowAt U P m (i + 1))
               else return False)
         else generic_arrow_from U P m n (i + 1) depth))"

definition genericArrowAhead :: "unicode_tables \<Rightarrow> 'a productions \<Rightarrow> nat \<Rightarrow> ('a, bool) expr_action" where
  "genericArrowAhead U P n =
    both (nth_in U 1 {IDENT}) (both (nth_in U 2 {COMMA, GT, EXTENDS, ASSIGN}) (generic_arrow_from U P n n 0 0))"

definition asyncFunctionAhead :: "unicode_tables \<Rightarrow> 'a productions \<Rightarrow> nat \<Rightarrow> ('a, bool) expr_action" where
  "asyncFunctionAhead U P n =
    both (both (always (isWord U 0 ''async'')) (always (sameLine U 1)))
      (bind_action (always (peekNth U 1)) (\<lambda>t.
        if t_Type t = FUNCTION \<or> t_Type t = LT then return True
        else if t_Type t = IDENT then nth_in U 2 {ARROW}
        else if t_Type t = LPAREN then parenGroupFollowedByArrowAt U P n 1
        else return False))"

text \<open>\<open>newTargetIsExpression\<close>: its loop over the dotted names.\<close>

primrec dotted_then_index :: "unicode_tables \<Rightarrow> nat \<Rightarrow> nat \<Rightarrow> ('x parser_scheme, bool) parse_action" where
  "dotted_then_index U 0 i = refuse Exhausted"
| "dotted_then_index U (Suc n) i = bind_action (both (nth_in U i {DOT}) (nth_in U (i + 1) {IDENT})) (\<lambda>b.
    if b then dotted_then_index U n (i + 2) else nth_in U i {LBRACKET})"

definition newTargetIsExpression :: "unicode_tables \<Rightarrow> nat \<Rightarrow> ('x parser_scheme, bool) parse_action" where
  "newTargetIsExpression U n = bind_action (type_in U {IDENT}) (\<lambda>b.
    if \<not> b then type_in U {THIS, LPAREN, CLASS, FUNCTION} else dotted_then_index U n 1)"

text \<open>\<open>yieldExprOutsideGenerator\<close>.\<close>

definition yieldExprOutsideGenerator :: "unicode_tables \<Rightarrow> ('x parser_scheme, bool) parse_action" where
  "yieldExprOutsideGenerator U p = bind_action (always (Parser_at U (ps_pos p))) (\<lambda>t p.
    if t_Type t \<noteq> YIELD \<or> ps_inGen p then (Inr False, p)
    else (let (next, p) = Parser_at U (ps_pos p + 1) p in
      (Inr (\<not> HasPrecedingLineBreak next
        \<and> (t_Type next \<in> {IDENT, NUMBER, BIGINT, STRING, YIELD, TEMPLATE_NO_SUB, TEMPLATE_HEAD} \<or> IsKeyword (t_Type next))), p))) p"

end
