(* ===== verification/LexerSlash.thy ===== *)
theory LexerSlash
  imports LexerBraces
begin

text \<open>
  A slash read again where an operand starts is a regular expression: the mode decides only how
  a token goes on, never where it starts.
\<close>

section \<open>Kinds of tokens\<close>

text \<open>A property of a token's type and literal that every token has but for the punctuators of \<open>K\<close>,
  and that a word has whatever it is. The locale collects that the other scanners keep it.\<close>

locale token_kind =
  fixes K :: "TokenType set" and R :: "TokenType \<Rightarrow> string \<Rightarrow> bool"
  assumes others: "k \<notin> K \<Longrightarrow> R k s" and words: "R (LookupIdent s) s"
    and fixed: "K \<inter> {NUMBER, BIGINT, STRING, REGEX, PRIVATE_NAME, EOF, TEMPLATE_NO_SUB, TEMPLATE_HEAD, TEMPLATE_MIDDLE,
      TEMPLATE_TAIL} = {}"
begin

definition kept :: "scanned \<Rightarrow> bool" where
  "kept r \<longleftrightarrow> (case fst r of Inr t \<Rightarrow> R (t_Type t) (t_Literal t) | Inl _ \<Rightarrow> True)"

lemma kept_give: "R k s \<Longrightarrow> kept (give k s line col l)"
proof -
  assume "R k s"
  obtain t l' where t: "tok k s line col l = (t, l')" by fastforce
  show ?thesis using tok_fields(1,2) [OF t] \<open>R k s\<close> by (simp add: kept_def give_def t)
qed

lemma kept_fail [simp]: "kept (fail U line col m args l)"
  by (simp add: kept_def fail_def)

lemma kept_bind:
  assumes "\<And>x l'. r = (Inr x, l') \<Longrightarrow> kept (g x l')"
  shows "kept (case r of (Inl e, l') \<Rightarrow> (Inl e, l') | (Inr x, l') \<Rightarrow> g x l')"
  using assms by (cases r) (auto simp: kept_def split: sum.splits)

lemma kept_step:
  "(\<And>c l'. f l = (c, l') \<Longrightarrow> kept (g c l')) \<Longrightarrow> kept (case f l of (c, l') \<Rightarrow> g c l')"
  by (cases "f l") simp

lemma kept_types:
  "R NUMBER s" "R BIGINT s" "R STRING s" "R REGEX s" "R PRIVATE_NAME s" "R EOF s" "R TEMPLATE_NO_SUB s"
  "R TEMPLATE_HEAD s" "R TEMPLATE_MIDDLE s" "R TEMPLATE_TAIL s"
  using others fixed by blast+

lemma readNumber_kept: "kept (readNumber U line col l)"
proof -
  have "kept (readPrefixed U D line col l)" for D
    unfolding readPrefixed_def by (rule kept_step, rule kept_step, rule kept_bind) (simp add: kept_give kept_types)
  moreover have "kept (readDecimal U line col l)"
    unfolding readDecimal_def Let_def
    by (rule kept_bind, simp only: split_paired_all prod.case, rule kept_bind,
        simp only: split_paired_all prod.case) (simp add: kept_give kept_types)
  ultimately have "kept (readNumberBody U line col l)"
    by (simp add: readNumberBody_def Let_def)
  then show ?thesis
    by (auto simp: readNumber_def Let_def kept_def fail_def split: prod.splits sum.splits)
qed

lemma readStringBody_kept: "kept (readStringBody U q line col buf l)"
proof (induction U q line col buf l rule: readStringBody.induct)
  case (1 U q line col buf l)
  have "kept (case scanStringEscape U buf line col (skip l) of
      (Inl e, l') \<Rightarrow> (Inl e, l') | (Inr buf', l') \<Rightarrow> readStringBody U q line col buf' l')"
    if "more l" "peek l \<noteq> q" "peek l = ord (CHR 0x5C)"
    by (rule kept_bind) (use 1(1) [OF that(1) refl that(2,3)] in auto)
  then show ?case
    using 1 by (subst readStringBody.simps) (auto simp: Let_def kept_give kept_types intro!: kept_step)
qed

lemma templateToken_kept:
  assumes "\<And>s. R closed s" "\<And>s. R open s"
  shows "kept (templateToken U closed open line col l)"
proof -
  have e: "kept (case tok k seg line col m of (t, l) \<Rightarrow> (Inr (t\<lparr>t_Raw := raw\<rparr>), l))"
    if "R k seg" for k seg raw m
  proof -
    obtain t m' where t: "tok k seg line col m = (t, m')" by fastforce
    show ?thesis using tok_fields(1,2) [OF t] that by (simp add: t kept_def)
  qed
  show ?thesis
    unfolding templateToken_def
    by (rule kept_bind, simp only: split_paired_all prod.case) (auto intro!: e simp: assms)
qed

lemma readRegex_kept: "kept (readRegex U line col l)"
proof -
  have "kept (case tok REGEX p line col l' of (t, l') \<Rightarrow> (Inr (t\<lparr>t_RegexFlags := fs\<rparr>), l'))" for p fs l'
  proof -
    obtain t m where t: "tok REGEX p line col l' = (t, m)" by fastforce
    show ?thesis using tok_fields(1) [OF t] by (simp add: t kept_def kept_types)
  qed
  then show ?thesis
    unfolding readRegex_def by (intro kept_bind kept_step) simp
qed

lemma words_kept:
  "kept (readIdent U line col l)" "kept (readPrivateName U line col l)" "kept (readString U line col l)"
  "kept (readTemplateHead U line col l)"
  by (auto simp: readIdent_def readPrivateName_def readString_def readTemplateHead_def readStringBody_kept
      intro!: kept_step kept_give templateToken_kept simp: words kept_types)

lemma scanToken_kept:
  "kept (scanPunct U (peek l) line col (skip l)) \<Longrightarrow> kept (scanToken U line col l)"
  by (simp add: scanToken_def Let_def words_kept readNumber_kept readRegex_kept)

lemma nextToken_kept:
  assumes "\<And>ch line col l. kept (scanPunct U ch line col l)"
  shows "kept (nextToken U l)"
proof (induction l rule: nextToken.induct [of "\<lambda>U' l. U' = U \<longrightarrow> kept (nextToken U l)", rule_format])
  case (1 U' l)
  then show ?case
    using scanToken_kept [OF assms] kept_give [OF kept_types(6)]
    by (subst nextToken.simps) (simp add: Let_def)
qed simp

end

definition slash_types :: "TokenType set" where
  "slash_types = {SLASH, SLASH_ASSIGN}"

definition not_slash :: "TokenType \<Rightarrow> string \<Rightarrow> bool" where
  "not_slash k s \<longleftrightarrow> k \<notin> slash_types"

text \<open>The tokens of the unary operators that \<open>**\<close> may not follow, and how tokens are spelt.\<close>

definition unary_types :: "TokenType set" where
  "unary_types = {MINUS, PLUS, NOT, BITNOT, TYPEOF, VOID, AWAIT}"

definition spelt :: "TokenType \<Rightarrow> string \<Rightarrow> bool" where
  "spelt k s \<longleftrightarrow> (k = YIELD \<longrightarrow> s = ''yield'') \<and> (k \<in> unary_types \<longrightarrow> s \<noteq> [])"

interpretation slash: token_kind slash_types not_slash
proof
  show "not_slash (LookupIdent s) s" for s
    using LookupIdent_cases [of s] by (auto simp: keyword_table_def not_slash_def slash_types_def)
qed (auto simp: not_slash_def slash_types_def)

interpretation spelling: token_kind "insert YIELD unary_types" spelt
proof
  show "spelt (LookupIdent s) s" for s
    using LookupIdent_cases [of s] by (auto simp: keyword_table_def spelt_def unary_types_def)
qed (auto simp: spelt_def unary_types_def)

lemma scanPunct_no_slash:
  assumes "ch \<noteq> ord (CHR ''/'')"
  shows "slash.kept (scanPunct U ch line col l)"
proof -
  have single: "map_of singleTokens ch = Some (k, lit) \<Longrightarrow> slash.kept (give k lit line col l)" for k lit
    by (rule slash.kept_give) (auto simp: singleTokens_def not_slash_def slash_types_def split: if_splits)
  have rbrace: "slash.kept (scanRBrace U line col l)"
    by (auto simp: scanRBrace_def Let_def readTemplatePart_def
        not_slash_def slash_types_def
        intro!: slash.templateToken_kept slash.kept_give split: list.split)
  show ?thesis
    using assms unfolding scanPunct_def
    by (simp add: rbrace slash.kept_give single not_slash_def slash_types_def split: option.split)
      (simp add: scanPlus_def scanMinus_def scanStar_def scanPercent_def scanEquals_def
        scanBang_def scanLess_def scanGreater_def scanAmpersand_def scanBar_def scanCaret_def
        scanDot_def scanQuestion_def scanLBrace_def Let_def slash.kept_give not_slash_def slash_types_def)
qed

lemma scanPunct_spelt: "spelling.kept (scanPunct U ch line col l)"
proof -
  have single: "map_of singleTokens ch = Some (k, lit) \<Longrightarrow> spelling.kept (give k lit line col l)" for k lit
    by (rule spelling.kept_give) (auto simp: singleTokens_def spelt_def unary_types_def split: if_splits)
  have rbrace: "spelling.kept (scanRBrace U line col l)"
    by (auto simp: scanRBrace_def Let_def readTemplatePart_def
        spelt_def unary_types_def
        intro!: spelling.templateToken_kept spelling.kept_give split: list.split)
  show ?thesis
    unfolding scanPunct_def
    by (simp add: rbrace spelling.kept_give single spelt_def unary_types_def split: option.split)
      (simp add: scanPlus_def scanMinus_def scanStar_def scanSlash_def scanPercent_def scanEquals_def
        scanBang_def scanLess_def scanGreater_def scanAmpersand_def scanBar_def scanCaret_def
        scanDot_def scanQuestion_def scanLBrace_def Let_def spelling.kept_give spelt_def unary_types_def)
qed

text \<open>The token \<open>yield\<close> spells so, and the unary operators have a spelling.\<close>

lemma Scan_spelt: "spelt (t_Type (fst (Scan U m l))) (t_Literal (fst (Scan U m l)))"
  using spelling.nextToken_kept [OF scanPunct_spelt, of U "scan_from l m"]
  by (cases rule: Scan_cases [of U l m]) (auto simp: spelling.kept_def spelt_def unary_types_def)

lemma readRegex_type: "readRegex U line col l = (Inr t, l') \<Longrightarrow> t_Type t = REGEX"
  by (auto simp: readRegex_def fail_def tok_def Let_def split: prod.splits sum.splits if_splits)

section \<open>Where a token starts\<close>

abbreviation moded :: "ScanMode \<Rightarrow> lexer \<Rightarrow> lexer" where
  "moded m l \<equiv> l\<lparr>l_mode := m\<rparr>"

lemma moded_reads [simp]:
  "peek (moded m l) = peek l" "peekAt n (moded m l) = peekAt n l" "more (moded m l) = more l"
  "fst (advance (moded m l)) = fst (advance l)" "skip (moded m l) = moded m (skip l)"
  by (simp_all add: peek_def peekAt_def advance_def Let_def)

lemma skipWhitespace_moded: "skipWhitespace (moded m l) = moded m (skipWhitespace l)"
proof (induction l rule: skipWhitespace.induct)
  case (1 l)
  show ?case
  proof (cases "more l \<and> (IsSpace (peek l) \<or> peek l = 0xFEFF)")
    case True
    then show ?thesis using 1 [OF True] by (simp add: skipWhitespace.simps [of l] skipWhitespace.simps [of "moded m l"])
  next
    case False
    then show ?thesis unfolding skipWhitespace.simps [of l] skipWhitespace.simps [of "moded m l"] moded_reads
      by (simp only: if_False)
  qed
qed

lemma skipLineComment_moded: "skipLineComment (moded m l) = moded m (skipLineComment l)"
proof (induction l rule: skipLineComment.induct)
  case (1 l)
  then show ?case by (simp add: skipLineComment.simps [of l] skipLineComment.simps [of "moded m l"])
qed

lemma blockComment_moded:
  "blockComment buf (moded m l) = (fst (blockComment buf l), moded m (snd (blockComment buf l)))"
proof (induction buf l rule: blockComment.induct)
  case (1 buf l)
  obtain c l' where a: "advance l = (c, l')" by fastforce
  have "advance (moded m l) = (c, moded m l')"
    using moded_reads(4,5) [of m l] a by (simp add: prod_eq_iff)
  then show ?case using 1 a by (subst (1 2 3) blockComment.simps) simp
qed

lemma skipBlockComment_moded: "skipBlockComment (moded m l) = moded m (skipBlockComment l)"
  by (simp add: skipBlockComment_def Let_def blockComment_moded case_prod_beta)

lemma startToken_moded: "startToken (moded m l) = moded m (startToken l)"
  by (simp add: startToken_def Let_def skipWhitespace_moded)

lemma slash_again:
  "nextToken U (moded m l) = (Inr t, l1) \<Longrightarrow> t_Type t \<in> slash_types \<Longrightarrow>
   nextToken U (moded ScanRegex l) = (Inr t', l2) \<Longrightarrow> t_Type t' = REGEX"
proof (induction U l arbitrary: l1 l2 rule: nextToken.induct)
  case (1 U l)
  let ?l = "startToken l"
  note n = nextToken.simps [of U "moded m l"] nextToken.simps [of U "moded ScanRegex l"]
  note n = n [unfolded startToken_moded Let_def moded_reads]
  consider (none) "\<not> more ?l" | (line) "more ?l" "peek ?l = ord (CHR ''/'')" "peekAt 1 ?l = ord (CHR ''/'')"
    | (blk) "more ?l" "peek ?l = ord (CHR ''/'')" "peekAt 1 ?l = ord (CHR ''*'')"
    | (other) "more ?l" "\<not> (peek ?l = ord (CHR ''/'') \<and> (peekAt 1 ?l = ord (CHR ''/'') \<or> peekAt 1 ?l = ord (CHR ''*'')))"
    by blast
  then show ?case
  proof cases
    case none
    have "slash.kept (nextToken U (moded m l))" using none by (simp only: n if_True simp_thms) (rule slash.kept_give, simp add: not_slash_def slash_types_def)
    with 1(3,4) show ?thesis by (simp add: slash.kept_def not_slash_def)
  next
    case line
    then show ?thesis using 1(1) [OF refl] 1(3-5) unfolding n by (simp add: skipLineComment_moded)
  next
    case blk
    then show ?thesis using 1(2) [OF refl] 1(3-5) unfolding n by (simp add: skipBlockComment_moded)
  next
    case other
    then have s: "nextToken U (moded k l) = scanToken U (l_line ?l) (l_col ?l) (moded k ?l)" for k
      by (subst nextToken.simps) (auto simp: startToken_moded Let_def)
    have "peek ?l = ord (CHR ''/'')"
      using slash.scanToken_kept [of U "moded m ?l" "l_line ?l" "l_col ?l"] scanPunct_no_slash [of "peek (moded m ?l)"] 1(3,4)
      unfolding s slash.kept_def not_slash_def by force
    then have "nextToken U (moded ScanRegex l) = readRegex U (l_line ?l) (l_col ?l) (moded ScanRegex ?l)"
      unfolding s by (simp add: scanToken_def)
    then show ?thesis using readRegex_type 1(5) by metis
  qed
qed

lemma Scan_slash_again:
  assumes "t_Type (fst (Scan U m l)) \<in> slash_types"
  shows "t_Type (fst (Scan U ScanRegex l)) \<in> {REGEX, ILLEGAL}"
proof -
  have f: "scan_from l k = moded k (l\<lparr>l_sawNL := False\<rparr>)" for k by (simp add: scan_from_def)
  consider (ill) "t_Type (fst (Scan U ScanRegex l)) = ILLEGAL"
    | (token) t l1 where "nextToken U (scan_from l ScanRegex) = (Inr t, l1)" "fst (Scan U ScanRegex l) = t"
    by (cases rule: Scan_cases [of U l ScanRegex]) auto
  then show ?thesis
  proof cases
    case (token t l1)
    consider "t_Type (fst (Scan U m l)) = ILLEGAL"
      | t0 l0 where "nextToken U (scan_from l m) = (Inr t0, l0)" "fst (Scan U m l) = t0"
      by (cases rule: Scan_cases [of U l m]) auto
    then show ?thesis
    proof cases
      case (2 t0 l0)
      then have "t_Type t = REGEX" using slash_again [OF 2(1) [unfolded f] _ token(1) [unfolded f]] assms by simp
      then show ?thesis using token(2) by simp
    qed (use assms in \<open>simp add: slash_types_def\<close>)
  qed simp
qed

end
