(* ===== verification/Reading.thy ===== *)
theory Reading
  imports RecoveryFacts Lookahead LexerSlash
begin

text \<open>
  Readings: the tokens a parse takes, in order, with the tokens looked at, read again and gone
  back over in between; and the rules that follow an action of the parser token by token.
\<close>

section \<open>The tokens a reading takes\<close>

inductive took :: "unicode_tables \<Rightarrow> 'x parser_scheme \<Rightarrow> Token list \<Rightarrow> 'x parser_scheme \<Rightarrow> bool" for U where
  start: "took U p [] p"
| look: "took U p ts q \<Longrightarrow> took U p ts (snd (Parser_at U j q))"
| peek: "took U p ts q \<Longrightarrow> took U p ts (snd (Parser_peek U q))"
| take: "took U p ts q \<Longrightarrow> Parser_advance U q = (t, q') \<Longrightarrow> took U p (ts @ [t]) q'"
| reread: "took U p ts q \<Longrightarrow> rescanAt U (ps_pos q) mode q = (Inr t, q') \<Longrightarrow> took U p ts q'"
| undo: "took U p ts q \<Longrightarrow> ps_pos q \<le> i \<Longrightarrow> took U (q\<lparr>ps_pos := i\<rparr>) us r \<Longrightarrow>
    rewind (ps_pos q) r = (Inr (), r') \<Longrightarrow> took U p ts r'"
| other: "took U p ts q \<Longrightarrow> ps_lx q' = ps_lx q \<Longrightarrow> ps_tokens q' = ps_tokens q \<Longrightarrow> ps_states q' = ps_states q \<Longrightarrow>
    ps_rescans q' = ps_rescans q \<Longrightarrow> ps_pos q' = ps_pos q \<Longrightarrow> took U p ts q'"

text \<open>A token as the grammar reads it: \<open>yield\<close> and \<open>await\<close> may name a variable.\<close>

definition reads_as :: "Token \<Rightarrow> Token \<Rightarrow> bool" where
  "reads_as t s \<longleftrightarrow> t = s \<or> t_Type s \<in> {YIELD, AWAIT} \<and> t = s\<lparr>t_Type := IDENT\<rparr>"

definition settled :: "'x parser_scheme \<Rightarrow> bool" where
  "settled p \<longleftrightarrow> (\<forall>r \<in> set (ps_rescans p). r \<le> ps_pos p)"

definition fresh :: "'x parser_scheme \<Rightarrow> bool" where
  "fresh p \<longleftrightarrow> (\<forall>r \<in> set (ps_rescans p). r < ps_pos p)"

lemma fresh_settled: "fresh p \<Longrightarrow> settled p"
  by (auto simp: fresh_def settled_def intro: less_imp_le)

lemma reads_as_peek_value: "reads_as (peek_value U src m gen ctx i) (stream_token U src m i)"
  by (auto simp: reads_as_def peek_value_def Let_def)

lemma stream_ok_same:
  "ps_lx q = ps_lx p \<Longrightarrow> ps_tokens q = ps_tokens p \<Longrightarrow> ps_states q = ps_states p \<Longrightarrow> ps_rescans q = ps_rescans p \<Longrightarrow>
    stream_ok U src m q = stream_ok U src m p"
  by (simp add: stream_ok_def)

definition tokens_read :: "unicode_tables \<Rightarrow> string \<Rightarrow> (nat \<Rightarrow> ScanMode) \<Rightarrow> nat \<Rightarrow> Token list \<Rightarrow> bool" where
  "tokens_read U src m i ts \<longleftrightarrow> (\<forall>k < length ts. reads_as (ts ! k) (stream_token U src m (i + k)))"

lemma tokens_read_cong:
  "tokens_read U src m i ts \<Longrightarrow> (\<And>j. j < i + length ts \<Longrightarrow> m' j = m j) \<Longrightarrow> tokens_read U src m' i ts"
  unfolding tokens_read_def using stream_token_cong [of _ m' m U src] by simp

text \<open>The tokens taken are the source's, from the parser's position on, under modes that agree
  with the former ones before it.\<close>

definition continues :: "unicode_tables \<Rightarrow> string \<Rightarrow> (nat \<Rightarrow> ScanMode) \<Rightarrow> 'x parser_scheme \<Rightarrow> Token list \<Rightarrow> 'x parser_scheme \<Rightarrow> bool" where
  "continues U src m p ts q \<longleftrightarrow>
    (\<exists>m'. stream_ok U src m' q \<and> (\<forall>j < ps_pos p. m' j = m j) \<and> ps_pos q = ps_pos p + length ts
      \<and> tokens_read U src m' (ps_pos p) ts \<and> (settled p \<longrightarrow> settled q))"

lemma took_continues: "took U p ts q \<Longrightarrow> stream_ok U src m p \<Longrightarrow> continues U src m p ts q"
proof (induction arbitrary: m rule: took.induct)
  case (start p)
  then show ?case by (auto simp: continues_def tokens_read_def)
next
  case (look p ts q j)
  then obtain m' where m': "stream_ok U src m' q" "\<forall>j < ps_pos p. m' j = m j" "ps_pos q = ps_pos p + length ts"
    "tokens_read U src m' (ps_pos p) ts" "settled p \<longrightarrow> settled q" unfolding continues_def by blast
  have "stream_ok U src m' (snd (Parser_at U j q))" using Parser_at_stream [OF m'(1)] by blast
  then show ?case using m' by (auto simp: continues_def settled_def)
next
  case (peek p ts q)
  then obtain m' where m': "stream_ok U src m' q" "\<forall>j < ps_pos p. m' j = m j" "ps_pos q = ps_pos p + length ts"
    "tokens_read U src m' (ps_pos p) ts" "settled p \<longrightarrow> settled q" unfolding continues_def by blast
  have "stream_ok U src m' (snd (Parser_peek U q))" using peek_token(1) [OF m'(1) surjective_pairing] .
  then show ?case using m' by (auto simp: continues_def settled_def)
next
  case (take p ts q t q')
  then obtain m' where m': "stream_ok U src m' q" "\<forall>j < ps_pos p. m' j = m j" "ps_pos q = ps_pos p + length ts"
    "tokens_read U src m' (ps_pos p) ts" "settled p \<longrightarrow> settled q" unfolding continues_def by blast
  note a = advance_here [OF m'(1) take(2)]
  have "reads_as t (stream_token U src m' (ps_pos q))" using a(1) reads_as_peek_value by (simp add: here_def)
  then have "tokens_read U src m' (ps_pos p) (ts @ [t])"
    using m'(3,4) by (auto simp: tokens_read_def nth_append less_Suc_eq)
  moreover have "ps_rescans q' = ps_rescans q"
    using take(2) by (auto simp: Parser_advance_def split: prod.splits) (metis Parser_peek_fields(2) snd_conv)
  moreover from this have "settled q \<longrightarrow> settled q'" using a(3) by (auto simp: settled_def)
  ultimately show ?case using m' a(2,3) by (auto simp: continues_def)
next
  case (reread p ts q mode t q')
  then obtain m' where m': "stream_ok U src m' q" "\<forall>j < ps_pos p. m' j = m j" "ps_pos q = ps_pos p + length ts"
    "tokens_read U src m' (ps_pos p) ts" "settled p \<longrightarrow> settled q" unfolding continues_def by blast
  note r = rescanAt_stream [OF m'(1) reread(2), simplified]
  have "tokens_read U src (remode m' (ps_pos q) mode) (ps_pos p) ts"
    by (rule tokens_read_cong [OF m'(4)]) (simp add: remode_def m'(3))
  moreover have "\<forall>j < ps_pos p. remode m' (ps_pos q) mode j = m j" using m'(2,3) by (simp add: remode_def)
  ultimately show ?case using r m'(3) by (auto simp: continues_def settled_def)
next
  case (undo p ts q i us r r')
  then obtain m' where m': "stream_ok U src m' q" "\<forall>j < ps_pos p. m' j = m j" "ps_pos q = ps_pos p + length ts"
    "tokens_read U src m' (ps_pos p) ts" "settled p \<longrightarrow> settled q" unfolding continues_def by blast
  have "stream_ok U src m' (q\<lparr>ps_pos := i\<rparr>)" using m'(1) by simp
  from undo.IH(2) [OF this] obtain m2 where m2: "stream_ok U src m2 r" "\<forall>j < i. m2 j = m' j"
    unfolding continues_def by auto
  note w = rewind_stream [OF m2(1) undo(4)]
  have "tokens_read U src (forget m2 (ps_pos q)) (ps_pos p) ts"
    by (rule tokens_read_cong [OF m'(4)]) (use m2(2) undo(2) m'(3) in \<open>simp add: forget_def\<close>)
  moreover have "\<forall>j < ps_pos p. forget m2 (ps_pos q) j = m j" using m'(2,3) m2(2) undo(2) by (simp add: forget_def)
  ultimately show ?case using w m'(3) by (auto simp: continues_def settled_def)
next
  case (other p ts q q')
  then obtain m' where m': "stream_ok U src m' q" "\<forall>j < ps_pos p. m' j = m j" "ps_pos q = ps_pos p + length ts"
    "tokens_read U src m' (ps_pos p) ts" "settled p \<longrightarrow> settled q" unfolding continues_def by blast
  have "stream_ok U src m' q'" using m'(1) stream_ok_same [of q' q] other(2-5) by simp
  then show ?case using m' other(5,6) by (auto simp: continues_def settled_def)
qed

lemma took_trans: "took U q us r \<Longrightarrow> took U p ts q \<Longrightarrow> took U p (ts @ us) r"
proof (induction arbitrary: ts rule: took.induct)
  case (take q us r t r')
  then show ?case using took.take [of U p "ts @ us" r t r'] by simp
next
  case (undo q us r i vs s s')
  then show ?case using took.undo by blast
next
  case (other q us r r')
  then show ?case using took.other by blast
qed (auto intro: took.intros)

section \<open>Following an action\<close>

definition on_stream :: "unicode_tables \<Rightarrow> string \<Rightarrow> 'x parser_scheme \<Rightarrow> bool" where
  "on_stream U src p \<longleftrightarrow> (\<exists>m. stream_ok U src m p) \<and> settled p"

definition nxt :: "unicode_tables \<Rightarrow> 'x parser_scheme \<Rightarrow> Token" where
  "nxt U p = fst (Parser_peek U p)"

text \<open>The characters left bound the tokens left.\<close>

definition left :: "string \<Rightarrow> 'x parser_scheme \<Rightarrow> nat" where
  "left src p = length (runes_of src) - ps_pos p"

text \<open>A parser on its way from \<open>p\<close>, having taken \<open>ts\<close>.\<close>

definition at_after :: "unicode_tables \<Rightarrow> string \<Rightarrow> 'x parser_scheme \<Rightarrow> Token list \<Rightarrow> 'x parser_scheme \<Rightarrow> bool" where
  "at_after U src p ts q \<longleftrightarrow> on_stream U src p \<and> took U p ts q"

text \<open>The action returns a result for which \<open>Q\<close> holds, or is refused with an error: it does not
  panic and its fuel does not run out.\<close>

definition leads :: "unicode_tables \<Rightarrow> string \<Rightarrow> 'x parser_scheme \<Rightarrow> ('x parser_scheme, 'r) parse_action
    \<Rightarrow> ('r \<Rightarrow> 'x parser_scheme \<Rightarrow> bool) \<Rightarrow> 'x parser_scheme \<Rightarrow> bool" where
  "leads U src p0 act Q p =
    (case act p of
       (Inr x, q) \<Rightarrow> Q x q
     | (Inl (Rejected e), q) \<Rightarrow> \<exists>ts. at_after U src p0 ts q
     | (Inl _, q) \<Rightarrow> False)"

lemma at_afterD:
  assumes "at_after U src p ts q"
  shows "on_stream U src q" "ps_pos q = ps_pos p + length ts" "left src q \<le> left src p"
proof -
  obtain m where m: "stream_ok U src m p" "settled p" "took U p ts q"
    using assms unfolding at_after_def on_stream_def by blast
  from took_continues [OF m(3,1)] m(2) show "on_stream U src q" "ps_pos q = ps_pos p + length ts"
    unfolding continues_def on_stream_def by blast+
  then show "left src q \<le> left src p" by (simp add: left_def)
qed

lemma at_after_start: "on_stream U src p \<Longrightarrow> at_after U src p [] p"
  by (simp add: at_after_def took.start)

lemma at_after_trans: "at_after U src p ts q \<Longrightarrow> at_after U src q us r \<Longrightarrow> at_after U src p (ts @ us) r"
  by (auto simp: at_after_def intro: took_trans)

lemma nxt_here: "stream_ok U src m p \<Longrightarrow> nxt U p = here U src m p"
  using peek_value by (simp add: nxt_def here_def)

lemma nxt_left: "on_stream U src p \<Longrightarrow> t_Type (nxt U p) \<noteq> EOF \<Longrightarrow> 0 < left src p"
  using here_EOF nxt_here unfolding on_stream_def left_def by (metis zero_less_diff)

lemma looked_nxt: "on_stream U src p \<Longrightarrow> looked p q U \<Longrightarrow> nxt U q = nxt U p"
  using nxt_here here_looked looked_stream unfolding on_stream_def by metis

lemma leads_bind:
  "leads U src p0 m (\<lambda>x. leads U src p0 (f x) Q) p \<Longrightarrow> leads U src p0 (bind_action m f) Q p"
  by (auto simp: leads_def bind_action_def split: prod.splits sum.splits failure.splits)

lemma leads_return: "Q x p \<Longrightarrow> leads U src p0 (return x) Q p"
  by (simp add: leads_def return_def)

lemma leads_reject: "at_after U src p0 ts p \<Longrightarrow> leads U src p0 (reject d) Q p"
  by (auto simp: leads_def reject_def refuse_def)

lemma leads_mono: "leads U src p0 act P p \<Longrightarrow> (\<And>x q. P x q \<Longrightarrow> Q x q) \<Longrightarrow> leads U src p0 act Q p"
  by (auto simp: leads_def split: prod.splits sum.splits failure.splits)

text \<open>An action verified from where it starts, met on the way.\<close>

lemma leads_from:
  assumes "leads U src p act P p" "at_after U src p0 ts p"
    and "\<And>x q. P x q \<Longrightarrow> Q x q"
  shows "leads U src p0 act Q p"
  using assms(1,3) at_after_trans [OF assms(2)]
  by (auto simp: leads_def split: prod.splits sum.splits failure.splits) blast

section \<open>Looking\<close>

definition tok_at :: "unicode_tables \<Rightarrow> nat \<Rightarrow> 'x parser_scheme \<Rightarrow> Token" where
  "tok_at U i p = fst (Parser_at U i p)"

definition raw :: "unicode_tables \<Rightarrow> 'x parser_scheme \<Rightarrow> Token" where
  "raw U p = tok_at U (ps_pos p) p"

definition same :: "unicode_tables \<Rightarrow> 'x parser_scheme \<Rightarrow> 'x parser_scheme \<Rightarrow> bool" where
  "same U p q \<longleftrightarrow> ps_pos q = ps_pos p \<and> ps_rescans q = ps_rescans p \<and> nxt U q = nxt U p \<and> (\<forall>i. tok_at U i q = tok_at U i p)"

lemma same_refl [simp]: "same U p p"
  by (simp add: same_def)

lemma same_trans: "same U p q \<Longrightarrow> same U q r \<Longrightarrow> same U p r"
  by (simp add: same_def)

lemma sameD: "same U p q \<Longrightarrow> nxt U q = nxt U p" "same U p q \<Longrightarrow> left src q = left src p"
    "same U p q \<Longrightarrow> fresh q = fresh p" "same U p q \<Longrightarrow> raw U q = raw U p" "same U p q \<Longrightarrow> ps_pos q = ps_pos p"
  "same U p q \<Longrightarrow> tok_at U i q = tok_at U i p"
  by (simp_all add: same_def left_def fresh_def raw_def)

lemma tok_at_stream: "stream_ok U src m p \<Longrightarrow> tok_at U i p = stream_token U src m i"
  using Parser_at_stream [of U src m p i] by (simp add: tok_at_def)

lemma raw_stream: "stream_ok U src m p \<Longrightarrow> raw U p = stream_token U src m (ps_pos p)"
  by (simp add: raw_def tok_at_stream)

lemma looked_same:
  assumes "on_stream U src p" "looked p q U" "ps_rescans q = ps_rescans p"
  shows "same U p q"
proof -
  obtain m where m: "stream_ok U src m p" using assms(1) unfolding on_stream_def by blast
  have "stream_ok U src m q" using looked_stream [OF assms(2) m] .
  then show ?thesis
    using m assms looked_nxt [OF assms(1,2)] looked_fields(1) [OF assms(2)] by (simp add: same_def tok_at_stream)
qed

text \<open>An action that only looks: it returns, takes nothing and leaves the tokens as they are.\<close>

definition glances :: "unicode_tables \<Rightarrow> string \<Rightarrow> (nat \<Rightarrow> bool) \<Rightarrow> ('x parser_scheme, 'r) parse_action \<Rightarrow> bool" where
  "glances U src c act \<longleftrightarrow>
    (\<forall>p. on_stream U src p \<longrightarrow> c (ps_pos p) \<longrightarrow> (\<exists>x q. act p = (Inr x, q) \<and> took U p [] q \<and> same U p q))"

lemma at_after_glance:
  "at_after U src p0 ts p \<Longrightarrow> took U p [] q \<Longrightarrow> at_after U src p0 ts q"
  unfolding at_after_def using took_trans [of U p "[]" q p0 ts] by simp

lemma leads_glance:
  assumes "glances U src c act" "at_after U src p0 ts p" "c (ps_pos p)"
    and "\<And>x q. act p = (Inr x, q) \<Longrightarrow> at_after U src p0 ts q \<Longrightarrow> same U p q \<Longrightarrow> Q x q"
  shows "leads U src p0 act Q p"
proof -
  obtain x q where q: "act p = (Inr x, q)" "took U p [] q" "same U p q"
    using assms(1,3) at_afterD(1) [OF assms(2)] unfolding glances_def by blast
  then show ?thesis using assms(4) at_after_glance [OF assms(2)] by (simp add: leads_def)
qed

lemma glances_always_at: "glances U src c (always (Parser_at U i))"
  unfolding glances_def
proof (intro allI impI)
  fix p :: "'x parser_scheme" assume p: "on_stream U src p" "c (ps_pos p)"
  obtain t q where a: "Parser_at U i p = (t, q)" by fastforce
  then have "took U p [] q" using took.look [OF took.start [of U p], of i] by simp
  moreover have "ps_rescans q = ps_rescans p" using Parser_at_fields(1) [of U i p] a by simp
  ultimately show "\<exists>x q. always (Parser_at U i) p = (Inr x, q) \<and> took U p [] q \<and> same U p q"
    using looked_same [OF p(1) looked_at [OF a]] a by (simp add: always_def)
qed

lemma glances_peeked: "glances U src c (always (Parser_peek U))"
  unfolding glances_def
proof (intro allI impI)
  fix p :: "'x parser_scheme" assume p: "on_stream U src p" "c (ps_pos p)"
  obtain t q where a: "Parser_peek U p = (t, q)" by fastforce
  then have "took U p [] q" using took.peek [OF took.start [of U p]] by simp
  moreover have "ps_rescans q = ps_rescans p" using Parser_peek_fields(2) [of U p] a by simp
  ultimately show "\<exists>x q. always (Parser_peek U) p = (Inr x, q) \<and> took U p [] q \<and> same U p q"
    using looked_same [OF p(1) looked_peek [OF a]] a by (simp add: always_def)
qed

lemma glances_return [simp]: "glances U src c (return x)"
  by (auto simp: glances_def return_def intro: took.start)

lemma glances_bind:
  fixes m :: "('x parser_scheme, 'a) parse_action"
  assumes "glances U src c m" "\<And>x. glances U src c (f x)"
  shows "glances U src c (bind_action m f)"
  unfolding glances_def
proof (intro allI impI)
  fix p :: "'x parser_scheme" assume p: "on_stream U src p" "c (ps_pos p)"
  obtain x q where q: "m p = (Inr x, q)" "took U p [] q" "same U p q" using assms(1) p unfolding glances_def by blast
  have "on_stream U src q" using at_afterD(1) at_after_glance [OF at_after_start [OF p(1)] q(2)] by blast
  then obtain y r where r: "f x q = (Inr y, r)" "took U q [] r" "same U q r"
    using assms(2) sameD(5) [OF q(3)] p(2) unfolding glances_def by metis
  show "\<exists>x q. bind_action m f p = (Inr x, q) \<and> took U p [] q \<and> same U p q"
    using q r took_trans [OF r(2) q(2)] same_trans [OF q(3) r(3)] by (simp add: bind_action_def)
qed

lemma glances_reader:
  "(\<And>p. glances U src c (\<lambda>q. act p q)) \<Longrightarrow> glances U src c (\<lambda>p. act p p)"
  by (simp add: glances_def)

lemma glances_simps:
  "glances U src c (always (check U t))" "glances U src c (always (peekNth U n))" "glances U src c (always (isWord U n w))"
  "glances U src c (always (sameLine U n))" "glances U src c (type_in U ts)" "glances U src c (nth_in U n ts)"
  "glances U src c (word U w)" "glances U src c (next_is U t)"
proof -
  have nth: "glances U src c (always (peekNth U n))"
    using glances_reader [of U src c "\<lambda>p. always (Parser_at U (ps_pos p + n))", OF glances_always_at]
    by (simp add: peekNth_def always_def)
  have via: "glances U src c (always f)" if "\<And>p. f p = (case g p of (t, q) \<Rightarrow> (h t, q))" "glances U src c (always g)" for f g h
  proof -
    have "always f = bind_action (always g) (\<lambda>t. return (h t))"
      using that(1) by (auto simp: bind_action_def always_def return_def split: prod.splits)
    then show ?thesis by (simp only:) (rule glances_bind [OF that(2) glances_return])
  qed
  have chk: "glances U src c (always (check U t))" by (rule via [OF _ glances_peeked]) (simp add: check_def Let_def)
  show "glances U src c (always (check U t))" by (rule chk)
  show "glances U src c (always (peekNth U n))" by (rule nth)
  show "glances U src c (always (isWord U n w))" by (rule via [OF _ nth]) (simp add: isWord_def Let_def)
  show "glances U src c (always (sameLine U n))" by (rule via [OF _ nth]) (simp add: sameLine_def Let_def)
  show "glances U src c (type_in U ts)" unfolding type_in_def by (rule glances_bind [OF glances_peeked]) simp
  show "glances U src c (nth_in U n ts)" unfolding nth_in_def by (rule glances_bind [OF nth]) simp
  show "glances U src c (word U w)" unfolding word_def by (rule glances_bind [OF glances_peeked]) simp
  show "glances U src c (next_is U t)" unfolding next_is_def by (rule chk)
qed

lemma glances_logic:
  "glances U src c a \<Longrightarrow> glances U src c b \<Longrightarrow> glances U src c (either a b)"
  "glances U src c a \<Longrightarrow> glances U src c b \<Longrightarrow> glances U src c (both a b)"
  unfolding either_def both_def by (auto intro!: glances_bind)

end
