(* ===== verification/Expressions.thy ===== *)
theory Expressions
  imports Lookahead
begin

text \<open>
  The parser of expressions (\<open>parser/parser_exprs.go\<close> and the primary expressions of
  \<open>parser/parser_literals.go\<close>), a function for each level of precedence. The nested
  \<open>parseAssignment\<close> is the parameter \<open>asg\<close> of the functions below it, and \<open>n\<close> bounds their loops;
  \<open>parseAssignment\<close> ties the knot at the end. One unit of fuel for each character left, and one
  more, is enough (\<open>ExpressionProps.expressions_return\<close>).
\<close>

section \<open>Messages\<close>

definition quoted :: "string \<Rightarrow> string" where
  "quoted s = [CHR 0x27] @ s @ [CHR 0x27]"

definition InvalidAssignTarget :: Message where
  "InvalidAssignTarget = syntax_msg 2364 ''the left-hand side of an assignment expression must be a variable or a property access''"

definition InvalidUpdateTarget :: Message where
  "InvalidUpdateTarget = syntax_msg 2357 ''the operand of an increment or decrement operator must be a variable or a property access''"

definition YieldInGeneratorParams :: Message where
  "YieldInGeneratorParams = syntax_msg 2523 (quoted ''yield'' @ '' expressions cannot be used in a parameter initializer'')"

definition UnexpectedTokenInExpr :: Message where
  "UnexpectedTokenInExpr = syntax_msg 1109 ''unexpected token %s in expression''"

definition ExponentUnaryAmbiguous :: Message where
  "ExponentUnaryAmbiguous = syntax_msg 17006 (''unary operator '' @ quoted ''%s'' @ '' before '' @ quoted ''**'' @ '' is ambiguous ''
     @ [CHR 0xE2, CHR 0x80, CHR 0x94] @ '' parenthesize as '' @ quoted ''(%s x) ** y'' @ '' or '' @ quoted ''%s(x ** y)'')"

definition ExpectedTemplateCont :: Message where
  "ExpectedTemplateCont = syntax_msg 1160 ''expected template continuation, got %s''"

definition ReservedWordIdent :: Message where
  "ReservedWordIdent = syntax_msg 1359 (quoted ''%s'' @ '' is a reserved word that cannot be used here'')"

definition LineBreakBeforeArrow :: Message where
  "LineBreakBeforeArrow = syntax_msg 1200 (''line break not allowed before '' @ quoted ''=>'')"

definition ExpectedConstructor :: Message where
  "ExpectedConstructor = syntax_msg 1109 (''expected constructor name after '' @ quoted ''new'')"

text \<open>The actions of \<open>p.advance()\<close>, \<open>p.peek()\<close> and of an error at a token.\<close>

abbreviation advancing :: "unicode_tables \<Rightarrow> ('x parser_scheme, Token) parse_action" where
  "advancing U \<equiv> always (Parser_advance U)"

abbreviation peeked :: "unicode_tables \<Rightarrow> ('x parser_scheme, Token) parse_action" where
  "peeked U \<equiv> always (Parser_peek U)"

definition reject_at :: "unicode_tables \<Rightarrow> Token \<Rightarrow> Message \<Rightarrow> fmt_arg list \<Rightarrow> ('p, 'a) parse_action" where
  "reject_at U t m args = reject (Parser_errAt U t m args)"

section \<open>Lists of expressions\<close>

text \<open>An argument, or an element of an array: the spread \<open>...e\<close> or an assignment expression.\<close>

definition spread_or :: "unicode_tables \<Rightarrow> ('a, 'a expr) expr_action \<Rightarrow> ('a, 'a expr) expr_action" where
  "spread_or U asg = bind_action (next_is U ELLIPSIS) (\<lambda>b.
    if b then bind_action (advancing U) (\<lambda>t. bind_action asg (\<lambda>inner. make (SpreadElement inner) (posOf t))) else asg)"

text \<open>\<open>parseArgList\<close>, and the same loop in \<open>parseNewTail\<close>.\<close>

primrec parseArgList :: "unicode_tables \<Rightarrow> ('a, 'a expr) expr_action \<Rightarrow> nat \<Rightarrow> ('a, 'a expr list) expr_action" where
  "parseArgList U asg 0 = refuse Exhausted"
| "parseArgList U asg (Suc n) = bind_action (either (next_is U RPAREN) (next_is U EOF)) (\<lambda>done.
    if done then return []
    else bind_action (spread_or U asg) (\<lambda>arg. bind_action (taken U COMMA) (\<lambda>more.
      if \<not> more then return [arg]
      else bind_action (parseArgList U asg n) (\<lambda>args. return (arg # args)))))"

text \<open>The elements of an array literal and whether a comma follows a spread that ends it.\<close>

primrec array_elements ::
    "unicode_tables \<Rightarrow> ('a, 'a expr) expr_action \<Rightarrow> nat \<Rightarrow> ('a, 'a expr list \<times> bool) expr_action" where
  "array_elements U asg 0 = refuse Exhausted"
| "array_elements U asg (Suc n) = bind_action (either (next_is U RBRACKET) (next_is U EOF)) (\<lambda>done.
    if done then return ([], False)
    else bind_action (next_is U COMMA) (\<lambda>hole.
      if hole
      then bind_action (peeked U) (\<lambda>t. bind_action (make (NullLiteral True False True) (posOf t)) (\<lambda>hole.
        bind_action (advancing U) (\<lambda>_. bind_action (array_elements U asg n) (\<lambda>(els, rest). return (hole # els, rest)))))
      else bind_action (next_is U ELLIPSIS) (\<lambda>spread. bind_action (spread_or U asg) (\<lambda>el.
        bind_action (if spread then both (next_is U COMMA) (nth_in U 1 {RBRACKET}) else return False) (\<lambda>trailing.
        bind_action (taken U COMMA) (\<lambda>more.
          if \<not> more then return ([el], trailing)
          else bind_action (array_elements U asg n) (\<lambda>(els, rest). return (el # els, trailing \<or> rest))))))))"

definition parseArrayLiteral :: "unicode_tables \<Rightarrow> ('a, 'a expr) expr_action \<Rightarrow> nat \<Rightarrow> ('a, 'a expr) expr_action" where
  "parseArrayLiteral U asg n = bind_action (advancing U) (\<lambda>t. bind_action (array_elements U asg n) (\<lambda>(els, rest).
    bind_action (expect U RBRACKET) (\<lambda>_. make (ArrayLiteral els rest) (posOf t))))"

text \<open>\<open>parseTemplateRestRaw\<close>: what follows the head, the quasis cooked and raw and the expressions.\<close>

primrec template_rest ::
    "unicode_tables \<Rightarrow> ('a, 'a expr) expr_action \<Rightarrow> nat \<Rightarrow> ('a, string list \<times> string list \<times> 'a expr list) expr_action" where
  "template_rest U asg 0 = refuse Exhausted"
| "template_rest U asg (Suc n) = bind_action asg (\<lambda>e. bind_action (peeked U) (\<lambda>t.
    if t_Type t = TEMPLATE_MIDDLE
    then bind_action (advancing U) (\<lambda>_. bind_action (template_rest U asg n) (\<lambda>(quasis, raws, es).
      return (t_Literal t # quasis, t_Raw t # raws, e # es)))
    else if t_Type t = TEMPLATE_TAIL
    then bind_action (advancing U) (\<lambda>_. return ([t_Literal t], [t_Raw t], [e]))
    else reject_at U t ExpectedTemplateCont [type_arg (t_Type t)]))"

definition parseTemplateRestRaw ::
    "unicode_tables \<Rightarrow> ('a, 'a expr) expr_action \<Rightarrow> nat \<Rightarrow> string \<Rightarrow> string
     \<Rightarrow> ('a, string list \<times> string list \<times> 'a expr list) expr_action" where
  "parseTemplateRestRaw U asg n headQuasi headRaw = bind_action (template_rest U asg n) (\<lambda>(quasis, raws, es).
    return (headQuasi # quasis, headRaw # raws, es))"

definition parseTemplateLiteral :: "unicode_tables \<Rightarrow> ('a, 'a expr) expr_action \<Rightarrow> nat \<Rightarrow> ('a, 'a expr) expr_action" where
  "parseTemplateLiteral U asg n = bind_action (advancing U) (\<lambda>t.
    bind_action (parseTemplateRestRaw U asg n (t_Literal t) '''') (\<lambda>(quasis, _, es).
      make (TemplateLiteral quasis es) (posOf t)))"

text \<open>Type arguments after their \<open><\<close>, up to the closing one; and the bracket of an index.\<close>

primrec type_list :: "unicode_tables \<Rightarrow> 'a productions \<Rightarrow> nat \<Rightarrow> ('a, 'a list) expr_action" where
  "type_list U P 0 = refuse Exhausted"
| "type_list U P (Suc n) = bind_action (typeAnnotation P ''ts'') (\<lambda>ta. bind_action (taken U COMMA) (\<lambda>more.
    if \<not> more then return [ta] else bind_action (type_list U P n) (\<lambda>tas. return (ta # tas))))"

definition index_rest :: "unicode_tables \<Rightarrow> ('a, 'a expr) expr_action \<Rightarrow> ('a, 'a expr) expr_action" where
  "index_rest U asg = bind_action asg (\<lambda>index. bind_action (expect U RBRACKET) (\<lambda>_. return index))"

section \<open>Primary expressions\<close>

definition reservedWords :: "string set" where
  "reservedWords = {''in'', ''with'', ''debugger'', ''delete'', ''enum''}"

definition expectPropertyName :: "unicode_tables \<Rightarrow> ('x parser_scheme, Token) parse_action" where
  "expectPropertyName U = bind_action (next_is U DEFAULT) (\<lambda>b.
    if b then advancing U
    else bind_action (next_is U PRIVATE_NAME) (\<lambda>b.
      if b then advancing U
      else bind_action (peeked U) (\<lambda>t. if IsKeyword (t_Type t) then advancing U else expect U IDENT)))"

text \<open>\<open>parseNewTail\<close>, which also sets the fields its callers set: what qualifies the name, or the
  constructor that is not a name.\<close>

definition blank_from :: "unicode_tables \<Rightarrow> nat \<Rightarrow> ('x parser_scheme, unit) parse_action" where
  "blank_from U start p =
    (let (t, p) = Parser_at U (ps_pos p - 1) p in (Inr (), Parser_blank start (t_End t) p))"

definition new_type_args :: "unicode_tables \<Rightarrow> 'a productions \<Rightarrow> nat \<Rightarrow> string \<Rightarrow> ('a, 'a list) expr_action" where
  "new_type_args U P n name = bind_action (next_is U LT) (\<lambda>b.
    if \<not> b then return []
    else bind_action (peeked U) (\<lambda>lt. bind_action (advancing U) (\<lambda>_. bind_action (type_list U P n) (\<lambda>targs.
      bind_action (expectGT U (name @ ''<T>'')) (\<lambda>_. bind_action (blank_from U (t_Pos lt)) (\<lambda>_. return targs))))))"

definition new_args :: "unicode_tables \<Rightarrow> ('a, 'a expr) expr_action \<Rightarrow> nat \<Rightarrow> ('a, 'a expr list) expr_action" where
  "new_args U asg n = bind_action (taken U LPAREN) (\<lambda>b.
    if \<not> b then return []
    else bind_action (parseArgList U asg n) (\<lambda>args. bind_action (expect U RPAREN) (\<lambda>_. return args)))"

definition parseNewTail ::
    "unicode_tables \<Rightarrow> 'a productions \<Rightarrow> ('a, 'a expr) expr_action \<Rightarrow> nat \<Rightarrow> string \<Rightarrow> Pos
     \<Rightarrow> string list \<Rightarrow> 'a expr option \<Rightarrow> ('a, 'a expr) expr_action" where
  "parseNewTail U P asg n name pos path callee = bind_action (new_type_args U P n name) (\<lambda>targs.
    bind_action (new_args U asg n) (\<lambda>args. make (NewExpression name path callee targs args) pos))"

text \<open>The names that qualify a constructor: the loop of \<open>parseNew\<close>.\<close>

primrec qualifiers :: "unicode_tables \<Rightarrow> nat \<Rightarrow> ('x parser_scheme, string list) parse_action" where
  "qualifiers U 0 = refuse Exhausted"
| "qualifiers U (Suc n) = bind_action (both (nth_in U 1 {DOT}) (nth_in U 2 {IDENT})) (\<lambda>b.
    if \<not> b then return []
    else bind_action (advancing U) (\<lambda>t. bind_action (advancing U) (\<lambda>_. bind_action (qualifiers U n) (\<lambda>path.
      return (t_Literal t # path)))))"

text \<open>The members of a constructor that is not a name: the loop of \<open>parseNewOfExpression\<close>.\<close>

primrec new_members :: "unicode_tables \<Rightarrow> ('a, 'a expr) expr_action \<Rightarrow> nat \<Rightarrow> 'a expr \<Rightarrow> ('a, 'a expr) expr_action" where
  "new_members U asg 0 callee = refuse Exhausted"
| "new_members U asg (Suc n) callee = bind_action (taken U DOT) (\<lambda>b.
    if b then bind_action (expectPropertyName U) (\<lambda>t.
      bind_action (make (MemberExpression callee (t_Literal t) False False) (posOf t)) (new_members U asg n))
    else bind_action (next_is U LBRACKET) (\<lambda>b.
      if b then bind_action (advancing U) (\<lambda>t. bind_action (index_rest U asg) (\<lambda>index.
        bind_action (make (IndexExpression callee index False False) (posOf t)) (new_members U asg n)))
      else return callee))"

text \<open>\<open>parseNew\<close>; \<open>primary\<close> is \<open>parsePrimary\<close> for a constructor that is not a name.\<close>

definition parseNew ::
    "unicode_tables \<Rightarrow> 'a productions \<Rightarrow> ('a, 'a expr) expr_action \<Rightarrow> nat \<Rightarrow> ('a, 'a expr) expr_action
     \<Rightarrow> ('a, 'a expr) expr_action" where
  "parseNew U P asg n primary = bind_action (advancing U) (\<lambda>tok.
    bind_action (peeked U) (\<lambda>nameTok.
    bind_action (if t_Type nameTok = DOT then always (isWord U 1 ''target'') else return False) (\<lambda>meta.
    if meta then bind_action (advancing U) (\<lambda>_. bind_action (advancing U) (\<lambda>_. make NewTargetExpression (posOf tok)))
    else bind_action (newTargetIsExpression U n) (\<lambda>b.
      if b then bind_action primary (\<lambda>callee. bind_action (new_members U asg n callee) (\<lambda>callee.
        parseNewTail U P asg n [] (posOf tok) [] (Some callee)))
      else if t_Type nameTok \<noteq> IDENT then reject_at U nameTok ExpectedConstructor []
      else bind_action (qualifiers U n) (\<lambda>path. bind_action (advancing U) (\<lambda>t.
        parseNewTail U P asg n (t_Literal t) (posOf tok) path None))))))"

text \<open>The case of an identifier: \<open>x => \<dots>\<close>, or the name.\<close>

definition bare_arrow ::
    "unicode_tables \<Rightarrow> 'a productions \<Rightarrow> ('a, 'a expr) expr_action \<Rightarrow> Token \<Rightarrow> ('a, 'a expr) expr_action" where
  "bare_arrow U P asg first =
    (let pos = posOf first; params = [(t_Literal first, pos)] in
     bind_action (next_is U LBRACE) (\<lambda>b.
       if b then bind_action (block P) (\<lambda>body. bind_action (always (srcRange U pos)) (\<lambda>src.
         bind_action (make (ArrowFunction params (Inr body) src) pos) (\<lambda>arrow.
         bind_action (update (ps_bareArrow_update (\<lambda>_. Some (ref arrow)))) (\<lambda>_. return arrow))))
       else bind_action asg (\<lambda>body. bind_action (always (srcRange U pos)) (\<lambda>src.
         make (ArrowFunction params (Inl body) src) pos))))"

definition identifier_or_arrow ::
    "unicode_tables \<Rightarrow> 'a productions \<Rightarrow> ('a, 'a expr) expr_action \<Rightarrow> Token \<Rightarrow> ('a, 'a expr) expr_action" where
  "identifier_or_arrow U P asg first =
    (if t_Literal first \<in> reservedWords then reject_at U first ReservedWordIdent [ArgStr (t_Literal first)]
     else bind_action (advancing U) (\<lambda>_. bind_action (peeked U) (\<lambda>t.
       if t_Type t = ARROW \<and> HasPrecedingLineBreak t then reject_at U t LineBreakBeforeArrow []
       else bind_action (next_is U ARROW) (\<lambda>b.
         if b then bind_action (advancing U) (\<lambda>_. bare_arrow U P asg first)
         else make (Identifier (t_Literal first)) (posOf first)))))"

text \<open>A parenthesized group holds an arrow's parameters: the conditions of the case of \<open>(\<close>.\<close>

definition isArrow :: "unicode_tables \<Rightarrow> 'a productions \<Rightarrow> nat \<Rightarrow> ('a, bool) expr_action" where
  "isArrow U P n = bind_action (always (peekNth U 1)) (\<lambda>t1.
    (let name = t_Type t1 = IDENT; when = (\<lambda>c a. if c then a else return False) in
     either (when (t_Type t1 = RPAREN) (nth_in U 2 {ARROW, COLON}))
    (either (when name (nth_in U 2 {COLON}))
    (either (when name (both (nth_in U 2 {RPAREN}) (nth_in U 3 {ARROW})))
    (either (when name (both (nth_in U 2 {RPAREN}) (both (nth_in U 3 {COLON}) (typeThenArrowAt U P 4))))
    (either (when name (both (nth_in U 2 {COMMA}) (parenGroupFollowedByArrowAt U P n 0)))
    (either (when name (both (nth_in U 2 {QUESTION}) (nth_in U 3 {COLON, RPAREN, COMMA})))
    (either (return (t_Type t1 = ELLIPSIS))
    (either (when (t_Type t1 = LBRACE \<or> t_Type t1 = LBRACKET) (destructuredArrowParamLookahead U n))
      (when name (both (nth_in U 2 {ASSIGN}) (parenGroupFollowedByArrowAt U P n 0))))))))))))"

text \<open>The operands of a comma operator after the first.\<close>

primrec comma_operands :: "unicode_tables \<Rightarrow> ('a, 'a expr) expr_action \<Rightarrow> nat \<Rightarrow> ('a, 'a expr list) expr_action" where
  "comma_operands U asg 0 = refuse Exhausted"
| "comma_operands U asg (Suc n) = bind_action (next_is U COMMA) (\<lambda>b.
    if \<not> b then return []
    else bind_action (advancing U) (\<lambda>_. bind_action asg (\<lambda>e. bind_action (comma_operands U asg n) (\<lambda>es. return (e # es)))))"

definition parenthesized :: "unicode_tables \<Rightarrow> ('a, 'a expr) expr_action \<Rightarrow> nat \<Rightarrow> ('a, 'a expr) expr_action" where
  "parenthesized U asg n = bind_action (advancing U) (\<lambda>lparen. bind_action asg (\<lambda>e.
    bind_action (next_is U COMMA) (\<lambda>b.
    bind_action (if b then bind_action (comma_operands U asg n) (\<lambda>es. make (SequenceExpression (e # es)) (posOf lparen))
                 else return e) (\<lambda>e.
    bind_action (expect U RPAREN) (\<lambda>_.
    bind_action (update (ps_bareArrow_update (\<lambda>_. None))) (\<lambda>_.
    bind_action (case node_of e of ObjectLiteral _ _ \<Rightarrow> update (ps_parenLiterals_update (insert (ref e)))
                 | ArrayLiteral _ _ \<Rightarrow> update (ps_parenLiterals_update (insert (ref e)))
                 | _ \<Rightarrow> return ()) (\<lambda>_.
    return (end_chain e))))))))"

text \<open>A function expression: its own name is read in its own context.\<close>

definition function_expression :: "unicode_tables \<Rightarrow> 'a productions \<Rightarrow> Token \<Rightarrow> ('a, 'a expr) expr_action" where
  "function_expression U P first = bind_action (advancing U) (\<lambda>_. bind_action (taken U STAR) (\<lambda>isGen p.
    (let savedGen = ps_inGen p; savedAwait = ps_awaitCtx p in
     bind_action (update (\<lambda>p. p\<lparr>ps_inGen := isGen, ps_awaitCtx := awaitFn\<rparr>)) (\<lambda>_.
     bind_action (either (next_is U IDENT) (next_is U AWAIT)) (\<lambda>named.
     bind_action (if named then bind_action (advancing U) (\<lambda>t. return (t_Literal t)) else return []) (\<lambda>name.
     bind_action (update (\<lambda>p. p\<lparr>ps_inGen := savedGen, ps_awaitCtx := savedAwait\<rparr>)) (\<lambda>_.
     bind_action (functionRest P name isGen) (\<lambda>fd. make (FunctionExpression name fd isGen) (posOf first)))))) p)))"

definition class_expression :: "unicode_tables \<Rightarrow> 'a productions \<Rightarrow> Token \<Rightarrow> ('a, 'a expr) expr_action" where
  "class_expression U P first = bind_action (classDecl P) (\<lambda>decl.
    bind_action (always (srcRange U (posOf first))) (\<lambda>src. make (ClassExpression decl src) (posOf first)))"

text \<open>A token that is an expression of its own.\<close>

definition literal_node :: "Token \<Rightarrow> ('a, 'a expr) node option" where
  "literal_node t =
    (let typ = t_Type t in
     if typ = NUMBER then Some (NumberLiteral (t_Literal t) False)
     else if typ = BIGINT then Some (NumberLiteral (t_Literal t) True)
     else if typ = STRING then Some (StringLiteral (t_Literal t))
     else if typ = TEMPLATE_NO_SUB then Some (TemplateLiteral [t_Literal t] [])
     else if typ = TRUE then Some (BooleanLiteral True)
     else if typ = FALSE then Some (BooleanLiteral False)
     else if typ = NULL then Some (NullLiteral False False False)
     else if typ = UNDEFINED then Some (NullLiteral True False False)
     else if typ = THIS then Some ThisExpression
     else if typ = SUPER then Some SuperExpression
     else None)"

definition regex_literal :: "unicode_tables \<Rightarrow> Token \<Rightarrow> ('a, 'a expr) expr_action" where
  "regex_literal U t = bind_action (advancing U) (\<lambda>_.
    bind_action (make (StringLiteral (t_Literal t)) (posOf t)) (\<lambda>pattern.
    bind_action (make (StringLiteral (t_RegexFlags t)) (posOf t)) (\<lambda>flags.
    make (NewRegExpExpression pattern flags) (posOf t))))"

text \<open>\<open>parsePrimary\<close>; the recursion is \<open>new\<close>'s, whose constructor is no \<open>new\<close> itself.\<close>

primrec parsePrimary ::
    "unicode_tables \<Rightarrow> 'a productions \<Rightarrow> ('a, 'a expr) expr_action \<Rightarrow> nat \<Rightarrow> nat \<Rightarrow> ('a, 'a expr) expr_action" where
  "parsePrimary U P asg n 0 = refuse Exhausted"
| "parsePrimary U P asg n (Suc k) = bind_action (peekPrimary U) (\<lambda>t.
    (case literal_node t of
       Some node \<Rightarrow> bind_action (advancing U) (\<lambda>_. make node (posOf t))
     | None \<Rightarrow>
         if t_Type t = TEMPLATE_HEAD then parseTemplateLiteral U asg n
         else if t_Type t = REGEX then regex_literal U t
         else if t_Type t = IDENT
         then bind_action (asyncFunctionAhead U P n) (\<lambda>b. if b then asyncFunction P t else identifier_or_arrow U P asg t)
         else if t_Type t = LPAREN
         then bind_action (isArrow U P n) (\<lambda>b. if b then arrowFunction P else parenthesized U asg n)
         else if t_Type t = LBRACKET then parseArrayLiteral U asg n
         else if t_Type t = LBRACE then objectLiteral P
         else if t_Type t = NEW then parseNew U P asg n (parsePrimary U P asg n k)
         else if t_Type t = IMPORT then importExpr P
         else if t_Type t = CLASS then class_expression U P t
         else if t_Type t = FUNCTION then function_expression U P t
         else reject_at U t UnexpectedTokenInExpr [type_arg (t_Type t)]))"

section \<open>Calls and members\<close>

definition is_bare_arrow :: "'a expr \<Rightarrow> 'a expr_parser \<Rightarrow> bool \<times> 'a expr_parser" where
  "is_bare_arrow e p = ((case node_of e of ArrowFunction _ _ _ \<Rightarrow> ps_bareArrow p = Some (ref e) | _ \<Rightarrow> False), p)"

definition callable_with_types :: "'a expr \<Rightarrow> bool" where
  "callable_with_types e =
    (case node_of e of Identifier _ \<Rightarrow> True | MemberExpression _ _ _ _ \<Rightarrow> True | IndexExpression _ _ _ _ \<Rightarrow> True
     | CallExpression _ _ _ _ _ _ _ \<Rightarrow> True | SuperExpression \<Rightarrow> True | _ \<Rightarrow> False)"

text \<open>A call from its parenthesis on: \<open>start\<close> is where the chain began.\<close>

definition call_rest ::
    "unicode_tables \<Rightarrow> ('a, 'a expr) expr_action \<Rightarrow> nat \<Rightarrow> nat \<Rightarrow> 'a expr \<Rightarrow> 'a list \<Rightarrow> bool \<Rightarrow> ('a, 'a expr) expr_action" where
  "call_rest U asg n start callee targs opt = bind_action (advancing U) (\<lambda>lparen.
    bind_action (parseArgList U asg n) (\<lambda>args. bind_action (expect U RPAREN) (\<lambda>rp p.
      make (CallExpression callee args (callSource start (t_End rp) p) targs None opt False) (posOf lparen) p)))"

definition index_access :: "unicode_tables \<Rightarrow> ('a, 'a expr) expr_action \<Rightarrow> 'a expr \<Rightarrow> bool \<Rightarrow> ('a, 'a expr) expr_action" where
  "index_access U asg obj opt = bind_action (advancing U) (\<lambda>lbrak. bind_action (index_rest U asg) (\<lambda>index.
    make (IndexExpression obj index opt False) (posOf lbrak)))"

definition member_access :: "unicode_tables \<Rightarrow> 'a expr \<Rightarrow> bool \<Rightarrow> ('a, 'a expr) expr_action" where
  "member_access U obj opt = bind_action (expectPropertyName U) (\<lambda>t.
    make (MemberExpression obj (t_Literal t) opt False) (posOf t))"

definition tagged_template ::
    "unicode_tables \<Rightarrow> ('a, 'a expr) expr_action \<Rightarrow> nat \<Rightarrow> 'a expr \<Rightarrow> 'a list \<Rightarrow> ('a, 'a expr) expr_action" where
  "tagged_template U asg n e targs = bind_action (advancing U) (\<lambda>t.
    bind_action (if t_Type t = TEMPLATE_HEAD then parseTemplateRestRaw U asg n (t_Literal t) (t_Raw t)
                 else return ([t_Literal t], [t_Raw t], [])) (\<lambda>(quasis, raws, es).
      make (TaggedTemplateExpression e quasis raws es targs) (posOf t)))"

text \<open>The speculative type arguments after a \<open><\<close>: \<open>None\<close> when they do not parse. The token index
  \<open>save\<close> is the \<open><\<close>'s.\<close>

definition speculative_types :: "unicode_tables \<Rightarrow> 'a productions \<Rightarrow> nat \<Rightarrow> nat \<Rightarrow> ('a, 'a list option) expr_action" where
  "speculative_types U P n save p =
    (let p = p\<lparr>ps_speculating := ps_speculating p + 1\<rparr>;
         (r, p) = bind_action (type_list U P n) (\<lambda>targs. bind_action (expectGT U ''call-site type arguments'') (\<lambda>_ p.
           (let (t, p) = Parser_at U save p in
            bind_action (blank_from U (t_Pos t)) (\<lambda>_. return targs) p))) p;
         p = p\<lparr>ps_speculating := ps_speculating p - 1\<rparr>
     in case r of
          Inr targs \<Rightarrow> (Inr (Some targs), p)
        | Inl (Rejected _) \<Rightarrow> (Inr None, p)
        | Inl e \<Rightarrow> (Inl e, p))"

text \<open>A \<open><\<close> after a callee: the call or tagged template with type arguments, or \<open>None\<close> when it is
  left for the relational operator.\<close>

definition typed_call ::
    "unicode_tables \<Rightarrow> 'a productions \<Rightarrow> ('a, 'a expr) expr_action \<Rightarrow> nat \<Rightarrow> nat \<Rightarrow> 'a expr \<Rightarrow> ('a, 'a expr option) expr_action" where
  "typed_call U P asg n start e p =
    (let save = ps_pos p in
     bind_action (advancing U) (\<lambda>_. bind_action (speculative_types U P n save) (\<lambda>r.
     (case r of
        None \<Rightarrow> bind_action (rewind save) (\<lambda>_. return None)
      | Some targs \<Rightarrow> bind_action (type_in U {TEMPLATE_NO_SUB, TEMPLATE_HEAD}) (\<lambda>template.
          if template then bind_action (tagged_template U asg n e targs) (\<lambda>e. return (Some e))
          else bind_action (next_is U LPAREN) (\<lambda>call.
            if call then bind_action (call_rest U asg n start e targs False) (\<lambda>e. return (Some e))
            else bind_action (rewind save) (\<lambda>_. return None)))))) p)"

text \<open>The loop of \<open>parseCallMember\<close>.\<close>

primrec call_member ::
    "unicode_tables \<Rightarrow> 'a productions \<Rightarrow> ('a, 'a expr) expr_action \<Rightarrow> nat \<Rightarrow> nat \<Rightarrow> nat \<Rightarrow> 'a expr \<Rightarrow> ('a, 'a expr) expr_action" where
  "call_member U P asg n start 0 e = refuse Exhausted"
| "call_member U P asg n start (Suc k) e = bind_action (peeked U) (\<lambda>t.
    (let again = (\<lambda>a. bind_action a (call_member U P asg n start k)) in
     if t_Type t = OPTIONAL_DOT
     then bind_action (advancing U) (\<lambda>_. bind_action (next_is U LPAREN) (\<lambda>call.
       if call then again (call_rest U asg n start e [] True)
       else bind_action (next_is U LBRACKET) (\<lambda>index.
         if index then again (index_access U asg e True) else again (member_access U e True))))
     else if t_Type t = DOT then bind_action (advancing U) (\<lambda>_. again (member_access U e False))
     else if t_Type t = LBRACKET then again (index_access U asg e False)
     else if t_Type t = NOT
     then bind_action (advancing U) (\<lambda>t. bind_action (update (Parser_blank (t_Pos t) (t_End t))) (\<lambda>_.
       again (make (NonNullExpression e) (posOf t))))
     else if t_Type t = LT
     then (if \<not> callable_with_types e then return e
           else bind_action (typed_call U P asg n start e) (\<lambda>r.
             case r of None \<Rightarrow> return e | Some e \<Rightarrow> call_member U P asg n start k e))
     else if t_Type t = LPAREN then again (call_rest U asg n start e [] False)
     else if t_Type t = TEMPLATE_NO_SUB \<or> t_Type t = TEMPLATE_HEAD then again (tagged_template U asg n e [])
     else return e))"

definition parseCallMember :: "unicode_tables \<Rightarrow> 'a productions \<Rightarrow> ('a, 'a expr) expr_action \<Rightarrow> nat \<Rightarrow> ('a, 'a expr) expr_action" where
  "parseCallMember U P asg n = bind_action (peeked U) (\<lambda>t.
    bind_action (parsePrimary U P asg n n) (\<lambda>e. bind_action (always (is_bare_arrow e)) (\<lambda>b.
      if b then return e else call_member U P asg n (t_Pos t) n e)))"

section \<open>Unary operators\<close>

definition parsePostfix :: "unicode_tables \<Rightarrow> 'a productions \<Rightarrow> ('a, 'a expr) expr_action \<Rightarrow> nat \<Rightarrow> ('a, 'a expr) expr_action" where
  "parsePostfix U P asg n = bind_action (parseCallMember U P asg n) (\<lambda>e. bind_action (peeked U) (\<lambda>t.
    if (t_Type t = INC \<or> t_Type t = DEC) \<and> \<not> HasPrecedingLineBreak t
    then bind_action (advancing U) (\<lambda>opTok.
      if \<not> assignTarget e False then reject_at U opTok InvalidUpdateTarget []
      else make (UpdateExpression (t_Literal opTok) False e) (posOf opTok))
    else return e))"

text \<open>\<open>assert\<close> records an erased assertion on an expression.\<close>

definition Parser_assert :: "'a expr \<Rightarrow> ('a assertion \<Rightarrow> 'a assertion) \<Rightarrow> ('a, unit) expr_action" where
  "Parser_assert e change = update (\<lambda>p.
    (let a = (case ps_assertions p (ref e) of Some a \<Rightarrow> a
              | None \<Rightarrow> \<lparr>a_Const = False, a_Satisfies = None, a_Cast = None\<rparr>)
     in p\<lparr>ps_assertions := (ps_assertions p)(ref e \<mapsto> change a)\<rparr>))"

text \<open>The operand of \<open>void\<close> is kept unless it has no effects.\<close>

definition effect_free :: "'a expr \<Rightarrow> bool" where
  "effect_free e =
    (case node_of e of NumberLiteral _ _ \<Rightarrow> True | StringLiteral _ \<Rightarrow> True | BooleanLiteral _ \<Rightarrow> True
     | NullLiteral _ _ _ \<Rightarrow> True | _ \<Rightarrow> False)"

text \<open>\<open><T>e\<close>, with \<open>unary\<close> the parse of the operand.\<close>

definition cast ::
    "unicode_tables \<Rightarrow> 'a productions \<Rightarrow> ('a, 'a expr) expr_action \<Rightarrow> ('a, 'a expr) expr_action" where
  "cast U P unary = bind_action (advancing U) (\<lambda>_. bind_action (typeAnnotation P ''as'') (\<lambda>ta.
    bind_action (expectGT U ''type assertion'') (\<lambda>_. bind_action unary (\<lambda>operand.
    bind_action (Parser_assert operand (a_Cast_update (\<lambda>_. Some ta))) (\<lambda>_. return operand)))))"

text \<open>The expression an operator makes of its operand.\<close>

definition prefix_result :: "unicode_tables \<Rightarrow> Token \<Rightarrow> 'a expr \<Rightarrow> ('a, 'a expr) expr_action" where
  "prefix_result U opTok arg =
    (let typ = t_Type opTok; pos = posOf opTok in
     if typ = TYPEOF then make (UnaryExpression ''typeof'' arg) pos
     else if typ = VOID
     then bind_action (make (NullLiteral True True False) pos) (\<lambda>u.
       if effect_free arg then return u else make (SequenceExpression [arg, u]) pos)
     else if typ = INC \<or> typ = DEC
     then (if \<not> assignTarget arg False then reject_at U opTok InvalidUpdateTarget []
           else make (UpdateExpression (t_Literal opTok) True arg) pos)
     else if typ = AWAIT then make (AwaitExpression arg) pos
     else make (UnaryExpression (t_Literal opTok) arg) pos)"

definition prefix_operators :: "TokenType set" where
  "prefix_operators = {NOT, BITNOT, MINUS, PLUS, TYPEOF, VOID, INC, DEC, AWAIT}"

primrec parseUnary ::
    "unicode_tables \<Rightarrow> 'a productions \<Rightarrow> ('a, 'a expr) expr_action \<Rightarrow> nat \<Rightarrow> nat \<Rightarrow> ('a, 'a expr) expr_action" where
  "parseUnary U P asg n 0 = refuse Exhausted"
| "parseUnary U P asg n (Suc k) = bind_action (word U ''delete'') (\<lambda>delete.
    if delete
    then bind_action (advancing U) (\<lambda>opTok. bind_action (parseUnary U P asg n k) (\<lambda>arg.
      make (UnaryExpression ''delete'' arg) (posOf opTok)))
    else bind_action (both (next_is U LT) (genericArrowAhead U P n)) (\<lambda>generic.
      if generic then genericArrow P
      else bind_action (next_is U LT) (\<lambda>lt.
        if lt then cast U P (parseUnary U P asg n k)
        else bind_action (peeked U) (\<lambda>t.
          if t_Type t \<in> prefix_operators
          then bind_action (advancing U) (\<lambda>opTok. bind_action (parseUnary U P asg n k) (prefix_result U opTok))
          else parsePostfix U P asg n))))"

section \<open>Binary operators\<close>

text \<open>The operator of an unparenthesized unary expression, which \<open>**\<close> may not take on its left.\<close>

definition unaryOperatorStart :: "Token \<Rightarrow> 'a expr \<Rightarrow> string" where
  "unaryOperatorStart t left =
    (if t_Type t \<in> {MINUS, PLUS, NOT, BITNOT, TYPEOF, VOID} then t_Literal t
     else if t_Type t = AWAIT then (case node_of left of Identifier _ \<Rightarrow> [] | _ \<Rightarrow> t_Literal t)
     else if t_Type t = IDENT \<and> t_Literal t = ''delete'' then t_Literal t
     else [])"

primrec parseExponentiation ::
    "unicode_tables \<Rightarrow> 'a productions \<Rightarrow> ('a, 'a expr) expr_action \<Rightarrow> nat \<Rightarrow> nat \<Rightarrow> ('a, 'a expr) expr_action" where
  "parseExponentiation U P asg n 0 = refuse Exhausted"
| "parseExponentiation U P asg n (Suc k) = bind_action (peeked U) (\<lambda>startTok.
    bind_action (parseUnary U P asg n n) (\<lambda>left. bind_action (type_in U {POW}) (\<lambda>pow.
      if \<not> pow then return left
      else (let opText = unaryOperatorStart startTok left in
        if opText \<noteq> [] then reject_at U startTok ExponentUnaryAmbiguous [ArgStr opText, ArgStr opText, ArgStr opText]
        else bind_action (advancing U) (\<lambda>opTok. bind_action (parseExponentiation U P asg n k) (\<lambda>right.
          make (BinaryExpression ''**'' left right) (posOf opTok)))))))"

text \<open>A level of left-associative operators: \<open>ahead\<close> asks for one, \<open>operand\<close> is the next level.\<close>

primrec binary_rest ::
    "unicode_tables \<Rightarrow> ('a, bool) expr_action \<Rightarrow> ('a, 'a expr) expr_action \<Rightarrow> nat \<Rightarrow> 'a expr \<Rightarrow> ('a, 'a expr) expr_action" where
  "binary_rest U ahead operand 0 left = refuse Exhausted"
| "binary_rest U ahead operand (Suc k) left = bind_action ahead (\<lambda>b.
    if \<not> b then return left
    else bind_action (advancing U) (\<lambda>opTok. bind_action operand (\<lambda>right.
      bind_action (make (BinaryExpression (t_Literal opTok) left right) (posOf opTok)) (binary_rest U ahead operand k))))"

definition binary_level ::
    "unicode_tables \<Rightarrow> ('a, bool) expr_action \<Rightarrow> ('a, 'a expr) expr_action \<Rightarrow> nat \<Rightarrow> ('a, 'a expr) expr_action" where
  "binary_level U ahead operand n = bind_action operand (binary_rest U ahead operand n)"

text \<open>The token re-read as an operator is the first, or the token is among the others.\<close>

definition operator_in :: "unicode_tables \<Rightarrow> TokenType \<Rightarrow> TokenType set \<Rightarrow> ('x parser_scheme, bool) parse_action" where
  "operator_in U first others = bind_action (peekOperator U) (\<lambda>t. if t_Type t = first then return True else type_in U others)"

definition parseMultiplicative ::
    "unicode_tables \<Rightarrow> 'a productions \<Rightarrow> ('a, 'a expr) expr_action \<Rightarrow> nat \<Rightarrow> ('a, 'a expr) expr_action" where
  "parseMultiplicative U P asg n =
    binary_level U (operator_in U STAR {SLASH, PERCENT}) (parseExponentiation U P asg n n) n"

definition parseAdditive ::
    "unicode_tables \<Rightarrow> 'a productions \<Rightarrow> ('a, 'a expr) expr_action \<Rightarrow> nat \<Rightarrow> ('a, 'a expr) expr_action" where
  "parseAdditive U P asg n = binary_level U (type_in U {PLUS, MINUS}) (parseMultiplicative U P asg n) n"

definition parseShift ::
    "unicode_tables \<Rightarrow> 'a productions \<Rightarrow> ('a, 'a expr) expr_action \<Rightarrow> nat \<Rightarrow> ('a, 'a expr) expr_action" where
  "parseShift U P asg n = binary_level U (operator_in U LSHIFT {RSHIFT, URSHIFT}) (parseAdditive U P asg n) n"

section \<open>Relations and assertions\<close>

text \<open>\<open>parseAssertion\<close>: the expression, and whether there was an assertion.\<close>

definition parseAssertion :: "unicode_tables \<Rightarrow> 'a productions \<Rightarrow> 'a expr \<Rightarrow> ('a, 'a expr \<times> bool) expr_action" where
  "parseAssertion U P left = bind_action (peeked U) (\<lambda>t.
    if t_Type t \<noteq> IDENT \<or> t_Literal t \<noteq> ''as'' \<and> t_Literal t \<noteq> ''satisfies'' \<or> HasPrecedingLineBreak t
    then return (left, False)
    else bind_action (advancing U) (\<lambda>kw.
      bind_action (if t_Literal kw = ''as'' then next_is U CONSTK else return False) (\<lambda>const.
      if const
      then bind_action (advancing U) (\<lambda>_.
        bind_action (Parser_assert left (a_Const_update (\<lambda>_. True))) (\<lambda>_. return (left, True)))
      else bind_action (typeAnnotation P ''as'') (\<lambda>ta.
        if t_Literal kw = ''satisfies''
        then bind_action (Parser_assert left (a_Satisfies_update (\<lambda>_. Some ta))) (\<lambda>_. return (left, True))
        else (case assertableCall left ta of
            Some left \<Rightarrow> return (left, True)
          | None \<Rightarrow> bind_action (make (AsExpression left ta) (posOf kw)) (\<lambda>left. return (left, True)))))))"

definition not_excluded :: "unicode_tables \<Rightarrow> ('x parser_scheme, bool) parse_action" where
  "not_excluded U = bind_action (always (inExcluded U)) (\<lambda>b. return (\<not> b))"

definition relational_ahead :: "unicode_tables \<Rightarrow> ('x parser_scheme, bool) parse_action" where
  "relational_ahead U =
    either (operator_in U LT {GT, LTE, GTE, INSTANCEOF}) (both (word U ''in'') (not_excluded U))"

primrec relational_rest ::
    "unicode_tables \<Rightarrow> 'a productions \<Rightarrow> ('a, 'a expr) expr_action \<Rightarrow> nat \<Rightarrow> 'a expr \<Rightarrow> ('a, 'a expr) expr_action" where
  "relational_rest U P operand 0 left = refuse Exhausted"
| "relational_rest U P operand (Suc k) left = bind_action (parseAssertion U P left) (\<lambda>(left, asserted).
    if asserted then relational_rest U P operand k left
    else bind_action (relational_ahead U) (\<lambda>b.
      if \<not> b then return left
      else bind_action (advancing U) (\<lambda>opTok. bind_action (peeked U) (\<lambda>rtok. bind_action operand (\<lambda>right.
        bind_action (always (is_bare_arrow right)) (\<lambda>arrow.
          if arrow then reject_at U rtok UnexpectedTokenInExpr [ArgStr ''=>'']
          else bind_action (make (BinaryExpression (t_Literal opTok) left right) (posOf opTok))
            (relational_rest U P operand k)))))))"

text \<open>\<open>#x in o\<close>: the private name is the left operand.\<close>

definition brand_check :: "unicode_tables \<Rightarrow> ('x parser_scheme, bool) parse_action" where
  "brand_check U = both (type_in U {PRIVATE_NAME}) (both (always (isWord U 1 ''in'')) (not_excluded U))"

definition parseRelational ::
    "unicode_tables \<Rightarrow> 'a productions \<Rightarrow> ('a, 'a expr) expr_action \<Rightarrow> nat \<Rightarrow> ('a, 'a expr) expr_action" where
  "parseRelational U P asg n = bind_action (brand_check U) (\<lambda>b.
    bind_action
      (if b then bind_action (advancing U) (\<lambda>t. make (Identifier (t_Literal t)) (posOf t)) else parseShift U P asg n)
      (relational_rest U P (parseShift U P asg n) n))"

section \<open>The levels above\<close>

definition parseEquality where
  "parseEquality U P asg n = binary_level U (type_in U {EQ, NEQ, STRICT_EQ, STRICT_NEQ}) (parseRelational U P asg n) n"

definition parseBitwiseAnd where
  "parseBitwiseAnd U P asg n = binary_level U (next_is U BITAND) (parseEquality U P asg n) n"

definition parseBitwiseXor where
  "parseBitwiseXor U P asg n = binary_level U (next_is U BITXOR) (parseBitwiseAnd U P asg n) n"

definition parseBitwiseOr where
  "parseBitwiseOr U P asg n = binary_level U (next_is U BITOR) (parseBitwiseXor U P asg n) n"

definition parseLogicalAnd where
  "parseLogicalAnd U P asg n = binary_level U (next_is U AND) (parseBitwiseOr U P asg n) n"

definition parseLogicalOr where
  "parseLogicalOr U P asg n = binary_level U (next_is U OR) (parseLogicalAnd U P asg n) n"

definition parseNullish where
  "parseNullish U P asg n = binary_level U (next_is U NULLISH) (parseLogicalOr U P asg n) n"

definition parseTernary ::
    "unicode_tables \<Rightarrow> 'a productions \<Rightarrow> ('a, 'a expr) expr_action \<Rightarrow> nat \<Rightarrow> ('a, 'a expr) expr_action" where
  "parseTernary U P asg n = bind_action (parseNullish U P asg n) (\<lambda>cond. bind_action (next_is U QUESTION) (\<lambda>b.
    if \<not> b then return cond
    else bind_action (advancing U) (\<lambda>_. bind_action asg (\<lambda>thn. bind_action (expect U COLON) (\<lambda>_. bind_action asg (\<lambda>alt.
      make (ConditionalExpression cond thn alt) (GetPos cond)))))))"

section \<open>Assignments\<close>

definition parseYield :: "unicode_tables \<Rightarrow> ('a, 'a expr) expr_action \<Rightarrow> ('a, 'a expr) expr_action" where
  "parseYield U asg = bind_action (advancing U) (\<lambda>t p.
    (let pos = posOf t in
     if ps_inGenParams p then reject (errAtPos U pos YieldInGeneratorParams []) p
     else bind_action (peeked U) (\<lambda>t.
       bind_action (if HasPrecedingLineBreak t then return False else taken U STAR) (\<lambda>delegate.
       bind_action (if delegate then return False else bind_action (peeked U) (\<lambda>t. return (HasPrecedingLineBreak t))) (\<lambda>bare.
       if bare then make (YieldExpression None delegate) pos
       else bind_action (type_in U {SEMICOLON, RPAREN, RBRACKET, RBRACE, COMMA, COLON, EOF}) (\<lambda>bare.
         if bare then make (YieldExpression None delegate) pos
         else bind_action asg (\<lambda>arg. make (YieldExpression (Some arg) delegate) pos))))) p))"

definition assign_operators :: "TokenType set" where
  "assign_operators = {ASSIGN, PLUS_ASSIGN, MINUS_ASSIGN, STAR_ASSIGN, POW_ASSIGN, SLASH_ASSIGN, PERCENT_ASSIGN,
     AND_ASSIGN, OR_ASSIGN, XOR_ASSIGN, LSHIFT_ASSIGN, RSHIFT_ASSIGN, URSHIFT_ASSIGN, LOGICAL_AND_ASSIGN,
     LOGICAL_OR_ASSIGN, NULLISH_ASSIGN}"

definition is_call :: "'a expr \<Rightarrow> bool" where
  "is_call e = (case node_of e of CallExpression _ _ _ _ _ _ _ \<Rightarrow> True | _ \<Rightarrow> False)"

definition target_ok :: "TokenType \<Rightarrow> 'a expr \<Rightarrow> nat set \<Rightarrow> bool" where
  "target_ok typ left parens =
    (let logical = typ = LOGICAL_AND_ASSIGN \<or> typ = LOGICAL_OR_ASSIGN \<or> typ = NULLISH_ASSIGN in
     \<not> (\<not> assignTarget left (typ = ASSIGN) \<or> is_call left \<and> logical \<or> ref left \<in> parens))"

definition assignment_step ::
    "unicode_tables \<Rightarrow> 'a productions \<Rightarrow> ('a, 'a expr) expr_action \<Rightarrow> nat \<Rightarrow> ('a, 'a expr) expr_action" where
  "assignment_step U P asg n = bind_action (either (next_is U YIELD) (yieldExprOutsideGenerator U)) (\<lambda>yield.
    if yield then parseYield U asg
    else bind_action (parseTernary U P asg n) (\<lambda>left. bind_action (peekOperator U) (\<lambda>t.
      if t_Type t \<in> assign_operators
      then bind_action (advancing U) (\<lambda>opTok p.
        if \<not> target_ok (t_Type opTok) left (ps_parenLiterals p) then reject_at U opTok InvalidAssignTarget [] p
        else bind_action asg (\<lambda>right. make (AssignmentExpression (t_Literal opTok) left right) (posOf opTok)) p)
      else return left)))"

primrec parseAssignment :: "unicode_tables \<Rightarrow> 'a productions \<Rightarrow> nat \<Rightarrow> ('a, 'a expr) expr_action" where
  "parseAssignment U P 0 = refuse Exhausted"
| "parseAssignment U P (Suc n) = assignment_step U P (parseAssignment U P n) (Suc n)"

definition parseExpression :: "unicode_tables \<Rightarrow> 'a productions \<Rightarrow> nat \<Rightarrow> ('a, 'a expr) expr_action" where
  "parseExpression = parseAssignment"

end
