(* ===== verification/Following.thy ===== *)
theory Following
  imports Reading Expressions
begin

text \<open>
  The rules for the actions that take tokens, read them again or build nodes.
\<close>

section \<open>Taking tokens\<close>

text \<open>One token on: the tokens are as they were, and the next one is yet to be read.\<close>

definition stepped :: "unicode_tables \<Rightarrow> string \<Rightarrow> 'x parser_scheme \<Rightarrow> 'x parser_scheme \<Rightarrow> bool" where
  "stepped U src p q \<longleftrightarrow> fresh q \<and> ps_pos q = Suc (ps_pos p) \<and> (\<forall>i. tok_at U i q = tok_at U i p)
    \<and> (t_Type (nxt U p) \<noteq> EOF \<longrightarrow> left src q < left src p)"

lemma stepped_same: "same U p q \<Longrightarrow> stepped U src q r \<Longrightarrow> stepped U src p r"
  by (auto simp: stepped_def same_def left_def)

lemma steppedD:
  assumes "stepped U src p q"
  shows "fresh q" "ps_pos q = Suc (ps_pos p)" "tok_at U i q = tok_at U i p"
    "t_Type (nxt U p) \<noteq> EOF \<Longrightarrow> left src q < left src p"
  using assms by (simp_all add: stepped_def)

lemma leads_advance:
  assumes "at_after U src p0 ts p"
    and "\<And>q. at_after U src p0 (ts @ [nxt U p]) q \<Longrightarrow> stepped U src p q \<Longrightarrow> Q (nxt U p) q"
  shows "leads U src p0 (always (Parser_advance U)) Q p"
proof -
  obtain t q where a: "Parser_advance U p = (t, q)" by fastforce
  have t: "t = nxt U p" using a by (auto simp: Parser_advance_def nxt_def split: prod.splits)
  have s: "on_stream U src p" using at_afterD(1) [OF assms(1)] .
  then obtain m where m: "stream_ok U src m p" "settled p" unfolding on_stream_def by blast
  have pos: "ps_pos q = Suc (ps_pos p)" using advance_here(3) [OF m(1) a] by simp
  have "ps_rescans q = ps_rescans p"
    using a by (auto simp: Parser_advance_def split: prod.splits) (metis Parser_peek_fields(2) snd_conv)
  then have "fresh q" using m(2) pos by (auto simp: fresh_def settled_def less_Suc_eq_le)
  moreover have "at_after U src p0 (ts @ [nxt U p]) q"
    using assms(1) took.take [OF _ a] t unfolding at_after_def by blast
  moreover have "t_Type (nxt U p) \<noteq> EOF \<Longrightarrow> left src q < left src p"
    using nxt_left [OF s] pos by (simp add: left_def)
  moreover have "tok_at U i q = tok_at U i p" for i
    using tok_at_stream [OF m(1)] tok_at_stream [OF advance_here(2) [OF m(1) a]] by simp
  ultimately have "Q (nxt U p) q" using assms(2) pos by (simp add: stepped_def)
  then show ?thesis using a t by (simp add: leads_def always_def)
qed

lemma leads_peek:
  assumes "at_after U src p0 ts p"
    and "\<And>q. at_after U src p0 ts q \<Longrightarrow> same U p q \<Longrightarrow> Q (nxt U p) q"
  shows "leads U src p0 (always (Parser_peek U)) Q p"
  by (rule leads_glance [OF glances_peeked [of U src "\<lambda>_. True"] assms(1)])
    (use assms(2) in \<open>auto simp: always_def nxt_def split: prod.splits\<close>)

lemma leads_look:
  assumes "at_after U src p0 ts p"
  shows "(\<And>q. at_after U src p0 ts q \<Longrightarrow> same U p q \<Longrightarrow> Q (t_Type (nxt U p) = typ) q) \<Longrightarrow> leads U src p0 (next_is U typ) Q p"
    "(\<And>q. at_after U src p0 ts q \<Longrightarrow> same U p q \<Longrightarrow> Q (t_Type (nxt U p) \<in> typs) q) \<Longrightarrow> leads U src p0 (type_in U typs) Q p"
    "(\<And>q. at_after U src p0 ts q \<Longrightarrow> same U p q \<Longrightarrow> Q (t_Type (nxt U p) = IDENT \<and> t_Literal (nxt U p) = w) q) \<Longrightarrow>
      leads U src p0 (word U w) Q p"
proof -
  have chk: "always (check U typ) = bind_action (always (Parser_peek U)) (\<lambda>t. return (t_Type t = typ))"
    by (auto simp: bind_action_def always_def return_def check_def split: prod.splits)
  show "(\<And>q. at_after U src p0 ts q \<Longrightarrow> same U p q \<Longrightarrow> Q (t_Type (nxt U p) = typ) q) \<Longrightarrow> leads U src p0 (next_is U typ) Q p"
    unfolding next_is_def chk by (rule leads_bind, rule leads_peek [OF assms], rule leads_return)
  show "(\<And>q. at_after U src p0 ts q \<Longrightarrow> same U p q \<Longrightarrow> Q (t_Type (nxt U p) \<in> typs) q) \<Longrightarrow> leads U src p0 (type_in U typs) Q p"
    unfolding type_in_def by (rule leads_bind, rule leads_peek [OF assms], rule leads_return)
  show "(\<And>q. at_after U src p0 ts q \<Longrightarrow> same U p q \<Longrightarrow> Q (t_Type (nxt U p) = IDENT \<and> t_Literal (nxt U p) = w) q) \<Longrightarrow>
      leads U src p0 (word U w) Q p"
    unfolding word_def by (rule leads_bind, rule leads_peek [OF assms], rule leads_return)
qed

lemma leads_taken:
  assumes "at_after U src p0 ts p"
    and "\<And>q. t_Type (nxt U p) = typ \<Longrightarrow> at_after U src p0 (ts @ [nxt U p]) q \<Longrightarrow> stepped U src p q \<Longrightarrow> Q True q"
    and "\<And>q. t_Type (nxt U p) \<noteq> typ \<Longrightarrow> at_after U src p0 ts q \<Longrightarrow> same U p q \<Longrightarrow> Q False q"
  shows "leads U src p0 (taken U typ) Q p"
proof -
  have e: "taken U typ p = bind_action (next_is U typ) (\<lambda>b. if b then bind_action (always (Parser_advance U)) (\<lambda>_. return True) else return False) p"
    by (auto simp: taken_def next_is_def bind_action_def always_def return_def Let_def split: prod.splits)
  have "leads U src p0 (bind_action (next_is U typ) (\<lambda>b. if b then bind_action (always (Parser_advance U)) (\<lambda>_. return True) else return False)) Q p"
  proof (rule leads_bind, rule leads_look(1) [OF assms(1)], goal_cases)
    case (1 q)
    then show ?case
      using assms(2,3) by (cases "t_Type (nxt U p) = typ")
        (auto intro!: leads_bind leads_advance [OF 1(1)] leads_return simp: sameD(1) [OF 1(2)] dest: stepped_same [OF 1(2)])
  qed
  then show ?thesis unfolding leads_def e .
qed

lemma leads_expect:
  assumes "at_after U src p0 ts p"
    and "\<And>q. t_Type (nxt U p) = typ \<Longrightarrow> at_after U src p0 (ts @ [nxt U p]) q \<Longrightarrow> stepped U src p q \<Longrightarrow> Q (nxt U p) q"
  shows "leads U src p0 (expect U typ) Q p"
  unfolding expect_def
proof (rule leads_bind, rule leads_peek [OF assms(1)], goal_cases)
  case (1 q)
  then show ?case
    using assms(2) by (auto intro!: leads_advance [OF 1(1)] leads_reject [OF 1(1)] simp: sameD(1) [OF 1(2)] dest: stepped_same [OF 1(2)])
qed

lemma leads_expectGT:
  assumes "at_after U src p0 ts p"
    and "\<And>q. t_Type (nxt U p) = GT \<Longrightarrow> at_after U src p0 (ts @ [nxt U p]) q \<Longrightarrow> stepped U src p q \<Longrightarrow> Q () q"
  shows "leads U src p0 (expectGT U context) Q p"
  unfolding expectGT_def
proof (rule leads_bind, rule leads_peek [OF assms(1)], goal_cases)
  case (1 q)
  then show ?case
    using assms(2) by (auto intro!: leads_bind leads_return leads_advance [OF 1(1)] leads_reject [OF 1(1)]
        simp: sameD(1) [OF 1(2)] dest: stepped_same [OF 1(2)])
qed

section \<open>Other fields\<close>

text \<open>A change of the fields that are not the token stream's.\<close>

lemma at_after_other:
  assumes "at_after U src p0 ts p" "ps_lx q = ps_lx p" "ps_tokens q = ps_tokens p" "ps_states q = ps_states p"
    "ps_rescans q = ps_rescans p" "ps_pos q = ps_pos p"
  shows "at_after U src p0 ts q"
  using assms took.other [of U p0 ts p q] by (simp add: at_after_def)

lemma same_other:
  assumes "on_stream U src p" "ps_lx q = ps_lx p" "ps_tokens q = ps_tokens p" "ps_states q = ps_states p"
    "ps_rescans q = ps_rescans p" "ps_pos q = ps_pos p" "ps_inGen q = ps_inGen p" "ps_awaitCtx q = ps_awaitCtx p"
  shows "same U p q"
proof -
  obtain m where m: "stream_ok U src m p" using assms(1) unfolding on_stream_def by blast
  then have q: "stream_ok U src m q" using stream_ok_same [of q p] assms by simp
  show ?thesis using assms(5-8) nxt_here [OF m] nxt_here [OF q] tok_at_stream [OF m] tok_at_stream [OF q]
    by (simp add: same_def here_def)
qed

lemma leads_make:
  assumes "at_after U src p0 ts p"
    and "\<And>r q. at_after U src p0 ts q \<Longrightarrow> same U p q \<Longrightarrow> Q (Expr r pos n) q"
  shows "leads U src p0 (make n pos) Q p"
proof -
  have m: "make n pos p = (Inr (Expr (ps_nodes p) pos n), p\<lparr>ps_nodes := Suc (ps_nodes p)\<rparr>)"
    by (simp add: make_def bind_action_def always_def new_ref_def return_def)
  have "at_after U src p0 ts (p\<lparr>ps_nodes := Suc (ps_nodes p)\<rparr>)" by (rule at_after_other [OF assms(1)]) simp_all
  moreover have "same U p (p\<lparr>ps_nodes := Suc (ps_nodes p)\<rparr>)" by (rule same_other [OF at_afterD(1) [OF assms(1)]]) simp_all
  ultimately show ?thesis using assms(2) m by (simp add: leads_def)
qed

lemma leads_update:
  assumes "at_after U src p0 ts p" "ps_lx (f p) = ps_lx p" "ps_tokens (f p) = ps_tokens p" "ps_states (f p) = ps_states p"
    "ps_rescans (f p) = ps_rescans p" "ps_pos (f p) = ps_pos p"
    and "\<And>q. at_after U src p0 ts q \<Longrightarrow> left src q = left src p \<Longrightarrow> fresh q = fresh p \<Longrightarrow> Q () q"
  shows "leads U src p0 (update f) Q p"
  using assms(7) [OF at_after_other [OF assms(1-6)]] assms(5,6) by (simp add: leads_def update_def left_def fresh_def)

lemma leads_reject_at: "at_after U src p0 ts p \<Longrightarrow> leads U src p0 (reject_at U t m args) Q p"
  unfolding reject_at_def by (rule leads_reject)

section \<open>Reading again\<close>

lemma nxt_reads: "on_stream U src p \<Longrightarrow> reads_as (nxt U p) (raw U p)"
  using reads_as_peek_value nxt_here raw_stream unfolding on_stream_def here_def by metis

lemma nxt_raw: "on_stream U src p \<Longrightarrow> t_Type (raw U p) \<notin> {YIELD, AWAIT} \<Longrightarrow> nxt U p = raw U p"
  using nxt_reads [of U src p] by (auto simp: reads_as_def)

lemma raw_nxt: "on_stream U src p \<Longrightarrow> t_Type (nxt U p) \<noteq> IDENT \<Longrightarrow> nxt U p = raw U p"
  using nxt_reads [of U src p] by (auto simp: reads_as_def)

lemma stream_token_live:
  "t_Type (stream_token U src m j) \<noteq> EOF \<Longrightarrow> stream_token U src m j = raw_token U src m j"
  by (cases "List.find (\<lambda>k. final (raw_token U src m k)) [0..<j]") (simp_all add: stream_token_def closing_def)

lemma raw_spelt: "on_stream U src p \<Longrightarrow> t_Type (raw U p) \<noteq> EOF \<Longrightarrow> spelt (t_Type (raw U p)) (t_Literal (raw U p))"
proof -
  assume "on_stream U src p" "t_Type (raw U p) \<noteq> EOF"
  then obtain m where m: "raw U p = stream_token U src m (ps_pos p)" "t_Type (stream_token U src m (ps_pos p)) \<noteq> EOF"
    using raw_stream unfolding on_stream_def by metis
  then have "raw U p = raw_token U src m (ps_pos p)" using stream_token_live by simp
  then show ?thesis using Scan_spelt by (simp add: raw_token_def)
qed

lemma raw_yield: "on_stream U src p \<Longrightarrow> t_Type (raw U p) = YIELD \<Longrightarrow> t_Literal (raw U p) = ''yield''"
  using raw_spelt [of U src p] by (simp add: spelt_def)

lemma unary_spelt: "on_stream U src p \<Longrightarrow> t_Type (nxt U p) \<in> unary_types \<Longrightarrow> t_Literal (nxt U p) \<noteq> []"
  using raw_spelt [of U src p] raw_nxt [of U src p] by (auto simp: spelt_def unary_types_def)

text \<open>A re-read of the current token gives the token there, in the new mode.\<close>

lemma rescan_here:
  assumes p: "at_after U src p0 ts p" and r: "rescanAt U (ps_pos p) mode p = (r, q)" and t: "t_Type (raw U p) \<noteq> EOF"
  shows "\<exists>t. r = Inr t \<and> at_after U src p0 ts q \<and> ps_pos q = ps_pos p \<and> raw U q = t
    \<and> (t_Type (raw U p) \<in> slash_types \<longrightarrow> mode = ScanRegex \<longrightarrow> t_Type t \<in> {REGEX, ILLEGAL})"
proof -
  obtain m where m: "stream_ok U src m p" using at_afterD(1) [OF p] unfolding on_stream_def by blast
  note s = rescanAt_stream [OF m r]
  have rt: "raw U p = stream_token U src m (ps_pos p)" by (rule raw_stream [OF m])
  obtain t where rI: "r = Inr t" using s t rt by (cases r) auto
  let ?m = "remode m (ps_pos p) mode"
  have q: "stream_ok U src ?m q" "t = raw_token U src ?m (ps_pos p)" "t = stream_token U src ?m (ps_pos p)" "ps_pos q = ps_pos p"
    using s unfolding rI sum.case by blast+
  have after: "at_after U src p0 ts q" using p took.reread [OF _ r [unfolded rI]] unfolding at_after_def by blast
  have "t_Type t \<in> {REGEX, ILLEGAL}" if "t_Type (raw U p) \<in> slash_types" "mode = ScanRegex"
  proof -
    have "stream_token U src m (ps_pos p) = raw_token U src m (ps_pos p)" using t rt stream_token_live by simp
    then have "t_Type (fst (Scan U (m (ps_pos p)) (lexer_after U src m (ps_pos p)))) \<in> slash_types"
      using that(1) rt by (simp add: raw_token_def)
    from Scan_slash_again [OF this] show ?thesis
      using q(2) that(2) lexer_after_cong [of "ps_pos p" ?m m U src] by (simp add: raw_token_def remode_def)
  qed
  then show ?thesis using rI after q raw_stream [OF q(1)] by auto
qed

lemma leads_peekOperator:
  assumes "at_after U src p0 ts p"
    and "\<And>t q. at_after U src p0 ts q \<Longrightarrow> left src q = left src p \<Longrightarrow> (t_Type t \<notin> {YIELD, AWAIT, IDENT} \<Longrightarrow> nxt U q = t) \<Longrightarrow> Q t q"
  shows "leads U src p0 (peekOperator U) Q p"
  unfolding peekOperator_def
proof (rule leads_bind, rule leads_peek [OF assms(1)], goal_cases)
  case (1 q)
  note n = sameD(1) [OF 1(2)]
  have s: "on_stream U src q" using at_afterD(1) [OF 1(1)] .
  have again: "leads U src p0 (\<lambda>q. rescanAt U (ps_pos q) mode q) Q q" if t: "t_Type (nxt U p) \<in> {GT, REGEX}" for mode
  proof -
    obtain r q' where r: "rescanAt U (ps_pos q) mode q = (r, q')" by fastforce
    have "t_Type (raw U q) \<noteq> EOF" using raw_nxt [OF s] t n by auto
    from rescan_here [OF 1(1) r this] obtain t' where t': "r = Inr t'" "at_after U src p0 ts q'" "ps_pos q' = ps_pos q" "raw U q' = t'"
      by blast
    have "left src q' = left src p" using t'(3) sameD(2) [OF 1(2), of src] by (simp add: left_def)
    moreover have "t_Type t' \<notin> {YIELD, AWAIT, IDENT} \<Longrightarrow> nxt U q' = t'"
      using nxt_raw [OF at_afterD(1) [OF t'(2)]] t'(4) by simp
    ultimately show ?thesis using assms(2) [OF t'(2)] r t'(1) by (simp add: leads_def)
  qed
  have "leads U src p0 (return (nxt U p)) Q q"
    using assms(2) [OF 1(1)] sameD(1) [OF 1(2)] sameD(2) [OF 1(2), of src] by (intro leads_return) simp
  then show ?case using again by (simp add: leads_def return_def)
qed

lemma leads_peekPrimary:
  assumes "at_after U src p0 ts p"
    and "\<And>t q. at_after U src p0 ts q \<Longrightarrow> left src q = left src p \<Longrightarrow> (t_Type t \<noteq> IDENT \<Longrightarrow> nxt U q = t) \<Longrightarrow>
      (t_Type t \<noteq> REGEX \<Longrightarrow> t_Type t \<noteq> ILLEGAL \<Longrightarrow> same U p q \<and> nxt U p = t) \<Longrightarrow> Q t q"
  shows "leads U src p0 (peekPrimary U) Q p"
  unfolding peekPrimary_def
proof (rule leads_bind, rule leads_peek [OF assms(1)], goal_cases)
  case (1 q)
  note n = sameD(1) [OF 1(2)]
  have s: "on_stream U src q" using at_afterD(1) [OF 1(1)] .
  have again: "leads U src p0 (\<lambda>q. rescanAt U (ps_pos q) ScanRegex q) Q q" if t: "t_Type (nxt U p) \<in> {SLASH, SLASH_ASSIGN}"
  proof -
    obtain r q' where r: "rescanAt U (ps_pos q) ScanRegex q = (r, q')" by fastforce
    have "raw U q = nxt U p" using raw_nxt [OF s] t n by auto
    then have "t_Type (raw U q) \<noteq> EOF" "t_Type (raw U q) \<in> slash_types" using t by (auto simp: slash_types_def)
    from rescan_here [OF 1(1) r this(1)] this(2) obtain t' where t': "r = Inr t'" "at_after U src p0 ts q'" "ps_pos q' = ps_pos q"
      "raw U q' = t'" "t_Type t' \<in> {REGEX, ILLEGAL}" by blast
    have "left src q' = left src p" using t'(3) sameD(2) [OF 1(2), of src] by (simp add: left_def)
    moreover have "nxt U q' = t'" using nxt_raw [OF at_afterD(1) [OF t'(2)]] t'(4,5) by auto
    ultimately show ?thesis using assms(2) [OF t'(2)] r t'(1,5) by (auto simp: leads_def)
  qed
  have "leads U src p0 (return (nxt U p)) Q q"
    using assms(2) [OF 1(1)] n 1(2) sameD(2) [OF 1(2), of src] by (intro leads_return) simp
  then show ?case using again by (simp add: leads_def return_def)
qed

lemma leads_operator_in:
  assumes "at_after U src p0 ts p" "first \<notin> {YIELD, AWAIT, IDENT}"
    and "\<And>b q. at_after U src p0 ts q \<Longrightarrow> left src q = left src p \<Longrightarrow> (b \<Longrightarrow> t_Type (nxt U q) \<in> insert first others) \<Longrightarrow> Q b q"
  shows "leads U src p0 (operator_in U first others) Q p"
  unfolding operator_in_def
proof (rule leads_bind, rule leads_peekOperator [OF assms(1)], goal_cases)
  case (1 t q)
  show ?case
  proof (cases "t_Type t = first")
    case True
    then show ?thesis using assms(2,3) 1 by (auto intro!: leads_return)
  next
    case False
    then show ?thesis using assms(3) 1(2) by (auto intro!: leads_look(2) [OF 1(1)] simp: sameD(1) sameD(2))
  qed
qed

text \<open>Going back: to where a reading started, whose tokens are as they were.\<close>

lemma rewind_back:
  assumes p: "at_after U src p0 ts p" and i: "ps_pos p \<le> i" and r: "at_after U src (p\<lparr>ps_pos := i\<rparr>) us r"
  shows "\<exists>q. rewind (ps_pos p) r = (Inr (), q) \<and> at_after U src p0 ts q \<and> fresh q \<and> ps_pos q = ps_pos p
    \<and> (fresh p \<longrightarrow> raw U q = raw U p)"
proof -
  obtain m where m: "stream_ok U src m p" using at_afterD(1) [OF p] unfolding on_stream_def by blast
  have "took U (p\<lparr>ps_pos := i\<rparr>) us r" using r by (simp add: at_after_def)
  moreover have "stream_ok U src m (p\<lparr>ps_pos := i\<rparr>)" using m by simp
  ultimately obtain m2 where m2: "stream_ok U src m2 r" "\<forall>j < i. m2 j = m j"
    using took_continues unfolding continues_def by fastforce
  obtain x q where x: "rewind (ps_pos p) r = (x, q)" by fastforce
  note w = rewind_stream [OF m2(1) x]
  have "at_after U src p0 ts q"
    using p took.undo [of U p0 ts p i us r q] i r x w unfolding at_after_def by simp
  moreover have "fresh q" using w by (auto simp: fresh_def)
  moreover have "raw U q = raw U p" if "fresh p"
  proof -
    have "forget m2 (ps_pos p) j = m j" for j
      using m2(2) i stream_okD(9) [OF m, of j] that by (force simp: forget_def fresh_def)
    then have "forget m2 (ps_pos p) = m" by blast
    then show ?thesis using raw_stream [OF m] raw_stream [of U src m q] w by simp
  qed
  ultimately show ?thesis using x w by auto
qed

lemma leads_rewind:
  assumes "at_after U src p0 ts p" "at_after U src p us r"
    and "\<And>q. at_after U src p0 ts q \<Longrightarrow> fresh q \<Longrightarrow> left src q = left src p \<Longrightarrow> Q () q"
  shows "leads U src p0 (rewind (ps_pos p)) Q r"
  using rewind_back [OF assms(1), of "ps_pos p" us r] assms(2,3) by (auto simp: leads_def left_def)

section \<open>What a production reads\<close>

definition reads :: "unicode_tables \<Rightarrow> string \<Rightarrow> (Token list \<Rightarrow> 'r \<Rightarrow> bool) \<Rightarrow> ('x parser_scheme, 'r) parse_action \<Rightarrow> bool" where
  "reads U src G act \<longleftrightarrow>
    (\<forall>p. on_stream U src p \<longrightarrow> leads U src p act (\<lambda>x q. \<exists>ts. at_after U src p ts q \<and> G ts x) p)"

definition parses :: "unicode_tables \<Rightarrow> string \<Rightarrow> nat \<Rightarrow> (Token list \<Rightarrow> 'r \<Rightarrow> bool) \<Rightarrow> ('x parser_scheme, 'r) parse_action \<Rightarrow> bool" where
  "parses U src n G act \<longleftrightarrow>
    (\<forall>p. on_stream U src p \<longrightarrow> fresh p \<longrightarrow> left src p < n \<longrightarrow>
      leads U src p act (\<lambda>x q. \<exists>ts. at_after U src p ts q \<and> G ts x) p)"

lemma leads_reads:
  assumes "reads U src G act" "at_after U src p0 ts p"
    and "\<And>us x q. G us x \<Longrightarrow> at_after U src p0 (ts @ us) q \<Longrightarrow> left src q \<le> left src p \<Longrightarrow> Q x q"
  shows "leads U src p0 act Q p"
proof -
  have "leads U src p act (\<lambda>x q. \<exists>ts. at_after U src p ts q \<and> G ts x) p"
    using assms(1) at_afterD(1) [OF assms(2)] unfolding reads_def by blast
  then show ?thesis
    by (rule leads_from [OF _ assms(2)]) (use assms(3) at_after_trans [OF assms(2)] at_afterD(3) in blast)
qed

lemma leads_parses:
  assumes "parses U src n G act" "at_after U src p0 ts p" "fresh p" "left src p < n"
    and "\<And>us x q. G us x \<Longrightarrow> at_after U src p0 (ts @ us) q \<Longrightarrow> left src q \<le> left src p \<Longrightarrow> Q x q"
  shows "leads U src p0 act Q p"
proof -
  have "leads U src p act (\<lambda>x q. \<exists>ts. at_after U src p ts q \<and> G ts x) p"
    using assms(1,3,4) at_afterD(1) [OF assms(2)] unfolding parses_def by blast
  then show ?thesis
    by (rule leads_from [OF _ assms(2)]) (use assms(5) at_after_trans [OF assms(2)] at_afterD(3) in blast)
qed

lemma parsesI:
  assumes "\<And>p. at_after U src p [] p \<Longrightarrow> fresh p \<Longrightarrow> left src p < n \<Longrightarrow>
    leads U src p act (\<lambda>x q. \<exists>ts. at_after U src p ts q \<and> G ts x) p"
  shows "parses U src n G act"
  unfolding parses_def using assms at_after_start by blast

lemma parses_mono: "parses U src n G act \<Longrightarrow> m \<le> n \<Longrightarrow> parses U src m G act"
  unfolding parses_def by auto

section \<open>Probing\<close>

text \<open>An action that looks ahead, perhaps by parsing and going back.\<close>

definition probes :: "unicode_tables \<Rightarrow> string \<Rightarrow> (nat \<Rightarrow> bool) \<Rightarrow> ('x parser_scheme, 'r) parse_action \<Rightarrow> bool" where
  "probes U src c act \<longleftrightarrow>
    (\<forall>p. on_stream U src p \<longrightarrow> fresh p \<longrightarrow> c (ps_pos p) \<longrightarrow>
      (\<exists>x q. act p = (Inr x, q) \<and> took U p [] q \<and> fresh q \<and> ps_pos q = ps_pos p \<and> raw U q = raw U p))"

lemma probes_glance: "glances U src c act \<Longrightarrow> probes U src c act"
  unfolding probes_def glances_def using sameD(3,4,5) by metis

lemma probes_bind:
  fixes m :: "('x parser_scheme, 'a) parse_action"
  assumes "probes U src c m" "\<And>x. probes U src c (f x)"
  shows "probes U src c (bind_action m f)"
  unfolding probes_def
proof (intro allI impI)
  fix p :: "'x parser_scheme" assume p: "on_stream U src p" "fresh p" "c (ps_pos p)"
  obtain x q where q: "m p = (Inr x, q)" "took U p [] q" "fresh q" "ps_pos q = ps_pos p" "raw U q = raw U p"
    using assms(1) p unfolding probes_def by blast
  have "on_stream U src q" using at_afterD(1) at_after_glance [OF at_after_start [OF p(1)] q(2)] by blast
  then obtain y r where r: "f x q = (Inr y, r)" "took U q [] r" "fresh r" "ps_pos r = ps_pos q" "raw U r = raw U q"
    using assms(2) q(3,4) p(3) unfolding probes_def by metis
  show "\<exists>x q. bind_action m f p = (Inr x, q) \<and> took U p [] q \<and> fresh q \<and> ps_pos q = ps_pos p \<and> raw U q = raw U p"
    using q r took_trans [OF r(2) q(2)] by (simp add: bind_action_def)
qed

lemma probes_logic:
  "probes U src c a \<Longrightarrow> probes U src c b \<Longrightarrow> probes U src c (either a b)"
  "probes U src c a \<Longrightarrow> probes U src c b \<Longrightarrow> probes U src c (both a b)"
  unfolding either_def both_def by (rule probes_bind, assumption, simp add: probes_glance)+

lemma leads_probe:
  assumes "probes U src c act" "at_after U src p0 ts p" "fresh p" "c (ps_pos p)"
    and "\<And>x q. act p = (Inr x, q) \<Longrightarrow> at_after U src p0 ts q \<Longrightarrow> fresh q \<Longrightarrow> left src q = left src p \<Longrightarrow> raw U q = raw U p \<Longrightarrow> Q x q"
  shows "leads U src p0 act Q p"
proof -
  obtain x q where q: "act p = (Inr x, q)" "took U p [] q" "fresh q" "ps_pos q = ps_pos p" "raw U q = raw U p"
    using assms(1,3,4) at_afterD(1) [OF assms(2)] unfolding probes_def by blast
  then show ?thesis using assms(5) at_after_glance [OF assms(2)] by (simp add: leads_def left_def)
qed

end
