(* ===== verification/Probing.thy ===== *)
theory Probing
  imports Following
begin

text \<open>
  The questions about the tokens ahead always have an answer: their loops stop at the end of
  input, and the parser is where it was, also when it parsed a type to decide.
\<close>

text \<open>What the other files' productions are relied on for: each reads tokens of its own syntax
  (\<open>T\<close> types, \<open>X\<close> expressions, \<open>D\<close> blocks and declarations) or is refused with an error.\<close>

definition productions_read ::
    "unicode_tables \<Rightarrow> string \<Rightarrow> (Token list \<Rightarrow> 'a \<Rightarrow> bool) \<Rightarrow> (Token list \<Rightarrow> 'a expr \<Rightarrow> bool) \<Rightarrow> (Token list \<Rightarrow> 'a \<Rightarrow> bool)
     \<Rightarrow> 'a productions \<Rightarrow> bool" where
  "productions_read U src T X D P \<longleftrightarrow>
    (\<forall>c. reads U src T (typeAnnotation P c)) \<and> reads U src T (typeSyntax P) \<and> reads U src D (block P)
    \<and> reads U src X (arrowFunction P) \<and> reads U src X (genericArrow P) \<and> (\<forall>t. reads U src X (asyncFunction P t))
    \<and> reads U src X (objectLiteral P) \<and> reads U src X (importExpr P) \<and> reads U src D (classDecl P)
    \<and> (\<forall>name gen. reads U src D (functionRest P name gen))"

lemma productionsD:
  assumes "productions_read U src T X D P"
  shows "reads U src T (typeAnnotation P c)" "reads U src T (typeSyntax P)" "reads U src D (block P)"
    "reads U src X (arrowFunction P)" "reads U src X (genericArrow P)" "reads U src X (asyncFunction P t)"
    "reads U src X (objectLiteral P)" "reads U src X (importExpr P)" "reads U src D (classDecl P)"
    "reads U src D (functionRest P name gen)"
  using assms by (simp_all add: productions_read_def)

lemma typeThenArrowAt_probes:
  assumes P: "productions_read U src T X D P"
  shows "probes U src c (typeThenArrowAt U P k)"
  unfolding probes_def
proof (intro allI impI)
  fix p :: "'a expr_parser" assume p: "on_stream U src p" "fresh p" "c (ps_pos p)"
  let ?i = "ps_pos p + k" and ?R = "\<lambda>x q. took U p [] q \<and> fresh q \<and> ps_pos q = ps_pos p \<and> raw U q = raw U p"
  let ?p = "p\<lparr>ps_pos := ?i\<rparr>"
  have i: "on_stream U src ?p" using p unfolding on_stream_def by (auto simp: fresh_def settled_def)
  have undo: "\<exists>q. rewind (ps_pos p) r = (Inr (), q) \<and> ?R x q" if "at_after U src ?p us r" for us r x
    using rewind_back [OF at_after_start [OF p(1)] _ that] p(2) by (auto simp: at_after_def)
  obtain res r where r: "typeSyntax P ?p = (res, r)" by fastforce
  have l: "leads U src ?p (typeSyntax P) (\<lambda>x q. \<exists>ts. at_after U src ?p ts q \<and> T ts x) ?p"
    using productionsD(2) [OF P] i unfolding reads_def by blast
  show "\<exists>x q. typeThenArrowAt U P k p = (Inr x, q) \<and> ?R x q"
  proof (cases "res")
    case (Inl e)
    then obtain d us where "e = Rejected d" "at_after U src ?p us r" using l r by (cases e) (auto simp: leads_def)
    then show ?thesis using undo r Inl by (fastforce simp: typeThenArrowAt_def bind_action_def return_def)
  next
    case (Inr x)
    then obtain us where us: "at_after U src ?p us r" using l r by (auto simp: leads_def)
    obtain ok r' where ok: "next_is U ARROW r = (Inr ok, r')" "took U r [] r'"
      using glances_simps(8) [where c = "\<lambda>_. True"] at_afterD(1) [OF us] unfolding glances_def by blast
    then show ?thesis using undo [OF at_after_glance [OF us ok(2)]] r Inr
      by (fastforce simp: typeThenArrowAt_def bind_action_def return_def)
  qed
qed

text \<open>There is a token for each unit of fuel, up to the end of input.\<close>

definition enough :: "string \<Rightarrow> nat \<Rightarrow> nat \<Rightarrow> nat \<Rightarrow> bool" where
  "enough src i n pos \<longleftrightarrow> length (runes_of src) - (pos + i) < n"

lemma peekNth_left:
  assumes "on_stream U src p" "peekNth U i p = (t, q)" "t_Type t \<noteq> EOF"
  shows "enough src i (Suc n) (ps_pos p) \<Longrightarrow> enough src (i + 1) n (ps_pos p)"
proof -
  obtain m where "stream_ok U src m p" using assms(1) unfolding on_stream_def by blast
  then have "t = stream_token U src m (ps_pos p + i)" using at_token(1) assms(2) by (simp add: peekNth_def)
  then have "ps_pos p + i < length (runes_of src)" using stream_bound assms(3) by blast
  then show "enough src i (Suc n) (ps_pos p) \<Longrightarrow> enough src (i + 1) n (ps_pos p)" by (auto simp: enough_def)
qed

lemma probes_next:
  fixes f :: "Token \<Rightarrow> ('x parser_scheme, 'r) parse_action"
  assumes "\<And>t. t_Type t = EOF \<Longrightarrow> probes U src (enough src i (Suc n)) (f t)"
    and "\<And>t. t_Type t \<noteq> EOF \<Longrightarrow> probes U src (enough src (i + 1) n) (f t)"
  shows "probes U src (enough src i (Suc n)) (bind_action (always (peekNth U i)) f)"
  unfolding probes_def
proof (intro allI impI)
  fix p :: "'x parser_scheme" assume p: "on_stream U src p" "fresh p" "enough src i (Suc n) (ps_pos p)"
  obtain t q where t: "peekNth U i p = (t, q)" by fastforce
  obtain x q' where "always (peekNth U i) p = (Inr x, q')" "took U p [] q'" "same U p q'"
    using glances_simps(2) [where c = "\<lambda>_. True"] p(1) unfolding glances_def by blast
  then have q: "took U p [] q" "same U p q" using t by (auto simp: always_def)
  have s: "on_stream U src q" "fresh q" "ps_pos q = ps_pos p" "raw U q = raw U p"
    using at_afterD(1) [OF at_after_glance [OF at_after_start [OF p(1)] q(1)]] sameD [OF q(2)] p(2) by auto
  have "\<exists>x r. f t q = (Inr x, r) \<and> took U q [] r \<and> fresh r \<and> ps_pos r = ps_pos q \<and> raw U r = raw U q"
  proof (cases "t_Type t = EOF")
    case True
    then show ?thesis using assms(1) s p(3) unfolding probes_def by metis
  next
    case False
    then have "enough src (i + 1) n (ps_pos q)" using peekNth_left [OF p(1) t _ p(3)] s(3) by simp
    then show ?thesis using assms(2) [OF False] s unfolding probes_def by blast
  qed
  then show "\<exists>x q. bind_action (always (peekNth U i)) f p = (Inr x, q) \<and> took U p [] q \<and> fresh q \<and> ps_pos q = ps_pos p \<and> raw U q = raw U p"
    using t s(3,4) took_trans [OF _ q(1)] by (fastforce simp: bind_always)
qed

lemmas probe_rules = probes_glance [OF glances_return] probes_glance [OF glances_simps(2)] probes_glance [OF glances_simps(3)]
  probes_glance [OF glances_simps(4)] probes_glance [OF glances_simps(5)] probes_glance [OF glances_simps(6)]

lemma group_then_arrow_probes:
  "productions_read U src T X D P \<Longrightarrow> probes U src (enough src i n) (group_then_arrow U P n i depth)"
proof (induction n arbitrary: i depth)
  case 0
  then show ?case by (simp add: probes_def enough_def)
next
  case (Suc n)
  have "probes U src c (bind_action (always (peekNth U j)) (\<lambda>next.
      if t_Type next = ARROW then return True else if t_Type next = COLON then typeThenArrowAt U P k else return False))" for c j k
    by (rule probes_bind) (auto intro: probe_rules typeThenArrowAt_probes [OF Suc.prems])
  then show ?case
    using Suc by (auto simp only: group_then_arrow.simps intro!: probes_next split: if_splits) (auto intro: probe_rules)
qed

lemma pattern_end_probes: "probes U src (enough src i n) (pattern_end U op cl n i depth)"
proof (induction n arbitrary: i depth)
  case (Suc n)
  then show ?case by (auto simp only: pattern_end.simps intro!: probes_next split: if_splits) (auto intro: probe_rules)
qed (simp add: probes_def enough_def)

lemma parens_then_arrow_probes: "probes U src (enough src i n) (parens_then_arrow U n i depth)"
proof (induction n arbitrary: i depth)
  case (Suc n)
  then show ?case by (auto simp only: parens_then_arrow.simps intro!: probes_next split: if_splits) (auto intro: probe_rules)
qed (simp add: probes_def enough_def)

section \<open>The questions\<close>

lemma probes_weaken: "probes U src c act \<Longrightarrow> (\<And>i. c' i \<Longrightarrow> c i) \<Longrightarrow> probes U src c' act"
  unfolding probes_def by blast

lemma enough_more: "enough src i n pos \<Longrightarrow> i \<le> j \<Longrightarrow> n \<le> m \<Longrightarrow> enough src j m pos"
  by (auto simp: enough_def)

lemma enough_left: "enough src 0 n (ps_pos p) \<longleftrightarrow> left src p < n"
  by (simp add: enough_def left_def)

lemma probes_step:
  fixes m :: "('x parser_scheme, 'a) parse_action"
  assumes "glances U src c m" "\<And>x. probes U src c (f x)"
  shows "probes U src c (bind_action m f)"
  using probes_bind probes_glance assms by metis

lemma probes_if:
  "(b \<Longrightarrow> probes U src c a) \<Longrightarrow> (\<not> b \<Longrightarrow> probes U src c a') \<Longrightarrow> probes U src c (if b then a else a')"
  by simp

lemma generic_arrow_probes:
  assumes "productions_read U src T X D P" "n \<le> m"
  shows "probes U src (enough src i n) (generic_arrow_from U P m n i depth)"
  using assms(2)
proof (induction n arbitrary: i depth)
  case (Suc n)
  have "probes U src (enough src (i + 1) n) (both (nth_in U (i + 1) {LPAREN}) (parenGroupFollowedByArrowAt U P m (i + 1)))" for i
    unfolding parenGroupFollowedByArrowAt_def
    by (intro probes_logic probe_rules probes_weaken [OF group_then_arrow_probes [OF assms(1)]])
      (use Suc.prems in \<open>auto simp: enough_def\<close>)
  moreover have "probes U src (enough src (i + 1) n) (generic_arrow_from U P m n (i + 1) d)" for i d
    using Suc by simp
  ultimately show ?case
    unfolding generic_arrow_from.simps Let_def by (intro probes_next probes_if probe_rules) simp_all
qed (simp add: probes_def enough_def)

text \<open>The dotted names of a constructor are only looked at.\<close>

lemma glances_next:
  fixes f :: "Token \<Rightarrow> ('x parser_scheme, 'r) parse_action"
  assumes "\<And>t. t_Type t = EOF \<Longrightarrow> glances U src (enough src i (Suc n)) (f t)"
    and "\<And>t. t_Type t \<noteq> EOF \<Longrightarrow> glances U src (enough src (i + 1) n) (f t)"
  shows "glances U src (enough src i (Suc n)) (bind_action (always (peekNth U i)) f)"
  unfolding glances_def
proof (intro allI impI)
  fix p :: "'x parser_scheme" assume p: "on_stream U src p" "enough src i (Suc n) (ps_pos p)"
  obtain t q where t: "peekNth U i p = (t, q)" by fastforce
  obtain x q' where "always (peekNth U i) p = (Inr x, q')" "took U p [] q'" "same U p q'"
    using glances_simps(2) [where c = "\<lambda>_. True"] p(1) unfolding glances_def by blast
  then have q: "took U p [] q" "same U p q" using t by (auto simp: always_def)
  have s: "on_stream U src q" "ps_pos q = ps_pos p"
    using at_afterD(1) [OF at_after_glance [OF at_after_start [OF p(1)] q(1)]] sameD [OF q(2)] by auto
  have "\<exists>x r. f t q = (Inr x, r) \<and> took U q [] r \<and> same U q r"
  proof (cases "t_Type t = EOF")
    case True
    then show ?thesis using assms(1) s p(2) unfolding glances_def by metis
  next
    case False
    then have "enough src (i + 1) n (ps_pos q)" using peekNth_left [OF p(1) t _ p(2)] s(2) by simp
    then show ?thesis using assms(2) [OF False] s unfolding glances_def by blast
  qed
  then show "\<exists>x q. bind_action (always (peekNth U i)) f p = (Inr x, q) \<and> took U p [] q \<and> same U p q"
    using t same_trans [OF q(2)] took_trans [OF _ q(1)] by (fastforce simp: bind_always)
qed

lemma glances_weaken: "glances U src c act \<Longrightarrow> (\<And>i. c' i \<Longrightarrow> c i) \<Longrightarrow> glances U src c' act"
  unfolding glances_def by blast

lemma dotted_glances: "glances U src (enough src i n) (dotted_then_index U n i :: ('x parser_scheme, bool) parse_action)"
proof (induction n arbitrary: i)
  case (Suc n)
  have e: "dotted_then_index U (Suc n) i = bind_action (always (peekNth U i)) (\<lambda>t.
      if t_Type t \<in> {DOT}
      then bind_action (nth_in U (i + 1) {IDENT}) (\<lambda>b. if b then dotted_then_index U n (i + 2) else nth_in U i {LBRACKET})
      else nth_in U i {LBRACKET})"
    by (rule ext) (auto simp: both_def nth_in_def bind_action_def always_def return_def split: prod.splits sum.splits if_splits)
  have "glances U src (enough src (i + 1) n) (if b then dotted_then_index U n (i + 2) else nth_in U i {LBRACKET} :: ('x parser_scheme, bool) parse_action)" for b
  proof (cases b)
    case True
    have "glances U src (enough src (i + 1) n) (dotted_then_index U n (i + 2) :: ('x parser_scheme, bool) parse_action)"
      by (rule glances_weaken [OF Suc]) (auto simp: enough_def)
    with True show ?thesis by simp
  qed (simp add: glances_simps)
  then show ?case
    unfolding e by (intro glances_next) (auto intro!: glances_simps glances_bind [OF glances_simps(6)])
qed (simp add: glances_def enough_def)

lemma newTarget_glances: "glances U src (enough src 0 n) (newTargetIsExpression U n)"
  unfolding newTargetIsExpression_def
  by (intro glances_bind [OF glances_simps(5)])
    (auto intro!: glances_simps glances_weaken [OF dotted_glances] intro: enough_more)

lemma group_probes:
  "productions_read U src T X D P \<Longrightarrow> probes U src (enough src 0 n) (parenGroupFollowedByArrowAt U P n k)"
  unfolding parenGroupFollowedByArrowAt_def
  by (rule probes_weaken [OF group_then_arrow_probes]) (auto intro: enough_more)

lemma destructured_probes: "probes U src (enough src 0 n) (destructuredArrowParamLookahead U n)"
  unfolding destructuredArrowParamLookahead_def Let_def
  by (intro probes_step [OF glances_simps(2)] probes_bind)
    (auto intro!: probes_weaken [OF pattern_end_probes] probes_weaken [OF parens_then_arrow_probes] probes_logic probe_rules
      intro: enough_more split: option.split)

lemma genericArrowAhead_probes:
  "productions_read U src T X D P \<Longrightarrow> probes U src (enough src 0 n) (genericArrowAhead U P n)"
  unfolding genericArrowAhead_def by (intro probes_logic probe_rules generic_arrow_probes) simp_all

lemma asyncFunctionAhead_probes:
  "productions_read U src T X D P \<Longrightarrow> probes U src (enough src 0 n) (asyncFunctionAhead U P n)"
  unfolding asyncFunctionAhead_def
  by (intro probes_logic probes_step [OF glances_simps(2)]) (auto intro: probe_rules group_probes)

lemma isArrow_probes:
  assumes "productions_read U src T X D P"
  shows "probes U src (enough src 0 n) (isArrow U P n)"
proof -
  have w: "probes U src c (if b then a else return False)" if "probes U src c a" for b c and a :: "('a, bool) expr_action"
    using that by (auto intro: probe_rules)
  show ?thesis
    unfolding isArrow_def Let_def
    by (intro probes_step [OF glances_simps(2)] probes_logic w probe_rules group_probes [OF assms] destructured_probes
        typeThenArrowAt_probes [OF assms])
qed

end
