(* ===== verification/Grammar.thy ===== *)
theory Grammar
  imports Expressions
begin

text \<open>
  The grammar of expressions, as ECMAScript and TypeScript give it: the levels of precedence, the
  operators of each, what an operator makes of its operands, and the early errors. A sentence
  is a list of tokens; \<open>T\<close>, \<open>X\<close> and \<open>D\<close> are the sentences of types, of the expressions of other
  files' productions, and of blocks and declarations.
\<close>

section \<open>Lists\<close>

text \<open>An item or the spread of one; items between commas, where one may follow the last; array
  elements, where a comma alone is a hole; and the parts of a template after its head.\<close>

inductive spread :: "(Token list \<Rightarrow> 'a expr \<Rightarrow> bool) \<Rightarrow> Token list \<Rightarrow> 'a expr \<Rightarrow> bool" for G where
  item: "G ts e \<Longrightarrow> spread G ts e"
| spread: "t_Type t = ELLIPSIS \<Longrightarrow> G ts e \<Longrightarrow> spread G (t # ts) (Expr r (posOf t) (SpreadElement e))"

inductive commas :: "(Token list \<Rightarrow> 'e \<Rightarrow> bool) \<Rightarrow> Token list \<Rightarrow> 'e list \<Rightarrow> bool" for G where
  none: "commas G [] []"
| last: "G ts e \<Longrightarrow> commas G ts [e]"
| more: "G ts e \<Longrightarrow> t_Type t = COMMA \<Longrightarrow> commas G us es \<Longrightarrow> commas G (ts @ t # us) (e # es)"

inductive array_parts :: "(Token list \<Rightarrow> 'a expr \<Rightarrow> bool) \<Rightarrow> Token list \<Rightarrow> 'a expr list \<Rightarrow> bool" for G where
  none: "array_parts G [] []"
| last: "spread G ts e \<Longrightarrow> array_parts G ts [e]"
| more: "spread G ts e \<Longrightarrow> t_Type t = COMMA \<Longrightarrow> array_parts G us es \<Longrightarrow> array_parts G (ts @ t # us) (e # es)"
| hole: "t_Type t = COMMA \<Longrightarrow> array_parts G us es \<Longrightarrow>
    array_parts G (t # us) (Expr r (posOf t) (NullLiteral True False True) # es)"

text \<open>One item at least, and no comma at the end.\<close>

inductive listed :: "(Token list \<Rightarrow> 'e \<Rightarrow> bool) \<Rightarrow> Token list \<Rightarrow> 'e list \<Rightarrow> bool" for G where
  one: "G ts e \<Longrightarrow> listed G ts [e]"
| more: "G ts e \<Longrightarrow> t_Type t = COMMA \<Longrightarrow> listed G us es \<Longrightarrow> listed G (ts @ t # us) (e # es)"

inductive template :: "(Token list \<Rightarrow> 'a expr \<Rightarrow> bool) \<Rightarrow> Token list \<Rightarrow> string list \<Rightarrow> string list \<Rightarrow> 'a expr list \<Rightarrow> bool"
  for G where
  tail: "G ts e \<Longrightarrow> t_Type t = TEMPLATE_TAIL \<Longrightarrow> template G (ts @ [t]) [t_Literal t] [t_Raw t] [e]"
| middle: "G ts e \<Longrightarrow> t_Type t = TEMPLATE_MIDDLE \<Longrightarrow> template G us quasis raws es \<Longrightarrow>
    template G (ts @ t # us) (t_Literal t # quasis) (t_Raw t # raws) (e # es)"

text \<open>A whole template, its head included.\<close>

inductive templates :: "(Token list \<Rightarrow> 'a expr \<Rightarrow> bool) \<Rightarrow> Token list \<Rightarrow> string list \<Rightarrow> string list \<Rightarrow> 'a expr list \<Rightarrow> bool"
  for G where
  plain: "t_Type t = TEMPLATE_NO_SUB \<Longrightarrow> templates G [t] [t_Literal t] [t_Raw t] []"
| head: "t_Type t = TEMPLATE_HEAD \<Longrightarrow> template G us quasis raws es \<Longrightarrow>
    templates G (t # us) (t_Literal t # quasis) (t_Raw t # raws) es"

lemma spread_mono [mono]: "(\<And>ts e. G ts e \<longrightarrow> H ts e) \<Longrightarrow> spread G ts e \<longrightarrow> spread H ts e"
  by (auto elim!: spread.cases intro: spread.intros)

lemma commas_mono [mono]: "(\<And>ts e. G ts e \<longrightarrow> H ts e) \<Longrightarrow> commas G ts es \<longrightarrow> commas H ts es"
  by (rule impI, erule commas.induct) (auto intro: commas.intros)

lemma array_parts_mono [mono]: "(\<And>ts e. G ts e \<longrightarrow> H ts e) \<Longrightarrow> array_parts G ts es \<longrightarrow> array_parts H ts es"
  by (rule impI, erule array_parts.induct) (auto intro: array_parts.intros spread_mono [rule_format])

lemma listed_mono [mono]: "(\<And>ts e. G ts e \<longrightarrow> H ts e) \<Longrightarrow> listed G ts es \<longrightarrow> listed H ts es"
  by (rule impI, erule listed.induct) (auto intro: listed.intros)

lemma template_mono [mono]: "(\<And>ts e. G ts e \<longrightarrow> H ts e) \<Longrightarrow> template G ts qs rs es \<longrightarrow> template H ts qs rs es"
  by (rule impI, erule template.induct) (auto intro: template.intros)

lemma templates_mono [mono]: "(\<And>ts e. G ts e \<longrightarrow> H ts e) \<Longrightarrow> templates G ts qs rs es \<longrightarrow> templates H ts qs rs es"
  by (auto elim!: templates.cases intro: templates.intros template_mono [rule_format])

section \<open>Levels\<close>

datatype level = AssignmentL | ConditionalL | NullishL | OrL | AndL | BitOrL | BitXorL | BitAndL | EqualityL
  | RelationalL | ShiftL | AdditiveL | MultiplicativeL | ExponentL | BaseL | UnaryL | PostfixL | CallL | PrimaryL

text \<open>The level that binds next tighter. The base of a power is a level of its own: no unary operator
  may stand before it but \<open>++\<close> and \<open>--\<close>, or, as this parser has it, a cast.\<close>

fun tighter :: "level \<Rightarrow> level" where
  "tighter AssignmentL = ConditionalL"
| "tighter ConditionalL = NullishL"
| "tighter NullishL = OrL"
| "tighter OrL = AndL"
| "tighter AndL = BitOrL"
| "tighter BitOrL = BitXorL"
| "tighter BitXorL = BitAndL"
| "tighter BitAndL = EqualityL"
| "tighter EqualityL = RelationalL"
| "tighter RelationalL = ShiftL"
| "tighter ShiftL = AdditiveL"
| "tighter AdditiveL = MultiplicativeL"
| "tighter MultiplicativeL = ExponentL"
| "tighter ExponentL = UnaryL"
| "tighter BaseL = PostfixL"
| "tighter UnaryL = PostfixL"
| "tighter PostfixL = CallL"
| "tighter CallL = PrimaryL"
| "tighter PrimaryL = PrimaryL"

text \<open>The left-associative operators.\<close>

definition operator :: "level \<Rightarrow> Token \<Rightarrow> bool" where
  "operator l t =
    (case l of
       NullishL \<Rightarrow> t_Type t = NULLISH
     | OrL \<Rightarrow> t_Type t = OR
     | AndL \<Rightarrow> t_Type t = AND
     | BitOrL \<Rightarrow> t_Type t = BITOR
     | BitXorL \<Rightarrow> t_Type t = BITXOR
     | BitAndL \<Rightarrow> t_Type t = BITAND
     | EqualityL \<Rightarrow> t_Type t \<in> {EQ, NEQ, STRICT_EQ, STRICT_NEQ}
     | RelationalL \<Rightarrow> t_Type t \<in> {LT, GT, LTE, GTE, INSTANCEOF} \<or> t_Type t = IDENT \<and> t_Literal t = ''in''
     | ShiftL \<Rightarrow> t_Type t \<in> {LSHIFT, RSHIFT, URSHIFT}
     | AdditiveL \<Rightarrow> t_Type t \<in> {PLUS, MINUS}
     | MultiplicativeL \<Rightarrow> t_Type t \<in> {STAR, SLASH, PERCENT}
     | _ \<Rightarrow> False)"

text \<open>What a prefix operator makes of its operand.\<close>

definition prefix_makes :: "Token \<Rightarrow> 'a expr \<Rightarrow> 'a expr \<Rightarrow> bool" where
  "prefix_makes t arg e \<longleftrightarrow> GetPos e = posOf t \<and>
    (if t_Type t = TYPEOF then node_of e = UnaryExpression ''typeof'' arg
     else if t_Type t = VOID
     then (if effect_free arg then node_of e = NullLiteral True True False
           else \<exists>u. node_of e = SequenceExpression [arg, u] \<and> node_of u = NullLiteral True True False)
     else if t_Type t \<in> {INC, DEC} then assignTarget arg False \<and> node_of e = UpdateExpression (t_Literal t) True arg
     else if t_Type t = AWAIT then node_of e = AwaitExpression arg
     else t_Type t \<in> {NOT, BITNOT, MINUS, PLUS} \<and> node_of e = UnaryExpression (t_Literal t) arg)"

text \<open>The names that qualify a constructor's, each with its dot.\<close>

inductive qualifies :: "Token list \<Rightarrow> string list \<Rightarrow> bool" where
  none: "qualifies [] []"
| more: "t_Type t = IDENT \<Longrightarrow> t_Type d = DOT \<Longrightarrow> qualifies ts path \<Longrightarrow> qualifies (t # d # ts) (t_Literal t # path)"

text \<open>The name after a \<open>function\<close>, and the star.\<close>

definition function_name :: "Token list \<Rightarrow> string \<Rightarrow> bool" where
  "function_name ts name \<longleftrightarrow> ts = [] \<and> name = [] \<or> (\<exists>t. ts = [t] \<and> t_Type t \<in> {IDENT, AWAIT} \<and> name = t_Literal t)"

definition function_star :: "Token list \<Rightarrow> bool \<Rightarrow> bool" where
  "function_star ts gen \<longleftrightarrow> (if gen then \<exists>t. ts = [t] \<and> t_Type t = STAR else ts = [])"

text \<open>The tokens of a name: \<open>yield\<close> and \<open>await\<close> are names where they are no operators.\<close>

definition name_types :: "TokenType set" where
  "name_types = {IDENT, YIELD, AWAIT}"

definition property_name :: "Token \<Rightarrow> bool" where
  "property_name t \<longleftrightarrow> t_Type t = DEFAULT \<or> t_Type t = PRIVATE_NAME \<or> IsKeyword (t_Type t) \<or> t_Type t = IDENT"

text \<open>Type arguments between their brackets, or none; and a list of arguments in parentheses.\<close>

definition type_args :: "(Token list \<Rightarrow> 'a \<Rightarrow> bool) \<Rightarrow> Token list \<Rightarrow> 'a list \<Rightarrow> bool" where
  "type_args T ts targs \<longleftrightarrow>
    (\<exists>l us g. ts = l # us @ [g] \<and> t_Type l = LT \<and> t_Type g = GT \<and> listed T us targs)"

definition arguments :: "(Token list \<Rightarrow> 'a expr \<Rightarrow> bool) \<Rightarrow> Token \<Rightarrow> Token list \<Rightarrow> 'a expr list \<Rightarrow> bool" where
  "arguments G l ts args \<longleftrightarrow> (\<exists>us r. ts = l # us @ [r] \<and> t_Type l = LPAREN \<and> t_Type r = RPAREN \<and> commas (spread G) us args)"

definition bracketed :: "(Token list \<Rightarrow> 'a expr \<Rightarrow> bool) \<Rightarrow> Token \<Rightarrow> Token list \<Rightarrow> 'a expr \<Rightarrow> bool" where
  "bracketed G l ts e \<longleftrightarrow> (\<exists>us r. ts = l # us @ [r] \<and> t_Type l = LBRACKET \<and> t_Type r = RBRACKET \<and> G us e)"

lemma arguments_mono [mono]: "(\<And>ts e. G ts e \<longrightarrow> H ts e) \<Longrightarrow> arguments G l ts as \<longrightarrow> arguments H l ts as"
  unfolding arguments_def using commas_mono [of "spread G" "spread H"] spread_mono [of G H] by blast

lemma bracketed_mono [mono]: "(\<And>ts e. G ts e \<longrightarrow> H ts e) \<Longrightarrow> bracketed G l ts e \<longrightarrow> bracketed H l ts e"
  unfolding bracketed_def by blast

section \<open>Expressions\<close>

text \<open>The addresses \<open>r\<close>, the source text of a call and the range of an arrow are not the grammar's.
  The nodes of a chain are marked when they stand in parentheses.\<close>

inductive grammar :: "(Token list \<Rightarrow> 'a \<Rightarrow> bool) \<Rightarrow> (Token list \<Rightarrow> 'a expr \<Rightarrow> bool) \<Rightarrow> (Token list \<Rightarrow> 'a \<Rightarrow> bool)
    \<Rightarrow> level \<Rightarrow> Token list \<Rightarrow> 'a expr \<Rightarrow> bool" for T X D where
  tighter: "grammar T X D (tighter l) ts e \<Longrightarrow> grammar T X D l ts e"
\<comment> \<open>operators\<close>
| assignment: "grammar T X D ConditionalL ts l \<Longrightarrow> t_Type t \<in> assign_operators \<Longrightarrow> assignTarget l (t_Type t = ASSIGN) \<Longrightarrow>
    \<not> (is_call l \<and> t_Type t \<in> {LOGICAL_AND_ASSIGN, LOGICAL_OR_ASSIGN, NULLISH_ASSIGN}) \<Longrightarrow>
    grammar T X D AssignmentL us e \<Longrightarrow>
    grammar T X D AssignmentL (ts @ t # us) (Expr r (posOf t) (AssignmentExpression (t_Literal t) l e))"
| yield: "t_Literal t = ''yield'' \<Longrightarrow> grammar T X D AssignmentL [t] (Expr r (posOf t) (YieldExpression None False))"
| yield_star: "t_Literal t = ''yield'' \<Longrightarrow> t_Type s = STAR \<Longrightarrow>
    grammar T X D AssignmentL [t, s] (Expr r (posOf t) (YieldExpression None True))"
| yield_of: "t_Literal t = ''yield'' \<Longrightarrow> grammar T X D AssignmentL ts e \<Longrightarrow>
    grammar T X D AssignmentL (t # ts) (Expr r (posOf t) (YieldExpression (Some e) False))"
| yield_all: "t_Literal t = ''yield'' \<Longrightarrow> t_Type s = STAR \<Longrightarrow> grammar T X D AssignmentL ts e \<Longrightarrow>
    grammar T X D AssignmentL (t # s # ts) (Expr r (posOf t) (YieldExpression (Some e) True))"
| conditional: "grammar T X D NullishL ts c \<Longrightarrow> t_Type q = QUESTION \<Longrightarrow> grammar T X D AssignmentL us a \<Longrightarrow> t_Type s = COLON \<Longrightarrow>
    grammar T X D AssignmentL vs b \<Longrightarrow>
    grammar T X D ConditionalL (ts @ q # us @ s # vs) (Expr r (GetPos c) (ConditionalExpression c a b))"
| binary: "grammar T X D l ts a \<Longrightarrow> operator l t \<Longrightarrow> grammar T X D (tighter l) us b \<Longrightarrow>
    grammar T X D l (ts @ t # us) (Expr r (posOf t) (BinaryExpression (t_Literal t) a b))"
| brand: "t_Type t = PRIVATE_NAME \<Longrightarrow> grammar T X D RelationalL [t] (Expr r (posOf t) (Identifier (t_Literal t)))"
| as_const: "grammar T X D RelationalL ts e \<Longrightarrow> t_Type w = IDENT \<Longrightarrow> t_Literal w = ''as'' \<Longrightarrow> \<not> HasPrecedingLineBreak w \<Longrightarrow>
    t_Type c = CONSTK \<Longrightarrow> grammar T X D RelationalL (ts @ [w, c]) e"
| satisfies: "grammar T X D RelationalL ts e \<Longrightarrow> t_Type w = IDENT \<Longrightarrow> t_Literal w = ''satisfies'' \<Longrightarrow> \<not> HasPrecedingLineBreak w \<Longrightarrow>
    T us a \<Longrightarrow> grammar T X D RelationalL (ts @ w # us) e"
| as_type: "grammar T X D RelationalL ts e \<Longrightarrow> t_Type w = IDENT \<Longrightarrow> t_Literal w = ''as'' \<Longrightarrow> \<not> HasPrecedingLineBreak w \<Longrightarrow>
    T us a \<Longrightarrow> e' = (case assertableCall e a of Some c \<Rightarrow> c | None \<Rightarrow> Expr r (posOf w) (AsExpression e a)) \<Longrightarrow>
    grammar T X D RelationalL (ts @ w # us) e'"
| power: "grammar T X D BaseL ts a \<Longrightarrow> t_Type t = POW \<Longrightarrow> grammar T X D ExponentL us b \<Longrightarrow>
    grammar T X D ExponentL (ts @ t # us) (Expr r (posOf t) (BinaryExpression ''**'' a b))"
| base_update: "t_Type t \<in> {INC, DEC} \<Longrightarrow> grammar T X D UnaryL ts a \<Longrightarrow> prefix_makes t a e \<Longrightarrow> grammar T X D BaseL (t # ts) e"
| base_cast: "t_Type l = LT \<Longrightarrow> T ts a \<Longrightarrow> t_Type g = GT \<Longrightarrow> grammar T X D UnaryL us e \<Longrightarrow> grammar T X D BaseL (l # ts @ g # us) e"
| base_generic: "X ts e \<Longrightarrow> grammar T X D BaseL ts e"
| delete: "t_Type t = IDENT \<Longrightarrow> t_Literal t = ''delete'' \<Longrightarrow> grammar T X D UnaryL ts e \<Longrightarrow>
    grammar T X D UnaryL (t # ts) (Expr r (posOf t) (UnaryExpression ''delete'' e))"
| cast: "t_Type l = LT \<Longrightarrow> T ts a \<Longrightarrow> t_Type g = GT \<Longrightarrow> grammar T X D UnaryL us e \<Longrightarrow> grammar T X D UnaryL (l # ts @ g # us) e"
| generic: "X ts e \<Longrightarrow> grammar T X D UnaryL ts e"
| prefix: "t_Type t \<in> prefix_operators \<Longrightarrow> grammar T X D UnaryL ts a \<Longrightarrow> prefix_makes t a e \<Longrightarrow> grammar T X D UnaryL (t # ts) e"
| postfix: "grammar T X D CallL ts e \<Longrightarrow> t_Type t \<in> {INC, DEC} \<Longrightarrow> \<not> HasPrecedingLineBreak t \<Longrightarrow> assignTarget e False \<Longrightarrow>
    grammar T X D PostfixL (ts @ [t]) (Expr r (posOf t) (UpdateExpression (t_Literal t) False e))"
\<comment> \<open>calls and members\<close>
| member: "grammar T X D CallL ts e \<Longrightarrow> t_Type d = DOT \<Longrightarrow> property_name n \<Longrightarrow>
    grammar T X D CallL (ts @ [d, n]) (Expr r (posOf n) (MemberExpression e (t_Literal n) False False))"
| optional_member: "grammar T X D CallL ts e \<Longrightarrow> t_Type d = OPTIONAL_DOT \<Longrightarrow> property_name n \<Longrightarrow>
    grammar T X D CallL (ts @ [d, n]) (Expr r (posOf n) (MemberExpression e (t_Literal n) True False))"
| index: "grammar T X D CallL ts e \<Longrightarrow> bracketed (grammar T X D AssignmentL) l us i \<Longrightarrow>
    grammar T X D CallL (ts @ us) (Expr r (posOf l) (IndexExpression e i False False))"
| optional_index: "grammar T X D CallL ts e \<Longrightarrow> t_Type d = OPTIONAL_DOT \<Longrightarrow> bracketed (grammar T X D AssignmentL) l us i \<Longrightarrow>
    grammar T X D CallL (ts @ d # us) (Expr r (posOf l) (IndexExpression e i True False))"
| call: "grammar T X D CallL ts e \<Longrightarrow> arguments (grammar T X D AssignmentL) l us as \<Longrightarrow>
    grammar T X D CallL (ts @ us) (Expr r (posOf l) (CallExpression e as src [] None False False))"
| optional_call: "grammar T X D CallL ts e \<Longrightarrow> t_Type d = OPTIONAL_DOT \<Longrightarrow> arguments (grammar T X D AssignmentL) l us as \<Longrightarrow>
    grammar T X D CallL (ts @ d # us) (Expr r (posOf l) (CallExpression e as src [] None True False))"
| typed_call: "grammar T X D CallL ts e \<Longrightarrow> callable_with_types e \<Longrightarrow> type_args T vs targs \<Longrightarrow>
    arguments (grammar T X D AssignmentL) l us as \<Longrightarrow>
    grammar T X D CallL (ts @ vs @ us) (Expr r (posOf l) (CallExpression e as src targs None False False))"
| tagged: "grammar T X D CallL ts e \<Longrightarrow> templates (grammar T X D AssignmentL) us quasis raws es \<Longrightarrow>
    grammar T X D CallL (ts @ us) (Expr r (posOf (hd us)) (TaggedTemplateExpression e quasis raws es []))"
| typed_tagged: "grammar T X D CallL ts e \<Longrightarrow> callable_with_types e \<Longrightarrow> type_args T vs targs \<Longrightarrow>
    templates (grammar T X D AssignmentL) us quasis raws es \<Longrightarrow>
    grammar T X D CallL (ts @ vs @ us) (Expr r (posOf (hd us)) (TaggedTemplateExpression e quasis raws es targs))"
| non_null: "grammar T X D CallL ts e \<Longrightarrow> t_Type t = NOT \<Longrightarrow> grammar T X D CallL (ts @ [t]) (Expr r (posOf t) (NonNullExpression e))"
\<comment> \<open>primary expressions\<close>
| literal: "literal_node t = Some n \<Longrightarrow> grammar T X D PrimaryL [t] (Expr r (posOf t) n)"
| template: "templates (grammar T X D AssignmentL) ts quasis raws es \<Longrightarrow> tl ts \<noteq> [] \<Longrightarrow>
    grammar T X D PrimaryL ts (Expr r (posOf (hd ts)) (TemplateLiteral quasis es))"
| regex: "t_Type t = REGEX \<Longrightarrow> node_of p = StringLiteral (t_Literal t) \<Longrightarrow> node_of f = StringLiteral (t_RegexFlags t) \<Longrightarrow>
    grammar T X D PrimaryL [t] (Expr r (posOf t) (NewRegExpExpression p f))"
| name: "t_Type t \<in> name_types \<Longrightarrow> t_Literal t \<notin> reservedWords \<Longrightarrow> grammar T X D PrimaryL [t] (Expr r (posOf t) (Identifier (t_Literal t)))"
| arrow: "t_Type t \<in> name_types \<Longrightarrow> t_Literal t \<notin> reservedWords \<Longrightarrow> t_Type a = ARROW \<Longrightarrow> \<not> HasPrecedingLineBreak a \<Longrightarrow>
    grammar T X D AssignmentL ts e \<Longrightarrow>
    grammar T X D PrimaryL (t # a # ts) (Expr r (posOf t) (ArrowFunction [(t_Literal t, posOf t)] (Inl e) src))"
| arrow_block: "t_Type t \<in> name_types \<Longrightarrow> t_Literal t \<notin> reservedWords \<Longrightarrow> t_Type a = ARROW \<Longrightarrow> \<not> HasPrecedingLineBreak a \<Longrightarrow>
    D ts b \<Longrightarrow>
    grammar T X D PrimaryL (t # a # ts) (Expr r (posOf t) (ArrowFunction [(t_Literal t, posOf t)] (Inr b) src))"
| other: "X ts e \<Longrightarrow> grammar T X D PrimaryL ts e"
| group: "t_Type l = LPAREN \<Longrightarrow> grammar T X D AssignmentL ts e \<Longrightarrow> t_Type c = RPAREN \<Longrightarrow>
    grammar T X D PrimaryL (l # ts @ [c]) (end_chain e)"
| comma: "t_Type l = LPAREN \<Longrightarrow> listed (grammar T X D AssignmentL) ts es \<Longrightarrow> 2 \<le> length es \<Longrightarrow> t_Type c = RPAREN \<Longrightarrow>
    grammar T X D PrimaryL (l # ts @ [c]) (Expr r (posOf l) (SequenceExpression es))"
| array: "t_Type l = LBRACKET \<Longrightarrow> array_parts (grammar T X D AssignmentL) ts es \<Longrightarrow> t_Type c = RBRACKET \<Longrightarrow>
    grammar T X D PrimaryL (l # ts @ [c]) (Expr r (posOf l) (ArrayLiteral es trailing))"
| new_target: "t_Type n = NEW \<Longrightarrow> t_Type d = DOT \<Longrightarrow> t_Type t = IDENT \<Longrightarrow> t_Literal t = ''target'' \<Longrightarrow>
    grammar T X D PrimaryL [n, d, t] (Expr r (posOf n) NewTargetExpression)"
| new: "t_Type n = NEW \<Longrightarrow> qualifies qs path \<Longrightarrow> t_Type c = IDENT \<Longrightarrow>
    ts = [] \<and> targs = [] \<or> type_args T ts targs \<Longrightarrow> us = [] \<and> as = [] \<or> (\<exists>l. arguments (grammar T X D AssignmentL) l us as) \<Longrightarrow>
    grammar T X D PrimaryL (n # qs @ c # ts @ us) (Expr r (posOf n) (NewExpression (t_Literal c) path None targs as))"
| new_of: "t_Type n = NEW \<Longrightarrow> grammar T X D CallL vs e \<Longrightarrow>
    ts = [] \<and> targs = [] \<or> type_args T ts targs \<Longrightarrow> us = [] \<and> as = [] \<or> (\<exists>l. arguments (grammar T X D AssignmentL) l us as) \<Longrightarrow>
    grammar T X D PrimaryL (n # vs @ ts @ us) (Expr r (posOf n) (NewExpression [] [] (Some e) targs as))"
| class_expr: "D ts d \<Longrightarrow> grammar T X D PrimaryL ts (Expr r pos (ClassExpression d src))"
| function_expr: "t_Type f = FUNCTION \<Longrightarrow> function_star ss gen \<Longrightarrow> function_name ns name \<Longrightarrow> D ts d \<Longrightarrow>
    grammar T X D PrimaryL (f # ss @ ns @ ts) (Expr r (posOf f) (FunctionExpression name d gen))"

end
