(* ===== verification/Rules.thy ===== *)
theory Rules
  imports Probing Grammar
begin

text \<open>
  The rules in the form the parser's functions are followed with: each names what is known of
  the state after the action, and a parse is followed by one rule for each action in it.
\<close>

definition knows :: "unicode_tables \<Rightarrow> string \<Rightarrow> 'x parser_scheme \<Rightarrow> 'x parser_scheme \<Rightarrow> bool" where
  "knows U src p q \<longleftrightarrow> nxt U q = nxt U p \<and> left src q = left src p \<and> fresh q = fresh p \<and> ps_pos q = ps_pos p
    \<and> (\<forall>i. tok_at U i q = tok_at U i p)"

lemma same_knows: "same U p q \<Longrightarrow> knows U src p q"
  by (simp add: knows_def same_def left_def fresh_def)

text \<open>What a look leaves, and what a token taken leaves, as facts.\<close>

lemma peek_rule:
  "at_after U src p0 ts p \<Longrightarrow>
    (\<And>q. at_after U src p0 ts q \<Longrightarrow> nxt U q = nxt U p \<Longrightarrow> left src q = left src p \<Longrightarrow> fresh q = fresh p \<Longrightarrow> ps_pos q = ps_pos p \<Longrightarrow>
      \<forall>i. tok_at U i q = tok_at U i p \<Longrightarrow> Q (nxt U p) q) \<Longrightarrow>
    leads U src p0 (always (Parser_peek U)) Q p"
  by (erule leads_peek) (auto dest: same_knows [of U p _ src] simp: knows_def)

lemma next_rule:
  "at_after U src p0 ts p \<Longrightarrow>
    (\<And>q. at_after U src p0 ts q \<Longrightarrow> nxt U q = nxt U p \<Longrightarrow> left src q = left src p \<Longrightarrow> fresh q = fresh p \<Longrightarrow> ps_pos q = ps_pos p \<Longrightarrow>
      \<forall>i. tok_at U i q = tok_at U i p \<Longrightarrow> Q (t_Type (nxt U p) = typ) q) \<Longrightarrow>
    leads U src p0 (next_is U typ) Q p"
  by (erule leads_look) (auto dest: same_knows [of U p _ src] simp: knows_def)

lemma type_rule:
  "at_after U src p0 ts p \<Longrightarrow>
    (\<And>q. at_after U src p0 ts q \<Longrightarrow> nxt U q = nxt U p \<Longrightarrow> left src q = left src p \<Longrightarrow> fresh q = fresh p \<Longrightarrow> ps_pos q = ps_pos p \<Longrightarrow>
      \<forall>i. tok_at U i q = tok_at U i p \<Longrightarrow> Q (t_Type (nxt U p) \<in> typs) q) \<Longrightarrow>
    leads U src p0 (type_in U typs) Q p"
  by (erule leads_look) (auto dest: same_knows [of U p _ src] simp: knows_def)

lemma word_rule:
  "at_after U src p0 ts p \<Longrightarrow>
    (\<And>q. at_after U src p0 ts q \<Longrightarrow> nxt U q = nxt U p \<Longrightarrow> left src q = left src p \<Longrightarrow> fresh q = fresh p \<Longrightarrow> ps_pos q = ps_pos p \<Longrightarrow>
      \<forall>i. tok_at U i q = tok_at U i p \<Longrightarrow> Q (t_Type (nxt U p) = IDENT \<and> t_Literal (nxt U p) = w) q) \<Longrightarrow>
    leads U src p0 (word U w) Q p"
  by (erule leads_look) (auto dest: same_knows [of U p _ src] simp: knows_def)

lemma glance_rule:
  "at_after U src p0 ts p \<Longrightarrow> glances U src (\<lambda>_. True) act \<Longrightarrow>
    (\<And>x q. act p = (Inr x, q) \<Longrightarrow> at_after U src p0 ts q \<Longrightarrow> nxt U q = nxt U p \<Longrightarrow> left src q = left src p \<Longrightarrow> fresh q = fresh p \<Longrightarrow>
      ps_pos q = ps_pos p \<Longrightarrow> \<forall>i. tok_at U i q = tok_at U i p \<Longrightarrow> Q x q) \<Longrightarrow>
    leads U src p0 act Q p"
  by (erule leads_glance [rotated]) (auto dest: same_knows [of U p _ src] simp: knows_def)

lemma advance_rule:
  "at_after U src p0 ts p \<Longrightarrow>
    (\<And>q. at_after U src p0 (ts @ [nxt U p]) q \<Longrightarrow> fresh q \<Longrightarrow> ps_pos q = Suc (ps_pos p) \<Longrightarrow> \<forall>i. tok_at U i q = tok_at U i p \<Longrightarrow>
      t_Type (nxt U p) \<noteq> EOF \<longrightarrow> left src q < left src p \<Longrightarrow> left src q \<le> left src p \<Longrightarrow> Q (nxt U p) q) \<Longrightarrow>
    leads U src p0 (always (Parser_advance U)) Q p"
  by (erule leads_advance) (auto simp: stepped_def left_def)

lemma taken_rule:
  "at_after U src p0 ts p \<Longrightarrow>
    (\<And>q. t_Type (nxt U p) = typ \<Longrightarrow> at_after U src p0 (ts @ [nxt U p]) q \<Longrightarrow> fresh q \<Longrightarrow> ps_pos q = Suc (ps_pos p) \<Longrightarrow>
      \<forall>i. tok_at U i q = tok_at U i p \<Longrightarrow> t_Type (nxt U p) \<noteq> EOF \<longrightarrow> left src q < left src p \<Longrightarrow> left src q \<le> left src p \<Longrightarrow> Q True q) \<Longrightarrow>
    (\<And>q. t_Type (nxt U p) \<noteq> typ \<Longrightarrow> at_after U src p0 ts q \<Longrightarrow> nxt U q = nxt U p \<Longrightarrow> left src q = left src p \<Longrightarrow> fresh q = fresh p \<Longrightarrow>
      ps_pos q = ps_pos p \<Longrightarrow> \<forall>i. tok_at U i q = tok_at U i p \<Longrightarrow> Q False q) \<Longrightarrow>
    leads U src p0 (taken U typ) Q p"
  by (erule leads_taken) (auto dest: same_knows [of U p _ src] simp: knows_def stepped_def left_def)

lemma expect_rule:
  "at_after U src p0 ts p \<Longrightarrow>
    (\<And>q. t_Type (nxt U p) = typ \<Longrightarrow> at_after U src p0 (ts @ [nxt U p]) q \<Longrightarrow> fresh q \<Longrightarrow>
      t_Type (nxt U p) \<noteq> EOF \<longrightarrow> left src q < left src p \<Longrightarrow> left src q \<le> left src p \<Longrightarrow> Q (nxt U p) q) \<Longrightarrow>
    leads U src p0 (expect U typ) Q p"
  by (erule leads_expect) (auto simp: stepped_def left_def)

lemma expectGT_rule:
  "at_after U src p0 ts p \<Longrightarrow>
    (\<And>q. t_Type (nxt U p) = GT \<Longrightarrow> at_after U src p0 (ts @ [nxt U p]) q \<Longrightarrow> fresh q \<Longrightarrow> left src q < left src p \<Longrightarrow> Q () q) \<Longrightarrow>
    leads U src p0 (expectGT U context) Q p"
  by (erule leads_expectGT) (auto simp: stepped_def left_def)

lemma make_rule:
  "at_after U src p0 ts p \<Longrightarrow>
    (\<And>r q. at_after U src p0 ts q \<Longrightarrow> nxt U q = nxt U p \<Longrightarrow> left src q = left src p \<Longrightarrow> fresh q = fresh p \<Longrightarrow> Q (Expr r pos n) q) \<Longrightarrow>
    leads U src p0 (make n pos) Q p"
  by (erule leads_make) (auto dest: same_knows [of U p _ src] simp: knows_def)

lemma if_rule:
  "(b \<Longrightarrow> leads U src p0 x Q p) \<Longrightarrow> (\<not> b \<Longrightarrow> leads U src p0 y Q p) \<Longrightarrow> leads U src p0 (if b then x else y) Q p"
  by simp

lemmas follow = peek_rule next_rule type_rule word_rule advance_rule taken_rule expect_rule expectGT_rule make_rule
  leads_reject_at

text \<open>A nested parse, after a token was taken.\<close>

lemma parses_rule:
  "at_after U src p0 ts p \<Longrightarrow> parses U src n G act \<Longrightarrow> fresh p \<Longrightarrow> left src p < n \<Longrightarrow>
    (\<And>us x q. G us x \<Longrightarrow> at_after U src p0 (ts @ us) q \<Longrightarrow> left src q \<le> left src p \<Longrightarrow> Q x q) \<Longrightarrow>
    leads U src p0 act Q p"
  using leads_parses by metis

lemma reads_rule:
  "at_after U src p0 ts p \<Longrightarrow> reads U src G act \<Longrightarrow>
    (\<And>us x q. G us x \<Longrightarrow> at_after U src p0 (ts @ us) q \<Longrightarrow> left src q \<le> left src p \<Longrightarrow> Q x q) \<Longrightarrow>
    leads U src p0 act Q p"
  using leads_reads by metis

section \<open>Lists\<close>

lemma spread_or_parses:
  assumes "parses U src m G asg"
  shows "parses U src m (spread G) (spread_or U asg)"
  unfolding spread_or_def
  apply (rule parsesI)
  apply (rule leads_bind, erule follow)
  apply (rule if_rule)
   apply (rule leads_bind, erule follow)
   apply (rule leads_bind, erule parses_rule [OF _ assms])
     apply assumption
    apply simp
   apply (erule make_rule)
   apply (auto intro: spread.intros)[1]
  apply (erule parses_rule [OF _ assms])
    apply simp_all
  apply (auto intro: spread.intros)
  done

lemma found: "at_after U src p ts q \<Longrightarrow> G ts x \<Longrightarrow> \<exists>ts. at_after U src p ts q \<and> G ts x"
  by blast

lemma either_rule:
  "at_after U src p0 ts p \<Longrightarrow>
    (\<And>x q. at_after U src p0 ts q \<Longrightarrow> nxt U q = nxt U p \<Longrightarrow> left src q = left src p \<Longrightarrow> fresh q = fresh p \<Longrightarrow> Q x q) \<Longrightarrow>
    leads U src p0 (either (next_is U a) (next_is U b)) Q p"
  by (erule glance_rule) (auto intro: glances_logic glances_simps)

lemma parseArgList_parses:
  assumes "parses U src m G asg"
  shows "parses U src (min k m) (commas (spread G)) (parseArgList U asg k)"
proof (induction k)
  case (Suc k)
  show ?case
    unfolding parseArgList.simps
    apply (rule parsesI)
    apply (rule leads_bind, erule either_rule)
    apply (rule if_rule)
     apply (rule leads_return, erule found, rule commas.none)
    apply (rule leads_bind, erule parses_rule [OF _ spread_or_parses [OF assms]], simp, simp)
    apply (rule leads_bind, erule taken_rule; rule if_rule, simp_all)
     apply (rule leads_bind, erule parses_rule [OF _ Suc], assumption, force)
     apply (rule leads_return, erule found, auto intro: commas.intros)[1]
    apply (rule leads_return, erule found, auto intro: commas.intros)
    done
qed (simp add: parses_def)

lemma array_elements_parses:
  assumes "parses U src m G asg"
  shows "parses U src (min k m) (\<lambda>ts (els, _). array_parts G ts els) (array_elements U asg k)"
proof (induction k)
  case (Suc k)
  show ?case
    unfolding array_elements.simps
    apply (rule parsesI)
    apply (rule leads_bind, erule either_rule)
    apply (rule if_rule)
     apply (rule leads_return, erule found, simp add: array_parts.none)
    apply (rule leads_bind, erule next_rule, rule if_rule)
     apply (rule leads_bind, erule peek_rule, rule leads_bind, erule make_rule, rule leads_bind, erule advance_rule)
     apply (rule leads_bind, erule parses_rule [OF _ Suc], assumption, force)
     apply (clarsimp simp: split_paired_all, rule leads_return, erule found, auto intro: array_parts.hole)[1]
    apply (rule leads_bind, erule next_rule, rule leads_bind, erule parses_rule [OF _ spread_or_parses [OF assms]], simp, simp)
    apply (rule leads_bind, erule glance_rule)
     apply (simp add: glances_logic glances_simps)
    apply (rule leads_bind, erule taken_rule; rule if_rule, simp_all)
     apply (rule leads_bind, erule parses_rule [OF _ Suc], assumption, force)
     apply (clarsimp simp: split_paired_all, rule leads_return, erule found, auto intro: array_parts.intros)[1]
    apply (rule leads_return, erule found, auto intro: array_parts.intros)
    done
qed (simp add: parses_def)

lemma template_rest_parses:
  assumes "parses U src m G asg"
  shows "parses U src (min k m) (\<lambda>ts (quasis, raws, es). template G ts quasis raws es) (template_rest U asg k)"
proof (induction k)
  case (Suc k)
  show ?case
    unfolding template_rest.simps
    apply (rule parsesI)
    apply (rule leads_bind, erule parses_rule [OF _ assms], assumption, simp)
    apply (rule leads_bind, erule peek_rule)
    apply (rule if_rule)
     apply (rule leads_bind, erule advance_rule)
     apply (rule leads_bind, erule parses_rule [OF _ Suc], assumption, force)
     apply (clarsimp simp: split_paired_all, rule leads_return, erule found, auto intro: template.intros)[1]
    apply (rule if_rule)
     apply (rule leads_bind, erule advance_rule)
     apply (rule leads_return, erule found, auto intro: template.intros)[1]
    apply (erule leads_reject_at)
    done
qed (simp add: parses_def)

lemma type_list_reads:
  assumes "\<And>c. reads U src T (typeAnnotation P c)"
  shows "parses U src k (listed T) (type_list U P k)"
proof (induction k)
  case (Suc k)
  show ?case
    unfolding type_list.simps
    apply (rule parsesI)
    apply (rule leads_bind, erule reads_rule [OF _ assms])
    apply (rule leads_bind, erule taken_rule; rule if_rule, simp_all)
     apply (rule leads_bind, erule parses_rule [OF _ Suc], assumption, force)
     apply (rule leads_return, erule found, auto intro: listed.intros)[1]
    apply (rule leads_return, erule found, auto intro: listed.intros)
    done
qed (simp add: parses_def)

lemma index_rest_parses:
  assumes "parses U src m G asg"
  shows "parses U src m (\<lambda>ts e. \<exists>us r. ts = us @ [r] \<and> t_Type r = RBRACKET \<and> G us e) (index_rest U asg)"
  unfolding index_rest_def
  apply (rule parsesI)
  apply (rule leads_bind, erule parses_rule [OF _ assms], assumption, assumption)
  apply (rule leads_bind, erule expect_rule, rule leads_return, erule found)
  apply auto
  done

section \<open>Parses whose first token is known\<close>

definition parses_at :: "unicode_tables \<Rightarrow> string \<Rightarrow> nat \<Rightarrow> (Token \<Rightarrow> bool) \<Rightarrow> (Token list \<Rightarrow> 'r \<Rightarrow> bool)
    \<Rightarrow> ('x parser_scheme, 'r) parse_action \<Rightarrow> bool" where
  "parses_at U src n C G act \<longleftrightarrow>
    (\<forall>p. on_stream U src p \<longrightarrow> left src p < n \<longrightarrow> C (nxt U p) \<longrightarrow>
      leads U src p act (\<lambda>x q. \<exists>ts. at_after U src p ts q \<and> G ts x) p)"

lemma parses_atI:
  assumes "\<And>p. at_after U src p [] p \<Longrightarrow> left src p < n \<Longrightarrow> C (nxt U p) \<Longrightarrow>
    leads U src p act (\<lambda>x q. \<exists>ts. at_after U src p ts q \<and> G ts x) p"
  shows "parses_at U src n C G act"
  unfolding parses_at_def using assms at_after_start by blast

lemma parses_at_rule:
  assumes "at_after U src p0 ts p" "parses_at U src n C G act" "left src p < n" "C (nxt U p)"
    and "\<And>us x q. G us x \<Longrightarrow> at_after U src p0 (ts @ us) q \<Longrightarrow> left src q \<le> left src p \<Longrightarrow> Q x q"
  shows "leads U src p0 act Q p"
proof -
  have "leads U src p act (\<lambda>x q. \<exists>ts. at_after U src p ts q \<and> G ts x) p"
    using assms(2-4) at_afterD(1) [OF assms(1)] unfolding parses_at_def by blast
  then show ?thesis
    by (rule leads_from [OF _ assms(1)]) (use assms(5) at_after_trans [OF assms(1)] at_afterD(3) in blast)
qed

lemma parseArrayLiteral_parses:
  assumes "parses U src m G asg"
  shows "parses_at U src (Suc m) (\<lambda>t. t_Type t = LBRACKET)
    (\<lambda>ts e. \<exists>l us c r es rest. ts = l # us @ [c] \<and> t_Type l = LBRACKET \<and> t_Type c = RBRACKET \<and> array_parts G us es
      \<and> e = Expr r (posOf l) (ArrayLiteral es rest)) (parseArrayLiteral U asg (Suc m))"
  unfolding parseArrayLiteral_def
  apply (rule parses_atI)
  apply (rule leads_bind, erule advance_rule)
  apply (rule leads_bind, erule parses_rule [OF _ array_elements_parses [OF assms]], assumption, simp)
  apply (clarsimp simp: split_paired_all)
  apply (rule leads_bind, erule expect_rule, erule make_rule, erule found)
  apply auto
  done

lemma parseTemplateRestRaw_parses:
  assumes "parses U src m G asg"
  shows "parses U src m (\<lambda>ts (quasis, raws, es). \<exists>qs rs. template G ts qs rs es \<and> quasis = h # qs \<and> raws = hr # rs)
    (parseTemplateRestRaw U asg (Suc m) h hr)"
  unfolding parseTemplateRestRaw_def
  apply (rule parsesI)
  apply (rule leads_bind, erule parses_rule [OF _ template_rest_parses [OF assms]], assumption, simp)
  apply (clarsimp simp: split_paired_all)
  apply (rule leads_return, erule found)
  apply auto
  done

lemma parseTemplateLiteral_parses:
  assumes "parses U src m G asg"
  shows "parses_at U src (Suc m) (\<lambda>t. t_Type t = TEMPLATE_HEAD)
    (\<lambda>ts e. \<exists>h us r quasis raws es. ts = h # us \<and> t_Type h = TEMPLATE_HEAD \<and> template G us quasis raws es
      \<and> e = Expr r (posOf h) (TemplateLiteral (t_Literal h # quasis) es)) (parseTemplateLiteral U asg (Suc m))"
  unfolding parseTemplateLiteral_def
  apply (rule parses_atI)
  apply (rule leads_bind, erule advance_rule)
  apply (rule leads_bind, erule parses_rule [OF _ parseTemplateRestRaw_parses [OF assms]], assumption, simp)
  apply (clarsimp simp: split_paired_all)
  apply (erule make_rule, erule found)
  apply auto
  done

lemma expectPropertyName_parses: "reads U src (\<lambda>ts t. ts = [t] \<and> property_name t) (expectPropertyName U)"
  unfolding reads_def expectPropertyName_def
  apply (intro allI impI)
  apply (drule at_after_start)
  apply (rule leads_bind, erule next_rule, rule if_rule)
   apply (erule advance_rule, erule found, simp add: property_name_def)
  apply (rule leads_bind, erule next_rule, rule if_rule)
   apply (erule advance_rule, erule found, simp add: property_name_def)
  apply (rule leads_bind, erule peek_rule, rule if_rule)
   apply (erule advance_rule, erule found, simp add: property_name_def)
  apply (erule expect_rule, erule found, simp add: property_name_def)
  done

end
