(* ===== verification/Primaries.thy ===== *)
theory Primaries
  imports Rules
begin

text \<open>
  The primary expressions follow the grammar.
\<close>

declare parseArgList.simps [simp del] array_elements.simps [simp del] template_rest.simps [simp del] type_list.simps [simp del]
  qualifiers.simps [simp del] new_members.simps [simp del] comma_operands.simps [simp del] call_member.simps [simp del]

section \<open>Looking further ahead\<close>

lemma nth_rule:
  assumes "at_after U src p0 ts p"
    and "\<And>q. at_after U src p0 ts q \<Longrightarrow> nxt U q = nxt U p \<Longrightarrow> left src q = left src p \<Longrightarrow> fresh q = fresh p \<Longrightarrow> ps_pos q = ps_pos p \<Longrightarrow>
      \<forall>i. tok_at U i q = tok_at U i p \<Longrightarrow> Q (t_Type (tok_at U (ps_pos p + n) p) \<in> ks) q"
  shows "leads U src p0 (nth_in U n ks) Q p"
proof (rule glance_rule [OF assms(1) glances_simps(6)], goal_cases)
  case (1 x q)
  have "x \<longleftrightarrow> t_Type (tok_at U (ps_pos p + n) p) \<in> ks"
    using 1(1) by (auto simp: nth_in_def bind_action_def always_def return_def peekNth_def tok_at_def split: prod.splits)
  then show ?case using assms(2) 1(2-) by simp
qed

lemma isWord_rule:
  assumes "at_after U src p0 ts p"
    and "\<And>q. at_after U src p0 ts q \<Longrightarrow> nxt U q = nxt U p \<Longrightarrow> left src q = left src p \<Longrightarrow> fresh q = fresh p \<Longrightarrow> ps_pos q = ps_pos p \<Longrightarrow>
      \<forall>i. tok_at U i q = tok_at U i p \<Longrightarrow>
      Q (t_Type (tok_at U (ps_pos p + n) p) = IDENT \<and> t_Literal (tok_at U (ps_pos p + n) p) = w) q"
  shows "leads U src p0 (always (isWord U n w)) Q p"
proof (rule glance_rule [OF assms(1) glances_simps(3)], goal_cases)
  case (1 x q)
  have "x \<longleftrightarrow> t_Type (tok_at U (ps_pos p + n) p) = IDENT \<and> t_Literal (tok_at U (ps_pos p + n) p) = w"
    using 1(1) by (auto simp: isWord_def always_def peekNth_def tok_at_def split: prod.splits)
  then show ?case using assms(2) 1(2-) by simp
qed

lemma both_rule:
  "leads U src p0 a (\<lambda>x. if x then leads U src p0 b Q else Q False) p \<Longrightarrow> leads U src p0 (both a b) Q p"
  unfolding both_def by (rule leads_bind, erule leads_mono) (auto intro: leads_return split: if_splits)

lemma nxt_tok:
  assumes "at_after U src p0 ts q" "t_Type (tok_at U (ps_pos q) q) \<notin> {YIELD, AWAIT}"
  shows "nxt U q = tok_at U (ps_pos q) q"
  using nxt_raw [OF at_afterD(1) [OF assms(1)]] assms(2) by (simp add: raw_def)

lemma advance_known_rule:
  assumes "at_after U src p0 ts p" "t_Type (tok_at U (ps_pos p) p) \<notin> {YIELD, AWAIT}"
    and "\<And>q. nxt U p = tok_at U (ps_pos p) p \<Longrightarrow> at_after U src p0 (ts @ [nxt U p]) q \<Longrightarrow> Q (nxt U p) q"
  shows "leads U src p0 (always (Parser_advance U)) Q p"
  using nxt_tok [OF assms(1,2)] by (intro advance_rule [OF assms(1)]) (use assms(3) in simp)

section \<open>Actions that record\<close>

lemma update_rule:
  "at_after U src p0 ts p \<Longrightarrow> ps_lx (f p) = ps_lx p \<Longrightarrow> ps_tokens (f p) = ps_tokens p \<Longrightarrow> ps_states (f p) = ps_states p \<Longrightarrow>
    ps_rescans (f p) = ps_rescans p \<Longrightarrow> ps_pos (f p) = ps_pos p \<Longrightarrow>
    (\<And>q. at_after U src p0 ts q \<Longrightarrow> left src q = left src p \<Longrightarrow> fresh q = fresh p \<Longrightarrow> Q () q) \<Longrightarrow>
    leads U src p0 (update f) Q p"
  using leads_update by metis

lemma blank_fields:
  "ps_lx (Parser_blank i j p) = ps_lx p" "ps_tokens (Parser_blank i j p) = ps_tokens p" "ps_states (Parser_blank i j p) = ps_states p"
  "ps_rescans (Parser_blank i j p) = ps_rescans p" "ps_pos (Parser_blank i j p) = ps_pos p"
  by (simp_all add: Parser_blank_def)

lemma blank_from_rule:
  assumes "at_after U src p0 ts p"
    and "\<And>q. at_after U src p0 ts q \<Longrightarrow> left src q = left src p \<Longrightarrow> fresh q = fresh p \<Longrightarrow> Q () q"
  shows "leads U src p0 (blank_from U s) Q p"
proof -
  have e: "blank_from U s p = bind_action (always (Parser_at U (ps_pos p - 1))) (\<lambda>t p. (Inr (), Parser_blank s (t_End t) p)) p"
    by (simp add: blank_from_def bind_always split: prod.splits)
  have "leads U src p0 (bind_action (always (Parser_at U (ps_pos p - 1))) (\<lambda>t p. (Inr (), Parser_blank s (t_End t) p))) Q p"
  proof (rule leads_bind, rule glance_rule [OF assms(1) glances_always_at], goal_cases)
    case (1 t q)
    have "at_after U src p0 ts (Parser_blank s (t_End t) q)" by (rule at_after_other [OF 1(2)]) (simp_all add: blank_fields)
    then have "Q () (Parser_blank s (t_End t) q)" using assms(2) 1 by (simp add: left_def fresh_def blank_fields)
    then show ?case by (simp add: leads_def)
  qed
  then show ?thesis unfolding leads_def e .
qed

section \<open>Constructors\<close>

lemma new_type_args_parses:
  assumes "productions_read U src T X D P"
  shows "parses_at U src k (\<lambda>_. True) (\<lambda>ts targs. ts = [] \<and> targs = [] \<or> type_args T ts targs) (new_type_args U P k name)"
  unfolding new_type_args_def
  apply (rule parses_atI)
  apply (rule leads_bind, erule next_rule, rule if_rule)
   apply (rule leads_return, erule found, simp)
  apply (rule leads_bind, erule peek_rule)
  apply (rule leads_bind, erule advance_rule)
  apply (rule leads_bind, erule parses_rule [OF _ type_list_reads [OF productionsD(1) [OF assms]]], assumption, simp)
  apply (rule leads_bind, erule expectGT_rule)
  apply (rule leads_bind, erule blank_from_rule)
  apply (rule leads_return, erule found)
  apply (auto simp: type_args_def)
  done

lemma new_args_parses:
  assumes "parses U src m G asg"
  shows "parses_at U src (Suc m) (\<lambda>_. True) (\<lambda>ts args. ts = [] \<and> args = [] \<or> (\<exists>l. arguments G l ts args)) (new_args U asg (Suc m))"
  unfolding new_args_def
  apply (rule parses_atI)
  apply (rule leads_bind, erule taken_rule; rule if_rule, simp_all)
   apply (rule leads_bind, erule parses_rule [OF _ parseArgList_parses [OF assms]], assumption, simp)
   apply (rule leads_bind, erule expect_rule)
   apply (rule leads_return, erule found)
   apply (auto simp: arguments_def)[1]
  apply (rule leads_return, erule found, simp)
  done

definition new_tail :: "(Token list \<Rightarrow> 'a \<Rightarrow> bool) \<Rightarrow> (Token list \<Rightarrow> 'a expr \<Rightarrow> bool) \<Rightarrow> string \<Rightarrow> Pos \<Rightarrow> string list \<Rightarrow> 'a expr option
    \<Rightarrow> Token list \<Rightarrow> 'a expr \<Rightarrow> bool" where
  "new_tail T G name pos path callee ts e \<longleftrightarrow>
    (\<exists>xs ys targs as l r. ts = xs @ ys \<and> (xs = [] \<and> targs = [] \<or> type_args T xs targs) \<and> (ys = [] \<and> as = [] \<or> arguments G l ys as)
      \<and> e = Expr r pos (NewExpression name path callee targs as))"

lemma parseNewTail_parses:
  assumes "productions_read U src T X D P" "parses U src m G asg"
  shows "parses_at U src (Suc m) (\<lambda>_. True) (new_tail T G name pos path callee) (parseNewTail U P asg (Suc m) name pos path callee)"
  unfolding parseNewTail_def
  apply (rule parses_atI)
  apply (rule leads_bind, erule parses_at_rule [OF _ new_type_args_parses [OF assms(1)]], assumption, simp)
  apply (rule leads_bind, erule parses_at_rule [OF _ new_args_parses [OF assms(2)]], simp, simp)
  apply (erule make_rule, erule found)
  apply (auto simp: new_tail_def)
  done

lemma both_nth_rule:
  assumes "at_after U src p0 ts p"
    and "\<And>q. at_after U src p0 ts q \<Longrightarrow> nxt U q = nxt U p \<Longrightarrow> left src q = left src p \<Longrightarrow> fresh q = fresh p \<Longrightarrow> ps_pos q = ps_pos p \<Longrightarrow>
      \<forall>i. tok_at U i q = tok_at U i p \<Longrightarrow>
      Q (t_Type (tok_at U (ps_pos p + i) p) \<in> ks \<and> t_Type (tok_at U (ps_pos p + j) p) \<in> ls) q"
  shows "leads U src p0 (both (nth_in U i ks) (nth_in U j ls)) Q p"
  apply (rule both_rule, rule nth_rule [OF assms(1)])
  apply (simp only: split: if_split, intro conjI impI)
   apply (erule nth_rule)
   apply (use assms(2) in simp)
  apply (use assms(2) in simp)
  done

lemma qualifiers_rule:
  assumes "at_after U src p0 ts p" "left src p < k" "t_Type (nxt U p) = IDENT"
    and "\<And>us path q. qualifies us path \<Longrightarrow> at_after U src p0 (ts @ us) q \<Longrightarrow> t_Type (nxt U q) = IDENT \<Longrightarrow> left src q \<le> left src p \<Longrightarrow>
      Q path q"
  shows "leads U src p0 (qualifiers U k) Q p"
  using assms
proof (induction k arbitrary: ts p Q)
  case (Suc k)
  show ?case
    unfolding qualifiers.simps
  proof (rule leads_bind, rule both_nth_rule [OF Suc.prems(1)], rule if_rule, goal_cases)
    case (1 q)
    then show ?case using Suc.prems(3) Suc.prems(4) [OF qualifies.none] by (intro leads_return) simp
  next
    case (2 q)
    show ?case
    proof (rule leads_bind, rule advance_rule [OF 2(1)], rule leads_bind, rule advance_rule, assumption, goal_cases)
      case (1 q1 q2)
      have ahead: "t_Type (tok_at U (ps_pos p + 1) p) = DOT" "t_Type (tok_at U (ps_pos p + 2) p) = IDENT" using 2(7) by simp_all
      have d: "t_Type (nxt U q1) = DOT" using nxt_tok [OF 1(1)] 1(3,4) 2(5,6) ahead(1) by simp
      have i: "t_Type (nxt U q2) = IDENT" using nxt_tok [OF 1(7)] 1(3,4,9,10) 2(5,6) ahead(2) by simp
      have left: "left src q2 < k" "left src q2 \<le> left src p" 
        using 1(5,6,12) 2(2,3) Suc.prems(2,3) by simp_all
      show ?case
      proof (rule leads_bind, rule Suc.IH [OF 1(7) left(1) i], rule leads_return, goal_cases)
        case (1 us path r)
        then show ?case
          using Suc.prems(4) [OF qualifies.more [of "nxt U q" "nxt U q1" us path], of r] d 2(2,3) Suc.prems(3) left(2) by simp
      qed
    qed
  qed
qed simp

lemma bind_assoc: "bind_action (bind_action m f) g = bind_action m (\<lambda>x. bind_action (f x) g)"
  by (rule ext) (auto simp: bind_action_def split: prod.splits sum.splits)

lemma bind_return [simp]: "bind_action (return x) f = f x"
  by (rule ext) (simp add: bind_action_def return_def)

text \<open>An index, and what follows it.\<close>

lemma index_rule:
  assumes "parses U src m (grammar T X D AssignmentL) asg" "at_after U src p0 ts p" "left src p < Suc m" "t_Type (nxt U p) = LBRACKET"
    and "\<And>us l i q. bracketed (grammar T X D AssignmentL) l us i \<Longrightarrow> at_after U src p0 (ts @ us) q \<Longrightarrow> left src q < left src p \<Longrightarrow>
      leads U src p0 (f l i) Q q"
  shows "leads U src p0 (bind_action (always (Parser_advance U)) (\<lambda>t. bind_action (index_rest U asg) (f t))) Q p"
  apply (rule leads_bind, rule advance_rule [OF assms(2)])
  apply (rule leads_bind, erule parses_rule [OF _ index_rest_parses [OF assms(1)]], assumption)
   apply (use assms(3,4) in simp)
  apply clarsimp
  apply (rule assms(5))
    apply (auto simp: bracketed_def assms(4))
  done

lemma new_members_parses:
  assumes "parses U src m (grammar T X D AssignmentL) asg"
  shows "grammar T X D CallL vs callee \<Longrightarrow>
    parses_at U src (min k (Suc m)) (\<lambda>_. True) (\<lambda>us e. grammar T X D CallL (vs @ us) e) (new_members U asg k callee)"
proof (induction k arbitrary: vs callee)
  case (Suc k)
  have again: "leads U src p0 (new_members U asg k e) (\<lambda>x q. \<exists>ts. at_after U src p0 ts q \<and> grammar T X D CallL (vs @ ts) x) q"
    if "grammar T X D CallL (vs @ us) e" "at_after U src p0 us q" "left src q < min k (Suc m)" for us e p0 q
    by (rule parses_at_rule [OF that(2) Suc.IH [OF that(1)] that(3)]) auto
  show ?case
    unfolding new_members.simps
    apply (rule parses_atI)
    apply (rule leads_bind, erule taken_rule; rule if_rule, simp_all)
     apply (rule leads_bind, erule reads_rule [OF _ expectPropertyName_parses])
     apply (rule leads_bind, erule make_rule, elim conjE, simp, erule again [rotated])
      apply linarith
     apply (rule grammar.member [OF Suc.prems], simp_all)[1]
    apply (rule leads_bind, erule next_rule, rule if_rule)
     apply (rule index_rule [OF assms]; assumption?; simp?)
     apply (rule leads_bind, erule make_rule, erule again [OF grammar.index [OF Suc.prems], rotated])
      apply linarith
     apply simp
    apply (rule leads_return, erule found)
    apply (simp add: Suc.prems)
    done
qed (simp add: parses_at_def)

lemma parses_at_parses: "parses_at U src n (\<lambda>_. True) G act \<Longrightarrow> parses U src n G act"
  unfolding parses_at_def parses_def by blast

section \<open>Parentheses\<close>

definition follows_comma :: "(Token list \<Rightarrow> 'a expr \<Rightarrow> bool) \<Rightarrow> Token list \<Rightarrow> 'a expr list \<Rightarrow> bool" where
  "follows_comma G ts es \<longleftrightarrow> (\<forall>us e. G us e \<longrightarrow> listed G (us @ ts) (e # es))"

lemma comma_operands_parses:
  assumes "parses U src m G asg"
  shows "parses_at U src (min k (Suc m)) (\<lambda>t. (t_Type t = COMMA) = b) (\<lambda>ts es. follows_comma G ts es \<and> (b \<longrightarrow> es \<noteq> [])) (comma_operands U asg k)"
proof (induction k arbitrary: b)
  case (Suc k)
  show ?case
    unfolding comma_operands.simps
    apply (rule parses_atI)
    apply (rule leads_bind, erule next_rule, rule if_rule)
     apply (rule leads_return, erule found, simp add: follows_comma_def listed.one)
    apply (rule leads_bind, erule advance_rule)
    apply (rule leads_bind, erule parses_rule [OF _ assms], assumption)
     apply simp
    apply (rule leads_bind, erule parses_at_rule [OF _ Suc])
      apply (simp add: min_def split: if_splits)
     apply (rule refl)
    apply (rule leads_return, erule found)
    apply (auto simp: follows_comma_def intro: listed.more)
    done
qed (simp add: parses_at_def)

lemma end_chain_sequence: "end_chain (Expr r s (SequenceExpression es)) = Expr r s (SequenceExpression es)"
  by (simp add: end_chain_def)

lemma parenthesized_parses:
  assumes "parses U src m (grammar T X D AssignmentL) asg"
  shows "parses_at U src (Suc m) (\<lambda>t. t_Type t = LPAREN) (grammar T X D PrimaryL) (parenthesized U asg (Suc m))"
proof -
  let ?A = "grammar T X D AssignmentL"
  have rest: "leads U src p0 (bind_action (expect U RPAREN) (\<lambda>_. bind_action (update (ps_bareArrow_update (\<lambda>_. None))) (\<lambda>_.
      bind_action (case node_of e of ObjectLiteral _ _ \<Rightarrow> update (ps_parenLiterals_update (insert (ref e)))
                 | ArrayLiteral _ _ \<Rightarrow> update (ps_parenLiterals_update (insert (ref e)))
                 | _ \<Rightarrow> return ()) (\<lambda>_. return (end_chain e))))) (\<lambda>x q. \<exists>ts. at_after U src p0 ts q \<and> grammar T X D PrimaryL ts x) q"
    if a: "at_after U src p0 ts q" and g: "\<And>c. t_Type c = RPAREN \<Longrightarrow> grammar T X D PrimaryL (ts @ [c]) (end_chain e)" for p0 q ts e
    apply (rule leads_bind, rule expect_rule [OF a])
    apply (rule leads_bind, erule update_rule, simp_all)
    apply (cases "node_of e"; simp; (rule leads_bind, erule update_rule, simp_all)?; rule leads_return, erule found, erule g)
    done
  show ?thesis
    unfolding parenthesized_def
    apply (rule parses_atI)
    apply (rule leads_bind, erule advance_rule)
    apply (rule leads_bind, erule parses_rule [OF _ assms], assumption, simp)
    apply (rule leads_bind, erule next_rule)
    apply (rule leads_bind, rule if_rule)
     apply (rule leads_bind, erule parses_at_rule [OF _ comma_operands_parses [OF assms, where b = True]], simp, simp)
     apply (erule make_rule, erule rest, unfold end_chain_sequence)
     subgoal for p qa us e qb qc vs es qd r qe c
      using grammar.comma [of "nxt U p" T X D "us @ vs" "e # es" c]
      by (cases es) (auto simp: follows_comma_def)
    apply (rule leads_return, erule rest)
    subgoal for p qa us e qb qc c
      using grammar.group [of "nxt U p" T X D us e c] by simp
    done
qed

section \<open>Loops over the tokens there are\<close>

lemma glance_at:
  assumes "on_stream U src p" "Parser_at U i p = (t, q)"
  shows "took U p [] q \<and> same U p q \<and> on_stream U src q"
proof -
  have "took U p [] q \<and> same U p q"
    using glances_always_at [of U src "\<lambda>_. True" i] assms by (auto simp: glances_def always_def)
  then show ?thesis using at_afterD(1) [OF at_after_glance [OF at_after_start [OF assms(1)]]] by blast
qed

lemma glance_trans:
  "took U p [] q \<and> same U p q \<Longrightarrow> took U q [] r \<and> same U q r \<Longrightarrow> took U p [] r \<and> same U p r"
  using took_trans [of U q "[]" r p "[]"] by (auto intro: same_trans)

lemma range_from_glances:
  "on_stream U src p \<Longrightarrow> range_from U pos end i p = (x, q) \<Longrightarrow> took U p [] q \<and> same U p q"
proof (induction i arbitrary: p)
  case (Suc i)
  obtain t p1 where a: "Parser_at U i p = (t, p1)" by fastforce
  note g = glance_at [OF Suc.prems(1) a]
  show ?case
  proof (cases "posOf t = pos \<or> t_Line t < p_Line pos")
    case True
    then show ?thesis using Suc.prems(2) a g by (auto split: if_splits)
  next
    case False
    then have "range_from U pos end i p1 = (x, q)" using Suc.prems(2) a by simp
    then show ?thesis using glance_trans Suc.IH g by blast
  qed
qed (simp add: took.start)

lemma srcRange_glances: "glances U src c (always (srcRange U pos))"
  unfolding glances_def
proof (intro allI impI)
  fix p :: "'x parser_scheme" assume p: "on_stream U src p"
  obtain x q where s: "srcRange U pos p = (x, q)" by fastforce
  obtain t p1 where a: "Parser_at U (ps_pos p - 1) p = (t, p1)" by fastforce
  note g = glance_at [OF p a]
  have "took U p [] q \<and> same U p q"
  proof (cases "ps_pos p = 0")
    case True
    then show ?thesis using s by (simp add: srcRange_def took.start)
  next
    case False
    then have "range_from U pos (t_End t) (ps_pos p1) p1 = (x, q)" using s a g by (auto simp: srcRange_def same_def)
    then show ?thesis using glance_trans range_from_glances g by blast
  qed
  then show "\<exists>x q. always (srcRange U pos) p = (Inr x, q) \<and> took U p [] q \<and> same U p q" using s by (simp add: always_def)
qed

lemma brackets_from_glances:
  "on_stream U src p \<Longrightarrow> brackets_from U i depth p = (x, q) \<Longrightarrow> took U p [] q \<and> same U p q"
proof (induction U i depth p rule: brackets_from.induct)
  case (1 U i depth p)
  obtain t p1 where a: "Parser_at U i p = (t, p1)" by fastforce
  note g = glance_at [OF 1(2) a]
  show ?case
  proof (cases "i < ps_pos p")
    case True
    then have "brackets_from U (i + 1) (bracket_step (t_Type t) depth) p1 = (x, q)"
      using 1(3) a by (subst (asm) brackets_from.simps) simp
    then show ?thesis using glance_trans 1(1) [OF True refl a [symmetric]] g by (metis)
  next
    case False
    then show ?thesis using 1(3) by (subst (asm) brackets_from.simps) (simp add: took.start)
  qed
qed

lemma not_excluded_glances: "glances U src c (not_excluded U)"
  unfolding glances_def
proof (intro allI impI)
  fix p :: "'x parser_scheme" assume p: "on_stream U src p"
  obtain d q where b: "brackets_from U (nat (ps_noInFrom p)) 0 p = (d, q)" by fastforce
  show "\<exists>x q. not_excluded U p = (Inr x, q) \<and> took U p [] q \<and> same U p q"
    using brackets_from_glances [OF p b] b took.start [of U p]
    by (auto simp: not_excluded_def inExcluded_def bind_always return_def)
qed

section \<open>Names and arrows\<close>

lemma reads_as_name:
  assumes "reads_as t s" "t_Type t = IDENT" "reads_as t' s"
  shows "t_Literal t' = t_Literal t" "posOf t' = posOf t" "t_Type t' \<in> {IDENT, YIELD, AWAIT}"
  using assms by (auto simp: reads_as_def posOf_def)

lemma bare_arrow_parses:
  assumes "productions_read U src T X D P" "parses U src m (grammar T X D AssignmentL) asg"
  shows "parses U src m (\<lambda>ts e. \<exists>r src body. e = Expr r (posOf t) (ArrowFunction [(t_Literal t, posOf t)] body src)
      \<and> (case body of Inl x \<Rightarrow> grammar T X D AssignmentL ts x | Inr b \<Rightarrow> D ts b)) (bare_arrow U P asg t)"
  unfolding bare_arrow_def Let_def
  apply (rule parsesI)
  apply (rule leads_bind, erule next_rule, rule if_rule)
   apply (rule leads_bind, erule reads_rule [OF _ productionsD(3) [OF assms(1)]])
   apply (rule leads_bind, erule glance_rule [OF _ srcRange_glances])
   apply (rule leads_bind, erule make_rule)
   apply (rule leads_bind, erule update_rule, simp_all)
   apply (rule leads_return, erule found, force)
  apply (rule leads_bind, erule parses_rule [OF _ assms(2)], simp, simp)
  apply (rule leads_bind, erule glance_rule [OF _ srcRange_glances])
  apply (erule make_rule, erule found, force)
  done

text \<open>An identifier, where an async function was not ahead.\<close>

lemma identifier_or_arrow_leads:
  assumes P: "productions_read U src T X D P" "parses U src m (grammar T X D AssignmentL) asg"
    and a: "at_after U src p0 [] p" "fresh p" "left src p < Suc m" and t: "t_Type t = IDENT" "reads_as t (raw U p)" "t_Type t \<noteq> EOF"
  shows "leads U src p0 (identifier_or_arrow U P asg t) (\<lambda>x q. \<exists>ts. at_after U src p0 ts q \<and> grammar T X D PrimaryL ts x) p"
proof -
  note n = reads_as_name [OF t(2,1) nxt_reads [OF at_afterD(1) [OF a(1)]]]
  have k: "t_Type (nxt U p) \<in> name_types" "t_Type (nxt U p) \<noteq> EOF" using n(3) by (auto simp: name_types_def)
  have name: "grammar T X D PrimaryL [nxt U p] (Expr r (posOf t) (Identifier (t_Literal t)))" if "t_Literal t \<notin> reservedWords" for r
    using grammar.name [of "nxt U p" T X D r] k n that by simp
  have arrow: "grammar T X D PrimaryL (nxt U p # s # us) e"
    if h: "t_Literal t \<notin> reservedWords" "t_Type s = ARROW" "\<not> HasPrecedingLineBreak s"
      "\<exists>r src body. e = Expr r (posOf t) (ArrowFunction [(t_Literal t, posOf t)] body src)
        \<and> (case body of Inl x \<Rightarrow> grammar T X D AssignmentL us x | Inr b \<Rightarrow> D us b)" for s us e
  proof -
    obtain r src body where e: "e = Expr r (posOf t) (ArrowFunction [(t_Literal t, posOf t)] body src)"
      and b: "case body of Inl x \<Rightarrow> grammar T X D AssignmentL us x | Inr b \<Rightarrow> D us b" using h(4) by blast
    show ?thesis
      using e b grammar.arrow [of "nxt U p" s T X D us _ r src] grammar.arrow_block [of "nxt U p" s D us _ T X r src] k n h(1-3)
      by (cases body) simp_all
  qed
  show ?thesis
    unfolding identifier_or_arrow_def
    apply (rule if_rule, rule leads_reject_at, rule a(1))
    apply (rule leads_bind, rule advance_rule [OF a(1)])
    apply (rule leads_bind, erule peek_rule, rule if_rule, erule leads_reject_at)
    apply (rule leads_bind, erule next_rule, rule if_rule)
     apply (rule leads_bind, erule advance_rule)
     apply (erule parses_rule [OF _ bare_arrow_parses [OF P]], assumption)
      apply (use a(3) k in simp)
     apply (erule found, use arrow in simp)
    apply (erule make_rule, erule found, use name in simp)
    done
qed

section \<open>Constructors and functions\<close>

lemma new_of_tail:
  assumes "t_Type n = NEW" "grammar T X D CallL vs e" "new_tail T (grammar T X D AssignmentL) [] (posOf n) [] (Some e) us x"
  shows "grammar T X D PrimaryL (n # vs @ us) x"
  using assms(3) grammar.new_of [OF assms(1,2)] unfolding new_tail_def by blast

lemma new_name_tail:
  assumes "t_Type n = NEW" "qualifies qs path" "t_Type c = IDENT"
    "new_tail T (grammar T X D AssignmentL) (t_Literal c) (posOf n) path None us x"
  shows "grammar T X D PrimaryL (n # qs @ c # us) x"
  using assms(4) grammar.new [OF assms(1-3)] unfolding new_tail_def by blast

lemma parseNew_parses:
  assumes P: "productions_read U src T X D P" and A: "parses U src m (grammar T X D AssignmentL) asg"
    and K: "parses U src k (grammar T X D PrimaryL) primary" "k \<le> m"
  shows "parses_at U src (Suc k) (\<lambda>t. t_Type t = NEW) (grammar T X D PrimaryL) (parseNew U P asg (Suc m) primary)"
proof (rule parses_atI)
  fix p :: "'a expr_parser" assume a: "at_after U src p [] p" "left src p < Suc k" "t_Type (nxt U p) = NEW"
  let ?Q = "\<lambda>x q. \<exists>ts. at_after U src p ts q \<and> grammar T X D PrimaryL ts x"
  have tail: "leads U src p (parseNewTail U P asg (Suc m) name (posOf (nxt U p)) path callee) ?Q q"
    if "at_after U src p ts q" "left src q < Suc m"
      "\<And>us e. new_tail T (grammar T X D AssignmentL) name (posOf (nxt U p)) path callee us e \<Longrightarrow> grammar T X D PrimaryL (ts @ us) e"
    for ts q name path callee
    by (rule parses_at_rule [OF that(1) parseNewTail_parses [OF P A] that(2)], simp, erule found, rule that(3))
  have dotted: "leads U src p (bind_action (qualifiers U (Suc m)) (\<lambda>path. bind_action (always (Parser_advance U)) (\<lambda>t.
      parseNewTail U P asg (Suc m) (t_Literal t) (posOf (nxt U p)) path None))) ?Q q"
    if "at_after U src p [nxt U p] q" "left src q < Suc m" "t_Type (nxt U q) = IDENT" for q
    apply (rule leads_bind, rule qualifiers_rule [OF that])
    apply (rule leads_bind, erule advance_rule, erule tail)
     apply (use that(2) in simp)
    apply (drule new_name_tail [OF a(3), rotated 2], assumption, simp_all)
    done
  have member: "leads U src p (bind_action primary (\<lambda>callee. bind_action (new_members U asg (Suc m) callee) (\<lambda>callee.
        parseNewTail U P asg (Suc m) [] (posOf (nxt U p)) [] (Some callee)))) ?Q q"
    if "at_after U src p [nxt U p] q" "left src q < k" "fresh q" for q
    apply (rule leads_bind, rule parses_rule [OF that(1) K(1) that(3,2)])
    apply (rule leads_bind, erule parses_at_rule [OF _ new_members_parses [where k = "Suc m", OF A]])
       apply (rule grammar.tighter, simp)
      apply (use that(2) K(2) in simp, simp)
    apply (erule tail)
     apply (use that(2) K(2) in simp)
    apply (drule new_of_tail [OF a(3), rotated], assumption, simp)
    done
  have rest: "leads U src p (bind_action (newTargetIsExpression U (Suc m)) (\<lambda>b.
      if b then bind_action primary (\<lambda>callee. bind_action (new_members U asg (Suc m) callee) (\<lambda>callee.
        parseNewTail U P asg (Suc m) [] (posOf (nxt U p)) [] (Some callee)))
      else if t_Type t \<noteq> IDENT then reject_at U t ExpectedConstructor []
      else bind_action (qualifiers U (Suc m)) (\<lambda>path. bind_action (always (Parser_advance U)) (\<lambda>t.
        parseNewTail U P asg (Suc m) (t_Literal t) (posOf (nxt U p)) path None)))) ?Q q"
    if h: "at_after U src p [nxt U p] q" "left src q < k" "fresh q" "nxt U q = t" for q t
  proof (rule leads_bind, rule leads_glance [OF newTarget_glances h(1)], goal_cases)
    case 1
    then show ?case using h(2) K(2) by (simp add: enough_left)
  next
    case (2 b r)
    then have s: "nxt U r = t" "fresh r" "left src r = left src q" using h(3,4) by (simp_all add: same_def fresh_def left_def)
    show ?case
      apply (rule if_rule, rule member [OF 2(2)], use s h(2) in simp, use s in simp)
      apply (rule if_rule, rule leads_reject_at [OF 2(2)])
      apply (rule dotted [OF 2(2)], use s h(2) K(2) in simp_all)
      done
  qed
  show "leads U src p (parseNew U P asg (Suc m) primary) ?Q p"
    unfolding parseNew_def
  proof (rule leads_bind, rule advance_rule [OF a(1)], rule leads_bind, erule peek_rule, goal_cases)
    case (1 q r)
    then have q: "at_after U src p [nxt U p] r" "left src r < k" "fresh r" "nxt U r = nxt U q" using a(2,3) by simp_all
    show ?case
      apply (rule leads_bind, rule if_rule)
       apply (rule isWord_rule [OF q(1)], rule if_rule)
        apply (rule leads_bind, erule advance_rule)
        apply (rule leads_bind, erule advance_known_rule)
         apply (simp, erule make_rule, erule found)
      subgoal using grammar.new_target [of "nxt U p" "nxt U q" "tok_at U (Suc (ps_pos r)) r"] a(3) q(4) by simp
      subgoal by (rule rest) (use q in simp_all)
      apply (rule leads_return, simp only: if_False, rule rest [OF q])
      done
  qed
qed

lemma either_next_rule:
  assumes "at_after U src p0 ts p"
    and "\<And>q. at_after U src p0 ts q \<Longrightarrow> nxt U q = nxt U p \<Longrightarrow> left src q = left src p \<Longrightarrow> fresh q = fresh p \<Longrightarrow>
      Q (t_Type (nxt U p) = a \<or> t_Type (nxt U p) = b) q"
  shows "leads U src p0 (either (next_is U a) (next_is U b)) Q p"
  unfolding either_def
  apply (rule leads_bind, rule next_rule [OF assms(1)], rule if_rule)
   apply (rule leads_return, use assms(2) in simp)
  apply (erule next_rule, use assms(2) in simp)
  done

lemma function_named:
  "t_Type f = FUNCTION \<Longrightarrow> function_star ss gen \<Longrightarrow> D ts d \<Longrightarrow> t_Type n = IDENT \<or> t_Type n = AWAIT \<Longrightarrow>
    grammar T X D PrimaryL (f # ss @ n # ts) (Expr r (posOf f) (FunctionExpression (t_Literal n) d gen))"
  using grammar.function_expr [of f ss gen "[n]" "t_Literal n" D ts d T X r] by (simp add: function_name_def)

lemma function_unnamed:
  "t_Type f = FUNCTION \<Longrightarrow> function_star ss gen \<Longrightarrow> D ts d \<Longrightarrow>
    grammar T X D PrimaryL (f # ss @ ts) (Expr r (posOf f) (FunctionExpression [] d gen))"
  using grammar.function_expr [of f ss gen "[]" "[]" D ts d T X r] by (simp add: function_name_def)

lemma function_star [simp]: "t_Type t = STAR \<Longrightarrow> function_star [t] True" "function_star [] False"
  by (simp_all add: function_star_def)

lemma function_expression_parses:
  assumes P: "productions_read U src T X D P"
  shows "parses_at U src k (\<lambda>t. t_Type t = FUNCTION \<and> t = f) (grammar T X D PrimaryL) (function_expression U P f)"
proof (rule parses_atI)
  fix p :: "'a expr_parser" assume a: "at_after U src p [] p" "t_Type (nxt U p) = FUNCTION \<and> nxt U p = f"
  let ?Q = "\<lambda>x q. \<exists>ts. at_after U src p ts q \<and> grammar T X D PrimaryL ts x"
  have f: "t_Type f = FUNCTION" and n: "nxt U p = f" using a(2) by auto
  have rest: "leads U src p (bind_action (update (\<lambda>p. p\<lparr>ps_inGen := isGen, ps_awaitCtx := awaitFn\<rparr>)) (\<lambda>_.
     bind_action (either (next_is U IDENT) (next_is U AWAIT)) (\<lambda>named.
     bind_action (if named then bind_action (always (Parser_advance U)) (\<lambda>t. return (t_Literal t)) else return []) (\<lambda>name.
     bind_action (update (\<lambda>p. p\<lparr>ps_inGen := savedGen, ps_awaitCtx := savedAwait\<rparr>)) (\<lambda>_.
     bind_action (functionRest P name isGen) (\<lambda>fd. Lookahead.make (FunctionExpression name fd isGen) (posOf f))))))) ?Q q"
    if "at_after U src p (f # ss) q" "function_star ss isGen" for q ss isGen savedGen savedAwait
    apply (rule leads_bind, rule update_rule [OF that(1)], simp_all)
    apply (rule leads_bind, erule either_next_rule)
    apply (rule leads_bind, rule if_rule)
     apply (rule leads_bind, erule advance_rule, rule leads_return)
     apply (rule leads_bind, erule update_rule, simp_all)
     apply (rule leads_bind, erule reads_rule [OF _ productionsD(10) [OF P]])
     apply (erule make_rule, erule found)
     apply (simp, rule function_named [OF f that(2)], assumption, assumption)
    apply (rule leads_return)
    apply (rule leads_bind, erule update_rule, simp_all)
    apply (rule leads_bind, erule reads_rule [OF _ productionsD(10) [OF P]])
    apply (erule make_rule, erule found)
    apply (simp, rule function_unnamed [OF f that(2)], assumption)
    done
  show "leads U src p (function_expression U P f) ?Q p"
    unfolding function_expression_def
    apply (rule leads_bind, rule advance_rule [OF a(1)])
    apply (rule leads_bind, erule taken_rule)
     apply (simp only: leads_def Let_def, rule rest [unfolded leads_def])
      apply (simp add: n)
     apply (erule function_star)
    apply (simp only: leads_def Let_def, rule rest [unfolded leads_def])
     apply (simp add: n)
    apply (rule function_star)
    done
qed

lemma class_expression_parses:
  assumes P: "productions_read U src T X D P"
  shows "parses_at U src k (\<lambda>_. True) (grammar T X D PrimaryL) (class_expression U P t)"
  unfolding class_expression_def
  apply (rule parses_atI)
  apply (rule leads_bind, erule reads_rule [OF _ productionsD(9) [OF P]])
  apply (rule leads_bind, erule glance_rule [OF _ srcRange_glances])
  apply (erule make_rule, erule found, auto intro: grammar.class_expr)
  done

section \<open>Primary expressions\<close>

lemma regex_literal_leads:
  assumes "at_after U src p0 [] q" "nxt U q = t" "t_Type t = REGEX"
  shows "leads U src p0 (regex_literal U t) (\<lambda>x q. \<exists>ts. at_after U src p0 ts q \<and> grammar T X D PrimaryL ts x) q"
  unfolding regex_literal_def
  apply (rule leads_bind, rule advance_rule [OF assms(1)])
  apply (rule leads_bind, erule make_rule)
  apply (rule leads_bind, erule make_rule)
  apply (erule make_rule, erule found)
  apply (simp add: assms(2), rule grammar.regex [OF assms(3)], simp_all)
  done

lemma template_ends: "template G ts qs rs es \<Longrightarrow> ts \<noteq> []"
  by (erule template.cases) simp_all

lemma template_expression:
  "t_Type h = TEMPLATE_HEAD \<Longrightarrow> template (grammar T X D AssignmentL) us quasis raws es \<Longrightarrow>
    grammar T X D PrimaryL (h # us) (Expr r (posOf h) (TemplateLiteral (t_Literal h # quasis) es))"
  using grammar.template [OF templates.head, of h T X D us quasis raws es r] template_ends by force

text \<open>A production whose tokens are known to start the expression.\<close>

lemma primary_at:
  assumes "parses_at U src n C G act" "at_after U src p0 [] q" "left src q < n" "C (nxt U q)"
    and "\<And>ts e. G ts e \<Longrightarrow> grammar T X D PrimaryL ts e"
  shows "leads U src p0 act (\<lambda>x q. \<exists>ts. at_after U src p0 ts q \<and> grammar T X D PrimaryL ts x) q"
  by (rule parses_at_rule [OF assms(2,1,3,4)]) (use assms(5) in auto)

lemma other_reads:
  "reads U src X act \<Longrightarrow> at_after U src p0 [] q \<Longrightarrow>
    leads U src p0 act (\<lambda>x q. \<exists>ts. at_after U src p0 ts q \<and> grammar T X D PrimaryL ts x) q"
  by (erule leads_reads) (auto intro: grammar.other)

lemma parsePrimary_parses:
  assumes P: "productions_read U src T X D P" and A: "parses U src m (grammar T X D AssignmentL) asg"
  shows "parses U src (min k (Suc m)) (grammar T X D PrimaryL) (parsePrimary U P asg (Suc m) k)"
proof (induction k)
  case (Suc k)
  note prods = productionsD [OF P]
  have new: "parses_at U src (Suc (min k m)) (\<lambda>t. t_Type t = NEW) (grammar T X D PrimaryL) (parseNew U P asg (Suc m) (parsePrimary U P asg (Suc m) k))"
    by (rule parseNew_parses [OF P A parses_mono [OF Suc]]) auto
  show ?case
  proof (rule parsesI)
    fix p :: "'a expr_parser" assume p: "at_after U src p [] p" "fresh p" "left src p < min (Suc k) (Suc m)"
    let ?Q = "\<lambda>x q. \<exists>ts. at_after U src p ts q \<and> grammar T X D PrimaryL ts x"
    show "leads U src p (parsePrimary U P asg (Suc m) (Suc k)) ?Q p"
      unfolding parsePrimary.simps
    proof (rule leads_bind, rule leads_peekPrimary [OF p(1)], goal_cases)
      case (1 t q)
      have l: "left src q < Suc m" "left src q < Suc (min k m)" using 1(2) p(3) by simp_all
      show ?case
      proof (cases "literal_node t :: ('a, 'a expr) node option")
        case (Some node)
        then have n: "nxt U q = t" using 1(3) by (auto simp: literal_node_def Let_def split: if_splits)
        show ?thesis
          apply (simp add: Some)
          apply (rule leads_bind, rule advance_rule [OF 1(1)])
          apply (erule make_rule, erule found, simp add: n, rule grammar.literal [OF Some])
          done
      next
        case None
        have name: "leads U src p (bind_action (asyncFunctionAhead U P (Suc m)) (\<lambda>b. if b then asyncFunction P t else identifier_or_arrow U P asg t)) ?Q q"
          if h: "t_Type t = IDENT"
        proof -
          have q: "same U p q" "nxt U q = t" using 1(4) h by (auto simp: same_def)
          then have f: "fresh q" and r: "reads_as t (raw U q)"
            using p(2) nxt_reads [OF at_afterD(1) [OF 1(1)]] by (auto simp: same_def fresh_def)
          show ?thesis
          proof (rule leads_bind, rule leads_probe [OF asyncFunctionAhead_probes [OF P] 1(1) f], goal_cases)
            case 1
            then show ?case using l by (simp add: enough_left)
          next
            case (2 b q')
            show ?case
              apply (rule if_rule, rule other_reads [OF prods(6) 2(2)])
              apply (rule identifier_or_arrow_leads [OF P A 2(2,3)])
                 apply (use 2(4,5) l h r in simp_all)
              done
          qed
        qed
        have paren: "leads U src p (bind_action (isArrow U P (Suc m)) (\<lambda>b. if b then arrowFunction P else parenthesized U asg (Suc m))) ?Q q"
          if h: "t_Type t = LPAREN"
        proof -
          have q: "same U p q" "nxt U q = t" using 1(4) h by (auto simp: same_def)
          then have f: "fresh q" using p(2) by (auto simp: same_def fresh_def)
          have r: "raw U q = t" using raw_nxt [OF at_afterD(1) [OF 1(1)]] q(2) h by simp
          show ?thesis
          proof (rule leads_bind, rule leads_probe [OF isArrow_probes [OF P] 1(1) f], goal_cases)
            case 1
            then show ?case using l by (simp add: enough_left)
          next
            case (2 b q')
            have n: "nxt U q' = t" using nxt_raw [OF at_afterD(1) [OF 2(2)]] 2(5) r h by simp
            show ?case
              apply (rule if_rule, rule other_reads [OF prods(4) 2(2)])
              apply (rule primary_at [OF parenthesized_parses [OF A] 2(2)])
                apply (use 2(4) l(1) h n in simp_all)
              done
          qed
        qed
        show ?thesis
          apply (simp only: None option.case)
          apply (rule if_rule, rule primary_at [OF parseTemplateLiteral_parses [OF A] 1(1) l(1)], use 1(3) in simp)
           apply (elim exE conjE, simp add: template_expression)
          apply (rule if_rule, rule regex_literal_leads [OF 1(1)], use 1(3) in simp, assumption)
          apply (rule if_rule, erule name)
          apply (rule if_rule, erule paren)
          apply (rule if_rule, rule primary_at [OF parseArrayLiteral_parses [OF A] 1(1) l(1)], use 1(3) in simp)
           apply (elim exE conjE, simp add: grammar.array)
          apply (rule if_rule, rule other_reads [OF prods(7) 1(1)])
          apply (rule if_rule, rule primary_at [OF new 1(1) l(2)], use 1(3) in simp, assumption)
          apply (rule if_rule, rule other_reads [OF prods(8) 1(1)])
          apply (rule if_rule, rule primary_at [OF class_expression_parses [OF P] 1(1) l(1)], simp, assumption)
          apply (rule if_rule, rule primary_at [OF function_expression_parses [OF P] 1(1) l(1)], use 1(3) in simp, assumption)
          apply (rule leads_reject_at [OF 1(1)])
          done
      qed
    qed
  qed
qed (simp add: parses_def)

end
