(* ===== verification/Chains.thy ===== *)
theory Chains
  imports Primaries
begin

text \<open>
  Calls, members and the operators that bind to one operand follow the grammar.
\<close>

section \<open>Calls and members\<close>

lemma call_rest_parses:
  assumes "parses U src m G asg"
  shows "parses_at U src (Suc m) (\<lambda>t. t_Type t = LPAREN)
    (\<lambda>ts e. \<exists>l as r s. arguments G l ts as \<and> e = Expr r (posOf l) (CallExpression callee as s targs None opt False))
    (call_rest U asg (Suc m) start callee targs opt)"
  unfolding call_rest_def
  apply (rule parses_atI)
  apply (rule leads_bind, erule advance_rule)
  apply (rule leads_bind, erule parses_rule [OF _ parseArgList_parses [OF assms]], assumption, simp)
  apply (rule leads_bind, erule expect_rule)
  apply (simp only: leads_def, rule make_rule [unfolded leads_def], assumption, erule found)
  apply (auto simp: arguments_def)
  done

lemma index_access_parses:
  assumes "parses U src m (grammar T X D AssignmentL) asg"
  shows "parses_at U src (Suc m) (\<lambda>t. t_Type t = LBRACKET)
    (\<lambda>ts e. \<exists>l i r. bracketed (grammar T X D AssignmentL) l ts i \<and> e = Expr r (posOf l) (IndexExpression obj i opt False))
    (index_access U asg obj opt)"
  unfolding index_access_def
  apply (rule parses_atI)
  apply (rule index_rule [OF assms], assumption+)
  apply (erule make_rule, erule found, auto)
  done

lemma member_access_reads:
  "reads U src (\<lambda>ts e. \<exists>t r. ts = [t] \<and> property_name t \<and> e = Expr r (posOf t) (MemberExpression obj (t_Literal t) opt False))
    (member_access U obj opt)"
  unfolding reads_def member_access_def
  apply (intro allI impI)
  apply (drule at_after_start)
  apply (rule leads_bind, erule reads_rule [OF _ expectPropertyName_parses])
  apply (erule make_rule, erule found, auto)
  done

lemma tagged_template_parses:
  assumes "parses U src m G asg"
  shows "parses_at U src (Suc m) (\<lambda>t. t_Type t = TEMPLATE_NO_SUB \<or> t_Type t = TEMPLATE_HEAD)
    (\<lambda>ts x. \<exists>quasis raws es r. templates G ts quasis raws es \<and> x = Expr r (posOf (hd ts)) (TaggedTemplateExpression e quasis raws es targs))
    (tagged_template U asg (Suc m) e targs)"
  unfolding tagged_template_def
  apply (rule parses_atI)
  apply (rule leads_bind, erule advance_rule)
  apply (rule leads_bind, rule if_rule)
   apply (erule parses_rule [OF _ parseTemplateRestRaw_parses [OF assms]], assumption, simp)
   apply (clarsimp simp: split_paired_all)
   apply (erule make_rule, erule found)
   apply (auto intro: templates.head)[1]
  apply (rule leads_return, simp, erule make_rule, erule found)
  apply (auto intro: templates.plain)
  done

section \<open>Type arguments of a call\<close>

lemma speculating_fields:
  "at_after U src p0 ts p \<Longrightarrow> at_after U src p0 ts (p\<lparr>ps_speculating := s\<rparr>)"
  by (erule at_after_other) simp_all

lemma speculative_types_leads:
  assumes P: "productions_read U src T X D P" and a: "at_after U src p0 [l] p" "left src p < k" "fresh p" and l: "t_Type l = LT"
    and Q: "\<And>r us q. at_after U src p0 us q \<Longrightarrow> left src q \<le> left src p0 \<Longrightarrow> (\<And>targs. r = Some targs \<Longrightarrow> type_args T us targs) \<Longrightarrow> Q r q"
  shows "leads U src p0 (speculative_types U P k save) Q p"
proof -
  let ?p = "p\<lparr>ps_speculating := ps_speculating p + 1\<rparr>"
  let ?act = "bind_action (type_list U P k) (\<lambda>targs. bind_action (expectGT U ''call-site type arguments'') (\<lambda>_ p.
           (let (t, p) = Parser_at U save p in
            bind_action (blank_from U (t_Pos t)) (\<lambda>_. return targs) p)))"
  have blank: "leads U src p0 (\<lambda>p. (let (t, p) = Parser_at U save p in bind_action (blank_from U (t_Pos t)) (\<lambda>_. return targs) p)) R q"
    if "at_after U src p0 ts q" "\<And>q'. at_after U src p0 ts q' \<Longrightarrow> R targs q'" for ts q R and targs :: "'a list"
  proof -
    have "leads U src p0 (bind_action (always (Parser_at U save)) (\<lambda>t. bind_action (blank_from U (t_Pos t)) (\<lambda>_. return targs))) R q"
      apply (rule leads_bind, rule glance_rule [OF that(1) glances_always_at])
      apply (rule leads_bind, erule blank_from_rule, rule leads_return, erule that(2))
      done
    then show ?thesis by (simp add: leads_def bind_always split: prod.splits)
  qed
  have act: "leads U src p0 ?act (\<lambda>targs q. \<exists>us. at_after U src p0 us q \<and> type_args T us targs) ?p"
    apply (rule leads_bind, rule parses_rule [OF speculating_fields [OF a(1)] type_list_reads [OF productionsD(1) [OF P]]])
      apply (use a(3) in \<open>simp add: fresh_def\<close>)
     apply (use a(2) in \<open>simp add: left_def\<close>)
    apply (rule leads_bind, erule expectGT_rule)
    apply (rule blank, assumption, rule exI, rule conjI, assumption)
    apply (auto simp: type_args_def l)
    done
  obtain r q where r: "?act ?p = (r, q)" by fastforce
  let ?q = "q\<lparr>ps_speculating := ps_speculating q - 1\<rparr>"
  have e: "speculative_types U P k save p = (case r of Inr targs \<Rightarrow> (Inr (Some targs), ?q) | Inl (Rejected _) \<Rightarrow> (Inr None, ?q) | Inl f \<Rightarrow> (Inl f, ?q))"
    unfolding speculative_types_def using r by (simp add: Let_def split: sum.split failure.split)
  have "\<exists>us. at_after U src p0 us ?q \<and> (\<forall>targs. r = Inr targs \<longrightarrow> type_args T us targs) \<and> (r = Inl Exhausted \<longrightarrow> False) \<and> (\<forall>f. r \<noteq> Inl (Crashed f))"
    using act r speculating_fields by (fastforce simp: leads_def split: sum.splits failure.splits)
  then obtain us where us: "at_after U src p0 us ?q" "\<And>targs. r = Inr targs \<Longrightarrow> type_args T us targs" "r \<noteq> Inl Exhausted" "\<And>f. r \<noteq> Inl (Crashed f)"
    by blast
  note q = Q [OF us(1) at_afterD(3) [OF us(1)]]
  show ?thesis
    using q [of "Some _"] q [of None] us(2-4) e by (auto simp: leads_def split: sum.split failure.split)
qed

text \<open>A call or a tagged template with type arguments, or nothing read.\<close>

definition typed_result :: "(Token list \<Rightarrow> 'a \<Rightarrow> bool) \<Rightarrow> (Token list \<Rightarrow> 'a expr \<Rightarrow> bool) \<Rightarrow> 'a expr \<Rightarrow> Token list \<Rightarrow> 'a expr option \<Rightarrow> bool" where
  "typed_result T G e ts x =
    (case x of
       None \<Rightarrow> ts = []
     | Some x \<Rightarrow> \<exists>vs targs us. ts = vs @ us \<and> type_args T vs targs
         \<and> ((\<exists>l as r s. arguments G l us as \<and> x = Expr r (posOf l) (CallExpression e as s targs None False False))
            \<or> (\<exists>quasis raws es r. templates G us quasis raws es
                \<and> x = Expr r (posOf (hd us)) (TaggedTemplateExpression e quasis raws es targs))))"

lemma typed_call_parses:
  assumes P: "productions_read U src T X D P" and A: "parses U src m G asg"
  shows "parses_at U src (Suc m) (\<lambda>t. t_Type t = LT) (typed_result T G e) (typed_call U P asg (Suc m) start e)"
proof (rule parses_atI)
  fix p :: "'a expr_parser" assume a: "at_after U src p [] p" "left src p < Suc m" "t_Type (nxt U p) = LT"
  let ?Q = "\<lambda>x q. \<exists>ts. at_after U src p ts q \<and> typed_result T G e ts x"
  have undo: "leads U src p (bind_action (rewind (ps_pos p)) (\<lambda>_. return None)) ?Q q" if "at_after U src p us q" for us q
    by (rule leads_bind, rule leads_rewind [OF a(1) that], rule leads_return, erule found) (simp add: typed_result_def)
  have "leads U src p (bind_action (always (Parser_advance U)) (\<lambda>_. bind_action (speculative_types U P (Suc m) (ps_pos p)) (\<lambda>r.
     (case r of
        None \<Rightarrow> bind_action (rewind (ps_pos p)) (\<lambda>_. return None)
      | Some targs \<Rightarrow> bind_action (type_in U {TEMPLATE_NO_SUB, TEMPLATE_HEAD}) (\<lambda>template.
          if template then bind_action (tagged_template U asg (Suc m) e targs) (\<lambda>e. return (Some e))
          else bind_action (next_is U LPAREN) (\<lambda>call.
            if call then bind_action (call_rest U asg (Suc m) start e targs False) (\<lambda>e. return (Some e))
            else bind_action (rewind (ps_pos p)) (\<lambda>_. return None))))))) ?Q p"
  proof (rule leads_bind, rule advance_rule [OF a(1)], goal_cases)
    case (1 q)
    have l: "left src q < Suc m" "left src p < Suc m" using 1 a(2,3) by simp_all
    have q: "at_after U src p [nxt U p] q" using 1(1) by simp
    show ?case
    proof (rule leads_bind, rule speculative_types_leads [OF P q l(1) 1(2) a(3)], goal_cases)
      case (1 r us q1)
      show ?case
      proof (cases r)
        case None
        then show ?thesis using undo [OF 1(1)] by simp
      next
        case (Some targs)
        have t: "type_args T us targs" using 1(3) Some by simp
        have l1: "left src q1 < Suc m" using 1(2) l(2) by simp
        show ?thesis
          apply (simp only: Some option.case)
          apply (rule leads_bind, rule type_rule [OF 1(1)], rule if_rule)
           apply (rule leads_bind, erule parses_at_rule [OF _ tagged_template_parses [OF A]])
             apply (use l1 in simp, simp)
           apply (rule leads_return, erule found, use t in \<open>force simp: typed_result_def\<close>)
          apply (rule leads_bind, erule next_rule, rule if_rule)
           apply (rule leads_bind, erule parses_at_rule [OF _ call_rest_parses [OF A]])
             apply (use l1 in simp, simp)
           apply (rule leads_return, erule found, use t in \<open>force simp: typed_result_def\<close>)
          apply (erule undo)
          done
      qed
    qed
  qed
  then show "leads U src p (typed_call U P asg (Suc m) start e) ?Q p"
    by (simp add: leads_def typed_call_def Let_def)
qed

lemma typed_result_grammar:
  assumes "grammar T X D CallL vs e" "callable_with_types e" "typed_result T (grammar T X D AssignmentL) e ts (Some x)"
  shows "grammar T X D CallL (vs @ ts) x"
  using assms(3) grammar.typed_call [OF assms(1,2)] grammar.typed_tagged [OF assms(1,2)] by (auto simp: typed_result_def)

lemma moved:
  assumes "at_after U src p ts q" "ts \<noteq> []" "t_Type (nxt U p) \<noteq> EOF"
  shows "left src q < left src p"
proof -
  have "on_stream U src p" using assms(1) by (simp add: at_after_def)
  then have "0 < left src p" using nxt_left assms(3) by blast
  then show ?thesis using at_afterD(2) [OF assms(1)] assms(2) by (cases ts) (simp_all add: left_def)
qed

lemma reads_parses_at: "reads U src G act \<Longrightarrow> parses_at U src n (\<lambda>_. True) G act"
  by (simp add: reads_def parses_at_def)

lemma make_parses_at: "parses_at U src k (\<lambda>_. True) (\<lambda>ts x. ts = [] \<and> (\<exists>r. x = Expr r pos n)) (Lookahead.make n pos)"
  by (rule parses_atI, erule make_rule, erule found) simp

lemma chain_ends:
  "bracketed G l us i \<Longrightarrow> us \<noteq> []" "arguments G l us as \<Longrightarrow> us \<noteq> []" "templates G us quasis raws es \<Longrightarrow> us \<noteq> []"
  "typed_result T G e us (Some x) \<Longrightarrow> us \<noteq> []"
  by (auto simp: bracketed_def arguments_def typed_result_def type_args_def elim: templates.cases)

text \<open>The loop over what follows a callee.\<close>

lemma call_member_parses:
  assumes P: "productions_read U src T X D P" and A: "parses U src m (grammar T X D AssignmentL) asg"
  shows "grammar T X D CallL vs e \<Longrightarrow>
    parses_at U src (min k (Suc m)) (\<lambda>_. True) (\<lambda>us x. grammar T X D CallL (vs @ us) x) (call_member U P asg (Suc m) start k e)"
proof (induction k arbitrary: vs e)
  case (Suc k)
  note g = Suc.prems
  show ?case
  proof (rule parses_atI)
    fix p :: "'a expr_parser" assume a: "at_after U src p [] p" "left src p < min (Suc k) (Suc m)"
    let ?Q = "\<lambda>x q. \<exists>ts. at_after U src p ts q \<and> grammar T X D CallL (vs @ ts) x"
    have goes_on: "leads U src p (call_member U P asg (Suc m) start k x) ?Q q"
      if h: "at_after U src p us q" "us \<noteq> []" "t_Type (nxt U p) \<noteq> EOF" "grammar T X D CallL (vs @ us) x" for us x q
    proof -
      have "left src q < min k (Suc m)" using moved [OF h(1-3)] a(2) by simp linarith
      then show ?thesis by (intro parses_at_rule [OF h(1) Suc.IH [OF h(4)]]) (simp_all, erule found, simp)
    qed
    have again: "leads U src p (bind_action act (call_member U P asg (Suc m) start k)) ?Q q"
      if h: "parses_at U src (Suc m) C G act" "at_after U src p ts q" "C (nxt U q)" "t_Type (nxt U p) \<noteq> EOF"
        "\<And>us x. G us x \<Longrightarrow> ts @ us \<noteq> [] \<and> grammar T X D CallL (vs @ ts @ us) x" for act C G ts q
    proof (rule leads_bind, rule parses_at_rule [OF h(2,1) _ h(3)], goal_cases)
      case 1
      then show ?case using at_afterD(3) [OF h(2)] a(2) by simp
    next
      case (2 us x q')
      then show ?case using h(5) [OF 2(1)] by (intro goes_on [OF 2(2) _ h(4)]) auto
    qed
    show "leads U src p (call_member U P asg (Suc m) start (Suc k) e) ?Q p"
      unfolding call_member.simps Let_def
    proof (rule leads_bind, rule peek_rule [OF a(1)], goal_cases)
      case (1 q)
      note q = 1(1,2)
      show ?case
        apply (rule if_rule)
         apply (rule leads_bind, rule advance_rule [OF q(1)])
         apply (rule leads_bind, erule next_rule, rule if_rule)
          apply (erule again [OF call_rest_parses [OF A]], simp, simp)
          apply (elim exE conjE, use q(2) grammar.optional_call [OF g] in simp)
         apply (rule leads_bind, erule next_rule, rule if_rule)
          apply (erule again [OF index_access_parses [OF A]], simp, simp)
          apply (elim exE conjE, use q(2) grammar.optional_index [OF g] in simp)
         apply (erule again [OF reads_parses_at [OF member_access_reads]], simp, simp)
         apply (elim exE conjE, use q(2) grammar.optional_member [OF g] in simp)
        apply (rule if_rule)
         apply (rule leads_bind, rule advance_rule [OF q(1)])
         apply (erule again [OF reads_parses_at [OF member_access_reads]], simp, simp)
         apply (elim exE conjE, use q(2) grammar.member [OF g] in simp)
        apply (rule if_rule)
         apply (rule again [OF index_access_parses [OF A] q(1)], simp add: q(2), simp)
         apply (elim exE conjE, use grammar.index [OF g] chain_ends(1) in \<open>simp, blast\<close>)
        apply (rule if_rule)
         apply (rule leads_bind, rule advance_rule [OF q(1)])
         apply (rule leads_bind, erule update_rule, simp_all only: blank_fields)
         apply (erule again [OF make_parses_at], simp, simp)
         apply (use q(2) grammar.non_null [OF g] in force)
        apply (rule if_rule)
         apply (rule if_rule, rule leads_return, rule found [OF q(1)], simp add: g)
         apply (rule leads_bind, rule parses_at_rule [OF q(1) typed_call_parses [OF P A]])
           apply (use a(2) 1(3) in simp, simp add: q(2))
         subgoal for us r q'
           apply (cases r)
            apply (simp, rule leads_return, erule found, simp add: typed_result_def g)
           apply (simp, rule goes_on, assumption, erule chain_ends(4), simp)
           apply (erule typed_result_grammar [OF g, rotated], simp)
           done
        apply (rule if_rule)
         apply (rule again [OF call_rest_parses [OF A] q(1)], simp add: q(2), simp)
         apply (elim exE conjE, use grammar.call [OF g] chain_ends(2) in \<open>simp, blast\<close>)
        apply (rule if_rule)
         apply (rule again [OF tagged_template_parses [OF A] q(1)], simp add: q(2), force)
         apply (elim exE conjE, use grammar.tagged [OF g] chain_ends(3) in \<open>simp, blast\<close>)
        apply (rule leads_return, rule found [OF q(1)], simp add: g)
        done
    qed
  qed
qed (simp add: parses_at_def)

lemma bare_arrow_rule: "(\<And>b. Q b q) \<Longrightarrow> leads U src p0 (always (is_bare_arrow e)) Q q"
  by (simp add: leads_def always_def is_bare_arrow_def)

lemma parseCallMember_parses:
  assumes P: "productions_read U src T X D P" and A: "parses U src m (grammar T X D AssignmentL) asg"
  shows "parses U src (Suc m) (grammar T X D CallL) (parseCallMember U P asg (Suc m))"
  unfolding parseCallMember_def
  apply (rule parsesI)
  apply (rule leads_bind, erule peek_rule)
  apply (rule leads_bind, erule parses_rule [OF _ parsePrimary_parses [OF P A]], simp, simp)
  apply (rule leads_bind, rule bare_arrow_rule, rule if_rule)
   apply (rule leads_return, erule found, rule grammar.tighter, simp)
  apply (erule parses_at_rule [OF _ call_member_parses [OF P A]])
     apply (rule grammar.tighter, simp, simp, simp)
  apply (erule found, simp)
  done

section \<open>Unary operators\<close>

lemma parsePostfix_parses:
  assumes P: "productions_read U src T X D P" and A: "parses U src m (grammar T X D AssignmentL) asg"
  shows "parses U src (Suc m) (grammar T X D PostfixL) (parsePostfix U P asg (Suc m))"
  unfolding parsePostfix_def
  apply (rule parsesI)
  apply (rule leads_bind, erule parses_rule [OF _ parseCallMember_parses [OF P A]], assumption, assumption)
  apply (rule leads_bind, erule peek_rule, rule if_rule)
   apply (rule leads_bind, erule advance_rule, rule if_rule, erule leads_reject_at)
   apply (erule make_rule, erule found)
   apply (simp, rule grammar.postfix, simp_all)[1]
  apply (rule leads_return, erule found, rule grammar.tighter, simp)
  done

lemma prefix_result_rule:
  assumes "at_after U src p0 ts p" "t_Type t \<in> prefix_operators"
    and "\<And>e q. prefix_makes t arg e \<Longrightarrow> at_after U src p0 ts q \<Longrightarrow> Q e q"
  shows "leads U src p0 (prefix_result U t arg) Q p"
  unfolding prefix_result_def Let_def
  apply (rule if_rule, rule make_rule [OF assms(1)], rule assms(3), simp add: prefix_makes_def, assumption)
  apply (rule if_rule, rule leads_bind, rule make_rule [OF assms(1)], rule if_rule)
    apply (rule leads_return, rule assms(3), simp add: prefix_makes_def, assumption)
   apply (erule make_rule, rule assms(3), simp add: prefix_makes_def, assumption)
  apply (rule if_rule, rule if_rule, rule leads_reject_at [OF assms(1)])
   apply (rule make_rule [OF assms(1)], rule assms(3), auto simp: prefix_makes_def)[1]
  apply (rule if_rule, rule make_rule [OF assms(1)], rule assms(3), simp add: prefix_makes_def, assumption)
  apply (rule make_rule [OF assms(1)], rule assms(3))
   apply (use assms(2) in \<open>auto simp: prefix_makes_def prefix_operators_def\<close>)
  done

lemma generic_ahead_rule:
  assumes P: "productions_read U src T X D P" and a: "at_after U src p0 ts p" "fresh p" "left src p < n"
    and Q: "\<And>b q. at_after U src p0 ts q \<Longrightarrow> fresh q \<Longrightarrow> left src q = left src p \<Longrightarrow>
      nxt U q = nxt U p \<or> t_Type (nxt U q) = LT \<Longrightarrow> Q b q"
  shows "leads U src p0 (both (next_is U LT) (genericArrowAhead U P n)) Q p"
proof (rule both_rule, rule next_rule [OF a(1)], simp only: split: if_split, intro conjI impI, goal_cases)
  case (1 q)
  then have f: "fresh q" "enough src 0 n (ps_pos q)" using a(2,3) by (simp_all add: enough_left)
  show ?case
  proof (rule leads_probe [OF genericArrowAhead_probes [OF P] 1(1) f], goal_cases)
    case (1 b r)
    have "raw U q = nxt U p" using raw_nxt [OF at_afterD(1) [OF \<open>at_after U src p0 ts q\<close>]] \<open>nxt U q = nxt U p\<close> \<open>t_Type (nxt U p) = LT\<close> by simp
    then have "nxt U r = raw U r" using nxt_raw [OF at_afterD(1) [OF 1(2)]] 1(5) \<open>t_Type (nxt U p) = LT\<close> by simp
    then show ?case using 1 \<open>raw U q = nxt U p\<close> \<open>left src q = left src p\<close> by (intro Q) simp_all
  qed
next
  case (2 q)
  then show ?case using a(2) by (intro Q) simp_all
qed

lemma cast_parses:
  assumes P: "productions_read U src T X D P" and A: "parses U src k (grammar T X D UnaryL) unary"
  shows "parses_at U src (Suc k) (\<lambda>t. t_Type t = LT) (\<lambda>ts e. grammar T X D UnaryL ts e \<and> grammar T X D BaseL ts e) (cast U P unary)"
  unfolding cast_def
  apply (rule parses_atI)
  apply (rule leads_bind, erule advance_rule)
  apply (rule leads_bind, erule reads_rule [OF _ productionsD(1) [OF P]])
  apply (rule leads_bind, erule expectGT_rule)
  apply (rule leads_bind, erule parses_rule [OF _ A], assumption, simp)
  apply (rule leads_bind, unfold Parser_assert_def Let_def, erule update_rule, simp_all)
  apply (rule leads_return, erule found, rule conjI, rule grammar.cast, simp_all)
  apply (rule grammar.base_cast, simp_all)
  done

text \<open>A unary expression, and whether it may be the base of a power.\<close>

definition unary_from :: "(Token list \<Rightarrow> 'a \<Rightarrow> bool) \<Rightarrow> (Token list \<Rightarrow> 'a expr \<Rightarrow> bool) \<Rightarrow> (Token list \<Rightarrow> 'a \<Rightarrow> bool)
    \<Rightarrow> Token \<Rightarrow> Token list \<Rightarrow> 'a expr \<Rightarrow> bool" where
  "unary_from T X D t ts e \<longleftrightarrow> grammar T X D UnaryL ts e \<and> (unaryOperatorStart t e = [] \<longrightarrow> grammar T X D BaseL ts e)"

lemma unary_from_delete:
  "t_Type t = IDENT \<Longrightarrow> t_Literal t = ''delete'' \<Longrightarrow> grammar T X D UnaryL ts a \<Longrightarrow>
    unary_from T X D t (t # ts) (Expr r (posOf t) (UnaryExpression ''delete'' a))"
  using grammar.delete [of t T X D ts a r] by (simp add: unary_from_def unaryOperatorStart_def)

lemma unary_from_prefix:
  assumes "t_Type t \<in> prefix_operators" "grammar T X D UnaryL ts a" "prefix_makes t a e"
    and "t_Type t \<in> unary_types \<Longrightarrow> t_Literal t \<noteq> []"
  shows "unary_from T X D t (t # ts) e"
proof (cases "t_Type t \<in> {INC, DEC}")
  case True
  then show ?thesis using grammar.prefix [OF assms(1-3)] grammar.base_update [OF _ assms(2,3)] by (simp add: unary_from_def)
next
  case False
  then have "unaryOperatorStart t e \<noteq> []"
    using assms(1,3,4) by (auto simp: prefix_operators_def unary_types_def unaryOperatorStart_def prefix_makes_def)
  then show ?thesis using grammar.prefix [OF assms(1-3)] by (simp add: unary_from_def)
qed

lemma unary_from_postfix: "grammar T X D PostfixL ts e \<Longrightarrow> unary_from T X D t ts e"
  using grammar.tighter [of T X D UnaryL ts e] grammar.tighter [of T X D BaseL ts e] by (simp add: unary_from_def)

lemma unary_leads:
  assumes P: "productions_read U src T X D P" and A: "parses U src m (grammar T X D AssignmentL) asg"
  shows "at_after U src p [] p \<Longrightarrow> fresh p \<Longrightarrow> left src p < min k (Suc m) \<Longrightarrow>
    leads U src p (parseUnary U P asg (Suc m) k) (\<lambda>e q. \<exists>ts. at_after U src p ts q \<and> unary_from T X D (nxt U p) ts e) p"
proof (induction k arbitrary: p)
  case (Suc k)
  have IH: "parses U src (min k (Suc m)) (grammar T X D UnaryL) (parseUnary U P asg (Suc m) k)"
    by (rule parsesI, rule leads_mono [OF Suc.IH], assumption+) (auto simp: unary_from_def)
  have IH': "parses U src (min k m) (grammar T X D UnaryL) (parseUnary U P asg (Suc m) k)"
    by (rule parses_mono [OF IH]) simp
  note p = Suc.prems
  have spelt: "t_Type (nxt U p) \<in> unary_types \<Longrightarrow> t_Literal (nxt U p) \<noteq> []"
    using unary_spelt [OF at_afterD(1) [OF p(1)]] .
  show ?case
    unfolding parseUnary.simps
    apply (rule leads_bind, rule word_rule [OF p(1)], rule if_rule)
     apply (rule leads_bind, erule advance_rule)
     apply (rule leads_bind, erule parses_rule [OF _ IH], assumption)
      apply (use p(3) in force)
     apply (erule make_rule, erule found, simp add: unary_from_delete)
    apply (rule leads_bind, erule generic_ahead_rule [OF P], use p(2) in simp, use p(3) in simp)
    apply (rule if_rule, erule reads_rule [OF _ productionsD(5) [OF P]], erule found)
     apply (simp add: unary_from_def grammar.generic grammar.base_generic)
    apply (rule leads_bind, erule next_rule, rule if_rule)
     apply (erule parses_at_rule [OF _ cast_parses [OF P IH']], use p(3) in force, simp)
     apply (erule found, simp add: unary_from_def)
    apply (rule leads_bind, erule peek_rule, rule if_rule)
     apply (rule leads_bind, erule advance_rule)
     apply (rule leads_bind, erule parses_rule [OF _ IH], assumption)
      apply (use p(3) in \<open>force simp: prefix_operators_def\<close>)
     apply (erule prefix_result_rule, simp, erule found)
     apply (use spelt in \<open>simp add: unary_from_prefix\<close>)
    apply (erule parses_rule [OF _ parsePostfix_parses [OF P A]], simp, use p(3) in simp)
    apply (erule found, simp add: unary_from_postfix)
    done
qed simp

lemma parseExponentiation_parses:
  assumes P: "productions_read U src T X D P" and A: "parses U src m (grammar T X D AssignmentL) asg"
  shows "parses U src (min k (Suc m)) (grammar T X D ExponentL) (parseExponentiation U P asg (Suc m) k)"
proof (induction k)
  case (Suc k)
  have unary: "leads U src p0 (parseUnary U P asg (Suc m) (Suc m)) Q q"
    if a: "at_after U src p0 ts q" "fresh q" "left src q < Suc m"
      "\<And>us e q'. unary_from T X D (nxt U q) us e \<Longrightarrow> at_after U src p0 (ts @ us) q' \<Longrightarrow> left src q' \<le> left src q \<Longrightarrow> Q e q'"
    for p0 ts Q and q :: "'a expr_parser"
  proof (rule leads_from [OF unary_leads [OF P A at_after_start [OF at_afterD(1) [OF a(1)]] a(2)] a(1)])
    show "Q x r" if "\<exists>us. at_after U src q us r \<and> unary_from T X D (nxt U q) us x" for x r
      using that a(4) at_after_trans [OF a(1)] at_afterD(3) by blast
  qed (use a(3) in simp)
  show ?case
    unfolding parseExponentiation.simps Let_def
    apply (rule parsesI)
    apply (rule leads_bind, erule peek_rule)
    apply (rule leads_bind, erule unary, simp, simp)
    apply (rule leads_bind, erule type_rule, rule if_rule)
     apply (rule leads_return, erule found, rule grammar.tighter, simp add: unary_from_def)
    apply (rule if_rule, erule leads_reject_at)
    apply (rule leads_bind, erule advance_rule)
    apply (rule leads_bind, erule parses_rule [OF _ Suc], assumption, force)
    apply (erule make_rule, erule found)
    apply (simp, rule grammar.power, simp_all add: unary_from_def)
    done
qed (simp add: parses_def)

end
