(* ===== verification/Levels.thy ===== *)
theory Levels
  imports Chains
begin

text \<open>
  The levels of the operators, up to an assignment, follow the grammar.
\<close>

declare binary_rest.simps [simp del] relational_rest.simps [simp del]

section \<open>Left-associative operators\<close>

text \<open>A question whether an operator of the level is next.\<close>

definition asks :: "unicode_tables \<Rightarrow> string \<Rightarrow> level \<Rightarrow> ('x parser_scheme, bool) parse_action \<Rightarrow> bool" where
  "asks U src l act \<longleftrightarrow>
    (\<forall>p. on_stream U src p \<longrightarrow> leads U src p act (\<lambda>b q. at_after U src p [] q \<and> (b \<longrightarrow> operator l (nxt U q))) p)"

lemma asksI:
  assumes "\<And>p. at_after U src p [] p \<Longrightarrow> leads U src p act (\<lambda>b q. at_after U src p [] q \<and> (b \<longrightarrow> operator l (nxt U q))) p"
  shows "asks U src l act"
  unfolding asks_def using assms at_after_start by blast

lemma operator_live: "operator l t \<Longrightarrow> t_Type t \<noteq> EOF"
  by (auto simp: operator_def split: level.splits)

lemma asks_rule:
  assumes "asks U src l act" "at_after U src p0 ts p"
    and "\<And>b q. at_after U src p0 ts q \<Longrightarrow> left src q \<le> left src p \<Longrightarrow> b \<longrightarrow> operator l (nxt U q) \<and> t_Type (nxt U q) \<noteq> EOF \<Longrightarrow> Q b q"
  shows "leads U src p0 act Q p"
proof (rule leads_from [OF _ assms(2)])
  show "leads U src p act (\<lambda>b q. at_after U src p [] q \<and> (b \<longrightarrow> operator l (nxt U q))) p"
    using assms(1) at_afterD(1) [OF assms(2)] by (simp add: asks_def)
  show "Q b q" if h: "at_after U src p [] q \<and> (b \<longrightarrow> operator l (nxt U q))" for b q
    using h assms(3) at_after_trans [OF assms(2)] at_afterD(3) operator_live by fastforce
qed

lemma binary_rest_parses:
  assumes a: "asks U src l ahead" and o: "parses U src (Suc m) (grammar T X D (tighter l)) operand"
  shows "grammar T X D l vs e \<Longrightarrow>
    parses_at U src (min k (Suc m)) (\<lambda>_. True) (\<lambda>us x. grammar T X D l (vs @ us) x) (binary_rest U ahead operand k e)"
proof (induction k arbitrary: vs e)
  case (Suc k)
  note g = Suc.prems
  have again: "leads U src p0 (binary_rest U ahead operand k x) (\<lambda>x q. \<exists>ts. at_after U src p0 ts q \<and> grammar T X D l (vs @ ts) x) q"
    if "at_after U src p0 us q" "grammar T X D l (vs @ us) x" "left src q < min k (Suc m)" for us x p0 q
    by (rule parses_at_rule [OF that(1) Suc.IH [OF that(2)] that(3)]) auto
  show ?case
    unfolding binary_rest.simps
    apply (rule parses_atI)
    apply (rule leads_bind, erule asks_rule [OF a], rule if_rule)
     apply (rule leads_return, erule found, simp add: g)
    apply (rule leads_bind, erule advance_rule)
    apply (rule leads_bind, erule parses_rule [OF _ o], assumption)
     apply simp
    apply (rule leads_bind, erule make_rule, erule again)
     apply (simp, rule grammar.binary [OF g], simp, assumption)
    apply (simp only: min_less_iff_conj, intro conjI; simp; linarith)
    done
qed (simp add: parses_at_def)

lemma binary_level_parses:
  assumes "asks U src l ahead" "parses U src (Suc m) (grammar T X D (tighter l)) operand"
  shows "parses U src (Suc m) (grammar T X D l) (binary_level U ahead operand (Suc m))"
  unfolding binary_level_def
  apply (rule parsesI)
  apply (rule leads_bind, erule parses_rule [OF _ assms(2)], assumption, assumption)
  apply (erule parses_at_rule [OF _ binary_rest_parses [OF assms]], rule grammar.tighter, assumption, simp, simp)
  apply (erule found, simp)
  done

lemma asks_next: "(\<And>t. t_Type t = typ \<Longrightarrow> operator l t) \<Longrightarrow> asks U src l (next_is U typ)"
  by (rule asksI, erule next_rule) simp

lemma asks_type: "(\<And>t. t_Type t \<in> typs \<Longrightarrow> operator l t) \<Longrightarrow> asks U src l (type_in U typs)"
  by (rule asksI, erule type_rule) simp

lemma asks_operator:
  "k \<notin> {YIELD, AWAIT, IDENT} \<Longrightarrow> (\<And>t. t_Type t \<in> insert k others \<Longrightarrow> operator l t) \<Longrightarrow> asks U src l (operator_in U k others)"
  by (rule asksI, erule leads_operator_in) auto

lemma asks_either: "asks U src l a \<Longrightarrow> asks U src l b \<Longrightarrow> asks U src l (either a b)"
  unfolding either_def
  apply (rule asksI)
  apply (rule leads_bind, erule asks_rule, assumption, rule if_rule)
   apply (rule leads_return, simp)
  apply (erule asks_rule, assumption, simp)
  done

lemma asks_in: "asks U src RelationalL (both (word U ''in'') (not_excluded U))"
  apply (rule asksI, rule both_rule, erule word_rule)
  apply (simp only: split: if_split, intro conjI impI)
   apply (erule glance_rule [OF _ not_excluded_glances])
   apply (simp_all add: operator_def)
  done

lemma asks_relational: "asks U src RelationalL (relational_ahead U)"
  unfolding relational_ahead_def
  by (intro asks_either asks_operator asks_in) (auto simp: operator_def)

section \<open>Arithmetic\<close>

lemma parseShift_parses:
  assumes "productions_read U src T X D P" "parses U src m (grammar T X D AssignmentL) asg"
  shows "parses U src (Suc m) (grammar T X D ShiftL) (parseShift U P asg (Suc m))"
proof -
  have "parses U src (Suc m) (grammar T X D MultiplicativeL) (parseMultiplicative U P asg (Suc m))"
    unfolding parseMultiplicative_def
    by (rule binary_level_parses [OF asks_operator]) (use parseExponentiation_parses [OF assms, of "Suc m"] in \<open>auto simp: operator_def\<close>)
  then have "parses U src (Suc m) (grammar T X D AdditiveL) (parseAdditive U P asg (Suc m))"
    unfolding parseAdditive_def by (intro binary_level_parses asks_type) (auto simp: operator_def)
  then show ?thesis
    unfolding parseShift_def by (intro binary_level_parses asks_operator) (auto simp: operator_def)
qed

section \<open>Assertions and relations\<close>

lemma assert_rule:
  "at_after U src p0 ts p \<Longrightarrow> (\<And>q. at_after U src p0 ts q \<Longrightarrow> Q () q) \<Longrightarrow> leads U src p0 (Parser_assert e f) Q p"
  unfolding Parser_assert_def Let_def by (erule update_rule) simp_all

text \<open>Where an assertion stands after an expression, and what it makes of it.\<close>

definition asserted_from :: "(Token list \<Rightarrow> 'a \<Rightarrow> bool) \<Rightarrow> (Token list \<Rightarrow> 'a expr \<Rightarrow> bool) \<Rightarrow> (Token list \<Rightarrow> 'a \<Rightarrow> bool)
    \<Rightarrow> Token list \<Rightarrow> Token list \<Rightarrow> 'a expr \<times> bool \<Rightarrow> bool" where
  "asserted_from T X D vs us r \<longleftrightarrow> grammar T X D RelationalL (vs @ us) (fst r) \<and> (if snd r then us \<noteq> [] \<and> t_Type (hd us) = IDENT else us = [])"

lemma parseAssertion_parses:
  assumes P: "productions_read U src T X D P" and g: "grammar T X D RelationalL vs e"
  shows "parses_at U src n (\<lambda>_. True) (\<lambda>us r. asserted_from T X D vs us r) (parseAssertion U P e)"
proof -
  have c: "asserted_from T X D vs [w, c] (e, True)"
    if "t_Type w = IDENT" "t_Literal w = ''as''" "\<not> HasPrecedingLineBreak w" "t_Type c = CONSTK" for w c
    using grammar.as_const [OF g that] that(1) by (simp add: asserted_from_def)
  have s: "asserted_from T X D vs (w # us) (e, True)"
    if "t_Type w = IDENT" "t_Literal w = ''satisfies''" "\<not> HasPrecedingLineBreak w" "T us a" for w us a
    using grammar.satisfies [where T = T, OF g that] that(1) by (simp add: asserted_from_def)
  have a: "asserted_from T X D vs (w # us) (e', True)"
    if "t_Type w = IDENT" "t_Literal w = ''as''" "\<not> HasPrecedingLineBreak w" "T us a"
      "e' = (case assertableCall e a of Some c \<Rightarrow> c | None \<Rightarrow> Expr r (posOf w) (AsExpression e a))" for w us a e' r
    using grammar.as_type [where T = T, OF g that] that(1) by (simp add: asserted_from_def)
  have rest: "leads U src p (bind_action (typeAnnotation P ''as'') (\<lambda>ta.
        if t_Literal w = ''satisfies''
        then bind_action (Parser_assert e (a_Satisfies_update (\<lambda>_. Some ta))) (\<lambda>_. return (e, True))
        else (case assertableCall e ta of
            Some c \<Rightarrow> return (c, True)
          | None \<Rightarrow> bind_action (Lookahead.make (AsExpression e ta) (posOf w)) (\<lambda>c. return (c, True)))))
      (\<lambda>x q. \<exists>ts. at_after U src p ts q \<and> asserted_from T X D vs ts x) q"
    if h: "at_after U src p [w] q" "t_Type w = IDENT" "t_Literal w = ''as'' \<or> t_Literal w = ''satisfies''" "\<not> HasPrecedingLineBreak w" for p q w
  proof (rule leads_bind, rule reads_rule [OF h(1) productionsD(1) [OF P]], goal_cases)
    case (1 us ta r)
    have f: "at_after U src p (w # us) r" using 1(2) by simp
    show ?case
    proof (rule if_rule)
      assume "t_Literal w = ''satisfies''"
      from s [OF h(2) this h(4) 1(1)] show "leads U src p (bind_action (Parser_assert e (a_Satisfies_update (\<lambda>_. Some ta))) (\<lambda>_. return (e, True)))
        (\<lambda>x q. \<exists>ts. at_after U src p ts q \<and> asserted_from T X D vs ts x) r"
        by (intro leads_bind assert_rule [OF f] leads_return) auto
    next
      assume "t_Literal w \<noteq> ''satisfies''"
      then have w: "t_Literal w = ''as''" using h(3) by simp
      show "leads U src p (case assertableCall e ta of Some c \<Rightarrow> return (c, True)
          | None \<Rightarrow> bind_action (Lookahead.make (AsExpression e ta) (posOf w)) (\<lambda>c. return (c, True)))
        (\<lambda>x q. \<exists>ts. at_after U src p ts q \<and> asserted_from T X D vs ts x) r"
        using a [OF h(2) w h(4) 1(1)] f
        by (cases "assertableCall e ta") (auto intro!: leads_bind make_rule leads_return)
    qed
  qed
  show ?thesis
    unfolding parseAssertion_def
    apply (rule parses_atI)
    apply (rule leads_bind, erule peek_rule, rule if_rule)
     apply (rule leads_return, erule found, simp add: asserted_from_def g)
    apply (rule leads_bind, erule advance_rule)
    apply (rule leads_bind, rule if_rule)
     apply (erule next_rule, rule if_rule)
      apply (rule leads_bind, erule advance_rule)
      apply (rule leads_bind, erule assert_rule)
      apply (rule leads_return, erule found, simp, rule c, simp_all)[1]
     apply (rule rest, simp, simp_all)[1]
    apply (rule leads_return, simp only: if_False)
    apply (rule rest, simp, simp_all)
    done
qed

lemma took_live:
  assumes "at_after U src p (t # ts) q" "t_Type t \<noteq> EOF"
  shows "left src q < left src p"
proof -
  obtain m where m: "stream_ok U src m p" "took U p (t # ts) q" using assms(1) unfolding at_after_def on_stream_def by blast
  obtain m' where m': "tokens_read U src m' (ps_pos p) (t # ts)" "ps_pos q = ps_pos p + length (t # ts)"
    using took_continues [OF m(2,1)] unfolding continues_def by blast
  have "reads_as t (stream_token U src m' (ps_pos p))" using m'(1) by (force simp: tokens_read_def)
  then have "t_Type (stream_token U src m' (ps_pos p)) \<noteq> EOF" using assms(2) by (auto simp: reads_as_def)
  then show ?thesis using stream_bound [of U src m' "ps_pos p"] m'(2) by (simp add: left_def)
qed

lemma relational_rest_parses:
  assumes P: "productions_read U src T X D P" and o: "parses U src (Suc m) (grammar T X D ShiftL) operand"
  shows "grammar T X D RelationalL vs e \<Longrightarrow>
    parses_at U src (min k (Suc m)) (\<lambda>_. True) (\<lambda>us x. grammar T X D RelationalL (vs @ us) x) (relational_rest U P operand k e)"
proof (induction k arbitrary: vs e)
  case (Suc k)
  note g = Suc.prems
  have again: "leads U src p0 (relational_rest U P operand k x) (\<lambda>x q. \<exists>ts. at_after U src p0 ts q \<and> grammar T X D RelationalL (vs @ ts) x) q"
    if "at_after U src p0 us q" "grammar T X D RelationalL (vs @ us) x" "left src q < min k (Suc m)" for us x p0 q
    by (rule parses_at_rule [OF that(1) Suc.IH [OF that(2)] that(3)]) auto
  show ?case
    unfolding relational_rest.simps
  proof (rule parses_atI, rule leads_bind, erule parses_at_rule [OF _ parseAssertion_parses [OF P g]], assumption, simp,
      simp only: split_paired_all prod.case, rule if_rule, goal_cases)
    case (1 p us x b q)
    have "t_Type (hd us) \<noteq> EOF" "us = hd us # tl us" using 1 by (auto simp: asserted_from_def)
    then have "left src q < left src p" using took_live [of U src p "hd us" "tl us" q] 1 by simp
    then show ?case using 1 by (intro again [of _ us]) (auto simp: asserted_from_def)
  next
    case (2 p us x b q)
    then have f: "at_after U src p [] q" "grammar T X D RelationalL vs x" by (auto simp: asserted_from_def)
    have bound: "left src q < Suc k" "left src q < Suc m" using 2 by simp_all
    show ?case
      apply (rule leads_bind, rule asks_rule [OF asks_relational f(1)], rule if_rule)
       apply (rule leads_return, erule found, simp add: f)
      apply (rule leads_bind, erule advance_rule)
      apply (rule leads_bind, erule peek_rule)
      apply (rule leads_bind, erule parses_rule [OF _ o], simp)
       apply (use 2 in simp)
      apply (rule leads_bind, rule bare_arrow_rule, rule if_rule, erule leads_reject_at)
      apply (rule leads_bind, erule make_rule, erule again)
       apply (simp, rule grammar.binary [OF f(2)], simp, simp)
      apply (simp only: min_less_iff_conj, intro conjI; simp; use bound in linarith)
      done
  qed
qed (simp add: parses_at_def)

lemma brand_check_rule:
  assumes "at_after U src p0 ts p"
    and "\<And>b q. at_after U src p0 ts q \<Longrightarrow> nxt U q = nxt U p \<Longrightarrow> left src q = left src p \<Longrightarrow> fresh q = fresh p \<Longrightarrow>
      b \<longrightarrow> t_Type (nxt U p) = PRIVATE_NAME \<Longrightarrow> Q b q"
  shows "leads U src p0 (brand_check U) Q p"
  unfolding brand_check_def
  apply (rule both_rule, rule type_rule [OF assms(1)])
  apply (simp only: split: if_split, intro conjI impI)
   apply (erule glance_rule, intro glances_logic glances_simps not_excluded_glances)
   apply (rule assms(2), simp_all)
  apply (rule assms(2), simp_all)
  done

lemma parseRelational_parses:
  assumes P: "productions_read U src T X D P" and A: "parses U src m (grammar T X D AssignmentL) asg"
  shows "parses U src (Suc m) (grammar T X D RelationalL) (parseRelational U P asg (Suc m))"
proof -
  note shift = parseShift_parses [OF P A]
  note rest = relational_rest_parses [OF P shift]
  show ?thesis
    unfolding parseRelational_def
    apply (rule parsesI)
    apply (rule leads_bind, erule brand_check_rule)
    apply (rule leads_bind, rule if_rule)
     apply (rule leads_bind, erule advance_rule)
     apply (erule make_rule, erule parses_at_rule [OF _ rest], rule grammar.brand, simp, simp, simp)
     apply (erule found, simp)
    apply (erule parses_rule [OF _ shift], simp, simp)
    apply (erule parses_at_rule [OF _ rest], rule grammar.tighter, simp, simp, simp)
    apply (erule found, simp)
    done
qed

section \<open>The levels above\<close>

lemma parseNullish_parses:
  assumes "productions_read U src T X D P" "parses U src m (grammar T X D AssignmentL) asg"
  shows "parses U src (Suc m) (grammar T X D NullishL) (parseNullish U P asg (Suc m))"
proof -
  have "parses U src (Suc m) (grammar T X D EqualityL) (parseEquality U P asg (Suc m))"
    unfolding parseEquality_def using parseRelational_parses [OF assms]
    by (intro binary_level_parses asks_type) (auto simp: operator_def)
  then have "parses U src (Suc m) (grammar T X D BitAndL) (parseBitwiseAnd U P asg (Suc m))"
    unfolding parseBitwiseAnd_def by (intro binary_level_parses asks_next) (auto simp: operator_def)
  then have "parses U src (Suc m) (grammar T X D BitXorL) (parseBitwiseXor U P asg (Suc m))"
    unfolding parseBitwiseXor_def by (intro binary_level_parses asks_next) (auto simp: operator_def)
  then have "parses U src (Suc m) (grammar T X D BitOrL) (parseBitwiseOr U P asg (Suc m))"
    unfolding parseBitwiseOr_def by (intro binary_level_parses asks_next) (auto simp: operator_def)
  then have "parses U src (Suc m) (grammar T X D AndL) (parseLogicalAnd U P asg (Suc m))"
    unfolding parseLogicalAnd_def by (intro binary_level_parses asks_next) (auto simp: operator_def)
  then have "parses U src (Suc m) (grammar T X D OrL) (parseLogicalOr U P asg (Suc m))"
    unfolding parseLogicalOr_def by (intro binary_level_parses asks_next) (auto simp: operator_def)
  then show ?thesis
    unfolding parseNullish_def by (intro binary_level_parses asks_next) (auto simp: operator_def)
qed

lemma parseTernary_parses:
  assumes P: "productions_read U src T X D P" and A: "parses U src m (grammar T X D AssignmentL) asg"
  shows "parses U src (Suc m) (grammar T X D ConditionalL) (parseTernary U P asg (Suc m))"
  unfolding parseTernary_def
  apply (rule parsesI)
  apply (rule leads_bind, erule parses_rule [OF _ parseNullish_parses [OF assms]], assumption, assumption)
  apply (rule leads_bind, erule next_rule, rule if_rule)
   apply (rule leads_return, erule found, rule grammar.tighter, simp)
  apply (rule leads_bind, erule advance_rule)
  apply (rule leads_bind, erule parses_rule [OF _ A], assumption, simp)
  apply (rule leads_bind, erule expect_rule)
  apply (rule leads_bind, erule parses_rule [OF _ A], assumption, simp)
  apply (erule make_rule, erule found)
  apply (simp, rule grammar.conditional, simp_all)
  done

section \<open>Assignments\<close>

lemma parseYield_parses:
  assumes A: "parses U src m (grammar T X D AssignmentL) asg"
  shows "parses_at U src (Suc m) (\<lambda>t. t_Literal t = ''yield'' \<and> t_Type t \<noteq> EOF) (grammar T X D AssignmentL) (parseYield U asg)"
proof (rule parses_atI)
  fix p :: "'a expr_parser" assume a: "at_after U src p [] p" "left src p < Suc m" "t_Literal (nxt U p) = ''yield'' \<and> t_Type (nxt U p) \<noteq> EOF"
  let ?Q = "\<lambda>x q. \<exists>ts. at_after U src p ts q \<and> grammar T X D AssignmentL ts x"
  let ?y = "nxt U p" and ?pos = "posOf (nxt U p)"
  have operand: "leads U src p
      (bind_action (if d then return False else bind_action (always (Parser_peek U)) (\<lambda>t. return (HasPrecedingLineBreak t))) (\<lambda>bare.
       if bare then Lookahead.make (YieldExpression None d) ?pos
       else bind_action (type_in U {SEMICOLON, RPAREN, RBRACKET, RBRACE, COMMA, COLON, EOF}) (\<lambda>bare.
         if bare then Lookahead.make (YieldExpression None d) ?pos
         else bind_action asg (\<lambda>arg. Lookahead.make (YieldExpression (Some arg) d) ?pos)))) ?Q q"
    if h: "at_after U src p ts q" "fresh q" "left src q < m"
      "\<And>r. grammar T X D AssignmentL ts (Expr r ?pos (YieldExpression None d))"
      "\<And>r us e. grammar T X D AssignmentL us e \<Longrightarrow> grammar T X D AssignmentL (ts @ us) (Expr r ?pos (YieldExpression (Some e) d))"
    for d ts q
  proof -
    have go: "leads U src p (if bare then Lookahead.make (YieldExpression None d) ?pos
       else bind_action (type_in U {SEMICOLON, RPAREN, RBRACKET, RBRACE, COMMA, COLON, EOF}) (\<lambda>bare.
         if bare then Lookahead.make (YieldExpression None d) ?pos
         else bind_action asg (\<lambda>arg. Lookahead.make (YieldExpression (Some arg) d) ?pos))) ?Q q'"
      if "at_after U src p ts q'" "fresh q'" "left src q' < m" for q' bare
      apply (rule if_rule, rule make_rule [OF that(1)], erule found, rule h(4))
      apply (rule leads_bind, rule type_rule [OF that(1)], rule if_rule, erule make_rule, erule found, rule h(4))
      apply (rule leads_bind, erule parses_rule [OF _ A])
        apply (use that(2,3) in simp_all)[2]
      apply (erule make_rule, erule found, erule h(5))
      done
    show ?thesis
      apply (rule leads_bind, rule if_rule)
       apply (rule leads_return, rule go [OF h(1-3)])
      apply (rule leads_bind, rule peek_rule [OF h(1)], rule leads_return, erule go)
       apply (use h(2,3) in simp_all)
      done
  qed
  have one: "grammar T X D AssignmentL [?y] (Expr r ?pos (YieldExpression None False))"
    "grammar T X D AssignmentL us e \<Longrightarrow> grammar T X D AssignmentL ([?y] @ us) (Expr r ?pos (YieldExpression (Some e) False))" for r us e
    using a(3) grammar.yield [of ?y] grammar.yield_of [of ?y] by simp_all
  have two: "grammar T X D AssignmentL ([?y] @ [s]) (Expr r ?pos (YieldExpression None True))"
    "grammar T X D AssignmentL us e \<Longrightarrow> grammar T X D AssignmentL (([?y] @ [s]) @ us) (Expr r ?pos (YieldExpression (Some e) True))"
    if "t_Type s = STAR" for r us e s
    using a(3) grammar.yield_star [of ?y s] grammar.yield_all [of ?y s] that by simp_all
  have rest: "leads U src p (bind_action (always (Parser_peek U)) (\<lambda>t.
       bind_action (if HasPrecedingLineBreak t then return False else taken U STAR) (\<lambda>delegate.
       bind_action (if delegate then return False else bind_action (always (Parser_peek U)) (\<lambda>t. return (HasPrecedingLineBreak t))) (\<lambda>bare.
       if bare then Lookahead.make (YieldExpression None delegate) ?pos
       else bind_action (type_in U {SEMICOLON, RPAREN, RBRACKET, RBRACE, COMMA, COLON, EOF}) (\<lambda>bare.
         if bare then Lookahead.make (YieldExpression None delegate) ?pos
         else bind_action asg (\<lambda>arg. Lookahead.make (YieldExpression (Some arg) delegate) ?pos)))))) ?Q q"
    if h: "at_after U src p [?y] q" "fresh q" "left src q < m" for q
    apply (rule leads_bind, rule peek_rule [OF h(1)])
    apply (rule leads_bind, rule if_rule)
     apply (rule leads_return, erule operand [OF _ _ _ one])
       apply (use h(2,3) in simp_all)[3]
    apply (erule taken_rule)
     apply (erule operand [OF _ _ _ two])
          apply (use h(2,3) in simp_all)[5]
    apply (erule operand [OF _ _ _ one])
      apply (use h(2,3) in simp_all)
    done
  show "leads U src p (parseYield U asg) ?Q p"
    unfolding parseYield_def
  proof (rule leads_bind, rule advance_rule [OF a(1)], goal_cases)
    case (1 q)
    have q: "at_after U src p [?y] q" "left src q < m" using 1 a(2,3) by simp_all
    have "leads U src p (reject (errAtPos U ?pos YieldInGeneratorParams [])) ?Q q" by (rule leads_reject [OF q(1)])
    then show ?case
      using rest [OF q(1) 1(2) q(2)] unfolding leads_def by (simp add: Let_def)
  qed
qed

text \<open>A \<open>yield\<close>, in a generator or before an operand that shows it is one.\<close>

lemma nxt_yield:
  assumes "on_stream U src q" "t_Type (raw U q) = YIELD"
  shows "t_Literal (nxt U q) = ''yield'' \<and> t_Type (nxt U q) \<noteq> EOF"
  using nxt_reads [OF assms(1)] raw_yield [OF assms] assms(2) by (auto simp: reads_as_def)

lemma outside_glances:
  assumes "on_stream U src p"
  shows "\<exists>b q. yieldExprOutsideGenerator U p = (Inr b, q) \<and> took U p [] q \<and> same U p q \<and> (b \<longrightarrow> t_Type (raw U p) = YIELD)"
proof -
  obtain t p1 where a: "Parser_at U (ps_pos p) p = (t, p1)" by fastforce
  note g = glance_at [OF assms a]
  have t: "t = raw U p" using a by (simp add: raw_def tok_at_def)
  obtain s p2 where b: "Parser_at U (ps_pos p1 + 1) p1 = (s, p2)" by fastforce
  note h = glance_at [OF _ b, of src]
  have "took U p [] p2 \<and> same U p p2" using glance_trans [of U p p1 p2] g h by blast
  then show ?thesis
    using g t a b by (auto simp: yieldExprOutsideGenerator_def bind_always)
qed

lemma yield_ahead_rule:
  assumes a: "at_after U src p0 ts p" "fresh p"
    and Q: "\<And>b q. at_after U src p0 ts q \<Longrightarrow> fresh q \<Longrightarrow> left src q = left src p \<Longrightarrow>
      b \<longrightarrow> t_Literal (nxt U q) = ''yield'' \<and> t_Type (nxt U q) \<noteq> EOF \<Longrightarrow> Q b q"
  shows "leads U src p0 (either (next_is U YIELD) (yieldExprOutsideGenerator U)) Q p"
  unfolding either_def
proof (rule leads_bind, rule next_rule [OF a(1)], rule if_rule, goal_cases)
  case (1 q)
  note s = at_afterD(1) [OF 1(1)]
  have "t_Type (raw U q) = YIELD" using raw_nxt [OF s] 1(2,7) by simp
  then show ?case using 1 a(2) nxt_yield [OF s] by (intro leads_return Q) simp_all
next
  case (2 q)
  obtain b r where r: "yieldExprOutsideGenerator U q = (Inr b, r)" "took U q [] r" "same U q r" "b \<longrightarrow> t_Type (raw U q) = YIELD"
    using outside_glances [OF at_afterD(1) [OF 2(1)]] by blast
  note f = at_after_glance [OF 2(1) r(2)]
  have "raw U r = raw U q" "fresh r" "left src r = left src q" using r(3) 2(4) a(2) by (auto simp: same_def raw_def fresh_def left_def)
  then have "Q b r" using f 2 nxt_yield [OF at_afterD(1) [OF f]] r(4) by (intro Q) auto
  then show ?case using r(1) by (simp add: leads_def)
qed

lemma target_grammar:
  "grammar T X D ConditionalL ts l \<Longrightarrow> t_Type t \<in> assign_operators \<Longrightarrow> target_ok (t_Type t) l parens \<Longrightarrow> grammar T X D AssignmentL us e \<Longrightarrow>
    grammar T X D AssignmentL (ts @ t # us) (Expr r (posOf t) (AssignmentExpression (t_Literal t) l e))"
  by (rule grammar.assignment) (auto simp: target_ok_def Let_def)

lemma assignment_step_parses:
  assumes P: "productions_read U src T X D P" and A: "parses U src m (grammar T X D AssignmentL) asg"
  shows "parses U src (Suc m) (grammar T X D AssignmentL) (assignment_step U P asg (Suc m))"
proof -
  have assign: "leads U src p0 (\<lambda>p. if \<not> target_ok (t_Type t) l (ps_parenLiterals p) then reject_at U t InvalidAssignTarget [] p
        else bind_action asg (\<lambda>right. Lookahead.make (AssignmentExpression (t_Literal t) l right) (posOf t)) p)
      (\<lambda>x q. \<exists>ts. at_after U src p0 ts q \<and> grammar T X D AssignmentL ts x) q"
    if h: "at_after U src p0 (ts @ [t]) q" "fresh q" "left src q < m" "t_Type t \<in> assign_operators" "grammar T X D ConditionalL ts l" for p0 ts t q l
  proof (cases "target_ok (t_Type t) l (ps_parenLiterals q)")
    case True
    have "leads U src p0 (bind_action asg (\<lambda>right. Lookahead.make (AssignmentExpression (t_Literal t) l right) (posOf t)))
      (\<lambda>x q. \<exists>ts. at_after U src p0 ts q \<and> grammar T X D AssignmentL ts x) q"
      apply (rule leads_bind, rule parses_rule [OF h(1) A h(2,3)])
      apply (erule make_rule, erule found)
      apply (simp, rule target_grammar [OF h(5,4) True], assumption)
      done
    then show ?thesis using True by (simp add: leads_def)
  next
    case False
    have "leads U src p0 (reject_at U t InvalidAssignTarget []) (\<lambda>x q. \<exists>ts. at_after U src p0 ts q \<and> grammar T X D AssignmentL ts x) q"
      by (rule leads_reject_at [OF h(1)])
    then show ?thesis using False by (simp add: leads_def)
  qed
  show ?thesis
    unfolding assignment_step_def
    apply (rule parsesI)
    apply (rule leads_bind, erule yield_ahead_rule, assumption, rule if_rule)
     apply (erule parses_at_rule [OF _ parseYield_parses [OF A]], simp, simp)
     apply (erule found, simp)
    apply (rule leads_bind, erule parses_rule [OF _ parseTernary_parses [OF assms]], assumption, simp)
    apply (rule leads_bind, erule leads_peekOperator, rule if_rule)
     apply (rule leads_bind, erule advance_rule, rule assign)
         apply simp
        apply simp
       apply (force simp: assign_operators_def)
      apply (force simp: assign_operators_def)
     apply simp
    apply (rule leads_return, erule found, rule grammar.tighter, simp)
    done
qed

theorem parseAssignment_parses:
  assumes "productions_read U src T X D P"
  shows "parses U src n (grammar T X D AssignmentL) (parseAssignment U P n)"
proof (induction n)
  case (Suc n)
  then show ?case using assignment_step_parses [OF assms] by simp
qed (simp add: parses_def)

end
