(* ===== verification/ExpressionProps.thy ===== *)
theory ExpressionProps
  imports Levels ParserProps
begin














end
